(* ===== verification/SW_Prelude.thy ===== *)
theory SW_Prelude
  imports Main "HOL-Library.Char_ord" "HOL-Library.List_Lexorder" "HOL-Library.Product_Lexorder"
begin

text \<open>
  What every component shares: the types of the values that cross component boundaries (protocol
  errors, JavaScript numbers), the JavaScript list and string functions the code calls
  (\<^verbatim>\<open>new Set\<close>, \<^verbatim>\<open>startsWith\<close>, \<^verbatim>\<open>endsWith\<close>, \<^verbatim>\<open>slice\<close>), and the SQLite statements the
  stores issue (\<^verbatim>\<open>INSERT OR IGNORE\<close>, \<^verbatim>\<open>INSERT OR REPLACE\<close>, \<^verbatim>\<open>UPDATE .. WHERE\<close>,
  \<^verbatim>\<open>DELETE .. WHERE\<close>, \<^verbatim>\<open>SELECT .. WHERE key = ?\<close>) over a table, which is the list of its rows.
  Strings are lists of characters whose codes are the Unicode code points U+0000 to U+00FF; their
  order is the code-unit order that JavaScript's \<^verbatim>\<open><\<close> and SQLite's BINARY collation use.
\<close>

named_theorems sql \<open>behaviour of the table statements\<close>
named_theorems keyed \<open>facts about tables with a primary key\<close>

section \<open>Values shared by the components\<close>

text \<open>
  A JavaScript number where the code expects an integer: \<open>JInt n\<close> is the number n, \<open>JOther\<close> is any
  number that is not an integer (a fraction, NaN, an infinity), which every use in the code refuses.
\<close>

datatype js_number = JInt int | JOther

definition max_safe_integer :: int where
  "max_safe_integer = 2 ^ 53 - 1"

definition isSafeInteger :: "js_number \<Rightarrow> bool" where
  "isSafeInteger v = (case v of JInt n \<Rightarrow> \<bar>n\<bar> \<le> max_safe_integer | JOther \<Rightarrow> False)"

text \<open>
  \<^verbatim>\<open>ProtocolError\<close> of \<^verbatim>\<open>auth/middleware.ts\<close>: the machine-readable code and, for the fencing
  refusals, the structured details. A plain \<^verbatim>\<open>Error\<close> is \<open>JsError\<close>. Message texts are dropped.
\<close>

datatype err_details =
    NoDetails
  | FenceDetails string "js_number option" "int option"

datatype protocol_error =
    ProtocolError (err_code: string) (err_info: err_details)
  | JsError string

type_synonym 'a outcome = "protocol_error + 'a"

definition is_ok :: "'a outcome \<Rightarrow> bool" where
  "is_ok r = (case r of Inl _ \<Rightarrow> False | Inr _ \<Rightarrow> True)"

lemma is_ok_simps [simp]: "is_ok (Inr x)" "\<not> is_ok (Inl e)"
  by (simp_all add: is_ok_def)

text \<open>
  JSON values. Numbers are integers: the modelled code puts no others into the values it compares.
  An object is the list of its properties in enumeration order, so two values are equal iff their
  \<^verbatim>\<open>JSON.stringify\<close> texts are. \<open>js_map_set\<close> is assignment to a property, and \<^verbatim>\<open>Map.set\<close>: a present
  key keeps its place.
\<close>

datatype json = JNull | JBool bool | JNum int | JStr string | JArr "json list" | JObj "(string \<times> json) list"

fun js_map_set :: "'k \<Rightarrow> 'v \<Rightarrow> ('k \<times> 'v) list \<Rightarrow> ('k \<times> 'v) list" where
  "js_map_set k v [] = [(k, v)]"
| "js_map_set k v ((k', v') # m) = (if k' = k then (k, v) # m else (k', v') # js_map_set k v m)"

lemma map_of_js_map_set [simp]: "map_of (js_map_set k v m) = (map_of m)(k \<mapsto> v)"
  by (induction m) auto

lemma keys_js_map_set:
  "map fst (js_map_set k v m) = (if k \<in> set (map fst m) then map fst m else map fst m @ [k])"
proof (induction m)
  case (Cons a m)
  then show ?case by (cases a) (simp del: set_map)
qed simp

lemma distinct_js_map_set [simp]: "distinct (map fst (js_map_set k v m)) = distinct (map fst m)"
  by (simp add: keys_js_map_set)

lemma filter_js_map_set [simp]:
  "filter (\<lambda>(k', u). k' \<noteq> k) (js_map_set k v m) = filter (\<lambda>(k', u). k' \<noteq> k) m"
  by (induction m) auto

section \<open>JavaScript strings and arrays\<close>

definition starts_with :: "'a list \<Rightarrow> 'a list \<Rightarrow> bool" where
  "starts_with s p = (take (length p) s = p)"

definition ends_with :: "'a list \<Rightarrow> 'a list \<Rightarrow> bool" where
  "ends_with s p = starts_with (rev s) (rev p)"

lemma starts_with_iff: "starts_with s p \<longleftrightarrow> (\<exists>r. s = p @ r)"
  by (auto simp: starts_with_def intro: exI [of _ "drop (length p) s"] dest: sym [of "take (length p) s"])
    (metis append_take_drop_id)

lemma ends_with_iff: "ends_with s p \<longleftrightarrow> (\<exists>r. s = r @ p)"
  unfolding ends_with_def starts_with_iff
  by (metis rev_append rev_rev_ident)

text \<open>\<^verbatim>\<open>[...new Set(xs)]\<close>: the first occurrence of every element, in order.\<close>

fun js_set :: "'a list \<Rightarrow> 'a list" where
  "js_set [] = []"
| "js_set (x # xs) = x # filter (\<lambda>y. y \<noteq> x) (js_set xs)"

lemma set_js_set [simp]: "set (js_set xs) = set xs"
  by (induction xs) auto

lemma distinct_js_set [simp]: "distinct (js_set xs)"
  by (induction xs) auto

lemma js_set_distinct: "distinct xs \<Longrightarrow> js_set xs = xs"
  by (induction xs) (auto simp: filter_id_conv)

lemma js_set_snoc: "js_set (xs @ [x]) = (if x \<in> set xs then js_set xs else js_set xs @ [x])"
  by (induction xs) auto

text \<open>A non-negative number in a template literal: its decimal digits.\<close>

fun nat_to_string :: "nat \<Rightarrow> string" where
  "nat_to_string n = (if n < 10 then [char_of (48 + n)] else nat_to_string (n div 10) @ [char_of (48 + n mod 10)])"

declare nat_to_string.simps [simp del]

text \<open>
  \<^verbatim>\<open>s.trim()\<close> for the white space among the code points U+0000 to U+00FF: tab, line feed, vertical
  tab, form feed, carriage return, space and no-break space.
\<close>

definition is_js_space :: "char \<Rightarrow> bool" where
  "is_js_space c = ((of_char c :: nat) \<in> {9, 10, 11, 12, 13, 32, 160})"

definition js_trim :: "string \<Rightarrow> string" where
  "js_trim s = rev (dropWhile is_js_space (rev (dropWhile is_js_space s)))"

section \<open>SQLite tables\<close>

text \<open>
  A table is the list of its rows in rowid order. \<open>key\<close> reads the primary key.
\<close>

definition lookup_by :: "('r \<Rightarrow> 'k) \<Rightarrow> 'k \<Rightarrow> 'r list \<Rightarrow> 'r option" where
  "lookup_by key k rows = List.find (\<lambda>r. key r = k) rows"

definition ins_ignore :: "('r \<Rightarrow> 'k) \<Rightarrow> 'r \<Rightarrow> 'r list \<Rightarrow> 'r list" where
  "ins_ignore key r rows = (if \<exists>x \<in> set rows. key x = key r then rows else rows @ [r])"

definition ins_replace :: "('r \<Rightarrow> 'k) \<Rightarrow> 'r \<Rightarrow> 'r list \<Rightarrow> 'r list" where
  "ins_replace key r rows = filter (\<lambda>x. key x \<noteq> key r) rows @ [r]"

definition upd_where :: "('r \<Rightarrow> bool) \<Rightarrow> ('r \<Rightarrow> 'r) \<Rightarrow> 'r list \<Rightarrow> 'r list" where
  "upd_where P f rows = map (\<lambda>r. if P r then f r else r) rows"

definition del_where :: "('r \<Rightarrow> bool) \<Rightarrow> 'r list \<Rightarrow> 'r list" where
  "del_where P rows = filter (\<lambda>r. \<not> P r) rows"

definition keys_unique :: "('r \<Rightarrow> 'k) \<Rightarrow> 'r list \<Rightarrow> bool" where
  "keys_unique key rows = distinct (map key rows)"

lemma lookup_by_Nil [simp]: "lookup_by key k [] = None"
  by (simp add: lookup_by_def)

lemma lookup_by_Cons [simp]:
  "lookup_by key k (r # rows) = (if key r = k then Some r else lookup_by key k rows)"
  by (simp add: lookup_by_def)

lemma lookup_by_append [simp]:
  "lookup_by key k (xs @ ys) =
     (case lookup_by key k xs of Some r \<Rightarrow> Some r | None \<Rightarrow> lookup_by key k ys)"
  by (induction xs) auto

lemma lookup_by_SomeD: "lookup_by key k rows = Some r \<Longrightarrow> r \<in> set rows \<and> key r = k"
  by (induction rows) (auto split: if_splits)

lemma lookup_by_None_iff: "lookup_by key k rows = None \<longleftrightarrow> k \<notin> key ` set rows"
  by (induction rows) auto

lemma lookup_by_unique:
  "keys_unique key rows \<Longrightarrow> r \<in> set rows \<Longrightarrow> lookup_by key (key r) rows = Some r"
  by (induction rows) (auto simp: keys_unique_def image_iff)

lemma lookup_by_iff:
  "keys_unique key rows \<Longrightarrow> lookup_by key k rows = Some r \<longleftrightarrow> r \<in> set rows \<and> key r = k"
  by (auto dest: lookup_by_SomeD simp: lookup_by_unique)

lemma lookup_by_filter_other:
  "(\<And>r. key r = k \<Longrightarrow> P r) \<Longrightarrow> lookup_by key k (filter P rows) = lookup_by key k rows"
  by (induction rows) auto

lemma lookup_ins_ignore [sql]:
  "lookup_by key k (ins_ignore key r rows) =
     (if k = key r then Some (case lookup_by key k rows of Some x \<Rightarrow> x | None \<Rightarrow> r)
      else lookup_by key k rows)"
proof (cases "\<exists>x \<in> set rows. key x = key r")
  case True
  then have "lookup_by key (key r) rows \<noteq> None"
    unfolding lookup_by_None_iff by (metis imageI)
  with True show ?thesis by (auto simp: ins_ignore_def)
next
  case False
  then have "lookup_by key (key r) rows = None"
    unfolding lookup_by_None_iff by auto
  with False show ?thesis by (auto simp: ins_ignore_def split: option.split)
qed

lemma lookup_ins_replace [sql]:
  "lookup_by key k (ins_replace key r rows) =
     (if k = key r then Some r else lookup_by key k rows)"
proof (cases "k = key r")
  case True
  then have "lookup_by key k (filter (\<lambda>x. key x \<noteq> key r) rows) = None"
    by (auto simp: lookup_by_None_iff)
  with True show ?thesis by (simp add: ins_replace_def)
next
  case False
  then have "lookup_by key k (filter (\<lambda>x. key x \<noteq> key r) rows) = lookup_by key k rows"
    by (intro lookup_by_filter_other) auto
  with False show ?thesis by (auto simp: ins_replace_def split: option.split)
qed

lemma keys_unique_ins_ignore [keyed]: "keys_unique key rows \<Longrightarrow> keys_unique key (ins_ignore key r rows)"
  by (auto simp: keys_unique_def ins_ignore_def)

lemma keys_unique_ins_replace [keyed]: "keys_unique key rows \<Longrightarrow> keys_unique key (ins_replace key r rows)"
  by (auto simp: keys_unique_def ins_replace_def distinct_map intro: inj_on_subset)

lemma keys_unique_del_where [keyed]: "keys_unique key rows \<Longrightarrow> keys_unique key (del_where P rows)"
  by (auto simp: keys_unique_def del_where_def distinct_map intro: inj_on_subset)

lemma keys_unique_Nil [simp]: "keys_unique key []"
  by (simp add: keys_unique_def)

lemma set_del_where [simp]: "set (del_where P rows) = {r \<in> set rows. \<not> P r}"
  by (auto simp: del_where_def)

lemma set_ins_replace: "set (ins_replace key r rows) = insert r {x \<in> set rows. key x \<noteq> key r}"
  by (auto simp: ins_replace_def)

text \<open>
  The interface of a statement that rewrites rows but not their primary key. The stores discharge
  it for each of their \<^verbatim>\<open>UPDATE\<close> statements.
\<close>

locale key_preserving =
  fixes key :: "'r \<Rightarrow> 'k" and f :: "'r \<Rightarrow> 'r"
  assumes key_f: "key (f r) = key r"
begin

lemma keys_upd_where: "map key (upd_where P f rows) = map key rows"
  by (simp add: upd_where_def key_f)

lemma keys_unique_upd_where: "keys_unique key (upd_where P f rows) = keys_unique key rows"
  unfolding keys_unique_def by (simp add: keys_upd_where)

lemma lookup_upd_where:
  "lookup_by key k (upd_where P f rows) =
     map_option (\<lambda>r. if P r then f r else r) (lookup_by key k rows)"
  by (induction rows) (auto simp: upd_where_def key_f)

lemma lookup_upd_key:
  "lookup_by key k (upd_where (\<lambda>r. key r = k') f rows) =
     (if k = k' then map_option f (lookup_by key k rows) else lookup_by key k rows)"
  by (induction rows) (auto simp: upd_where_def key_f)

end

text \<open>
  The interface of a derived index that is replayed from an append-only log: \<open>step\<close> folds one
  record into the index, \<open>seq\<close> is the record's sequence number, \<open>mark\<close> and \<open>set_mark\<close> read and
  write the last sequence number the index has replayed, which the fold itself leaves alone.
  Replaying only the records after the mark then gives what replaying the whole log gives, as long
  as the log's sequence numbers grow.
\<close>

locale log_replay =
  fixes step :: "'e \<Rightarrow> 's \<Rightarrow> 's" and seq :: "'e \<Rightarrow> nat"
    and mark :: "'s \<Rightarrow> nat" and set_mark :: "nat \<Rightarrow> 's \<Rightarrow> 's"
  assumes mark_set_mark: "mark (set_mark n s) = n"
    and set_mark_twice: "set_mark n (set_mark m s) = set_mark n s"
    and step_set_mark: "step e (set_mark n s) = set_mark n (step e s)"
begin

lemma fold_set_mark: "fold step es (set_mark n s) = set_mark n (fold step es s)"
  by (induction es arbitrary: s) (simp_all add: step_set_mark)

lemma seq_le_last:
  "sorted_wrt (\<lambda>a b. seq a < seq b) es \<Longrightarrow> e \<in> set es \<Longrightarrow> seq e \<le> seq (last es)"
proof (induction es)
  case (Cons a es)
  then show ?case by (cases "es = []") (auto dest: last_in_set intro: less_imp_le)
qed simp

lemma filter_seq_suffix:
  assumes "sorted_wrt (\<lambda>a b. seq a < seq b) (old @ new)" and "old \<noteq> []"
  shows "filter (\<lambda>e. seq (last old) < seq e) (old @ new) = new"
proof -
  have "sorted_wrt (\<lambda>a b. seq a < seq b) old"
    using assms by (simp add: sorted_wrt_append)
  then have "filter (\<lambda>e. seq (last old) < seq e) old = []"
    by (auto simp: filter_empty_conv not_less dest: seq_le_last)
  moreover have "filter (\<lambda>e. seq (last old) < seq e) new = new"
    using assms by (auto simp: filter_id_conv sorted_wrt_append)
  ultimately show ?thesis by simp
qed

lemma replay_suffix:
  assumes "sorted_wrt (\<lambda>a b. seq a < seq b) (old @ new)" and "old \<noteq> []"
    and "mark s = seq (last old)" and "s = set_mark (mark s) (fold step old s0)"
  shows "set_mark m (fold step (filter (\<lambda>e. mark s < seq e) (old @ new)) s)
       = set_mark m (fold step (old @ new) s0)"
proof -
  have "fold step (filter (\<lambda>e. mark s < seq e) (old @ new)) s = fold step new s"
    using filter_seq_suffix [OF assms(1,2)] assms(3) by simp
  also have "fold step new s = set_mark (mark s) (fold step new (fold step old s0))"
    using assms(4) fold_set_mark by metis
  finally show ?thesis by (simp add: set_mark_twice)
qed

end

end
