(* ===== verification/Jsonl.thy ===== *)
theory Jsonl
  imports SW_Prelude "HOL-Library.Multiset"
begin

text \<open>
  A directory of append-only JSONL files, one per UTC day, as the evidence log (\<^verbatim>\<open>layer0/log.ts\<close>) and
  the operations log (\<^verbatim>\<open>ops_log/log.ts\<close>) keep them. The directory is the list of its files in the order
  \<^verbatim>\<open>readdir\<close> gives them, named by their day; a file is the list of its non-empty lines, each a record or
  a text that does not parse. Readers sort the days.
\<close>

datatype 'e jsonl_line = Line (line_entry: 'e) | Unparsable string

type_synonym 'e jsonl_dir = "(string \<times> 'e jsonl_line list) list"

definition day_lines :: "string \<Rightarrow> 'e jsonl_dir \<Rightarrow> 'e jsonl_line list" where
  "day_lines day dir = (case map_of dir day of Some ls \<Rightarrow> ls | None \<Rightarrow> [])"

definition append_day :: "string \<Rightarrow> 'e jsonl_line list \<Rightarrow> 'e jsonl_dir \<Rightarrow> 'e jsonl_dir" where
  "append_day day ls dir = js_map_set day (day_lines day dir @ ls) dir"

fun parse_lines :: "'e jsonl_line list \<Rightarrow> 'e list outcome" where
  "parse_lines [] = Inr []"
| "parse_lines (Unparsable t # ls) = Inl (JsError ''Malformed JSONL'')"
| "parse_lines (Line e # ls) = (case parse_lines ls of Inl x \<Rightarrow> Inl x | Inr es \<Rightarrow> Inr (e # es))"

definition read_day :: "'e jsonl_dir \<Rightarrow> string \<Rightarrow> 'e list outcome" where
  "read_day dir day = parse_lines (day_lines day dir)"

fun read_days :: "'e jsonl_dir \<Rightarrow> string list \<Rightarrow> 'e list outcome" where
  "read_days dir [] = Inr []"
| "read_days dir (d # ds) =
     (case read_day dir d of
        Inl x \<Rightarrow> Inl x
      | Inr es \<Rightarrow> (case read_days dir ds of Inl x \<Rightarrow> Inl x | Inr rest \<Rightarrow> Inr (es @ rest)))"

definition log_days :: "'e jsonl_dir \<Rightarrow> string list" where
  "log_days dir = sort (map fst dir)"

definition read_all :: "'e jsonl_dir \<Rightarrow> 'e list outcome" where
  "read_all dir = read_days dir (log_days dir)"

section \<open>Lemmas\<close>

lemma day_lines_append_day [simp]:
  "day_lines d (append_day day ls dir) = (if d = day then day_lines d dir @ ls else day_lines d dir)"
  by (simp add: append_day_def day_lines_def)

lemma day_lines_absent: "d \<notin> fst ` set dir \<Longrightarrow> day_lines d dir = []"
  by (simp add: day_lines_def map_of_eq_None_iff [THEN iffD2])

lemma day_lines_Cons [simp]: "day_lines d ((a, ls) # dir) = (if d = a then ls else day_lines d dir)"
  by (simp add: day_lines_def)

lemma day_lines_Nil [simp]: "day_lines d [] = []"
  by (simp add: day_lines_def)

lemma distinct_append_day [simp]: "distinct (map fst (append_day day ls dir)) = distinct (map fst dir)"
  by (simp add: append_day_def)

lemma days_append_day: "set (map fst (append_day day ls dir)) = insert day (set (map fst dir))"
  by (auto simp: append_day_def keys_js_map_set simp del: set_map)

lemma fold_append_days:
  assumes "distinct (map fst groups)"
  shows "day_lines d (fold (\<lambda>(day, ls) dr. append_day day ls dr) groups dir) = day_lines d dir @ day_lines d groups"
  using assms
proof (induction groups arbitrary: dir)
  case (Cons g groups)
  then show ?case by (cases g) (auto simp: day_lines_absent)
qed simp

lemma parse_lines_append:
  "parse_lines (xs @ ys) = (case parse_lines xs of Inl x \<Rightarrow> Inl x
     | Inr es \<Rightarrow> (case parse_lines ys of Inl x \<Rightarrow> Inl x | Inr fs \<Rightarrow> Inr (es @ fs)))"
  by (induction xs rule: parse_lines.induct) (auto split: sum.splits)

lemma parse_lines_entries [simp]: "parse_lines (map Line es) = Inr es"
  by (induction es) simp_all

lemma set_log_days [simp]: "set (log_days dir) = set (map fst dir)"
  by (simp add: log_days_def)

text \<open>An append to the newest day extends what a reader sees at its end.\<close>

lemma read_days_append:
  "read_days dir (xs @ ys) = (case read_days dir xs of Inl x \<Rightarrow> Inl x
     | Inr es \<Rightarrow> (case read_days dir ys of Inl x \<Rightarrow> Inl x | Inr fs \<Rightarrow> Inr (es @ fs)))"
  by (induction xs) (auto split: sum.splits)

lemma read_days_other:
  "day \<notin> set ds \<Longrightarrow> read_days (append_day day ls dir) ds = read_days dir ds"
  by (induction ds) (auto simp: read_day_def split: sum.splits)

lemma sort_snoc_greatest:
  fixes xs :: "'a::linorder list"
  assumes "\<forall>x \<in> set xs. x \<le> m"
  shows "sort (xs @ [m]) = sort xs @ [m]"
proof (rule properties_for_sort)
  show "mset (sort xs @ [m]) = mset (xs @ [m])" by simp
  show "sorted (sort xs @ [m])" using assms by (simp add: sorted_append)
qed

lemma log_days_append_day:
  assumes "\<forall>d \<in> set (map fst dir). d \<le> day" and "distinct (map fst dir)"
  shows "\<exists>ds. day \<notin> set ds \<and> log_days (append_day day ls dir) = ds @ [day]
    \<and> (log_days dir = ds \<or> log_days dir = ds @ [day])"
proof (cases "day \<in> set (map fst dir)")
  case True
  then have same: "log_days (append_day day ls dir) = log_days dir"
    by (simp add: log_days_def append_day_def keys_js_map_set)
  let ?ds = "log_days dir"
  have "sorted ?ds" "distinct ?ds" using assms(2) by (auto simp: log_days_def)
  have ne: "?ds \<noteq> []" using True by (metis empty_iff list.set(1) set_log_days)
  have "last ?ds = day"
  proof (rule antisym)
    show "last ?ds \<le> day" using ne assms(1) last_in_set [of ?ds] by auto
    have "day \<in> set (butlast ?ds @ [last ?ds])" using True set_log_days [of dir] append_butlast_last_id [OF ne] by (simp del: set_log_days)
    moreover have "sorted (butlast ?ds @ [last ?ds])" using \<open>sorted ?ds\<close> ne by simp
    ultimately show "day \<le> last ?ds" by (auto simp: sorted_append)
  qed
  then have split: "?ds = butlast ?ds @ [day]" using ne by (metis append_butlast_last_id)
  moreover have "day \<notin> set (butlast ?ds)" using \<open>distinct ?ds\<close> split by (metis distinct_append disjoint_insert(2) list.simps(15))
  ultimately show ?thesis using same by metis
next
  case False
  then have "log_days (append_day day ls dir) = log_days dir @ [day]"
    using assms(1) sort_snoc_greatest [of "map fst dir" day] by (simp add: log_days_def append_day_def keys_js_map_set)
  with False show ?thesis by auto
qed

lemma read_all_append_newest:
  assumes "\<forall>d \<in> set (map fst dir). d \<le> day" and "distinct (map fst dir)" and "read_all dir = Inr es"
  shows "read_all (append_day day (map Line new) dir) = Inr (es @ new)"
proof -
  let ?dir = "append_day day (map Line new) dir"
  obtain ds where ds: "day \<notin> set ds" "log_days ?dir = ds @ [day]" "log_days dir = ds \<or> log_days dir = ds @ [day]"
    using log_days_append_day [OF assms(1,2)] by blast
  have absent: "day_lines day dir = []" if "log_days dir = ds"
  proof -
    have "day \<notin> set (map fst dir)" using that ds(1) by (metis set_log_days)
    then show ?thesis by (simp add: day_lines_absent)
  qed
  show ?thesis using ds(3) assms(3) absent
    by (auto simp: read_all_def ds(1,2) read_days_append read_days_other read_day_def parse_lines_append
        split: sum.splits)
qed

text \<open>An append anywhere adds the record to what a reader sees.\<close>

lemma read_days_ok_iff:
  "read_days dir ds = Inr es \<longleftrightarrow> (\<forall>d \<in> set ds. is_ok (read_day dir d)) \<and> es = concat (map (\<lambda>d. projr (read_day dir d)) ds)"
proof (induction ds arbitrary: es)
  case (Cons d ds)
  show ?case
  proof (cases "read_day dir d")
    case (Inr x)
    then show ?thesis using Cons.IH
      by (cases "read_days dir ds") (auto simp: Inr)
  qed simp
qed auto

lemma read_day_append_same:
  "is_ok (read_day dir day) \<Longrightarrow> read_day (append_day day [Line e] dir) day = Inr (projr (read_day dir day) @ [e])"
  by (cases "read_day dir day") (auto simp: read_day_def parse_lines_append)

lemma read_day_append_other: "d \<noteq> day \<Longrightarrow> read_day (append_day day ls dir) d = read_day dir d"
  by (simp add: read_day_def)

lemma mset_concat_map: "mset (concat (map f xs)) = sum_mset (image_mset (\<lambda>x. mset (f x)) (mset xs))"
  by (induction xs) simp_all

lemma mset_concat_update:
  assumes "distinct ds" and "day \<in> set ds" and "\<And>d. d \<noteq> day \<Longrightarrow> g d = f d" and "g day = f day @ [e]"
  shows "mset (concat (map g ds)) = add_mset e (mset (concat (map f ds)))"
  using assms
proof (induction ds)
  case (Cons d ds)
  show ?case
  proof (cases "d = day")
    case True
    then have "map g ds = map f ds" using Cons.prems(1,3) by (intro map_cong refl) (metis distinct.simps(2))
    then show ?thesis using True Cons.prems(4) by (simp only: list.map concat.simps mset_append) simp
  next
    case False
    then show ?thesis using Cons by auto
  qed
qed simp

lemma mset_log_days: "mset (log_days dir) = mset (map fst dir)"
  by (simp add: log_days_def)

lemma read_all_append_one:
  assumes "distinct (map fst dir)" and "read_all dir = Inr es"
  shows "\<exists>es'. read_all (append_day day [Line e] dir) = Inr es' \<and> mset es' = add_mset e (mset es)"
proof -
  let ?dir = "append_day day [Line e] dir"
  let ?f = "\<lambda>d. projr (read_day dir d)" and ?g = "\<lambda>d. projr (read_day ?dir d)"
  have ok: "\<forall>d \<in> set (log_days dir). is_ok (read_day dir d)" and es: "es = concat (map ?f (log_days dir))"
    using assms(2) by (auto simp: read_all_def read_days_ok_iff)
  have day_ok: "is_ok (read_day dir day)"
  proof (cases "day \<in> set (map fst dir)")
    case True
    then show ?thesis using ok set_log_days by blast
  next
    case False
    then show ?thesis by (simp add: read_day_def day_lines_absent)
  qed
  have days: "set (log_days ?dir) = insert day (set (log_days dir))" using days_append_day [of day "[Line e]" dir] by simp
  have ok': "\<forall>d \<in> set (log_days ?dir). is_ok (read_day ?dir d)"
    using ok day_ok read_day_append_same [of dir day e] days
    by (metis insert_iff is_ok_simps(1) read_day_append_other)
  have upd: "?g d = ?f d" if "d \<noteq> day" for d using that by (simp add: read_day_append_other)
  have upd_day: "?g day = ?f day @ [e]" using read_day_append_same [OF day_ok, of e] by simp
  have dist: "distinct (log_days ?dir)" using assms(1) by (simp add: log_days_def)
  have "mset (concat (map ?g (log_days ?dir))) = add_mset e (mset (concat (map ?f (log_days ?dir))))"
    by (rule mset_concat_update [where day = day]) (use dist days upd upd_day in auto)
  also have "mset (concat (map ?f (log_days ?dir))) = mset es"
  proof (cases "day \<in> set (map fst dir)")
    case True
    then have "log_days ?dir = log_days dir" by (simp add: log_days_def append_day_def keys_js_map_set)
    then show ?thesis by (simp add: es)
  next
    case False
    have "mset (log_days ?dir) = add_mset day (mset (log_days dir))"
      using False by (simp add: mset_log_days append_day_def keys_js_map_set)
    then have "mset (concat (map ?f (log_days ?dir))) = mset (?f day) + mset (concat (map ?f (log_days dir)))"
      by (simp add: mset_concat_map)
    moreover have "?f day = []" using False by (simp add: read_day_def day_lines_absent)
    ultimately show ?thesis by (simp add: es)
  qed
  finally have "mset (concat (map ?g (log_days ?dir))) = add_mset e (mset es)" .
  then show ?thesis using ok' by (intro exI [of _ "concat (map ?g (log_days ?dir))"]) (simp add: read_all_def read_days_ok_iff)
qed

lemma filter_one:
  assumes "mset es' = add_mset e (mset es)" and "P e" and "filter P es = []"
  shows "filter P es' = [e]"
proof -
  have "mset (filter P es') = filter_mset P (mset es')" by simp
  also have "\<dots> = add_mset e (mset (filter P es))" using assms(1,2) by simp
  finally have "mset (filter P es') = {#e#}" using assms(3) by simp
  then show ?thesis by (metis mset_single_iff)
qed

end
