(* ===== verification/Config.thy ===== *)
theory Config
  imports SW_Prelude
begin

text \<open>
  Instance configuration (\<^verbatim>\<open>config.ts\<close>): scopes, grants, retention settings and legal holds, and the
  functions that read them. \<^verbatim>\<open>config.json\<close> is the state, so \<^verbatim>\<open>loadConfig\<close> and \<^verbatim>\<open>saveConfig\<close> become
  state passing in the operations that call them. Dates that the code turns into JavaScript
  \<^verbatim>\<open>Date\<close> objects are their value: the milliseconds of a valid date, or \<open>None\<close> for an Invalid Date, on
  which every comparison is false.
\<close>

section \<open>JavaScript dates and character classes\<close>

type_synonym js_date = "int option"

definition date_less :: "js_date \<Rightarrow> js_date \<Rightarrow> bool" where
  "date_less a b = (case (a, b) of (Some x, Some y) \<Rightarrow> x < y | _ \<Rightarrow> False)"

definition is_lower_alnum_dash :: "char \<Rightarrow> bool" where
  "is_lower_alnum_dash c = ((CHR ''a'' \<le> c \<and> c \<le> CHR ''z'') \<or> (CHR ''0'' \<le> c \<and> c \<le> CHR ''9'') \<or> c = CHR ''-'')"

text \<open>\<^verbatim>\<open>toLowerCase\<close> on the code points U+0000 to U+00FF.\<close>

definition char_lower :: "char \<Rightarrow> char" where
  "char_lower c =
     (let n = of_char c :: nat in
      if (65 \<le> n \<and> n \<le> 90) \<or> (192 \<le> n \<and> n \<le> 222 \<and> n \<noteq> 215) then char_of (n + 32) else c)"

definition toLowerCase :: "string \<Rightarrow> string" where
  "toLowerCase s = map char_lower s"

text \<open>\<^verbatim>\<open>.replace(/[^a-z0-9-]+/g, '-')\<close>: every maximal run of other characters becomes one dash.\<close>

fun collapse_other :: "bool \<Rightarrow> string \<Rightarrow> string" where
  "collapse_other in_run [] = []"
| "collapse_other in_run (c # cs) =
     (if is_lower_alnum_dash c then c # collapse_other False cs
      else if in_run then collapse_other True cs
      else CHR ''-'' # collapse_other True cs)"

text \<open>\<^verbatim>\<open>.replace(/^-+|-+$/g, '')\<close>\<close>

definition trim_dashes :: "string \<Rightarrow> string" where
  "trim_dashes s = rev (dropWhile (\<lambda>c. c = CHR ''-'') (rev (dropWhile (\<lambda>c. c = CHR ''-'') s)))"

section \<open>Configuration records\<close>

text \<open>
  The fields \<^verbatim>\<open>version\<close>, \<^verbatim>\<open>data_dir\<close>, \<^verbatim>\<open>llm\<close>, \<^verbatim>\<open>staleness\<close> and \<^verbatim>\<open>entity_resolution\<close> of the
  configuration are read by none of the modelled operations and have no counterpart. In a source's
  external reference the outer \<open>None\<close> is an absent property and \<open>Some None\<close> is null.
\<close>

datatype actor_type = Person | Agent | System
datatype visibility = VPrivate | VScope | VWorkspace | VPublic
datatype retention_policy = Forever | Duration | UntilRevoked
datatype grant_status = GActive | GRevoked
datatype source_kind = SKConnector | SKMeeting | SKNote | SKAgent | SKManual | SKSystem
datatype source_status = SActive | SPaused | SRevoked
datatype operation = OpObserve | OpQuery | OpCompile | OpCorrect | OpForget | OpRead

record scope_entry =
  se_id :: string
  se_parent :: "string option"
  se_visibility_default :: visibility

record source_entry =
  src_id :: string
  src_kind :: source_kind
  src_display_name :: string
  src_status :: source_status
  src_created_at :: string
  src_actor_ids :: "string list option"
  src_external_ref :: "string option option"

record grant =
  g_id :: string
  g_actor_type :: actor_type
  g_actor_id :: string
  g_capabilities :: "(operation \<times> string list) list"
  g_trusted :: bool
  g_quarantine :: bool
  g_created_at :: string
  g_expires_at :: "js_date option"
  g_status :: grant_status

record retention_setting =
  rs_policy :: retention_policy
  rs_duration_days :: "int option"

record retention_config =
  rc_default :: "retention_setting option"
  rc_scope_overrides :: "(string \<times> retention_setting) list"

record legal_hold =
  lh_scope :: string
  lh_opened_at :: string
  lh_opened_by :: string
  lh_operation_id :: "string option"
  lh_released_at :: "string option"
  lh_released_by :: "string option"
  lh_release_operation_id :: "string option"
  lh_release_statement :: "string option"

record smartware_config =
  instance_id :: string
  owner_id :: string
  writer_id :: string
  cfg_scopes :: "scope_entry list"
  cfg_grants :: "grant list"
  cfg_sources :: "source_entry list option"
  cfg_retention :: "retention_config option"
  cfg_holds :: "(string \<times> legal_hold) list"

section \<open>Operations\<close>

definition POD_SELF_SCOPE :: string where
  "POD_SELF_SCOPE = ''self''"

definition createDefaultConfig :: "string \<Rightarrow> string \<Rightarrow> smartware_config" where
  "createDefaultConfig uid1 uid2 =
     \<lparr>instance_id = ''smartware_'' @ uid1, owner_id = ''user:local'', writer_id = ''writer_local_'' @ uid2,
      cfg_scopes =
        [\<lparr>se_id = POD_SELF_SCOPE, se_parent = None, se_visibility_default = VPrivate\<rparr>,
         \<lparr>se_id = ''workspace'', se_parent = None, se_visibility_default = VWorkspace\<rparr>,
         \<lparr>se_id = ''project:default'', se_parent = Some ''workspace'', se_visibility_default = VScope\<rparr>],
      cfg_grants = [], cfg_sources = Some [], cfg_retention = None, cfg_holds = []\<rparr>"

definition toRetentionDurationString :: "retention_setting \<Rightarrow> string option" where
  "toRetentionDurationString setting =
     (if rs_policy setting \<noteq> Duration then None
      else case rs_duration_days setting of
        None \<Rightarrow> None
      | Some days \<Rightarrow> if 0 < days then Some (''P'' @ nat_to_string (nat days) @ ''D'') else None)"

definition drop_smartware_prefix :: "string \<Rightarrow> string" where
  "drop_smartware_prefix s = (if starts_with s ''smartware_'' then drop 10 s else s)"

definition substrateActorId :: "string \<Rightarrow> string" where
  "substrateActorId inst =
     (let slug = trim_dashes (collapse_other False (toLowerCase (drop_smartware_prefix inst)))
      in ''substrate:'' @ (if slug = [] then ''instance'' else slug))"

definition resolveRetention :: "smartware_config \<Rightarrow> string \<Rightarrow> retention_setting" where
  "resolveRetention config scope =
     (case cfg_retention config of
        None \<Rightarrow> \<lparr>rs_policy = Forever, rs_duration_days = None\<rparr>
      | Some r \<Rightarrow>
          (case map_of (rc_scope_overrides r) scope of
             Some override \<Rightarrow> override
           | None \<Rightarrow> (case rc_default r of Some d \<Rightarrow> d
                     | None \<Rightarrow> \<lparr>rs_policy = Forever, rs_duration_days = None\<rparr>)))"

definition isScopeHeld :: "smartware_config \<Rightarrow> string \<Rightarrow> bool" where
  "isScopeHeld config scope =
     (case map_of (cfg_holds config) scope of None \<Rightarrow> False | Some h \<Rightarrow> lh_released_at h = None)"

definition ensureScopes :: "scope_entry list \<Rightarrow> smartware_config \<Rightarrow> smartware_config" where
  "ensureScopes entries config =
     (let existing = set (map se_id (cfg_scopes config));
          additions = filter (\<lambda>e. se_id e \<notin> existing) entries
      in if additions = [] then config
         else config\<lparr>cfg_scopes := cfg_scopes config @ additions\<rparr>)"

section \<open>Lemmas\<close>

lemma date_less_Some [simp]: "date_less (Some x) (Some y) = (x < y)"
  by (simp add: date_less_def)

lemma date_less_trans_now: "date_less d (Some n) \<Longrightarrow> n \<le> m \<Longrightarrow> date_less d (Some m)"
  by (cases d) (auto simp: date_less_def)

lemma collapse_other_ok: "list_all is_lower_alnum_dash (collapse_other b s)"
  by (induction b s rule: collapse_other.induct) (auto simp: is_lower_alnum_dash_def)

lemma trim_dashes_ok: "list_all P s \<Longrightarrow> list_all P (trim_dashes s)"
  by (auto simp: trim_dashes_def list_all_iff dest!: set_dropWhileD)

lemma ensureScopes_idem: "ensureScopes entries (ensureScopes entries config) = ensureScopes entries config"
  by (auto simp: ensureScopes_def Let_def filter_empty_conv)

lemma ensureScopes_keeps:
  "\<exists>added. cfg_scopes (ensureScopes entries config) = cfg_scopes config @ added"
  by (auto simp: ensureScopes_def Let_def)

end
