(* ===== verification/Claim_Log.thy ===== *)
theory Claim_Log
  imports Complex_Main Jsonl Config
begin

text \<open>
  The canonical claim log (\<^verbatim>\<open>layer1/jsonl.ts\<close>) with its read-time migration (\<^verbatim>\<open>layer1/migration.ts\<close>) and
  the claim vocabulary (\<^verbatim>\<open>layer1/types.ts\<close>). Each line is one version of a claim; the files are the
  months of the version times. A version is a record whose last field says whether it is active, with
  its content, or forgotten, with its tombstone. Two fields that older lines lack are optional in the
  record: the epistemic owner and the fingerprint, which readers fill in. SHA-256 is the argument \<open>sha\<close>.
\<close>

section \<open>Vocabulary\<close>

datatype claim_type = CDecision | CConstraint | CCorrection | CLesson | CPreference | CHypothesis
  | CCheckpoint | CHandoff | CFinding
datatype claim_role = RMemory | RWorking | RSummary | RCheckpoint | RAudit | RRetrospective
datatype claim_author = AAgent | AUser
datatype confidence_bucket = BHigh | BMedium | BLow
datatype epistemic_tag = EtFact | EtInference | EtOpinion | EtStale | EtContested
datatype relation_kind = RkSupports | RkContradicts | RkSupersedes | RkCorrects | RkInvalidates
  | RkSummarizes | RkReferences
datatype relation_origin = RoDeterministic | RoModel | RoReviewed | RoUser
datatype claim_state = CsActive | CsForgotten
datatype claim_status = StActive | StSuperseded | StContested | StRetracted | StStale
datatype epistemic_label = LObserved | LAsserted | LInferred | LUserConfirmed | LSystemGenerated

definition EPISTEMIC_RELATION_KINDS :: "relation_kind set" where
  "EPISTEMIC_RELATION_KINDS =
     {RkSupports, RkContradicts, RkSupersedes, RkCorrects, RkInvalidates, RkSummarizes}"

definition isCanonicalRelationValid :: "relation_kind \<Rightarrow> relation_origin \<Rightarrow> bool" where
  "isCanonicalRelationValid kind origin =
     (if kind = RkReferences then origin = RoDeterministic \<or> origin = RoUser
      else if kind \<in> EPISTEMIC_RELATION_KINDS then origin = RoUser
      else False)"

text \<open>Of a relation's provenance only the origin is read by the modelled code.\<close>

record claim_relation =
  cr_relation_id :: string
  cr_kind :: relation_kind
  cr_target :: string
  cr_valid_at :: string
  cr_invalid_at :: "string option"
  cr_origin :: relation_origin

definition statusToState :: "claim_status \<Rightarrow> claim_state" where
  "statusToState status = (if status = StRetracted then CsForgotten else CsActive)"

definition epistemicToTag :: "epistemic_label \<Rightarrow> claim_status \<Rightarrow> epistemic_tag" where
  "epistemicToTag epistemic status =
     (if status = StStale then EtStale
      else if status = StContested then EtContested
      else if epistemic = LUserConfirmed then EtFact
      else if epistemic = LObserved then EtFact
      else if epistemic = LAsserted then EtOpinion
      else EtInference)"

text \<open>
  Times, values and the extraction record of a claim. Confidence is a number between 0 and 1, taken as an
  exact rational: the rounding of double-precision arithmetic is not modelled.
\<close>

datatype time_state = TsKnown | TsInferred | TsNull

record claim_time =
  ct_value :: "string option"
  ct_state :: time_state
  ct_basis :: "string option"

record typed_value =
  tv_type :: string
  tv_value :: json

datatype extraction_method = MDeterministic | MLlm | MUserInput

record claim_extraction =
  ex_method :: extraction_method
  ex_model :: "string option"
  ex_compiler_version :: string
  ex_prompt_hash :: "string option"
  ex_extracted_at :: string

definition confidenceToBucket :: "rat \<Rightarrow> confidence_bucket" where
  "confidenceToBucket v = (if 7 / 10 \<le> v then BHigh else if 4 / 10 \<le> v then BMedium else BLow)"

definition knownTime :: "string \<Rightarrow> claim_time" where
  "knownTime v = \<lparr>ct_value = Some v, ct_state = TsKnown, ct_basis = None\<rparr>"

definition inferredTime :: "string \<Rightarrow> string \<Rightarrow> claim_time" where
  "inferredTime v basis = \<lparr>ct_value = Some v, ct_state = TsInferred, ct_basis = Some basis\<rparr>"

definition nullTime :: claim_time where
  "nullTime = \<lparr>ct_value = None, ct_state = TsNull, ct_basis = None\<rparr>"

definition compatibilityValidity :: "claim_time \<Rightarrow> claim_time \<Rightarrow> claim_time \<Rightarrow> string \<times> string option" where
  "compatibilityValidity tValidFrom tValidTo tIngested =
     (case ct_value tValidFrom of Some v \<Rightarrow> v
      | None \<Rightarrow> (case ct_value tIngested of Some v \<Rightarrow> v | None \<Rightarrow> []),
      ct_value tValidTo)"

definition canonicalKey :: "string \<Rightarrow> string \<Rightarrow> string \<Rightarrow> string \<Rightarrow> string" where
  "canonicalKey subjectId predicate scope validityFrom =
     subjectId @ ''|'' @ predicate @ ''|'' @ scope @ ''|'' @ validityFrom"

text \<open>\<^verbatim>\<open>JSON.stringify\<close> of a value whose numbers are integers below \<^verbatim>\<open>1e21\<close>.\<close>

definition hex_digit :: "nat \<Rightarrow> char" where
  "hex_digit n = char_of (if n < 10 then 48 + n else 87 + n)"

definition json_escape :: "char \<Rightarrow> string" where
  "json_escape c =
     (let n = of_char c :: nat in
      if n = 34 then [CHR 0x5C, c] else if n = 92 then [CHR 0x5C, c]
      else if n = 8 then [CHR 0x5C, CHR ''b''] else if n = 9 then [CHR 0x5C, CHR ''t'']
      else if n = 10 then [CHR 0x5C, CHR ''n''] else if n = 12 then [CHR 0x5C, CHR ''f'']
      else if n = 13 then [CHR 0x5C, CHR ''r'']
      else if n < 32 then CHR 0x5C # ''u00'' @ [hex_digit (n div 16), hex_digit (n mod 16)]
      else [c])"

definition json_quote :: "string \<Rightarrow> string" where
  "json_quote s = CHR 0x22 # concat (map json_escape s) @ [CHR 0x22]"

definition int_to_string :: "int \<Rightarrow> string" where
  "int_to_string n = (if n < 0 then CHR ''-'' # nat_to_string (nat (- n)) else nat_to_string (nat n))"

fun join_comma :: "string list \<Rightarrow> string" where
  "join_comma [] = []"
| "join_comma [x] = x"
| "join_comma (x # y # xs) = x @ CHR '','' # join_comma (y # xs)"

fun json_stringify :: "json \<Rightarrow> string" where
  "json_stringify JNull = ''null''"
| "json_stringify (JBool b) = (if b then ''true'' else ''false'')"
| "json_stringify (JNum n) = int_to_string n"
| "json_stringify (JStr s) = json_quote s"
| "json_stringify (JArr xs) = ''['' @ join_comma (map json_stringify xs) @ '']''"
| "json_stringify (JObj kvs) = ''{'' @ join_comma (map (\<lambda>(k, v). json_quote k @ '':'' @ json_stringify v) kvs) @ ''}''"

definition enum_char :: "char \<Rightarrow> char" where
  "enum_char c = (if is_js_space c \<or> c = CHR ''-'' then CHR ''_'' else c)"

definition normaliseValue :: "typed_value \<Rightarrow> string" where
  "normaliseValue v =
     (case tv_value v of
        JStr s \<Rightarrow> (if tv_type v = ''text'' then js_trim s
                   else if tv_type v = ''enum'' then map enum_char (toLowerCase s)
                   else json_stringify (JStr s))
      | j \<Rightarrow> json_stringify j)"

section \<open>Versions\<close>

record claim_semantic =
  sm_subject_name :: string
  sm_subject_type :: string
  sm_predicate :: string
  sm_object :: typed_value
  sm_t_valid_from :: claim_time
  sm_t_valid_to :: claim_time
  sm_extracted_epistemic :: epistemic_label
  sm_extracted_confidence :: rat
  sm_sensitive :: bool
  sm_extraction :: claim_extraction

datatype version_body =
    ActiveBody (vb_content: string) (vb_semantic: "claim_semantic option")
  | ForgottenBody (vb_tombstone_id: string) (vb_forgotten_at: string) (vb_forgotten_by: string)

record version_lineage =
  vl_supersedes :: "int option"
  vl_superseded_by :: "string option"
  vl_superseded_at :: "string option"
  vl_superseded_by_user :: bool
  vl_reinstated_by_user :: bool
  vl_endorsement_source :: "string option"
  vl_revived_via :: "string option"

record claim_version =
  cv_claim_id :: string
  cv_version :: int
  cv_claim_type :: claim_type
  cv_claim_role :: claim_role
  cv_author :: claim_author
  cv_epistemic_owner :: "claim_author option"
  cv_fingerprint :: "string option"
  cv_confidence :: confidence_bucket
  cv_epistemic_tag :: epistemic_tag
  cv_scope :: string
  cv_derived_from :: "string list"
  cv_relations :: "claim_relation list"
  cv_created_at :: string
  cv_version_at :: string
  cv_operation_id :: string
  cv_actor_id :: string
  cv_tags :: "string list"
  cv_lineage :: version_lineage
  cv_body :: version_body

definition cv_state :: "claim_version \<Rightarrow> claim_state" where
  "cv_state v = (case cv_body v of ActiveBody _ _ \<Rightarrow> CsActive | ForgottenBody _ _ _ \<Rightarrow> CsForgotten)"

type_synonym claims_dir = "claim_version jsonl_dir"

definition carryDemotion :: "claim_version \<Rightarrow> claim_version \<Rightarrow> claim_version" where
  "carryDemotion nxt previous =
     (case vl_superseded_by (cv_lineage previous) of
        None \<Rightarrow> nxt
      | Some s \<Rightarrow>
          nxt\<lparr>cv_lineage := (cv_lineage nxt)
            \<lparr>vl_superseded_by := Some s,
             vl_superseded_at := Some (case vl_superseded_at (cv_lineage previous) of
                                         Some t \<Rightarrow> t | None \<Rightarrow> cv_version_at previous)\<rparr>\<rparr>)"

section \<open>Fingerprints and the migration of older lines\<close>

text \<open>
  \<^verbatim>\<open>.replace(/\s+/g, ' ')\<close>: every run of white space becomes one space. Unicode NFC changes none of the
  code points U+0000 to U+00FF.
\<close>

fun collapse_spaces :: "bool \<Rightarrow> string \<Rightarrow> string" where
  "collapse_spaces in_run [] = []"
| "collapse_spaces in_run (c # cs) =
     (if is_js_space c then (if in_run then collapse_spaces True cs else CHR '' '' # collapse_spaces True cs)
      else c # collapse_spaces False cs)"

definition claim_type_name :: "claim_type \<Rightarrow> string" where
  "claim_type_name t =
     (case t of CDecision \<Rightarrow> ''decision'' | CConstraint \<Rightarrow> ''constraint'' | CCorrection \<Rightarrow> ''correction''
      | CLesson \<Rightarrow> ''lesson'' | CPreference \<Rightarrow> ''preference'' | CHypothesis \<Rightarrow> ''hypothesis''
      | CCheckpoint \<Rightarrow> ''checkpoint'' | CHandoff \<Rightarrow> ''handoff'' | CFinding \<Rightarrow> ''finding'')"

definition computeFingerprint :: "(string \<Rightarrow> string) \<Rightarrow> string \<Rightarrow> string \<Rightarrow> claim_type \<Rightarrow> string" where
  "computeFingerprint sha content scope ty =
     ''fp_'' @ take 16 (sha (collapse_spaces False (toLowerCase (js_trim content)) @ ''|'' @ scope @ ''|'' @ claim_type_name ty))"

text \<open>
  The fingerprint of a structured assertion. Object keys are sorted with \<^verbatim>\<open>localeCompare\<close>, whose collation
  keys are the argument \<open>coll\<close>.
\<close>

fun stableJson :: "(string \<Rightarrow> string) \<Rightarrow> json \<Rightarrow> string" where
  "stableJson coll (JArr xs) = ''['' @ join_comma (map (stableJson coll) xs) @ '']''"
| "stableJson coll (JObj kvs) =
     ''{'' @ join_comma (map (\<lambda>(k, v). json_quote k @ '':'' @ stableJson coll v) (sort_key (\<lambda>(k, v). coll k) kvs)) @ ''}''"
| "stableJson coll j = json_stringify j"

definition computeStructuredClaimFingerprint ::
  "(string \<Rightarrow> string) \<Rightarrow> (string \<Rightarrow> string) \<Rightarrow> string \<Rightarrow> string \<Rightarrow> typed_value \<Rightarrow> string \<Rightarrow> claim_type \<Rightarrow> string" where
  "computeStructuredClaimFingerprint sha coll subjectName predicate obj scope ty =
     computeFingerprint sha (stableJson coll
       (JObj [(''subjectName'', JStr subjectName), (''predicate'', JStr predicate),
              (''object'', JObj [(''type'', JStr (tv_type obj)), (''value'', tv_value obj)])])) scope ty"

definition backfillClaimVersion :: "(string \<Rightarrow> string) \<Rightarrow> claim_version \<Rightarrow> claim_version" where
  "backfillClaimVersion sha raw =
     (let r1 = (if cv_epistemic_owner raw = None then raw\<lparr>cv_epistemic_owner := Some (cv_author raw)\<rparr> else raw)
      in if cv_fingerprint r1 = None
         then r1\<lparr>cv_fingerprint := Some (computeFingerprint sha
                  (case cv_body r1 of ActiveBody c _ \<Rightarrow> c | ForgottenBody _ _ _ \<Rightarrow> []) (cv_scope r1) (cv_claim_type r1))\<rparr>
         else r1)"

record migration_audit =
  ma_total :: nat
  ma_missing_owner :: nat
  ma_missing_fingerprint :: nat
  ma_user_corrections :: nat
  ma_tombstones :: nat
  ma_risks :: "(string \<times> int) list"

definition auditL1Migration :: "claim_version list \<Rightarrow> migration_audit" where
  "auditL1Migration vs =
     fold (\<lambda>v a. a
        \<lparr>ma_total := ma_total a + 1,
         ma_missing_owner := ma_missing_owner a + (if cv_epistemic_owner v = None then 1 else 0),
         ma_missing_fingerprint := ma_missing_fingerprint a + (if cv_fingerprint v = None then 1 else 0),
         ma_user_corrections := ma_user_corrections a + (if cv_author v = AUser then 1 else 0),
         ma_risks := ma_risks a @ (if cv_author v = AUser then [(cv_claim_id v, cv_version v)] else []),
         ma_tombstones := ma_tombstones a + (if cv_state v = CsForgotten then 1 else 0)\<rparr>)
       vs \<lparr>ma_total = 0, ma_missing_owner = 0, ma_missing_fingerprint = 0, ma_user_corrections = 0,
           ma_tombstones = 0, ma_risks = []\<rparr>"

section \<open>Appending, reading and purging\<close>

definition month_of :: "string \<Rightarrow> string" where
  "month_of commit_ts = take 7 commit_ts"

definition group_by_month :: "claim_version list \<Rightarrow> (string \<times> claim_version jsonl_line list) list" where
  "group_by_month vs =
     fold (\<lambda>v byMonth. let p = month_of (cv_version_at v) in js_map_set p (day_lines p byMonth @ [Line v]) byMonth) vs []"

definition appendClaimVersions :: "claim_version list \<Rightarrow> claims_dir \<Rightarrow> claims_dir" where
  "appendClaimVersions vs dir =
     (if vs = [] then dir else fold (\<lambda>(p, ls) d. append_day p ls d) (group_by_month vs) dir)"

definition appendClaimVersion :: "claim_version \<Rightarrow> claims_dir \<Rightarrow> claims_dir" where
  "appendClaimVersion v dir = appendClaimVersions [v] dir"

text \<open>
  The purge rewrites the month files in directory order; a file that does not parse ends it with an
  error after the files before it have been rewritten.
\<close>

definition in_scope :: "string \<Rightarrow> claim_version jsonl_line \<Rightarrow> bool" where
  "in_scope scope l = (case l of Line v \<Rightarrow> cv_scope v = scope | Unparsable _ \<Rightarrow> False)"

fun purge_files :: "string \<Rightarrow> claims_dir \<Rightarrow> nat outcome \<times> claims_dir" where
  "purge_files scope [] = (Inr 0, [])"
| "purge_files scope ((p, ls) # rest) =
     (case parse_lines ls of
        Inl x \<Rightarrow> (Inl x, (p, ls) # rest)
      | Inr _ \<Rightarrow>
          (case purge_files scope rest of
             (Inl x, rest') \<Rightarrow> (Inl x, (p, filter (\<lambda>l. \<not> in_scope scope l) ls) # rest')
           | (Inr n, rest') \<Rightarrow>
               (Inr (length (filter (in_scope scope) ls) + n), (p, filter (\<lambda>l. \<not> in_scope scope l) ls) # rest')))"

definition purgeClaimVersionsByScope :: "string \<Rightarrow> claims_dir \<Rightarrow> nat outcome \<times> claims_dir" where
  "purgeClaimVersionsByScope scope dir = purge_files scope dir"

definition iterAllClaimVersions :: "(string \<Rightarrow> string) \<Rightarrow> claims_dir \<Rightarrow> claim_version list outcome" where
  "iterAllClaimVersions sha dir =
     (case read_all dir of Inl x \<Rightarrow> Inl x | Inr vs \<Rightarrow> Inr (map (backfillClaimVersion sha) vs))"

definition readClaimHistory :: "(string \<Rightarrow> string) \<Rightarrow> claims_dir \<Rightarrow> string \<Rightarrow> claim_version list outcome" where
  "readClaimHistory sha dir claimId =
     (case iterAllClaimVersions sha dir of
        Inl x \<Rightarrow> Inl x
      | Inr vs \<Rightarrow> Inr (sort_key cv_version (filter (\<lambda>v. cv_claim_id v = claimId) vs)))"

definition latest_of :: "claim_version list \<Rightarrow> string \<Rightarrow> claim_version option" where
  "latest_of vs claimId =
     fold (\<lambda>v latest. if cv_claim_id v \<noteq> claimId then latest
             else case latest of None \<Rightarrow> Some v
                  | Some l \<Rightarrow> if cv_version l < cv_version v then Some v else Some l) vs None"

definition readLatestVersion :: "(string \<Rightarrow> string) \<Rightarrow> claims_dir \<Rightarrow> string \<Rightarrow> claim_version option outcome" where
  "readLatestVersion sha dir claimId =
     (case iterAllClaimVersions sha dir of Inl x \<Rightarrow> Inl x | Inr vs \<Rightarrow> Inr (latest_of vs claimId))"

definition nextVersion :: "(string \<Rightarrow> string) \<Rightarrow> claims_dir \<Rightarrow> string \<Rightarrow> int outcome" where
  "nextVersion sha dir claimId =
     (case readLatestVersion sha dir claimId of
        Inl x \<Rightarrow> Inl x
      | Inr None \<Rightarrow> Inr 1
      | Inr (Some l) \<Rightarrow> Inr (cv_version l + 1))"

definition snapshotAt ::
  "(string \<Rightarrow> string) \<Rightarrow> claims_dir \<Rightarrow> string \<Rightarrow> int option \<Rightarrow> claim_version option outcome" where
  "snapshotAt sha dir claimId version =
     (case readClaimHistory sha dir claimId of
        Inl x \<Rightarrow> Inl x
      | Inr history \<Rightarrow>
          if history = [] then Inr None
          else case version of
            None \<Rightarrow> Inr (Some (last history))
          | Some n \<Rightarrow> Inr (List.find (\<lambda>v. cv_version v = n) history))"

section \<open>Lemmas\<close>

lemma backfill_simps [simp]:
  "cv_claim_id (backfillClaimVersion sha v) = cv_claim_id v"
  "cv_version (backfillClaimVersion sha v) = cv_version v"
  "cv_scope (backfillClaimVersion sha v) = cv_scope v"
  "cv_body (backfillClaimVersion sha v) = cv_body v"
  by (simp_all add: backfillClaimVersion_def Let_def)

lemma backfill_idem: "backfillClaimVersion sha (backfillClaimVersion sha v) = backfillClaimVersion sha v"
  by (simp add: backfillClaimVersion_def Let_def)

lemma appendClaimVersion_eq: "appendClaimVersion v dir = append_day (month_of (cv_version_at v)) [Line v] dir"
  by (simp add: appendClaimVersion_def appendClaimVersions_def group_by_month_def Let_def day_lines_def)

lemma latest_of_snoc:
  "latest_of (vs @ [v]) c =
     (if cv_claim_id v \<noteq> c then latest_of vs c
      else case latest_of vs c of None \<Rightarrow> Some v | Some l \<Rightarrow> if cv_version l < cv_version v then Some v else Some l)"
  by (simp add: latest_of_def)

lemma latest_of_None: "latest_of vs c = None \<longleftrightarrow> (\<forall>v \<in> set vs. cv_claim_id v \<noteq> c)"
proof (induction vs rule: rev_induct)
  case (snoc v vs)
  then show ?case by (auto simp: latest_of_snoc split: option.splits)
qed (simp add: latest_of_def)

lemma latest_of_greatest:
  "latest_of vs c = Some l \<Longrightarrow>
   l \<in> set vs \<and> cv_claim_id l = c \<and> (\<forall>v \<in> set vs. cv_claim_id v = c \<longrightarrow> cv_version v \<le> cv_version l)"
proof (induction vs arbitrary: l rule: rev_induct)
  case (snoc v vs)
  show ?case
  proof (cases "cv_claim_id v = c")
    case False
    with snoc show ?thesis by (simp add: latest_of_snoc)
  next
    case True
    show ?thesis
    proof (cases "latest_of vs c")
      case None
      with True snoc.prems show ?thesis by (simp add: latest_of_snoc) (simp add: latest_of_None)
    next
      case (Some m)
      from snoc.IH [OF this] True Some snoc.prems show ?thesis
        by (cases "cv_version m < cv_version v") (auto simp: latest_of_snoc)
    qed
  qed
qed (simp add: latest_of_def)

lemma parse_lines_filter:
  "parse_lines ls = Inr vs \<Longrightarrow>
   parse_lines (filter (\<lambda>l. \<not> in_scope scope l) ls) = Inr (filter (\<lambda>v. cv_scope v \<noteq> scope) vs)
   \<and> length (filter (in_scope scope) ls) = length (filter (\<lambda>v. cv_scope v = scope) vs)"
  by (induction ls arbitrary: vs rule: parse_lines.induct) (auto simp: in_scope_def split: sum.splits)

lemma purge_files_keys: "map fst (snd (purge_files scope dir)) = map fst dir"
  by (induction scope dir rule: purge_files.induct) (auto split: sum.splits prod.splits)

lemma purge_files_lines:
  assumes "fst (purge_files scope dir) = Inr n"
  shows "day_lines p (snd (purge_files scope dir)) = filter (\<lambda>l. \<not> in_scope scope l) (day_lines p dir)"
  using assms
  by (induction scope dir arbitrary: n rule: purge_files.induct) (auto split: sum.splits prod.splits)

lemma read_days_purged:
  assumes "fst (purge_files scope dir) = Inr n" and "read_days dir ds = Inr vs"
  shows "read_days (snd (purge_files scope dir)) ds = Inr (filter (\<lambda>v. cv_scope v \<noteq> scope) vs)"
  using assms(2)
proof (induction ds arbitrary: vs)
  case (Cons d ds)
  then obtain xs ys where xs: "parse_lines (day_lines d dir) = Inr xs" "read_days dir ds = Inr ys" "vs = xs @ ys"
    by (auto simp: read_day_def split: sum.splits)
  then show ?case using Cons.IH [OF xs(2)] parse_lines_filter [OF xs(1), of scope]
    by (simp add: read_day_def purge_files_lines [OF assms(1)])
qed simp

lemma purge_files_count:
  "\<forall>(p, ls) \<in> set dir. \<exists>vs. parse_lines ls = Inr vs \<Longrightarrow>
   fst (purge_files scope dir) = Inr (length (filter (in_scope scope) (concat (map snd dir))))"
  by (induction scope dir rule: purge_files.induct) (auto split: sum.splits prod.splits)

lemma read_all_parses:
  assumes "distinct (map fst dir)" and "read_all dir = Inr vs" and "(p, ls) \<in> set dir"
  shows "\<exists>xs. parse_lines ls = Inr xs"
proof -
  have days: "\<forall>d \<in> set ds. \<exists>xs. read_day dir d = Inr xs" if "read_days dir ds = Inr ws" for ds ws
    using that by (induction ds arbitrary: ws) (auto split: sum.splits)
  have "p \<in> set (log_days dir)" using assms(3) by (force simp: image_iff)
  with days [of "log_days dir" vs] assms(2) obtain xs where "read_day dir p = Inr xs" by (auto simp: read_all_def)
  moreover have "day_lines p dir = ls" using assms(1,3) by (simp add: day_lines_def)
  ultimately show ?thesis by (auto simp: read_day_def)
qed

text \<open>The versions of a scope, counted over the files and over what a reader sees.\<close>

lemma mset_read_days:
  assumes "\<forall>d \<in> set ds. \<exists>xs. parse_lines (day_lines d dir) = Inr xs"
  shows "\<exists>vs. read_days dir ds = Inr vs \<and>
    length (filter (\<lambda>v. cv_scope v = scope) vs) = sum_list (map (\<lambda>d. length (filter (in_scope scope) (day_lines d dir))) ds)"
  using assms
proof (induction ds)
  case (Cons d ds)
  then obtain xs vs where "parse_lines (day_lines d dir) = Inr xs" "read_days dir ds = Inr vs"
    "length (filter (\<lambda>v. cv_scope v = scope) vs) = sum_list (map (\<lambda>d. length (filter (in_scope scope) (day_lines d dir))) ds)"
    by auto
  then show ?case using parse_lines_filter [of "day_lines d dir" xs scope] by (simp add: read_day_def)
qed simp

lemma purge_count_read:
  assumes "distinct (map fst dir)" and "read_all dir = Inr raw"
  shows "length (filter (in_scope scope) (concat (map snd dir))) = length (filter (\<lambda>v. cv_scope v = scope) raw)"
proof -
  have lines: "day_lines p dir = ls" if "(p, ls) \<in> set dir" for p ls
    using that assms(1) by (simp add: day_lines_def)
  have "\<forall>d \<in> set (log_days dir). \<exists>xs. parse_lines (day_lines d dir) = Inr xs"
  proof
    fix d assume "d \<in> set (log_days dir)"
    then obtain ls where "(d, ls) \<in> set dir" by auto
    then show "\<exists>xs. parse_lines (day_lines d dir) = Inr xs"
      unfolding lines [OF \<open>(d, ls) \<in> set dir\<close>] by (rule read_all_parses [OF assms])
  qed
  from mset_read_days [OF this, of scope] assms(2)
  have "length (filter (\<lambda>v. cv_scope v = scope) raw) =
      sum_list (map (\<lambda>d. length (filter (in_scope scope) (day_lines d dir))) (log_days dir))"
    by (auto simp: read_all_def)
  also have "\<dots> = sum_list (map (\<lambda>d. length (filter (in_scope scope) (day_lines d dir))) (map fst dir))"
    unfolding log_days_def by (simp del: map_map flip: sum_mset_sum_list)
  also have "\<dots> = sum_list (map (\<lambda>(p, ls). length (filter (in_scope scope) ls)) dir)"
  proof -
    have "map (\<lambda>d. length (filter (in_scope scope) (day_lines d dir))) (map fst dir) =
        map (\<lambda>(p, ls). length (filter (in_scope scope) ls)) dir"
      unfolding map_map
    proof (rule map_cong [OF refl])
      fix x assume "x \<in> set dir"
      then show "((\<lambda>d. length (filter (in_scope scope) (day_lines d dir))) \<circ> fst) x =
          (case x of (p, ls) \<Rightarrow> length (filter (in_scope scope) ls))"
        using lines [of "fst x" "snd x"] by (simp add: case_prod_unfold)
    qed
    then show ?thesis by (rule arg_cong)
  qed
  also have "\<dots> = length (filter (in_scope scope) (concat (map snd dir)))"
    by (induction dir) auto
  finally show ?thesis by simp
qed

lemma sort_key_snoc_greatest:
  assumes "\<forall>y \<in> set xs. f y \<le> f x"
  shows "sort_key f (xs @ [x]) = sort_key f xs @ [x]"
proof (rule properties_for_sort_key)
  show "mset (sort_key f xs @ [x]) = mset (xs @ [x])" by simp
  show "filter (\<lambda>z. f k = f z) (sort_key f xs @ [x]) = filter (\<lambda>z. f k = f z) (xs @ [x])"
    if "k \<in> set (sort_key f xs @ [x])" for k
    using sort_key_stable [of f "f k" xs] by (simp add: eq_commute [of "f k"])
  show "sorted (map f (sort_key f xs @ [x]))" using assms by (auto simp: sorted_append)
qed

text \<open>What readers see after one version has been appended to the newest month.\<close>

lemma iterAll_append_newest:
  assumes "\<forall>p \<in> set (map fst dir). p \<le> month_of (cv_version_at v)" and "distinct (map fst dir)"
    and "iterAllClaimVersions sha dir = Inr vs"
  shows "iterAllClaimVersions sha (appendClaimVersion v dir) = Inr (vs @ [backfillClaimVersion sha v])"
proof -
  obtain raw where raw: "read_all dir = Inr raw" "vs = map (backfillClaimVersion sha) raw"
    using assms(3) by (auto simp: iterAllClaimVersions_def split: sum.splits)
  show ?thesis
    using read_all_append_newest [OF assms(1,2) raw(1), of "[v]"]
    by (simp add: iterAllClaimVersions_def appendClaimVersion_eq raw(2))
qed

section \<open>Properties\<close>

text \<open>C20: Erasure of a scope removes it from the canonical claim log and nothing else. On a log that
  parses, the purge succeeds and reports the number of versions of the scope; afterwards a reader gets
  exactly the versions of all other scopes, unchanged and in the same order.\<close>

theorem purge_removes_exactly_scope:
  assumes "distinct (map fst dir)" and "iterAllClaimVersions sha dir = Inr vs"
  shows "fst (purgeClaimVersionsByScope scope dir) = Inr (length (filter (\<lambda>v. cv_scope v = scope) vs))
    \<and> iterAllClaimVersions sha (snd (purgeClaimVersionsByScope scope dir)) = Inr (filter (\<lambda>v. cv_scope v \<noteq> scope) vs)"
proof -
  obtain raw where raw: "read_all dir = Inr raw" "vs = map (backfillClaimVersion sha) raw"
    using assms(2) by (auto simp: iterAllClaimVersions_def split: sum.splits)
  have ok: "fst (purge_files scope dir) = Inr (length (filter (in_scope scope) (concat (map snd dir))))"
    using read_all_parses [OF assms(1) raw(1)] by (intro purge_files_count) blast
  have "log_days (snd (purge_files scope dir)) = log_days dir" by (simp add: log_days_def purge_files_keys)
  then have after: "read_all (snd (purge_files scope dir)) = Inr (filter (\<lambda>v. cv_scope v \<noteq> scope) raw)"
    using read_days_purged [OF ok] raw(1) by (simp add: read_all_def)
  have count: "length (filter (in_scope scope) (concat (map snd dir))) = length (filter (\<lambda>v. cv_scope v = scope) raw)"
    by (rule purge_count_read [OF assms(1) raw(1)])
  have map: "map (backfillClaimVersion sha) (filter (\<lambda>v. cv_scope v \<noteq> scope) raw) = filter (\<lambda>v. cv_scope v \<noteq> scope) vs"
    "length (filter (\<lambda>v. cv_scope v = scope) vs) = length (filter (\<lambda>v. cv_scope v = scope) raw)"
    by (simp_all add: raw(2) filter_map comp_def)
  show ?thesis using ok after count map
    by (simp add: purgeClaimVersionsByScope_def iterAllClaimVersions_def)
qed

text \<open>Versions are numbered without reuse. Appending a version of a claim under the next version
  number to the newest month makes it the claim's latest version and its current snapshot, advances
  the next number by one, and leaves the snapshot at every other version number as it was.\<close>

lemma nextVersion_append:
  assumes "\<forall>p \<in> set (map fst dir). p \<le> month_of (cv_version_at v)" and "distinct (map fst dir)"
    and "nextVersion sha dir (cv_claim_id v) = Inr (cv_version v)"
  shows "readLatestVersion sha (appendClaimVersion v dir) (cv_claim_id v) = Inr (Some (backfillClaimVersion sha v))
    \<and> snapshotAt sha (appendClaimVersion v dir) (cv_claim_id v) None = Inr (Some (backfillClaimVersion sha v))
    \<and> nextVersion sha (appendClaimVersion v dir) (cv_claim_id v) = Inr (cv_version v + 1)
    \<and> (\<forall>n. n \<noteq> cv_version v \<longrightarrow>
         snapshotAt sha (appendClaimVersion v dir) (cv_claim_id v) (Some n) = snapshotAt sha dir (cv_claim_id v) (Some n))"
proof -
  let ?c = "cv_claim_id v" and ?b = "backfillClaimVersion sha v"
  obtain vs where vs: "iterAllClaimVersions sha dir = Inr vs"
    using assms(3) by (auto simp: nextVersion_def readLatestVersion_def split: sum.splits)
  note app = iterAll_append_newest [OF assms(1,2) vs]
  have number: "cv_version v = (case latest_of vs ?c of None \<Rightarrow> 1 | Some l \<Rightarrow> cv_version l + 1)"
    using assms(3) vs by (auto simp: nextVersion_def readLatestVersion_def split: option.splits)
  have below: "\<forall>w \<in> set (filter (\<lambda>w. cv_claim_id w = ?c) vs). cv_version w < cv_version v"
  proof (cases "latest_of vs ?c")
    case None
    then show ?thesis by (auto simp: latest_of_None)
  next
    case (Some l)
    then show ?thesis using latest_of_greatest [OF Some] number by force
  qed
  have latest: "latest_of (vs @ [?b]) ?c = Some ?b"
    using number by (auto simp: latest_of_snoc split: option.splits)
  have "sort_key cv_version (filter (\<lambda>w. cv_claim_id w = ?c) vs @ [?b]) =
      sort_key cv_version (filter (\<lambda>w. cv_claim_id w = ?c) vs) @ [?b]"
    by (rule sort_key_snoc_greatest) (use below in \<open>auto intro: less_imp_le\<close>)
  then have hist: "readClaimHistory sha (appendClaimVersion v dir) ?c =
      Inr (sort_key cv_version (filter (\<lambda>w. cv_claim_id w = ?c) vs) @ [?b])"
    by (simp add: readClaimHistory_def app)
  have find: "List.find P (xs @ [x]) = (case List.find P xs of Some y \<Rightarrow> Some y | None \<Rightarrow> if P x then Some x else None)"
    for P and xs :: "claim_version list" and x by (induction xs) auto
  show ?thesis
    using app latest hist vs
    by (auto simp: readLatestVersion_def nextVersion_def snapshotAt_def find readClaimHistory_def
        split: option.split)
qed

definition demo_version :: "string \<Rightarrow> int \<Rightarrow> string \<Rightarrow> claim_version" where
  "demo_version c n scope =
     \<lparr>cv_claim_id = c, cv_version = n, cv_claim_type = CFinding, cv_claim_role = RMemory, cv_author = AAgent,
      cv_epistemic_owner = None, cv_fingerprint = None, cv_confidence = BLow, cv_epistemic_tag = EtInference,
      cv_scope = scope, cv_derived_from = [], cv_relations = [], cv_created_at = ''2026-01-01'',
      cv_version_at = ''2026-01-01'', cv_operation_id = ''op'', cv_actor_id = ''user:a'', cv_tags = [],
      cv_lineage = \<lparr>vl_supersedes = None, vl_superseded_by = None, vl_superseded_at = None,
        vl_superseded_by_user = False, vl_reinstated_by_user = False, vl_endorsement_source = None, vl_revived_via = None\<rparr>,
      cv_body = ActiveBody ''Hello  World'' None\<rparr>"

definition demo_claims :: claims_dir where
  "demo_claims = [(''2026-01'', [Line (demo_version ''c'' 1 ''client''), Line (demo_version ''d'' 1 ''self'')]),
     (''2025-12'', [Line (demo_version ''e'' 1 ''client'')])]"

theorem purge_removes_exactly_scope_witness:
  "fst (purgeClaimVersionsByScope ''client'' demo_claims) = Inr 2
   \<and> iterAllClaimVersions (\<lambda>s. s) (snd (purgeClaimVersionsByScope ''client'' demo_claims))
      = Inr [backfillClaimVersion (\<lambda>s. s) (demo_version ''d'' 1 ''self'')]"
proof -
  let ?vs = "map (backfillClaimVersion (\<lambda>s. s)) [demo_version ''e'' 1 ''client'', demo_version ''c'' 1 ''client'', demo_version ''d'' 1 ''self'']"
  have "distinct (map fst demo_claims)" and "iterAllClaimVersions (\<lambda>s. s) demo_claims = Inr ?vs"
    by code_simp+
  from purge_removes_exactly_scope [OF this, of "''client''"] show ?thesis
    by (simp add: demo_version_def)
qed

lemma nextVersion_append_example:
  "nextVersion (\<lambda>s. s) demo_claims ''c'' = Inr 2
   \<and> readLatestVersion (\<lambda>s. s) (appendClaimVersion (demo_version ''c'' 2 ''client'') demo_claims) ''c''
      = Inr (Some (backfillClaimVersion (\<lambda>s. s) (demo_version ''c'' 2 ''client'')))"
proof -
  have "\<forall>p \<in> set (map fst demo_claims). p \<le> month_of (cv_version_at (demo_version ''c'' 2 ''client''))"
    "distinct (map fst demo_claims)"
    "nextVersion (\<lambda>s. s) demo_claims (cv_claim_id (demo_version ''c'' 2 ''client'')) = Inr (cv_version (demo_version ''c'' 2 ''client''))"
    by code_simp+
  from nextVersion_append [OF this] this(3) show ?thesis by (simp add: demo_version_def)
qed

end
