(* ===== verification/Entities.thy ===== *)
theory Entities
  imports Claim_Log
begin

text \<open>
  The entity registry (\<^verbatim>\<open>layer1/entities.ts\<close> with the entity statements of \<^verbatim>\<open>layer1/store.ts\<close>): a name is
  resolved to an entity of its scope by exact name, by normalised name or alias, by Jaro-Winkler similarity
  above a threshold, and otherwise to a new entity. Scores are exact rationals. ULIDs are the argument
  \<open>ulid\<close>, applied to the number of entities minted so far, and the clock is the argument \<open>now\<close>. The
  module's two telemetry lists are part of the state.
\<close>

section \<open>State\<close>

record entity =
  en_id :: string
  en_canonical_name :: string
  en_aliases :: "string list"
  en_type :: string
  en_scope :: string
  en_created_at :: string

datatype merge_resolution = MrAuto | MrBorderlineAccepted | MrBorderlineRejected | MrExact

record merge_event =
  me_from_name :: string
  me_to_name :: string
  me_to_entity_id :: string
  me_score :: rat
  me_resolution :: merge_resolution

record entity_store =
  es_entities :: "entity list"
  es_merge_log :: "merge_event list"
  es_new_log :: "string list"
  es_minted :: nat

record entity_clock =
  ec_ulid :: "nat \<Rightarrow> string"
  ec_now :: string

record er_config =
  er_auto_merge_threshold :: "rat option"
  er_borderline_threshold :: "rat option"

record entity_resolution =
  rs_id :: string
  rs_isNew :: bool
  rs_matchConfidence :: rat
  rs_mergedIntoName :: "string option"

definition resetEntityTelemetry :: "entity_store \<Rightarrow> entity_store" where
  "resetEntityTelemetry es = es\<lparr>es_merge_log := [], es_new_log := []\<rparr>"

section \<open>The entity table\<close>

definition insertEntity :: "entity \<Rightarrow> entity_store \<Rightarrow> entity_store" where
  "insertEntity e es = es\<lparr>es_entities := ins_ignore en_id e (es_entities es)\<rparr>"

definition getEntity :: "string \<Rightarrow> entity_store \<Rightarrow> entity option" where
  "getEntity i es = lookup_by en_id i (es_entities es)"

definition findEntityByName :: "string \<Rightarrow> string \<Rightarrow> entity_store \<Rightarrow> entity option" where
  "findEntityByName name scope es =
     List.find (\<lambda>e. en_canonical_name e = name \<and> (scope = [] \<or> en_scope e = scope)) (es_entities es)"

definition getAllEntities :: "string \<Rightarrow> entity_store \<Rightarrow> entity list" where
  "getAllEntities scope es =
     sort_key en_canonical_name (filter (\<lambda>e. scope = [] \<or> en_scope e = scope) (es_entities es))"

definition updateEntityType :: "string \<Rightarrow> string \<Rightarrow> entity_store \<Rightarrow> entity_store" where
  "updateEntityType i ty es = es\<lparr>es_entities := upd_where (\<lambda>e. en_id e = i) (\<lambda>e. e\<lparr>en_type := ty\<rparr>) (es_entities es)\<rparr>"

section \<open>Similarity of names\<close>

definition jw_range :: "int \<Rightarrow> nat \<Rightarrow> nat \<Rightarrow> nat list" where
  "jw_range matchDist l2 i = [nat (max 0 (int i - matchDist))..<nat (min (int i + matchDist + 1) (int l2))]"

fun jw_matches :: "int \<Rightarrow> string \<Rightarrow> nat \<Rightarrow> string \<Rightarrow> bool list \<Rightarrow> bool list \<times> bool list" where
  "jw_matches matchDist t i [] m2 = ([], m2)"
| "jw_matches matchDist t i (c # cs) m2 =
     (case List.find (\<lambda>j. \<not> m2 ! j \<and> t ! j = c) (jw_range matchDist (length t) i) of
        None \<Rightarrow> (let (m1, m2') = jw_matches matchDist t (Suc i) cs m2 in (False # m1, m2'))
      | Some j \<Rightarrow> (let (m1, m2') = jw_matches matchDist t (Suc i) cs (m2[j := True]) in (True # m1, m2')))"

definition jw_matched :: "string \<Rightarrow> bool list \<Rightarrow> string" where
  "jw_matched s ms = map fst (filter snd (zip s ms))"

fun common_prefix :: "string \<Rightarrow> string \<Rightarrow> nat" where
  "common_prefix (a # as) (b # bs) = (if a = b then Suc (common_prefix as bs) else 0)"
| "common_prefix _ _ = 0"

definition jaroWinkler :: "string \<Rightarrow> string \<Rightarrow> rat" where
  "jaroWinkler s t =
     (if s = t then 1
      else if s = [] \<or> t = [] then 0
      else
        let matchDist = int (max (length s) (length t) div 2) - 1;
            (m1, m2) = jw_matches matchDist t 0 s (replicate (length t) False);
            m = length (filter (\<lambda>b. b) m1)
        in if m = 0 then 0
           else
             let transpositions = length (filter (\<lambda>(a, b). a \<noteq> b) (zip (jw_matched s m1) (jw_matched t m2)));
                 jaro = (of_nat m / of_nat (length s) + of_nat m / of_nat (length t)
                         + (of_nat m - of_nat transpositions / 2) / of_nat m) / 3;
                 prefix = min 4 (common_prefix s t)
             in jaro + of_nat prefix * (1 / 10) * (1 - jaro))"

definition is_alnum :: "char \<Rightarrow> bool" where
  "is_alnum c = ((CHR ''a'' \<le> c \<and> c \<le> CHR ''z'') \<or> (CHR ''0'' \<le> c \<and> c \<le> CHR ''9''))"

definition normalise :: "string \<Rightarrow> string" where
  "normalise name =
     collapse_spaces False (map (\<lambda>c. if is_alnum c then c else CHR '' '') (js_trim (toLowerCase name)))"

section \<open>Resolution\<close>

definition DEFAULT_AUTO_MERGE_THRESHOLD :: rat where
  "DEFAULT_AUTO_MERGE_THRESHOLD = 92 / 100"

definition DEFAULT_BORDERLINE_THRESHOLD :: rat where
  "DEFAULT_BORDERLINE_THRESHOLD = 85 / 100"

definition maybeUpgradeType :: "entity \<Rightarrow> string \<Rightarrow> entity_store \<Rightarrow> entity_store" where
  "maybeUpgradeType e newType es =
     (if en_type e = ''concept'' \<and> newType \<noteq> ''concept'' then updateEntityType (en_id e) newType es else es)"

definition candidates :: "entity \<Rightarrow> string list" where
  "candidates e = en_canonical_name e # en_aliases e"

definition best_match :: "string \<Rightarrow> entity list \<Rightarrow> entity option \<times> rat" where
  "best_match normName ents =
     fold (\<lambda>(e, c) (best, score).
             let s = jaroWinkler normName (normalise c) in if score < s then (Some e, s) else (best, score))
       (concat (map (\<lambda>e. map (Pair e) (candidates e)) ents)) (None, 0)"

definition log_merge :: "string \<Rightarrow> entity \<Rightarrow> rat \<Rightarrow> merge_resolution \<Rightarrow> entity_store \<Rightarrow> entity_store" where
  "log_merge name e score r es =
     es\<lparr>es_merge_log := es_merge_log es @
       [\<lparr>me_from_name = name, me_to_name = en_canonical_name e, me_to_entity_id = en_id e, me_score = score,
         me_resolution = r\<rparr>]\<rparr>"

definition create_entity ::
  "entity_clock \<Rightarrow> string \<Rightarrow> string \<Rightarrow> string \<Rightarrow> entity_store \<Rightarrow> entity_resolution \<times> entity_store" where
  "create_entity ck name ty scope es =
     (let i = ''entity_'' @ ec_ulid ck (es_minted es);
          e = \<lparr>en_id = i, en_canonical_name = name, en_aliases = [], en_type = ty, en_scope = scope,
               en_created_at = ec_now ck\<rparr>;
          es1 = insertEntity e es
      in (\<lparr>rs_id = i, rs_isNew = True, rs_matchConfidence = 1, rs_mergedIntoName = None\<rparr>,
          es1\<lparr>es_new_log := es_new_log es1 @ [i], es_minted := Suc (es_minted es1)\<rparr>))"

definition resolveEntity ::
  "entity_clock \<Rightarrow> er_config option \<Rightarrow> string \<Rightarrow> string \<Rightarrow> string \<Rightarrow> entity_store \<Rightarrow> entity_resolution \<times> entity_store" where
  "resolveEntity ck cfg name ty scope es =
     (let autoMerge = (case Option.bind cfg er_auto_merge_threshold of Some t \<Rightarrow> t | None \<Rightarrow> DEFAULT_AUTO_MERGE_THRESHOLD);
          borderline = (case Option.bind cfg er_borderline_threshold of Some t \<Rightarrow> t | None \<Rightarrow> DEFAULT_BORDERLINE_THRESHOLD)
      in case findEntityByName name scope es of
        Some e \<Rightarrow>
          (\<lparr>rs_id = en_id e, rs_isNew = False, rs_matchConfidence = 1, rs_mergedIntoName = None\<rparr>, maybeUpgradeType e ty es)
      | None \<Rightarrow>
          let normName = normalise name; allEntities = getAllEntities scope es in
          case List.find (\<lambda>e. list_ex (\<lambda>c. normalise c = normName) (candidates e)) allEntities of
            Some e \<Rightarrow>
              (\<lparr>rs_id = en_id e, rs_isNew = False, rs_matchConfidence = 1, rs_mergedIntoName = Some (en_canonical_name e)\<rparr>,
               log_merge name e 1 MrExact (maybeUpgradeType e ty es))
          | None \<Rightarrow>
              case best_match normName allEntities of
                (Some e, score) \<Rightarrow>
                  if autoMerge \<le> score
                  then (\<lparr>rs_id = en_id e, rs_isNew = False, rs_matchConfidence = score, rs_mergedIntoName = Some (en_canonical_name e)\<rparr>,
                        maybeUpgradeType e ty (log_merge name e score MrAuto es))
                  else if borderline \<le> score
                  then create_entity ck name ty scope (log_merge name e score MrBorderlineRejected es)
                  else create_entity ck name ty scope es
              | (None, score) \<Rightarrow> create_entity ck name ty scope es)"

section \<open>Lemmas\<close>

interpretation retyped: key_preserving en_id "\<lambda>e. e\<lparr>en_type := ty\<rparr>" for ty
  by unfold_locales simp

lemma telemetry_simps [simp]:
  "es_entities (log_merge name e score r es) = es_entities es" "es_minted (log_merge name e score r es) = es_minted es"
  by (simp_all add: log_merge_def)

lemma upgrade_minted [simp]: "es_minted (maybeUpgradeType e ty es) = es_minted es"
  by (simp add: maybeUpgradeType_def updateEntityType_def)

lemma find_upd_where:
  assumes "\<And>x. P (f x) = P x"
  shows "List.find P (upd_where Q f xs) = map_option (\<lambda>x. if Q x then f x else x) (List.find P xs)"
  by (induction xs) (simp_all add: upd_where_def assms)

lemma find_append_Some: "List.find P xs = Some e \<Longrightarrow> List.find P (xs @ ys) = Some e"
  by (induction xs) (simp_all split: if_splits)

lemma find_mem: "List.find P xs = Some e \<Longrightarrow> e \<in> set xs \<and> P e"
  by (auto simp: find_Some_iff)

text \<open>The table only gains entities; the type of one changes at most from \<^verbatim>\<open>concept\<close>.\<close>

definition entity_ids :: "entity_store \<Rightarrow> string set" where
  "entity_ids es = en_id ` set (es_entities es)"

definition settled :: "string \<Rightarrow> string \<Rightarrow> string \<Rightarrow> string \<Rightarrow> entity_store \<Rightarrow> bool" where
  "settled scope name ty i es =
     (case findEntityByName name scope es of None \<Rightarrow> False
      | Some e \<Rightarrow> en_id e = i \<and> (en_type e = ''concept'' \<longrightarrow> ty = ''concept''))"

lemma upgrade_ids: "entity_ids (maybeUpgradeType e ty es) = entity_ids es"
proof -
  have "set (map en_id (es_entities (updateEntityType (en_id e) ty es))) = set (map en_id (es_entities es))"
    using retyped.keys_upd_where [of "\<lambda>x. en_id x = en_id e" ty "es_entities es"] by (simp add: updateEntityType_def)
  then show ?thesis by (simp add: entity_ids_def maybeUpgradeType_def)
qed

lemma log_merge_ids [simp]: "entity_ids (log_merge name e score r es) = entity_ids es"
  by (simp add: entity_ids_def)

lemma create_ids: "entity_ids (snd (create_entity ck name ty scope es)) = insert (rs_id (fst (create_entity ck name ty scope es))) (entity_ids es)"
proof -
  have "en_id ` set (ins_ignore en_id e rows) = insert (en_id e) (en_id ` set rows)" for e :: entity and rows
    by (cases "\<exists>x \<in> set rows. en_id x = en_id e") (auto simp: ins_ignore_def insert_absorb rev_image_eqI)
  then show ?thesis by (simp add: create_entity_def insertEntity_def entity_ids_def Let_def)
qed

lemma upgrade_settled: "settled scope name ty i es \<Longrightarrow> settled scope name ty i (maybeUpgradeType e ty' es)"
  unfolding settled_def findEntityByName_def maybeUpgradeType_def updateEntityType_def
  by (auto simp: find_upd_where split: option.splits)

lemma log_merge_settled [simp]: "settled scope name ty i (log_merge n e score r es) = settled scope name ty i es"
  by (simp add: settled_def findEntityByName_def)

lemma create_settled: "settled scope name ty i es \<Longrightarrow> settled scope name ty i (snd (create_entity ck n ty' sc es))"
proof -
  assume "settled scope name ty i es"
  moreover have "\<exists>ys. es_entities (snd (create_entity ck n ty' sc es)) = es_entities es @ ys"
    by (simp add: create_entity_def insertEntity_def ins_ignore_def Let_def)
  ultimately show ?thesis
    by (auto simp: settled_def findEntityByName_def find_append_Some split: option.splits)
qed

text \<open>How a resolution ends: on a known entity, whose type it may refine, or on a new one.\<close>

lemma best_match_mem: "best_match n ents = (Some e, score) \<Longrightarrow> e \<in> set ents"
proof -
  have "fold (\<lambda>(e, c) (best, score).
             let s = jaroWinkler n (normalise c) in if score < s then (Some e, s) else (best, score)) ps (b, s0) = (Some e, score)
      \<Longrightarrow> b = Some e \<or> e \<in> fst ` set ps" for ps b s0
    by (induction ps arbitrary: b s0) (force simp: Let_def split: if_splits prod.splits)+
  from this [of "concat (map (\<lambda>e. map (Pair e) (candidates e)) ents)" None 0] show "best_match n ents = (Some e, score) \<Longrightarrow> e \<in> set ents"
    by (auto simp: best_match_def)
qed

lemma resolveEntity_cases:
  assumes "resolveEntity ck cfg name ty scope es = (res, es')"
  obtains (known) e es1 where "e \<in> set (es_entities es)" "rs_id res = en_id e" "\<not> rs_isNew res"
      "es_entities es1 = es_entities es" "es_entities es' = es_entities (maybeUpgradeType e ty es1)"
      "es_minted es' = es_minted es"
    | (created) es1 where "findEntityByName name scope es = None" "rs_isNew res" "es_entities es1 = es_entities es" "es_minted es1 = es_minted es"
      "(res, es') = create_entity ck name ty scope es1"
proof (cases "findEntityByName name scope es")
  case (Some e)
  then show thesis using assms known [of e es] find_mem [of _ "es_entities es" e]
    by (auto simp: resolveEntity_def findEntityByName_def)
next
  case none: None
  let ?ents = "getAllEntities scope es"
  have mem: "e \<in> set (es_entities es)" if "e \<in> set ?ents" for e using that by (auto simp: getAllEntities_def)
  show thesis
  proof (cases "List.find (\<lambda>e. list_ex (\<lambda>c. normalise c = normalise name) (candidates e)) ?ents")
    case (Some e)
    then show thesis using assms none known [of e es] mem find_mem [OF Some]
      by (auto simp: resolveEntity_def Let_def)
  next
    case exact: None
    obtain b score where best: "best_match (normalise name) ?ents = (b, score)" by (cases "best_match (normalise name) ?ents")
    have isnew: "rs_isNew (fst (create_entity ck name ty scope es1))" for es1 by (simp add: create_entity_def Let_def)
    show thesis
    proof (cases b)
      case None
      then have "(res, es') = create_entity ck name ty scope es" using assms none exact best by (simp add: resolveEntity_def Let_def)
      then show thesis using created [of es] none isnew [of es] by (metis fst_conv)
    next
      case (Some e)
      have e: "e \<in> set (es_entities es)" using best_match_mem [of _ ?ents e score] best Some mem by blast
      define am where "am = (case Option.bind cfg er_auto_merge_threshold of Some t \<Rightarrow> t | None \<Rightarrow> DEFAULT_AUTO_MERGE_THRESHOLD)"
      define bl where "bl = (case Option.bind cfg er_borderline_threshold of Some t \<Rightarrow> t | None \<Rightarrow> DEFAULT_BORDERLINE_THRESHOLD)"
      have run: "(res, es') = (if am \<le> score
          then (\<lparr>rs_id = en_id e, rs_isNew = False, rs_matchConfidence = score, rs_mergedIntoName = Some (en_canonical_name e)\<rparr>,
                maybeUpgradeType e ty (log_merge name e score MrAuto es))
          else if bl \<le> score then create_entity ck name ty scope (log_merge name e score MrBorderlineRejected es)
          else create_entity ck name ty scope es)"
        using assms none exact best Some unfolding resolveEntity_def Let_def am_def [symmetric] bl_def [symmetric] by (simp split: if_splits)
      consider "am \<le> score" | es1 where "(res, es') = create_entity ck name ty scope es1" "es_entities es1 = es_entities es" "es_minted es1 = es_minted es"
        using run by (metis telemetry_simps)
      then show thesis
      proof cases
        case 1
        then show thesis using run known [of e "log_merge name e score MrAuto es"] e by simp
      next
        case 2
        then show thesis using created [of es1] none isnew [of es1] by (metis fst_conv)
      qed
    qed
  qed
qed

lemma upgrade_cong: "es_entities es1 = es_entities es \<Longrightarrow> es_entities (maybeUpgradeType e ty es1) = es_entities (maybeUpgradeType e ty es)"
  by (simp add: maybeUpgradeType_def updateEntityType_def)

lemma entities_cong:
  "es_entities es1 = es_entities es \<Longrightarrow> entity_ids es1 = entity_ids es"
  "es_entities es1 = es_entities es \<Longrightarrow> settled scope name ty i es1 = settled scope name ty i es"
  "es_entities es1 = es_entities es \<Longrightarrow> findEntityByName name scope es1 = findEntityByName name scope es"
  by (simp_all add: entity_ids_def settled_def findEntityByName_def)

lemma resolveEntity_ids:
  assumes "resolveEntity ck cfg name ty scope es = (res, es')"
  shows "entity_ids es' = insert (rs_id res) (entity_ids es)"
  using assms
proof (cases rule: resolveEntity_cases)
  case (known e es1)
  then have "entity_ids es' = entity_ids es1" using upgrade_ids [of e ty es1] by (simp add: entity_ids_def)
  with known show ?thesis by (auto simp: entity_ids_def)
next
  case (created es1)
  then show ?thesis using create_ids [of ck name ty scope es1] by (simp add: entity_ids_def) (metis fst_conv snd_conv)
qed

lemma resolveEntity_settled_mono:
  assumes "resolveEntity ck cfg name ty scope es = (res, es')" and "settled sc n t i es"
  shows "settled sc n t i es'"
  using assms(1)
proof (cases rule: resolveEntity_cases)
  case (known e es1)
  have "settled sc n t i (maybeUpgradeType e ty es1)"
    by (rule upgrade_settled) (use assms(2) known in \<open>simp cong: entities_cong\<close>)
  then show ?thesis using known entities_cong(2) by blast
next
  case (created es1)
  have "settled sc n t i es1" using assms(2) created entities_cong(2) by blast
  then show ?thesis using create_settled [of sc n t i es1 ck name ty scope] created by (metis snd_conv)
qed

lemma resolveEntity_settled:
  assumes "settled scope name ty i es"
  shows "resolveEntity ck cfg name ty scope es =
    (\<lparr>rs_id = i, rs_isNew = False, rs_matchConfidence = 1, rs_mergedIntoName = None\<rparr>, es)"
  using assms by (auto simp: settled_def resolveEntity_def maybeUpgradeType_def Let_def split: option.splits)

lemma resolveEntity_new_settled:
  assumes "resolveEntity ck cfg name ty scope es = (res, es')" and "rs_isNew res"
    and "rs_id res \<notin> entity_ids es"
  shows "settled scope name ty (rs_id res) es'"
  using assms(1)
proof (cases rule: resolveEntity_cases)
  case (known e es1)
  then show ?thesis using assms(2) by simp
next
  case (created es1)
  let ?P = "\<lambda>e. en_canonical_name e = name \<and> (scope = [] \<or> en_scope e = scope)"
  have none: "List.find ?P (es_entities es1) = None" using created by (simp add: findEntityByName_def)
  have fresh: "\<forall>x \<in> set (es_entities es1). en_id x \<noteq> rs_id res" using assms(3) created(3) by (metis entity_ids_def imageI)
  have "List.find ?P (xs @ [y]) = (if ?P y then Some y else None)" if "List.find ?P xs = None" for xs y
    using that by (induction xs) (auto split: if_splits)
  note app = this [OF none]
  have "es_entities es' = es_entities es1 @ [\<lparr>en_id = rs_id res, en_canonical_name = name, en_aliases = [], en_type = ty,
      en_scope = scope, en_created_at = ec_now ck\<rparr>]"
    using created(5) fresh by (auto simp: create_entity_def insertEntity_def ins_ignore_def Let_def)
  then show ?thesis by (simp add: settled_def findEntityByName_def app)
qed

text \<open>Ids minted from an injective supply stay unused, and the types in the table come from its calls.\<close>

definition unminted :: "entity_clock \<Rightarrow> entity_store \<Rightarrow> bool" where
  "unminted ck es = (\<forall>n \<ge> es_minted es. ''entity_'' @ ec_ulid ck n \<notin> entity_ids es)"

lemma resolveEntity_unminted:
  assumes "resolveEntity ck cfg name ty scope es = (res, es')" and "unminted ck es" and "inj (ec_ulid ck)"
  shows "unminted ck es' \<and> (rs_isNew res \<longrightarrow> rs_id res \<notin> entity_ids es)"
  using assms(1)
proof (cases rule: resolveEntity_cases)
  case (known e es1)
  then have "entity_ids es' = entity_ids es"
    using resolveEntity_ids [OF assms(1)] by (auto simp: entity_ids_def)
  with known assms(2) show ?thesis by (simp add: unminted_def)
next
  case (created es1)
  then have new: "rs_id res = ''entity_'' @ ec_ulid ck (es_minted es)" "es_minted es' = Suc (es_minted es)"
    by (auto simp: create_entity_def insertEntity_def Let_def)
  have unused: "rs_id res \<notin> entity_ids es" using assms(2) unfolding new(1) unminted_def by blast
  have "''entity_'' @ ec_ulid ck n \<notin> entity_ids es'" if "Suc (es_minted es) \<le> n" for n
  proof -
    have "ec_ulid ck n \<noteq> ec_ulid ck (es_minted es)" using assms(3) that by (metis injD not_less_eq_eq order_refl)
    moreover have "''entity_'' @ ec_ulid ck n \<notin> entity_ids es" using assms(2) that unfolding unminted_def by (metis Suc_leD)
    ultimately show ?thesis unfolding resolveEntity_ids [OF assms(1)] new(1) by (metis insertE same_append_eq)
  qed
  with unused show ?thesis unfolding unminted_def new(2) by blast
qed

lemma resolveEntity_types:
  assumes "resolveEntity ck cfg name ty scope es = (res, es')"
  shows "en_type ` set (es_entities es') \<subseteq> insert ty (en_type ` set (es_entities es))"
  using assms
proof (cases rule: resolveEntity_cases)
  case (known e es1)
  then show ?thesis by (auto simp: maybeUpgradeType_def updateEntityType_def upd_where_def)
next
  case (created es1)
  then show ?thesis by (auto simp: create_entity_def insertEntity_def ins_ignore_def Let_def split: if_splits)
qed

end
