(* ===== verification/Layer0.thy ===== *)
theory Layer0
  imports Config Jsonl
begin

text \<open>
  The evidence log and its derived index (\<^verbatim>\<open>layer0/types.ts\<close>, \<^verbatim>\<open>layer0/log.ts\<close>, \<^verbatim>\<open>layer0/index.ts\<close>), the
  idempotency checks (\<^verbatim>\<open>layer0/idempotency.ts\<close>), the per-writer hash chain (\<^verbatim>\<open>layer0/integrity.ts\<close>) and
  the attachment rules (\<^verbatim>\<open>layer0/attachment_safety.ts\<close>). The effective status of an observation is
  derived by replaying mutation events; the index is a table of rows and the replay mark. SHA-256 over
  the stable serialisation of an observation is the argument \<open>sha\<close>: a function of the observation
  without its own hash.
\<close>

section \<open>Observations\<close>

datatype obs_type =
    T_message | T_file | T_meeting | T_preference | T_decision | T_tool_output | T_claim_extracted
  | T_correction | T_tombstone | T_redaction | T_compaction | T_feedback | T_consent_change
  | T_quarantine_review | T_system | T_agent_run_started | T_agent_run_completed
  | T_agent_action_proposed | T_agent_action_approved | T_agent_action_rejected
  | T_workflow_run_started | T_workflow_run_completed | T_task_created | T_task_completed
  | T_meeting_brief_created | T_followup_drafted | T_erasure

datatype obs_status = OAccepted | OQuarantined

datatype effective_status = EAccepted | EQuarantined | ETombstoned | ERedacted | ERejected | EErased

record actor =
  ac_type :: actor_type
  ac_id :: string
  ac_display_name :: string

record obs_content =
  co_format :: string
  co_body :: json

record obs_idempotency =
  id_actor_id :: string
  id_key :: string
  id_payload_hash :: string

record obs_policy =
  po_retention :: retention_policy
  po_retention_duration :: "string option"
  po_sensitive :: bool
  po_pii_detected :: bool

record obs_integrity =
  in_hash :: string
  in_writer_id :: string
  in_sequence :: nat
  in_previous_hash :: "string option"

record observation =
  ob_id :: string
  ob_operation_id :: "string option"
  ob_actor_id :: "string option"
  ob_type :: obs_type
  ob_status :: obs_status
  ob_app :: string
  ob_app_version :: string
  ob_source_id :: "string option"
  ob_source_ref :: "string option"
  ob_actor :: actor
  ob_captured_at :: string
  ob_observed_at :: string
  ob_scope :: string
  ob_visibility :: visibility
  ob_content :: obs_content
  ob_claims :: "json list option"
  ob_parent_ids :: "string list"
  ob_informed_by :: "string list"
  ob_idempotency :: "obs_idempotency option"
  ob_policy :: obs_policy
  ob_integrity :: obs_integrity

abbreviation ob_sequence :: "observation \<Rightarrow> nat" where
  "ob_sequence o1 \<equiv> in_sequence (ob_integrity o1)"

abbreviation ob_hash :: "observation \<Rightarrow> string" where
  "ob_hash o1 \<equiv> in_hash (ob_integrity o1)"

definition TERMINAL_STATES :: "effective_status set" where
  "TERMINAL_STATES = {ETombstoned, ERedacted, ERejected, EErased}"

text \<open>The key of \<^verbatim>\<open>TRANSITIONS[current]\<close>: an event type, or the type and the action of a review.\<close>

datatype transition_key = KType obs_type | KReview "string option"

definition TRANSITIONS :: "effective_status \<Rightarrow> transition_key \<Rightarrow> effective_status option" where
  "TRANSITIONS current key =
     (case current of
        EAccepted \<Rightarrow>
          (if key = KType T_tombstone then Some ETombstoned
           else if key = KType T_redaction then Some ERedacted else None)
      | EQuarantined \<Rightarrow>
          (if key = KReview (Some ''approve'') then Some EAccepted
           else if key = KReview (Some ''reject'') then Some ERejected
           else if key = KType T_tombstone then Some ETombstoned else None)
      | _ \<Rightarrow> None)"

section \<open>The evidence log\<close>

type_synonym evidence_dir = "observation jsonl_dir"

definition appendObservationAt :: "string \<Rightarrow> observation \<Rightarrow> evidence_dir \<Rightarrow> evidence_dir" where
  "appendObservationAt date obs dir = append_day date [Line obs] dir"

definition appendObservation :: "string \<Rightarrow> observation \<Rightarrow> evidence_dir \<Rightarrow> evidence_dir" where
  "appendObservation now obs dir = appendObservationAt (take 10 now) obs dir"

definition readFile :: "evidence_dir \<Rightarrow> string \<Rightarrow> observation list outcome" where
  "readFile dir date = read_day dir date"

definition readAll :: "evidence_dir \<Rightarrow> observation list outcome" where
  "readAll dir = read_all dir"

definition listDates :: "evidence_dir \<Rightarrow> string list" where
  "listDates dir = log_days dir"

section \<open>The derived index\<close>

record obs_row =
  r_id :: string
  r_type :: obs_type
  r_effective :: effective_status
  r_app :: string
  r_source_id :: "string option"
  r_actor_id :: string
  r_actor_type :: actor_type
  r_scope :: string
  r_visibility :: visibility
  r_sensitive :: bool
  r_pii_detected :: bool
  r_captured_at :: string
  r_observed_at :: string
  r_sequence :: nat
  r_writer_id :: string
  r_hash :: string
  r_idempotency_actor_id :: "string option"
  r_idempotency_key :: "string option"
  r_payload_hash :: "string option"

record layer0_index =
  l0_rows :: "obs_row list"
  l0_last_sequence :: "nat option"

definition initial_status :: "obs_status \<Rightarrow> effective_status" where
  "initial_status s = (case s of OAccepted \<Rightarrow> EAccepted | OQuarantined \<Rightarrow> EQuarantined)"

definition obs_to_row :: "observation \<Rightarrow> obs_row" where
  "obs_to_row obs =
     \<lparr>r_id = ob_id obs, r_type = ob_type obs, r_effective = initial_status (ob_status obs),
      r_app = ob_app obs, r_source_id = ob_source_id obs, r_actor_id = ac_id (ob_actor obs),
      r_actor_type = ac_type (ob_actor obs), r_scope = ob_scope obs, r_visibility = ob_visibility obs,
      r_sensitive = po_sensitive (ob_policy obs), r_pii_detected = po_pii_detected (ob_policy obs),
      r_captured_at = ob_captured_at obs, r_observed_at = ob_observed_at obs,
      r_sequence = ob_sequence obs, r_writer_id = in_writer_id (ob_integrity obs), r_hash = ob_hash obs,
      r_idempotency_actor_id = map_option id_actor_id (ob_idempotency obs),
      r_idempotency_key = map_option id_key (ob_idempotency obs),
      r_payload_hash = map_option id_payload_hash (ob_idempotency obs)\<rparr>"

text \<open>The primary key and the two partial unique indexes, with which \<^verbatim>\<open>INSERT OR IGNORE\<close> may clash.\<close>

definition row_clash :: "obs_row \<Rightarrow> obs_row \<Rightarrow> bool" where
  "row_clash x r =
     (r_id x = r_id r
      \<or> (r_source_id r \<noteq> None \<and> r_source_id x = r_source_id r \<and> r_app x = r_app r \<and> r_scope x = r_scope r)
      \<or> (r_idempotency_key r \<noteq> None \<and> r_idempotency_key x = r_idempotency_key r
         \<and> r_idempotency_actor_id r \<noteq> None \<and> r_idempotency_actor_id x = r_idempotency_actor_id r))"

definition insertOrSkip :: "observation \<Rightarrow> layer0_index \<Rightarrow> layer0_index" where
  "insertOrSkip obs idx =
     (if list_ex (\<lambda>x. row_clash x (obs_to_row obs)) (l0_rows idx) then idx
      else idx\<lparr>l0_rows := l0_rows idx @ [obs_to_row obs]\<rparr>)"

definition set_effective :: "effective_status \<Rightarrow> obs_row \<Rightarrow> obs_row" where
  "set_effective st r = r\<lparr>r_effective := st\<rparr>"

definition body_get :: "json \<Rightarrow> string \<Rightarrow> json option" where
  "body_get body k = (case body of JObj o1 \<Rightarrow> map_of o1 k | _ \<Rightarrow> None)"

text \<open>A body property the code uses as a string; every other value acts like the falsy ones.\<close>

definition body_string :: "json \<Rightarrow> string \<Rightarrow> string option" where
  "body_string body k = (case body_get body k of Some (JStr s) \<Rightarrow> if s = [] then None else Some s | _ \<Rightarrow> None)"

definition apply_scope_mutation :: "obs_type \<Rightarrow> json \<Rightarrow> string \<Rightarrow> obs_row list \<Rightarrow> obs_row list" where
  "apply_scope_mutation ty body scope rows =
     (if ty = T_erasure then
        (if body_get body ''reason'' \<noteq> Some (JStr ''offboarding'')
         then upd_where (\<lambda>r. r_scope r = scope \<and> r_effective r \<noteq> EErased) (set_effective EErased) rows
         else upd_where (\<lambda>r. r_scope r = scope \<and> r_effective r \<in> {EAccepted, EQuarantined})
                (set_effective ETombstoned) rows)
      else if ty = T_tombstone \<or> ty = T_redaction then
        upd_where (\<lambda>r. r_scope r = scope \<and> r_effective r \<in> {EAccepted, EQuarantined})
          (set_effective ETombstoned) rows
      else rows)"

definition transition_key_of :: "obs_type \<Rightarrow> json \<Rightarrow> transition_key" where
  "transition_key_of ty body =
     (if ty = T_quarantine_review
      then KReview (case body_get body ''action'' of Some (JStr s) \<Rightarrow> Some s | _ \<Rightarrow> None)
      else KType ty)"

definition apply_target_mutation :: "obs_type \<Rightarrow> json \<Rightarrow> string \<Rightarrow> obs_row list \<Rightarrow> obs_row list" where
  "apply_target_mutation ty body target rows =
     (case lookup_by r_id target rows of
        None \<Rightarrow> rows
      | Some t \<Rightarrow>
          if r_effective t \<in> TERMINAL_STATES then rows
          else case TRANSITIONS (r_effective t) (transition_key_of ty body) of
            None \<Rightarrow> rows
          | Some st \<Rightarrow> upd_where (\<lambda>r. r_id r = target) (set_effective st) rows)"

definition applyMutationEvent :: "observation \<Rightarrow> layer0_index \<Rightarrow> layer0_index" where
  "applyMutationEvent event idx =
     (let body = co_body (ob_content event);
          kind = (case body_get body ''target_kind'' of None \<Rightarrow> JStr ''observation''
                  | Some JNull \<Rightarrow> JStr ''observation'' | Some v \<Rightarrow> v)
      in
      if kind = JStr ''scope'' \<or> body_get body ''scope'' \<noteq> None then
        (case body_string body ''scope'' of
           None \<Rightarrow> idx
         | Some scope \<Rightarrow> idx\<lparr>l0_rows := apply_scope_mutation (ob_type event) body scope (l0_rows idx)\<rparr>)
      else
        (case body_string body ''target_id'' of
           None \<Rightarrow> idx
         | Some target \<Rightarrow>
             if kind \<noteq> JStr ''observation'' then idx
             else idx\<lparr>l0_rows := apply_target_mutation (ob_type event) body target (l0_rows idx)\<rparr>))"

definition is_mutation :: "obs_type \<Rightarrow> bool" where
  "is_mutation ty = (ty = T_tombstone \<or> ty = T_redaction \<or> ty = T_quarantine_review \<or> ty = T_erasure)"

definition replay_obs :: "observation \<Rightarrow> layer0_index \<Rightarrow> layer0_index" where
  "replay_obs obs idx =
     (let idx1 = insertOrSkip obs idx in
      if is_mutation (ob_type obs) then applyMutationEvent obs idx1 else idx1)"

text \<open>
  The readers are generators: the days before one that does not parse have been replayed when the
  error surfaces, and then the mark is not written.
\<close>

fun rebuild_days :: "evidence_dir \<Rightarrow> string list \<Rightarrow> nat \<Rightarrow> layer0_index \<Rightarrow> nat outcome \<times> layer0_index" where
  "rebuild_days dir [] lastSeq idx = (Inr lastSeq, idx)"
| "rebuild_days dir (d # ds) lastSeq idx =
     (case readFile dir d of
        Inl x \<Rightarrow> (Inl x, idx)
      | Inr es \<Rightarrow> rebuild_days dir ds (if es = [] then lastSeq else ob_sequence (last es)) (fold replay_obs es idx))"

definition rebuildIndex :: "evidence_dir \<Rightarrow> layer0_index \<Rightarrow> unit outcome \<times> layer0_index" where
  "rebuildIndex dir idx =
     (case rebuild_days dir (listDates dir) 0 \<lparr>l0_rows = [], l0_last_sequence = None\<rparr> of
        (Inl x, i) \<Rightarrow> (Inl x, i)
      | (Inr n, i) \<Rightarrow> (Inr (), i\<lparr>l0_last_sequence := Some n\<rparr>))"

definition replay_mark :: "layer0_index \<Rightarrow> nat" where
  "replay_mark idx = (case l0_last_sequence idx of None \<Rightarrow> 0 | Some n \<Rightarrow> n)"

fun catchUp_days :: "evidence_dir \<Rightarrow> string list \<Rightarrow> nat \<Rightarrow> nat \<Rightarrow> layer0_index \<Rightarrow> nat outcome \<times> layer0_index" where
  "catchUp_days dir [] lastSeq newLast idx = (Inr newLast, idx)"
| "catchUp_days dir (d # ds) lastSeq newLast idx =
     (case readFile dir d of
        Inl x \<Rightarrow> (Inl x, idx)
      | Inr es \<Rightarrow>
          (let todo = filter (\<lambda>o1. lastSeq < ob_sequence o1) es in
           catchUp_days dir ds lastSeq (fold (\<lambda>o1 m. max m (ob_sequence o1)) todo newLast) (fold replay_obs todo idx)))"

definition catchUp :: "evidence_dir \<Rightarrow> layer0_index \<Rightarrow> unit outcome \<times> layer0_index" where
  "catchUp dir idx =
     (let lastSeq = replay_mark idx in
      case catchUp_days dir (listDates dir) lastSeq lastSeq idx of
        (Inl x, i) \<Rightarrow> (Inl x, i)
      | (Inr n, i) \<Rightarrow> (Inr (), if lastSeq < n then i\<lparr>l0_last_sequence := Some n\<rparr> else i))"

section \<open>Queries\<close>

definition checkDedup :: "string \<Rightarrow> string \<Rightarrow> string \<Rightarrow> layer0_index \<Rightarrow> string option" where
  "checkDedup app sourceId scope idx =
     map_option r_id (List.find (\<lambda>r. r_app r = app \<and> r_source_id r = Some sourceId \<and> r_scope r = scope) (l0_rows idx))"

definition index_checkIdempotency :: "string \<Rightarrow> string \<Rightarrow> layer0_index \<Rightarrow> (string \<times> string option) option" where
  "index_checkIdempotency actorId key idx =
     map_option (\<lambda>r. (r_id r, r_payload_hash r))
       (List.find (\<lambda>r. r_idempotency_actor_id r = Some actorId \<and> r_idempotency_key r = Some key) (l0_rows idx))"

definition getEffectiveStatus :: "string \<Rightarrow> layer0_index \<Rightarrow> effective_status option" where
  "getEffectiveStatus oid idx = map_option r_effective (lookup_by r_id oid (l0_rows idx))"

definition getEffectiveStatusMap :: "layer0_index \<Rightarrow> (string \<rightharpoonup> effective_status)" where
  "getEffectiveStatusMap idx = fold (\<lambda>r m. m(r_id r \<mapsto> r_effective r)) (l0_rows idx) Map.empty"

definition getLastSequence :: "layer0_index \<Rightarrow> nat" where
  "getLastSequence idx = fold (\<lambda>r m. max m (r_sequence r)) (l0_rows idx) 0"

text \<open>\<^verbatim>\<open>ORDER BY sequence DESC LIMIT 1\<close>: among rows of equal sequence the first in table order.\<close>

definition getLatestHashForWriter :: "string \<Rightarrow> layer0_index \<Rightarrow> string option" where
  "getLatestHashForWriter writerId idx =
     (case sort_key (\<lambda>r. - int (r_sequence r)) (filter (\<lambda>r. r_writer_id r = writerId) (l0_rows idx)) of
        [] \<Rightarrow> None | r # _ \<Rightarrow> Some (r_hash r))"

definition countByStatus :: "effective_status \<Rightarrow> layer0_index \<Rightarrow> nat" where
  "countByStatus st idx = length (filter (\<lambda>r. r_effective r = st) (l0_rows idx))"

definition countByScope :: "string \<Rightarrow> layer0_index \<Rightarrow> nat" where
  "countByScope scope idx = length (filter (\<lambda>r. r_scope r = scope) (l0_rows idx))"

definition countAcceptedByScope :: "string \<Rightarrow> layer0_index \<Rightarrow> nat" where
  "countAcceptedByScope scope idx =
     length (filter (\<lambda>r. r_scope r = scope \<and> r_effective r = EAccepted) (l0_rows idx))"

definition getByScope :: "string \<Rightarrow> layer0_index \<Rightarrow> obs_row list" where
  "getByScope scope idx =
     sort_key r_sequence (filter (\<lambda>r. r_scope r = scope \<and> r_effective r = EAccepted) (l0_rows idx))"

definition totalCount :: "layer0_index \<Rightarrow> nat" where
  "totalCount idx = length (l0_rows idx)"

section \<open>Idempotency\<close>

datatype idempotency_result = INone | IDuplicate string | IConflict string

definition checkIdempotency :: "layer0_index \<Rightarrow> string \<Rightarrow> string option \<Rightarrow> string \<Rightarrow> idempotency_result" where
  "checkIdempotency idx actorId key payloadHash =
     (case key of
        None \<Rightarrow> INone
      | Some k \<Rightarrow>
          if k = [] then INone
          else case index_checkIdempotency actorId k idx of
            None \<Rightarrow> INone
          | Some (oid, ph) \<Rightarrow> if ph = Some payloadHash then IDuplicate oid else IConflict oid)"

definition checkLegacySourceDedup :: "layer0_index \<Rightarrow> string \<Rightarrow> string option \<Rightarrow> string \<Rightarrow> string option" where
  "checkLegacySourceDedup idx app sourceId scope =
     (case sourceId of
        None \<Rightarrow> None
      | Some s \<Rightarrow> if s = [] then None
                 else (case checkDedup app s scope idx of Some oid \<Rightarrow> if oid = [] then None else Some oid | None \<Rightarrow> None))"

section \<open>Hash chain\<close>

definition without_hash :: "observation \<Rightarrow> observation" where
  "without_hash obs = obs\<lparr>ob_integrity := (ob_integrity obs)\<lparr>in_hash := []\<rparr>\<rparr>"

definition computeHash :: "(observation \<Rightarrow> string) \<Rightarrow> observation \<Rightarrow> string" where
  "computeHash sha obs = ''sha256:'' @ sha (without_hash obs)"

definition assignIntegrity ::
  "(observation \<Rightarrow> string) \<Rightarrow> observation \<Rightarrow> string \<Rightarrow> nat \<Rightarrow> string option \<Rightarrow> observation" where
  "assignIntegrity sha obs writerId sequence previousHash =
     (let p = obs\<lparr>ob_integrity := \<lparr>in_hash = [], in_writer_id = writerId, in_sequence = sequence,
                                   in_previous_hash = previousHash\<rparr>\<rparr>
      in p\<lparr>ob_integrity := (ob_integrity p)\<lparr>in_hash := computeHash sha p\<rparr>\<rparr>)"

text \<open>The loop of \<^verbatim>\<open>verifyChain\<close> at index \<open>i\<close> with the hash before it; the result is the first broken index.\<close>

fun verify_from :: "(observation \<Rightarrow> string) \<Rightarrow> nat \<Rightarrow> string option \<Rightarrow> observation list \<Rightarrow> nat option" where
  "verify_from sha i prev [] = None"
| "verify_from sha i prev (o1 # rest) =
     (if computeHash sha o1 \<noteq> ob_hash o1 then Some i
      else if in_previous_hash (ob_integrity o1) \<noteq> prev then Some i
      else verify_from sha (Suc i) (Some (ob_hash o1)) rest)"

definition verifyChain :: "(observation \<Rightarrow> string) \<Rightarrow> observation list \<Rightarrow> nat option" where
  "verifyChain sha obs = verify_from sha 0 None obs"

section \<open>Attachments\<close>

definition ALLOWED_EXTENSIONS :: "string list" where
  "ALLOWED_EXTENSIONS =
     [''.txt'', ''.md'', ''.markdown'', ''.csv'', ''.tsv'', ''.json'', ''.jsonl'', ''.pdf'', ''.docx'', ''.doc'',
      ''.xlsx'', ''.xls'', ''.pptx'', ''.ppt'', ''.rtf'', ''.odt'', ''.ods'', ''.odp'', ''.html'', ''.htm'',
      ''.xml'', ''.yaml'', ''.yml'', ''.toml'', ''.log'', ''.ini'', ''.cfg'', ''.conf'', ''.py'', ''.js'',
      ''.ts'', ''.jsx'', ''.tsx'', ''.rb'', ''.go'', ''.rs'', ''.java'', ''.kt'', ''.swift'', ''.c'', ''.cpp'',
      ''.h'', ''.cs'', ''.sh'', ''.bash'', ''.zsh'', ''.fish'', ''.sql'', ''.graphql'', ''.proto'']"

definition BLOCKED_EXTENSIONS :: "string list" where
  "BLOCKED_EXTENSIONS =
     [''.exe'', ''.dll'', ''.bat'', ''.cmd'', ''.com'', ''.msi'', ''.scr'', ''.pif'', ''.app'', ''.dmg'', ''.pkg'',
      ''.deb'', ''.rpm'', ''.zip'', ''.tar'', ''.gz'', ''.bz2'', ''.7z'', ''.rar'', ''.xz'', ''.iso'', ''.img'',
      ''.vmdk'', ''.vdi'', ''.jar'', ''.war'', ''.class'', ''.wasm'', ''.bin'', ''.dat'']"

definition MAX_ATTACHMENT_SIZE_BYTES :: int where
  "MAX_ATTACHMENT_SIZE_BYTES = 10 * 1024 * 1024"

text \<open>\<^verbatim>\<open>'.' + filename.split('.').pop().toLowerCase()\<close> when the name has a dot, else the empty string.\<close>

definition extension :: "string \<Rightarrow> string" where
  "extension filename =
     (if CHR ''.'' \<in> set filename
      then CHR ''.'' # toLowerCase (rev (takeWhile (\<lambda>c. c \<noteq> CHR ''.'') (rev filename))) else [])"

text \<open>A size of \<open>None\<close> is NaN, which is not greater than the limit.\<close>

definition checkAttachmentSafety :: "string \<Rightarrow> int option \<Rightarrow> bool" where
  "checkAttachmentSafety filename sizeBytes =
     (if (case sizeBytes of Some n \<Rightarrow> MAX_ATTACHMENT_SIZE_BYTES < n | None \<Rightarrow> False) then False
      else let ext = extension filename in
        if ext \<in> set BLOCKED_EXTENSIONS then False
        else if ext = [] \<or> ext \<in> set ALLOWED_EXTENSIONS then True
        else False)"

fun js_includes :: "string \<Rightarrow> string \<Rightarrow> bool" where
  "js_includes [] sub = (sub = [])"
| "js_includes (c # cs) sub = (starts_with (c # cs) sub \<or> js_includes cs sub)"

definition isTextExtractable :: "string \<Rightarrow> bool" where
  "isTextExtractable mime =
     (if starts_with mime ''text/'' then True
      else if mime = ''application/json'' then True
      else if mime = ''application/pdf'' then True
      else if js_includes mime ''openxmlformats'' \<or> js_includes mime ''opendocument'' then True
      else mime = ''application/rtf'')"

section \<open>Lemmas on the index\<close>

interpretation l0_set: key_preserving r_id "set_effective st"
  by unfold_locales (simp add: set_effective_def)

lemma set_effective_simps [simp]:
  "r_effective (set_effective st r) = st" "r_id (set_effective st r) = r_id r"
  "r_scope (set_effective st r) = r_scope r" "r_sequence (set_effective st r) = r_sequence r"
  by (simp_all add: set_effective_def)

lemma row_clash_set_effective [simp]:
  "row_clash (set_effective st x) r = row_clash x r" "row_clash x (set_effective st r) = row_clash x r"
  by (simp_all add: row_clash_def set_effective_def)

text \<open>The edges of the life cycle of an observation.\<close>

inductive lifecycle :: "effective_status \<Rightarrow> effective_status \<Rightarrow> bool" where
  tombstone: "lifecycle EAccepted ETombstoned"
| redact: "lifecycle EAccepted ERedacted"
| approve: "lifecycle EQuarantined EAccepted"
| reject: "lifecycle EQuarantined ERejected"
| tombstone_quarantined: "lifecycle EQuarantined ETombstoned"
| erase: "st \<noteq> EErased \<Longrightarrow> lifecycle st EErased"

inductive_simps lifecycle_terminal [simp]:
  "lifecycle ETombstoned st" "lifecycle ERedacted st" "lifecycle ERejected st" "lifecycle EErased st"

inductive_cases lifecycle_to_acceptedE: "lifecycle st EAccepted"

lemma TRANSITIONS_lifecycle: "TRANSITIONS st key = Some st' \<Longrightarrow> lifecycle st st'"
  by (cases st) (auto simp: TRANSITIONS_def intro: lifecycle.intros split: if_splits)

text \<open>
  What one replayed record does to the status of an observation that has a row. \<open>moves\<close> names every
  cause: an event for the scope of the row, or one for the row itself.
\<close>

definition status_of :: "obs_row list \<Rightarrow> string \<Rightarrow> effective_status option" where
  "status_of rows oid = map_option r_effective (lookup_by r_id oid rows)"

lemma getEffectiveStatus_status_of: "getEffectiveStatus oid idx = status_of (l0_rows idx) oid"
  by (simp add: getEffectiveStatus_def status_of_def)

lemma status_of_upd:
  "status_of (upd_where P (set_effective st) rows) oid =
     map_option (\<lambda>r. if P r then st else r_effective r) (lookup_by r_id oid rows)"
  by (simp add: status_of_def l0_set.lookup_upd_where option.map_comp comp_def if_distrib cong: if_cong)

lemma insertOrSkip_keeps:
  assumes "lookup_by r_id oid (l0_rows idx) = Some r"
  shows "lookup_by r_id oid (l0_rows (insertOrSkip obs idx)) = Some r"
  using assms by (simp add: insertOrSkip_def)

lemma apply_scope_mutation_status:
  assumes "lookup_by r_id oid rows = Some r"
  shows "\<exists>st. status_of (apply_scope_mutation ty body scope rows) oid = Some st
    \<and> (st = r_effective r \<or> lifecycle (r_effective r) st)"
  using assms
  by (auto simp: apply_scope_mutation_def status_of_upd intro: lifecycle.intros) (auto simp: status_of_def)

lemma apply_target_mutation_status:
  assumes "lookup_by r_id oid rows = Some r"
  shows "\<exists>st. status_of (apply_target_mutation ty body target rows) oid = Some st
    \<and> (st = r_effective r \<or> lifecycle (r_effective r) st)"
proof -
  have "r_id r = oid" using assms by (auto dest: lookup_by_SomeD)
  then show ?thesis using assms
    by (auto simp: apply_target_mutation_def status_of_upd split: option.split dest: TRANSITIONS_lifecycle)
      (auto simp: status_of_def)
qed

lemma applyMutationEvent_status:
  assumes "lookup_by r_id oid (l0_rows idx) = Some r"
  shows "\<exists>st. getEffectiveStatus oid (applyMutationEvent ev idx) = Some st
    \<and> (st = r_effective r \<or> lifecycle (r_effective r) st)"
  using assms apply_scope_mutation_status [OF assms] apply_target_mutation_status [OF assms]
  by (auto simp: applyMutationEvent_def Let_def getEffectiveStatus_status_of split: option.split)
    (auto simp: status_of_def)

lemma replay_obs_status:
  assumes "getEffectiveStatus oid idx = Some st"
  shows "\<exists>st'. getEffectiveStatus oid (replay_obs obs idx) = Some st' \<and> (st' = st \<or> lifecycle st st')"
proof -
  obtain r where "lookup_by r_id oid (l0_rows idx) = Some r" and st: "st = r_effective r"
    using assms by (auto simp: getEffectiveStatus_def)
  note keep = insertOrSkip_keeps [OF this(1), of obs]
  show ?thesis using applyMutationEvent_status [OF keep, of obs] keep
    by (auto simp: replay_obs_def Let_def st getEffectiveStatus_def)
qed

lemma replay_status:
  assumes "getEffectiveStatus oid idx = Some st"
  shows "\<exists>st'. getEffectiveStatus oid (fold replay_obs es idx) = Some st' \<and> lifecycle\<^sup>*\<^sup>* st st'"
  using assms
proof (induction es arbitrary: idx st)
  case (Cons e es)
  from replay_obs_status [OF Cons.prems, of e] obtain st1 where
    1: "getEffectiveStatus oid (replay_obs e idx) = Some st1" "lifecycle\<^sup>*\<^sup>* st st1" by auto
  from Cons.IH [OF 1(1)] 1(2) show ?case by (fastforce intro: rtranclp_trans)
qed auto

lemma lifecycle_terminal_closed: "lifecycle\<^sup>*\<^sup>* st st' \<Longrightarrow> st \<in> TERMINAL_STATES \<Longrightarrow> st' = st \<or> st' = EErased"
  by (induction rule: rtranclp_induct) (auto simp: TERMINAL_STATES_def)

text \<open>The unique indexes hold in every table that replay builds.\<close>

definition clash_free :: "obs_row list \<Rightarrow> bool" where
  "clash_free rows \<longleftrightarrow> sorted_wrt (\<lambda>x r. \<not> row_clash x r) rows"

lemma clash_free_upd: "clash_free (upd_where P (set_effective st) rows) = clash_free rows"
proof -
  have "row_clash (if P x then set_effective st x else x) (if P y then set_effective st y else y) = row_clash x y" for x y
    by simp
  then show ?thesis by (simp add: clash_free_def upd_where_def sorted_wrt_map)
qed

lemma clash_free_insert: "clash_free (l0_rows idx) \<Longrightarrow> clash_free (l0_rows (insertOrSkip obs idx))"
  by (auto simp: clash_free_def insertOrSkip_def sorted_wrt_append list_ex_iff)

lemma clash_free_mutation: "clash_free (l0_rows idx) \<Longrightarrow> clash_free (l0_rows (applyMutationEvent ev idx))"
  by (auto simp: applyMutationEvent_def Let_def apply_scope_mutation_def apply_target_mutation_def
      clash_free_upd split: option.split)

lemma clash_free_replay: "clash_free (l0_rows idx) \<Longrightarrow> clash_free (l0_rows (fold replay_obs es idx))"
  by (induction es arbitrary: idx)
    (auto simp: replay_obs_def Let_def clash_free_insert clash_free_mutation)

lemma clash_free_ids: "clash_free rows \<Longrightarrow> keys_unique r_id rows"
  unfolding clash_free_def keys_unique_def
  by (induction rows) (auto simp: row_clash_def)

section \<open>Replay\<close>

interpretation l0_log: log_replay replay_obs "\<lambda>o1. ob_sequence o1" replay_mark
  "\<lambda>n idx. idx\<lparr>l0_last_sequence := Some n\<rparr>"
proof (unfold_locales, goal_cases)
  case (3 e n s)
  have "insertOrSkip e (s\<lparr>l0_last_sequence := Some n\<rparr>) = (insertOrSkip e s)\<lparr>l0_last_sequence := Some n\<rparr>"
    by (simp add: insertOrSkip_def)
  moreover have "applyMutationEvent e (s\<lparr>l0_last_sequence := Some n\<rparr>) = (applyMutationEvent e s)\<lparr>l0_last_sequence := Some n\<rparr>" for s
    by (simp add: applyMutationEvent_def Let_def split: option.split)
  ultimately show ?case by (simp add: replay_obs_def Let_def)
qed (simp_all add: replay_mark_def)

lemma rebuild_days_ok:
  "read_days dir ds = Inr es \<Longrightarrow>
   rebuild_days dir ds n idx = (Inr (if es = [] then n else ob_sequence (last es)), fold replay_obs es idx)"
  by (induction ds arbitrary: n idx es) (auto simp: readFile_def split: sum.splits)

lemma rebuildIndex_ok:
  assumes "readAll dir = Inr es"
  shows "rebuildIndex dir idx = (Inr (),
    (fold replay_obs es \<lparr>l0_rows = [], l0_last_sequence = None\<rparr>)
      \<lparr>l0_last_sequence := Some (if es = [] then 0 else ob_sequence (last es))\<rparr>)"
  using assms by (simp add: rebuildIndex_def listDates_def readAll_def read_all_def rebuild_days_ok)

lemma catchUp_days_ok:
  "read_days dir ds = Inr es \<Longrightarrow>
   catchUp_days dir ds n m idx =
     (Inr (fold (\<lambda>o1 m. max m (ob_sequence o1)) (filter (\<lambda>o1. n < ob_sequence o1) es) m),
      fold replay_obs (filter (\<lambda>o1. n < ob_sequence o1) es) idx)"
  by (induction ds arbitrary: m idx es) (auto simp: readFile_def Let_def split: sum.splits)

lemma fold_max_last:
  assumes "sorted_wrt (\<lambda>a b. ob_sequence a < ob_sequence b) es" and "\<forall>e \<in> set es. m < ob_sequence e"
  shows "fold (\<lambda>o1 m. max m (ob_sequence o1)) es m = (if es = [] then m else ob_sequence (last es))"
  using assms
proof (induction es arbitrary: m)
  case (Cons e es)
  then have "fold (\<lambda>o1 m. max m (ob_sequence o1)) es (ob_sequence e) = (if es = [] then ob_sequence e else ob_sequence (last es))"
    by (intro Cons.IH) auto
  with Cons.prems show ?case by (auto simp: max_def)
qed simp

section \<open>The hash chain\<close>

lemma verify_from_snoc:
  "verify_from sha i prev (xs @ [x]) = None \<longleftrightarrow>
     verify_from sha i prev xs = None \<and> computeHash sha x = ob_hash x
     \<and> in_previous_hash (ob_integrity x) = (if xs = [] then prev else Some (ob_hash (last xs)))"
  by (induction xs arbitrary: i prev) auto

lemma assignIntegrity_hash:
  "computeHash sha (assignIntegrity sha obs w n ph) = ob_hash (assignIntegrity sha obs w n ph)"
  by (simp add: assignIntegrity_def Let_def computeHash_def without_hash_def)

lemma assignIntegrity_simps [simp]:
  "ob_sequence (assignIntegrity sha obs w n ph) = n"
  "in_previous_hash (ob_integrity (assignIntegrity sha obs w n ph)) = ph"
  "in_writer_id (ob_integrity (assignIntegrity sha obs w n ph)) = w"
  "ob_id (assignIntegrity sha obs w n ph) = ob_id obs"
  by (simp_all add: assignIntegrity_def Let_def)

lemma without_hash_eqD:
  assumes "without_hash x = without_hash y" and "ob_hash x = ob_hash y"
  shows "x = y"
proof (cases x)
  case x: (fields a b c d e f g h i j k l m n p q r s t u integ)
  show ?thesis
  proof (cases y)
    case (fields a' b' c' d' e' f' g' h' i' j' k' l' m' n' p' q' r' s' t' u' integ')
    with x assms show ?thesis by (cases integ, cases integ') (simp add: without_hash_def)
  qed
qed

section \<open>Properties\<close>

text \<open>C5: Forgetting is final. However the log continues, an observation keeps its row, and its effective
  status moves only along the life cycle (accepted to tombstoned or redacted, quarantined to accepted,
  rejected or tombstoned, anything to erased): one in a terminal state never becomes visible again, it
  stays as it is or becomes erased, and an erased one stays erased.\<close>

theorem replay_terminal_absorbing:
  assumes "getEffectiveStatus oid idx = Some st"
  shows "\<exists>st'. getEffectiveStatus oid (fold replay_obs es idx) = Some st' \<and> lifecycle\<^sup>*\<^sup>* st st'
    \<and> (st \<in> TERMINAL_STATES \<longrightarrow> st' = st \<or> st' = EErased)"
  using replay_status [OF assms, of es] lifecycle_terminal_closed by blast

definition demo_obs :: "string \<Rightarrow> nat \<Rightarrow> obs_type \<Rightarrow> json \<Rightarrow> observation" where
  "demo_obs oid n ty body =
     \<lparr>ob_id = oid, ob_operation_id = None, ob_actor_id = None, ob_type = ty, ob_status = OAccepted, ob_app = ''app'',
      ob_app_version = ''1'', ob_source_id = None, ob_source_ref = None,
      ob_actor = \<lparr>ac_type = Person, ac_id = ''user:a'', ac_display_name = ''A''\<rparr>, ob_captured_at = ''t'',
      ob_observed_at = ''t'', ob_scope = ''client'', ob_visibility = VScope,
      ob_content = \<lparr>co_format = ''application/json'', co_body = body\<rparr>, ob_claims = None, ob_parent_ids = [], ob_informed_by = [],
      ob_idempotency = None,
      ob_policy = \<lparr>po_retention = Forever, po_retention_duration = None, po_sensitive = False, po_pii_detected = False\<rparr>,
      ob_integrity = \<lparr>in_hash = [], in_writer_id = ''w'', in_sequence = n, in_previous_hash = None\<rparr>\<rparr>"

definition demo_a :: observation where
  "demo_a = demo_obs ''a'' 1 T_message (JStr ''hello'')"

definition demo_erase :: observation where
  "demo_erase = demo_obs ''e'' 2 T_erasure (JObj [(''target_kind'', JStr ''scope''), (''scope'', JStr ''client''),
     (''reason'', JStr ''erasure'')])"

definition demo_late :: observation where
  "demo_late = demo_obs ''z'' 3 T_quarantine_review (JObj [(''target_id'', JStr ''a''), (''action'', JStr ''approve'')])"

theorem replay_terminal_absorbing_witness:
  "\<exists>st'. getEffectiveStatus ''a'' (fold replay_obs [demo_late] (fold replay_obs [demo_a, demo_erase]
       \<lparr>l0_rows = [], l0_last_sequence = None\<rparr>)) = Some st' \<and> st' = EErased"
proof -
  have "getEffectiveStatus ''a'' (fold replay_obs [demo_a, demo_erase] \<lparr>l0_rows = [], l0_last_sequence = None\<rparr>) = Some EErased"
    by code_simp
  from replay_terminal_absorbing [OF this, of "[demo_late]"] show ?thesis by (auto simp: TERMINAL_STATES_def)
qed

text \<open>C24: A catch-up after the log has grown gives exactly the index that a rebuild from scratch gives,
  rows and replay mark, when the sequence numbers of the log increase from 1.\<close>

theorem catchUp_equals_rebuild:
  assumes "readAll dir = Inr old" and "readAll dir' = Inr (old @ new)"
    and "sorted_wrt (\<lambda>a b. ob_sequence a < ob_sequence b) (old @ new)" and "\<forall>e \<in> set (old @ new). 0 < ob_sequence e"
  shows "catchUp dir' (snd (rebuildIndex dir idx)) = rebuildIndex dir' idx'"
proof -
  let ?e = "\<lparr>l0_rows = [], l0_last_sequence = None\<rparr>"
  let ?n = "if old = [] then 0 else ob_sequence (last old)"
  let ?i = "(fold replay_obs old ?e)\<lparr>l0_last_sequence := Some ?n\<rparr>"
  have i: "snd (rebuildIndex dir idx) = ?i" "replay_mark ?i = ?n"
    by (simp_all add: rebuildIndex_ok [OF assms(1)] replay_mark_def)
  have todo: "filter (\<lambda>o1. ?n < ob_sequence o1) (old @ new) = new"
  proof (cases "old = []")
    case True
    then show ?thesis using assms(4) by (simp add: filter_id_conv)
  next
    case False
    then show ?thesis using l0_log.filter_seq_suffix [OF assms(3)] by simp
  qed
  have new: "sorted_wrt (\<lambda>a b. ob_sequence a < ob_sequence b) new" "\<forall>e \<in> set new. ?n < ob_sequence e"
    using assms(3,4) todo by (auto simp: sorted_wrt_append)
  let ?m = "if new = [] then ?n else ob_sequence (last new)"
  have up: "new \<noteq> [] \<Longrightarrow> ?n < ob_sequence (last new)" using new(2) last_in_set by blast
  have run: "catchUp_days dir' (listDates dir') ?n ?n ?i = (Inr ?m, fold replay_obs new ?i)"
    using catchUp_days_ok [OF assms(2) [unfolded readAll_def read_all_def], of ?n ?n ?i]
    unfolding todo fold_max_last [OF new] listDates_def by simp
  have "catchUp dir' ?i = (Inr (), (fold replay_obs new ?i)\<lparr>l0_last_sequence := Some ?m\<rparr>)"
    using up by (cases "new = []") (simp_all only: catchUp_def Let_def i(2) run prod.case sum.case if_True if_False
        less_irrefl simp_thms, simp)
  also have "(fold replay_obs new ?i)\<lparr>l0_last_sequence := Some ?m\<rparr> =
      (fold replay_obs (old @ new) ?e)\<lparr>l0_last_sequence := Some ?m\<rparr>"
    by (simp add: l0_log.fold_set_mark)
  also have "?m = (if old @ new = [] then 0 else ob_sequence (last (old @ new)))" by simp
  finally show ?thesis by (simp add: i(1) rebuildIndex_ok [OF assms(2)])
qed

theorem catchUp_equals_rebuild_witness:
  "catchUp [(''d1'', [Line demo_a]), (''d2'', [Line demo_erase, Line demo_late])]
     (snd (rebuildIndex [(''d1'', [Line demo_a])] \<lparr>l0_rows = [], l0_last_sequence = None\<rparr>))
   = rebuildIndex [(''d1'', [Line demo_a]), (''d2'', [Line demo_erase, Line demo_late])] \<lparr>l0_rows = [], l0_last_sequence = Some 7\<rparr>"
proof (rule catchUp_equals_rebuild [where old = "[demo_a]" and new = "[demo_erase, demo_late]"])
  show "readAll [(''d1'', [Line demo_a])] = Inr [demo_a]" by code_simp
  show "readAll [(''d1'', [Line demo_a]), (''d2'', [Line demo_erase, Line demo_late])] = Inr ([demo_a] @ [demo_erase, demo_late])"
    by code_simp
qed (simp_all add: demo_a_def demo_erase_def demo_late_def demo_obs_def)

text \<open>Erasure survives a rebuild. If the log holds an erasure marker for a scope (other than an
  offboarding), then in an index rebuilt from that log every observation of the scope that was indexed
  before the marker is erased, whatever the log holds after it: a rebuild never resurfaces purged
  content.\<close>

lemma erasure_survives_rebuild:
  assumes "readAll dir = Inr (pre @ ev # post)" and "ob_type ev = T_erasure"
    and "body_string (co_body (ob_content ev)) ''scope'' = Some scope"
    and "body_get (co_body (ob_content ev)) ''reason'' \<noteq> Some (JStr ''offboarding'')"
    and "r \<in> set (l0_rows (fold replay_obs pre \<lparr>l0_rows = [], l0_last_sequence = None\<rparr>))" and "r_scope r = scope"
  shows "getEffectiveStatus (r_id r) (snd (rebuildIndex dir idx)) = Some EErased"
proof -
  let ?e = "\<lparr>l0_rows = [], l0_last_sequence = None\<rparr>"
  let ?pre = "fold replay_obs pre ?e"
  have "clash_free (l0_rows ?pre)" by (rule clash_free_replay) (simp add: clash_free_def)
  then have "lookup_by r_id (r_id r) (l0_rows ?pre) = Some r"
    using assms(5) by (intro lookup_by_unique clash_free_ids)
  from insertOrSkip_keeps [OF this, of ev]
  have row: "lookup_by r_id (r_id r) (l0_rows (insertOrSkip ev ?pre)) = Some r" .
  have present: "body_get (co_body (ob_content ev)) ''scope'' \<noteq> None"
    using assms(3) by (auto simp: body_string_def split: option.splits)
  have "getEffectiveStatus (r_id r) (replay_obs ev ?pre) = Some EErased"
    using assms(2,3,4,6) present row
    by (auto simp: replay_obs_def Let_def is_mutation_def applyMutationEvent_def
        apply_scope_mutation_def getEffectiveStatus_status_of status_of_upd)
  from replay_status [OF this, of post] have "getEffectiveStatus (r_id r) (fold replay_obs post (replay_obs ev ?pre)) = Some EErased"
    using lifecycle_terminal_closed [of EErased] by (auto simp: TERMINAL_STATES_def)
  then show ?thesis by (simp add: rebuildIndex_ok [OF assms(1)] getEffectiveStatus_def)
qed

lemma erasure_survives_rebuild_example:
  "getEffectiveStatus ''a'' (snd (rebuildIndex [(''d1'', [Line demo_a, Line demo_erase, Line demo_late])]
     \<lparr>l0_rows = [], l0_last_sequence = None\<rparr>)) = Some EErased"
proof -
  have "getEffectiveStatus (r_id (obs_to_row demo_a)) (snd (rebuildIndex [(''d1'', [Line demo_a, Line demo_erase, Line demo_late])]
     \<lparr>l0_rows = [], l0_last_sequence = None\<rparr>)) = Some EErased"
  proof (rule erasure_survives_rebuild [where pre = "[demo_a]" and ev = demo_erase and post = "[demo_late]" and scope = "''client''"])
    show "readAll [(''d1'', [Line demo_a, Line demo_erase, Line demo_late])] = Inr ([demo_a] @ demo_erase # [demo_late])"
      by code_simp
    show "obs_to_row demo_a \<in> set (l0_rows (fold replay_obs [demo_a] \<lparr>l0_rows = [], l0_last_sequence = None\<rparr>))"
      by code_simp
  qed code_simp+
  then show ?thesis by (simp add: demo_a_def demo_obs_def obs_to_row_def)
qed

text \<open>C28: The hash chain is tamper-evident. As long as the hash does not collide on the records of the two
  logs, two chains that both verify and end in the same hash are the same list of records: no record can
  be changed, dropped, inserted or reordered without breaking the verification or the final hash.\<close>

theorem verifyChain_tamper_evident:
  assumes "inj_on sha (without_hash ` (set xs \<union> set ys))"
    and "verifyChain sha xs = None" and "verifyChain sha ys = None"
    and "xs \<noteq> []" and "ys \<noteq> []" and "ob_hash (last xs) = ob_hash (last ys)"
  shows "xs = ys"
  using assms unfolding verifyChain_def
proof (induction xs arbitrary: ys rule: rev_induct)
  case (snoc x xs)
  obtain ys' y where ys: "ys = ys' @ [y]" using snoc.prems(5) by (metis rev_exhaust)
  have vx: "verify_from sha 0 None xs = None" "computeHash sha x = ob_hash x"
    "in_previous_hash (ob_integrity x) = (if xs = [] then None else Some (ob_hash (last xs)))"
    using snoc.prems(2) by (simp_all add: verify_from_snoc)
  have vy: "verify_from sha 0 None ys' = None" "computeHash sha y = ob_hash y"
    "in_previous_hash (ob_integrity y) = (if ys' = [] then None else Some (ob_hash (last ys')))"
    using snoc.prems(3) ys by (simp_all add: verify_from_snoc)
  have hash: "ob_hash x = ob_hash y" using snoc.prems(6) ys by simp
  then have "sha (without_hash x) = sha (without_hash y)" using vx(2) vy(2) unfolding computeHash_def by (metis same_append_eq)
  then have "without_hash x = without_hash y" by (rule inj_onD [OF snoc.prems(1)]) (auto simp: ys)
  then have "x = y" using hash by (rule without_hash_eqD)
  show ?case
  proof (cases "xs = []")
    case True
    then have "ys' = []" using vx(3) vy(3) \<open>x = y\<close> by (metis option.distinct(1))
    then show ?thesis using True ys \<open>x = y\<close> by simp
  next
    case False
    then have ne: "ys' \<noteq> []" and last: "ob_hash (last xs) = ob_hash (last ys')"
      using vx(3) vy(3) \<open>x = y\<close> by (auto split: if_splits)
    have "xs = ys'"
      by (rule snoc.IH [OF _ vx(1) vy(1) False ne last])
        (use snoc.prems(1) in \<open>auto simp: ys intro: inj_on_subset\<close>)
    then show ?thesis using ys \<open>x = y\<close> by simp
  qed
qed simp

definition demo_sha :: "observation \<Rightarrow> string" where
  "demo_sha o1 = ob_id o1 @ (case in_previous_hash (ob_integrity o1) of None \<Rightarrow> [] | Some h \<Rightarrow> h)"

definition demo_chain :: "string \<Rightarrow> observation list" where
  "demo_chain first =
     (let o1 = assignIntegrity demo_sha (demo_obs first 1 T_message (JStr ''hello'')) ''w'' 1 None;
          o2 = assignIntegrity demo_sha demo_late ''w'' 2 (Some (ob_hash o1)) in [o1, o2])"

theorem verifyChain_tamper_evident_witness:
  "verifyChain demo_sha (demo_chain ''a'') = None \<and> verifyChain demo_sha (demo_chain ''b'') = None
   \<and> ob_hash (last (demo_chain ''a'')) \<noteq> ob_hash (last (demo_chain ''b''))"
proof -
  have v: "verifyChain demo_sha (demo_chain ''a'') = None" "verifyChain demo_sha (demo_chain ''b'') = None"
    by code_simp+
  have ne: "demo_chain ''a'' \<noteq> []" "demo_chain ''b'' \<noteq> []" "demo_chain ''a'' \<noteq> demo_chain ''b''" by code_simp+
  have "inj_on demo_sha (without_hash ` (set (demo_chain ''a'') \<union> set (demo_chain ''b'')))"
    by code_simp
  from verifyChain_tamper_evident [OF this v ne(1,2)] ne(3) v show ?thesis by blast
qed

end
