(* ===== verification/Relations.thy ===== *)
theory Relations
  imports Claim_Log Layer0
begin

text \<open>
  Which claims are current (\<^verbatim>\<open>layer1/effective_current.ts\<close>): suppression by \<^verbatim>\<open>supersedes\<close> and
  \<^verbatim>\<open>corrects\<close> edges, the breadth-first cycle check before an edge is admitted, the claims a forget
  releases and the revalidation on revive, with the adjacency table they read (\<^verbatim>\<open>refreshAdjacency\<close> and
  \<^verbatim>\<open>purgeByScope\<close> of \<^verbatim>\<open>layer1/store.ts\<close>) and the part of the REVISE and REVIVE handlers that decides the
  relations of the next version (\<^verbatim>\<open>protocol/revise.ts\<close>, \<^verbatim>\<open>protocol/forget.ts\<close>). The table is
  latest-version-only: the relations of a claim's latest version are its rows.
\<close>

section \<open>Tables\<close>

record claim_row =
  kr_id :: string
  kr_scope :: string
  kr_state :: claim_state
  kr_supporting_evidence :: "json option"

record rel_row =
  rl_source :: string
  rl_rel :: claim_relation

text \<open>\<open>kd_observations\<close> is None when the database has no evidence lifecycle columns; \<open>kr_supporting_evidence\<close>
  is None when its text does not parse.\<close>

record claim_db =
  kd_claims :: "claim_row list"
  kd_relations :: "rel_row list"
  kd_observations :: "(string \<times> effective_status) list option"

definition SUPPRESSION_KINDS :: "relation_kind set" where
  "SUPPRESSION_KINDS = {RkSupersedes, RkCorrects}"

definition suppressing :: "claim_relation \<Rightarrow> bool" where
  "suppressing r = (cr_kind r \<in> SUPPRESSION_KINDS \<and> cr_invalid_at r = None)"

definition relations_of :: "string \<Rightarrow> claim_db \<Rightarrow> claim_relation list" where
  "relations_of c db = map rl_rel (filter (\<lambda>r. rl_source r = c) (kd_relations db))"

definition outbound :: "string \<Rightarrow> claim_db \<Rightarrow> claim_relation list" where
  "outbound c db = filter suppressing (relations_of c db)"

definition live_edges :: "claim_db \<Rightarrow> (string \<times> string) set" where
  "live_edges db = {(rl_source r, cr_target (rl_rel r)) | r. r \<in> set (kd_relations db) \<and> suppressing (rl_rel r)}"

section \<open>Effective-current\<close>

definition evidence_ids :: "json option \<Rightarrow> string list" where
  "evidence_ids e =
     (case e of Some (JArr xs) \<Rightarrow> concat (map (\<lambda>x. case x of JStr s \<Rightarrow> [s] | _ \<Rightarrow> []) xs) | _ \<Rightarrow> [])"

definition evidence_lost :: "(string \<times> effective_status) list \<Rightarrow> json option \<Rightarrow> bool" where
  "evidence_lost obs e =
     (let rows = concat (map (\<lambda>i. case map_of obs i of None \<Rightarrow> [] | Some st \<Rightarrow> [st]) (evidence_ids e))
      in rows \<noteq> [] \<and> EAccepted \<notin> set rows)"

definition suppressor :: "string \<Rightarrow> claim_db \<Rightarrow> rel_row option" where
  "suppressor c db = List.find (\<lambda>r. cr_target (rl_rel r) = c \<and> suppressing (rl_rel r)
     \<and> list_ex (\<lambda>k. kr_id k = rl_source r \<and> kr_state k = CsActive) (kd_claims db)) (kd_relations db)"

definition isEffectiveCurrent :: "string \<Rightarrow> claim_db \<Rightarrow> bool" where
  "isEffectiveCurrent c db =
     (case lookup_by kr_id c (kd_claims db) of
        None \<Rightarrow> False
      | Some k \<Rightarrow>
          if kr_state k = CsForgotten then False
          else if (case kd_observations db of None \<Rightarrow> False | Some obs \<Rightarrow> evidence_lost obs (kr_supporting_evidence k)) then False
          else suppressor c db = None)"

definition getEffectiveCurrentIds :: "string option \<Rightarrow> claim_db \<Rightarrow> string list" where
  "getEffectiveCurrentIds scope db =
     filter (\<lambda>c. isEffectiveCurrent c db)
       (map kr_id (filter (\<lambda>k. kr_state k = CsActive
          \<and> (case scope of None \<Rightarrow> True | Some s \<Rightarrow> s = [] \<or> kr_scope k = s)) (kd_claims db)))"

section \<open>The cycle check\<close>

definition known_nodes :: "claim_db \<Rightarrow> string set" where
  "known_nodes db = cr_target ` rl_rel ` set (kd_relations db)"

lemma outbound_known: "set (map cr_target (outbound c db)) \<subseteq> known_nodes db"
  by (auto simp: outbound_def relations_of_def known_nodes_def)

definition unvisited :: "claim_db \<Rightarrow> string list \<Rightarrow> string list \<Rightarrow> nat" where
  "unvisited db visited queue = card (known_nodes db \<union> set queue - set visited)"

lemma unvisited_expand:
  assumes "c \<notin> set visited"
  shows "unvisited db (visited @ [c]) (queue @ filter P (map cr_target (outbound c db))) < unvisited db visited (c # queue)"
  unfolding unvisited_def
proof (rule psubset_card_mono)
  show "finite (known_nodes db \<union> set (c # queue) - set visited)" by (simp add: known_nodes_def)
  show "known_nodes db \<union> set (queue @ filter P (map cr_target (outbound c db))) - set (visited @ [c])
      \<subset> known_nodes db \<union> set (c # queue) - set visited"
    using assms outbound_known [of c db] by auto
qed

function bfs :: "claim_db \<Rightarrow> string \<Rightarrow> string list \<Rightarrow> string list \<Rightarrow> bool" where
  "bfs db src visited [] = True"
| "bfs db src visited (current # queue) =
     (if current = src then False
      else if current \<in> set visited then bfs db src visited queue
      else bfs db src (visited @ [current])
             (queue @ filter (\<lambda>t. t \<notin> set (visited @ [current])) (map cr_target (outbound current db))))"
  by pat_completeness auto

termination
proof (relation "measures [\<lambda>(db, src, visited, queue). unvisited db visited queue, \<lambda>(db, src, visited, queue). length queue]")
  fix db :: claim_db and src current :: string and visited queue
  assume "current \<in> set visited"
  then have "unvisited db visited queue = unvisited db visited (current # queue)"
    unfolding unvisited_def by (rule_tac arg_cong [where f = card]) auto
  then show "((db, src, visited, queue), (db, src, visited, current # queue))
      \<in> measures [\<lambda>(db, src, visited, queue). unvisited db visited queue, \<lambda>(db, src, visited, queue). length queue]"
    by simp
qed (simp_all add: unvisited_expand)

definition checkAcyclicity :: "string \<Rightarrow> string \<Rightarrow> relation_kind \<Rightarrow> claim_db \<Rightarrow> bool" where
  "checkAcyclicity sourceId targetId kind db = (if kind \<notin> SUPPRESSION_KINDS then True else bfs db sourceId [] [targetId])"

definition computeReleasedClaims :: "string \<Rightarrow> claim_db \<Rightarrow> string list" where
  "computeReleasedClaims c db = filter (\<lambda>t. isEffectiveCurrent t db) (map cr_target (outbound c db))"

record revive_validation =
  rv_valid :: "string list"
  rv_invalidated :: "string list"

definition revalidateOnRevive :: "string \<Rightarrow> claim_db \<Rightarrow> revive_validation" where
  "revalidateOnRevive c db =
     (let ok = (\<lambda>r. checkAcyclicity c (cr_target r) (cr_kind r) db) in
      \<lparr>rv_valid = map cr_relation_id (filter ok (outbound c db)),
       rv_invalidated = map cr_relation_id (filter (\<lambda>r. \<not> ok r) (outbound c db))\<rparr>)"

section \<open>Writing relations\<close>

definition refreshAdjacency :: "string \<Rightarrow> claim_relation list \<Rightarrow> claim_db \<Rightarrow> claim_db" where
  "refreshAdjacency c rels db =
     db\<lparr>kd_relations := fold (\<lambda>r rows. ins_ignore (\<lambda>x. cr_relation_id (rl_rel x)) \<lparr>rl_source = c, rl_rel = r\<rparr> rows)
          rels (del_where (\<lambda>x. rl_source x = c) (kd_relations db))\<rparr>"

text \<open>A relation that a REVISE asks for, with the id minted for it.\<close>

record add_relation =
  ar_relation_id :: string
  ar_kind :: relation_kind
  ar_target :: string
  ar_valid_at :: string

fun admit_relations :: "claim_db \<Rightarrow> string \<Rightarrow> claim_relation list \<Rightarrow> add_relation list \<Rightarrow> claim_relation list outcome" where
  "admit_relations db target rels [] = Inr rels"
| "admit_relations db target rels (a # as) =
     (if \<not> isCanonicalRelationValid (ar_kind a) RoUser then Inl (ProtocolError ''invalid_relation'' NoDetails)
      else if ar_kind a \<in> {RkSupersedes, RkCorrects} \<and> \<not> checkAcyclicity target (ar_target a) (ar_kind a) db
      then Inl (ProtocolError ''effective_current_cycle'' NoDetails)
      else admit_relations db target
        (rels @ [\<lparr>cr_relation_id = ar_relation_id a, cr_kind = ar_kind a, cr_target = ar_target a,
                  cr_valid_at = ar_valid_at a, cr_invalid_at = None, cr_origin = RoUser\<rparr>]) as)"

fun invalidate_first :: "string \<Rightarrow> string \<Rightarrow> claim_relation list \<Rightarrow> claim_relation list option" where
  "invalidate_first rid tm [] = None"
| "invalidate_first rid tm (r # rs) =
     (if cr_relation_id r = rid then Some (r\<lparr>cr_invalid_at := Some tm\<rparr> # rs)
      else map_option ((#) r) (invalidate_first rid tm rs))"

fun invalidate_relations :: "string \<Rightarrow> string list \<Rightarrow> claim_relation list \<Rightarrow> claim_relation list outcome" where
  "invalidate_relations tm [] rels = Inr rels"
| "invalidate_relations tm (rid # rids) rels =
     (case invalidate_first rid tm rels of
        None \<Rightarrow> Inl (ProtocolError ''relation_not_found'' NoDetails)
      | Some rels' \<Rightarrow> invalidate_relations tm rids rels')"

definition revise_relations ::
  "claim_db \<Rightarrow> string \<Rightarrow> string \<Rightarrow> add_relation list \<Rightarrow> string list \<Rightarrow> claim_relation list \<Rightarrow> claim_relation list outcome" where
  "revise_relations db target preparedAt adds invalid latest =
     (case admit_relations db target latest adds of
        Inl x \<Rightarrow> Inl x
      | Inr rels \<Rightarrow> invalidate_relations preparedAt invalid rels)"

definition revive_relations :: "claim_db \<Rightarrow> string \<Rightarrow> string \<Rightarrow> claim_relation list \<Rightarrow> claim_relation list" where
  "revive_relations db c preparedAt rels =
     map (\<lambda>r. if cr_relation_id r \<in> set (rv_invalidated (revalidateOnRevive c db)) then r\<lparr>cr_invalid_at := Some preparedAt\<rparr> else r) rels"

definition set_claim_state :: "string \<Rightarrow> claim_state \<Rightarrow> claim_db \<Rightarrow> claim_db" where
  "set_claim_state c st db = db\<lparr>kd_claims := upd_where (\<lambda>k. kr_id k = c) (\<lambda>k. k\<lparr>kr_state := st\<rparr>) (kd_claims db)\<rparr>"

definition purgeByScope :: "string \<Rightarrow> claim_db \<Rightarrow> claim_db" where
  "purgeByScope scope db =
     (let ids = map kr_id (filter (\<lambda>k. kr_scope k = scope) (kd_claims db)) in
      db\<lparr>kd_claims := del_where (\<lambda>k. kr_scope k = scope) (kd_claims db),
         kd_relations := del_where (\<lambda>r. rl_source r \<in> set ids \<or> cr_target (rl_rel r) \<in> set ids) (kd_relations db)\<rparr>)"

definition empty_db :: claim_db where
  "empty_db = \<lparr>kd_claims = [], kd_relations = [], kd_observations = Some []\<rparr>"

section \<open>Lemmas\<close>

lemma live_edges_outbound: "(c, t) \<in> live_edges db \<longleftrightarrow> t \<in> cr_target ` set (outbound c db)"
  by (auto simp: live_edges_def outbound_def relations_of_def image_iff)

lemma finite_live_edges: "finite (live_edges db)"
proof -
  have "live_edges db \<subseteq> (\<lambda>r. (rl_source r, cr_target (rl_rel r))) ` set (kd_relations db)" by (auto simp: live_edges_def)
  then show ?thesis by (rule finite_subset) simp
qed

text \<open>A path that leaves a closed set passes through its frontier.\<close>

lemma path_leaves:
  assumes "(v, s) \<in> E\<^sup>*" and "v \<in> V" and "s \<notin> V" and "\<And>x t. x \<in> V \<Longrightarrow> (x, t) \<in> E \<Longrightarrow> t \<in> V \<union> Q"
  shows "\<exists>x \<in> Q. (x, s) \<in> E\<^sup>*"
  using assms(1,2)
proof (induction rule: converse_rtrancl_induct)
  case base
  then show ?case using assms(3) by simp
next
  case (step y z)
  then show ?case using assms(4) [of y z] by blast
qed

lemma bfs_false_iff:
  assumes "src \<notin> set visited" and "\<And>x t. x \<in> set visited \<Longrightarrow> (x, t) \<in> live_edges db \<Longrightarrow> t \<in> set visited \<union> set queue"
  shows "\<not> bfs db src visited queue \<longleftrightarrow> (\<exists>c \<in> set queue. (c, src) \<in> (live_edges db)\<^sup>*)"
  using assms
proof (induction db src visited queue rule: bfs.induct)
  case (2 db src visited c queue)
  let ?E = "live_edges db"
  consider "c = src" | "c \<noteq> src" "c \<in> set visited" | "c \<noteq> src" "c \<notin> set visited" by blast
  then show ?case
  proof cases
    case 1
    then show ?thesis by auto
  next
    case 2
    have closed: "t \<in> set visited \<union> set queue" if "x \<in> set visited" "(x, t) \<in> ?E" for x t
      using "2.prems"(2) [OF that] 2(2) by auto
    have "(c, src) \<in> ?E\<^sup>* \<Longrightarrow> \<exists>x \<in> set queue. (x, src) \<in> ?E\<^sup>*"
      using path_leaves [of c src ?E "set visited" "set queue"] 2(2) "2.prems"(1) closed by blast
    moreover have "\<not> bfs db src visited queue \<longleftrightarrow> (\<exists>x \<in> set queue. (x, src) \<in> ?E\<^sup>*)"
      by (rule "2.IH"(1) [OF 2 "2.prems"(1)]) (rule closed)
    ultimately show ?thesis using 2 by auto
  next
    case 3
    let ?new = "filter (\<lambda>t. t \<notin> set (visited @ [c])) (map cr_target (outbound c db))"
    have closed: "t \<in> set (visited @ [c]) \<union> set (queue @ ?new)" if "x \<in> set (visited @ [c])" "(x, t) \<in> ?E" for x t
      using "2.prems"(2) [of x t] that by (auto simp: live_edges_outbound)
    have notin: "src \<notin> set (visited @ [c])" using "2.prems"(1) 3(1) by auto
    have "(c, src) \<in> ?E\<^sup>* \<Longrightarrow> \<exists>x \<in> set (queue @ ?new). (x, src) \<in> ?E\<^sup>*"
      using path_leaves [of c src ?E "set (visited @ [c])" "set (queue @ ?new)"] notin closed by auto
    moreover have "(c, x) \<in> ?E" if "x \<in> set ?new" for x using that by (simp add: live_edges_outbound)
    ultimately have "(\<exists>x \<in> set (queue @ ?new). (x, src) \<in> ?E\<^sup>*) \<longleftrightarrow> (\<exists>x \<in> set (c # queue). (x, src) \<in> ?E\<^sup>*)"
      by (auto intro: converse_rtrancl_into_rtrancl)
    moreover have "\<not> bfs db src (visited @ [c]) (queue @ ?new) \<longleftrightarrow> (\<exists>x \<in> set (queue @ ?new). (x, src) \<in> ?E\<^sup>*)"
      by (rule "2.IH"(2) [OF 3 notin]) (rule closed)
    ultimately show ?thesis using 3 by (simp del: set_append set_filter)
  qed
qed simp

lemma checkAcyclicity_iff:
  "checkAcyclicity s t k db \<longleftrightarrow> k \<notin> SUPPRESSION_KINDS \<or> (t, s) \<notin> (live_edges db)\<^sup>*"
  using bfs_false_iff [of s "[]" db "[t]"] by (auto simp: checkAcyclicity_def)

lemma acyclic_add_targets:
  assumes "finite T" and "acyclic E" and "\<And>t. t \<in> T \<Longrightarrow> (t, s) \<notin> E\<^sup>*"
  shows "acyclic (E \<union> {s} \<times> T)"
  using assms
proof (induction T arbitrary: E)
  case (insert t T)
  have "acyclic (Set.insert (s, t) E)" using insert.prems by (simp add: acyclic_insert)
  moreover have "(t', s) \<notin> (Set.insert (s, t) E)\<^sup>*" if "t' \<in> T" for t'
    using insert.prems(2) [of t'] insert.prems(2) [of t] that by (auto simp: rtrancl_insert)
  ultimately have "acyclic (Set.insert (s, t) E \<union> {s} \<times> T)" by (rule insert.IH)
  then show ?case by (rule acyclic_subset) auto
qed simp

lemma set_fold_ins_ignore: "set (fold (\<lambda>r rows. ins_ignore key (f r) rows) rs rows) \<subseteq> set rows \<union> f ` set rs"
proof (induction rs arbitrary: rows)
  case (Cons r rs)
  have "set (ins_ignore key (f r) rows) \<subseteq> set rows \<union> {f r}" by (auto simp: ins_ignore_def)
  then show ?case using Cons.IH [of "ins_ignore key (f r) rows"] by fastforce
qed simp

lemma live_edges_refresh:
  "live_edges (refreshAdjacency c rels db) \<subseteq> {(s, t) \<in> live_edges db. s \<noteq> c} \<union> {c} \<times> cr_target ` {r \<in> set rels. suppressing r}"
proof
  fix e assume "e \<in> live_edges (refreshAdjacency c rels db)"
  then obtain x where x: "e = (rl_source x, cr_target (rl_rel x))" "suppressing (rl_rel x)"
    "x \<in> set (kd_relations (refreshAdjacency c rels db))" by (auto simp: live_edges_def)
  then have "x \<in> set (del_where (\<lambda>x. rl_source x = c) (kd_relations db)) \<union> (\<lambda>r. \<lparr>rl_source = c, rl_rel = r\<rparr>) ` set rels"
    using set_fold_ins_ignore [of "\<lambda>x. cr_relation_id (rl_rel x)" "\<lambda>r. \<lparr>rl_source = c, rl_rel = r\<rparr>" rels
        "del_where (\<lambda>x. rl_source x = c) (kd_relations db)"]
    by (auto simp: refreshAdjacency_def)
  then show "e \<in> {(s, t) \<in> live_edges db. s \<noteq> c} \<union> {c} \<times> cr_target ` {r \<in> set rels. suppressing r}"
    using x(1,2) by (auto simp: live_edges_def)
qed

lemma own_edges: "r \<in> set (relations_of c db) \<Longrightarrow> suppressing r \<Longrightarrow> (c, cr_target r) \<in> live_edges db"
  by (auto simp: live_edges_outbound outbound_def)

lemma admitted:
  assumes "admit_relations db target rels adds = Inr rels'" and "r \<in> set rels'" and "suppressing r"
  shows "r \<in> set rels \<or> (cr_target r, target) \<notin> (live_edges db)\<^sup>*"
  using assms
proof (induction db target rels adds rule: admit_relations.induct)
  case (2 db target rels a as)
  then show ?case
    by (auto simp: checkAcyclicity_iff suppressing_def SUPPRESSION_KINDS_def split: if_splits)
qed simp

lemma invalidate_first_suppressing:
  "invalidate_first rid tm rels = Some rels' \<Longrightarrow> {r \<in> set rels'. suppressing r} \<subseteq> {r \<in> set rels. suppressing r}"
proof (induction rid tm rels arbitrary: rels' rule: invalidate_first.induct)
  case (2 rid tm r rs)
  show ?case
  proof (cases "cr_relation_id r = rid")
    case True
    then show ?thesis using 2 by (auto simp: suppressing_def)
  next
    case False
    then obtain rs' where "invalidate_first rid tm rs = Some rs'" "rels' = r # rs'" using 2 by auto
    then show ?thesis using 2(1) [OF False] by auto
  qed
qed simp

lemma invalidate_suppressing:
  "invalidate_relations tm rids rels = Inr rels' \<Longrightarrow> {r \<in> set rels'. suppressing r} \<subseteq> {r \<in> set rels. suppressing r}"
proof (induction tm rids rels rule: invalidate_relations.induct)
  case (2 tm rid rids rels)
  then show ?case using invalidate_first_suppressing [of rid tm rels]
    by (auto split: option.splits)
qed simp

lemma revise_acyclic:
  assumes "acyclic (live_edges db)" and "revise_relations db c tm adds inval latest = Inr rels"
    and "\<forall>r \<in> set latest. suppressing r \<longrightarrow> (c, cr_target r) \<in> live_edges db"
  shows "acyclic (live_edges (refreshAdjacency c rels db))"
proof -
  obtain mid where mid: "admit_relations db c latest adds = Inr mid" "invalidate_relations tm inval mid = Inr rels"
    using assms(2) by (auto simp: revise_relations_def split: sum.splits)
  let ?T = "cr_target ` {r \<in> set mid. suppressing r \<and> (cr_target r, c) \<notin> (live_edges db)\<^sup>*}"
  have "acyclic (live_edges db \<union> {c} \<times> ?T)" by (rule acyclic_add_targets [OF _ assms(1)]) auto
  moreover have "live_edges (refreshAdjacency c rels db) \<subseteq> live_edges db \<union> {c} \<times> ?T"
    using live_edges_refresh [of c rels db] invalidate_suppressing [OF mid(2)] admitted [OF mid(1)] assms(3)
    by blast
  ultimately show ?thesis by (rule acyclic_subset)
qed

lemma admitted_no_cycle:
  assumes "admit_relations db c latest adds = Inr mid" and "a \<in> set adds" and "ar_kind a \<in> {RkSupersedes, RkCorrects}"
  shows "(ar_target a, c) \<notin> (live_edges db)\<^sup>*"
  using assms
  by (induction db c latest adds rule: admit_relations.induct) (auto simp: checkAcyclicity_iff SUPPRESSION_KINDS_def split: if_splits)

lemma live_edges_frame [simp]:
  "live_edges (db\<lparr>kd_claims := ks\<rparr>) = live_edges db" "live_edges (db\<lparr>kd_observations := obs\<rparr>) = live_edges db"
  "live_edges (set_claim_state c st db) = live_edges db"
  by (simp_all add: live_edges_def set_claim_state_def)

interpretation claim_set: key_preserving kr_id "\<lambda>k. k\<lparr>kr_state := st\<rparr>"
  by unfold_locales simp

definition active_claim :: "claim_db \<Rightarrow> string \<Rightarrow> bool" where
  "active_claim db c = (\<exists>k \<in> set (kd_claims db). kr_id k = c \<and> kr_state k = CsActive)"

lemma suppressor_None: "suppressor c db = None \<longleftrightarrow> (\<forall>s. active_claim db s \<longrightarrow> (s, c) \<notin> live_edges db)"
  by (auto simp: suppressor_def find_None_iff live_edges_def active_claim_def list_ex_iff)

section \<open>Properties\<close>

text \<open>The cycle check is exact and terminates: on any table of relations, whatever edges it holds, it refuses
  an edge from source to target if and only if the edge is a suppressing one and the source can already be
  reached from the target over live supersedes and corrects edges.\<close>

lemma checkAcyclicity_exact:
  "checkAcyclicity s t k db = (\<not> (k \<in> {RkSupersedes, RkCorrects} \<and> (t, s) \<in> (live_edges db)\<^sup>*))"
  by (auto simp: checkAcyclicity_iff SUPPRESSION_KINDS_def)

text \<open>On a table without a cycle, every active claim is current itself, as far as suppression goes, or stands at the end of a chain
  of suppressing edges that starts at an active claim no active claim suppresses, and no revive has to invalidate an edge.\<close>

lemma acyclic_suppression:
  assumes "acyclic (live_edges db)"
  shows "active_claim db c \<Longrightarrow> \<exists>y. active_claim db y \<and> (y, c) \<in> (live_edges db)\<^sup>* \<and> suppressor y db = None"
    and "rv_invalidated (revalidateOnRevive c db) = []"
proof -
  have wf: "wf (live_edges db)" by (rule finite_acyclic_wf [OF finite_live_edges assms])
  show "\<exists>y. active_claim db y \<and> (y, c) \<in> (live_edges db)\<^sup>* \<and> suppressor y db = None" if "active_claim db c"
    using wf that
  proof (induction c rule: wf_induct_rule)
    case (less c)
    show ?case
    proof (cases "suppressor c db = None")
      case False
      then obtain s where s: "active_claim db s" "(s, c) \<in> live_edges db" by (auto simp: suppressor_None)
      then obtain y where "active_claim db y" "(y, s) \<in> (live_edges db)\<^sup>*" "suppressor y db = None"
        using less.IH by blast
      then show ?thesis using s(2) by (meson rtrancl.rtrancl_into_rtrancl)
    qed (use less.prems in blast)
  qed
  have "checkAcyclicity c (cr_target r) (cr_kind r) db" if "r \<in> set (outbound c db)" for r
  proof -
    have "(c, cr_target r) \<in> live_edges db" using that by (auto simp: live_edges_outbound)
    then have "(cr_target r, c) \<notin> (live_edges db)\<^sup>*" using assms unfolding acyclic_def by (meson rtrancl_into_trancl2)
    then show ?thesis by (simp add: checkAcyclicity_iff)
  qed
  then show "rv_invalidated (revalidateOnRevive c db) = []" by (simp add: revalidateOnRevive_def Let_def filter_empty_conv)
qed

text \<open>Forgetting a claim releases exactly what it suppressed: for every other claim, being current after the
  forget is the same as having been current before or being among the released claims that are computed after it.\<close>

lemma forget_releases_exactly:
  assumes "x \<noteq> c"
  shows "isEffectiveCurrent x (set_claim_state c CsForgotten db) \<longleftrightarrow>
    isEffectiveCurrent x db \<or> x \<in> set (computeReleasedClaims c (set_claim_state c CsForgotten db))"
proof -
  let ?db = "set_claim_state c CsForgotten db"
  have look: "lookup_by kr_id x (kd_claims ?db) = lookup_by kr_id x (kd_claims db)"
    using assms lookup_by_SomeD [of kr_id x "kd_claims db"]
    by (cases "lookup_by kr_id x (kd_claims db)") (auto simp: set_claim_state_def claim_set.lookup_upd_where)
  have obs: "kd_observations ?db = kd_observations db" by (simp add: set_claim_state_def)
  have active: "active_claim ?db s \<longleftrightarrow> active_claim db s \<and> s \<noteq> c" for s
    by (auto simp: active_claim_def set_claim_state_def upd_where_def)
  have weaker: "suppressor x db = None \<Longrightarrow> suppressor x ?db = None" by (auto simp: suppressor_None active)
  have released: "(c, x) \<in> live_edges db" if "suppressor x ?db = None" "suppressor x db \<noteq> None"
    using that by (auto simp: suppressor_None active)
  have "x \<in> set (computeReleasedClaims c ?db) \<longleftrightarrow> (c, x) \<in> live_edges db \<and> isEffectiveCurrent x ?db"
    using live_edges_outbound [of c x ?db] by (auto simp: computeReleasedClaims_def)
  then show ?thesis using weaker released
    by (auto simp: isEffectiveCurrent_def look obs split: option.splits if_splits)
qed


definition demo_claim_row :: "string \<Rightarrow> claim_row" where
  "demo_claim_row c = \<lparr>kr_id = c, kr_scope = ''self'', kr_state = CsActive, kr_supporting_evidence = Some (JArr [])\<rparr>"

definition demo_supersede :: "claim_db \<Rightarrow> claim_relation list outcome" where
  "demo_supersede db = revise_relations db ''b'' ''t'' [\<lparr>ar_relation_id = ''r1'', ar_kind = RkSupersedes, ar_target = ''a'', ar_valid_at = ''t''\<rparr>]
     [] (relations_of ''b'' db)"

definition demo_two :: claim_db where
  "demo_two = refreshAdjacency ''b'' [] ((refreshAdjacency ''a'' [] (empty_db\<lparr>kd_claims := [demo_claim_row ''a'']\<rparr>))
     \<lparr>kd_claims := [demo_claim_row ''a'', demo_claim_row ''b'']\<rparr>)"

definition demo_db :: claim_db where
  "demo_db = refreshAdjacency ''b'' (case demo_supersede demo_two of Inr rels \<Rightarrow> rels | Inl _ \<Rightarrow> []) demo_two"


lemma forget_releases_exactly_example:
  "\<not> isEffectiveCurrent ''a'' demo_db \<and> isEffectiveCurrent ''a'' (set_claim_state ''b'' CsForgotten demo_db)"
proof -
  have "\<not> isEffectiveCurrent ''a'' demo_db" "''a'' \<in> set (computeReleasedClaims ''b'' (set_claim_state ''b'' CsForgotten demo_db))"
    by code_simp+
  then show ?thesis using forget_releases_exactly [of "''a''" "''b''" demo_db] by simp
qed

end
