(* ===== verification/Claim_Store.thy ===== *)
theory Claim_Store
  imports Entities Relations
begin

text \<open>
  The claim store (\<^verbatim>\<open>layer1/store.ts\<close>): entities, claim rows and relation edges in SQLite, and the canonical
  claim log that every insert appends to once the data directory is set. A row is a claim with every field
  filled in; reading a row recomputes the validity view from the event-valid times. Inserts fail on the two
  constraints a claim can violate (an unknown subject, a confidence that is not a number) and on a log that
  does not parse; the row is then already written. The order in which SQLite returns the rows of a query
  without \<^verbatim>\<open>ORDER BY\<close> is the argument \<open>sv_plan\<close>. ULIDs, the clock, SHA-256 and the collation of
  \<^verbatim>\<open>localeCompare\<close> are the other environment fields.
\<close>

section \<open>State\<close>

record claim =
  cl_id :: string
  cl_subject_id :: string
  cl_subject_name :: string
  cl_predicate :: string
  cl_object :: typed_value
  cl_scope :: string
  cl_validity :: "string \<times> string option"
  cl_t_ingested :: claim_time
  cl_t_invalidated :: claim_time
  cl_t_valid_from :: claim_time
  cl_t_valid_to :: claim_time
  cl_source_event_id :: string
  cl_extraction_event_id :: string
  cl_supporting_evidence :: "string list"
  cl_extraction :: claim_extraction
  cl_status :: claim_status
  cl_epistemic :: epistemic_label
  cl_confidence :: "rat option"
  cl_sensitive :: bool
  cl_superseded_by :: "string option"
  cl_contested_by :: "string list"
  cl_state :: "claim_state option"
  cl_author :: "claim_author option"
  cl_epistemic_owner :: "claim_author option"
  cl_claim_type :: "claim_type option"
  cl_claim_role :: "claim_role option"
  cl_version_at :: "string option"
  cl_created_at :: "string option"
  cl_operation_id :: "string option"
  cl_actor_id :: "string option"
  cl_relations :: "claim_relation list option"

record claim_store =
  st_ents :: entity_store
  st_claims :: "claim list"
  st_relations :: "rel_row list"
  st_last_replayed :: nat
  st_log :: "claims_dir option"

record store_env =
  sv_sha :: "string \<Rightarrow> string"
  sv_coll :: "string \<Rightarrow> string"
  sv_clock :: entity_clock
  sv_plan :: "claim list \<Rightarrow> claim list"

definition and_then :: "'a outcome \<times> 's \<Rightarrow> ('a \<Rightarrow> 's \<Rightarrow> 'b outcome \<times> 's) \<Rightarrow> 'b outcome \<times> 's" where
  "and_then r f = (case r of (Inl x, s) \<Rightarrow> (Inl x, s) | (Inr a, s) \<Rightarrow> f a s)"

definition or_else :: "'a option \<Rightarrow> 'a \<Rightarrow> 'a" where
  "or_else a d = (case a of Some x \<Rightarrow> x | None \<Rightarrow> d)"

section \<open>Inserting and reading\<close>

definition LEGACY_OPERATION_ID :: string where
  "LEGACY_OPERATION_ID = ''op_000000000000000000000000A3''"

text \<open>The columns that \<^verbatim>\<open>insertClaim\<close> writes, and what \<^verbatim>\<open>rowToClaim\<close> reads back.\<close>

definition claim_columns :: "claim \<Rightarrow> claim" where
  "claim_columns c =
     (let author = or_else (cl_author c) AAgent; extracted_at = ex_extracted_at (cl_extraction c) in
      c\<lparr>cl_state := Some (statusToState (cl_status c)),
        cl_author := Some author,
        cl_epistemic_owner := Some (or_else (cl_epistemic_owner c) author),
        cl_claim_type := Some (or_else (cl_claim_type c) CFinding),
        cl_claim_role := Some (or_else (cl_claim_role c) RMemory),
        cl_version_at := Some (or_else (cl_version_at c) extracted_at),
        cl_created_at := Some (or_else (cl_created_at c) extracted_at),
        cl_relations := Some (or_else (cl_relations c) [])\<rparr>)"

definition rowToClaim :: "claim \<Rightarrow> claim" where
  "rowToClaim r = r\<lparr>cl_validity := compatibilityValidity (cl_t_valid_from r) (cl_t_valid_to r) (cl_t_ingested r)\<rparr>"

definition getClaim :: "string \<Rightarrow> claim_store \<Rightarrow> claim option" where
  "getClaim i st = map_option rowToClaim (lookup_by cl_id i (st_claims st))"

text \<open>The two tables of the store that the functions on relations read. The cycle checks of REVISE and REVIVE follow the edges only;
  retrieval also reads the observations that the same database file holds, and adds them (\<open>database\<close> in \<open>Context\<close>).\<close>

definition claim_db_of :: "claim_store \<Rightarrow> claim_db" where
  "claim_db_of st =
     \<lparr>kd_claims = map (\<lambda>r. \<lparr>kr_id = cl_id r, kr_scope = cl_scope r,
                            kr_state = or_else (cl_state r) (statusToState (cl_status r)),
                            kr_supporting_evidence = Some (JArr (map JStr (cl_supporting_evidence r)))\<rparr>) (st_claims st),
      kd_relations = st_relations st, kd_observations = None\<rparr>"

definition refresh_edges :: "string \<Rightarrow> claim_relation list \<Rightarrow> claim_store \<Rightarrow> claim_store" where
  "refresh_edges i rels st = st\<lparr>st_relations := kd_relations (refreshAdjacency i rels (claim_db_of st))\<rparr>"

definition content_string :: "typed_value \<Rightarrow> string" where
  "content_string v = (case tv_value v of JStr s \<Rightarrow> s | j \<Rightarrow> json_stringify j)"

definition version_record :: "store_env \<Rightarrow> entity_store \<Rightarrow> claim \<Rightarrow> rat \<Rightarrow> int \<Rightarrow> claim_version" where
  "version_record env es c conf n =
     (let r = claim_columns c;
          versionAt = the (cl_version_at r);
          actId = or_else (cl_actor_id c) ''substrate:legacy''
      in \<lparr>cv_claim_id = cl_id c, cv_version = n, cv_claim_type = the (cl_claim_type r), cv_claim_role = the (cl_claim_role r),
          cv_author = the (cl_author r), cv_epistemic_owner = cl_epistemic_owner r,
          cv_fingerprint = Some (computeStructuredClaimFingerprint (sv_sha env) (sv_coll env)
             (cl_subject_name c) (cl_predicate c) (cl_object c) (cl_scope c) (the (cl_claim_type r))),
          cv_confidence = confidenceToBucket conf, cv_epistemic_tag = epistemicToTag (cl_epistemic c) (cl_status c),
          cv_scope = cl_scope c, cv_derived_from = cl_supporting_evidence c, cv_relations = the (cl_relations r),
          cv_created_at = the (cl_created_at r), cv_version_at = versionAt,
          cv_operation_id = or_else (cl_operation_id c) LEGACY_OPERATION_ID, cv_actor_id = actId, cv_tags = [],
          cv_lineage =
            \<lparr>vl_supersedes = (if 1 < n then Some (n - 1) else None),
             vl_superseded_by = (if cl_status c = StSuperseded then cl_superseded_by c else None),
             vl_superseded_at = (if cl_status c = StSuperseded \<and> cl_superseded_by c \<noteq> None
                                 then Some (or_else (ct_value (cl_t_invalidated c)) versionAt) else None),
             vl_superseded_by_user = False, vl_reinstated_by_user = False, vl_endorsement_source = None, vl_revived_via = None\<rparr>,
          cv_body =
            (if statusToState (cl_status c) = CsActive
             then ActiveBody (content_string (cl_object c))
               (Some \<lparr>sm_subject_name = cl_subject_name c,
                      sm_subject_type = (case getEntity (cl_subject_id c) es of Some e \<Rightarrow> en_type e | None \<Rightarrow> ''concept''),
                      sm_predicate = cl_predicate c, sm_object = cl_object c,
                      sm_t_valid_from = cl_t_valid_from c, sm_t_valid_to = cl_t_valid_to c,
                      sm_extracted_epistemic = cl_epistemic c, sm_extracted_confidence = conf,
                      sm_sensitive = cl_sensitive c, sm_extraction = cl_extraction c\<rparr>)
             else ForgottenBody (''tomb_'' @ drop 6 (cl_id c)) versionAt actId)\<rparr>)"

definition write_row :: "claim \<Rightarrow> claim_store \<Rightarrow> claim_store" where
  "write_row c st =
     refresh_edges (cl_id c) (or_else (cl_relations c) []) (st\<lparr>st_claims := ins_replace cl_id (claim_columns c) (st_claims st)\<rparr>)"

definition insertClaim :: "store_env \<Rightarrow> claim \<Rightarrow> claim_store \<Rightarrow> unit outcome \<times> claim_store" where
  "insertClaim env c st =
     (case cl_confidence c of
        None \<Rightarrow> (Inl (JsError ''NOT NULL constraint failed: claims.confidence''), st)
      | Some conf \<Rightarrow>
          if cl_subject_id c \<notin> en_id ` set (es_entities (st_ents st))
          then (Inl (JsError ''FOREIGN KEY constraint failed''), st)
          else
            let st1 = write_row c st in
            case st_log st of
              None \<Rightarrow> (Inr (), st1)
            | Some dir \<Rightarrow>
                (case nextVersion (sv_sha env) dir (cl_id c) of
                   Inl x \<Rightarrow> (Inl x, st1)
                 | Inr n \<Rightarrow>
                     (Inr (), st1\<lparr>st_log := Some (appendClaimVersion (version_record env (st_ents st) c conf n) dir)\<rparr>)))"

section \<open>Queries\<close>

definition findByCanonicalKey :: "store_env \<Rightarrow> string \<Rightarrow> string \<Rightarrow> string \<Rightarrow> string \<Rightarrow> claim_store \<Rightarrow> claim option" where
  "findByCanonicalKey env subjectId predicate scope validityFrom st =
     (case sv_plan env (filter (\<lambda>r. cl_subject_id r = subjectId \<and> cl_predicate r = predicate \<and> cl_scope r = scope
         \<and> fst (cl_validity r) = validityFrom) (st_claims st)) of
        [] \<Rightarrow> None | r # rs \<Rightarrow> Some (rowToClaim r))"

definition getClaimsBySubject :: "store_env \<Rightarrow> string \<Rightarrow> claim_status option \<Rightarrow> claim_store \<Rightarrow> claim list" where
  "getClaimsBySubject env subjectId status st =
     map rowToClaim (sv_plan env (filter (\<lambda>r. cl_subject_id r = subjectId
       \<and> (case status of None \<Rightarrow> True | Some s \<Rightarrow> cl_status r = s)) (st_claims st)))"

definition findActiveFactMatches :: "store_env \<Rightarrow> string \<Rightarrow> string \<Rightarrow> string \<Rightarrow> typed_value \<Rightarrow> claim_store \<Rightarrow> claim list" where
  "findActiveFactMatches env subjectId predicate scope obj st =
     sort_key cl_id (filter (\<lambda>c. cl_predicate c = predicate \<and> cl_scope c = scope \<and> snd (cl_validity c) = None
       \<and> normaliseValue (cl_object c) = normaliseValue obj) (getClaimsBySubject env subjectId (Some StActive) st))"

definition scope_filter :: "string option \<Rightarrow> claim \<Rightarrow> bool" where
  "scope_filter scope r = (case scope of None \<Rightarrow> True | Some s \<Rightarrow> s = [] \<or> cl_scope r = s)"

definition getActiveClaims :: "store_env \<Rightarrow> string option \<Rightarrow> claim_store \<Rightarrow> claim list" where
  "getActiveClaims env scope st =
     map rowToClaim (sv_plan env (filter (\<lambda>r. cl_status r \<in> {StActive, StStale} \<and> scope_filter scope r) (st_claims st)))"

definition getAllClaims :: "store_env \<Rightarrow> string option \<Rightarrow> claim_store \<Rightarrow> claim list" where
  "getAllClaims env scope st = map rowToClaim (sv_plan env (filter (scope_filter scope) (st_claims st)))"

section \<open>Updates\<close>

definition update_claim :: "store_env \<Rightarrow> string \<Rightarrow> (claim \<Rightarrow> claim) \<Rightarrow> claim_store \<Rightarrow> unit outcome \<times> claim_store" where
  "update_claim env i f st = (case getClaim i st of None \<Rightarrow> (Inr (), st) | Some c \<Rightarrow> insertClaim env (f c) st)"

definition with_validity :: "claim \<Rightarrow> claim" where
  "with_validity c = c\<lparr>cl_validity := compatibilityValidity (cl_t_valid_from c) (cl_t_valid_to c) (cl_t_ingested c)\<rparr>"

definition set_status ::
  "claim_status \<Rightarrow> string option \<Rightarrow> claim_time option \<Rightarrow> claim_time option \<Rightarrow> claim \<Rightarrow> claim" where
  "set_status status supersededBy invalidatedAt validTo c =
     (let c1 = c\<lparr>cl_status := status, cl_state := Some (statusToState status)\<rparr>;
          c2 = (if status = StSuperseded
                then (case supersededBy of None \<Rightarrow> c1 | Some s \<Rightarrow> c1\<lparr>cl_superseded_by := Some s\<rparr>)
                else c1\<lparr>cl_superseded_by := None\<rparr>);
          c3 = (case invalidatedAt of None \<Rightarrow> c2 | Some t \<Rightarrow> c2\<lparr>cl_t_invalidated := t\<rparr>);
          c4 = (case validTo of None \<Rightarrow> c3
                | Some t \<Rightarrow> if ct_state (cl_t_valid_to c3) = TsNull then c3\<lparr>cl_t_valid_to := t\<rparr> else c3)
      in with_validity c4)"

definition updateClaimStatus ::
  "store_env \<Rightarrow> string \<Rightarrow> claim_status \<Rightarrow> string option \<Rightarrow> claim_time option \<Rightarrow> claim_time option \<Rightarrow> claim_store
    \<Rightarrow> unit outcome \<times> claim_store" where
  "updateClaimStatus env i status supersededBy invalidatedAt validTo =
     update_claim env i (set_status status supersededBy invalidatedAt validTo)"

definition updateClaimSupportingEvidence :: "store_env \<Rightarrow> string \<Rightarrow> string list \<Rightarrow> claim_store \<Rightarrow> unit outcome \<times> claim_store" where
  "updateClaimSupportingEvidence env i evidence = update_claim env i (\<lambda>c. c\<lparr>cl_supporting_evidence := evidence\<rparr>)"

definition updateClaimConfidence :: "store_env \<Rightarrow> string \<Rightarrow> rat option \<Rightarrow> claim_store \<Rightarrow> unit outcome \<times> claim_store" where
  "updateClaimConfidence env i confidence = update_claim env i (\<lambda>c. c\<lparr>cl_confidence := confidence\<rparr>)"

definition contest :: "string \<Rightarrow> claim \<Rightarrow> claim" where
  "contest other c = c\<lparr>cl_contested_by := js_set (cl_contested_by c @ [other]), cl_status := StContested\<rparr>"

definition markContested :: "store_env \<Rightarrow> string \<Rightarrow> string \<Rightarrow> claim_store \<Rightarrow> unit outcome \<times> claim_store" where
  "markContested env a b st =
     (case (getClaim a st, getClaim b st) of
        (Some first, Some second) \<Rightarrow>
          and_then (insertClaim env (contest b first) st) (\<lambda>_ st1. insertClaim env (contest a second) st1)
      | _ \<Rightarrow> (Inr (), st))"

definition redactClaim :: "store_env \<Rightarrow> string \<Rightarrow> claim_store \<Rightarrow> unit outcome \<times> claim_store" where
  "redactClaim env i = update_claim env i (\<lambda>c. c\<lparr>cl_object := \<lparr>tv_type = ''text'', tv_value = JStr ''[redacted]''\<rparr>\<rparr>)"

definition deleteAllClaims :: "claim_store \<Rightarrow> claim_store" where
  "deleteAllClaims st = st\<lparr>st_claims := [], st_ents := (st_ents st)\<lparr>es_entities := []\<rparr>\<rparr>"

text \<open>The purge of a scope, rolled back when a claim of another scope still names one of its entities.\<close>

record purge_counts =
  pc_claims :: nat
  pc_entities :: nat
  pc_relations :: nat

definition purge_scope :: "string \<Rightarrow> claim_store \<Rightarrow> purge_counts outcome \<times> claim_store" where
  "purge_scope scope st =
     (let doomed = filter (\<lambda>r. cl_scope r = scope) (st_claims st); ids = map cl_id doomed;
          kept = del_where (\<lambda>r. cl_scope r = scope) (st_claims st);
          ents = filter (\<lambda>e. en_scope e = scope) (es_entities (st_ents st));
          edges = filter (\<lambda>x. rl_source x \<in> set ids \<or> cr_target (rl_rel x) \<in> set ids) (st_relations st)
      in if \<exists>r \<in> set kept. cl_subject_id r \<in> en_id ` set ents
         then (Inl (JsError ''FOREIGN KEY constraint failed''), st)
         else (Inr \<lparr>pc_claims = length doomed, pc_entities = length ents, pc_relations = length edges\<rparr>,
               st\<lparr>st_claims := kept,
                  st_ents := (st_ents st)\<lparr>es_entities := del_where (\<lambda>e. en_scope e = scope) (es_entities (st_ents st))\<rparr>,
                  st_relations := del_where (\<lambda>x. rl_source x \<in> set ids \<or> cr_target (rl_rel x) \<in> set ids) (st_relations st)\<rparr>))"

definition setLastReplayedSequence :: "nat \<Rightarrow> claim_store \<Rightarrow> claim_store" where
  "setLastReplayedSequence n st = st\<lparr>st_last_replayed := n\<rparr>"

definition claimCount :: "claim_store \<Rightarrow> nat" where
  "claimCount st = length (st_claims st)"

definition entityCount :: "claim_store \<Rightarrow> nat" where
  "entityCount st = length (es_entities (st_ents st))"

section \<open>Rebuilding rows from the log\<close>

record entity_hint =
  eh_name :: string
  eh_type :: string
  eh_predicate :: "string option"
  eh_sensitive :: "bool option"

type_synonym entity_memo = "(string \<times> string) list"

definition bucket_number :: "confidence_bucket \<Rightarrow> rat" where
  "bucket_number b = (case b of BHigh \<Rightarrow> 9 / 10 | BMedium \<Rightarrow> 5 / 10 | BLow \<Rightarrow> 2 / 10)"

definition version_superseded_by :: "claim_version \<Rightarrow> string option" where
  "version_superseded_by v = (case cv_state v of CsActive \<Rightarrow> vl_superseded_by (cv_lineage v) | CsForgotten \<Rightarrow> None)"

definition truthy :: "string option \<Rightarrow> bool" where
  "truthy s = (case s of None \<Rightarrow> False | Some x \<Rightarrow> x \<noteq> [])"

definition version_status :: "claim_version \<Rightarrow> claim_status" where
  "version_status v =
     (case cv_state v of CsActive \<Rightarrow> if truthy (version_superseded_by v) then StSuperseded else StActive
      | CsForgotten \<Rightarrow> StRetracted)"

definition first_some :: "'a option list \<Rightarrow> 'a \<Rightarrow> 'a" where
  "first_some xs d = (case filter (\<lambda>x. x \<noteq> None) xs of [] \<Rightarrow> d | x # _ \<Rightarrow> the x)"

definition memo_key :: "string \<Rightarrow> string \<Rightarrow> string \<Rightarrow> string" where
  "memo_key scope name ty = scope @ ''|'' @ name @ ''|'' @ ty"

text \<open>The subject's name and type of a version, and the entity they resolve to.\<close>

definition version_content :: "claim_version \<Rightarrow> string" where
  "version_content v = (case cv_body v of ActiveBody c _ \<Rightarrow> c | ForgottenBody _ _ _ \<Rightarrow> [])"

definition version_semantic :: "claim_version \<Rightarrow> claim_semantic option" where
  "version_semantic v = (case cv_body v of ActiveBody _ s \<Rightarrow> s | ForgottenBody _ _ _ \<Rightarrow> None)"

definition subject_of_version :: "claim_version \<Rightarrow> entity_hint option \<Rightarrow> claim option \<Rightarrow> string" where
  "subject_of_version v hint existing =
     first_some [map_option sm_subject_name (version_semantic v), map_option eh_name hint, map_option cl_subject_name existing]
       (if version_content v = [] then ''observation'' else take 50 (version_content v))"

definition type_of_version :: "claim_version \<Rightarrow> entity_hint option \<Rightarrow> claim option \<Rightarrow> entity_store \<Rightarrow> string" where
  "type_of_version v hint existing es =
     first_some [map_option sm_subject_type (version_semantic v), map_option eh_type hint,
       map_option en_type (Option.bind existing (\<lambda>c. getEntity (cl_subject_id c) es))] ''concept''"

definition memo_resolve ::
  "entity_clock \<Rightarrow> string \<Rightarrow> string \<Rightarrow> string \<Rightarrow> entity_memo option \<Rightarrow> entity_store \<Rightarrow> string \<times> entity_memo option \<times> entity_store" where
  "memo_resolve ck scope name ty memo es =
     (case Option.bind memo (\<lambda>m. map_of m (memo_key scope name ty)) of
        Some i \<Rightarrow> (i, memo, es)
      | None \<Rightarrow>
          let (res, es') = resolveEntity ck None name ty scope es in
          (rs_id res, if rs_isNew res then map_option (js_map_set (memo_key scope name ty) (rs_id res)) memo else memo, es'))"

definition version_row :: "claim_version \<Rightarrow> entity_hint option \<Rightarrow> claim option \<Rightarrow> string \<Rightarrow> claim" where
  "version_row v hint existing entityId =
     (let semantic = version_semantic v; created = cv_created_at v;
          supersededBy = version_superseded_by v;
          supersededAt = (if truthy supersededBy
                          then Some (or_else (vl_superseded_at (cv_lineage v)) (cv_version_at v)) else None);
          tValidFrom = first_some [map_option sm_t_valid_from semantic, map_option cl_t_valid_from existing] (knownTime created);
          tValidTo = first_some [map_option sm_t_valid_to semantic, map_option cl_t_valid_to existing] nullTime;
          extraction = (case semantic of Some s \<Rightarrow> Some (sm_extraction s) | None \<Rightarrow> map_option cl_extraction existing)
      in \<lparr>cl_id = cv_claim_id v, cl_subject_id = entityId, cl_subject_name = subject_of_version v hint existing,
          cl_predicate = first_some [map_option sm_predicate semantic, Option.bind hint eh_predicate,
             map_option cl_predicate existing] ''content_is'',
          cl_object = (case semantic of Some s \<Rightarrow> sm_object s | None \<Rightarrow> \<lparr>tv_type = ''text'', tv_value = JStr (version_content v)\<rparr>),
          cl_scope = cv_scope v,
          cl_validity = (or_else (ct_value tValidFrom) created, ct_value tValidTo),
          cl_t_ingested = knownTime created,
          cl_t_invalidated = \<lparr>ct_value = supersededAt, ct_state = (if truthy supersededAt then TsKnown else TsNull), ct_basis = None\<rparr>,
          cl_t_valid_from = tValidFrom, cl_t_valid_to = tValidTo,
          cl_source_event_id = (case existing of Some c \<Rightarrow> cl_source_event_id c
             | None \<Rightarrow> (case cv_derived_from v of [] \<Rightarrow> [] | d # _ \<Rightarrow> d)),
          cl_extraction_event_id = (case existing of Some c \<Rightarrow> cl_extraction_event_id c | None \<Rightarrow> []),
          cl_supporting_evidence = cv_derived_from v,
          cl_extraction = or_else extraction
             \<lparr>ex_method = MDeterministic, ex_model = None, ex_compiler_version = ''0.6.1'', ex_prompt_hash = None, ex_extracted_at = created\<rparr>,
          cl_status = version_status v,
          cl_epistemic = (if cv_epistemic_tag v = EtFact then LUserConfirmed else LInferred),
          cl_confidence = Some (bucket_number (cv_confidence v)),
          cl_sensitive = first_some [map_option sm_sensitive semantic, Option.bind hint eh_sensitive, map_option cl_sensitive existing] False,
          cl_superseded_by = supersededBy,
          cl_contested_by = (case existing of Some c \<Rightarrow> cl_contested_by c | None \<Rightarrow> []),
          cl_state = Some (cv_state v), cl_author = Some (cv_author v), cl_epistemic_owner = cv_epistemic_owner v,
          cl_claim_type = Some (cv_claim_type v), cl_claim_role = Some (cv_claim_role v),
          cl_version_at = Some (cv_version_at v), cl_created_at = Some created,
          cl_operation_id = Some (cv_operation_id v), cl_actor_id = Some (cv_actor_id v), cl_relations = Some (cv_relations v)\<rparr>)"

definition claimVersionVals ::
  "store_env \<Rightarrow> claim_version \<Rightarrow> entity_hint option \<Rightarrow> bool \<Rightarrow> entity_memo option \<Rightarrow> claim_store
    \<Rightarrow> claim \<times> entity_memo option \<times> claim_store" where
  "claimVersionVals env v hint assumeNew memo st =
     (let existing = (if assumeNew then None else getClaim (cv_claim_id v) st);
          name = subject_of_version v hint existing;
          ty = type_of_version v hint existing (st_ents st);
          (entityId, memo', es) = memo_resolve (sv_clock env) (cv_scope v) name ty memo (st_ents st)
      in (version_row v hint existing entityId, memo', st\<lparr>st_ents := es\<rparr>))"

definition syncFromJsonlVersion ::
  "store_env \<Rightarrow> claim_version \<Rightarrow> entity_hint option \<Rightarrow> bool \<Rightarrow> claim_store \<Rightarrow> claim_store" where
  "syncFromJsonlVersion env v hint assumeNew st =
     (let (row, _, st1) = claimVersionVals env v hint assumeNew None st;
          st2 = st1\<lparr>st_claims := ins_replace cl_id row (st_claims st1)\<rparr>
      in if assumeNew \<and> cv_relations v = [] then st2 else refresh_edges (cv_claim_id v) (cv_relations v) st2)"

text \<open>The batched sync: rows are collected and written in chunks; a new claim without relations skips the
  edges.\<close>

definition CHUNK :: nat where
  "CHUNK = 200"

definition flushChunk :: "(string \<Rightarrow> bool) \<Rightarrow> (claim \<times> claim_version) list \<Rightarrow> claim_store \<Rightarrow> claim_store" where
  "flushChunk isNew chunk st =
     fold (\<lambda>(row, v) s. if isNew (cv_claim_id v) \<and> cv_relations v = [] then s else refresh_edges (cv_claim_id v) (cv_relations v) s) chunk
       (st\<lparr>st_claims := fold (\<lambda>(row, v) rows. ins_replace cl_id row rows) chunk (st_claims st)\<rparr>)"

fun batch_loop ::
  "store_env \<Rightarrow> (string \<Rightarrow> bool) \<Rightarrow> (string \<Rightarrow> entity_hint option) \<Rightarrow> claim_version list \<Rightarrow> (claim \<times> claim_version) list
    \<Rightarrow> entity_memo option \<Rightarrow> claim_store \<Rightarrow> claim_store" where
  "batch_loop env isNew hints [] chunk memo st = flushChunk isNew chunk st"
| "batch_loop env isNew hints (v # vs) chunk memo st =
     (let (row, memo', st1) = claimVersionVals env v (hints (cv_claim_id v)) (isNew (cv_claim_id v)) memo st;
          chunk' = chunk @ [(row, v)]
      in if CHUNK \<le> length chunk' then batch_loop env isNew hints vs [] memo' (flushChunk isNew chunk' st1)
         else batch_loop env isNew hints vs chunk' memo' st1)"

definition syncFromJsonlVersionsBatch ::
  "store_env \<Rightarrow> claim_version list \<Rightarrow> string set \<Rightarrow> (string \<Rightarrow> entity_hint option) \<Rightarrow> claim_store \<Rightarrow> claim_store" where
  "syncFromJsonlVersionsBatch env records newIds hints st =
     (if records = [] then st else batch_loop env (\<lambda>i. i \<in> newIds) hints records [] (Some []) st)"

text \<open>Opening a data directory: the latest version of every claim is synced.\<close>

definition latest_by_claim :: "claim_version list \<Rightarrow> (string \<times> claim_version) list" where
  "latest_by_claim vs =
     fold (\<lambda>v m. case map_of m (cv_claim_id v) of
             None \<Rightarrow> js_map_set (cv_claim_id v) v m
           | Some l \<Rightarrow> if cv_version l < cv_version v then js_map_set (cv_claim_id v) v m else m) vs []"

definition setDataDir :: "store_env \<Rightarrow> claims_dir \<Rightarrow> claim_store \<Rightarrow> unit outcome \<times> claim_store" where
  "setDataDir env dir st =
     (let st0 = st\<lparr>st_log := Some dir\<rparr> in
      case iterAllClaimVersions (sv_sha env) dir of
        Inl x \<Rightarrow> (Inl x, st0)
      | Inr vs \<Rightarrow> (Inr (), fold (\<lambda>v s. syncFromJsonlVersion env v None False s) (map snd (latest_by_claim vs)) st0))"

section \<open>Lemmas\<close>

lemma and_then_simps [simp]: "and_then (Inl x, s) f = (Inl x, s)" "and_then (Inr a, s) f = f a s"
  by (simp_all add: and_then_def)

lemma or_else_simps [simp]: "or_else (Some x) d = x" "or_else None d = d"
  by (simp_all add: or_else_def)

subsection \<open>Edges\<close>

definition edges_after :: "string \<Rightarrow> claim_relation list \<Rightarrow> rel_row list \<Rightarrow> rel_row list" where
  "edges_after i rels rows =
     fold (\<lambda>r rows. ins_ignore (\<lambda>x. cr_relation_id (rl_rel x)) \<lparr>rl_source = i, rl_rel = r\<rparr> rows) rels
       (del_where (\<lambda>x. rl_source x = i) rows)"

lemma refresh_edges_eq: "refresh_edges i rels st = st\<lparr>st_relations := edges_after i rels (st_relations st)\<rparr>"
  by (simp add: refresh_edges_def refreshAdjacency_def claim_db_of_def edges_after_def)

lemma edges_after_sources: "rl_source ` set (edges_after i rels rows) \<subseteq> insert i (rl_source ` set rows)"
proof -
  have "set (edges_after i rels rows) \<subseteq> set (del_where (\<lambda>x. rl_source x = i) rows) \<union> (\<lambda>r. \<lparr>rl_source = i, rl_rel = r\<rparr>) ` set rels"
    unfolding edges_after_def by (rule set_fold_ins_ignore)
  then show ?thesis by force
qed

lemma edges_after_none: "i \<notin> rl_source ` set rows \<Longrightarrow> edges_after i [] rows = rows"
  by (force simp: edges_after_def del_where_def filter_id_conv)

subsection \<open>The batched sync\<close>

definition chunk_edges :: "(string \<Rightarrow> bool) \<Rightarrow> (claim \<times> claim_version) list \<Rightarrow> rel_row list \<Rightarrow> rel_row list" where
  "chunk_edges isNew chunk rows =
     fold (\<lambda>(row, v) rs. if isNew (cv_claim_id v) \<and> cv_relations v = [] then rs else edges_after (cv_claim_id v) (cv_relations v) rs) chunk rows"

definition chunk_rows :: "(claim \<times> claim_version) list \<Rightarrow> claim list \<Rightarrow> claim list" where
  "chunk_rows chunk rows = fold (\<lambda>(row, v) rs. ins_replace cl_id row rs) chunk rows"

lemma flushChunk_eq:
  "flushChunk isNew chunk st = st\<lparr>st_claims := chunk_rows chunk (st_claims st), st_relations := chunk_edges isNew chunk (st_relations st)\<rparr>"
proof -
  have "fold (\<lambda>(row, v) s. if isNew (cv_claim_id v) \<and> cv_relations v = [] then s else refresh_edges (cv_claim_id v) (cv_relations v) s) chunk s
      = s\<lparr>st_relations := chunk_edges isNew chunk (st_relations s)\<rparr>" for s
    by (induction chunk arbitrary: s) (auto simp: chunk_edges_def refresh_edges_eq)
  then show ?thesis by (simp add: flushChunk_def chunk_rows_def)
qed

lemma chunk_snoc:
  "chunk_rows (chunk @ [(row, v)]) rows = ins_replace cl_id row (chunk_rows chunk rows)"
  "chunk_edges isNew (chunk @ [(row, v)]) rs =
     (if isNew (cv_claim_id v) \<and> cv_relations v = [] then chunk_edges isNew chunk rs
      else edges_after (cv_claim_id v) (cv_relations v) (chunk_edges isNew chunk rs))"
  by (simp_all add: chunk_rows_def chunk_edges_def)

lemma lookup_chunk_rows:
  "i \<notin> cl_id ` fst ` set chunk \<Longrightarrow> lookup_by cl_id i (chunk_rows chunk rows) = lookup_by cl_id i rows"
  by (induction chunk rule: rev_induct) (auto simp: chunk_rows_def sql)

lemma version_row_id [simp]: "cl_id (version_row v h ex i) = cv_claim_id v"
  by (simp add: version_row_def Let_def)

definition bar_free :: "string \<Rightarrow> bool" where
  "bar_free s = (CHR ''|'' \<notin> set s)"

lemma memo_key_inj:
  assumes "memo_key sc n t = memo_key sc' n' t'" and "bar_free sc" "bar_free sc'" "bar_free t" "bar_free t'"
  shows "sc = sc' \<and> n = n' \<and> t = t'"
proof -
  let ?P = "\<lambda>c. c \<noteq> CHR ''|''"
  have tw: "takeWhile ?P (xs @ CHR ''|'' # ys) = xs" if "bar_free xs" for xs ys
    using that by (induction xs) (auto simp: bar_free_def)
  have "sc = sc'" using arg_cong [OF assms(1), of "takeWhile ?P"] assms(2,3) by (simp add: memo_key_def tw)
  moreover have "rev t = rev t'"
    using arg_cong [OF assms(1), of "\<lambda>k. takeWhile ?P (rev k)"] tw [of "rev t"] tw [of "rev t'"] assms(4,5)
    by (simp add: memo_key_def bar_free_def)
  ultimately show ?thesis using assms(1) by (simp add: memo_key_def)
qed

text \<open>What the memo remembers is what a fresh resolution would return.\<close>

definition memo_ok :: "entity_memo \<Rightarrow> entity_store \<Rightarrow> bool" where
  "memo_ok m es = (\<forall>k i. map_of m k = Some i \<longrightarrow>
     (\<exists>sc n t. k = memo_key sc n t \<and> bar_free sc \<and> bar_free t \<and> settled sc n t i es))"

definition resolver_ok :: "entity_clock \<Rightarrow> entity_memo \<Rightarrow> entity_store \<Rightarrow> bool" where
  "resolver_ok ck m es = (memo_ok m es \<and> unminted ck es \<and> (\<forall>e \<in> set (es_entities es). bar_free (en_type e)))"

lemma memo_resolve_agrees:
  assumes "resolver_ok ck m es" and "inj (ec_ulid ck)" and "bar_free sc" and "bar_free t"
  shows "\<exists>i m' es'. memo_resolve ck sc n t (Some m) es = (i, Some m', es') \<and> memo_resolve ck sc n t None es = (i, None, es')
    \<and> resolver_ok ck m' es'"
proof (cases "map_of m (memo_key sc n t)")
  case (Some i)
  then obtain sc' n' t' where "memo_key sc n t = memo_key sc' n' t'" "bar_free sc'" "bar_free t'" "settled sc' n' t' i es"
    using assms(1) unfolding resolver_ok_def memo_ok_def by blast
  with memo_key_inj assms(3,4) have "settled sc n t i es" by blast
  with Some assms(1) show ?thesis by (simp add: memo_resolve_def resolveEntity_settled)
next
  case None
  obtain res es' where run: "resolveEntity ck None n t sc es = (res, es')" by (cases "resolveEntity ck None n t sc es")
  let ?m = "if rs_isNew res then js_map_set (memo_key sc n t) (rs_id res) m else m"
  have fresh: "unminted ck es'" "rs_isNew res \<longrightarrow> rs_id res \<notin> entity_ids es"
    using resolveEntity_unminted [OF run _ assms(2)] assms(1) by (auto simp: resolver_ok_def)
  have "\<forall>e \<in> set (es_entities es'). bar_free (en_type e)"
    using resolveEntity_types [OF run] assms(1,4) by (auto simp: resolver_ok_def image_subset_iff)
  moreover have "memo_ok ?m es'"
    unfolding memo_ok_def
  proof (intro allI impI)
    fix k i assume ki: "map_of ?m k = Some i"
    show "\<exists>sc n t. k = memo_key sc n t \<and> bar_free sc \<and> bar_free t \<and> settled sc n t i es'"
    proof (cases "rs_isNew res \<and> k = memo_key sc n t")
      case True
      then show ?thesis using ki resolveEntity_new_settled [OF run] fresh(2) assms(3,4) by auto
    next
      case False
      then have "map_of m k = Some i" using ki by (auto split: if_splits)
      then show ?thesis using assms(1) resolveEntity_settled_mono [OF run] unfolding resolver_ok_def memo_ok_def by blast
    qed
  qed
  ultimately have "resolver_ok ck ?m es'" using fresh(1) by (simp add: resolver_ok_def)
  then show ?thesis using None run by (cases "rs_isNew res") (simp_all add: memo_resolve_def)
qed

lemma first_some_mem: "first_some xs d = d \<or> Some (first_some xs d) \<in> set xs"
proof (cases "filter (\<lambda>x. x \<noteq> None) xs")
  case (Cons x ys)
  then have "x \<in> set xs \<and> x \<noteq> None" using filter_eq_ConsD [OF Cons] by auto
  with Cons show ?thesis by (auto simp: first_some_def)
qed (simp add: first_some_def)

definition types_bar_free :: "claim_version \<Rightarrow> entity_hint option \<Rightarrow> bool" where
  "types_bar_free v hint =
     ((case version_semantic v of None \<Rightarrow> True | Some s \<Rightarrow> bar_free (sm_subject_type s))
      \<and> (case hint of None \<Rightarrow> True | Some h \<Rightarrow> bar_free (eh_type h)))"

lemma type_of_version_bar_free:
  assumes "types_bar_free v hint" and "\<forall>e \<in> set (es_entities es). bar_free (en_type e)"
  shows "bar_free (type_of_version v hint existing es)"
proof -
  define ty where "ty = type_of_version v hint existing es"
  have "ty = ''concept'' \<or> Some ty = map_option sm_subject_type (version_semantic v) \<or> Some ty = map_option eh_type hint
      \<or> Some ty = map_option en_type (Option.bind existing (\<lambda>c. getEntity (cl_subject_id c) es))"
    unfolding ty_def type_of_version_def using first_some_mem by fastforce
  moreover have "bar_free ty" if found: "Some ty = map_option en_type (Option.bind existing (\<lambda>c. getEntity (cl_subject_id c) es))"
  proof -
    obtain c where c: "existing = Some c" using found by (cases existing) auto
    obtain e where "getEntity (cl_subject_id c) es = Some e" "ty = en_type e"
      using found unfolding c by (cases "getEntity (cl_subject_id c) es") auto
    then show ?thesis using assms(2) by (auto simp: getEntity_def dest: lookup_by_SomeD)
  qed
  ultimately show ?thesis
    using assms(1) by (fold ty_def) (auto simp: types_bar_free_def bar_free_def split: option.splits)
qed

text \<open>One record: the batch computes the row that the one-by-one sync writes.\<close>

definition chunk_ok :: "(claim \<times> claim_version) list \<Rightarrow> bool" where
  "chunk_ok chunk = (\<forall>(row, v) \<in> set chunk. cl_id row = cv_claim_id v)"

lemma batch_step:
  assumes "resolver_ok (sv_clock env) m (st_ents st)" and "inj (ec_ulid (sv_clock env))"
    and "bar_free (cv_scope v)" and "types_bar_free v hint" and "chunk_ok chunk"
    and "cv_claim_id v \<notin> cv_claim_id ` snd ` set chunk"
    and new: "isNew (cv_claim_id v) \<longrightarrow> cv_claim_id v \<notin> cl_id ` set (st_claims (flushChunk isNew chunk st))
      \<and> cv_claim_id v \<notin> rl_source ` set (st_relations (flushChunk isNew chunk st))"
  shows "\<exists>row m' st1. claimVersionVals env v hint (isNew (cv_claim_id v)) (Some m) st = (row, Some m', st1)
    \<and> resolver_ok (sv_clock env) m' (st_ents st1) \<and> cl_id row = cv_claim_id v
    \<and> flushChunk isNew (chunk @ [(row, v)]) st1 = syncFromJsonlVersion env v hint False (flushChunk isNew chunk st)"
proof -
  let ?i = "cv_claim_id v" and ?S = "flushChunk isNew chunk st"
  have "?i \<notin> cl_id ` fst ` set chunk" using assms(5,6) by (force simp: chunk_ok_def)
  then have look: "getClaim ?i ?S = getClaim ?i st" by (simp add: getClaim_def flushChunk_eq lookup_chunk_rows)
  have ex: "(if isNew ?i then None else getClaim ?i st) = getClaim ?i ?S"
  proof (cases "isNew ?i")
    case True
    then have "lookup_by cl_id ?i (st_claims ?S) = None" using new by (simp add: lookup_by_None_iff)
    with True show ?thesis by (simp add: getClaim_def)
  qed (simp add: look)
  have ents: "st_ents ?S = st_ents st" by (simp add: flushChunk_eq)
  define name where "name = subject_of_version v hint (getClaim ?i ?S)"
  define ty where "ty = type_of_version v hint (getClaim ?i ?S) (st_ents st)"
  have "bar_free ty"
    unfolding ty_def using type_of_version_bar_free [OF assms(4)] assms(1) by (auto simp: resolver_ok_def)
  from memo_resolve_agrees [OF assms(1,2,3) this, of name]
  obtain i m' es' where run: "memo_resolve (sv_clock env) (cv_scope v) name ty (Some m) (st_ents st) = (i, Some m', es')"
    "memo_resolve (sv_clock env) (cv_scope v) name ty None (st_ents st) = (i, None, es')" "resolver_ok (sv_clock env) m' es'"
    by blast
  let ?row = "version_row v hint (getClaim ?i ?S) i"
  have "claimVersionVals env v hint (isNew ?i) (Some m) st = (?row, Some m', st\<lparr>st_ents := es'\<rparr>)"
    using run(1) by (simp add: claimVersionVals_def ex Let_def flip: name_def ty_def)
  moreover have "claimVersionVals env v hint False None ?S = (?row, None, ?S\<lparr>st_ents := es'\<rparr>)"
    using run(2) by (simp add: claimVersionVals_def ents Let_def flip: name_def ty_def)
  then have "syncFromJsonlVersion env v hint False ?S
      = ?S\<lparr>st_ents := es', st_claims := ins_replace cl_id ?row (st_claims ?S), st_relations := edges_after ?i (cv_relations v) (st_relations ?S)\<rparr>"
    by (simp add: syncFromJsonlVersion_def refresh_edges_eq)
  moreover have "flushChunk isNew (chunk @ [(?row, v)]) (st\<lparr>st_ents := es'\<rparr>)
      = ?S\<lparr>st_ents := es', st_claims := ins_replace cl_id ?row (st_claims ?S), st_relations := edges_after ?i (cv_relations v) (st_relations ?S)\<rparr>"
  proof -
    have "edges_after ?i [] (st_relations ?S) = st_relations ?S" if "isNew ?i"
      using new that edges_after_none by blast
    then have "chunk_edges isNew (chunk @ [(?row, v)]) (st_relations st) = edges_after ?i (cv_relations v) (chunk_edges isNew chunk (st_relations st))"
      unfolding chunk_snoc by (auto simp: flushChunk_eq)
    then show ?thesis unfolding flushChunk_eq by (simp add: chunk_snoc(1))
  qed
  ultimately show ?thesis using run(3) by force
qed

lemma sync_frame:
  "cl_id ` set (st_claims (syncFromJsonlVersion env v hint b st)) \<subseteq> insert (cv_claim_id v) (cl_id ` set (st_claims st))"
  "rl_source ` set (st_relations (syncFromJsonlVersion env v hint b st)) \<subseteq> insert (cv_claim_id v) (rl_source ` set (st_relations st))"
proof -
  have "st_relations (syncFromJsonlVersion env v hint b st) \<in> {st_relations st, edges_after (cv_claim_id v) (cv_relations v) (st_relations st)}"
    by (auto simp: syncFromJsonlVersion_def claimVersionVals_def refresh_edges_eq Let_def split: prod.splits)
  then show "rl_source ` set (st_relations (syncFromJsonlVersion env v hint b st)) \<subseteq> insert (cv_claim_id v) (rl_source ` set (st_relations st))"
    using edges_after_sources [of "cv_claim_id v" "cv_relations v" "st_relations st"] by (metis empty_iff insertE subset_insertI)
qed (auto simp: syncFromJsonlVersion_def claimVersionVals_def refresh_edges_eq set_ins_replace Let_def split: prod.splits)

lemma batch_loop_serial:
  assumes "resolver_ok (sv_clock env) m (st_ents st)" and "inj (ec_ulid (sv_clock env))"
    and "\<forall>v \<in> set vs. bar_free (cv_scope v) \<and> types_bar_free v (hints (cv_claim_id v))" and "chunk_ok chunk"
    and "distinct (map cv_claim_id (map snd chunk @ vs))"
    and "\<forall>v \<in> set vs. isNew (cv_claim_id v) \<longrightarrow> cv_claim_id v \<notin> cl_id ` set (st_claims (flushChunk isNew chunk st))
      \<and> cv_claim_id v \<notin> rl_source ` set (st_relations (flushChunk isNew chunk st))"
  shows "batch_loop env isNew hints vs chunk (Some m) st
    = fold (\<lambda>v s. syncFromJsonlVersion env v (hints (cv_claim_id v)) False s) vs (flushChunk isNew chunk st)"
  using assms
proof (induction vs arbitrary: chunk m st)
  case (Cons v vs)
  let ?S = "flushChunk isNew chunk st" and ?h = "hints (cv_claim_id v)"
  have pre: "bar_free (cv_scope v)" "types_bar_free v ?h" "cv_claim_id v \<notin> cv_claim_id ` snd ` set chunk"
    "isNew (cv_claim_id v) \<longrightarrow> cv_claim_id v \<notin> cl_id ` set (st_claims ?S) \<and> cv_claim_id v \<notin> rl_source ` set (st_relations ?S)"
    using Cons.prems by auto
  from batch_step [OF Cons.prems(1,2) pre(1,2) Cons.prems(4) pre(3,4)] obtain row m' st1 where
    step: "claimVersionVals env v ?h (isNew (cv_claim_id v)) (Some m) st = (row, Some m', st1)"
      "resolver_ok (sv_clock env) m' (st_ents st1)" "cl_id row = cv_claim_id v"
      "flushChunk isNew (chunk @ [(row, v)]) st1 = syncFromJsonlVersion env v ?h False ?S" by blast
  let ?chunk = "chunk @ [(row, v)]"
  have chunk: "chunk_ok ?chunk" "distinct (map cv_claim_id (map snd ?chunk @ vs))"
    using Cons.prems(4,5) step(3) by (auto simp: chunk_ok_def)
  have new: "\<forall>w \<in> set vs. isNew (cv_claim_id w) \<longrightarrow> cv_claim_id w \<notin> cl_id ` set (st_claims (flushChunk isNew ?chunk st1))
      \<and> cv_claim_id w \<notin> rl_source ` set (st_relations (flushChunk isNew ?chunk st1))"
  proof (intro ballI impI)
    fix w assume w: "w \<in> set vs" "isNew (cv_claim_id w)"
    have "cv_claim_id v \<notin> cv_claim_id ` set vs" using Cons.prems(5) by simp
    with w(1) have "cv_claim_id w \<noteq> cv_claim_id v" by (metis imageI)
    moreover have "cv_claim_id w \<notin> cl_id ` set (st_claims ?S) \<and> cv_claim_id w \<notin> rl_source ` set (st_relations ?S)"
      using w Cons.prems(6) by simp
    ultimately show "cv_claim_id w \<notin> cl_id ` set (st_claims (flushChunk isNew ?chunk st1))
      \<and> cv_claim_id w \<notin> rl_source ` set (st_relations (flushChunk isNew ?chunk st1))"
      unfolding step(4) using subsetD [OF sync_frame(1) [of env v ?h False ?S]] subsetD [OF sync_frame(2) [of env v ?h False ?S]] by blast
  qed
  have rest: "\<forall>v \<in> set vs. bar_free (cv_scope v) \<and> types_bar_free v (hints (cv_claim_id v))" using Cons.prems(3) by simp
  have ents: "st_ents (flushChunk isNew ?chunk st1) = st_ents st1" and empty: "flushChunk isNew [] s = s" for s
    by (simp_all add: flushChunk_eq chunk_rows_def chunk_edges_def)
  show ?case
  proof (cases "CHUNK \<le> length ?chunk")
    case True
    have "batch_loop env isNew hints vs [] (Some m') (flushChunk isNew ?chunk st1)
        = fold (\<lambda>v s. syncFromJsonlVersion env v (hints (cv_claim_id v)) False s) vs (flushChunk isNew [] (flushChunk isNew ?chunk st1))"
      by (rule Cons.IH) (use step(2) Cons.prems(2) rest chunk new in \<open>simp_all add: ents empty chunk_ok_def\<close>)
    with True step show ?thesis by (simp add: empty)
  next
    case False
    have "batch_loop env isNew hints vs ?chunk (Some m') st1
        = fold (\<lambda>v s. syncFromJsonlVersion env v (hints (cv_claim_id v)) False s) vs (flushChunk isNew ?chunk st1)"
      by (rule Cons.IH [OF step(2) Cons.prems(2) rest chunk new])
    with False step show ?thesis by simp
  qed
qed simp


subsection \<open>Rows and the log\<close>

text \<open>The status a row has after its claim has been synced from the log again.\<close>

definition reopened_status :: "claim \<Rightarrow> claim_status" where
  "reopened_status c =
     (if cl_status c = StRetracted then StRetracted
      else if cl_status c = StSuperseded \<and> truthy (cl_superseded_by c) then StSuperseded
      else StActive)"

text \<open>A version and a row that say the same: the status, the scope, the evidence and, unless the claim is
  retracted, the assertion and its event-valid window.\<close>

definition mirrors_version :: "claim_version \<Rightarrow> claim \<Rightarrow> bool" where
  "mirrors_version v r =
     (version_status v = reopened_status r \<and> cv_scope v = cl_scope r \<and> cv_derived_from v = cl_supporting_evidence r
      \<and> (cv_state v = CsActive \<longrightarrow>
           (\<exists>s. version_semantic v = Some s \<and> sm_predicate s = cl_predicate r \<and> sm_object s = cl_object r
              \<and> sm_t_valid_from s = cl_t_valid_from r \<and> sm_t_valid_to s = cl_t_valid_to r)))"

definition log_versions :: "store_env \<Rightarrow> claim_store \<Rightarrow> claim_version list" where
  "log_versions env st = projr (iterAllClaimVersions (sv_sha env) (the (st_log st)))"

definition version_key :: "claim_version \<Rightarrow> string \<times> int" where
  "version_key v = (cv_claim_id v, cv_version v)"

definition store_ok :: "store_env \<Rightarrow> claim_store \<Rightarrow> bool" where
  "store_ok env st =
     (st_log st \<noteq> None \<and> distinct (map fst (the (st_log st))) \<and> is_ok (iterAllClaimVersions (sv_sha env) (the (st_log st)))
      \<and> distinct (map version_key (log_versions env st)) \<and> keys_unique cl_id (st_claims st)
      \<and> cv_claim_id ` set (log_versions env st) = cl_id ` set (st_claims st)
      \<and> (\<forall>r \<in> set (st_claims st). \<forall>v. latest_of (log_versions env st) (cl_id r) = Some v \<longrightarrow> mirrors_version v r))"

text \<open>The latest version is the one with the greatest number; with distinct numbers the order of the log does
  not matter.\<close>

lemma latest_of_unique:
  assumes "l \<in> set vs" and "cv_claim_id l = c"
    and "\<And>v. v \<in> set vs \<Longrightarrow> cv_claim_id v = c \<Longrightarrow> v = l \<or> cv_version v < cv_version l"
  shows "latest_of vs c = Some l"
proof (cases "latest_of vs c")
  case None
  then show ?thesis using assms(1,2) by (auto simp: latest_of_None)
next
  case (Some m)
  then have "m \<in> set vs" "cv_claim_id m = c" "cv_version l \<le> cv_version m"
    using latest_of_greatest [OF Some] assms(1,2) by auto
  then show ?thesis using Some assms(3) [of m] by force
qed

lemma version_key_inj:
  assumes "distinct (map version_key vs)" and "v \<in> set vs" "w \<in> set vs"
    and "cv_claim_id v = cv_claim_id w" and "cv_version v = cv_version w"
  shows "v = w"
  using assms by (auto simp: distinct_map version_key_def inj_on_def)

lemma latest_of_set:
  assumes "distinct (map version_key vs)" and "set ws = set vs" 
  shows "latest_of ws c = latest_of vs c"
proof (cases "latest_of vs c")
  case None
  then show ?thesis using assms(2) by (metis latest_of_None)
next
  case (Some l)
  then have l: "l \<in> set vs" "cv_claim_id l = c" "\<And>v. v \<in> set vs \<Longrightarrow> cv_claim_id v = c \<Longrightarrow> cv_version v \<le> cv_version l"
    using latest_of_greatest [OF Some] by auto
  have "latest_of ws c = Some l"
  proof (rule latest_of_unique)
    show "l \<in> set ws" using l(1) assms(2) by simp
    show "cv_claim_id l = c" by (rule l(2))
    fix v assume "v \<in> set ws" "cv_claim_id v = c"
    then show "v = l \<or> cv_version v < cv_version l"
      using version_key_inj [OF assms(1), of v l] l assms(2) by fastforce
  qed
  with Some show ?thesis by simp
qed

text \<open>What one append under the next number does to the log.\<close>

lemma append_next:
  assumes "distinct (map fst dir)" and "iterAllClaimVersions sha dir = Inr vs" and "distinct (map version_key vs)"
    and "nextVersion sha dir (cv_claim_id v) = Inr (cv_version v)"
  shows "\<exists>ws. iterAllClaimVersions sha (appendClaimVersion v dir) = Inr ws \<and> distinct (map version_key ws)
    \<and> set ws = insert (backfillClaimVersion sha v) (set vs)
    \<and> (\<forall>c. latest_of ws c = (if c = cv_claim_id v then Some (backfillClaimVersion sha v) else latest_of vs c))"
proof -
  let ?b = "backfillClaimVersion sha v"
  obtain raw where raw: "read_all dir = Inr raw" "vs = map (backfillClaimVersion sha) raw"
    using assms(2) by (auto simp: iterAllClaimVersions_def split: sum.splits)
  obtain raw' where raw': "read_all (append_day (month_of (cv_version_at v)) [Line v] dir) = Inr raw'" "mset raw' = add_mset v (mset raw)"
    using read_all_append_one [OF assms(1) raw(1)] by blast
  let ?ws = "map (backfillClaimVersion sha) raw'"
  have ms: "mset ?ws = add_mset ?b (mset vs)" using raw'(2) raw(2) by simp
  have run: "iterAllClaimVersions sha (appendClaimVersion v dir) = Inr ?ws"
    using raw'(1) by (simp add: appendClaimVersion_eq iterAllClaimVersions_def)
  have number: "cv_version v = (case latest_of vs (cv_claim_id v) of None \<Rightarrow> 1 | Some l \<Rightarrow> cv_version l + 1)"
    using assms(2,4) by (auto simp: nextVersion_def readLatestVersion_def split: option.splits)
  have below: "cv_version w < cv_version v" if "w \<in> set vs" "cv_claim_id w = cv_claim_id v" for w
  proof (cases "latest_of vs (cv_claim_id v)")
    case None
    then show ?thesis using that by (auto simp: latest_of_None)
  next
    case (Some l)
    then show ?thesis using latest_of_greatest [OF Some] number that by force
  qed
  have keys: "mset (map version_key ?ws) = add_mset (version_key ?b) (mset (map version_key vs))"
    using ms by (metis mset_map image_mset_add_mset)
  have "distinct (map version_key (?b # vs))"
    using assms(3) below by (fastforce simp: version_key_def)
  then have dist: "distinct (map version_key ?ws)"
    using mset_eq_imp_distinct_iff [of "map version_key ?ws" "map version_key (?b # vs)"] keys by simp
  have set: "set ?ws = insert ?b (set vs)" using ms by (metis set_mset_add_mset_insert set_mset_mset)
  have "latest_of ?ws c = (if c = cv_claim_id v then Some ?b else latest_of vs c)" for c
  proof -
    have "latest_of ?ws c = latest_of (vs @ [?b]) c"
      by (rule latest_of_set) (use \<open>distinct (map version_key (?b # vs))\<close> set in auto)
    also have "\<dots> = (if c = cv_claim_id v then Some ?b else latest_of vs c)"
      using number by (auto simp: latest_of_snoc split: option.splits)
    finally show ?thesis .
  qed
  with run dist set show ?thesis by blast
qed


lemma columns_simps [simp]:
  "cl_id (claim_columns c) = cl_id c" "cl_status (claim_columns c) = cl_status c" "cl_scope (claim_columns c) = cl_scope c"
  "cl_supporting_evidence (claim_columns c) = cl_supporting_evidence c" "cl_predicate (claim_columns c) = cl_predicate c"
  "cl_object (claim_columns c) = cl_object c" "cl_t_valid_from (claim_columns c) = cl_t_valid_from c"
  "cl_t_valid_to (claim_columns c) = cl_t_valid_to c" "cl_superseded_by (claim_columns c) = cl_superseded_by c"
  "cl_subject_id (claim_columns c) = cl_subject_id c" "cl_contested_by (claim_columns c) = cl_contested_by c"
  "cl_confidence (claim_columns c) = cl_confidence c" "cl_t_ingested (claim_columns c) = cl_t_ingested c"
  "cl_t_invalidated (claim_columns c) = cl_t_invalidated c"
  by (simp_all add: claim_columns_def Let_def)

lemma rowToClaim_simps [simp]:
  "cl_id (rowToClaim c) = cl_id c" "cl_status (rowToClaim c) = cl_status c" "cl_scope (rowToClaim c) = cl_scope c"
  "cl_supporting_evidence (rowToClaim c) = cl_supporting_evidence c" "cl_predicate (rowToClaim c) = cl_predicate c"
  "cl_object (rowToClaim c) = cl_object c" "cl_t_valid_from (rowToClaim c) = cl_t_valid_from c"
  "cl_t_valid_to (rowToClaim c) = cl_t_valid_to c" "cl_superseded_by (rowToClaim c) = cl_superseded_by c"
  "cl_subject_id (rowToClaim c) = cl_subject_id c" "cl_contested_by (rowToClaim c) = cl_contested_by c"
  "cl_confidence (rowToClaim c) = cl_confidence c" "cl_t_ingested (rowToClaim c) = cl_t_ingested c"
  "cl_t_invalidated (rowToClaim c) = cl_t_invalidated c" "reopened_status (rowToClaim c) = reopened_status c"
  by (simp_all add: rowToClaim_def reopened_status_def)

lemma version_record_simps [simp]:
  "cv_claim_id (version_record env es c conf n) = cl_id c" "cv_version (version_record env es c conf n) = n"
  "cv_scope (version_record env es c conf n) = cl_scope c" "cv_derived_from (version_record env es c conf n) = cl_supporting_evidence c"
  "backfillClaimVersion sha (version_record env es c conf n) = version_record env es c conf n"
  by (simp_all add: version_record_def backfillClaimVersion_def claim_columns_def Let_def)

lemma version_record_mirrors: "mirrors_version (version_record env es c conf n) (claim_columns c)"
proof -
  let ?v = "version_record env es c conf n"
  have state: "cv_state ?v = statusToState (cl_status c)"
    by (simp add: version_record_def cv_state_def Let_def) (simp add: statusToState_def)
  have pointer: "vl_superseded_by (cv_lineage ?v) = (if cl_status c = StSuperseded then cl_superseded_by c else None)"
    by (simp add: version_record_def Let_def)
  have "version_status ?v = reopened_status (claim_columns c)"
    unfolding version_status_def version_superseded_by_def state pointer
    by (simp add: statusToState_def reopened_status_def truthy_def)
  moreover have "\<exists>s. version_semantic ?v = Some s \<and> sm_predicate s = cl_predicate c \<and> sm_object s = cl_object c
      \<and> sm_t_valid_from s = cl_t_valid_from c \<and> sm_t_valid_to s = cl_t_valid_to c" if "cv_state ?v = CsActive"
    using that unfolding state by (simp add: version_semantic_def version_record_def Let_def)
  ultimately show ?thesis by (simp add: mirrors_version_def)
qed

lemma write_row_simps [simp]:
  "st_claims (write_row c st) = ins_replace cl_id (claim_columns c) (st_claims st)"
  "st_ents (write_row c st) = st_ents st" "st_log (write_row c st) = st_log st"
  "st_relations (write_row c st) = edges_after (cl_id c) (or_else (cl_relations c) []) (st_relations st)"
  by (simp_all add: write_row_def refresh_edges_eq)

lemma store_ok_log:
  assumes "store_ok env st"
  obtains dir where "st_log st = Some dir" "distinct (map fst dir)" "iterAllClaimVersions (sv_sha env) dir = Inr (log_versions env st)"
proof -
  obtain dir where dir: "st_log st = Some dir" using assms by (auto simp: store_ok_def)
  obtain vs where vs: "iterAllClaimVersions (sv_sha env) dir = Inr vs"
    using assms dir by (cases "iterAllClaimVersions (sv_sha env) dir") (auto simp: store_ok_def)
  have "distinct (map fst dir)" using assms dir unfolding store_ok_def by simp
  then show thesis by (rule that [OF dir]) (simp add: log_versions_def dir vs)
qed

text \<open>An insert succeeds iff the subject is a known entity and the confidence is a number.\<close>

lemma insertClaim_refused:
  "cl_confidence c = None \<or> cl_subject_id c \<notin> entity_ids (st_ents st) \<Longrightarrow> \<exists>x. insertClaim env c st = (Inl x, st)"
  by (auto simp: insertClaim_def entity_ids_def split: option.splits)

lemma insertClaim_ok:
  assumes "store_ok env st" and "cl_confidence c = Some conf" and "cl_subject_id c \<in> entity_ids (st_ents st)"
  shows "\<exists>st'. insertClaim env c st = (Inr (), st') \<and> store_ok env st' \<and> st_ents st' = st_ents st
    \<and> st_claims st' = ins_replace cl_id (claim_columns c) (st_claims st)
    \<and> st_relations st' = edges_after (cl_id c) (or_else (cl_relations c) []) (st_relations st)"
proof -
  let ?sha = "sv_sha env" and ?vs = "log_versions env st"
  obtain dir where dir: "st_log st = Some dir" "distinct (map fst dir)" "iterAllClaimVersions ?sha dir = Inr ?vs"
    using assms(1) by (rule store_ok_log)
  have keys: "distinct (map version_key ?vs)" "cv_claim_id ` set ?vs = cl_id ` set (st_claims st)"
    using assms(1) by (simp_all add: store_ok_def)
  obtain n where n: "nextVersion ?sha dir (cl_id c) = Inr n"
    using dir(3) by (cases "latest_of ?vs (cl_id c)") (auto simp: nextVersion_def readLatestVersion_def)
  define v where "v = version_record env (st_ents st) c conf n"
  have "nextVersion ?sha dir (cv_claim_id v) = Inr (cv_version v)" using n by (simp add: v_def)
  from append_next [OF dir(2,3) keys(1) this] obtain ws where ws:
    "iterAllClaimVersions ?sha (appendClaimVersion v dir) = Inr ws" "distinct (map version_key ws)" "set ws = insert v (set ?vs)"
    "\<And>i. latest_of ws i = (if i = cl_id c then Some v else latest_of ?vs i)"
    by (auto simp: v_def)
  let ?st = "(write_row c st)\<lparr>st_log := Some (appendClaimVersion v dir)\<rparr>"
  have "insertClaim env c st = (Inr (), ?st)"
    using assms(2,3) dir(1) n by (simp add: insertClaim_def entity_ids_def v_def Let_def)
  moreover have "store_ok env ?st"
  proof -
    have "log_versions env ?st = ws" using ws(1) by (simp add: log_versions_def)
    moreover have "mirrors_version w r" if "r \<in> set (ins_replace cl_id (claim_columns c) (st_claims st))"
      "latest_of ws (cl_id r) = Some w" for r w
      using that assms(1) version_record_mirrors [of env "st_ents st" c conf n]
      by (auto simp: set_ins_replace ws(4) v_def store_ok_def split: if_splits)
    moreover have "insert (cl_id c) (cl_id ` set (st_claims st)) = cl_id ` set (ins_replace cl_id (claim_columns c) (st_claims st))"
      by (auto simp: set_ins_replace)
    moreover have "distinct (map fst (appendClaimVersion v dir))" using dir(2) by (simp add: appendClaimVersion_eq)
    moreover have "cv_claim_id v = cl_id c" by (simp add: v_def)
    ultimately show ?thesis using ws keys assms(1) by (simp add: store_ok_def keyed)
  qed
  ultimately show ?thesis by simp
qed

lemma insertClaim_keeps: "store_ok env st \<Longrightarrow> store_ok env (snd (insertClaim env c st))"
  using insertClaim_ok [of env st c] insertClaim_refused [of c st env]
  by (cases "cl_confidence c") (force, metis snd_conv)

lemma getClaim_insert:
  assumes "st_claims st' = ins_replace cl_id (claim_columns c) (st_claims st)"
  shows "getClaim i st' = (if i = cl_id c then Some (rowToClaim (claim_columns c)) else getClaim i st)"
  by (simp add: getClaim_def assms sql)

subsection \<open>Reopening\<close>

lemma latest_by_claim_snoc:
  "latest_by_claim (vs @ [v]) =
     (let m = latest_by_claim vs in
      case map_of m (cv_claim_id v) of None \<Rightarrow> js_map_set (cv_claim_id v) v m
      | Some l \<Rightarrow> if cv_version l < cv_version v then js_map_set (cv_claim_id v) v m else m)"
  by (simp add: latest_by_claim_def Let_def)

lemma map_of_latest_by_claim: "map_of (latest_by_claim vs) c = latest_of vs c"
proof (induction vs arbitrary: c rule: rev_induct)
  case (snoc v vs)
  then show ?case by (auto simp: latest_by_claim_snoc latest_of_snoc Let_def split: option.splits)
qed (simp add: latest_by_claim_def latest_of_def)

lemma distinct_latest_by_claim: "distinct (map fst (latest_by_claim vs))"
  by (induction vs rule: rev_induct) (auto simp: latest_by_claim_snoc Let_def latest_by_claim_def split: option.splits)

lemma latest_values:
  assumes "(c, v) \<in> set (latest_by_claim vs)"
  shows "latest_of vs c = Some v \<and> cv_claim_id v = c"
proof -
  have "latest_of vs c = Some v" using assms distinct_latest_by_claim by (metis map_of_eq_Some_iff map_of_latest_by_claim)
  then show ?thesis using latest_of_greatest by blast
qed

lemma latest_value_ids: "map cv_claim_id (map snd (latest_by_claim vs)) = map fst (latest_by_claim vs)"
  using latest_values by (force intro!: map_cong)

lemma sync_claims:
  obtains e where "st_claims (syncFromJsonlVersion env v h False st) = ins_replace cl_id (version_row v h (getClaim (cv_claim_id v) st) e) (st_claims st)"
    "st_log (syncFromJsonlVersion env v h False st) = st_log st"
proof -
  obtain e m es where "memo_resolve (sv_clock env) (cv_scope v) (subject_of_version v h (getClaim (cv_claim_id v) st))
      (type_of_version v h (getClaim (cv_claim_id v) st) (st_ents st)) None (st_ents st) = (e, m, es)"
    by (cases "memo_resolve (sv_clock env) (cv_scope v) (subject_of_version v h (getClaim (cv_claim_id v) st))
      (type_of_version v h (getClaim (cv_claim_id v) st) (st_ents st)) None (st_ents st)")
  then show thesis using that [of e] by (simp add: syncFromJsonlVersion_def claimVersionVals_def refresh_edges_eq Let_def)
qed

lemma sync_fold:
  fixes env :: store_env and st :: claim_store
  assumes "distinct (map cv_claim_id vs)"
  defines "fin \<equiv> fold (\<lambda>v s. syncFromJsonlVersion env v None False s) vs st"
  shows "st_log fin = st_log st \<and> (keys_unique cl_id (st_claims st) \<longrightarrow> keys_unique cl_id (st_claims fin))
    \<and> cl_id ` set (st_claims fin) = cv_claim_id ` set vs \<union> cl_id ` set (st_claims st)
    \<and> (\<forall>i. i \<notin> cv_claim_id ` set vs \<longrightarrow> lookup_by cl_id i (st_claims fin) = lookup_by cl_id i (st_claims st))
    \<and> (\<forall>v \<in> set vs. \<exists>e. lookup_by cl_id (cv_claim_id v) (st_claims fin) = Some (version_row v None (getClaim (cv_claim_id v) st) e))"
  using assms(1) unfolding fin_def
proof (induction vs arbitrary: st)
  case (Cons v vs)
  obtain e where e: "st_claims (syncFromJsonlVersion env v None False st) = ins_replace cl_id (version_row v None (getClaim (cv_claim_id v) st) e) (st_claims st)"
    "st_log (syncFromJsonlVersion env v None False st) = st_log st"
    by (rule sync_claims [of env v None st])
  let ?s = "syncFromJsonlVersion env v None False st"
  have ids: "cl_id ` set (st_claims ?s) = insert (cv_claim_id v) (cl_id ` set (st_claims st))" by (auto simp: e set_ins_replace)
  have old: "getClaim i ?s = getClaim i st" if "i \<noteq> cv_claim_id v" for i using that by (simp add: getClaim_def e sql)
  have look: "lookup_by cl_id i (st_claims ?s) = (if i = cv_claim_id v then Some (version_row v None (getClaim (cv_claim_id v) st) e)
      else lookup_by cl_id i (st_claims st))" for i by (simp add: e sql)
  have notin: "cv_claim_id v \<notin> cv_claim_id ` set vs" "distinct (map cv_claim_id vs)" using Cons.prems by auto
  note IH = Cons.IH [OF notin(2), of ?s]
  have "\<exists>e. lookup_by cl_id (cv_claim_id w) (st_claims (fold (\<lambda>v s. syncFromJsonlVersion env v None False s) vs ?s))
      = Some (version_row w None (getClaim (cv_claim_id w) st) e)" if "w \<in> set (v # vs)" for w
  proof (cases "w = v")
    case True
    then show ?thesis using IH notin(1) look by auto
  next
    case False
    then have "w \<in> set vs" "cv_claim_id w \<noteq> cv_claim_id v" using that notin(1) by (auto simp: image_iff)
    then show ?thesis using IH old by metis
  qed
  then show ?case using IH e(2) ids look by (auto simp: keyed e(1))
qed simp

lemma version_row_mirrors:
  assumes "cv_state v = CsActive \<longrightarrow> version_semantic v \<noteq> None"
  shows "mirrors_version v (version_row v h ex e)"
  using assms
  by (auto simp: mirrors_version_def reopened_status_def version_row_def version_status_def first_some_def Let_def
      split: claim_state.splits)

lemma reopen_effect:
  assumes "store_ok env st" and "st_log st = Some dir"
  shows "fst (setDataDir env dir st) = Inr () \<and> store_ok env (snd (setDataDir env dir st))
    \<and> (\<forall>i. getClaim i st = None \<longrightarrow> getClaim i (snd (setDataDir env dir st)) = None)
    \<and> (\<forall>i c. getClaim i st = Some c \<longrightarrow> (\<exists>v e. latest_of (log_versions env st) i = Some v \<and> mirrors_version v c
         \<and> getClaim i (snd (setDataDir env dir st)) = Some (rowToClaim (version_row v None (Some c) e))))"
proof -
  let ?vs = "log_versions env st"
  let ?ls = "map snd (latest_by_claim ?vs)"
  have st: "st\<lparr>st_log := Some dir\<rparr> = st" using assms(2) by simp
  have vs: "iterAllClaimVersions (sv_sha env) dir = Inr ?vs" using store_ok_log [OF assms(1)] assms(2) by (metis option.inject)
  define fin where "fin = fold (\<lambda>v s. syncFromJsonlVersion env v None False s) ?ls st"
  have run: "setDataDir env dir st = (Inr (), fin)" using vs st by (simp add: setDataDir_def fin_def)
  have dist: "distinct (map cv_claim_id ?ls)" unfolding latest_value_ids by (rule distinct_latest_by_claim)
  have ids: "cv_claim_id ` set ?ls = cl_id ` set (st_claims st)"
  proof -
    have "cv_claim_id ` set ?ls = fst ` set (latest_by_claim ?vs)" using latest_value_ids by (metis list.set_map)
    also have "\<dots> = {c. latest_of ?vs c \<noteq> None}" by (simp add: map_of_latest_by_claim [symmetric] map_of_eq_None_iff)
    also have "\<dots> = cv_claim_id ` set ?vs" by (auto simp: latest_of_None)
    finally show ?thesis using assms(1) by (simp add: store_ok_def)
  qed
  note eff = sync_fold [OF dist, of env st, folded fin_def]
  have log: "st_log fin = st_log st" and "log_versions env fin = ?vs" using eff by (simp_all add: log_versions_def)
  have row: "\<exists>v e. latest_of ?vs i = Some v \<and> lookup_by cl_id i (st_claims fin) = Some (version_row v None (getClaim i st) e)"
    if "i \<in> cl_id ` set (st_claims st)" for i
  proof -
    have "i \<in> cv_claim_id ` set ?ls" using that ids by simp
    then obtain v where v: "v \<in> set ?ls" "cv_claim_id v = i" by auto
    then have "latest_of ?vs i = Some v" using latest_values by auto
    then show ?thesis using eff v by blast
  qed
  have mirror: "mirrors_version v r" if "r \<in> set (st_claims st)" "latest_of ?vs (cl_id r) = Some v" for r v
    using assms(1) that by (simp add: store_ok_def)
  have rows: "mirrors_version v r" if r: "r \<in> set (st_claims fin)" "latest_of ?vs (cl_id r) = Some v" for r v
  proof -
    have i: "cl_id r \<in> cl_id ` set (st_claims st)" using r(1) eff ids by (metis UnE imageI)
    then obtain q where q: "q \<in> set (st_claims st)" "cl_id q = cl_id r" by (metis imageE)
    obtain e where "lookup_by cl_id (cl_id r) (st_claims fin) = Some (version_row v None (getClaim (cl_id r) st) e)"
      using row [OF i] r(2) by auto
    moreover have "keys_unique cl_id (st_claims fin)" using eff assms(1) by (simp add: store_ok_def)
    ultimately have "r = version_row v None (getClaim (cl_id r) st) e" using r(1) by (metis lookup_by_unique option.inject)
    moreover have "cv_state v = CsActive \<longrightarrow> version_semantic v \<noteq> None"
      using mirror [OF q(1)] r(2) q(2) by (auto simp: mirrors_version_def)
    ultimately show ?thesis using version_row_mirrors by metis
  qed
  have "store_ok env fin"
    using assms(1) eff ids rows \<open>log_versions env fin = ?vs\<close> by (simp add: store_ok_def log)
  moreover have "\<exists>v e. latest_of ?vs i = Some v \<and> mirrors_version v c \<and> getClaim i fin = Some (rowToClaim (version_row v None (Some c) e))"
    if c: "getClaim i st = Some c" for i c
  proof -
    obtain r where r: "lookup_by cl_id i (st_claims st) = Some r" "c = rowToClaim r" using c by (auto simp: getClaim_def)
    then have "r \<in> set (st_claims st)" "cl_id r = i" using lookup_by_SomeD by fastforce+
    then obtain v e where v: "latest_of ?vs i = Some v"
      "lookup_by cl_id i (st_claims fin) = Some (version_row v None (getClaim i st) e)"
      using row [of i] by blast
    have "mirrors_version v c" using mirror [of r v] v(1) \<open>r \<in> set (st_claims st)\<close> \<open>cl_id r = i\<close> r(2) by (simp add: mirrors_version_def)
    moreover have "getClaim i fin = Some (rowToClaim (version_row v None (Some c) e))"
      using v(2) unfolding c by (simp add: getClaim_def)
    ultimately show ?thesis using v(1) by blast
  qed
  moreover have "getClaim i fin = None" if "getClaim i st = None" for i
    using that eff ids by (auto simp: getClaim_def lookup_by_None_iff)
  ultimately show ?thesis by (simp add: run)
qed

subsection \<open>Runs of the store\<close>

definition empty_store :: claim_store where
  "empty_store = \<lparr>st_ents = \<lparr>es_entities = [], es_merge_log = [], es_new_log = [], es_minted = 0\<rparr>, st_claims = [],
     st_relations = [], st_last_replayed = 0, st_log = Some []\<rparr>"

inductive store_run :: "store_env \<Rightarrow> claim_store \<Rightarrow> bool" for env where
  run_empty: "store_run env empty_store"
| run_entity: "store_run env st \<Longrightarrow> store_run env (st\<lparr>st_ents := insertEntity e (st_ents st)\<rparr>)"
| run_retype: "store_run env st \<Longrightarrow> store_run env (st\<lparr>st_ents := updateEntityType i ty (st_ents st)\<rparr>)"
| run_resolve: "store_run env st \<Longrightarrow>
    store_run env (st\<lparr>st_ents := snd (resolveEntity (sv_clock env) cfg name ty scope (st_ents st))\<rparr>)"
| run_insert: "store_run env st \<Longrightarrow> store_run env (snd (insertClaim env c st))"
| run_reopen: "store_run env st \<Longrightarrow> st_log st = Some dir \<Longrightarrow> store_run env (snd (setDataDir env dir st))"

lemma store_ok_ents [simp]: "store_ok env (st\<lparr>st_ents := es\<rparr>) = store_ok env st"
  by (simp add: store_ok_def log_versions_def)

lemma store_run_ok: "store_run env st \<Longrightarrow> store_ok env st"
proof (induction rule: store_run.induct)
  case run_empty
  show ?case
    by (simp add: store_ok_def empty_store_def log_versions_def iterAllClaimVersions_def read_all_def log_days_def)
next
  case (run_insert st c)
  then show ?case by (simp add: insertClaim_keeps)
next
  case (run_reopen st dir)
  then show ?case using reopen_effect by blast
qed simp_all

lemma insertClaim_run:
  assumes "store_run env st" and "cl_confidence c = Some conf" and "cl_subject_id c \<in> entity_ids (st_ents st)"
  shows "fst (insertClaim env c st) = Inr ()" "st_ents (snd (insertClaim env c st)) = st_ents st"
    "st_claims (snd (insertClaim env c st)) = ins_replace cl_id (claim_columns c) (st_claims st)"
    "st_relations (snd (insertClaim env c st)) = edges_after (cl_id c) (or_else (cl_relations c) []) (st_relations st)"
  using insertClaim_ok [OF store_run_ok [OF assms(1)] assms(2,3)] by auto

lemma run_update: "store_run env st \<Longrightarrow> store_run env (snd (update_claim env i f st))"
  by (simp add: update_claim_def run_insert split: option.split)

lemma and_then_ok: "fst p = Inr a \<Longrightarrow> and_then p f = f a (snd p)"
  by (cases p) simp

lemma run_and_then:
  assumes "store_run env (snd p)" and "\<And>a s. store_run env s \<Longrightarrow> store_run env (snd (f a s))"
  shows "store_run env (snd (and_then p f))"
  using assms by (cases p) (auto simp: and_then_def split: sum.split)

lemma run_markContested: "store_run env st \<Longrightarrow> store_run env (snd (markContested env a b st))"
  by (auto simp: markContested_def intro!: run_and_then run_insert split: option.split)

section \<open>Properties\<close>

text \<open>The batched sync of a compile run is the one-by-one sync. For records of distinct claims, whose new
  ids are indeed new to the rows and the edges, with ULIDs that do not repeat and no vertical bar in scopes
  and entity types, the chunked writes, the skipped lookups, the skipped edge maintenance and the memo of
  created entities give exactly the state that syncing the records one by one on the general path gives.\<close>

lemma batch_sync_equals_serial:
  assumes "distinct (map cv_claim_id records)"
    and "\<forall>i \<in> newIds. i \<notin> cl_id ` set (st_claims st) \<and> i \<notin> rl_source ` set (st_relations st)"
    and "inj (ec_ulid (sv_clock env))" and "unminted (sv_clock env) (st_ents st)"
    and "\<forall>v \<in> set records. bar_free (cv_scope v) \<and> types_bar_free v (hints (cv_claim_id v))"
    and "\<forall>e \<in> set (es_entities (st_ents st)). bar_free (en_type e)"
  shows "syncFromJsonlVersionsBatch env records newIds hints st
    = fold (\<lambda>v s. syncFromJsonlVersion env v (hints (cv_claim_id v)) False s) records st"
proof -
  have empty: "flushChunk (\<lambda>i. i \<in> newIds) [] st = st" by (simp add: flushChunk_def)
  have "batch_loop env (\<lambda>i. i \<in> newIds) hints records [] (Some []) st
      = fold (\<lambda>v s. syncFromJsonlVersion env v (hints (cv_claim_id v)) False s) records (flushChunk (\<lambda>i. i \<in> newIds) [] st)"
    by (rule batch_loop_serial)
      (use assms in \<open>simp_all add: resolver_ok_def memo_ok_def chunk_ok_def empty\<close>)
  then show ?thesis by (simp add: syncFromJsonlVersionsBatch_def empty)
qed

text \<open>C26: What reopening a data directory makes of the claims. For every store reached by inserting entities
  and claims, updating them and reopening: setting the data directory again succeeds, adds no claim and loses
  none, and keeps scope, evidence and the list of contesting claims, and for a claim that is not retracted its
  assertion and event-valid window. The status survives only where the canonical log carries it: a retracted
  claim stays retracted, a claim superseded by a named claim stays superseded, and every other claim becomes
  active, so that a contested claim is no longer contested.\<close>

theorem reopen_status_exact:
  assumes "store_run env st" and "st_log st = Some dir" and "setDataDir env dir st = (r, st')"
  shows "r = Inr () \<and> (\<forall>i. getClaim i st = None \<longrightarrow> getClaim i st' = None)
    \<and> (\<forall>i c. getClaim i st = Some c \<longrightarrow> (\<exists>c'. getClaim i st' = Some c'
         \<and> cl_status c' = (if cl_status c = StRetracted then StRetracted
                          else if cl_status c = StSuperseded \<and> truthy (cl_superseded_by c) then StSuperseded else StActive)
         \<and> cl_scope c' = cl_scope c \<and> cl_supporting_evidence c' = cl_supporting_evidence c \<and> cl_contested_by c' = cl_contested_by c
         \<and> (cl_status c \<noteq> StRetracted \<longrightarrow> cl_predicate c' = cl_predicate c \<and> cl_object c' = cl_object c
             \<and> cl_t_valid_from c' = cl_t_valid_from c \<and> cl_t_valid_to c' = cl_t_valid_to c)))"
proof -
  note eff = reopen_effect [OF store_run_ok [OF assms(1)] assms(2), unfolded assms(3), simplified]
  have "\<exists>c'. getClaim i st' = Some c' \<and> cl_status c' = reopened_status c
      \<and> cl_scope c' = cl_scope c \<and> cl_supporting_evidence c' = cl_supporting_evidence c \<and> cl_contested_by c' = cl_contested_by c
      \<and> (cl_status c \<noteq> StRetracted \<longrightarrow> cl_predicate c' = cl_predicate c \<and> cl_object c' = cl_object c
          \<and> cl_t_valid_from c' = cl_t_valid_from c \<and> cl_t_valid_to c' = cl_t_valid_to c)" if c: "getClaim i st = Some c" for i c
  proof -
    obtain v e where v: "mirrors_version v c" "getClaim i st' = Some (rowToClaim (version_row v None (Some c) e))"
      using eff c by blast
    have "cv_state v = CsActive" if "cl_status c \<noteq> StRetracted"
      using v(1) that by (auto simp: mirrors_version_def version_status_def reopened_status_def split: claim_state.splits if_splits)
    with v show ?thesis by (auto simp: mirrors_version_def version_row_def first_some_def Let_def)
  qed
  with eff show ?thesis by (simp add: reopened_status_def)
qed

section \<open>The store as records under keys\<close>

text \<open>
  The interface of a store of keyed records: a write either fails and leaves every record alone, or replaces the
  record under its key by its stored form. \<open>evolves\<close> says that every record is still there and related to what
  it was.
\<close>

definition evolves :: "('k \<Rightarrow> 's \<Rightarrow> 'r option) \<Rightarrow> ('r \<Rightarrow> 'r \<Rightarrow> bool) \<Rightarrow> 's \<Rightarrow> 's \<Rightarrow> bool" where
  "evolves get R s s' = (\<forall>k c. get k s = Some c \<longrightarrow> (\<exists>c'. get k s' = Some c' \<and> R c c'))"

lemma evolves_refl: "reflp R \<Longrightarrow> evolves get R s s"
  by (auto simp: evolves_def reflp_def)

lemma evolves_trans: "transp R \<Longrightarrow> evolves get R s t \<Longrightarrow> evolves get R t u \<Longrightarrow> evolves get R s u"
  unfolding evolves_def transp_def by metis

locale record_store =
  fixes get :: "'k \<Rightarrow> 's \<Rightarrow> 'r option" and put :: "'r \<Rightarrow> 's \<Rightarrow> unit outcome \<times> 's"
    and key :: "'r \<Rightarrow> 'k" and stored :: "'r \<Rightarrow> 'r"
  assumes put_effect: "put r s = (x, s') \<Longrightarrow>
      (x \<noteq> Inr () \<and> (\<forall>k. get k s' = get k s)) \<or> (\<forall>k. get k s' = (if k = key r then Some (stored r) else get k s))"
begin

lemma put_evolves:
  assumes "reflp R" and "\<And>c. get (key r) s = Some c \<Longrightarrow> R c (stored r)"
  shows "evolves get R s (snd (put r s))"
proof -
  obtain x s' where run: "put r s = (x, s')" by (cases "put r s")
  then show ?thesis using put_effect [OF run] assms unfolding evolves_def reflp_def by (metis option.inject snd_conv)
qed

lemma put_other: "k \<noteq> key r \<Longrightarrow> get k (snd (put r s)) = get k s"
  using put_effect [of r s] by (cases "put r s") auto

lemma put_done: "put r s = (Inr (), s') \<Longrightarrow> get k s' = (if k = key r then Some (stored r) else get k s)"
  using put_effect [of r s "Inr ()" s'] by auto

end

definition stored :: "claim \<Rightarrow> claim" where
  "stored c = rowToClaim (claim_columns c)"

lemma stored_simps [simp]:
  "cl_id (stored c) = cl_id c" "cl_status (stored c) = cl_status c" "cl_scope (stored c) = cl_scope c"
  "cl_supporting_evidence (stored c) = cl_supporting_evidence c" "cl_predicate (stored c) = cl_predicate c"
  "cl_object (stored c) = cl_object c" "cl_t_valid_from (stored c) = cl_t_valid_from c"
  "cl_t_valid_to (stored c) = cl_t_valid_to c" "cl_superseded_by (stored c) = cl_superseded_by c"
  "cl_subject_id (stored c) = cl_subject_id c" "cl_contested_by (stored c) = cl_contested_by c"
  "cl_confidence (stored c) = cl_confidence c" "cl_t_ingested (stored c) = cl_t_ingested c"
  "cl_t_invalidated (stored c) = cl_t_invalidated c"
  by (simp_all add: stored_def)

interpretation claims: record_store getClaim "insertClaim env" cl_id stored for env
proof
  fix c st x st'
  assume "insertClaim env c st = (x, st')"
  moreover have "getClaim k (write_row c st) = (if k = cl_id c then Some (stored c) else getClaim k st)" for k
    by (simp add: getClaim_def stored_def sql)
  moreover have "getClaim k (s\<lparr>st_log := l\<rparr>) = getClaim k s" for k s l by (simp add: getClaim_def)
  ultimately show "(x \<noteq> Inr () \<and> (\<forall>k. getClaim k st' = getClaim k st)) \<or> (\<forall>k. getClaim k st' = (if k = cl_id c then Some (stored c) else getClaim k st))"
    by (auto simp: insertClaim_def Let_def split: option.splits if_splits sum.splits)
qed

section \<open>Witnesses\<close>

definition demo_env :: store_env where
  "demo_env = \<lparr>sv_sha = (\<lambda>s. take 4 s), sv_coll = (\<lambda>s. s),
     sv_clock = \<lparr>ec_ulid = (\<lambda>n. replicate n (CHR ''u'')), ec_now = ''2026-01-01''\<rparr>, sv_plan = (\<lambda>rs. rs)\<rparr>"

definition demo_entity :: entity where
  "demo_entity = \<lparr>en_id = ''entity_acme'', en_canonical_name = ''Acme'', en_aliases = [], en_type = ''organisation'',
     en_scope = ''client:acme'', en_created_at = ''2026-01-01''\<rparr>"

definition demo_claim :: "string \<Rightarrow> string \<Rightarrow> string \<Rightarrow> claim" where
  "demo_claim i v from =
     \<lparr>cl_id = i, cl_subject_id = ''entity_acme'', cl_subject_name = ''Acme'', cl_predicate = ''renewal_date'',
      cl_object = \<lparr>tv_type = ''text'', tv_value = JStr v\<rparr>, cl_scope = ''client:acme'', cl_validity = (from, None),
      cl_t_ingested = knownTime ''2026-08-02'', cl_t_invalidated = nullTime, cl_t_valid_from = knownTime from, cl_t_valid_to = nullTime,
      cl_source_event_id = ''obs_1'', cl_extraction_event_id = ''obs_1'', cl_supporting_evidence = [''obs_1''],
      cl_extraction = \<lparr>ex_method = MDeterministic, ex_model = None, ex_compiler_version = ''0.7.0'', ex_prompt_hash = None,
        ex_extracted_at = ''2026-08-02''\<rparr>,
      cl_status = StActive, cl_epistemic = LObserved, cl_confidence = Some (1 / 2), cl_sensitive = False, cl_superseded_by = None,
      cl_contested_by = [], cl_state = None, cl_author = None, cl_epistemic_owner = None, cl_claim_type = None, cl_claim_role = None,
      cl_version_at = None, cl_created_at = None, cl_operation_id = None, cl_actor_id = None, cl_relations = None\<rparr>"

definition demo_base :: claim_store where
  "demo_base = empty_store\<lparr>st_ents := insertEntity demo_entity (st_ents empty_store)\<rparr>"

definition demo_pair :: claim_store where
  "demo_pair = snd (insertClaim demo_env (demo_claim ''claim_b'' ''2026-12-01'' ''2026-08-01'')
     (snd (insertClaim demo_env (demo_claim ''claim_a'' ''2026-11-02'' ''2026-08-01'') demo_base)))"

definition demo_contested :: claim_store where
  "demo_contested = snd (markContested demo_env ''claim_a'' ''claim_b'' demo_pair)"

lemma demo_runs: "store_run demo_env demo_base" "store_run demo_env demo_pair" "store_run demo_env demo_contested"
  unfolding demo_contested_def demo_pair_def demo_base_def
  by (intro run_markContested run_insert run_entity run_empty)+

lemma demo_claim_simps [simp]:
  "cl_id (demo_claim i v from) = i" "cl_subject_id (demo_claim i v from) = ''entity_acme''"
  "cl_confidence (demo_claim i v from) = Some (1 / 2)" "cl_status (demo_claim i v from) = StActive"
  "cl_contested_by (demo_claim i v from) = []" "cl_relations (demo_claim i v from) = None"
  by (simp_all add: demo_claim_def)

lemma demo_base_simps [simp]: "entity_ids (st_ents demo_base) = {''entity_acme''}" "st_claims demo_base = []" "es_minted (st_ents demo_base) = 0"
  "st_relations demo_base = []" "es_entities (st_ents demo_base) = [demo_entity]"
  by (simp_all add: demo_base_def entity_ids_def insertEntity_def ins_ignore_def empty_store_def demo_entity_def)

lemma demo_pair_simps:
  "st_ents demo_pair = st_ents demo_base" "st_relations demo_pair = []"
  "st_claims demo_pair = [claim_columns (demo_claim ''claim_a'' ''2026-11-02'' ''2026-08-01''), claim_columns (demo_claim ''claim_b'' ''2026-12-01'' ''2026-08-01'')]"
  unfolding demo_pair_def
  by (simp_all add: insertClaim_run [OF run_insert [OF demo_runs(1)], where conf = "1 / 2"]
      insertClaim_run [OF demo_runs(1), where conf = "1 / 2"] ins_replace_def edges_after_none)

lemma contest_simps [simp]:
  "cl_id (contest i c) = cl_id c" "cl_subject_id (contest i c) = cl_subject_id c" "cl_confidence (contest i c) = cl_confidence c"
  "cl_status (contest i c) = StContested" "cl_contested_by (contest i c) = js_set (cl_contested_by c @ [i])"
  by (simp_all add: contest_def)

lemma demo_contested_claim:
  "map_option (\<lambda>c. (cl_status c, cl_contested_by c)) (getClaim ''claim_a'' demo_contested) = Some (StContested, [''claim_b''])"
proof -
  let ?c = "\<lambda>i v. rowToClaim (claim_columns (demo_claim i v ''2026-08-01''))"
  let ?a = "contest ''claim_b'' (?c ''claim_a'' ''2026-11-02'')" and ?b = "contest ''claim_a'' (?c ''claim_b'' ''2026-12-01'')"
  have get: "getClaim ''claim_a'' demo_pair = Some (?c ''claim_a'' ''2026-11-02'')" "getClaim ''claim_b'' demo_pair = Some (?c ''claim_b'' ''2026-12-01'')"
    by (simp_all add: getClaim_def demo_pair_simps)
  let ?s = "snd (insertClaim demo_env ?a demo_pair)"
  have "fst (insertClaim demo_env ?a demo_pair) = Inr ()"
    by (rule insertClaim_run(1) [OF demo_runs(2), of ?a "1 / 2"]) (simp_all add: demo_pair_simps)
  then have "demo_contested = snd (insertClaim demo_env ?b ?s)"
    unfolding demo_contested_def markContested_def get by (simp add: and_then_ok)
  then have "st_claims demo_contested = ins_replace cl_id (claim_columns ?b) (ins_replace cl_id (claim_columns ?a) (st_claims demo_pair))"
    using insertClaim_run(2,3) [OF demo_runs(2), of ?a "1 / 2"] insertClaim_run(3) [OF run_insert [OF demo_runs(2)], of ?b "1 / 2" ?a]
    by (simp add: demo_pair_simps)
  then show ?thesis by (simp add: getClaim_def sql)
qed

theorem reopen_status_exact_witness:
  "\<exists>dir st'. st_log demo_contested = Some dir \<and> setDataDir demo_env dir demo_contested = (Inr (), st')
     \<and> map_option (\<lambda>c. (cl_status c, cl_contested_by c)) (getClaim ''claim_a'' demo_contested) = Some (StContested, [''claim_b''])
     \<and> map_option (\<lambda>c. (cl_status c, cl_contested_by c)) (getClaim ''claim_a'' st') = Some (StActive, [''claim_b''])"
proof -
  obtain dir where dir: "st_log demo_contested = Some dir"
    using store_run_ok [OF demo_runs(3)] by (auto simp: store_ok_def)
  obtain r st' where run: "setDataDir demo_env dir demo_contested = (r, st')" by (cases "setDataDir demo_env dir demo_contested")
  obtain c where c: "getClaim ''claim_a'' demo_contested = Some c" "cl_status c = StContested" "cl_contested_by c = [''claim_b'']"
    using demo_contested_claim by auto
  from reopen_status_exact [OF demo_runs(3) dir run] c obtain c' where "r = Inr ()" "getClaim ''claim_a'' st' = Some c'"
    "cl_status c' = StActive" "cl_contested_by c' = [''claim_b'']"
    by fastforce
  with dir run demo_contested_claim show ?thesis by auto
qed

definition demo_records :: "claim_version list" where
  "demo_records = [demo_version ''claim_a'' 2 ''client:acme'', demo_version ''claim_n'' 1 ''client:acme'']"

lemma batch_sync_equals_serial_example:
  "syncFromJsonlVersionsBatch demo_env demo_records {''claim_n''} (\<lambda>i. None) demo_pair
     = fold (\<lambda>v s. syncFromJsonlVersion demo_env v None False s) demo_records demo_pair
   \<and> cl_id ` set (st_claims (syncFromJsonlVersionsBatch demo_env demo_records {''claim_n''} (\<lambda>i. None) demo_pair))
     = {''claim_a'', ''claim_b'', ''claim_n''}"
proof -
  have inj: "inj (ec_ulid (sv_clock demo_env))"
    by (rule injI) (metis demo_env_def entity_clock.select_convs(1) length_replicate store_env.select_convs(3))
  have "''entity_'' @ replicate n (CHR ''u'') \<noteq> ''entity_acme''" for n by (cases n) simp_all
  then have "unminted (sv_clock demo_env) (st_ents demo_pair)" by (simp add: unminted_def demo_pair_simps demo_env_def)
  moreover have dist: "distinct (map cv_claim_id demo_records)" by code_simp
  moreover have "\<forall>i \<in> {''claim_n''}. i \<notin> cl_id ` set (st_claims demo_pair) \<and> i \<notin> rl_source ` set (st_relations demo_pair)"
    by (simp add: demo_pair_simps)
  moreover have "\<forall>v \<in> set demo_records. bar_free (cv_scope v) \<and> types_bar_free v ((\<lambda>i. None) (cv_claim_id v))" by code_simp
  moreover have "\<forall>e \<in> set (es_entities (st_ents demo_pair)). bar_free (en_type e)" unfolding demo_pair_simps demo_base_simps by code_simp
  ultimately have eq: "syncFromJsonlVersionsBatch demo_env demo_records {''claim_n''} (\<lambda>i. None) demo_pair
     = fold (\<lambda>v s. syncFromJsonlVersion demo_env v None False s) demo_records demo_pair"
    using batch_sync_equals_serial [of demo_records "{''claim_n''}" demo_pair demo_env "\<lambda>i. None"] inj by simp
  have "cv_claim_id ` set demo_records = {''claim_a'', ''claim_n''}" by (simp add: demo_records_def demo_version_def)
  then show ?thesis unfolding eq using sync_fold [OF dist, of demo_env demo_pair] by (auto simp: demo_pair_simps)
qed

end
