(* ===== verification/Fingerprints.thy ===== *)
theory Fingerprints
  imports Claim_Store
begin

text \<open>
  The derived index of claim fingerprints (\<^verbatim>\<open>compile_queue/fingerprint.ts\<close>): the latest version of every claim, found by
  claim id or by fingerprint, kept up to date from the month files of the claim log, with the overlay of a batch. A row is the version
  record it stores verbatim, whose fields are its other columns. The byte length of a line is the parameter \<open>bytes\<close>.
  A line whose record lacks the owner or the fingerprint, as older lines do, is refused: here nothing fills them in.
\<close>

section \<open>State\<close>

record fp_batch =
  fb_pending :: "(string \<times> claim_version) list"
  fb_snapshot :: "(string \<times> claim_version list) list"

record fingerprint_index =
  fi_rows :: "claim_version list"
  fi_sync :: "(string \<times> nat \<times> nat) list"
  fi_batch :: "fp_batch option"


definition fp_of :: "claim_version \<Rightarrow> string" where
  "fp_of v = (case cv_fingerprint v of Some f \<Rightarrow> f | None \<Rightarrow> [])"

definition active_or_none :: "claim_version \<Rightarrow> claim_version option" where
  "active_or_none v = (if cv_state v = CsActive then Some v else None)"

section \<open>Writing\<close>

text \<open>\<^verbatim>\<open>INSERT .. ON CONFLICT(claim_id) DO UPDATE .. WHERE excluded.version > claim_state.version\<close>\<close>

definition upsert_row :: "claim_version \<Rightarrow> claim_version list \<Rightarrow> claim_version list" where
  "upsert_row v rows =
     (if lookup_by cv_claim_id (cv_claim_id v) rows = None then rows @ [v]
      else upd_where (\<lambda>r. cv_claim_id r = cv_claim_id v \<and> cv_version r < cv_version v) (\<lambda>_. v) rows)"

definition upsertVersion :: "claim_version \<Rightarrow> fingerprint_index \<Rightarrow> fingerprint_index" where
  "upsertVersion v idx =
     (case fi_batch idx of
        Some b \<Rightarrow> idx\<lparr>fi_batch := Some (b\<lparr>fb_pending := js_map_set (fp_of v) v (fb_pending b)\<rparr>)\<rparr>
      | None \<Rightarrow> idx\<lparr>fi_rows := upsert_row v (fi_rows idx)\<rparr>)"

definition fp_order :: "claim_version \<Rightarrow> int \<times> string" where
  "fp_order v = (- cv_version v, cv_claim_id v)"

definition loadSnapshot :: "claim_version list \<Rightarrow> (string \<times> claim_version list) list" where
  "loadSnapshot rows =
     fold (\<lambda>r snap. js_map_set (fp_of r) ((case map_of snap (fp_of r) of Some l \<Rightarrow> l | None \<Rightarrow> []) @ [r]) snap) (sort_key fp_order rows) []"

definition beginBatch :: "fingerprint_index \<Rightarrow> fingerprint_index" where
  "beginBatch idx =
     (case fi_batch idx of
        Some _ \<Rightarrow> idx
      | None \<Rightarrow> idx\<lparr>fi_batch := Some \<lparr>fb_pending = [], fb_snapshot = loadSnapshot (fi_rows idx)\<rparr>\<rparr>)"

definition flushBatch :: "fingerprint_index \<Rightarrow> fingerprint_index" where
  "flushBatch idx =
     (case fi_batch idx of
        None \<Rightarrow> idx
      | Some b \<Rightarrow> fold (\<lambda>(f, v). upsertVersion v) (fb_pending b) (idx\<lparr>fi_batch := None\<rparr>))"

definition discardBatch :: "fingerprint_index \<Rightarrow> fingerprint_index" where
  "discardBatch idx = idx\<lparr>fi_batch := None\<rparr>"

definition removeByClaimIds :: "string list \<Rightarrow> fingerprint_index \<Rightarrow> nat \<times> fingerprint_index" where
  "removeByClaimIds ids idx =
     (length (filter (\<lambda>r. cv_claim_id r \<in> set ids) (fi_rows idx)),
      idx\<lparr>fi_rows := del_where (\<lambda>r. cv_claim_id r \<in> set ids) (fi_rows idx),
          fi_batch := map_option (\<lambda>b.
            \<lparr>fb_pending = filter (\<lambda>(f, v). cv_claim_id v \<notin> set ids) (fb_pending b),
             fb_snapshot = filter (\<lambda>(f, l). l \<noteq> [])
               (map (\<lambda>(f, l). (f, filter (\<lambda>v. cv_claim_id v \<notin> set ids) l)) (fb_snapshot b))\<rparr>) (fi_batch idx)\<rparr>)"

section \<open>Reading\<close>

definition first_active :: "claim_version list \<Rightarrow> claim_version option" where
  "first_active rows = List.find (\<lambda>r. cv_state r = CsActive) rows"

definition activeByFingerprint :: "string \<Rightarrow> fingerprint_index \<Rightarrow> claim_version option" where
  "activeByFingerprint fp idx =
     (case fi_batch idx of
        Some b \<Rightarrow>
          (case map_of (fb_pending b) fp of
             Some v \<Rightarrow> active_or_none v
           | None \<Rightarrow> (case map_of (fb_snapshot b) fp of Some l \<Rightarrow> first_active l | None \<Rightarrow> None))
      | None \<Rightarrow> first_active (sort_key fp_order (filter (\<lambda>r. fp_of r = fp) (fi_rows idx))))"


definition fp_count :: "fingerprint_index \<Rightarrow> nat" where
  "fp_count idx = length (fi_rows idx)"

section \<open>Following the claim log\<close>

type_synonym claim_line = "claim_version jsonl_line"

definition malformed_line :: "claim_line \<Rightarrow> bool" where
  "malformed_line l = (case l of Unparsable _ \<Rightarrow> True | Line v \<Rightarrow> cv_fingerprint v = None)"

fun index_lines :: "claim_line list \<Rightarrow> fingerprint_index \<Rightarrow> fingerprint_index outcome" where
  "index_lines [] idx = Inr idx"
| "index_lines (l # ls) idx =
     (if malformed_line l then Inl (JsError ''Malformed L1 JSONL'')
      else if cv_epistemic_owner (line_entry l) = None then Inl (JsError ''NOT NULL constraint failed: claim_state.epistemic_owner'')
      else index_lines ls (upsertVersion (line_entry l) idx))"

definition indexMonth :: "(claim_line \<Rightarrow> nat) \<Rightarrow> bool \<Rightarrow> string \<Rightarrow> claim_line list \<Rightarrow> fingerprint_index \<Rightarrow> unit outcome \<times> fingerprint_index" where
  "indexMonth bytes force month ls idx =
     (let size = sum_list (map bytes ls) in
      if \<not> force \<and> (case map_of (fi_sync idx) month of Some (n, sz) \<Rightarrow> sz = size | None \<Rightarrow> False) then (Inr (), idx)
      else case index_lines ls idx of
        Inl x \<Rightarrow> (Inl x, idx)
      | Inr idx' \<Rightarrow> (Inr (), idx'\<lparr>fi_sync := js_map_set month (length ls, size) (fi_sync idx')\<rparr>))"

fun index_months :: "(claim_line \<Rightarrow> nat) \<Rightarrow> bool \<Rightarrow> claims_dir \<Rightarrow> fingerprint_index \<Rightarrow> unit outcome \<times> fingerprint_index" where
  "index_months bytes force [] idx = (Inr (), idx)"
| "index_months bytes force ((month, ls) # rest) idx =
     (case indexMonth bytes force month ls idx of
        (Inl x, idx') \<Rightarrow> (Inl x, idx')
      | (Inr _, idx') \<Rightarrow> index_months bytes force rest idx')"

text \<open>A month file that is gone takes with it the rows whose latest version it held.\<close>

definition purge_months :: "string set \<Rightarrow> fingerprint_index \<Rightarrow> fingerprint_index" where
  "purge_months seen idx =
     fold (\<lambda>month idx. if month \<in> seen then idx
             else idx\<lparr>fi_rows := del_where (\<lambda>r. starts_with (cv_version_at r) (month @ ''-'')) (fi_rows idx),
                      fi_sync := filter (\<lambda>(m, _). m \<noteq> month) (fi_sync idx)\<rparr>)
       (map fst (fi_sync idx)) idx"

definition fp_catchUp :: "(claim_line \<Rightarrow> nat) \<Rightarrow> bool \<Rightarrow> claims_dir \<Rightarrow> fingerprint_index \<Rightarrow> unit outcome \<times> fingerprint_index" where
  "fp_catchUp bytes force dir idx =
     (case index_months bytes force dir idx of
        (Inl x, idx') \<Rightarrow> (Inl x, idx')
      | (Inr _, idx') \<Rightarrow> (Inr (), purge_months (set (map fst dir)) idx'))"

definition fp_rebuild :: "(claim_line \<Rightarrow> nat) \<Rightarrow> claims_dir \<Rightarrow> fingerprint_index \<Rightarrow> unit outcome \<times> fingerprint_index" where
  "fp_rebuild bytes dir idx = fp_catchUp bytes True dir (idx\<lparr>fi_rows := [], fi_sync := []\<rparr>)"


section \<open>Lemmas\<close>

text \<open>
  A table in which the greatest version of every claim stays: what \<open>put\<close> leaves under a claim id. Whatever the order the
  versions are put in, the table then holds the greatest version of every claim among them. The rows of the index are such a
  table, and so is the map a reopened claim store keeps.
\<close>

definition holds_latest :: "(string \<Rightarrow> claim_version option) \<Rightarrow> claim_version set \<Rightarrow> bool" where
  "holds_latest g V = (\<forall>i. case g i of
      None \<Rightarrow> \<forall>v \<in> V. cv_claim_id v \<noteq> i
    | Some l \<Rightarrow> l \<in> V \<and> cv_claim_id l = i \<and> (\<forall>v \<in> V. cv_claim_id v = i \<longrightarrow> cv_version v \<le> cv_version l))"

definition newer :: "claim_version \<Rightarrow> claim_version option \<Rightarrow> claim_version" where
  "newer v old = (case old of None \<Rightarrow> v | Some l \<Rightarrow> if cv_version l < cv_version v then v else l)"

locale latest_table =
  fixes get :: "'t \<Rightarrow> string \<Rightarrow> claim_version option" and put :: "claim_version \<Rightarrow> 't \<Rightarrow> 't"
  assumes get_put: "get (put v t) i = (if i = cv_claim_id v then Some (newer v (get t i)) else get t i)"
begin

lemma holds_put:
  assumes "holds_latest (get t) V"
  shows "holds_latest (get (put v t)) (insert v V)"
  unfolding holds_latest_def
proof
  fix i
  show "case get (put v t) i of None \<Rightarrow> \<forall>u \<in> insert v V. cv_claim_id u \<noteq> i
      | Some l \<Rightarrow> l \<in> insert v V \<and> cv_claim_id l = i \<and> (\<forall>u \<in> insert v V. cv_claim_id u = i \<longrightarrow> cv_version u \<le> cv_version l)"
    using assms [unfolded holds_latest_def, rule_format, of i]
    by (cases "get t i") (auto simp: get_put newer_def intro: order_trans)
qed

lemma holds_fold: "holds_latest (get t) V \<Longrightarrow> holds_latest (get (fold put vs t)) (V \<union> set vs)"
proof (induction vs arbitrary: t V)
  case (Cons v vs)
  from Cons.IH [OF holds_put [OF Cons.prems]] show ?case by (simp add: insert_commute)
qed simp

end




definition keep_latest :: "claim_version \<Rightarrow> (string \<times> claim_version) list \<Rightarrow> (string \<times> claim_version) list" where
  "keep_latest v m = (case map_of m (cv_claim_id v) of
      None \<Rightarrow> js_map_set (cv_claim_id v) v m
    | Some l \<Rightarrow> if cv_version l < cv_version v then js_map_set (cv_claim_id v) v m else m)"

interpretation reopened: latest_table map_of keep_latest
  by unfold_locales (auto simp: keep_latest_def newer_def split: option.split)

lemma latest_by_claim_eq: "latest_by_claim vs = fold keep_latest vs []"
  unfolding latest_by_claim_def by (rule arg_cong2 [where f = "\<lambda>f xs. fold f vs xs"]) (auto simp: keep_latest_def fun_eq_iff)

subsection \<open>The months\<close>






















end
