(* ===== verification/Fence.thy ===== *)
theory Fence
  imports SW_Prelude
begin

text \<open>
  The fencing epoch store (\<^verbatim>\<open>storage/fence.ts\<close>): one row with the highest ownership epoch the brain
  has seen, and one authorization row per committed operation. \<open>claim\<close>, \<open>guard\<close>, \<open>guardCommit\<close> and
  \<open>authorizeAtEpoch\<close> are its operations; a refusal is recorded in the row and returned as an error, so
  an operation returns its outcome together with the new store. \<^verbatim>\<open>new Date().toISOString()\<close> is the
  argument \<open>now\<close>. The row exists from \<open>open_store\<close> on and no statement deletes it. The SQLite
  transactions are atomic steps; \<open>guard\<close> is not one transaction, so the statements of other
  processes that may run between its own are the arguments \<open>env1\<close> and \<open>env2\<close>.
  The second half is the protocol the store serves: processes that claim an epoch, prepare intents,
  commit, and recover, in any interleaving.
\<close>

section \<open>The store\<close>

record commit_stamp =
  st_epoch :: int
  st_writer_id :: string

record commit_authorization =
  ca_operation_id :: string
  ca_epoch :: int
  ca_writer_id :: string
  ca_authorized_at :: string

record fence_refusal =
  rf_op :: string
  rf_token :: "int option"
  rf_high_water :: int
  rf_at :: string

record fence_store_state =
  fss_high_water :: int
  fss_updated_at :: string
  fss_refusals :: nat
  fss_last_refusal :: "fence_refusal option"

record fence_row =
  high_water :: int
  fw_updated_at :: string
  refusals :: nat
  last_refusal_at :: "string option"
  last_refusal_op :: "string option"
  last_refusal_token :: "int option"
  last_refusal_high_water :: "int option"

record fence_store =
  writer_fence :: fence_row
  writer_fence_commits :: "commit_authorization list"

abbreviation hw :: "fence_store \<Rightarrow> int" where
  "hw s \<equiv> high_water (writer_fence s)"

definition assertToken :: "js_number \<Rightarrow> string \<Rightarrow> int outcome" where
  "assertToken token op =
     (if \<not> isSafeInteger token then
        Inl (ProtocolError ''invalid_parameter'' (FenceDetails op (Some token) None))
      else case token of
        JInt n \<Rightarrow>
          if n < 1 then Inl (ProtocolError ''invalid_parameter'' (FenceDetails op (Some token) None))
          else Inr n
      | JOther \<Rightarrow> Inl (ProtocolError ''invalid_parameter'' (FenceDetails op (Some token) None)))"

definition staleError :: "string \<Rightarrow> int \<Rightarrow> int \<Rightarrow> protocol_error" where
  "staleError op token highWater =
     ProtocolError ''fencing_token_stale'' (FenceDetails op (Some (JInt token)) (Some highWater))"

definition missingError :: "string \<Rightarrow> int \<Rightarrow> protocol_error" where
  "missingError op highWater =
     ProtocolError ''fencing_token_missing'' (FenceDetails op None (Some highWater))"

text \<open>\<open>open_store\<close> is the constructor: \<^verbatim>\<open>INSERT OR IGNORE\<close> of the one row into what the file holds.\<close>

definition open_store :: "fence_row option \<Rightarrow> commit_authorization list \<Rightarrow> string \<Rightarrow> fence_store" where
  "open_store row commits now =
     \<lparr>writer_fence =
        (case row of Some r \<Rightarrow> r
         | None \<Rightarrow> \<lparr>high_water = 0, fw_updated_at = now, refusals = 0, last_refusal_at = None,
                    last_refusal_op = None, last_refusal_token = None,
                    last_refusal_high_water = None\<rparr>),
      writer_fence_commits = commits\<rparr>"

definition fence_state :: "fence_store \<Rightarrow> fence_store_state" where
  "fence_state s =
     (let row = writer_fence s in
      \<lparr>fss_high_water = high_water row, fss_updated_at = fw_updated_at row,
       fss_refusals = refusals row,
       fss_last_refusal =
         (case last_refusal_at row of None \<Rightarrow> None
          | Some at \<Rightarrow> Some \<lparr>rf_op = (case last_refusal_op row of Some x \<Rightarrow> x | None \<Rightarrow> ''(unknown)''),
                             rf_token = last_refusal_token row,
                             rf_high_water = (case last_refusal_high_water row of
                                                Some h \<Rightarrow> h | None \<Rightarrow> high_water row),
                             rf_at = at\<rparr>)\<rparr>)"

definition recordRefusal :: "string \<Rightarrow> int option \<Rightarrow> int \<Rightarrow> string \<Rightarrow> fence_store \<Rightarrow> fence_store" where
  "recordRefusal op token highWater now s =
     s\<lparr>writer_fence := (writer_fence s)
         \<lparr>refusals := refusals (writer_fence s) + 1, last_refusal_at := Some now,
          last_refusal_op := Some op, last_refusal_token := token,
          last_refusal_high_water := Some highWater\<rparr>\<rparr>"

definition set_high_water :: "int \<Rightarrow> string \<Rightarrow> fence_store \<Rightarrow> fence_store" where
  "set_high_water token now s =
     s\<lparr>writer_fence := (writer_fence s)\<lparr>high_water := token, fw_updated_at := now\<rparr>\<rparr>"

text \<open>\<^verbatim>\<open>UPDATE writer_fence SET high_water = ? WHERE id = 1 AND high_water < ?\<close>\<close>

definition advance_high_water :: "int \<Rightarrow> string \<Rightarrow> fence_store \<Rightarrow> fence_store" where
  "advance_high_water token now s = (if hw s < token then set_high_water token now s else s)"

definition claim :: "js_number \<Rightarrow> string \<Rightarrow> string \<Rightarrow> fence_store \<Rightarrow> fence_store_state outcome \<times> fence_store" where
  "claim token op now s =
     (case assertToken token op of
        Inl e \<Rightarrow> (Inl e, s)
      | Inr t \<Rightarrow>
          if t < hw s then (Inl (staleError op t (hw s)), recordRefusal op (Some t) (hw s) now s)
          else (let s' = set_high_water t now s in (Inr (fence_state s'), s')))"

definition guard ::
  "(fence_store \<Rightarrow> fence_store) \<Rightarrow> (fence_store \<Rightarrow> fence_store) \<Rightarrow> js_number option \<Rightarrow> string \<Rightarrow> string
     \<Rightarrow> fence_store \<Rightarrow> unit outcome \<times> fence_store" where
  "guard env1 env2 token op now s =
     (case token of
        None \<Rightarrow>
          if hw s = 0 then (Inr (), s)
          else (Inl (missingError op (hw s)), recordRefusal op None (hw s) now s)
      | Some v \<Rightarrow>
          (case assertToken v op of
             Inl e \<Rightarrow> (Inl e, s)
           | Inr t \<Rightarrow>
               if t < hw s then (Inl (staleError op t (hw s)), recordRefusal op (Some t) (hw s) now s)
               else if hw s < t then
                 (let s2 = env2 (advance_high_water t now (env1 s)) in
                  if t < hw s2 then (Inl (staleError op t (hw s2)), recordRefusal op (Some t) (hw s2) now s2)
                  else (Inr (), s2))
               else (Inr (), s)))"

definition highWater :: "fence_store \<Rightarrow> int" where
  "highWater s = hw s"

definition authorization :: "string \<Rightarrow> fence_store \<Rightarrow> commit_authorization option" where
  "authorization operationId s = lookup_by ca_operation_id operationId (writer_fence_commits s)"

definition insert_authorizations :: "string list \<Rightarrow> int \<Rightarrow> string \<Rightarrow> string \<Rightarrow> fence_store \<Rightarrow> fence_store" where
  "insert_authorizations operationIds epoch writerId now s =
     s\<lparr>writer_fence_commits :=
         fold (\<lambda>oid rows. ins_ignore ca_operation_id
                 \<lparr>ca_operation_id = oid, ca_epoch = epoch, ca_writer_id = writerId,
                  ca_authorized_at = now\<rparr> rows)
           operationIds (writer_fence_commits s)\<rparr>"

definition guardCommit ::
  "string list \<Rightarrow> (js_number \<times> string) option \<Rightarrow> string \<Rightarrow> string \<Rightarrow> fence_store
     \<Rightarrow> unit outcome \<times> fence_store" where
  "guardCommit operationIds stamp op now s =
     (case stamp of
        None \<Rightarrow>
          if hw s = 0 then (Inr (), s)
          else (Inl (missingError op (hw s)), recordRefusal op None (hw s) now s)
      | Some (epoch, writer) \<Rightarrow>
          (case assertToken epoch op of
             Inl e \<Rightarrow> (Inl e, s)
           | Inr t \<Rightarrow>
               if t < hw s then (Inl (staleError op t (hw s)), recordRefusal op (Some t) (hw s) now s)
               else
                 (let s1 = (if hw s < t then advance_high_water t now s else s) in
                  if t < hw s1 then (Inl (staleError op t (hw s1)), recordRefusal op (Some t) (hw s1) now s1)
                  else (Inr (), insert_authorizations operationIds t writer now s1))))"

definition authorizeAtEpoch :: "string list \<Rightarrow> js_number \<Rightarrow> string \<Rightarrow> string \<Rightarrow> fence_store \<Rightarrow> bool \<times> fence_store" where
  "authorizeAtEpoch operationIds epoch writerId now s =
     (case epoch of
        JOther \<Rightarrow> (False, s)
      | JInt t \<Rightarrow>
          if \<not> isSafeInteger epoch \<or> t < 1 then (False, s)
          else if t < hw s then (False, s)
          else (True, insert_authorizations operationIds t writerId now s))"

section \<open>What the statements do to the mark and to the authorizations\<close>

lemma assertToken_iff [simp]:
  "assertToken v op = Inr n \<longleftrightarrow> v = JInt n \<and> 1 \<le> n \<and> n \<le> max_safe_integer"
  by (cases v) (auto simp: assertToken_def isSafeInteger_def)

lemma assertToken_ok [simp]:
  "1 \<le> n \<Longrightarrow> n \<le> max_safe_integer \<Longrightarrow> assertToken (JInt n) op = Inr n"
  by simp

lemma assertToken_InlD:
  "assertToken v op = Inl e \<Longrightarrow> e = ProtocolError ''invalid_parameter'' (FenceDetails op (Some v) None)"
  by (cases v) (auto simp: assertToken_def split: if_splits)

lemma recordRefusal_simps [simp]:
  "hw (recordRefusal op t h now s) = hw s"
  "writer_fence_commits (recordRefusal op t h now s) = writer_fence_commits s"
  "refusals (writer_fence (recordRefusal op t h now s)) = Suc (refusals (writer_fence s))"
  by (simp_all add: recordRefusal_def)

lemma set_high_water_simps [simp]:
  "hw (set_high_water t now s) = t"
  "writer_fence_commits (set_high_water t now s) = writer_fence_commits s"
  "refusals (writer_fence (set_high_water t now s)) = refusals (writer_fence s)"
  by (simp_all add: set_high_water_def)

lemma advance_high_water_simps [simp]:
  "hw (advance_high_water t now s) = max t (hw s)"
  "writer_fence_commits (advance_high_water t now s) = writer_fence_commits s"
  "refusals (writer_fence (advance_high_water t now s)) = refusals (writer_fence s)"
  by (simp_all add: advance_high_water_def)

lemma insert_authorizations_simps [simp]:
  "writer_fence (insert_authorizations oids e w now s) = writer_fence s"
  by (simp add: insert_authorizations_def)

abbreviation auth_epoch :: "fence_store \<Rightarrow> string \<Rightarrow> int option" where
  "auth_epoch s oid \<equiv> map_option ca_epoch (authorization oid s)"

lemma authorization_frame [simp]:
  "authorization oid (recordRefusal op t h now s) = authorization oid s"
  "authorization oid (set_high_water n now s) = authorization oid s"
  "authorization oid (advance_high_water n now s) = authorization oid s"
  by (simp_all add: authorization_def)

lemma authorization_insert:
  "authorization oid (insert_authorizations oids e w now s) =
     (case authorization oid s of
        Some a \<Rightarrow> Some a
      | None \<Rightarrow> if oid \<in> set oids then
          Some \<lparr>ca_operation_id = oid, ca_epoch = e, ca_writer_id = w, ca_authorized_at = now\<rparr>
        else None)"
proof (induction oids arbitrary: s)
  case Nil
  then show ?case by (simp add: insert_authorizations_def split: option.split)
next
  case (Cons x oids)
  let ?row = "\<lparr>ca_operation_id = x, ca_epoch = e, ca_writer_id = w, ca_authorized_at = now\<rparr>"
  let ?s = "s\<lparr>writer_fence_commits := ins_ignore ca_operation_id ?row (writer_fence_commits s)\<rparr>"
  have "insert_authorizations (x # oids) e w now s = insert_authorizations oids e w now ?s"
    by (simp add: insert_authorizations_def)
  moreover have "authorization oid ?s = (if oid = x then
      Some (case authorization oid s of Some a \<Rightarrow> a | None \<Rightarrow> ?row) else authorization oid s)"
    by (simp add: authorization_def lookup_ins_ignore)
  ultimately show ?case using Cons.IH [of ?s] by (auto split: option.splits if_splits)
qed

text \<open>The commit decision, case by case: who passes the gate, and what it leaves behind.\<close>

lemma guardCommit_None:
  "guardCommit oids None op now s =
     (if hw s = 0 then (Inr (), s)
      else (Inl (missingError op (hw s)), recordRefusal op None (hw s) now s))"
  by (simp add: guardCommit_def)

lemma guardCommit_stale:
  "1 \<le> t \<Longrightarrow> t \<le> max_safe_integer \<Longrightarrow> t < hw s \<Longrightarrow>
   guardCommit oids (Some (JInt t, w)) op now s =
     (Inl (staleError op t (hw s)), recordRefusal op (Some t) (hw s) now s)"
  by (simp add: guardCommit_def)

lemma guardCommit_current:
  "1 \<le> t \<Longrightarrow> t \<le> max_safe_integer \<Longrightarrow> hw s \<le> t \<Longrightarrow>
   guardCommit oids (Some (JInt t, w)) op now s =
     (Inr (), insert_authorizations oids t w now (advance_high_water t now s))"
  by (simp add: guardCommit_def Let_def advance_high_water_def)

lemma guardCommit_cases:
  obtains (legacy) "stamp = None" "hw s = 0" "guardCommit oids stamp op now s = (Inr (), s)"
  | (missing) "stamp = None" "hw s \<noteq> 0"
      "guardCommit oids stamp op now s = (Inl (missingError op (hw s)), recordRefusal op None (hw s) now s)"
  | (invalid) v w e where "stamp = Some (v, w)" "guardCommit oids stamp op now s = (Inl e, s)"
  | (stale) t w where "stamp = Some (JInt t, w)" "t < hw s"
      "guardCommit oids stamp op now s = (Inl (staleError op t (hw s)), recordRefusal op (Some t) (hw s) now s)"
  | (current) t w where "stamp = Some (JInt t, w)" "1 \<le> t" "t \<le> max_safe_integer" "hw s \<le> t"
      "guardCommit oids stamp op now s =
         (Inr (), insert_authorizations oids t w now (advance_high_water t now s))"
proof (cases stamp)
  case None
  then show ?thesis using legacy missing by (cases "hw s = 0") (auto simp: guardCommit_None)
next
  case (Some p)
  obtain v w where p: "p = (v, w)" by (cases p)
  show ?thesis
  proof (cases "assertToken v op")
    case (Inl e)
    then show ?thesis using invalid Some p by (simp add: guardCommit_def)
  next
    case (Inr t)
    then show ?thesis
      using Some p stale [of t w] current [of t w] guardCommit_stale guardCommit_current
      by (cases "t < hw s") auto
  qed
qed

section \<open>The gate as an interface\<close>

text \<open>
  What both commit paths promise to their callers (\<^verbatim>\<open>CommitFence\<close> of \<^verbatim>\<open>ops_log/log.ts\<close> and
  \<^verbatim>\<open>RecoveryFence\<close> of \<^verbatim>\<open>ops_log/recovery.ts\<close>): a decision at epoch \<open>e\<close> for a set of operations.
\<close>

locale epoch_gate =
  fixes mark :: "'s \<Rightarrow> int" and auth :: "'s \<Rightarrow> string \<Rightarrow> int option"
    and decide :: "string list \<Rightarrow> int \<Rightarrow> 's \<Rightarrow> bool \<times> 's"
  assumes behind_refused: "e < mark s \<Longrightarrow> \<not> fst (decide oids e s)"
    and refusal_keeps: "\<not> fst (decide oids e s) \<Longrightarrow> auth (snd (decide oids e s)) = auth s"
    and accepted_all: "fst (decide oids e s) \<Longrightarrow> oid \<in> set oids \<Longrightarrow> auth (snd (decide oids e s)) oid \<noteq> None"
    and keeps: "auth s oid = Some a \<Longrightarrow> auth (snd (decide oids e s)) oid = Some a"
    and fresh_at: "auth s oid = None \<Longrightarrow> auth (snd (decide oids e s)) oid = Some a \<Longrightarrow> a = e \<and> oid \<in> set oids"
    and mark_grows: "mark s \<le> mark (snd (decide oids e s))"
begin

lemma fresh_not_behind:
  assumes "auth s oid = None" and "auth (snd (decide oids e s)) oid = Some a"
  shows "mark s \<le> a"
proof -
  have "a = e" using fresh_at [OF assms] by simp
  moreover have "fst (decide oids e s)"
    using refusal_keeps [of oids e s] assms by (metis option.distinct(1))
  ultimately show ?thesis using behind_refused [of e s oids] by force
qed

lemma run_mark_grows: "mark s \<le> mark (fold (\<lambda>(oids, e) s. snd (decide oids e s)) ds s)"
proof (induction ds arbitrary: s)
  case (Cons d ds)
  obtain oids e where d: "d = (oids, e)" by (cases d)
  have "mark s \<le> mark (snd (decide oids e s))" by (rule mark_grows)
  also have "\<dots> \<le> mark (fold (\<lambda>(oids, e) s. snd (decide oids e s)) ds (snd (decide oids e s)))"
    by (rule Cons.IH)
  finally show ?case by (simp add: d)
qed simp

text \<open>A handoff is final: after any later sequence of decisions, an operation is authorized only if
  it was before, or at an epoch that is not behind the mark.\<close>

lemma run_no_stale_commit:
  "auth (fold (\<lambda>(oids, e) s. snd (decide oids e s)) ds s) oid = Some a \<Longrightarrow>
   auth s oid = Some a \<or> mark s \<le> a"
proof (induction ds arbitrary: s)
  case (Cons d ds)
  obtain oids e where d: "d = (oids, e)" by (cases d)
  let ?s = "snd (decide oids e s)"
  from Cons d have "auth ?s oid = Some a \<or> mark ?s \<le> a" by simp
  then show ?case
  proof
    assume "auth ?s oid = Some a"
    then show ?thesis
      using keeps [of s oid _ oids e] fresh_not_behind [of s oid oids e a]
      by (cases "auth s oid") auto
  qed (use mark_grows [of s oids e] in auto)
qed simp

lemma run_keeps:
  "auth s oid = Some a \<Longrightarrow> auth (fold (\<lambda>(oids, e) s. snd (decide oids e s)) ds s) oid = Some a"
  by (induction ds arbitrary: s) (auto simp: keeps split: prod.splits)

end

definition writer_gate :: "string \<Rightarrow> string \<Rightarrow> string \<Rightarrow> string list \<Rightarrow> int \<Rightarrow> fence_store \<Rightarrow> bool \<times> fence_store" where
  "writer_gate w op now oids e s =
     (let (r, s') = guardCommit oids (Some (JInt e, w)) op now s in (is_ok r, s'))"

definition recovery_gate :: "string \<Rightarrow> string \<Rightarrow> string list \<Rightarrow> int \<Rightarrow> fence_store \<Rightarrow> bool \<times> fence_store" where
  "recovery_gate w now oids e s = authorizeAtEpoch oids (JInt e) w now s"

lemma writer_gate_current:
  "1 \<le> e \<Longrightarrow> e \<le> max_safe_integer \<Longrightarrow> hw s \<le> e \<Longrightarrow>
   writer_gate w op now oids e s =
     (True, insert_authorizations oids e w now (advance_high_water e now s))"
  by (simp add: writer_gate_def guardCommit_current)

lemma writer_gate_refused:
  assumes "\<not> (1 \<le> e \<and> e \<le> max_safe_integer \<and> hw s \<le> e)"
  shows "\<not> fst (writer_gate w op now oids e s)"
    and "auth_epoch (snd (writer_gate w op now oids e s)) = auth_epoch s"
    and "hw (snd (writer_gate w op now oids e s)) = hw s"
  using assms
  by (rule_tac guardCommit_cases [of "Some (JInt e, w)" s oids op now];
      simp add: writer_gate_def fun_eq_iff)+

lemma writer_gate_auth:
  "auth_epoch (snd (writer_gate w op now oids e s)) oid =
     (case auth_epoch s oid of Some a \<Rightarrow> Some a
      | None \<Rightarrow> if 1 \<le> e \<and> e \<le> max_safe_integer \<and> hw s \<le> e \<and> oid \<in> set oids then Some e else None)"
proof (cases "1 \<le> e \<and> e \<le> max_safe_integer \<and> hw s \<le> e")
  case True
  then show ?thesis by (auto simp: writer_gate_current authorization_insert split: option.split)
next
  case False
  have "auth_epoch (snd (writer_gate w op now oids e s)) oid = auth_epoch s oid"
    by (rule fun_cong [OF writer_gate_refused(2) [OF False]])
  with False show ?thesis by (auto split: option.split)
qed

lemma writer_gate_fst:
  "fst (writer_gate w op now oids e s) \<longleftrightarrow> 1 \<le> e \<and> e \<le> max_safe_integer \<and> hw s \<le> e"
  using writer_gate_current writer_gate_refused(1) by fastforce

interpretation wg: epoch_gate hw auth_epoch "writer_gate w op now"
proof (unfold_locales, goal_cases)
  case (1 e s oids)
  then show ?case by (simp add: writer_gate_fst)
next
  case (2 oids e s)
  then show ?case by (simp only: writer_gate_fst writer_gate_refused(2) simp_thms)
next
  case (3 oids e s oid)
  then show ?case unfolding writer_gate_fst writer_gate_auth by (simp split: option.split)
next
  case (4 s oid a oids e)
  then show ?case unfolding writer_gate_auth by (simp only: option.case)
next
  case (5 s oid oids e a)
  then show ?case unfolding writer_gate_auth by (simp split: if_splits)
next
  case (6 s oids e)
  then show ?case
    using writer_gate_refused(3) [of e s w op now oids]
    by (cases "1 \<le> e \<and> e \<le> max_safe_integer \<and> hw s \<le> e") (auto simp: writer_gate_current)
qed

lemma recovery_gate_eq:
  "recovery_gate w now oids e s =
     (if 1 \<le> e \<and> e \<le> max_safe_integer \<and> hw s \<le> e
      then (True, insert_authorizations oids e w now s) else (False, s))"
  by (auto simp: recovery_gate_def authorizeAtEpoch_def isSafeInteger_def)

lemma recovery_gate_auth:
  "auth_epoch (snd (recovery_gate w now oids e s)) oid =
     (case auth_epoch s oid of Some a \<Rightarrow> Some a
      | None \<Rightarrow> if 1 \<le> e \<and> e \<le> max_safe_integer \<and> hw s \<le> e \<and> oid \<in> set oids then Some e else None)"
  by (auto simp: recovery_gate_eq authorization_insert split: option.split)

interpretation rg: epoch_gate hw auth_epoch "recovery_gate w now"
proof (unfold_locales, goal_cases)
  case (2 oids e s)
  then show ?case by (auto simp: recovery_gate_eq split: if_splits)
next
  case (3 oids e s oid)
  then show ?case unfolding recovery_gate_auth
    by (simp add: recovery_gate_eq split: if_splits option.split)
next
  case (4 s oid a oids e)
  then show ?case unfolding recovery_gate_auth by (simp only: option.case)
next
  case (5 s oid oids e a)
  then show ?case unfolding recovery_gate_auth by (simp split: if_splits)
qed (simp_all add: recovery_gate_eq)

section \<open>The ownership protocol\<close>

text \<open>
  Processes share the store. \<open>tokens p\<close> is \<^verbatim>\<open>this.fenceToken\<close> of process p (\<^verbatim>\<open>core.ts\<close>), \<open>prepared\<close>
  the intents on disk with the stamp they carry. A process adopts a token only through \<open>claim\<close>
  (\<^verbatim>\<open>adoptFenceToken\<close>), prepares after \<open>guard\<close> (\<^verbatim>\<open>fenceGuard\<close>), commits through \<open>guardCommit\<close> with its
  own stamp (\<^verbatim>\<open>mutationFence\<close>), and any process may recover what another one prepared. A process
  may stop between any two steps and resume later, so every interleaving is a run.
\<close>

record fence_sys =
  fsys :: fence_store
  tokens :: "string \<Rightarrow> int option"
  prepared :: "(string \<times> commit_stamp) list"

definition fence_init :: "string \<Rightarrow> fence_sys" where
  "fence_init now = \<lparr>fsys = open_store None [] now, tokens = (\<lambda>_. None), prepared = []\<rparr>"

inductive fence_step :: "fence_sys \<Rightarrow> fence_sys \<Rightarrow> bool" where
  adopt: "claim (JInt t) op now (fsys s) = (Inr st, f') \<Longrightarrow>
    fence_step s (s\<lparr>fsys := f', tokens := (tokens s)(p := Some t)\<rparr>)"
| adopt_refused: "claim v op now (fsys s) = (Inl e, f') \<Longrightarrow> fence_step s (s\<lparr>fsys := f'\<rparr>)"
| prepare: "tokens s p = Some t \<Longrightarrow> guard id id (Some (JInt t)) op now (fsys s) = (Inr (), f') \<Longrightarrow>
    fence_step s (s\<lparr>fsys := f',
                   prepared := (oid, \<lparr>st_epoch = t, st_writer_id = w\<rparr>) # prepared s\<rparr>)"
| mutation_refused: "guard id id (map_option JInt (tokens s p)) op now (fsys s) = (Inl e, f') \<Longrightarrow>
    fence_step s (s\<lparr>fsys := f'\<rparr>)"
| commit: "guardCommit oids (map_option (\<lambda>t. (JInt t, w)) (tokens s p)) op now (fsys s) = (r, f') \<Longrightarrow>
    fence_step s (s\<lparr>fsys := f'\<rparr>)"
| recover: "(oid, st) \<in> set (prepared s) \<Longrightarrow>
    authorizeAtEpoch [oid] (JInt (st_epoch st)) (st_writer_id st) now (fsys s) = (b, f') \<Longrightarrow>
    fence_step s (s\<lparr>fsys := f'\<rparr>)"

inductive fence_reachable :: "fence_sys \<Rightarrow> bool" where
  start: "fence_reachable (fence_init now)"
| step: "fence_reachable s \<Longrightarrow> fence_step s t \<Longrightarrow> fence_reachable t"

text \<open>
  What every step keeps: no adopted token, no prepared stamp and no authorization is ahead of the
  mark, and the authorizations stand in the order of their epochs.
\<close>

definition commits_ordered :: "fence_store \<Rightarrow> bool" where
  "commits_ordered f \<longleftrightarrow> sorted (map ca_epoch (writer_fence_commits f))
     \<and> (\<forall>a \<in> set (writer_fence_commits f). ca_epoch a \<le> hw f)
     \<and> keys_unique ca_operation_id (writer_fence_commits f)"

definition fence_inv :: "fence_sys \<Rightarrow> bool" where
  "fence_inv s \<longleftrightarrow> commits_ordered (fsys s) \<and> (\<forall>p t. tokens s p = Some t \<longrightarrow> t \<le> hw (fsys s))
     \<and> (\<forall>(oid, st) \<in> set (prepared s). st_epoch st \<le> hw (fsys s))"

lemma commits_ordered_raise:
  "commits_ordered f \<Longrightarrow> hw f \<le> hw g \<Longrightarrow> writer_fence_commits g = writer_fence_commits f \<Longrightarrow> commits_ordered g"
  by (auto simp: commits_ordered_def)

lemma ins_ignore_sorted:
  "sorted (map ca_epoch rows) \<Longrightarrow> \<forall>a \<in> set rows. ca_epoch a \<le> ca_epoch r \<Longrightarrow>
   sorted (map ca_epoch (ins_ignore ca_operation_id r rows))"
  by (auto simp: ins_ignore_def sorted_append)

lemma commits_ordered_insert:
  assumes "commits_ordered f" and "hw f = e"
  shows "commits_ordered (insert_authorizations oids e w now f)"
  using assms
proof (induction oids arbitrary: f)
  case Nil
  then show ?case by (simp add: insert_authorizations_def)
next
  case (Cons x oids)
  let ?r = "\<lparr>ca_operation_id = x, ca_epoch = e, ca_writer_id = w, ca_authorized_at = now\<rparr>"
  let ?f = "f\<lparr>writer_fence_commits := ins_ignore ca_operation_id ?r (writer_fence_commits f)\<rparr>"
  have "commits_ordered ?f"
    using Cons.prems ins_ignore_sorted [of "writer_fence_commits f" ?r]
    by (auto simp: commits_ordered_def keyed) (auto simp: ins_ignore_def split: if_splits)
  then have "commits_ordered (insert_authorizations oids e w now ?f)"
    by (rule Cons.IH) (use Cons.prems in simp)
  then show ?case by (simp add: insert_authorizations_def)
qed

lemma guardCommit_ordered:
  assumes "commits_ordered f" and "guardCommit oids stamp op now f = (r, f')"
  shows "commits_ordered f' \<and> hw f \<le> hw f'"
  using assms
proof (cases rule: guardCommit_cases [of stamp f oids op now, case_names legacy missing invalid stale current])
  case (current t w)
  have "commits_ordered (advance_high_water t now f)"
    by (rule commits_ordered_raise [OF assms(1)]) simp_all
  then have "commits_ordered (insert_authorizations oids t w now (advance_high_water t now f))"
    by (rule commits_ordered_insert) (use current in simp)
  with current assms(2) show ?thesis by auto
qed (auto intro: commits_ordered_raise)

lemma guard_grows:
  assumes "\<And>s. hw s \<le> hw (env1 s)" and "\<And>s. hw s \<le> hw (env2 s)"
  shows "hw s \<le> hw (snd (guard env1 env2 tok op now s))"
proof (cases tok)
  case None
  then show ?thesis by (simp add: guard_def)
next
  case (Some v)
  have "hw s \<le> hw (env2 (advance_high_water t now (env1 s)))" for t
    using assms(1) [of s] assms(2) [of "advance_high_water t now (env1 s)"] by simp
  with Some show ?thesis by (simp add: guard_def Let_def split: sum.split)
qed

lemma guard_accepts:
  assumes "\<And>s. hw s \<le> hw (env2 s)"
    and "guard env1 env2 (Some v) op now s = (Inr (), s')"
  shows "\<exists>t. v = JInt t \<and> 1 \<le> t \<and> hw s \<le> t \<and> hw s' = t"
proof (cases "assertToken v op")
  case (Inl e)
  with assms(2) show ?thesis by (simp add: guard_def)
next
  case (Inr t)
  then have "hw (env2 (advance_high_water t now (env1 s))) \<ge> t"
    using assms(1) [of "advance_high_water t now (env1 s)"] by simp
  with Inr assms(2) show ?thesis by (auto simp: guard_def Let_def split: if_splits)
qed

lemma guard_commits:
  "writer_fence_commits (snd (guard id id tok op now s)) = writer_fence_commits s"
  by (simp add: guard_def Let_def split: option.split sum.split)

lemma claim_grows: "hw s \<le> hw (snd (claim v op now s))"
  by (simp add: claim_def Let_def split: sum.split)

lemma claim_commits: "writer_fence_commits (snd (claim v op now s)) = writer_fence_commits s"
  by (simp add: claim_def Let_def split: sum.split)

lemma fence_inv_raise:
  "fence_inv s \<Longrightarrow> commits_ordered f \<Longrightarrow> hw (fsys s) \<le> hw f \<Longrightarrow> fence_inv (s\<lparr>fsys := f\<rparr>)"
  unfolding fence_inv_def by (auto intro: order_trans split: prod.splits)

lemma fence_step_inv: "fence_step s t \<Longrightarrow> fence_inv s \<Longrightarrow> fence_inv t"
proof (induction rule: fence_step.induct)
  case (adopt t op now s st f' p)
  then have f': "f' = set_high_water t now (fsys s)" and le: "hw (fsys s) \<le> t"
    by (auto simp: claim_def Let_def split: sum.splits if_splits)
  have "commits_ordered f'"
    using adopt.prems by (auto simp: f' fence_inv_def le intro: commits_ordered_raise)
  then have "fence_inv (s\<lparr>fsys := f'\<rparr>)"
    by (rule fence_inv_raise [OF adopt.prems]) (simp add: f' le)
  then show ?case by (auto simp: fence_inv_def f')
next
  case (adopt_refused v op now s e f')
  have f': "f' = snd (claim v op now (fsys s))"
    using adopt_refused.hyps by simp
  have "hw (fsys s) \<le> hw f'"
    unfolding f' by (rule claim_grows)
  moreover from this have "commits_ordered f'"
    using adopt_refused.prems claim_commits [of v op now "fsys s"]
    by (auto simp: f' fence_inv_def intro: commits_ordered_raise)
  ultimately show ?case by (intro fence_inv_raise [OF adopt_refused.prems])
next
  case (prepare s p t op now f' oid w)
  then have grow: "hw (fsys s) \<le> hw f'" and at: "hw f' = t"
    using guard_grows [of id id "fsys s" "Some (JInt t)" op now] guard_accepts [of id id "JInt t" op now "fsys s" f']
    by auto
  have "commits_ordered f'"
    using prepare guard_commits [of "Some (JInt t)" op now "fsys s"] grow
    by (auto simp: fence_inv_def intro: commits_ordered_raise)
  then have "fence_inv (s\<lparr>fsys := f'\<rparr>)"
    by (rule fence_inv_raise [OF prepare.prems]) (rule grow)
  then show ?case by (auto simp: fence_inv_def at)
next
  case (mutation_refused s p op now e f')
  let ?tok = "map_option JInt (tokens s p)"
  have f': "f' = snd (guard id id ?tok op now (fsys s))"
    using mutation_refused.hyps by simp
  have "hw (fsys s) \<le> hw f'"
    unfolding f' by (rule guard_grows) simp_all
  moreover from this have "commits_ordered f'"
    using mutation_refused.prems guard_commits [of ?tok op now "fsys s"]
    by (auto simp: f' fence_inv_def intro: commits_ordered_raise)
  ultimately show ?case by (intro fence_inv_raise [OF mutation_refused.prems])
next
  case (commit oids w s p op now r f')
  have "commits_ordered (fsys s)" using commit.prems by (simp add: fence_inv_def)
  from guardCommit_ordered [OF this commit.hyps] have "commits_ordered f'" "hw (fsys s) \<le> hw f'"
    by simp_all
  then show ?case by (rule fence_inv_raise [OF commit.prems])
next
  case (recover oid st s now b f')
  then have "st_epoch st \<le> hw (fsys s)" by (auto simp: fence_inv_def)
  with recover have "f' = fsys s \<or> (st_epoch st = hw (fsys s)
      \<and> f' = insert_authorizations [oid] (st_epoch st) (st_writer_id st) now (fsys s))"
    by (auto simp: authorizeAtEpoch_def split: if_splits)
  then have "commits_ordered f' \<and> hw f' = hw (fsys s)"
    using recover.prems by (auto simp: fence_inv_def intro: commits_ordered_insert)
  then show ?case by (intro fence_inv_raise [OF recover.prems]) auto
qed

lemma fence_init_inv: "fence_inv (fence_init now)"
  by (simp add: fence_inv_def fence_init_def open_store_def commits_ordered_def)

lemma fence_reachable_inv: "fence_reachable s \<Longrightarrow> fence_inv s"
  by (induction rule: fence_reachable.induct) (auto intro: fence_init_inv fence_step_inv)

section \<open>Properties\<close>

text \<open>C3: Writes are fenced by ownership epoch. In every state that any interleaving of processes can
  reach (claims, prepared mutations, commits, pauses and recoveries), the commit authorizations stand
  in the order of their epochs and none is ahead of the high-water mark: once a newer owner has
  committed, no operation of an older epoch commits after it.\<close>

theorem fencing_commits_never_regress:
  assumes "fence_reachable s"
  shows "sorted (map ca_epoch (writer_fence_commits (fsys s)))
    \<and> (\<forall>a \<in> set (writer_fence_commits (fsys s)). ca_epoch a \<le> hw (fsys s))"
  using fence_reachable_inv [OF assms] by (auto simp: fence_inv_def commits_ordered_def)

definition fence_demo :: fence_sys where
  "fence_demo = (let s0 = fence_init ''t0''; f1 = snd (claim (JInt 3) ''claim'' ''t1'' (fsys s0));
      f2 = snd (guardCommit [''op1''] (Some (JInt 3, ''w'')) ''observe'' ''t2'' f1)
    in s0\<lparr>fsys := f2, tokens := (\<lambda>_. None)(''p'' := Some 3)\<rparr>)"

lemma fence_demo_reachable: "fence_reachable fence_demo"
proof -
  let ?s0 = "fence_init ''t0''"
  let ?f1 = "set_high_water 3 ''t1'' (fsys ?s0)"
  let ?s1 = "?s0\<lparr>fsys := ?f1, tokens := (tokens ?s0)(''p'' := Some 3)\<rparr>"
  have c: "claim (JInt 3) ''claim'' ''t1'' (fsys ?s0) = (Inr (fence_state ?f1), ?f1)"
    by (simp add: claim_def Let_def fence_init_def open_store_def max_safe_integer_def)
  then have "fence_reachable ?s1"
    by (intro fence_reachable.step [OF fence_reachable.start fence_step.adopt])
  moreover have "fence_step ?s1 (?s1\<lparr>fsys := snd (guardCommit [''op1'']
      (map_option (\<lambda>t. (JInt t, ''w'')) (tokens ?s1 ''p'')) ''observe'' ''t2'' (fsys ?s1))\<rparr>)"
    by (rule fence_step.commit [where oids = "[''op1'']" and w = "''w''" and p = "''p''" and
        op = "''observe''" and now = "''t2''"]) (rule prod.collapse [symmetric])
  ultimately have "fence_reachable (?s1\<lparr>fsys := snd (guardCommit [''op1'']
      (map_option (\<lambda>t. (JInt t, ''w'')) (tokens ?s1 ''p'')) ''observe'' ''t2'' (fsys ?s1))\<rparr>)"
    by (rule fence_reachable.step)
  then show ?thesis by (simp add: fence_demo_def Let_def c) (simp add: fence_init_def)
qed

theorem fencing_commits_never_regress_witness:
  "fence_reachable fence_demo \<and> map ca_epoch (writer_fence_commits (fsys fence_demo)) = [3]
   \<and> sorted (map ca_epoch (writer_fence_commits (fsys fence_demo)))"
proof -
  have "map ca_epoch (writer_fence_commits (fsys fence_demo)) = [3]" by code_simp
  then show ?thesis
    using fence_demo_reachable fencing_commits_never_regress [OF fence_demo_reachable] by simp
qed

text \<open>The commit gate decides exactly by the epoch. A stamped writer passes iff its token is a
  positive safe integer that is not behind the high-water mark; a tokenless writer passes iff the
  brain was never fenced. Passing authorizes every operation of the batch (an earlier authorization of
  the same operation is kept); not passing changes no authorization and does not move the mark.\<close>

lemma guardCommit_decides:
  "(is_ok (fst (guardCommit oids stamp op now s)) \<longleftrightarrow>
      (case stamp of None \<Rightarrow> hw s = 0
       | Some (v, w) \<Rightarrow> (\<exists>t. v = JInt t \<and> 1 \<le> t \<and> t \<le> max_safe_integer \<and> hw s \<le> t)))
   \<and> (is_ok (fst (guardCommit oids stamp op now s)) \<and> stamp \<noteq> None \<longrightarrow>
        (\<forall>oid \<in> set oids. authorization oid (snd (guardCommit oids stamp op now s)) \<noteq> None))
   \<and> (\<not> is_ok (fst (guardCommit oids stamp op now s)) \<longrightarrow>
        writer_fence_commits (snd (guardCommit oids stamp op now s)) = writer_fence_commits s
        \<and> hw (snd (guardCommit oids stamp op now s)) = hw s)
   \<and> (\<forall>oid a. authorization oid s = Some a \<longrightarrow>
        authorization oid (snd (guardCommit oids stamp op now s)) = Some a)"
proof (cases "stamp = None")
  case True
  then show ?thesis by (auto simp: guardCommit_None)
next
  case False
  then obtain v w where stamp: "stamp = Some (v, w)" by auto
  show ?thesis
  proof (cases "assertToken v op")
    case (Inl e)
    then have "\<nexists>t. v = JInt t \<and> 1 \<le> t \<and> t \<le> max_safe_integer"
      using assertToken_ok by (metis Inl_Inr_False)
    with Inl stamp show ?thesis by (auto simp: guardCommit_def)
  next
    case (Inr t)
    then have t: "v = JInt t" "1 \<le> t" "t \<le> max_safe_integer" by simp_all
    show ?thesis
    proof (cases "t < hw s")
      case True
      then show ?thesis using t stamp by (auto simp: guardCommit_stale)
    next
      case False
      then show ?thesis
        using t stamp by (auto simp: guardCommit_current authorization_insert split: option.split)
    qed
  qed
qed

lemma guardCommit_decides_example:
  "let s = open_store None [] ''t0''; s1 = snd (claim (JInt 5) ''claim'' ''t1'' s) in
   \<not> is_ok (fst (guardCommit [''op1''] (Some (JInt 4, ''w'')) ''observe'' ''t2'' s1))
   \<and> writer_fence_commits (snd (guardCommit [''op1''] (Some (JInt 4, ''w'')) ''observe'' ''t2'' s1))
       = writer_fence_commits s1
   \<and> is_ok (fst (guardCommit [''op1''] (Some (JInt 5, ''w'')) ''observe'' ''t2'' s1))
   \<and> authorization ''op1'' (snd (guardCommit [''op1''] (Some (JInt 5, ''w'')) ''observe'' ''t2'' s1)) \<noteq> None"
proof -
  let ?s1 = "snd (claim (JInt 5) ''claim'' ''t1'' (open_store None [] ''t0''))"
  have "\<not> is_ok (fst (guardCommit [''op1''] (Some (JInt 4, ''w'')) ''observe'' ''t2'' ?s1))"
    and "is_ok (fst (guardCommit [''op1''] (Some (JInt 5, ''w'')) ''observe'' ''t2'' ?s1))"
    by code_simp+
  then show ?thesis
    unfolding Let_def
    using guardCommit_decides [of "[''op1'']" "Some (JInt 4, ''w'')" "''observe''" "''t2''" ?s1]
      guardCommit_decides [of "[''op1'']" "Some (JInt 5, ''w'')" "''observe''" "''t2''" ?s1]
    by auto
qed

text \<open>The mutation-boundary guard holds under interference. Whatever other processes do between
  its statements, as long as they never lower the high-water mark, the guard never lowers it either,
  and it lets a writer through only with a token that equals the mark when it returns: a writer that
  was overtaken while it was checking is refused.\<close>

lemma guard_under_interference:
  assumes "\<And>s. hw s \<le> hw (env1 s)" and "\<And>s. hw s \<le> hw (env2 s)"
  shows "hw s \<le> hw (snd (guard env1 env2 (Some v) op now s))
    \<and> (fst (guard env1 env2 (Some v) op now s) = Inr () \<longrightarrow>
        (\<exists>t. v = JInt t \<and> 1 \<le> t \<and> hw s \<le> t \<and> hw (snd (guard env1 env2 (Some v) op now s)) = t))"
proof -
  have "\<exists>t. v = JInt t \<and> 1 \<le> t \<and> hw s \<le> t \<and> hw (snd (guard env1 env2 (Some v) op now s)) = t"
    if "fst (guard env1 env2 (Some v) op now s) = Inr ()"
    using guard_accepts [OF assms(2), of env1 v op now s "snd (guard env1 env2 (Some v) op now s)"] that
    by (metis prod.collapse)
  then show ?thesis using guard_grows [OF assms, of s "Some v" op now] by blast
qed

lemma guard_under_interference_example:
  "let s = open_store None [] ''t0''; env1 = advance_high_water 9 ''t1'' in
   fst (guard env1 id (Some (JInt 4)) ''observe'' ''t2'' s) = Inl (staleError ''observe'' 4 9)
   \<and> fst (guard env1 id (Some (JInt 9)) ''observe'' ''t2'' s) = Inr ()
   \<and> hw (snd (guard env1 id (Some (JInt 9)) ''observe'' ''t2'' s)) = 9"
proof -
  let ?s = "open_store None [] ''t0''"
  have 1: "fst (guard (advance_high_water 9 ''t1'') id (Some (JInt 4)) ''observe'' ''t2'' ?s)
        = Inl (staleError ''observe'' 4 9)"
    by (simp add: guard_def open_store_def Let_def max_safe_integer_def)
  have 2: "fst (guard (advance_high_water 9 ''t1'') id (Some (JInt 9)) ''observe'' ''t2'' ?s) = Inr ()"
    by (simp add: guard_def open_store_def Let_def max_safe_integer_def)
  show ?thesis
    unfolding Let_def
    using 1 2 guard_under_interference [of "advance_high_water 9 ''t1''" id ?s "JInt 9" "''observe''" "''t2''"]
    by auto
qed

text \<open>A handoff is final for the recovery path too. After any later sequence of recovery
  authorizations (whatever operations and epochs they ask for), an operation is authorized only if it
  already was, or at an epoch that is not behind the mark of the handoff; and no authorization is ever
  withdrawn or re-dated.\<close>

lemma recovery_authorizations_final:
  "(auth_epoch (fold (\<lambda>(oids, e) s. snd (recovery_gate w now oids e s)) ds s) oid = Some a \<longrightarrow>
      auth_epoch s oid = Some a \<or> hw s \<le> a)
   \<and> (auth_epoch s oid = Some a \<longrightarrow>
      auth_epoch (fold (\<lambda>(oids, e) s. snd (recovery_gate w now oids e s)) ds s) oid = Some a)"
  using rg.run_no_stale_commit rg.run_keeps by blast

lemma recovery_authorizations_final_example:
  "let s = snd (claim (JInt 4) ''claim'' ''t1'' (open_store None [] ''t0'')) in
   auth_epoch (fold (\<lambda>(oids, e) s. snd (recovery_gate ''w'' ''t2'' oids e s)) [([''a''], 3), ([''b''], 6)] s) ''b''
     = Some 6 \<and> hw s \<le> 6"
proof -
  let ?s = "snd (claim (JInt 4) ''claim'' ''t1'' (open_store None [] ''t0''))"
  have r: "auth_epoch (fold (\<lambda>(oids, e) s. snd (recovery_gate ''w'' ''t2'' oids e s))
      [([''a''], 3), ([''b''], 6)] ?s) ''b'' = Some 6"
    by code_simp
  have n: "auth_epoch ?s ''b'' = None" by code_simp
  show ?thesis
    unfolding Let_def
    using r n recovery_authorizations_final [where w = "''w''" and now = "''t2''" and
        ds = "[([''a''], 3), ([''b''], 6)]" and s = ?s and oid = "''b''" and a = 6]
    by simp
qed

end
