(* ===== verification/Ops_Log.thy ===== *)
theory Ops_Log
  imports Fence Jsonl "HOL-Library.Multiset"
begin

text \<open>
  The canonical operations log (\<^verbatim>\<open>ops_log/log.ts\<close>), the commit helper whose log append is the durable
  commit signal (\<^verbatim>\<open>ops_log/commit.ts\<close>) and the derived SQLite index over the log
  (\<^verbatim>\<open>ops_log/ops_index.ts\<close>). The log directory is the list of its day files in the order
  \<^verbatim>\<open>readdir\<close> gives them; a file is the list of its non-empty lines, each an entry or a text that does
  not parse. File sizes are sums over the lines of a function \<open>bytes\<close>, the length of a line with its
  line feed, of which the index only needs that it is positive. \<^verbatim>\<open>new Date().toISOString()\<close> is the
  argument \<open>now\<close>.
\<close>

section \<open>Entries\<close>

definition OP_TYPES :: "string list" where
  "OP_TYPES = [''observe'', ''reflect.explicit'', ''reflect.auto'', ''reflect.profile'', ''revise.claim'',
     ''endorse'', ''revive'', ''forget'', ''forget.scope'', ''hold.release'', ''retention.expire'',
     ''consolidate'', ''session.start'', ''session.end'', ''access.allow'', ''access.deny'',
     ''dream.verify'', ''dream.extract_relations'', ''dream.detect_conflicts'',
     ''dream.recompile_pages'', ''dream.check_capacity'', ''dream.find_orphans'']"

record op_entry =
  oe_operation_id :: string
  oe_actor_id :: string
  oe_timestamp :: string
  oe_op :: string
  oe_details :: "(string \<times> json) list option"

type_synonym op_line = "op_entry jsonl_line"
type_synonym ops_dir = "op_entry jsonl_dir"

definition is_crockford :: "char \<Rightarrow> bool" where
  "is_crockford c = ((CHR ''0'' \<le> c \<and> c \<le> CHR ''9'') \<or> (CHR ''A'' \<le> c \<and> c \<le> CHR ''H'')
     \<or> c = CHR ''J'' \<or> c = CHR ''K'' \<or> c = CHR ''M'' \<or> c = CHR ''N''
     \<or> (CHR ''P'' \<le> c \<and> c \<le> CHR ''T'') \<or> (CHR ''V'' \<le> c \<and> c \<le> CHR ''Z''))"

definition isValidOperationId :: "string \<Rightarrow> bool" where
  "isValidOperationId v =
     (starts_with v ''op_'' \<and> length v = 29 \<and> list_all is_crockford (drop 3 v))"

definition dayOfTimestamp :: "string \<Rightarrow> string" where
  "dayOfTimestamp ts = take 10 ts"

section \<open>Appending and reading\<close>

definition entry_rejected :: "op_entry \<Rightarrow> protocol_error option" where
  "entry_rejected e =
     (if \<not> isValidOperationId (oe_operation_id e) then Some (JsError ''operation_id does not match'')
      else if oe_actor_id e = [] \<or> oe_timestamp e = [] \<or> oe_op e = [] then
        Some (JsError ''actor_id, timestamp, and op are required'')
      else None)"

fun first_rejected :: "op_entry list \<Rightarrow> protocol_error option" where
  "first_rejected [] = None"
| "first_rejected (e # es) = (case entry_rejected e of Some x \<Rightarrow> Some x | None \<Rightarrow> first_rejected es)"

definition group_by_day :: "op_entry list \<Rightarrow> (string \<times> op_line list) list" where
  "group_by_day es =
     fold (\<lambda>e byDay. let day = dayOfTimestamp (oe_timestamp e) in
             js_map_set day (day_lines day byDay @ [Line e]) byDay) es []"

definition appendOpLogEntries :: "op_entry list \<Rightarrow> ops_dir \<Rightarrow> unit outcome \<times> ops_dir" where
  "appendOpLogEntries es dir =
     (if es = [] then (Inr (), dir)
      else case first_rejected es of
        Some x \<Rightarrow> (Inl x, dir)
      | None \<Rightarrow> (Inr (), fold (\<lambda>(day, ls) d. append_day day ls d) (group_by_day es) dir))"

definition appendOpLogEntry :: "op_entry \<Rightarrow> ops_dir \<Rightarrow> unit outcome \<times> ops_dir" where
  "appendOpLogEntry e dir = appendOpLogEntries [e] dir"

definition readOpLogDay :: "ops_dir \<Rightarrow> string \<Rightarrow> op_entry list outcome" where
  "readOpLogDay dir day = read_day dir day"

definition readAllOpLogEntries :: "ops_dir \<Rightarrow> op_entry list outcome" where
  "readAllOpLogEntries dir = read_all dir"

definition loadCommittedOperationIds :: "ops_dir \<Rightarrow> string set outcome" where
  "loadCommittedOperationIds dir =
     (case readAllOpLogEntries dir of
        Inl x \<Rightarrow> Inl x | Inr es \<Rightarrow> Inr (set (map oe_operation_id es)))"

section \<open>The gated append\<close>

text \<open>
  \<open>mutation_fence\<close> is the adapter of \<^verbatim>\<open>core.ts\<close>: the epoch this process holds and its writer id.
\<close>

record mutation_fence =
  mf_token :: "int option"
  mf_writer :: string

record commit_world =
  cw_ops :: ops_dir
  cw_fence :: fence_store

definition mf_stamp :: "mutation_fence \<Rightarrow> commit_stamp option" where
  "mf_stamp f = map_option (\<lambda>t. \<lparr>st_epoch = t, st_writer_id = mf_writer f\<rparr>) (mf_token f)"

definition stamp_json :: "commit_stamp \<Rightarrow> json" where
  "stamp_json st = JObj [(''epoch'', JNum (st_epoch st)), (''writer_id'', JStr (st_writer_id st))]"

definition with_stamp :: "commit_stamp option \<Rightarrow> op_entry \<Rightarrow> op_entry" where
  "with_stamp st e =
     (case st of None \<Rightarrow> e
      | Some s \<Rightarrow> e\<lparr>oe_details := Some (js_map_set ''fence'' (stamp_json s)
                   (case oe_details e of Some d \<Rightarrow> d | None \<Rightarrow> []))\<rparr>)"

definition appendCommittedOpLogEntries ::
  "string \<Rightarrow> op_entry list \<Rightarrow> mutation_fence option \<Rightarrow> commit_world \<Rightarrow> unit outcome \<times> commit_world" where
  "appendCommittedOpLogEntries now es fence w =
     (if es = [] then (Inr (), w)
      else case fence of
        None \<Rightarrow> (let (r, d) = appendOpLogEntries es (cw_ops w) in (r, w\<lparr>cw_ops := d\<rparr>))
      | Some f \<Rightarrow>
          (case guardCommit (map oe_operation_id es)
                  (map_option (\<lambda>t. (JInt t, mf_writer f)) (mf_token f)) (oe_op (hd es)) now (cw_fence w) of
             (Inl x, g) \<Rightarrow> (Inl x, w\<lparr>cw_fence := g\<rparr>)
           | (Inr _, g) \<Rightarrow>
               (let (r, d) = appendOpLogEntries (map (with_stamp (mf_stamp f)) es) (cw_ops w)
                in (r, w\<lparr>cw_ops := d, cw_fence := g\<rparr>))))"

section \<open>The commit helper\<close>

record commit_descriptor =
  cd_operation_id :: string
  cd_actor_id :: string
  cd_op :: string
  cd_details :: "(string \<times> json) list option"

fun find_in_days :: "ops_dir \<Rightarrow> string list \<Rightarrow> string \<Rightarrow> op_entry option outcome" where
  "find_in_days dir [] oid = Inr None"
| "find_in_days dir (d # ds) oid =
     (case readOpLogDay dir d of
        Inl x \<Rightarrow> Inl x
      | Inr es \<Rightarrow> (case List.find (\<lambda>e. oe_operation_id e = oid) es of
                     Some e \<Rightarrow> Inr (Some e) | None \<Rightarrow> find_in_days dir ds oid))"

definition findExistingOp :: "ops_dir \<Rightarrow> string \<Rightarrow> op_entry option outcome" where
  "findExistingOp dir oid = find_in_days dir (log_days dir) oid"

definition withoutFenceStamp :: "(string \<times> json) list option \<Rightarrow> (string \<times> json) list option" where
  "withoutFenceStamp details =
     (case details of
        None \<Rightarrow> None
      | Some d \<Rightarrow> if map_of d ''fence'' = None then Some d
                  else Some (filter (\<lambda>(k, v). k \<noteq> ''fence'') d))"

definition idempotency_conflict :: "string \<Rightarrow> protocol_error" where
  "idempotency_conflict oid = JsError ''IdempotencyConflictError''"

text \<open>
  \<open>work\<close> writes the other artifacts, whose state is the first component of the world: it may fail and
  leave partial writes. A replay returns the recorded time and the value \<^verbatim>\<open>undefined\<close>, here \<open>None\<close>.
\<close>

definition runCommit ::
  "string \<Rightarrow> mutation_fence option \<Rightarrow> commit_descriptor \<Rightarrow> (string \<Rightarrow> 'w \<Rightarrow> 'a outcome \<times> 'w)
     \<Rightarrow> 'w \<times> commit_world \<Rightarrow> (string \<times> 'a option) outcome \<times> 'w \<times> commit_world" where
  "runCommit now fence d work s =
     (case findExistingOp (cw_ops (snd s)) (cd_operation_id d) of
        Inl x \<Rightarrow> (Inl x, s)
      | Inr (Some e) \<Rightarrow>
          if oe_op e = cd_op d \<and> withoutFenceStamp (oe_details e) = withoutFenceStamp (cd_details d)
          then (Inr (oe_timestamp e, None), s)
          else (Inl (idempotency_conflict (cd_operation_id d)), s)
      | Inr None \<Rightarrow>
          (case work now (fst s) of
             (Inl x, a) \<Rightarrow> (Inl x, a, snd s)
           | (Inr v, a) \<Rightarrow>
               (case appendCommittedOpLogEntries now
                       [\<lparr>oe_operation_id = cd_operation_id d, oe_actor_id = cd_actor_id d,
                         oe_timestamp = now, oe_op = cd_op d, oe_details = cd_details d\<rparr>] fence (snd s) of
                  (Inl x, w) \<Rightarrow> (Inl x, a, w)
                | (Inr _, w) \<Rightarrow> (Inr (now, Some v), a, w))))"

section \<open>The derived index\<close>

record op_row =
  or_entry :: op_entry
  or_day :: string
  or_line :: nat

record ops_index =
  oi_entries :: "op_row list"
  oi_sync :: "(string \<times> nat \<times> nat) list"

definition ins_op_row :: "op_row \<Rightarrow> op_row list \<Rightarrow> op_row list" where
  "ins_op_row r rows =
     (if \<exists>x \<in> set rows. oe_operation_id (or_entry x) = oe_operation_id (or_entry r)
            \<or> (or_day x = or_day r \<and> or_line x = or_line r)
      then rows else rows @ [r])"

fun insert_lines :: "string \<Rightarrow> nat \<Rightarrow> op_line list \<Rightarrow> op_row list \<Rightarrow> op_row list outcome" where
  "insert_lines day i [] rows = Inr rows"
| "insert_lines day i (Unparsable t # ls) rows = Inl (JsError ''Malformed JSONL'')"
| "insert_lines day i (Line e # ls) rows =
     insert_lines day (Suc i) ls (ins_op_row \<lparr>or_entry = e, or_day = day, or_line = i\<rparr> rows)"

definition file_size :: "(op_line \<Rightarrow> nat) \<Rightarrow> op_line list \<Rightarrow> nat" where
  "file_size bytes ls = sum_list (map bytes ls)"

definition indexDay ::
  "(op_line \<Rightarrow> nat) \<Rightarrow> string \<Rightarrow> op_line list \<Rightarrow> ops_index \<Rightarrow> unit outcome \<times> ops_index" where
  "indexDay bytes day ls idx =
     (let size = file_size bytes ls in
      if (case map_of (oi_sync idx) day of Some (n, sz) \<Rightarrow> sz = size | None \<Rightarrow> False) then (Inr (), idx)
      else case insert_lines day 0 ls (del_where (\<lambda>r. or_day r = day) (oi_entries idx)) of
        Inl x \<Rightarrow> (Inl x, idx)
      | Inr rows \<Rightarrow> (Inr (), \<lparr>oi_entries = rows, oi_sync = js_map_set day (length ls, size) (oi_sync idx)\<rparr>))"

fun index_days :: "(op_line \<Rightarrow> nat) \<Rightarrow> ops_dir \<Rightarrow> ops_index \<Rightarrow> unit outcome \<times> ops_index" where
  "index_days bytes [] idx = (Inr (), idx)"
| "index_days bytes ((day, ls) # rest) idx =
     (case indexDay bytes day ls idx of
        (Inl x, idx') \<Rightarrow> (Inl x, idx')
      | (Inr _, idx') \<Rightarrow> index_days bytes rest idx')"

definition purge_days :: "string set \<Rightarrow> ops_index \<Rightarrow> ops_index" where
  "purge_days seen idx =
     fold (\<lambda>day idx. if day \<in> seen then idx
             else \<lparr>oi_entries = del_where (\<lambda>r. or_day r = day) (oi_entries idx),
                   oi_sync = filter (\<lambda>(d, _). d \<noteq> day) (oi_sync idx)\<rparr>)
       (map fst (oi_sync idx)) idx"

definition indexAllDays :: "(op_line \<Rightarrow> nat) \<Rightarrow> ops_dir \<Rightarrow> ops_index \<Rightarrow> unit outcome \<times> ops_index" where
  "indexAllDays bytes dir idx =
     (case index_days bytes dir idx of
        (Inl x, idx') \<Rightarrow> (Inl x, idx')
      | (Inr _, idx') \<Rightarrow> (Inr (), purge_days (set (map fst dir)) idx'))"

definition rebuildIndex :: "(op_line \<Rightarrow> nat) \<Rightarrow> ops_dir \<Rightarrow> ops_index \<Rightarrow> unit outcome \<times> ops_index" where
  "rebuildIndex bytes dir idx = indexAllDays bytes dir \<lparr>oi_entries = [], oi_sync = []\<rparr>"

definition catchUp :: "(op_line \<Rightarrow> nat) \<Rightarrow> ops_dir \<Rightarrow> ops_index \<Rightarrow> unit outcome \<times> ops_index" where
  "catchUp bytes dir idx = indexAllDays bytes dir idx"

definition getByOperationId :: "string \<Rightarrow> ops_index \<Rightarrow> op_entry option" where
  "getByOperationId oid idx =
     map_option or_entry (List.find (\<lambda>r. oe_operation_id (or_entry r) = oid) (oi_entries idx))"

function chunks :: "nat \<Rightarrow> 'a list \<Rightarrow> 'a list list" where
  "chunks n xs = (if n = 0 \<or> xs = [] then [] else take n xs # chunks n (drop n xs))"
  by auto
termination by (relation "measure (\<lambda>(n, xs). length xs)") auto

declare chunks.simps [simp del]

definition getManyByOperationIds :: "string list \<Rightarrow> ops_index \<Rightarrow> (string \<rightharpoonup> op_entry)" where
  "getManyByOperationIds oids idx =
     fold (\<lambda>chunk m. fold (\<lambda>r m. m(oe_operation_id (or_entry r) \<mapsto> or_entry r))
             (filter (\<lambda>r. oe_operation_id (or_entry r) \<in> set chunk) (oi_entries idx)) m)
       (chunks 500 oids) Map.empty"

definition row_pos :: "op_row \<Rightarrow> string \<times> nat" where
  "row_pos r = (or_day r, or_line r)"

definition entriesByOp :: "string \<Rightarrow> ops_index \<Rightarrow> op_entry list" where
  "entriesByOp op idx =
     map or_entry (sort_key row_pos (filter (\<lambda>r. oe_op (or_entry r) = op) (oi_entries idx)))"

definition allEntries :: "ops_index \<Rightarrow> op_entry list" where
  "allEntries idx = map or_entry (sort_key row_pos (oi_entries idx))"

definition committedOperationIds :: "ops_index \<Rightarrow> string set" where
  "committedOperationIds idx = set (map (\<lambda>r. oe_operation_id (or_entry r)) (oi_entries idx))"

definition index_count :: "ops_index \<Rightarrow> nat" where
  "index_count idx = length (oi_entries idx)"

section \<open>Lemmas on the log\<close>

lemma group_by_day_snoc:
  "group_by_day (es @ [e]) = append_day (dayOfTimestamp (oe_timestamp e)) [Line e] (group_by_day es)"
  by (simp add: group_by_day_def append_day_def Let_def)

lemma group_by_day_distinct: "distinct (map fst (group_by_day es))"
  by (induction es rule: rev_induct) (simp_all add: group_by_day_snoc, simp add: group_by_day_def)

lemma group_by_day_lines:
  "day_lines d (group_by_day es) = map Line (filter (\<lambda>e. dayOfTimestamp (oe_timestamp e) = d) es)"
  by (induction es rule: rev_induct) (auto simp: group_by_day_snoc, simp add: group_by_day_def day_lines_def)

lemma appendOpLogEntries_lines:
  assumes "appendOpLogEntries es dir = (Inr (), dir')"
  shows "day_lines d dir' = day_lines d dir @ map Line (filter (\<lambda>e. dayOfTimestamp (oe_timestamp e) = d) es)"
  using assms
  by (auto simp: appendOpLogEntries_def fold_append_days group_by_day_distinct group_by_day_lines
      split: if_splits option.splits)

lemma appendOpLogEntries_refused: "appendOpLogEntries es dir = (Inl x, dir') \<Longrightarrow> dir' = dir"
  by (auto simp: appendOpLogEntries_def split: if_splits option.splits)

lemma appendOpLogEntry_eq:
  "appendOpLogEntries [e] dir =
     (case entry_rejected e of Some x \<Rightarrow> (Inl x, dir)
      | None \<Rightarrow> (Inr (), append_day (dayOfTimestamp (oe_timestamp e)) [Line e] dir))"
  by (simp add: appendOpLogEntries_def group_by_day_def day_lines_def Let_def split: option.split)

text \<open>What the scan for an operation id finds, in terms of the days it reads.\<close>

lemma find_in_days_None_iff:
  "find_in_days dir ds oid = Inr None \<longleftrightarrow>
     (\<forall>d \<in> set ds. \<exists>es. readOpLogDay dir d = Inr es \<and> oid \<notin> oe_operation_id ` set es)"
  by (induction ds) (auto split: sum.splits option.splits simp: find_None_iff find_Some_iff image_iff)

lemma find_in_days_found:
  assumes "\<forall>d \<in> set ds. \<exists>es. readOpLogDay dir d = Inr es \<and> (\<forall>e' \<in> set es. oe_operation_id e' = oid \<longrightarrow> e' = e)"
    and "\<exists>d \<in> set ds. \<exists>es. readOpLogDay dir d = Inr es \<and> e \<in> set es" and "oe_operation_id e = oid"
  shows "find_in_days dir ds oid = Inr (Some e)"
  using assms(1,2)
proof (induction ds)
  case (Cons d ds)
  obtain es where es: "readOpLogDay dir d = Inr es" "\<forall>e' \<in> set es. oe_operation_id e' = oid \<longrightarrow> e' = e"
    using Cons.prems(1) by auto
  show ?case
  proof (cases "List.find (\<lambda>e. oe_operation_id e = oid) es")
    case None
    then have "e \<notin> set es" using assms(3) by (auto simp: find_None_iff)
    then have "\<exists>d \<in> set ds. \<exists>es. readOpLogDay dir d = Inr es \<and> e \<in> set es"
      using Cons.prems(2) es(1) by auto
    then show ?thesis using Cons None es by simp
  next
    case (Some e')
    then have "e' = e" using es(2) by (auto simp: find_Some_iff)
    then show ?thesis using es(1) Some by simp
  qed
qed simp

lemma findExistingOp_after_append:
  assumes "findExistingOp dir (oe_operation_id e) = Inr None"
  shows "findExistingOp (append_day (dayOfTimestamp (oe_timestamp e)) [Line e] dir) (oe_operation_id e)
       = Inr (Some e)"
proof -
  let ?day = "dayOfTimestamp (oe_timestamp e)"
  let ?dir = "append_day ?day [Line e] dir"
  have old: "\<exists>es. parse_lines (day_lines d dir) = Inr es \<and> oe_operation_id e \<notin> oe_operation_id ` set es" for d
  proof (cases "d \<in> set (map fst dir)")
    case True
    then show ?thesis
      using assms by (auto simp: findExistingOp_def find_in_days_None_iff readOpLogDay_def read_day_def)
  next
    case False
    then have "day_lines d dir = []" by (simp add: day_lines_absent)
    then show ?thesis by simp
  qed
  have new: "\<exists>es. readOpLogDay ?dir d = Inr es \<and> (\<forall>e' \<in> set es. oe_operation_id e' = oe_operation_id e \<longrightarrow> e' = e)
      \<and> (d = ?day \<longrightarrow> e \<in> set es)" for d
    using old [of d] by (fastforce simp: readOpLogDay_def read_day_def parse_lines_append image_iff)
  show ?thesis
    unfolding findExistingOp_def
  proof (rule find_in_days_found)
    show "\<exists>d \<in> set (log_days ?dir). \<exists>es. readOpLogDay ?dir d = Inr es \<and> e \<in> set es"
      using new [of ?day] by (auto simp: days_append_day simp del: set_map)
  qed (use new in blast)+
qed

lemma withoutFenceStamp_with_stamp:
  "withoutFenceStamp (oe_details (with_stamp (Some st) e)) =
     (case oe_details e of None \<Rightarrow> Some [] | Some d \<Rightarrow> withoutFenceStamp (Some d))"
proof -
  have "filter (\<lambda>(k, v). k \<noteq> ''fence'') d = d" if "map_of d ''fence'' = None" for d :: "(string \<times> json) list"
    using that by (auto simp: filter_id_conv map_of_eq_None_iff image_iff) 
  then show ?thesis by (auto simp: with_stamp_def withoutFenceStamp_def split: option.split)
qed

lemma with_stamp_simps [simp]:
  "oe_operation_id (with_stamp st e) = oe_operation_id e" "oe_timestamp (with_stamp st e) = oe_timestamp e"
  "oe_op (with_stamp st e) = oe_op e" "oe_actor_id (with_stamp st e) = oe_actor_id e"
  by (simp_all add: with_stamp_def split: option.split)

text \<open>The gated append of one entry, as both commit theorems use it.\<close>

lemma appendCommitted_refused:
  "appendCommittedOpLogEntries now [e] fence w = (Inl x, w') \<Longrightarrow> cw_ops w' = cw_ops w"
  by (auto simp: appendCommittedOpLogEntries_def appendOpLogEntry_eq Let_def
      split: option.splits prod.splits sum.splits)

lemma appendCommitted_ok:
  assumes "appendCommittedOpLogEntries now [e] fence w = (Inr u, w')"
  shows "cw_ops w' = append_day (dayOfTimestamp (oe_timestamp e))
           [Line (with_stamp (Option.bind fence mf_stamp) e)] (cw_ops w)"
proof (cases fence)
  case None
  then show ?thesis using assms
    by (auto simp: appendCommittedOpLogEntries_def appendOpLogEntry_eq with_stamp_def split: option.splits)
next
  case (Some f)
  then show ?thesis using assms
    by (auto simp: appendCommittedOpLogEntries_def appendOpLogEntry_eq Let_def
        split: option.splits prod.splits sum.splits)
qed

section \<open>Lemmas on the index\<close>

text \<open>
  The content of the index, day by day: \<open>mirrors\<close> says that the index holds exactly the rows of the
  days of \<open>g\<close> (a day file that parsed, as its entries) in line order, and their sizes.
\<close>

definition day_rows :: "string \<Rightarrow> op_row list \<Rightarrow> op_row list" where
  "day_rows d rows = filter (\<lambda>r. or_day r = d) rows"

fun rows_from :: "string \<Rightarrow> nat \<Rightarrow> op_entry list \<Rightarrow> op_row list" where
  "rows_from d i [] = []"
| "rows_from d i (e # es) = \<lparr>or_entry = e, or_day = d, or_line = i\<rparr> # rows_from d (Suc i) es"

definition mirrors :: "(op_line \<Rightarrow> nat) \<Rightarrow> (string \<rightharpoonup> op_entry list) \<Rightarrow> ops_index \<Rightarrow> bool" where
  "mirrors bytes g idx \<longleftrightarrow>
     (\<forall>d. day_rows d (oi_entries idx) = (case g d of None \<Rightarrow> [] | Some es \<Rightarrow> rows_from d 0 es)
        \<and> map_of (oi_sync idx) d =
            map_option (\<lambda>es. (length es, file_size bytes (map Line es))) (g d))"

lemma rows_from_simps [simp]:
  "map or_entry (rows_from d i es) = es" "length (rows_from d i es) = length es"
  by (induction es arbitrary: i) auto

lemma rows_from_day: "r \<in> set (rows_from d i es) \<Longrightarrow> or_day r = d"
  by (induction es arbitrary: i) auto

lemma rows_from_entry: "r \<in> set (rows_from d i es) \<Longrightarrow> or_entry r \<in> set es"
  by (induction es arbitrary: i) auto

lemma rows_from_pos: "map row_pos (rows_from d i es) = map (Pair d) [i ..< i + length es]"
proof (induction es arbitrary: i)
  case (Cons e es)
  then show ?case by (simp add: row_pos_def upt_conv_Cons del: upt_Suc)
qed simp

lemma insert_lines_fresh:
  assumes "distinct (map oe_operation_id es)"
    and "\<forall>r \<in> set rows. oe_operation_id (or_entry r) \<notin> oe_operation_id ` set es"
    and "\<forall>r \<in> set rows. or_day r = day \<longrightarrow> or_line r < i"
  shows "insert_lines day i (map Line es) rows = Inr (rows @ rows_from day i es)"
  using assms
proof (induction es arbitrary: i rows)
  case (Cons e es)
  let ?r = "\<lparr>or_entry = e, or_day = day, or_line = i\<rparr>"
  have ins: "ins_op_row ?r rows = rows @ [?r]"
    using Cons.prems by (auto simp: ins_op_row_def)
  have "insert_lines day (Suc i) (map Line es) (rows @ [?r]) = Inr ((rows @ [?r]) @ rows_from day (Suc i) es)"
    by (rule Cons.IH) (use Cons.prems in auto)
  then show ?case by (simp add: ins)
qed simp

lemma file_size_prefix:
  assumes "\<And>l. 0 < bytes l" and "file_size bytes xs = file_size bytes (xs @ ys)"
  shows "ys = []"
proof (rule ccontr)
  assume "ys \<noteq> []"
  then obtain l where "l \<in> set ys" by (cases ys) auto
  then have "bytes l \<le> sum_list (map bytes ys)" by (simp add: member_le_sum_list)
  with assms(1) [of l] assms(2) show False by (simp add: file_size_def del: sum_list_eq_0_iff)
qed

text \<open>The operation ids of a log, over all its days.\<close>

definition ids_distinct :: "(string \<rightharpoonup> op_entry list) \<Rightarrow> bool" where
  "ids_distinct g \<longleftrightarrow> (\<forall>d es. g d = Some es \<longrightarrow> distinct (map oe_operation_id es))
     \<and> (\<forall>d d' es es' e e'. g d = Some es \<and> g d' = Some es' \<and> e \<in> set es \<and> e' \<in> set es'
          \<and> oe_operation_id e = oe_operation_id e' \<longrightarrow> d = d')"

lemma ids_distinctD:
  "ids_distinct g \<Longrightarrow> g d = Some es \<Longrightarrow> distinct (map oe_operation_id es)"
  "ids_distinct g \<Longrightarrow> g d = Some es \<Longrightarrow> g d' = Some es' \<Longrightarrow> e \<in> set es \<Longrightarrow> e' \<in> set es' \<Longrightarrow>
     oe_operation_id e = oe_operation_id e' \<Longrightarrow> d = d'"
  unfolding ids_distinct_def by blast+

lemma indexDay_mirrors:
  assumes m: "mirrors bytes g idx" and pos: "\<And>l. 0 < bytes l"
    and prefix: "\<And>old. g d = Some old \<Longrightarrow> \<exists>new. es = old @ new" and ids: "ids_distinct (g(d \<mapsto> es))"
  shows "\<exists>idx'. indexDay bytes d (map Line es) idx = (Inr (), idx') \<and> mirrors bytes (g(d \<mapsto> es)) idx'"
proof (cases "\<exists>n. map_of (oi_sync idx) d = Some (n, file_size bytes (map Line es))")
  case True
  moreover have "map_of (oi_sync idx) d = map_option (\<lambda>es. (length es, file_size bytes (map Line es))) (g d)"
    using m by (simp add: mirrors_def)
  ultimately obtain old where old: "g d = Some old" "file_size bytes (map Line old) = file_size bytes (map Line es)"
    by (cases "g d") auto
  obtain new where "es = old @ new" using prefix [OF old(1)] by blast
  with file_size_prefix [OF pos, where xs = "map Line old" and ys = "map Line new"] old(2) have "es = old" by simp
  with old m True have "mirrors bytes (g(d \<mapsto> es)) idx" by (simp add: map_upd_triv)
  with True show ?thesis by (auto simp: indexDay_def)
next
  case False
  let ?rows = "del_where (\<lambda>r. or_day r = d) (oi_entries idx)"
  have others: "oe_operation_id (or_entry r) \<notin> oe_operation_id ` set es" if "r \<in> set ?rows" for r
  proof
    assume clash: "oe_operation_id (or_entry r) \<in> oe_operation_id ` set es"
    have r: "or_day r \<noteq> d" "r \<in> set (day_rows (or_day r) (oi_entries idx))"
      using that by (auto simp: day_rows_def)
    moreover have "day_rows (or_day r) (oi_entries idx) =
        (case g (or_day r) of None \<Rightarrow> [] | Some es \<Rightarrow> rows_from (or_day r) 0 es)"
      using m by (simp add: mirrors_def)
    ultimately obtain es' where es': "g (or_day r) = Some es'" "or_entry r \<in> set es'"
      by (cases "g (or_day r)") (auto dest: rows_from_entry)
    from clash obtain e where e: "e \<in> set es" "oe_operation_id e = oe_operation_id (or_entry r)" by auto
    have "(g(d \<mapsto> es)) d = Some es" "(g(d \<mapsto> es)) (or_day r) = Some es'" using r(1) es'(1) by simp_all
    from ids_distinctD(2) [OF ids this e(1) es'(2) e(2)] have "d = or_day r" .
    with r(1) show False by simp
  qed
  have "distinct (map oe_operation_id es)" by (rule ids_distinctD(1) [OF ids, of d]) simp
  then have ins: "insert_lines d 0 (map Line es) ?rows = Inr (?rows @ rows_from d 0 es)"
    by (rule insert_lines_fresh) (use others in auto)
  let ?idx = "\<lparr>oi_entries = ?rows @ rows_from d 0 es,
       oi_sync = js_map_set d (length es, file_size bytes (map Line es)) (oi_sync idx)\<rparr>"
  have "indexDay bytes d (map Line es) idx = (Inr (), ?idx)"
    using False ins by (auto simp: indexDay_def Let_def split: option.split)
  moreover have "day_rows d' (oi_entries ?idx) = (if d' = d then rows_from d 0 es else day_rows d' (oi_entries idx))" for d'
  proof -
    have "filter (\<lambda>r. or_day r = d') (rows_from d 0 es) = (if d' = d then rows_from d 0 es else [])"
      by (auto simp: filter_id_conv filter_empty_conv dest: rows_from_day)
    moreover have "filter (\<lambda>r. or_day r \<noteq> d \<and> or_day r = d') xs = (if d' = d then [] else filter (\<lambda>r. or_day r = d') xs)"
      for xs :: "op_row list" by (auto intro: filter_cong)
    ultimately show ?thesis by (simp add: day_rows_def del_where_def)
  qed
  ultimately show ?thesis using m by (auto simp: mirrors_def)
qed

lemma ids_distinct_mono:
  assumes "ids_distinct g'" and "\<And>d es. g d = Some es \<Longrightarrow> \<exists>es'. g' d = Some es' \<and> (\<exists>new. es' = es @ new)"
  shows "ids_distinct g"
  unfolding ids_distinct_def
proof (intro conjI allI impI)
  fix d es assume "g d = Some es"
  with assms(2) obtain new where "g' d = Some (es @ new)" by blast
  with assms(1) have "distinct (map oe_operation_id (es @ new))" unfolding ids_distinct_def by blast
  then show "distinct (map oe_operation_id es)" by simp
next
  fix d d' es es' e e'
  assume a: "g d = Some es \<and> g d' = Some es' \<and> e \<in> set es \<and> e' \<in> set es' \<and> oe_operation_id e = oe_operation_id e'"
  with assms(2) obtain n n' where "g' d = Some (es @ n)" "g' d' = Some (es' @ n')" by blast
  moreover have "e \<in> set (es @ n)" "e' \<in> set (es' @ n')" using a by simp_all
  ultimately show "d = d'" using assms(1) a unfolding ids_distinct_def by blast
qed


text \<open>A log directory whose files all parse, as the entries of each day.\<close>

definition log_view :: "ops_dir \<Rightarrow> (string \<rightharpoonup> op_entry list)" where
  "log_view dir = (\<lambda>d. map_option (map line_entry) (map_of dir d))"

definition log_ok :: "ops_dir \<Rightarrow> bool" where
  "log_ok dir \<longleftrightarrow> distinct (map fst dir) \<and> (\<forall>(d, ls) \<in> set dir. \<exists>es. ls = map Line es)
     \<and> ids_distinct (log_view dir)"

definition log_extends :: "ops_dir \<Rightarrow> ops_dir \<Rightarrow> bool" where
  "log_extends dir dir' \<longleftrightarrow> (\<forall>d ls. map_of dir d = Some ls \<longrightarrow> (\<exists>new. map_of dir' d = Some (ls @ new)))"

lemma index_days_mirrors:
  assumes "mirrors bytes g idx" and pos: "\<And>l. 0 < bytes l" and "distinct (map fst dir)"
    and "\<forall>(d, ls) \<in> set dir. \<exists>es. ls = map Line es \<and> (\<forall>old. g d = Some old \<longrightarrow> (\<exists>new. es = old @ new))"
    and "ids_distinct h" and "\<And>d es. (g ++ log_view dir) d = Some es \<Longrightarrow> \<exists>es'. h d = Some es' \<and> (\<exists>new. es' = es @ new)"
  shows "\<exists>idx'. index_days bytes dir idx = (Inr (), idx') \<and> mirrors bytes (g ++ log_view dir) idx'"
  using assms(1,3,4,6)
proof (induction dir arbitrary: g idx)
  case Nil
  then show ?case by (simp add: log_view_def)
next
  case (Cons a dir)
  obtain d ls where a: "a = (d, ls)" by (cases a)
  obtain es where es: "ls = map Line es" "\<And>old. g d = Some old \<Longrightarrow> \<exists>new. es = old @ new"
    using Cons.prems(3) a by auto
  have fresh: "d \<notin> fst ` set dir" using Cons.prems(2) a by auto
  have view: "log_view (a # dir) = (log_view dir)(d \<mapsto> es)"
    by (auto simp: log_view_def a es(1) comp_def)
  have "log_view dir d = None" using fresh by (simp add: log_view_def map_of_eq_None_iff)
  then have split: "g ++ log_view (a # dir) = (g(d \<mapsto> es)) ++ log_view dir"
    by (simp add: view map_add_def fun_eq_iff split: option.split)
  have "\<exists>es''. h d' = Some es'' \<and> (\<exists>new. es'' = es' @ new)" if "(g(d \<mapsto> es)) d' = Some es'" for d' es'
  proof (cases "log_view dir d'")
    case None
    with that have "(g ++ log_view (a # dir)) d' = Some es'" unfolding split by (simp add: map_add_def)
    then show ?thesis by (rule Cons.prems(4))
  next
    case (Some x)
    then have "d' \<noteq> d" using \<open>log_view dir d = None\<close> by auto
    then have old: "g d' = Some es'" using that by simp
    from Some obtain ls' where ls': "map_of dir d' = Some ls'" by (auto simp: log_view_def)
    then have "(d', ls') \<in> set (a # dir)" by (simp add: map_of_SomeD)
    with Cons.prems(3) obtain es1 where es1: "ls' = map Line es1" "\<exists>new. es1 = es' @ new"
      using old by blast
    have "log_view dir d' = Some es1" by (simp add: log_view_def ls' es1(1) comp_def)
    then have "(g ++ log_view (a # dir)) d' = Some es1" unfolding split by (simp add: map_add_def)
    from Cons.prems(4) [OF this] es1(2) show ?thesis by auto
  qed
  then have "ids_distinct (g(d \<mapsto> es))" by (rule ids_distinct_mono [OF assms(5)])
  from indexDay_mirrors [OF Cons.prems(1) pos es(2) this] obtain idx1 where
    1: "indexDay bytes d (map Line es) idx = (Inr (), idx1)" "mirrors bytes (g(d \<mapsto> es)) idx1" by auto
  have "\<exists>idx'. index_days bytes dir idx1 = (Inr (), idx') \<and> mirrors bytes ((g(d \<mapsto> es)) ++ log_view dir) idx'"
  proof (rule Cons.IH [OF 1(2)])
    show "\<forall>(d', ls) \<in> set dir. \<exists>es'. ls = map Line es' \<and> (\<forall>old. (g(d \<mapsto> es)) d' = Some old \<longrightarrow> (\<exists>new. es' = old @ new))"
    proof (clarify)
      fix d' ls' assume in_dir: "(d', ls') \<in> set dir"
      then have "d' \<noteq> d" using fresh by force
      moreover have "\<exists>es'. ls' = map Line es' \<and> (\<forall>old. g d' = Some old \<longrightarrow> (\<exists>new. es' = old @ new))"
        using Cons.prems(3) in_dir by auto
      ultimately show "\<exists>es'. ls' = map Line es' \<and> (\<forall>old. (g(d \<mapsto> es)) d' = Some old \<longrightarrow> (\<exists>new. es' = old @ new))"
        by simp
    qed
    show "distinct (map fst dir)" using Cons.prems(2) by simp
    show "\<exists>es''. h d' = Some es'' \<and> (\<exists>new. es'' = es' @ new)"
      if "((g(d \<mapsto> es)) ++ log_view dir) d' = Some es'" for d' es'
      using Cons.prems(4) that unfolding split .
  qed
  then show ?case by (simp add: a es(1) 1(1) split [unfolded a es(1)])
qed

lemma purge_days_none:
  "set (map fst (oi_sync idx)) \<subseteq> seen \<Longrightarrow> purge_days seen idx = idx"
proof -
  have "fold (\<lambda>day idx. if day \<in> seen then idx
             else \<lparr>oi_entries = del_where (\<lambda>r. or_day r = day) (oi_entries idx),
                   oi_sync = filter (\<lambda>(d, _). d \<noteq> day) (oi_sync idx)\<rparr>) ds i = i"
    if "set ds \<subseteq> seen" for ds i
    using that by (induction ds) auto
  then show "set (map fst (oi_sync idx)) \<subseteq> seen \<Longrightarrow> purge_days seen idx = idx" by (simp add: purge_days_def)
qed

lemma indexAllDays_mirrors:
  assumes "mirrors bytes (log_view dir) idx" and pos: "\<And>l. 0 < bytes l"
    and "log_ok dir'" and "log_extends dir dir'"
  shows "\<exists>idx'. indexAllDays bytes dir' idx = (Inr (), idx') \<and> mirrors bytes (log_view dir') idx'"
proof -
  have grow: "\<exists>new. log_view dir' d = Some (es @ new)" if "log_view dir d = Some es" for d es
    using that assms(4) by (fastforce simp: log_view_def log_extends_def)
  have whole: "log_view dir ++ log_view dir' = log_view dir'"
    using grow by (auto simp: map_add_def fun_eq_iff split: option.split) (metis not_None_eq)
  have "\<forall>(d, ls) \<in> set dir'. \<exists>es. ls = map Line es \<and> (\<forall>old. log_view dir d = Some old \<longrightarrow> (\<exists>new. es = old @ new))"
  proof (clarify)
    fix d ls assume "(d, ls) \<in> set dir'"
    moreover from this assms(3) have "map_of dir' d = Some ls" by (simp add: log_ok_def)
    moreover from calculation assms(3) obtain es where "ls = map Line es" by (auto simp: log_ok_def)
    ultimately have "ls = map Line es \<and> log_view dir' d = Some es" by (simp add: log_view_def comp_def)
    then show "\<exists>es. ls = map Line es \<and> (\<forall>old. log_view dir d = Some old \<longrightarrow> (\<exists>new. es = old @ new))"
      using grow by fastforce
  qed
  with index_days_mirrors [OF assms(1) pos, of dir' "log_view dir'"] assms(3) obtain idx' where
    idx': "index_days bytes dir' idx = (Inr (), idx')" "mirrors bytes (log_view dir') idx'"
    by (auto simp: log_ok_def whole)
  have "set (map fst (oi_sync idx')) \<subseteq> set (map fst dir')"
  proof
    fix d assume "d \<in> set (map fst (oi_sync idx'))"
    then have "map_of (oi_sync idx') d \<noteq> None" by (simp add: map_of_eq_None_iff)
    then have "log_view dir' d \<noteq> None" using idx'(2) by (auto simp: mirrors_def)
    then show "d \<in> set (map fst dir')" by (auto simp: log_view_def map_of_eq_None_iff)
  qed
  then show ?thesis using idx' by (simp add: indexAllDays_def purge_days_none)
qed


text \<open>What the queries of the index answer, once it mirrors the log.\<close>

lemma read_days_ok:
  assumes "log_ok dir" and "set ds \<subseteq> set (map fst dir)"
  shows "read_days dir ds = Inr (concat (map (\<lambda>d. the (log_view dir d)) ds))"
  using assms(2)
proof (induction ds)
  case (Cons d ds)
  then obtain ls where ls: "(d, ls) \<in> set dir" by auto
  with assms(1) have m: "map_of dir d = Some ls" by (simp add: log_ok_def)
  obtain es where "ls = map Line es" using assms(1) ls by (auto simp: log_ok_def)
  with m have "read_day dir d = Inr es" "log_view dir d = Some es"
    by (simp_all add: read_day_def day_lines_def log_view_def comp_def)
  with Cons show ?case by simp
qed simp

lemma readAll_ok:
  "log_ok dir \<Longrightarrow> readAllOpLogEntries dir = Inr (concat (map (\<lambda>d. the (log_view dir d)) (log_days dir)))"
  unfolding readAllOpLogEntries_def read_all_def by (rule read_days_ok) simp_all

definition view_rows :: "ops_dir \<Rightarrow> op_row list" where
  "view_rows dir = concat (map (\<lambda>d. rows_from d 0 (the (log_view dir d))) (log_days dir))"

lemma view_rows_entries: "map or_entry (view_rows dir) = concat (map (\<lambda>d. the (log_view dir d)) (log_days dir))"
  by (simp add: view_rows_def map_concat comp_def)

lemma sorted_positions:
  "sorted_wrt (<) ds \<Longrightarrow> sorted_wrt (<) (map row_pos (concat (map (\<lambda>d. rows_from d 0 (f d)) ds)))"
proof (induction ds)
  case (Cons d ds)
  let ?rest = "concat (map (\<lambda>d. rows_from d 0 (f d)) ds)"
  have "sorted_wrt (<) (map (Pair d) [0 ..< n])" for n
    by (simp add: sorted_wrt_map less_prod_def sorted_wrt_upt)
  moreover have "sorted_wrt (<) (map row_pos ?rest)" using Cons by simp
  moreover have "p < q" if p: "p \<in> set (map (Pair d) [0 ..< n])" and q: "q \<in> set (map row_pos ?rest)" for p q n
  proof -
    from q have "fst q \<in> set ds" by (auto simp: row_pos_def dest: rows_from_day)
    with Cons.prems have "d < fst q" by simp
    with p show ?thesis by (cases q) (auto simp: less_prod_def)
  qed
  ultimately show ?case by (simp add: sorted_wrt_append rows_from_pos del: set_map map_concat)
qed simp

lemma concat_pick:
  "distinct ds \<Longrightarrow> concat (map (\<lambda>d'. if d' = d then F d' else []) ds) = (if d \<in> set ds then F d else [])"
  by (induction ds) auto

lemma log_view_None: "log_view dir d = None \<longleftrightarrow> d \<notin> set (map fst dir)"
  by (simp add: log_view_def map_of_eq_None_iff)

lemma view_rows_day:
  assumes "log_ok dir"
  shows "day_rows d (view_rows dir) = (case log_view dir d of None \<Rightarrow> [] | Some es \<Rightarrow> rows_from d 0 es)"
proof -
  have only: "filter (\<lambda>r. or_day r = d) (rows_from d' 0 es) = (if d' = d then rows_from d' 0 es else [])" for d' es
    by (auto simp: filter_id_conv filter_empty_conv dest: rows_from_day)
  have "distinct (log_days dir)" using assms by (simp add: log_days_def log_ok_def)
  then have "day_rows d (view_rows dir) = (if d \<in> set (log_days dir) then rows_from d 0 (the (log_view dir d)) else [])"
    by (simp add: view_rows_def day_rows_def filter_concat comp_def only concat_pick
        del: set_log_days)
  then show ?thesis using log_view_None [of dir d] by (auto split: option.split simp del: set_map)
qed

lemma mirrors_rows:
  assumes "log_ok dir" and "mirrors bytes (log_view dir) idx"
  shows "mset (oi_entries idx) = mset (view_rows dir)"
proof (rule multiset_eqI)
  fix r
  have "count (mset xs) r = count (mset (day_rows (or_day r) xs)) r" for xs :: "op_row list"
    by (simp add: day_rows_def)
  moreover have "day_rows (or_day r) (view_rows dir) = day_rows (or_day r) (oi_entries idx)"
    using assms by (simp add: view_rows_day mirrors_def)
  ultimately show "count (mset (oi_entries idx)) r = count (mset (view_rows dir)) r" by metis
qed

lemma mirrors_allEntries:
  assumes "log_ok dir" and "mirrors bytes (log_view dir) idx"
  shows "readAllOpLogEntries dir = Inr (allEntries idx)"
proof -
  have "sorted_wrt (<) (log_days dir)"
    using assms(1) by (simp add: log_days_def log_ok_def strict_sorted_iff)
  from sorted_positions [OF this] have "sorted_wrt (<) (map row_pos (view_rows dir))"
    by (simp add: view_rows_def)
  then have pos: "sorted (map row_pos (view_rows dir))" "distinct (map row_pos (view_rows dir))"
    by (simp_all add: strict_sorted_iff)
  have "inj_on row_pos (set (oi_entries idx))"
    using pos(2) mset_eq_setD [OF mirrors_rows [OF assms]] by (simp add: distinct_map)
  then have "sort_key row_pos (oi_entries idx) = view_rows dir"
    by (intro sort_key_inj_key_eq [OF mirrors_rows [OF assms]] pos)
  then show ?thesis by (simp add: allEntries_def view_rows_entries readAll_ok [OF assms(1)])
qed

lemma find_map: "List.find P (map f xs) = map_option f (List.find (\<lambda>x. P (f x)) xs)"
  by (induction xs) auto

lemma find_unique_cong:
  assumes "set xs = set ys" and "\<And>a b. a \<in> set xs \<Longrightarrow> b \<in> set xs \<Longrightarrow> P a \<Longrightarrow> P b \<Longrightarrow> a = b"
  shows "List.find P xs = List.find P ys"
proof (cases "List.find P xs")
  case None
  then have "List.find P ys = None" using assms(1) by (simp add: find_None_iff)
  with None show ?thesis by simp
next
  case (Some a)
  then have a: "a \<in> set xs" "P a" by (auto simp: find_Some_iff)
  then obtain b where b: "List.find P ys = Some b" using assms(1) by (cases "List.find P ys") (auto simp: find_None_iff)
  then have "b \<in> set xs" "P b" using assms(1) by (auto simp: find_Some_iff)
  with a assms(2) b Some show ?thesis by auto
qed

lemma log_ids_unique:
  assumes "log_ok dir" and "readAllOpLogEntries dir = Inr es" and "a \<in> set es" and "b \<in> set es"
    and "oe_operation_id a = oe_operation_id b"
  shows "a = b"
proof -
  have es: "es = concat (map (\<lambda>d. the (log_view dir d)) (log_days dir))"
    using assms(1,2) by (simp add: readAll_ok)
  have view: "\<exists>d xs. log_view dir d = Some xs \<and> x \<in> set xs" if "x \<in> set es" for x
  proof -
    from that obtain d where d: "d \<in> set (map fst dir)" "x \<in> set (the (log_view dir d))"
      unfolding es by auto
    then obtain xs where "log_view dir d = Some xs" using log_view_None [of dir d] by (cases "log_view dir d") simp_all
    with d show ?thesis by auto
  qed
  obtain d xs where x: "log_view dir d = Some xs" "a \<in> set xs" using view [OF assms(3)] by blast
  obtain d' ys where y: "log_view dir d' = Some ys" "b \<in> set ys" using view [OF assms(4)] by blast
  have ids: "ids_distinct (log_view dir)" using assms(1) by (simp add: log_ok_def)
  have "d = d'" by (rule ids_distinctD(2) [OF ids x(1) y(1) x(2) y(2) assms(5)])
  then have "b \<in> set xs" using x y by simp
  with ids_distinctD(1) [OF ids x(1)] x(2) assms(5) show ?thesis by (auto simp: distinct_map inj_on_def)
qed

lemma mirrors_getByOperationId:
  assumes "log_ok dir" and "mirrors bytes (log_view dir) idx" and "readAllOpLogEntries dir = Inr es"
  shows "getByOperationId oid idx = List.find (\<lambda>e. oe_operation_id e = oid) es"
proof -
  have es: "es = allEntries idx" using mirrors_allEntries [OF assms(1,2)] assms(3) by simp
  have "getByOperationId oid idx = List.find (\<lambda>e. oe_operation_id e = oid) (map or_entry (oi_entries idx))"
    by (simp add: getByOperationId_def find_map)
  also have "\<dots> = List.find (\<lambda>e. oe_operation_id e = oid) es"
  proof (rule find_unique_cong)
    show "set (map or_entry (oi_entries idx)) = set es" by (simp add: es allEntries_def)
    fix a b assume "a \<in> set (map or_entry (oi_entries idx))" "b \<in> set (map or_entry (oi_entries idx))"
      "oe_operation_id a = oid" "oe_operation_id b = oid"
    then show "a = b" by (intro log_ids_unique [OF assms(1,3)]) (auto simp: es allEntries_def)
  qed
  finally show ?thesis .
qed

lemma mirrors_empty: "mirrors bytes (log_view []) \<lparr>oi_entries = [], oi_sync = []\<rparr>"
  by (simp add: mirrors_def log_view_def day_rows_def)

text \<open>The states of a log that only grows, each followed by a catch-up of the index.\<close>

fun catch_up_all :: "(op_line \<Rightarrow> nat) \<Rightarrow> ops_dir list \<Rightarrow> ops_index \<Rightarrow> unit outcome \<times> ops_index" where
  "catch_up_all bytes [] idx = (Inr (), idx)"
| "catch_up_all bytes (dir # dirs) idx =
     (case catchUp bytes dir idx of (Inl x, idx') \<Rightarrow> (Inl x, idx') | (Inr _, idx') \<Rightarrow> catch_up_all bytes dirs idx')"

fun append_only :: "ops_dir \<Rightarrow> ops_dir list \<Rightarrow> bool" where
  "append_only dir [] = True"
| "append_only dir (dir' # dirs) = (log_extends dir dir' \<and> append_only dir' dirs)"

lemma catch_up_all_mirrors:
  assumes "\<And>l. 0 < bytes l"
  shows "mirrors bytes (log_view dir) idx \<Longrightarrow> append_only dir dirs \<Longrightarrow> \<forall>d \<in> set dirs. log_ok d \<Longrightarrow>
    \<exists>idx'. catch_up_all bytes dirs idx = (Inr (), idx') \<and> mirrors bytes (log_view (last (dir # dirs))) idx'"
proof (induction dirs arbitrary: dir idx)
  case (Cons a dirs)
  then obtain idx1 where "indexAllDays bytes a idx = (Inr (), idx1)" "mirrors bytes (log_view a) idx1"
    using indexAllDays_mirrors [OF Cons.prems(1) assms, of a] by auto
  with Cons.IH [of a idx1] Cons.prems show ?case by (auto simp: catchUp_def)
qed simp

section \<open>Properties\<close>

text \<open>C25: The derived index mirrors the canonical log. Take a log that only grows, whose files parse and
  in which no operation id occurs twice. After a rebuild at some point and a catch-up after each later
  growth, every catch-up succeeds, the entries of the index in index order are exactly what reading
  the whole log gives, and a lookup by operation id finds what a scan of the log finds, although a
  catch-up skips every day whose byte size is unchanged.\<close>

theorem ops_index_mirrors_log:
  assumes "\<And>l. 0 < bytes l" and "\<forall>d \<in> set (dir # dirs). log_ok d" and "append_only dir dirs"
  shows "\<exists>idx' es. (let (r, i) = rebuildIndex bytes dir idx in r = Inr () \<and> catch_up_all bytes dirs i = (Inr (), idx'))
    \<and> readAllOpLogEntries (last (dir # dirs)) = Inr es \<and> allEntries idx' = es
    \<and> getByOperationId oid idx' = List.find (\<lambda>e. oe_operation_id e = oid) es"
proof -
  have "log_extends [] dir" by (simp add: log_extends_def)
  then obtain i where i: "rebuildIndex bytes dir idx = (Inr (), i)" "mirrors bytes (log_view dir) i"
    using indexAllDays_mirrors [where bytes = bytes, OF mirrors_empty assms(1), of dir] assms(2)
    by (auto simp: rebuildIndex_def)
  from catch_up_all_mirrors [OF assms(1) i(2) assms(3)] assms(2) obtain idx' where
    idx': "catch_up_all bytes dirs i = (Inr (), idx')" "mirrors bytes (log_view (last (dir # dirs))) idx'" by auto
  have ok: "log_ok (last (dir # dirs))" using assms(2) by (metis last_in_set list.distinct(1))
  note read = mirrors_allEntries [OF ok idx'(2)]
  show ?thesis
    using i idx' read mirrors_getByOperationId [OF ok idx'(2) read] by (intro exI [of _ idx']) auto
qed


definition demo_entry :: "char \<Rightarrow> op_entry" where
  "demo_entry c = \<lparr>oe_operation_id = ''op_'' @ replicate 25 (CHR ''0'') @ [c], oe_actor_id = ''user:a'',
     oe_timestamp = ''2026-01-01T00:00:00Z'', oe_op = ''observe'', oe_details = None\<rparr>"

definition demo_dir1 :: ops_dir where
  "demo_dir1 = [(''2026-01-02'', [Line (demo_entry (CHR ''1''))])]"

definition demo_dir2 :: ops_dir where
  "demo_dir2 = [(''2026-01-02'', [Line (demo_entry (CHR ''1'')), Line (demo_entry (CHR ''2''))]),
     (''2026-01-01'', [Line (demo_entry (CHR ''3''))])]"

lemma demo_dirs_ok: "log_ok demo_dir1" "log_ok demo_dir2" "append_only demo_dir1 [demo_dir2]"
proof -
  have [simp]: "oe_operation_id (demo_entry a) = oe_operation_id (demo_entry b) \<longleftrightarrow> a = b" for a b
    by (simp add: demo_entry_def)
  show "log_ok demo_dir1"
    by (auto simp: log_ok_def demo_dir1_def log_view_def ids_distinct_def split: if_splits
        intro: exI [of _ "[demo_entry (CHR ''1'')]"])
  show "log_ok demo_dir2"
    by (auto simp: log_ok_def demo_dir2_def log_view_def ids_distinct_def split: if_splits
        intro: exI [of _ "[demo_entry (CHR ''1''), demo_entry (CHR ''2'')]"] exI [of _ "[demo_entry (CHR ''3'')]"])
  show "append_only demo_dir1 [demo_dir2]"
    by (simp add: log_extends_def demo_dir1_def demo_dir2_def)
qed

theorem ops_index_mirrors_log_witness:
  "\<exists>idx'. (let (r, i) = rebuildIndex (\<lambda>_. 1) demo_dir1 \<lparr>oi_entries = [], oi_sync = []\<rparr>
      in r = Inr () \<and> catch_up_all (\<lambda>_. 1) [demo_dir2] i = (Inr (), idx'))
    \<and> allEntries idx' = [demo_entry (CHR ''3''), demo_entry (CHR ''1''), demo_entry (CHR ''2'')]"
proof -
  have "readAllOpLogEntries demo_dir2 = Inr [demo_entry (CHR ''3''), demo_entry (CHR ''1''), demo_entry (CHR ''2'')]"
    by code_simp
  then show ?thesis
    using ops_index_mirrors_log [where bytes = "\<lambda>_. 1" and dir = demo_dir1 and dirs = "[demo_dir2]"
        and idx = "\<lparr>oi_entries = [], oi_sync = []\<rparr>" and oid = "''x''"] demo_dirs_ok
    by auto
qed

text \<open>C7: The log append is the commit signal, written last. Take a commit whose operation id is not in the log. If the work
  fails, its error is the result, its partial artifacts stay, and neither the log nor the fencing store changes. If the work succeeds
  and the append is refused, the artifacts stay, for recovery to find, and the log does not change. If the commit succeeds, the
  artifacts are those of the work at the time of the commit, the log gains exactly one entry, with the id, the actor, the operation and the
  details of the descriptor and the stamp of the fence, and no other day changes.\<close>

theorem runCommit_signal_last:
  assumes "findExistingOp (cw_ops w) (cd_operation_id d) = Inr None" and "runCommit now fence d work (a, w) = (r, a', w')"
  shows "(\<forall>x a1. work now a = (Inl x, a1) \<longrightarrow> r = Inl x \<and> a' = a1 \<and> w' = w)
    \<and> (\<forall>v a1 x. work now a = (Inr v, a1) \<longrightarrow> r = Inl x \<longrightarrow> a' = a1 \<and> cw_ops w' = cw_ops w)
    \<and> (\<forall>ts v. r = Inr (ts, v) \<longrightarrow> ts = now \<and> v \<noteq> None \<and> work now a = (Inr (the v), a')
        \<and> (\<forall>day. day_lines day (cw_ops w') = day_lines day (cw_ops w)
             @ (if day = dayOfTimestamp now
                then [Line (with_stamp (Option.bind fence mf_stamp)
                   \<lparr>oe_operation_id = cd_operation_id d, oe_actor_id = cd_actor_id d, oe_timestamp = now, oe_op = cd_op d,
                    oe_details = cd_details d\<rparr>)]
                else [])))"
proof -
  let ?e = "\<lparr>oe_operation_id = cd_operation_id d, oe_actor_id = cd_actor_id d,
     oe_timestamp = now, oe_op = cd_op d, oe_details = cd_details d\<rparr>"
  obtain q a1 where work: "work now a = (q, a1)" by (cases "work now a")
  show ?thesis
  proof (cases q)
    case (Inl x)
    then show ?thesis using assms work by (auto simp: runCommit_def)
  next
    case (Inr v)
    obtain q2 w2 where app: "appendCommittedOpLogEntries now [?e] fence w = (q2, w2)"
      by (cases "appendCommittedOpLogEntries now [?e] fence w")
    have run: "r = (case q2 of Inl x \<Rightarrow> Inl x | Inr _ \<Rightarrow> Inr (now, Some v))" "a' = a1" "w' = w2"
      using assms work Inr app by (auto simp: runCommit_def split: sum.splits)
    show ?thesis
    proof (cases q2)
      case (Inl x)
      then show ?thesis using appendCommitted_refused app run work \<open>q = Inr v\<close> by auto
    next
      case (Inr u)
      then have "cw_ops w2 = append_day (dayOfTimestamp now) [Line (with_stamp (Option.bind fence mf_stamp) ?e)] (cw_ops w)"
        using appendCommitted_ok [of now ?e fence w u w2] app by simp
      then show ?thesis using run work \<open>q = Inr v\<close> Inr by auto
    qed
  qed
qed


definition demo_descriptor :: commit_descriptor where
  "demo_descriptor = \<lparr>cd_operation_id = ''op_00000000000000000000000009'', cd_actor_id = ''user:a'',
     cd_op = ''observe'', cd_details = Some [(''n'', JNum 1)]\<rparr>"

definition demo_world :: commit_world where
  "demo_world = \<lparr>cw_ops = demo_dir2, cw_fence = snd (claim (JInt 2) ''claim'' ''t0'' (open_store None [] ''t0''))\<rparr>"

definition demo_work :: "string \<Rightarrow> nat \<Rightarrow> string outcome \<times> nat" where
  "demo_work ts n = (Inr ts, Suc n)"

theorem runCommit_signal_last_witness:
  "\<exists>r a' w'. runCommit ''2026-01-03T00:00:00Z'' (Some \<lparr>mf_token = Some 1, mf_writer = ''w''\<rparr>) demo_descriptor demo_work
       (0, demo_world) = (Inl r, a', w') \<and> a' = 1 \<and> cw_ops w' = cw_ops demo_world"
proof -
  let ?run = "runCommit ''2026-01-03T00:00:00Z'' (Some \<lparr>mf_token = Some 1, mf_writer = ''w''\<rparr>) demo_descriptor demo_work (0, demo_world)"
  have new: "findExistingOp (cw_ops demo_world) (cd_operation_id demo_descriptor) = Inr None" by code_simp
  have "fst ?run = Inl (staleError ''observe'' 1 2)" "fst (snd ?run) = 1" by code_simp+
  then have run: "?run = (Inl (staleError ''observe'' 1 2), 1, snd (snd ?run))" by (simp add: prod_eq_iff)
  have "demo_work ''2026-01-03T00:00:00Z'' 0 = (Inr ''2026-01-03T00:00:00Z'', 1)" by (simp add: demo_work_def)
  with runCommit_signal_last [OF new run, THEN conjunct2, THEN conjunct1] have "cw_ops (snd (snd ?run)) = cw_ops demo_world" by blast
  with run show ?thesis by blast
qed

text \<open>A committed operation is replayed, not repeated. Running the same descriptor again, with any
  work and at any later time, and even by a writer whose epoch has become stale, returns the recorded
  commit time and changes nothing; reusing the operation id for another kind of operation is refused and
  changes nothing. The one exception is an operation committed under a fencing stamp with no details at
  all: its retry is refused as a conflict.\<close>

lemma runCommit_retry:
  assumes "findExistingOp (cw_ops w) (cd_operation_id d) = Inr None"
    and "runCommit now fence d work (a, w) = (Inr (ts, v), a', w')"
  shows "runCommit now' fence' d work' (b, w') =
      (if cd_details d = None \<and> Option.bind fence mf_stamp \<noteq> None
       then (Inl (idempotency_conflict (cd_operation_id d)), b, w') else (Inr (ts, None), b, w'))
    \<and> (cd_operation_id d' = cd_operation_id d \<and> cd_op d' \<noteq> cd_op d \<longrightarrow>
       runCommit now' fence' d' work' (b, w') = (Inl (idempotency_conflict (cd_operation_id d)), b, w'))"
proof -
  let ?e = "\<lparr>oe_operation_id = cd_operation_id d, oe_actor_id = cd_actor_id d,
     oe_timestamp = now, oe_op = cd_op d, oe_details = cd_details d\<rparr>"
  let ?st = "Option.bind fence mf_stamp"
  have "ts = now" and "\<exists>u. appendCommittedOpLogEntries now [?e] fence w = (Inr u, w')"
    using assms by (auto simp: runCommit_def split: sum.splits prod.splits)
  then have "cw_ops w' = append_day (dayOfTimestamp now) [Line (with_stamp ?st ?e)] (cw_ops w)"
    using appendCommitted_ok by fastforce
  then have found: "findExistingOp (cw_ops w') (cd_operation_id d) = Inr (Some (with_stamp ?st ?e))"
    using findExistingOp_after_append [of "cw_ops w" "with_stamp ?st ?e"] assms(1) by simp
  have same: "withoutFenceStamp (oe_details (with_stamp ?st ?e)) = withoutFenceStamp (cd_details d) \<longleftrightarrow>
      \<not> (cd_details d = None \<and> ?st \<noteq> None)"
  proof (cases ?st)
    case None
    then show ?thesis by (simp add: with_stamp_def)
  next
    case (Some s)
    then show ?thesis using withoutFenceStamp_with_stamp [of s ?e]
      by (cases "cd_details d") (simp_all add: withoutFenceStamp_def)
  qed
  show ?thesis using found same \<open>ts = now\<close> by (auto simp: runCommit_def)
qed

lemma runCommit_retry_example:
  "\<exists>ts v a' w'. runCommit ''2026-01-03T00:00:00Z'' (Some \<lparr>mf_token = Some 2, mf_writer = ''w''\<rparr>) demo_descriptor demo_work
       (0, demo_world) = (Inr (ts, v), a', w')
     \<and> runCommit ''2026-01-04T00:00:00Z'' (Some \<lparr>mf_token = Some 1, mf_writer = ''w''\<rparr>) demo_descriptor demo_work (a', w')
        = (Inr (ts, None), a', w')"
proof -
  let ?run = "runCommit ''2026-01-03T00:00:00Z'' (Some \<lparr>mf_token = Some 2, mf_writer = ''w''\<rparr>) demo_descriptor demo_work (0, demo_world)"
  have new: "findExistingOp (cw_ops demo_world) (cd_operation_id demo_descriptor) = Inr None" by code_simp
  have "fst ?run = Inr (''2026-01-03T00:00:00Z'', Some ''2026-01-03T00:00:00Z'')" by code_simp
  then have run: "?run = (Inr (''2026-01-03T00:00:00Z'', Some ''2026-01-03T00:00:00Z''), fst (snd ?run), snd (snd ?run))"
    by (simp add: prod_eq_iff)
  have "cd_details demo_descriptor \<noteq> None" by (simp add: demo_descriptor_def)
  with runCommit_retry [OF new run] run show ?thesis by (metis (no_types, lifting))
qed

end
