(* ===== verification/Checkpoint.thy ===== *)
theory Checkpoint
  imports Claim_Log Ops_Log
begin

text \<open>
  Session checkpoints (\<^verbatim>\<open>session/checkpoint.ts\<close>): the bounded envelope a host writes with OBSERVE, its validation, its id, which
  is a hash of the session, the trigger and the generation, and its rendering as text. An envelope is a JSON value; SHA-256 is the
  parameter \<open>sha\<close>.
\<close>

section \<open>The envelope\<close>

datatype checkpoint_trigger = PostTurn | PreCompaction | Shutdown | Manual

record session_checkpoint =
  ce_operation_id :: string
  ce_checkpoint_id :: string
  ce_session_id :: string
  ce_scope :: string
  ce_trigger :: checkpoint_trigger
  ce_generation :: nat
  ce_summary :: string
  ce_decisions :: "string list"
  ce_open_loops :: "string list"
  ce_source_digest :: string
  ce_envelope :: json

definition trigger_name :: "checkpoint_trigger \<Rightarrow> string" where
  "trigger_name t =
     (case t of PostTurn \<Rightarrow> ''post_turn'' | PreCompaction \<Rightarrow> ''pre_compaction'' | Shutdown \<Rightarrow> ''shutdown'' | Manual \<Rightarrow> ''manual'')"

definition SESSION_CHECKPOINT_TRIGGERS :: "checkpoint_trigger list" where
  "SESSION_CHECKPOINT_TRIGGERS = [PostTurn, PreCompaction, Shutdown, Manual]"

definition trigger_of :: "json option \<Rightarrow> checkpoint_trigger option" where
  "trigger_of j = List.find (\<lambda>t. j = Some (JStr (trigger_name t))) SESSION_CHECKPOINT_TRIGGERS"

definition LIMIT_totalChars :: nat where "LIMIT_totalChars = 16384"
definition LIMIT_idChars :: nat where "LIMIT_idChars = 256"
definition LIMIT_scopeChars :: nat where "LIMIT_scopeChars = 256"
definition LIMIT_summaryChars :: nat where "LIMIT_summaryChars = 4000"
definition LIMIT_listItems :: nat where "LIMIT_listItems = 20"
definition LIMIT_listItemChars :: nat where "LIMIT_listItemChars = 1000"

definition deriveSessionCheckpointId :: "(string \<Rightarrow> string) \<Rightarrow> string \<Rightarrow> checkpoint_trigger \<Rightarrow> nat \<Rightarrow> string" where
  "deriveSessionCheckpointId sha sessionId trigger generation =
     ''checkpoint_'' @ sha (sessionId @ CHR 0x00 # trigger_name trigger @ CHR 0x00 # nat_to_string generation)"

definition json_field :: "json \<Rightarrow> string \<Rightarrow> json option" where
  "json_field j k = (case j of JObj kvs \<Rightarrow> map_of kvs k | _ \<Rightarrow> None)"

definition isSessionCheckpointContent :: "json \<Rightarrow> bool" where
  "isSessionCheckpointContent v = (json_field v ''kind'' = Some (JStr ''session_checkpoint''))"

section \<open>Validation\<close>

definition invalid_checkpoint :: "'a outcome" where
  "invalid_checkpoint = Inl (JsError ''SessionCheckpointValidationError'')"

definition requireBoundedString :: "json option \<Rightarrow> nat \<Rightarrow> string outcome" where
  "requireBoundedString v maxChars =
     (case v of
        Some (JStr s) \<Rightarrow> if js_trim s = [] \<or> maxChars < length s then invalid_checkpoint else Inr s
      | _ \<Rightarrow> invalid_checkpoint)"

fun bounded_items :: "json list \<Rightarrow> string list outcome" where
  "bounded_items [] = Inr []"
| "bounded_items (j # js) =
     (case requireBoundedString (Some j) LIMIT_listItemChars of
        Inl x \<Rightarrow> Inl x
      | Inr s \<Rightarrow> (case bounded_items js of Inl x \<Rightarrow> Inl x | Inr ss \<Rightarrow> Inr (s # ss)))"

definition requireBoundedList :: "json option \<Rightarrow> string list outcome" where
  "requireBoundedList v =
     (case v of
        Some (JArr js) \<Rightarrow> if LIMIT_listItems < length js then invalid_checkpoint else bounded_items js
      | _ \<Rightarrow> invalid_checkpoint)"

definition is_hex :: "char \<Rightarrow> bool" where
  "is_hex c = ((CHR ''a'' \<le> c \<and> c \<le> CHR ''f'') \<or> (CHR ''0'' \<le> c \<and> c \<le> CHR ''9''))"

definition valid_digest :: "string \<Rightarrow> bool" where
  "valid_digest s = (starts_with s ''sha256:'' \<and> length s = 71 \<and> list_all is_hex (drop 7 s))"

definition bind_field :: "'a outcome \<Rightarrow> ('a \<Rightarrow> 'b outcome) \<Rightarrow> 'b outcome" where
  "bind_field r f = (case r of Inl x \<Rightarrow> Inl x | Inr a \<Rightarrow> f a)"

definition guard_field :: "bool \<Rightarrow> 'a outcome \<Rightarrow> 'a outcome" where
  "guard_field ok k = (if ok then k else invalid_checkpoint)"

definition validateSessionCheckpoint :: "(string \<Rightarrow> string) \<Rightarrow> json \<Rightarrow> session_checkpoint outcome" where
  "validateSessionCheckpoint sha v =
     guard_field (isSessionCheckpointContent v)
     (guard_field (json_field v ''version'' = Some (JNum 1))
     (bind_field (requireBoundedString (json_field v ''operation_id'') 29) (\<lambda>oid.
      guard_field (isValidOperationId oid)
     (bind_field (requireBoundedString (json_field v ''session_id'') LIMIT_idChars) (\<lambda>session.
      bind_field (requireBoundedString (json_field v ''scope'') LIMIT_scopeChars) (\<lambda>scope.
      bind_field (requireBoundedString (json_field v ''summary'') LIMIT_summaryChars) (\<lambda>summary.
      bind_field (requireBoundedList (json_field v ''decisions'')) (\<lambda>decisions.
      bind_field (requireBoundedList (json_field v ''open_loops'')) (\<lambda>loops.
      bind_field (requireBoundedString (json_field v ''source_digest'') 71) (\<lambda>digest.
      guard_field (valid_digest digest)
     (case trigger_of (json_field v ''trigger'') of
        None \<Rightarrow> invalid_checkpoint
      | Some trigger \<Rightarrow>
          (case json_field v ''generation'' of
             Some (JNum n) \<Rightarrow>
               guard_field (isSafeInteger (JInt n) \<and> 0 \<le> n)
              (guard_field (json_field v ''checkpoint_id'' = Some (JStr (deriveSessionCheckpointId sha session trigger (nat n))))
              (guard_field (length (json_stringify v) \<le> LIMIT_totalChars)
                 (Inr \<lparr>ce_operation_id = oid, ce_checkpoint_id = deriveSessionCheckpointId sha session trigger (nat n),
                       ce_session_id = session, ce_scope = scope, ce_trigger = trigger, ce_generation = nat n,
                       ce_summary = summary, ce_decisions = decisions, ce_open_loops = loops, ce_source_digest = digest,
                       ce_envelope = v\<rparr>)))
           | _ \<Rightarrow> invalid_checkpoint))))))))))))"

section \<open>Rendering\<close>

fun join_with :: "string \<Rightarrow> string list \<Rightarrow> string" where
  "join_with sep [] = []"
| "join_with sep [x] = x"
| "join_with sep (x # y # xs) = x @ sep @ join_with sep (y # xs)"

definition NEWLINE :: string where
  "NEWLINE = [CHR 0x0A]"

definition bullets :: "string \<Rightarrow> string list \<Rightarrow> string list" where
  "bullets title items = (if items = [] then [] else [title @ NEWLINE @ join_with NEWLINE (map (\<lambda>i. ''- '' @ i) items)])"

definition renderSessionCheckpoint :: "session_checkpoint \<Rightarrow> string" where
  "renderSessionCheckpoint c =
     join_with (NEWLINE @ NEWLINE)
       ((''Checkpoint: '' @ ce_summary c) # bullets ''Decisions:'' (ce_decisions c) @ bullets ''Open loops:'' (ce_open_loops c))"

section \<open>Lemmas\<close>

lemma bind_field_ok [simp]: "bind_field r f = Inr b \<longleftrightarrow> (\<exists>a. r = Inr a \<and> f a = Inr b)"
  by (cases r) (simp_all add: bind_field_def)

lemma guard_field_ok [simp]: "guard_field ok k = Inr b \<longleftrightarrow> ok \<and> k = Inr b"
  by (simp add: guard_field_def invalid_checkpoint_def)

lemma bounded_string_ok [simp]:
  "requireBoundedString v n = Inr s \<longleftrightarrow> v = Some (JStr s) \<and> js_trim s \<noteq> [] \<and> length s \<le> n"
  by (auto simp: requireBoundedString_def invalid_checkpoint_def split: option.splits json.splits)

lemma bounded_items_ok:
  "bounded_items js = Inr ss \<longleftrightarrow> js = map JStr ss \<and> (\<forall>s \<in> set ss. js_trim s \<noteq> [] \<and> length s \<le> LIMIT_listItemChars)"
proof (induction js arbitrary: ss)
  case (Cons j js)
  show ?case
  proof (cases "requireBoundedString (Some j) LIMIT_listItemChars")
    case (Inl x)
    then have "\<not> (\<exists>s. requireBoundedString (Some j) LIMIT_listItemChars = Inr s)" by simp
    then have "\<not> (\<exists>s. j = JStr s \<and> js_trim s \<noteq> [] \<and> length s \<le> LIMIT_listItemChars)" by simp
    then show ?thesis using Inl by auto
  next
    case (Inr s)
    then have j: "j = JStr s" "js_trim s \<noteq> []" "length s \<le> LIMIT_listItemChars" by simp_all
    have "bounded_items (j # js) = Inr ss \<longleftrightarrow> (\<exists>rest. bounded_items js = Inr rest \<and> ss = s # rest)"
      unfolding bounded_items.simps Inr by (auto split: sum.splits)
    also have "\<dots> \<longleftrightarrow> (\<exists>rest. js = map JStr rest \<and> (\<forall>t \<in> set rest. js_trim t \<noteq> [] \<and> length t \<le> LIMIT_listItemChars) \<and> ss = s # rest)"
      by (simp only: Cons.IH conj_assoc)
    also have "\<dots> \<longleftrightarrow> j # js = map JStr ss \<and> (\<forall>t \<in> set ss. js_trim t \<noteq> [] \<and> length t \<le> LIMIT_listItemChars)"
      using j by (cases ss) auto
    finally show ?thesis .
  qed
qed auto

lemma bounded_list_ok:
  "requireBoundedList v = Inr ss \<longleftrightarrow> v = Some (JArr (map JStr ss)) \<and> length ss \<le> LIMIT_listItems
     \<and> (\<forall>s \<in> set ss. js_trim s \<noteq> [] \<and> length s \<le> LIMIT_listItemChars)"
  by (auto simp: requireBoundedList_def invalid_checkpoint_def bounded_items_ok split: option.splits json.splits)

lemma trigger_of_ok [simp]: "trigger_of j = Some t \<longleftrightarrow> j = Some (JStr (trigger_name t))"
  by (cases t) (auto simp: trigger_of_def SESSION_CHECKPOINT_TRIGGERS_def trigger_name_def split: if_splits)

text \<open>The envelope of a checkpoint, with its fields in the order of the interface.\<close>

definition envelope_of :: "session_checkpoint \<Rightarrow> json" where
  "envelope_of c =
     JObj [(''kind'', JStr ''session_checkpoint''), (''version'', JNum 1), (''operation_id'', JStr (ce_operation_id c)),
           (''checkpoint_id'', JStr (ce_checkpoint_id c)), (''session_id'', JStr (ce_session_id c)), (''scope'', JStr (ce_scope c)),
           (''trigger'', JStr (trigger_name (ce_trigger c))), (''generation'', JNum (int (ce_generation c))),
           (''summary'', JStr (ce_summary c)), (''decisions'', JArr (map JStr (ce_decisions c))),
           (''open_loops'', JArr (map JStr (ce_open_loops c))), (''source_digest'', JStr (ce_source_digest c))]"

definition items_bounded :: "string list \<Rightarrow> bool" where
  "items_bounded ss = (length ss \<le> LIMIT_listItems \<and> (\<forall>s \<in> set ss. js_trim s \<noteq> [] \<and> length s \<le> LIMIT_listItemChars))"

definition checkpoint_ok :: "(string \<Rightarrow> string) \<Rightarrow> session_checkpoint \<Rightarrow> bool" where
  "checkpoint_ok sha c =
     (isValidOperationId (ce_operation_id c)
      \<and> ce_checkpoint_id c = deriveSessionCheckpointId sha (ce_session_id c) (ce_trigger c) (ce_generation c)
      \<and> js_trim (ce_session_id c) \<noteq> [] \<and> length (ce_session_id c) \<le> LIMIT_idChars
      \<and> js_trim (ce_scope c) \<noteq> [] \<and> length (ce_scope c) \<le> LIMIT_scopeChars
      \<and> js_trim (ce_summary c) \<noteq> [] \<and> length (ce_summary c) \<le> LIMIT_summaryChars
      \<and> items_bounded (ce_decisions c) \<and> items_bounded (ce_open_loops c) \<and> valid_digest (ce_source_digest c)
      \<and> int (ce_generation c) \<le> max_safe_integer \<and> length (json_stringify (ce_envelope c)) \<le> LIMIT_totalChars)"

lemma json_field_JObj [simp]: "json_field (JObj kvs) k = map_of kvs k"
  by (simp add: json_field_def)

lemma not_blank: "\<not> is_js_space p \<Longrightarrow> js_trim (p # q) \<noteq> []"
  by (auto simp: js_trim_def dropWhile_eq_Nil_conv)

lemma operation_id_text: "isValidOperationId v \<Longrightarrow> js_trim v \<noteq> [] \<and> length v = 29"
  by (auto simp: isValidOperationId_def starts_with_iff is_js_space_def not_blank)

lemma digest_text: "valid_digest v \<Longrightarrow> js_trim v \<noteq> [] \<and> length v = 71"
  by (auto simp: valid_digest_def starts_with_iff is_js_space_def not_blank)

text \<open>What a validated envelope is, and that the envelope of every such checkpoint is validated.\<close>

lemma validated_checkpoint:
  assumes "validateSessionCheckpoint sha v = Inr c"
  shows "checkpoint_ok sha c \<and> ce_envelope c = v \<and> isSessionCheckpointContent v"
proof -
  obtain oid session scope summary decisions loops digest where k:
    "isSessionCheckpointContent v" "isValidOperationId oid" "js_trim session \<noteq> []" "length session \<le> LIMIT_idChars"
    "js_trim scope \<noteq> []" "length scope \<le> LIMIT_scopeChars" "js_trim summary \<noteq> []" "length summary \<le> LIMIT_summaryChars"
    "items_bounded decisions" "items_bounded loops" "valid_digest digest"
    "(case trigger_of (json_field v ''trigger'') of None \<Rightarrow> invalid_checkpoint
      | Some trigger \<Rightarrow> (case json_field v ''generation'' of
          Some (JNum n) \<Rightarrow> guard_field (isSafeInteger (JInt n) \<and> 0 \<le> n)
            (guard_field (json_field v ''checkpoint_id'' = Some (JStr (deriveSessionCheckpointId sha session trigger (nat n))))
            (guard_field (length (json_stringify v) \<le> LIMIT_totalChars)
               (Inr \<lparr>ce_operation_id = oid, ce_checkpoint_id = deriveSessionCheckpointId sha session trigger (nat n),
                     ce_session_id = session, ce_scope = scope, ce_trigger = trigger, ce_generation = nat n,
                     ce_summary = summary, ce_decisions = decisions, ce_open_loops = loops, ce_source_digest = digest,
                     ce_envelope = v\<rparr>)))
        | _ \<Rightarrow> invalid_checkpoint)) = Inr c"
    using assms unfolding validateSessionCheckpoint_def bind_field_ok guard_field_ok bounded_string_ok bounded_list_ok items_bounded_def by blast
  obtain t n where t: "trigger_of (json_field v ''trigger'') = Some t" "json_field v ''generation'' = Some (JNum n)"
    using k(12) by (auto simp: invalid_checkpoint_def split: option.splits json.splits)
  show ?thesis using k t by (auto simp: checkpoint_ok_def isSafeInteger_def)
qed

lemma checkpoint_validates:
  assumes "checkpoint_ok sha c" and "ce_envelope c = envelope_of c"
  shows "validateSessionCheckpoint sha (ce_envelope c) = Inr c"
proof -
  have texts: "js_trim (ce_operation_id c) \<noteq> []" "length (ce_operation_id c) \<le> 29" "js_trim (ce_source_digest c) \<noteq> []" "length (ce_source_digest c) \<le> 71"
    using assms(1) operation_id_text digest_text by (auto simp: checkpoint_ok_def)
  have size: "length (json_stringify (envelope_of c)) \<le> LIMIT_totalChars" using assms by (simp add: checkpoint_ok_def)
  have fields: "json_field (envelope_of c) ''kind'' = Some (JStr ''session_checkpoint'')" "json_field (envelope_of c) ''version'' = Some (JNum 1)"
    "json_field (envelope_of c) ''operation_id'' = Some (JStr (ce_operation_id c))" "json_field (envelope_of c) ''session_id'' = Some (JStr (ce_session_id c))"
    "json_field (envelope_of c) ''checkpoint_id'' = Some (JStr (ce_checkpoint_id c))" "json_field (envelope_of c) ''scope'' = Some (JStr (ce_scope c))"
    "json_field (envelope_of c) ''trigger'' = Some (JStr (trigger_name (ce_trigger c)))" "json_field (envelope_of c) ''generation'' = Some (JNum (int (ce_generation c)))"
    "json_field (envelope_of c) ''summary'' = Some (JStr (ce_summary c))" "json_field (envelope_of c) ''decisions'' = Some (JArr (map JStr (ce_decisions c)))"
    "json_field (envelope_of c) ''open_loops'' = Some (JArr (map JStr (ce_open_loops c)))" "json_field (envelope_of c) ''source_digest'' = Some (JStr (ce_source_digest c))"
    by (simp_all add: envelope_of_def)
  have trigger: "trigger_of (Some (JStr (trigger_name t))) = Some t" for t by simp
  have c: "c = \<lparr>ce_operation_id = ce_operation_id c, ce_checkpoint_id = ce_checkpoint_id c, ce_session_id = ce_session_id c, ce_scope = ce_scope c,
      ce_trigger = ce_trigger c, ce_generation = ce_generation c, ce_summary = ce_summary c, ce_decisions = ce_decisions c,
      ce_open_loops = ce_open_loops c, ce_source_digest = ce_source_digest c, ce_envelope = envelope_of c\<rparr>"
    using assms(2) by (cases c) simp
  have strings: "map JStr xs = map JStr ys \<longleftrightarrow> xs = ys" for xs ys by (simp add: inj_map_eq_map inj_def)
  have c': "ce_checkpoint_id c = deriveSessionCheckpointId sha (ce_session_id c) (ce_trigger c) (ce_generation c)"
    using assms(1) by (simp add: checkpoint_ok_def)
  show ?thesis
    unfolding assms(2) validateSessionCheckpoint_def bind_field_ok guard_field_ok bounded_string_ok bounded_list_ok fields trigger
    using assms(1) texts size c [symmetric] c'
    by (simp add: strings isSessionCheckpointContent_def fields checkpoint_ok_def items_bounded_def isSafeInteger_def)
qed

text \<open>Two checkpoints with one id are of one session, trigger and generation, when no two texts have one hash: the two separators
  cannot be confused, even if the id of a session holds them.\<close>

definition read_digits :: "string \<Rightarrow> nat" where
  "read_digits s = fold (\<lambda>c n. 10 * n + (of_char c - 48)) s 0"

lemma read_digits_nat: "read_digits (nat_to_string n) = n"
proof (induction n rule: nat_to_string.induct)
  case (1 n)
  have digit: "(of_char (char_of (48 + k)) :: nat) = 48 + k" if "k < 10" for k :: nat
    using that by simp
  show ?case
  proof (cases "n < 10")
    case True
    then show ?thesis using digit [of n] by (simp add: nat_to_string.simps [of n] read_digits_def)
  next
    case False
    then show ?thesis using 1 digit [of "n mod 10"] by (simp add: nat_to_string.simps [of n] read_digits_def)
  qed
qed

lemma digits_no_nul: "CHR 0x00 \<notin> set (nat_to_string n)"
proof (induction n rule: nat_to_string.induct)
  case (1 n)
  have nul: "char_of (48 + k) \<noteq> CHR 0x00" if "k < 10" for k :: nat
  proof
    assume "char_of (48 + k) = CHR 0x00"
    from arg_cong [OF this, of "of_char :: char \<Rightarrow> nat"] that show False by simp
  qed
  show ?case
  proof (cases "n < 10")
    case True
    then show ?thesis using nul [of n] by (auto simp: nat_to_string.simps [of n])
  next
    case False
    then show ?thesis using 1 nul [of "n mod 10"] by (auto simp: nat_to_string.simps [of n])
  qed
qed

lemma trigger_no_nul: "CHR 0x00 \<notin> set (trigger_name t)"
  by (cases t) (simp_all add: trigger_name_def)

lemma split_last:
  assumes "xs @ c # ys = xs' @ c # ys'" and "c \<notin> set ys" and "c \<notin> set ys'"
  shows "xs = xs' \<and> ys = ys'"
proof -
  let ?tail = "\<lambda>zs. rev (takeWhile (\<lambda>x. x \<noteq> c) (rev zs))"
  have "?tail (zs @ c # ws) = ws" if "c \<notin> set ws" for zs ws
    using that by (simp add: takeWhile_append)
  then have "ys = ys'" using arg_cong [OF assms(1), of ?tail] assms(2,3) by metis
  with assms(1) show ?thesis by simp
qed

lemma checkpoint_id_identifies:
  assumes "checkpoint_ok sha a" and "checkpoint_ok sha b" and "ce_checkpoint_id a = ce_checkpoint_id b"
    and "\<And>x y. sha x = sha y \<Longrightarrow> x = y"
  shows "ce_session_id a = ce_session_id b \<and> ce_trigger a = ce_trigger b \<and> ce_generation a = ce_generation b"
proof -
  let ?k = "\<lambda>c. trigger_name (ce_trigger c) @ CHR 0x00 # nat_to_string (ce_generation c)"
  have "ce_session_id a @ CHR 0x00 # ?k a = ce_session_id b @ CHR 0x00 # ?k b"
    by (rule assms(4)) (use assms(1-3) in \<open>simp add: checkpoint_ok_def deriveSessionCheckpointId_def\<close>)
  then have "(ce_session_id a @ CHR 0x00 # trigger_name (ce_trigger a)) @ CHR 0x00 # nat_to_string (ce_generation a)
      = (ce_session_id b @ CHR 0x00 # trigger_name (ce_trigger b)) @ CHR 0x00 # nat_to_string (ce_generation b)" by simp
  from split_last [OF this digits_no_nul digits_no_nul]
  have 1: "ce_session_id a @ CHR 0x00 # trigger_name (ce_trigger a) = ce_session_id b @ CHR 0x00 # trigger_name (ce_trigger b)"
    and "nat_to_string (ce_generation a) = nat_to_string (ce_generation b)" by auto
  then have 2: "ce_generation a = ce_generation b" by (metis read_digits_nat)
  from split_last [OF 1 trigger_no_nul trigger_no_nul]
  have 3: "ce_session_id a = ce_session_id b" "trigger_name (ce_trigger a) = trigger_name (ce_trigger b)" by auto
  then have "ce_trigger a = ce_trigger b" by (cases "ce_trigger a"; cases "ce_trigger b") (simp_all add: trigger_name_def)
  with 2 3 show ?thesis by simp
qed

section \<open>Properties\<close>

text \<open>A checkpoint within the bounds is read back from its envelope as it was written; and whatever is validated is within the same
  bounds, and if it has the same id it is of the same session, trigger and generation, unless the hash collides.\<close>

lemma checkpoint_roundtrip:
  assumes "checkpoint_ok sha c" and "ce_envelope c = envelope_of c"
  shows "validateSessionCheckpoint sha (envelope_of c) = Inr c
    \<and> (\<forall>v d. validateSessionCheckpoint sha v = Inr d \<longrightarrow> checkpoint_ok sha d
        \<and> (ce_checkpoint_id d = ce_checkpoint_id c \<longrightarrow>
             ce_session_id d = ce_session_id c \<and> ce_trigger d = ce_trigger c \<and> ce_generation d = ce_generation c
             \<or> (\<exists>x y. x \<noteq> y \<and> sha x = sha y)))"
proof (intro conjI allI impI)
  show "validateSessionCheckpoint sha (envelope_of c) = Inr c" using checkpoint_validates [OF assms] assms(2) by simp
  fix v d assume d: "validateSessionCheckpoint sha v = Inr d"
  show ok: "checkpoint_ok sha d" using validated_checkpoint [OF d] by simp
  assume "ce_checkpoint_id d = ce_checkpoint_id c"
  from checkpoint_id_identifies [OF ok assms(1) this]
  show "ce_session_id d = ce_session_id c \<and> ce_trigger d = ce_trigger c \<and> ce_generation d = ce_generation c \<or> (\<exists>x y. x \<noteq> y \<and> sha x = sha y)"
    by blast
qed

definition demo_checkpoint :: session_checkpoint where
  "demo_checkpoint =
     (let c = \<lparr>ce_operation_id = ''op_'' @ replicate 26 (CHR ''0''), ce_checkpoint_id = deriveSessionCheckpointId (\<lambda>s. s) ''s1'' Shutdown 3,
               ce_session_id = ''s1'', ce_scope = ''self'', ce_trigger = Shutdown, ce_generation = 3, ce_summary = ''Done.'',
               ce_decisions = [''ship''], ce_open_loops = [], ce_source_digest = ''sha256:'' @ replicate 64 (CHR ''a''), ce_envelope = JNull\<rparr>
      in c\<lparr>ce_envelope := envelope_of c\<rparr>)"

lemma checkpoint_roundtrip_example:
  "validateSessionCheckpoint (\<lambda>s. s) (envelope_of demo_checkpoint) = Inr demo_checkpoint"
proof -
  have "checkpoint_ok (\<lambda>s. s) demo_checkpoint" "ce_envelope demo_checkpoint = envelope_of demo_checkpoint" by code_simp+
  then show ?thesis using checkpoint_roundtrip by blast
qed

end
