(* ===== verification/Auth.thy ===== *)
theory Auth
  imports Config
begin

text \<open>
  Grants, the authorization middleware, trust rules and actor aliases (\<^verbatim>\<open>auth/grants.ts\<close>,
  \<^verbatim>\<open>auth/middleware.ts\<close>, \<^verbatim>\<open>auth/trust.ts\<close>, \<^verbatim>\<open>auth/alias-map.ts\<close>). The clock is the argument \<open>now\<close>
  (milliseconds); \<^verbatim>\<open>ulid()\<close> is the argument \<open>uid\<close>. The alias file is the list of its lines, \<open>None\<close> for
  one that is not an alias entry.
\<close>

section \<open>Grants\<close>

definition ACTOR_KINDS :: "string list" where
  "ACTOR_KINDS = [''user:'', ''agent:'', ''sidecar:'', ''substrate:'']"

definition isSpecConformantActorId :: "string \<Rightarrow> bool" where
  "isSpecConformantActorId actorId =
     list_ex (\<lambda>k. starts_with actorId k \<and> drop (length k) actorId \<noteq> []
                  \<and> list_all is_lower_alnum_dash (drop (length k) actorId)) ACTOR_KINDS"

definition isExpired :: "int \<Rightarrow> grant \<Rightarrow> bool" where
  "isExpired now g = (case g_expires_at g of None \<Rightarrow> False | Some d \<Rightarrow> date_less d (Some now))"

definition getActiveGrants :: "int \<Rightarrow> smartware_config \<Rightarrow> grant list" where
  "getActiveGrants now config =
     filter (\<lambda>g. g_status g = GActive \<and> \<not> isExpired now g) (cfg_grants config)"

definition scopeMatches :: "string \<Rightarrow> string \<Rightarrow> bool" where
  "scopeMatches pattern target =
     (if pattern = ''*'' then True
      else if pattern = target then True
      else if ends_with pattern ''/*'' \<and> starts_with target (butlast pattern) then True
      else False)"

definition capability_scopes :: "grant \<Rightarrow> operation \<Rightarrow> string list" where
  "capability_scopes g op = (case map_of (g_capabilities g) op of None \<Rightarrow> [] | Some xs \<Rightarrow> xs)"

definition checkGrant :: "int \<Rightarrow> string \<Rightarrow> operation \<Rightarrow> string \<Rightarrow> smartware_config \<Rightarrow> bool" where
  "checkGrant now actorId op scope config =
     list_ex (\<lambda>g. (g_actor_id g = actorId \<or> g_actor_id g = ''*'')
                  \<and> list_ex (\<lambda>s. scopeMatches s scope) (capability_scopes g op))
       (getActiveGrants now config)"

definition isOwner :: "string \<Rightarrow> smartware_config \<Rightarrow> bool" where
  "isOwner actorId config = (actorId = owner_id config)"

record grant_input =
  gi_actor_type :: actor_type
  gi_actor_id :: string
  gi_capabilities :: "(operation \<times> string list) list"
  gi_trusted :: "bool option"
  gi_quarantine :: "bool option"
  gi_expires_at :: "js_date option"

definition createGrant :: "string \<Rightarrow> string \<Rightarrow> grant_input \<Rightarrow> smartware_config \<Rightarrow> grant \<times> smartware_config" where
  "createGrant uid now_iso input config =
     (let g = \<lparr>g_id = ''grant_'' @ uid, g_actor_type = gi_actor_type input,
               g_actor_id = gi_actor_id input, g_capabilities = gi_capabilities input,
               g_trusted = (case gi_trusted input of Some b \<Rightarrow> b | None \<Rightarrow> False),
               g_quarantine = (case gi_quarantine input of Some b \<Rightarrow> b | None \<Rightarrow> False),
               g_created_at = now_iso, g_expires_at = gi_expires_at input, g_status = GActive\<rparr>
      in (g, config\<lparr>cfg_grants := cfg_grants config @ [g]\<rparr>))"

text \<open>\<^verbatim>\<open>config.grants.find(..)\<close> and the assignment to the found object: the first grant with the id.\<close>

fun revoke_first :: "string \<Rightarrow> grant list \<Rightarrow> grant list option" where
  "revoke_first gid [] = None"
| "revoke_first gid (g # gs) =
     (if g_id g = gid then Some (g\<lparr>g_status := GRevoked\<rparr> # gs)
      else map_option (\<lambda>rest. g # rest) (revoke_first gid gs))"

definition revokeGrant :: "string \<Rightarrow> smartware_config \<Rightarrow> bool \<times> smartware_config" where
  "revokeGrant gid config =
     (case revoke_first gid (cfg_grants config) of
        None \<Rightarrow> (False, config)
      | Some gs \<Rightarrow> (True, config\<lparr>cfg_grants := gs\<rparr>))"

definition getGrantForActor :: "int \<Rightarrow> string \<Rightarrow> smartware_config \<Rightarrow> grant option" where
  "getGrantForActor now actorId config =
     List.find (\<lambda>g. g_actor_id g = actorId) (getActiveGrants now config)"

definition getAuthorizingGrants :: "int \<Rightarrow> string \<Rightarrow> operation \<Rightarrow> string \<Rightarrow> smartware_config \<Rightarrow> grant list" where
  "getAuthorizingGrants now actorId op scope config =
     filter (\<lambda>g. (g_actor_id g = actorId \<or> g_actor_id g = ''*'')
                 \<and> list_ex (\<lambda>s. scopeMatches s scope) (capability_scopes g op))
       (getActiveGrants now config)"

section \<open>Middleware\<close>

definition requireGrant :: "int \<Rightarrow> string \<Rightarrow> operation \<Rightarrow> string \<Rightarrow> smartware_config \<Rightarrow> unit outcome" where
  "requireGrant now actorId op scope config =
     (if isOwner actorId config then Inr ()
      else if \<not> list_ex (\<lambda>g. g_actor_id g = actorId \<or> g_actor_id g = ''*'') (cfg_grants config)
        then Inl (ProtocolError ''actor_unregistered'' NoDetails)
      else if \<not> checkGrant now actorId op scope config
        then Inl (ProtocolError ''insufficient_permission'' NoDetails)
      else Inr ())"

definition requireOwner :: "string \<Rightarrow> smartware_config \<Rightarrow> unit outcome" where
  "requireOwner actorId config =
     (if \<not> isOwner actorId config then Inl (ProtocolError ''owner_required'' NoDetails) else Inr ())"

definition resolveGrant :: "int \<Rightarrow> string \<Rightarrow> smartware_config \<Rightarrow> grant option" where
  "resolveGrant now actorId config =
     (if isOwner actorId config then None else getGrantForActor now actorId config)"

definition requireRegisteredActor :: "int \<Rightarrow> string \<Rightarrow> smartware_config \<Rightarrow> unit outcome" where
  "requireRegisteredActor now actorId config =
     (if isOwner actorId config then Inr ()
      else if getGrantForActor now actorId config = None
        then Inl (ProtocolError ''actor_unregistered'' NoDetails)
      else Inr ())"

datatype access_decision = Allow | Deny (deny_code: string)

definition evaluateAccess :: "int \<Rightarrow> string \<Rightarrow> operation \<Rightarrow> string \<Rightarrow> smartware_config \<Rightarrow> access_decision" where
  "evaluateAccess now actorId op scope config =
     (if isOwner actorId config then Allow
      else case getGrantForActor now actorId config of
        None \<Rightarrow> Deny ''actor_unregistered''
      | Some g \<Rightarrow>
          if \<not> checkGrant now actorId op scope config then Deny ''forbidden'' else Allow)"

section \<open>Trust\<close>

definition shouldQuarantine :: "grant option \<Rightarrow> bool" where
  "shouldQuarantine grant =
     (case grant of
        None \<Rightarrow> True
      | Some g \<Rightarrow>
          if g_quarantine g then True
          else if g_trusted g then False
          else g_actor_type g = System)"

definition quarantineForGrants :: "grant list \<Rightarrow> bool" where
  "quarantineForGrants grants =
     (if grants = [] then True
      else if list_ex g_quarantine grants then True
      else if list_ex g_trusted grants then False
      else list_ex (\<lambda>g. g_actor_type g = System) grants)"

definition canQueryLowConfidence :: "grant option \<Rightarrow> bool" where
  "canQueryLowConfidence grant = (case grant of None \<Rightarrow> False | Some g \<Rightarrow> g_trusted g)"

section \<open>Actor aliases\<close>

record alias_entry =
  al_legacy_id :: string
  al_spec_id :: string
  al_since :: string
  al_reason :: "string option"

type_synonym alias_file = "alias_entry option list"

fun loadAliasMap_from :: "(string \<rightharpoonup> string) \<Rightarrow> alias_file \<Rightarrow> (string \<rightharpoonup> string)" where
  "loadAliasMap_from m [] = m"
| "loadAliasMap_from m (None # ls) = loadAliasMap_from m ls"
| "loadAliasMap_from m (Some e # ls) =
     loadAliasMap_from
       (if al_legacy_id e \<noteq> [] \<and> al_spec_id e \<noteq> [] then m(al_legacy_id e \<mapsto> al_spec_id e) else m) ls"

definition loadAliasMap :: "alias_file \<Rightarrow> (string \<rightharpoonup> string)" where
  "loadAliasMap af = loadAliasMap_from Map.empty af"

definition appendAlias ::
  "string \<Rightarrow> string \<Rightarrow> string \<Rightarrow> string option \<Rightarrow> string option \<Rightarrow> alias_file \<Rightarrow> alias_file outcome" where
  "appendAlias now legacy spec since reason af =
     (let e = \<lparr>al_legacy_id = legacy, al_spec_id = spec,
               al_since = (case since of Some s \<Rightarrow> s | None \<Rightarrow> now), al_reason = reason\<rparr>
      in if \<not> isSpecConformantActorId spec then Inl (JsError ''Alias spec_id is not spec-conformant'')
         else Inr (af @ [Some e]))"

definition resolveActorId :: "(string \<rightharpoonup> string) \<Rightarrow> string \<Rightarrow> string" where
  "resolveActorId m actorId = (case m actorId of Some s \<Rightarrow> s | None \<Rightarrow> actorId)"

definition COFFEE_POD_DEFAULT_ALIASES :: "(string \<times> string \<times> string) list" where
  "COFFEE_POD_DEFAULT_ALIASES =
     [(''google-drive:connector'', ''sidecar:drive'', ''PR-9 A4: spec-strict actor id for Drive sidecar''),
      (''google-calendar:connector'', ''sidecar:calendar'', ''PR-9 A4: spec-strict actor id for Calendar sidecar''),
      (''person-local'', ''user:local'', ''PR-9 A4: rename local-Pod owner to spec user:<slug>'')]"

fun ensure_aliases ::
  "string \<Rightarrow> (string \<rightharpoonup> string) \<Rightarrow> (string \<times> string \<times> string) list \<Rightarrow> alias_file \<Rightarrow> alias_file outcome" where
  "ensure_aliases now existing [] af = Inr af"
| "ensure_aliases now existing ((legacy, spec, reason) # rest) af =
     (if existing legacy = Some spec then ensure_aliases now existing rest af
      else case appendAlias now legacy spec None (Some reason) af of
        Inl e \<Rightarrow> Inl e
      | Inr af' \<Rightarrow> ensure_aliases now existing rest af')"

definition ensureDefaultAliases :: "string \<Rightarrow> alias_file \<Rightarrow> alias_file outcome" where
  "ensureDefaultAliases now af =
     ensure_aliases now (loadAliasMap af) COFFEE_POD_DEFAULT_ALIASES af"

section \<open>Lemmas\<close>

text \<open>A grant authorizes an operation on a scope for an actor, apart from status and expiry.\<close>

definition covers :: "string \<Rightarrow> operation \<Rightarrow> string \<Rightarrow> grant \<Rightarrow> bool" where
  "covers actorId op scope g =
     ((g_actor_id g = actorId \<or> g_actor_id g = ''*'')
      \<and> (\<exists>p \<in> set (capability_scopes g op). scopeMatches p scope))"

definition live :: "int \<Rightarrow> grant \<Rightarrow> bool" where
  "live now g = (g_status g = GActive \<and> \<not> isExpired now g)"

lemma set_getActiveGrants: "set (getActiveGrants now config) = {g \<in> set (cfg_grants config). live now g}"
  by (auto simp: getActiveGrants_def live_def)

lemma checkGrant_iff:
  "checkGrant now a op sc config \<longleftrightarrow> (\<exists>g \<in> set (cfg_grants config). live now g \<and> covers a op sc g)"
  by (auto simp: checkGrant_def list_ex_iff set_getActiveGrants covers_def)

lemma getGrantForActor_None_iff:
  "getGrantForActor now a config = None \<longleftrightarrow>
     (\<forall>g \<in> set (cfg_grants config). live now g \<longrightarrow> g_actor_id g \<noteq> a)"
  by (auto simp: getGrantForActor_def find_None_iff set_getActiveGrants)

lemma scopeMatches_iff:
  "scopeMatches p t \<longleftrightarrow> p = ''*'' \<or> p = t \<or> (\<exists>base rest. p = base @ ''/*'' \<and> t = base @ ''/'' @ rest)"
proof -
  have "butlast (base @ ''/*'') = base @ ''/''" for base by (simp add: butlast_append)
  then show ?thesis by (auto simp: scopeMatches_def ends_with_iff starts_with_iff)
qed

lemma live_mono: "n \<le> m \<Longrightarrow> live m g \<Longrightarrow> live n g"
  by (auto simp: live_def isExpired_def split: option.splits dest: date_less_trans_now)

lemma revoke_first_None_iff: "revoke_first gid gs = None \<longleftrightarrow> gid \<notin> g_id ` set gs"
  by (induction gs) auto

lemma revoke_first_Some:
  "revoke_first gid gs = Some gs' \<Longrightarrow> distinct (map g_id gs) \<Longrightarrow>
   gs' = map (\<lambda>g. if g_id g = gid then g\<lparr>g_status := GRevoked\<rparr> else g) gs"
proof (induction gs arbitrary: gs')
  case (Cons g gs)
  have same: "map (\<lambda>g. if g_id g = gid then g\<lparr>g_status := GRevoked\<rparr> else g) gs = gs" if "gid \<notin> g_id ` set gs"
    using that by (intro map_idI) auto
  show ?case
  proof (cases "g_id g = gid")
    case True
    with Cons.prems have "gid \<notin> g_id ` set gs" by auto
    with True Cons.prems same show ?thesis by simp
  qed (use Cons in auto)
qed simp

lemma live_revoked [simp]: "\<not> live now (g\<lparr>g_status := GRevoked\<rparr>)"
  by (simp add: live_def)

lemma loadAliasMap_snoc:
  "loadAliasMap (af @ [Some e]) =
     (if al_legacy_id e \<noteq> [] \<and> al_spec_id e \<noteq> [] then (loadAliasMap af)(al_legacy_id e \<mapsto> al_spec_id e)
      else loadAliasMap af)"
proof -
  have "loadAliasMap_from m (af @ [Some e]) =
     (if al_legacy_id e \<noteq> [] \<and> al_spec_id e \<noteq> [] then (loadAliasMap_from m af)(al_legacy_id e \<mapsto> al_spec_id e)
      else loadAliasMap_from m af)" for m
    by (induction m af rule: loadAliasMap_from.induct) simp_all
  then show ?thesis by (simp add: loadAliasMap_def)
qed

text \<open>The run of \<open>ensure_aliases\<close> over a list whose targets conform: it succeeds, appends only,
  maps every listed id, and touches no other id.\<close>

lemma ensure_aliases_run:
  assumes "\<forall>(l, sp, r) \<in> set ds. isSpecConformantActorId sp \<and> l \<noteq> []" and "distinct (map fst ds)"
    and "\<forall>(l, sp, r) \<in> set ds. ex l = Some sp \<longrightarrow> loadAliasMap af l = Some sp"
  shows "\<exists>af'. ensure_aliases now ex ds af = Inr af'
    \<and> (\<exists>added. af' = af @ added)
    \<and> (\<forall>(l, sp, r) \<in> set ds. loadAliasMap af' l = Some sp)
    \<and> (\<forall>l. l \<notin> fst ` set ds \<longrightarrow> loadAliasMap af' l = loadAliasMap af l)"
  using assms
proof (induction ds arbitrary: af)
  case (Cons d ds)
  obtain l sp r where d: "d = (l, sp, r)" by (cases d)
  have fresh: "l \<notin> fst ` set ds" using Cons.prems(2) d by auto
  have ok': "\<forall>(l, sp, r) \<in> set ds. isSpecConformantActorId sp \<and> l \<noteq> []"
    and dist': "distinct (map fst ds)" using Cons.prems(1,2) by auto
  show ?case
  proof (cases "ex l = Some sp")
    case True
    then have "ensure_aliases now ex (d # ds) af = ensure_aliases now ex ds af" by (simp add: d)
    moreover obtain af' where "ensure_aliases now ex ds af = Inr af'"
      "\<exists>added. af' = af @ added" "\<forall>(l, sp, r) \<in> set ds. loadAliasMap af' l = Some sp"
      "\<forall>l. l \<notin> fst ` set ds \<longrightarrow> loadAliasMap af' l = loadAliasMap af l"
      using Cons.IH [of af] Cons.prems by auto
    ultimately show ?thesis using True Cons.prems(3) d fresh by (intro exI [of _ af']) auto
  next
    case False
    let ?e = "\<lparr>al_legacy_id = l, al_spec_id = sp, al_since = now, al_reason = Some r\<rparr>"
    have sp: "isSpecConformantActorId sp" "l \<noteq> []" using Cons.prems(1) d by auto
    then have "sp \<noteq> []" by (auto simp: isSpecConformantActorId_def ACTOR_KINDS_def starts_with_def)
    with sp have m: "loadAliasMap (af @ [Some ?e]) = (loadAliasMap af)(l \<mapsto> sp)"
      by (simp add: loadAliasMap_snoc)
    have "ensure_aliases now ex (d # ds) af = ensure_aliases now ex ds (af @ [Some ?e])"
      using False sp by (simp add: d appendAlias_def)
    moreover have prem: "\<forall>(l', sp', r') \<in> set ds. ex l' = Some sp' \<longrightarrow> loadAliasMap (af @ [Some ?e]) l' = Some sp'"
    proof (clarify)
      fix l' sp' r' assume in_ds: "(l', sp', r') \<in> set ds" and "ex l' = Some sp'"
      with Cons.prems(3) have "loadAliasMap af l' = Some sp'" by auto
      moreover have "l' \<noteq> l" using in_ds fresh by force
      ultimately show "loadAliasMap (af @ [Some ?e]) l' = Some sp'" by (simp add: m)
    qed
    moreover obtain af' where "ensure_aliases now ex ds (af @ [Some ?e]) = Inr af'"
      "\<exists>added. af' = (af @ [Some ?e]) @ added" "\<forall>(l, sp, r) \<in> set ds. loadAliasMap af' l = Some sp"
      "\<forall>l. l \<notin> fst ` set ds \<longrightarrow> loadAliasMap af' l = loadAliasMap (af @ [Some ?e]) l"
      using Cons.IH [of "af @ [Some ?e]"] prem ok' dist' by blast
    ultimately show ?thesis using d fresh m by (intro exI [of _ af']) auto
  qed
qed simp

section \<open>Properties\<close>

text \<open>The grant check decides exactly. An actor passes iff it is the owner or some active, unexpired
  grant for it (or for every actor) has a pattern for the operation that matches the scope; a denied
  actor is reported as unregistered iff no grant row of any status names it, and otherwise as lacking
  permission.\<close>

lemma requireGrant_decides:
  "(requireGrant now a op sc config = Inr () \<longleftrightarrow>
      isOwner a config \<or> (\<exists>g \<in> set (cfg_grants config). live now g \<and> covers a op sc g))
   \<and> (requireGrant now a op sc config = Inl e \<longleftrightarrow>
      \<not> isOwner a config \<and> (\<forall>g \<in> set (cfg_grants config). \<not> (live now g \<and> covers a op sc g))
      \<and> e = (if \<forall>g \<in> set (cfg_grants config). g_actor_id g \<noteq> a \<and> g_actor_id g \<noteq> ''*''
             then ProtocolError ''actor_unregistered'' NoDetails
             else ProtocolError ''insufficient_permission'' NoDetails))"
proof -
  have "covers a op sc g \<Longrightarrow> g_actor_id g = a \<or> g_actor_id g = ''*''" for g
    by (simp add: covers_def)
  then show ?thesis
    unfolding requireGrant_def checkGrant_iff list_ex_iff by auto
qed

definition demo_grant :: grant where
  "demo_grant = \<lparr>g_id = ''grant_1'', g_actor_type = Agent, g_actor_id = ''agent:a'',
     g_capabilities = [(OpObserve, [''project/*''])], g_trusted = False, g_quarantine = False,
     g_created_at = ''t0'', g_expires_at = Some (Some 100), g_status = GActive\<rparr>"

definition demo_config :: smartware_config where
  "demo_config = \<lparr>instance_id = ''smartware_X'', owner_id = ''user:local'', writer_id = ''w'',
     cfg_scopes = [], cfg_grants = [demo_grant, demo_grant\<lparr>g_id := ''grant_2'', g_actor_id := ''*'',
       g_capabilities := [(OpRead, [''self''])], g_expires_at := None\<rparr>],
     cfg_sources = None, cfg_retention = None, cfg_holds = []\<rparr>"

lemma requireGrant_decides_example:
  "requireGrant 50 ''agent:a'' OpObserve ''project/foo'' demo_config = Inr ()
   \<and> (\<exists>g \<in> set (cfg_grants demo_config). live 50 g \<and> covers ''agent:a'' OpObserve ''project/foo'' g)"
proof -
  have ok: "requireGrant 50 ''agent:a'' OpObserve ''project/foo'' demo_config = Inr ()"
    and "\<not> isOwner ''agent:a'' demo_config" by code_simp+
  with requireGrant_decides [of 50 "''agent:a''" OpObserve "''project/foo''" demo_config] show ?thesis
    by blast
qed

text \<open>C21: Revocation takes effect and touches nothing else. With unique grant ids, revoking a known grant returns true,
  sets the status of that grant to revoked and leaves the rest of the configuration as it is, so that a check then passes iff some
  other grant authorizes it; revoking an unknown id returns false and changes nothing.\<close>

theorem revokeGrant_effective:
  assumes "distinct (map g_id (cfg_grants config))"
  shows "revokeGrant gid config =
      (gid \<in> g_id ` set (cfg_grants config),
       config\<lparr>cfg_grants := map (\<lambda>g. if g_id g = gid then g\<lparr>g_status := GRevoked\<rparr> else g) (cfg_grants config)\<rparr>)
    \<and> (gid \<notin> g_id ` set (cfg_grants config) \<longrightarrow> snd (revokeGrant gid config) = config)
    \<and> (checkGrant now a op sc (snd (revokeGrant gid config)) \<longleftrightarrow>
      (\<exists>g \<in> set (cfg_grants config). g_id g \<noteq> gid \<and> live now g \<and> covers a op sc g))"
proof (cases "revoke_first gid (cfg_grants config)")
  case None
  then have new: "gid \<notin> g_id ` set (cfg_grants config)" by (simp only: revoke_first_None_iff not_False_eq_True)
  then have "map (\<lambda>g. if g_id g = gid then g\<lparr>g_status := GRevoked\<rparr> else g) (cfg_grants config) = cfg_grants config"
    by (intro map_idI) auto
  with None new show ?thesis by (auto simp: revokeGrant_def checkGrant_iff)
next
  case (Some gs)
  then have "gid \<in> g_id ` set (cfg_grants config)" using revoke_first_None_iff [of gid "cfg_grants config"] by simp
  with revoke_first_Some [OF Some assms] Some show ?thesis by (auto simp: revokeGrant_def checkGrant_iff)
qed

theorem revokeGrant_effective_witness:
  "distinct (map g_id (cfg_grants demo_config))
   \<and> checkGrant 50 ''agent:a'' OpObserve ''project/foo'' demo_config
   \<and> \<not> checkGrant 50 ''agent:a'' OpObserve ''project/foo'' (snd (revokeGrant ''grant_1'' demo_config))"
proof -
  have d: "distinct (map g_id (cfg_grants demo_config))" by code_simp
  have "checkGrant 50 ''agent:a'' OpObserve ''project/foo'' demo_config" by code_simp
  moreover have "\<not> covers ''agent:a'' OpObserve ''project/foo'' g"
    if "g \<in> set (cfg_grants demo_config)" "g_id g \<noteq> ''grant_1''" for g
    using that by (auto simp: demo_config_def demo_grant_def covers_def capability_scopes_def)
  ultimately show ?thesis
    using d revokeGrant_effective [OF d, of "''grant_1''" 50 "''agent:a''" OpObserve "''project/foo''"]
    by blast
qed

text \<open>Authority only shrinks as time passes: a check that passes at a later instant passed at every
  earlier one, so an expired grant never authorizes again.\<close>

lemma authority_shrinks_with_time:
  assumes "n \<le> m" and "requireGrant m a op sc config = Inr ()"
  shows "requireGrant n a op sc config = Inr ()"
  using assms
  by (auto simp: requireGrant_def checkGrant_iff intro: live_mono split: if_splits)

lemma authority_shrinks_with_time_example:
  "requireGrant 20 ''agent:a'' OpObserve ''project/foo'' demo_config = Inr ()
   \<and> requireGrant 101 ''agent:a'' OpObserve ''project/foo'' demo_config
       = Inl (ProtocolError ''insufficient_permission'' NoDetails)"
proof -
  have "requireGrant 100 ''agent:a'' OpObserve ''project/foo'' demo_config = Inr ()" by code_simp
  then have "requireGrant 20 ''agent:a'' OpObserve ''project/foo'' demo_config = Inr ()"
    by (rule authority_shrinks_with_time [rotated]) simp
  moreover have "requireGrant 101 ''agent:a'' OpObserve ''project/foo'' demo_config
       = Inl (ProtocolError ''insufficient_permission'' NoDetails)" by code_simp
  ultimately show ?thesis by simp
qed

text \<open>The access decision against the enforcing check. What \<open>evaluateAccess\<close> allows is exactly what
  \<open>requireGrant\<close> lets through for an owner or an actor with an active grant in its own name; an actor
  covered only by a grant for every actor passes the enforcing check but is reported as unregistered.\<close>

lemma evaluateAccess_agrees:
  "(evaluateAccess now a op sc config = Allow \<longleftrightarrow>
      requireGrant now a op sc config = Inr () \<and> requireRegisteredActor now a config = Inr ())
   \<and> (evaluateAccess now a op sc config = Deny ''actor_unregistered'' \<longleftrightarrow>
      requireRegisteredActor now a config \<noteq> Inr ())"
proof (cases "isOwner a config")
  case True
  then show ?thesis by (simp add: evaluateAccess_def requireGrant_def requireRegisteredActor_def)
next
  case False
  show ?thesis
  proof (cases "getGrantForActor now a config")
    case None
    then show ?thesis using False by (simp add: evaluateAccess_def requireRegisteredActor_def)
  next
    case (Some g)
    then have "list_ex (\<lambda>g. g_actor_id g = a \<or> g_actor_id g = ''*'') (cfg_grants config)"
      by (auto simp: list_ex_iff getGrantForActor_def find_Some_iff set_getActiveGrants
          dest!: nth_mem)
    with False Some show ?thesis
      by (simp add: evaluateAccess_def requireGrant_def requireRegisteredActor_def)
  qed
qed

text \<open>Quarantine of incoming evidence. Over the grants that authorize a write, an explicit quarantine
  flag holds it, otherwise a trusted grant accepts it, otherwise it is held iff a grant belongs to a
  system actor; no grant holds it. For a single grant this is the per-grant rule.\<close>

lemma quarantine_precedence:
  "(quarantineForGrants grants \<longleftrightarrow>
     grants = [] \<or> (\<exists>g \<in> set grants. g_quarantine g)
     \<or> list_all (\<lambda>g. \<not> g_trusted g) grants \<and> (\<exists>g \<in> set grants. g_actor_type g = System))
   \<and> quarantineForGrants [g] = shouldQuarantine (Some g)"
  by (auto simp: quarantineForGrants_def shouldQuarantine_def list_ex_iff list_all_iff)

text \<open>The substrate writes under a conforming identity: whatever the instance id is, the actor id it
  mints matches the published ActorId pattern.\<close>

lemma substrateActorId_conformant: "isSpecConformantActorId (substrateActorId inst)"
proof -
  have ok: "list_all is_lower_alnum_dash (trim_dashes (collapse_other False s))" for s
    by (intro trim_dashes_ok collapse_other_ok)
  have "list_all is_lower_alnum_dash ''instance''" by code_simp
  with ok show ?thesis
    by (auto simp: substrateActorId_def isSpecConformantActorId_def ACTOR_KINDS_def starts_with_def Let_def)
qed

text \<open>Seeding the default aliases always succeeds, only appends, makes every legacy id resolve to its
  new id, leaves every other id as it was, and a second run appends nothing.\<close>

lemma ensureDefaultAliases_seeds:
  "\<exists>af'. ensureDefaultAliases now af = Inr af' \<and> (\<exists>added. af' = af @ added)
    \<and> (\<forall>(l, sp, r) \<in> set COFFEE_POD_DEFAULT_ALIASES. resolveActorId (loadAliasMap af') l = sp)
    \<and> (\<forall>l. l \<notin> fst ` set COFFEE_POD_DEFAULT_ALIASES \<longrightarrow>
          resolveActorId (loadAliasMap af') l = resolveActorId (loadAliasMap af) l)
    \<and> ensureDefaultAliases now' af' = Inr af'"
proof -
  have ok: "\<forall>(l, sp, r) \<in> set COFFEE_POD_DEFAULT_ALIASES. isSpecConformantActorId sp \<and> l \<noteq> []"
    by code_simp
  have dist: "distinct (map fst COFFEE_POD_DEFAULT_ALIASES)" by code_simp
  have skip: "ensure_aliases now' ex ds f = Inr f" if "\<forall>(l, sp, r) \<in> set ds. ex l = Some sp" for ex ds f
    using that by (induction ds) auto
  obtain af' where f: "ensureDefaultAliases now af = Inr af'" "\<exists>added. af' = af @ added"
    "\<forall>(l, sp, r) \<in> set COFFEE_POD_DEFAULT_ALIASES. loadAliasMap af' l = Some sp"
    "\<forall>l. l \<notin> fst ` set COFFEE_POD_DEFAULT_ALIASES \<longrightarrow> loadAliasMap af' l = loadAliasMap af l"
    using ensure_aliases_run [OF ok dist, of "loadAliasMap af" af now]
    by (auto simp: ensureDefaultAliases_def)
  then have "ensureDefaultAliases now' af' = Inr af'"
    unfolding ensureDefaultAliases_def by (intro skip)
  with f show ?thesis by (intro exI [of _ af']) (auto simp: resolveActorId_def)
qed

lemma ensureDefaultAliases_seeds_example:
  "\<exists>af'. ensureDefaultAliases ''t1'' [] = Inr af'
    \<and> resolveActorId (loadAliasMap af') ''person-local'' = ''user:local''
    \<and> resolveActorId (loadAliasMap af') ''agent:x'' = ''agent:x''"
proof -
  have m: "(''person-local'', ''user:local'', ''PR-9 A4: rename local-Pod owner to spec user:<slug>'')
      \<in> set COFFEE_POD_DEFAULT_ALIASES"
    and n: "''agent:x'' \<notin> fst ` set COFFEE_POD_DEFAULT_ALIASES"
    and r: "resolveActorId (loadAliasMap []) ''agent:x'' = ''agent:x''"
    by (simp_all add: COFFEE_POD_DEFAULT_ALIASES_def resolveActorId_def loadAliasMap_def)
  show ?thesis
    using ensureDefaultAliases_seeds [of "''t1''" "[]" "''t2''"] m n r by fastforce
qed

end
