(* ===== verification/Scopes.thy ===== *)
theory Scopes
  imports Config Complex_Main
begin

text \<open>
  The scope registry with its parent hierarchy (\<^verbatim>\<open>scopes/registry.ts\<close>), scope proximity
  (\<^verbatim>\<open>scopes/proximity.ts\<close>) and cross-scope visibility (\<^verbatim>\<open>scopes/exports.ts\<close>). The registry's
  \<^verbatim>\<open>Map\<close> is an association list: setting a present key replaces the value in place. The walk up the
  parents is a loop that need not end, so it is a partial function and \<open>None\<close> is a run that never
  returns. Proximity scores are exact rationals.
\<close>

section \<open>Registry\<close>

type_synonym scope_registry = "(string \<times> scope_entry) list"

definition mk_registry :: "smartware_config \<Rightarrow> scope_registry" where
  "mk_registry config = fold (\<lambda>s m. js_map_set (se_id s) s m) (cfg_scopes config) []"

definition reg_get :: "scope_registry \<Rightarrow> string \<Rightarrow> scope_entry option" where
  "reg_get r sid = map_of r sid"

definition getAll :: "scope_registry \<Rightarrow> scope_entry list" where
  "getAll r = map snd r"

definition getParent :: "scope_registry \<Rightarrow> string \<Rightarrow> scope_entry option" where
  "getParent r sid =
     (case reg_get r sid of
        None \<Rightarrow> None
      | Some e \<Rightarrow> (case se_parent e of None \<Rightarrow> None | Some p \<Rightarrow> if p = [] then None else reg_get r p))"

definition parent_id :: "scope_registry \<Rightarrow> string \<Rightarrow> string option" where
  "parent_id r sid = (case reg_get r sid of None \<Rightarrow> None | Some e \<Rightarrow> se_parent e)"

text \<open>The body of \<^verbatim>\<open>while (current)\<close>: both null and the empty string end the loop.\<close>

partial_function (option) ancestors_loop ::
  "scope_registry \<Rightarrow> string list \<Rightarrow> string option \<Rightarrow> string list option" where
  "ancestors_loop r chain current =
     (case current of
        None \<Rightarrow> Some chain
      | Some c \<Rightarrow> if c = [] then Some chain else ancestors_loop r (chain @ [c]) (parent_id r c))"

definition getAncestors :: "scope_registry \<Rightarrow> string \<Rightarrow> string list option" where
  "getAncestors r sid = ancestors_loop r [] (Some sid)"

definition isAncestorOf :: "scope_registry \<Rightarrow> string \<Rightarrow> string \<Rightarrow> bool option" where
  "isAncestorOf r ancestor descendant =
     map_option (\<lambda>chain. ancestor \<in> set chain) (getAncestors r descendant)"

definition getVisibilityDefault :: "scope_registry \<Rightarrow> string \<Rightarrow> visibility" where
  "getVisibilityDefault r sid =
     (case reg_get r sid of None \<Rightarrow> VScope | Some e \<Rightarrow> se_visibility_default e)"

section \<open>Proximity\<close>

definition getScopeProximity :: "string \<Rightarrow> string \<Rightarrow> scope_registry \<Rightarrow> rat" where
  "getScopeProximity queryScope resultScope r =
     (if queryScope = resultScope then 1
      else
        let q = parent_id r queryScope; p = parent_id r resultScope in
        if q = Some resultScope \<or> p = Some queryScope then 7 / 10
        else if q \<noteq> None \<and> q \<noteq> Some [] \<and> p \<noteq> None \<and> p \<noteq> Some [] \<and> q = p then 3 / 10
        else 0)"

section \<open>Visibility across scopes\<close>

definition find_scope :: "smartware_config \<Rightarrow> string \<Rightarrow> scope_entry option" where
  "find_scope config sid = List.find (\<lambda>s. se_id s = sid) (cfg_scopes config)"

definition isExported :: "string \<Rightarrow> string \<Rightarrow> string \<Rightarrow> smartware_config \<Rightarrow> bool" where
  "isExported fromScope toScope predicate config =
     (if fromScope = toScope then True
      else case find_scope config fromScope of
        None \<Rightarrow> False
      | Some e \<Rightarrow>
          if se_visibility_default e = VPrivate then False
          else if se_visibility_default e = VPublic then True
          else False)"

definition isVisibleToActor :: "string \<Rightarrow> visibility \<Rightarrow> string \<Rightarrow> smartware_config \<Rightarrow> bool" where
  "isVisibleToActor claimScope claimVisibility querierScope config =
     (if claimScope = querierScope then True
      else if claimVisibility = VPublic then True
      else if claimVisibility = VPrivate then False
      else case find_scope config claimScope of
        None \<Rightarrow> False
      | Some e \<Rightarrow>
          (case find_scope config querierScope of
             None \<Rightarrow> False
           | Some q \<Rightarrow>
               if se_parent e \<noteq> None \<and> se_parent e \<noteq> Some [] \<and> se_parent e = se_parent q then True
               else if se_parent e = Some querierScope \<or> se_parent q = Some claimScope then True
               else False))"

section \<open>Lemmas\<close>

lemma ancestors_loop_simps [simp]:
  "ancestors_loop r chain None = Some chain"
  "ancestors_loop r chain (Some []) = Some chain"
  "c \<noteq> [] \<Longrightarrow> ancestors_loop r chain (Some c) = ancestors_loop r (chain @ [c]) (parent_id r c)"
  by (simp_all add: ancestors_loop.simps)

text \<open>A list in which every scope is the parent of the one before it, ending where the parents end.\<close>

fun parent_chain :: "scope_registry \<Rightarrow> string option \<Rightarrow> string list \<Rightarrow> bool" where
  "parent_chain r current [] = (current = None \<or> current = Some [])"
| "parent_chain r current (c # cs) = (current = Some c \<and> c \<noteq> [] \<and> parent_chain r (parent_id r c) cs)"

lemma ancestors_loop_chain:
  "parent_chain r current cs \<Longrightarrow> ancestors_loop r chain current = Some (chain @ cs)"
  by (induction cs arbitrary: current chain) auto

lemma parent_chain_exists:
  assumes rank: "\<And>c p. parent_id r c = Some p \<Longrightarrow> rank p < (rank c :: nat)"
  shows "\<exists>cs. parent_chain r (Some c) cs"
proof (induction "rank c" arbitrary: c rule: less_induct)
  case less
  show ?case
  proof (cases "c = []")
    case True
    then have "parent_chain r (Some c) []" by simp
    then show ?thesis ..
  next
    case False
    show ?thesis
    proof (cases "parent_id r c")
      case None
      with False have "parent_chain r (Some c) [c]" by simp
      then show ?thesis ..
    next
      case (Some p)
      with less rank obtain cs where "parent_chain r (Some p) cs" by blast
      with Some False have "parent_chain r (Some c) (c # cs)" by simp
      then show ?thesis ..
    qed
  qed
qed

lemma parent_chain_ranks:
  assumes rank: "\<And>c p. parent_id r c = Some p \<Longrightarrow> rank p < (rank c :: nat)"
  shows "parent_chain r (Some c) cs \<Longrightarrow> x \<in> set cs \<Longrightarrow> rank x \<le> rank c"
proof (induction cs arbitrary: c)
  case (Cons a cs)
  then have a: "a = c" "parent_chain r (parent_id r c) cs" by auto
  show ?case
  proof (cases "parent_id r c")
    case None
    with a have "cs = []" by (cases cs) auto
    with a Cons.prems show ?thesis by simp
  next
    case (Some p)
    with Cons a show ?thesis using rank [OF Some] by (auto intro: order_trans less_imp_le)
  qed
qed simp

lemma parent_chain_distinct:
  assumes rank: "\<And>c p. parent_id r c = Some p \<Longrightarrow> rank p < (rank c :: nat)"
  shows "parent_chain r (Some c) cs \<Longrightarrow> distinct cs"
proof (induction cs arbitrary: c)
  case (Cons a cs)
  then have a: "a = c" "parent_chain r (parent_id r c) cs" by auto
  show ?case
  proof (cases "parent_id r c")
    case None
    with a have "cs = []" by (cases cs) auto
    then show ?thesis by simp
  next
    case (Some p)
    with a have pc: "parent_chain r (Some p) cs" by simp
    have "rank x < rank c" if "x \<in> set cs" for x
      using parent_chain_ranks [where r = r and rank = rank, OF rank pc that] rank [OF Some] by simp
    with a Cons.IH [OF pc] show ?thesis by auto
  qed
qed simp

lemma ancestors_loop_cycle:
  assumes "\<And>c. c \<in> S \<Longrightarrow> c \<noteq> [] \<and> (\<exists>p \<in> S. parent_id r c = Some p)"
    and ret: "ancestors_loop r chain current = Some res"
  shows "current \<notin> Some ` S"
proof (rule ancestors_loop.raw_induct [where P = "\<lambda>r' chain current res. r' = r \<longrightarrow> current \<notin> Some ` S",
      OF _ ret, THEN mp, OF _ refl])
  fix f r' chain current res
  assume IH: "\<And>r' chain current res. f r' chain current = Some res \<Longrightarrow> r' = r \<longrightarrow> current \<notin> Some ` S"
    and eq: "(case current of None \<Rightarrow> Some chain
      | Some c \<Rightarrow> if c = [] then Some chain else f r' (chain @ [c]) (parent_id r' c)) = Some res"
  show "r' = r \<longrightarrow> current \<notin> Some ` S"
  proof (intro impI notI)
    assume "r' = r" and "current \<in> Some ` S"
    then obtain c where c: "current = Some c" "c \<in> S" by auto
    with assms(1) obtain p where p: "c \<noteq> []" "p \<in> S" "parent_id r c = Some p" by blast
    from eq c p \<open>r' = r\<close> have "f r (chain @ [c]) (Some p) = Some res" by simp
    with IH [of r] p(2) show False by auto
  qed
qed

section \<open>Properties\<close>

text \<open>The ancestor walk returns on every registry without parent cycles (each parent has a smaller
  rank), and then gives the chain from the scope up: it starts with the scope, each element is the
  parent of the one before, it stops where the parents stop, and no scope occurs twice.\<close>

lemma getAncestors_returns:
  assumes "\<And>c p. parent_id r c = Some p \<Longrightarrow> rank p < (rank c :: nat)"
  shows "\<exists>chain. getAncestors r sid = Some chain \<and> parent_chain r (Some sid) chain \<and> distinct chain"
proof -
  obtain cs where "parent_chain r (Some sid) cs" using parent_chain_exists [of r rank] assms by blast
  then show ?thesis
    using ancestors_loop_chain [of r "Some sid" cs "[]"] parent_chain_distinct [where rank = rank, OF assms]
    by (auto simp: getAncestors_def)
qed

definition demo_registry :: scope_registry where
  "demo_registry = [(''a'', \<lparr>se_id = ''a'', se_parent = Some ''b'', se_visibility_default = VScope\<rparr>),
     (''b'', \<lparr>se_id = ''b'', se_parent = None, se_visibility_default = VWorkspace\<rparr>)]"

lemma getAncestors_returns_example:
  "\<exists>chain. getAncestors demo_registry ''a'' = Some chain \<and> parent_chain demo_registry (Some ''a'') chain
     \<and> distinct chain"
proof (rule getAncestors_returns [where rank = "\<lambda>c. if c = ''a'' then 1 else 0"])
  fix c p assume "parent_id demo_registry c = Some p"
  then show "(if p = ''a'' then 1 else 0) < (if c = ''a'' then 1 else 0 :: nat)"
    by (auto simp: parent_id_def reg_get_def demo_registry_def split: if_splits)
qed

text \<open>C27: The ancestor walk never returns from a scope whose parents run in a circle: if every scope of a
  set is registered with its parent in the set, then neither the ancestors of a member nor an ancestor
  test from it has a result.\<close>

theorem getAncestors_hangs_on_cycle:
  assumes "\<And>c. c \<in> S \<Longrightarrow> c \<noteq> [] \<and> (\<exists>p \<in> S. parent_id r c = Some p)" and "sid \<in> S"
  shows "getAncestors r sid = None \<and> isAncestorOf r a sid = None"
proof -
  have "getAncestors r sid = None"
    using ancestors_loop_cycle [where S = S and r = r, OF assms(1)] assms(2)
    by (cases "getAncestors r sid") (auto simp: getAncestors_def)
  then show ?thesis by (simp add: isAncestorOf_def)
qed

theorem getAncestors_hangs_on_cycle_witness:
  "getAncestors (js_map_set ''b'' \<lparr>se_id = ''b'', se_parent = Some ''a'', se_visibility_default = VScope\<rparr>
      demo_registry) ''a'' = None"
proof -
  let ?r = "js_map_set ''b'' \<lparr>se_id = ''b'', se_parent = Some ''a'', se_visibility_default = VScope\<rparr> demo_registry"
  have "c \<noteq> [] \<and> (\<exists>p \<in> {''a'', ''b''}. parent_id ?r c = Some p)" if "c \<in> {''a'', ''b''}" for c
    using that by (auto simp: parent_id_def reg_get_def demo_registry_def)
  then show ?thesis using getAncestors_hangs_on_cycle [of "{''a'', ''b''}" ?r "''a''"] by blast
qed

text \<open>Cross-scope visibility is closed by default and symmetric. A private claim is visible from its
  own scope only; an unregistered claim scope or querier sees nothing of another scope that is not
  public; and for equal visibility two scopes see each other's claims or neither does.\<close>

lemma visibility_contained:
  "(isVisibleToActor c VPrivate q config \<longleftrightarrow> c = q)
   \<and> (isVisibleToActor c v q config \<and> c \<noteq> q \<and> v \<noteq> VPublic \<longrightarrow>
        find_scope config c \<noteq> None \<and> find_scope config q \<noteq> None)
   \<and> isVisibleToActor c v q config = isVisibleToActor q v c config"
proof -
  have "isVisibleToActor c v q config = isVisibleToActor q v c config"
    by (auto simp: isVisibleToActor_def split: option.split)
  then show ?thesis by (auto simp: isVisibleToActor_def split: option.splits)
qed

definition demo_scopes_config :: smartware_config where
  "demo_scopes_config = \<lparr>instance_id = ''i'', owner_id = ''user:o'', writer_id = ''w'',
     cfg_scopes = [\<lparr>se_id = ''a'', se_parent = Some ''b'', se_visibility_default = VScope\<rparr>,
       \<lparr>se_id = ''b'', se_parent = None, se_visibility_default = VWorkspace\<rparr>],
     cfg_grants = [], cfg_sources = None, cfg_retention = None, cfg_holds = []\<rparr>"

lemma visibility_contained_example:
  "isVisibleToActor ''a'' VScope ''b'' demo_scopes_config
   \<and> find_scope demo_scopes_config ''a'' \<noteq> None \<and> isVisibleToActor ''b'' VScope ''a'' demo_scopes_config"
proof -
  have "isVisibleToActor ''a'' VScope ''b'' demo_scopes_config" by code_simp
  then show ?thesis using visibility_contained [of "''a''" "''b''" demo_scopes_config VScope] by auto
qed

text \<open>Proximity is symmetric in the two scopes and takes one of the four documented scores.\<close>

lemma proximity_symmetric:
  "getScopeProximity a b r = getScopeProximity b a r
   \<and> getScopeProximity a b r \<in> {1, 7 / 10, 3 / 10, 0}
   \<and> (getScopeProximity a b r = 1 \<longleftrightarrow> a = b)"
  by (auto simp: getScopeProximity_def Let_def)

end
