(* ===== verification/Sessions.thy ===== *)
theory Sessions
  imports Auth Ops_Log
begin

text \<open>
  Server-anchored sessions: the trust policy (\<^verbatim>\<open>session/policy.ts\<close>), the session store
  (\<^verbatim>\<open>session/store.ts\<close>) and the protocol handlers (\<^verbatim>\<open>protocol/session.ts\<close>). Times are milliseconds, so
  an expiry date is a number; the clock is the argument \<open>now\<close>, and \<open>now_iso\<close> its ISO text. Fresh
  identifiers (\<^verbatim>\<open>ulid()\<close>) and the summarising callback are arguments. The callback's own writes are
  outside the model: it returns the number of claims it stored, or fails.
\<close>

section \<open>Policy\<close>

datatype trust_level = TVerified | TUserFacing | TBackgroundAgent | TUntrusted
datatype write_mode = WOff | WExplicitOnly | WDurableSummary | WAuto
datatype read_mode = ROff | ROnDemand | RAlways
datatype sensitive_handling = HNever | HConfirmViaClient | HServerRedact | HAllowed

record client_capabilities =
  can_tag_sensitivity :: bool
  can_provide_intent :: bool
  can_request_user_confirmation :: bool

record effective_policy =
  ep_write_mode :: write_mode
  ep_read_mode :: read_mode
  ep_sensitive_handling :: sensitive_handling
  ep_default_scope_routing :: "(string \<times> string) list"
  ep_write_async :: bool

definition SESSION_DURATION_HOURS :: "trust_level \<Rightarrow> int" where
  "SESSION_DURATION_HOURS l =
     (case l of TVerified \<Rightarrow> 24 | TUserFacing \<Rightarrow> 12 | TBackgroundAgent \<Rightarrow> 4 | TUntrusted \<Rightarrow> 1)"

definition POLICY_MATRIX :: "trust_level \<Rightarrow> effective_policy" where
  "POLICY_MATRIX l =
     (case l of
        TVerified \<Rightarrow> \<lparr>ep_write_mode = WAuto, ep_read_mode = RAlways, ep_sensitive_handling = HAllowed,
                     ep_default_scope_routing = [], ep_write_async = False\<rparr>
      | TUserFacing \<Rightarrow> \<lparr>ep_write_mode = WDurableSummary, ep_read_mode = ROnDemand,
                     ep_sensitive_handling = HConfirmViaClient, ep_default_scope_routing = [], ep_write_async = False\<rparr>
      | TBackgroundAgent \<Rightarrow> \<lparr>ep_write_mode = WExplicitOnly, ep_read_mode = ROnDemand,
                     ep_sensitive_handling = HServerRedact, ep_default_scope_routing = [], ep_write_async = True\<rparr>
      | TUntrusted \<Rightarrow> \<lparr>ep_write_mode = WOff, ep_read_mode = ROff, ep_sensitive_handling = HNever,
                     ep_default_scope_routing = [], ep_write_async = True\<rparr>)"

record trust_resolution =
  tr_level :: trust_level
  tr_policy :: effective_policy
  tr_actor_id :: string
  tr_capabilities :: "operation list"
  tr_expires_at :: int
  tr_downgraded :: bool

definition scopeCovers :: "string \<Rightarrow> string \<Rightarrow> bool" where
  "scopeCovers pattern target =
     (if pattern = ''*'' then True
      else if pattern = target then True
      else if ends_with pattern ''/*'' \<and> starts_with target (butlast pattern) then True
      else False)"

definition all_operations :: "operation list" where
  "all_operations = [OpObserve, OpQuery, OpRead, OpCompile, OpCorrect, OpForget]"

definition resolveCapabilities :: "grant \<Rightarrow> string list \<Rightarrow> operation list" where
  "resolveCapabilities g requested =
     filter (\<lambda>op. let allowed = capability_scopes g op in
               ''*'' \<in> set allowed \<or> list_ex (\<lambda>rs. list_ex (\<lambda>a. scopeCovers a rs) allowed) requested)
       all_operations"

definition session_expiry :: "int \<Rightarrow> trust_level \<Rightarrow> int" where
  "session_expiry now l = now + SESSION_DURATION_HOURS l * 3600000"

definition resolveTrust ::
  "int \<Rightarrow> string \<Rightarrow> trust_level \<Rightarrow> client_capabilities \<Rightarrow> string \<Rightarrow> string list \<Rightarrow> smartware_config \<Rightarrow> trust_resolution" where
  "resolveTrust now clientId declared caps actorId requested config =
     (if isOwner actorId config then
        \<lparr>tr_level = declared, tr_policy = POLICY_MATRIX declared, tr_actor_id = actorId,
         tr_capabilities = all_operations, tr_expires_at = session_expiry now declared, tr_downgraded = False\<rparr>
      else case getGrantForActor now actorId config of
        None \<Rightarrow>
          \<lparr>tr_level = TUntrusted, tr_policy = POLICY_MATRIX TUntrusted, tr_actor_id = actorId,
           tr_capabilities = [], tr_expires_at = session_expiry now TUntrusted, tr_downgraded = True\<rparr>
      | Some g \<Rightarrow>
          (let capped = (\<not> g_trusted g \<and> declared = TVerified);
               l1 = (if capped then TUserFacing else declared);
               quarantined = (g_quarantine g \<and> (l1 = TVerified \<or> l1 = TUserFacing));
               l2 = (if quarantined then TBackgroundAgent else l1)
           in \<lparr>tr_level = l2, tr_policy = POLICY_MATRIX l2, tr_actor_id = actorId,
               tr_capabilities = resolveCapabilities g requested, tr_expires_at = session_expiry now l2,
               tr_downgraded = (capped \<or> quarantined)\<rparr>))"

section \<open>Store\<close>

datatype session_status = SsActive | SsEnded | SsExpired

record session =
  ss_id :: string
  ss_client_id :: string
  ss_client_version :: string
  ss_actor_id :: string
  ss_declared :: trust_level
  ss_effective :: trust_level
  ss_declared_capabilities :: client_capabilities
  ss_policy :: effective_policy
  ss_requested_scopes :: "string list"
  ss_capabilities :: "operation list"
  ss_policy_version :: string
  ss_created_at :: string
  ss_expires_at :: int
  ss_ended_at :: "string option"
  ss_status :: session_status

type_synonym session_store = "session list"

definition session_insert :: "session \<Rightarrow> session_store \<Rightarrow> session_store outcome" where
  "session_insert s st =
     (if list_ex (\<lambda>x. ss_id x = ss_id s) st then Inl (JsError ''UNIQUE constraint failed: sessions.id'')
      else Inr (st @ [s]))"

definition set_expired :: "session \<Rightarrow> session" where
  "set_expired s = s\<lparr>ss_status := SsExpired\<rparr>"

definition set_ended :: "string \<Rightarrow> session \<Rightarrow> session" where
  "set_ended at s = s\<lparr>ss_status := SsEnded, ss_ended_at := Some at\<rparr>"

definition session_get :: "int \<Rightarrow> string \<Rightarrow> session_store \<Rightarrow> session option \<times> session_store" where
  "session_get now sid st =
     (case lookup_by ss_id sid st of
        None \<Rightarrow> (None, st)
      | Some s \<Rightarrow>
          if ss_status s = SsActive \<and> ss_expires_at s < now
          then (Some (set_expired s), upd_where (\<lambda>x. ss_id x = sid) set_expired st)
          else (Some s, st))"

definition getActive :: "int \<Rightarrow> string \<Rightarrow> session_store \<Rightarrow> session option \<times> session_store" where
  "getActive now sid st =
     (case session_get now sid st of
        (None, st') \<Rightarrow> (None, st')
      | (Some s, st') \<Rightarrow> if ss_status s \<noteq> SsActive then (None, st') else (Some s, st'))"

definition session_end :: "string \<Rightarrow> string \<Rightarrow> session_store \<Rightarrow> bool \<times> session_store" where
  "session_end now_iso sid st =
     (list_ex (\<lambda>s. ss_id s = sid \<and> ss_status s = SsActive) st,
      upd_where (\<lambda>s. ss_id s = sid \<and> ss_status s = SsActive) (set_ended now_iso) st)"

definition getByActor :: "string \<Rightarrow> session_store \<Rightarrow> session list" where
  "getByActor actorId st = filter (\<lambda>s. ss_actor_id s = actorId \<and> ss_status s = SsActive) st"

definition activeCount :: "session_store \<Rightarrow> nat" where
  "activeCount st = length (filter (\<lambda>s. ss_status s = SsActive) st)"

section \<open>Handlers\<close>

text \<open>
  The handlers' world: the store and, when the operations directory is configured, the log. Their
  log append is best-effort: a failed one is swallowed and leaves the log unchanged.
\<close>

record session_world =
  sw_store :: session_store
  sw_ops :: "ops_dir option"

definition log_best_effort :: "op_entry \<Rightarrow> session_world \<Rightarrow> session_world" where
  "log_best_effort e w =
     (case sw_ops w of None \<Rightarrow> w | Some dir \<Rightarrow> w\<lparr>sw_ops := Some (snd (appendOpLogEntry e dir))\<rparr>)"

definition trust_name :: "trust_level \<Rightarrow> string" where
  "trust_name l = (case l of TVerified \<Rightarrow> ''verified'' | TUserFacing \<Rightarrow> ''user_facing''
     | TBackgroundAgent \<Rightarrow> ''background_agent'' | TUntrusted \<Rightarrow> ''untrusted'')"

record session_start_params =
  sp_actor_id :: string
  sp_client_id :: string
  sp_client_version :: string
  sp_declared :: trust_level
  sp_declared_capabilities :: client_capabilities
  sp_requested_scopes :: "string list option"

definition start_session_record ::
  "int \<Rightarrow> string \<Rightarrow> string \<Rightarrow> string \<Rightarrow> session_start_params \<Rightarrow> smartware_config \<Rightarrow> session" where
  "start_session_record now now_iso uid version p config =
     (let requested = (case sp_requested_scopes p of Some xs \<Rightarrow> xs | None \<Rightarrow> map se_id (cfg_scopes config));
          res = resolveTrust now (sp_client_id p) (sp_declared p) (sp_declared_capabilities p) (sp_actor_id p)
                  requested config
      in \<lparr>ss_id = ''session_'' @ uid, ss_client_id = sp_client_id p, ss_client_version = sp_client_version p,
          ss_actor_id = tr_actor_id res, ss_declared = sp_declared p, ss_effective = tr_level res,
          ss_declared_capabilities = sp_declared_capabilities p, ss_policy = tr_policy res,
          ss_requested_scopes = requested, ss_capabilities = tr_capabilities res, ss_policy_version = version,
          ss_created_at = now_iso, ss_expires_at = tr_expires_at res, ss_ended_at = None, ss_status = SsActive\<rparr>)"

definition handleSessionStart ::
  "int \<Rightarrow> string \<Rightarrow> string \<Rightarrow> string \<Rightarrow> string \<Rightarrow> session_start_params \<Rightarrow> smartware_config \<Rightarrow> session_world
     \<Rightarrow> session outcome \<times> session_world" where
  "handleSessionStart now now_iso uid op_uid version p config w =
     (if js_trim (sp_client_id p) = [] then (Inl (ProtocolError ''invalid_params'' NoDetails), w)
      else let s = start_session_record now now_iso uid version p config in
        case session_insert s (sw_store w) of
          Inl e \<Rightarrow> (Inl e, w)
        | Inr st \<Rightarrow>
            (Inr s, log_best_effort
               \<lparr>oe_operation_id = ''op_'' @ op_uid, oe_actor_id = ss_actor_id s, oe_timestamp = now_iso,
                oe_op = ''session.start'',
                oe_details = Some [(''session_id'', JStr (ss_id s)), (''trust_level'', JStr (trust_name (ss_effective s)))]\<rparr>
               (w\<lparr>sw_store := st\<rparr>)))"

definition requireSessionOwner :: "string \<Rightarrow> session \<Rightarrow> smartware_config \<Rightarrow> unit outcome" where
  "requireSessionOwner actorId s config =
     (if actorId \<noteq> ss_actor_id s \<and> \<not> isOwner actorId config
      then Inl (ProtocolError ''forbidden'' NoDetails) else Inr ())"

definition handleSessionDescribe ::
  "int \<Rightarrow> string \<Rightarrow> string \<Rightarrow> smartware_config \<Rightarrow> session_world \<Rightarrow> session outcome \<times> session_world" where
  "handleSessionDescribe now sid actorId config w =
     (case session_get now sid (sw_store w) of
        (None, st) \<Rightarrow> (Inl (ProtocolError ''session_not_found'' NoDetails), w\<lparr>sw_store := st\<rparr>)
      | (Some s, st) \<Rightarrow>
          (case requireSessionOwner actorId s config of
             Inl e \<Rightarrow> (Inl e, w\<lparr>sw_store := st\<rparr>)
           | Inr _ \<Rightarrow> (Inr s, w\<lparr>sw_store := st\<rparr>)))"

datatype durability = NotRequested | NotConfigured | Persisted nat | SummaryFailed

definition summarize ::
  "(string \<Rightarrow> string \<Rightarrow> nat outcome) option \<Rightarrow> session \<Rightarrow> durability" where
  "summarize onSummarize s =
     (case ep_write_mode (ss_policy s) of
        WOff \<Rightarrow> NotRequested
      | WExplicitOnly \<Rightarrow> NotRequested
      | _ \<Rightarrow>
          (case onSummarize of
             None \<Rightarrow> NotConfigured
           | Some f \<Rightarrow>
               (case f (case ss_requested_scopes s of [] \<Rightarrow> POD_SELF_SCOPE | x # _ \<Rightarrow> x) (ss_actor_id s) of
                  Inr n \<Rightarrow> Persisted n | Inl _ \<Rightarrow> SummaryFailed)))"

definition handleSessionEnd ::
  "int \<Rightarrow> string \<Rightarrow> string \<Rightarrow> (string \<Rightarrow> string \<Rightarrow> nat outcome) option \<Rightarrow> string \<Rightarrow> string \<Rightarrow> smartware_config
     \<Rightarrow> session_world \<Rightarrow> (write_mode \<times> durability \<times> bool) outcome \<times> session_world" where
  "handleSessionEnd now now_iso op_uid onSummarize sid actorId config w =
     (case session_get now sid (sw_store w) of
        (None, st) \<Rightarrow> (Inl (ProtocolError ''session_not_found'' NoDetails), w\<lparr>sw_store := st\<rparr>)
      | (Some s, st) \<Rightarrow>
          (case requireSessionOwner actorId s config of
             Inl e \<Rightarrow> (Inl e, w\<lparr>sw_store := st\<rparr>)
           | Inr _ \<Rightarrow>
               if ss_status s \<noteq> SsActive then (Inl (ProtocolError ''session_inactive'' NoDetails), w\<lparr>sw_store := st\<rparr>)
               else
                 (Inr (ep_write_mode (ss_policy s), summarize onSummarize s,
                       ep_sensitive_handling (ss_policy s) = HServerRedact \<or> ep_sensitive_handling (ss_policy s) = HNever),
                  log_best_effort
                    \<lparr>oe_operation_id = ''op_'' @ op_uid, oe_actor_id = ss_actor_id s, oe_timestamp = now_iso,
                     oe_op = ''session.end'', oe_details = Some [(''session_id'', JStr sid)]\<rparr>
                    (w\<lparr>sw_store := snd (session_end now_iso sid st)\<rparr>))))"

record resolved_session =
  rv_actor_id :: string
  rv_policy :: effective_policy
  rv_requested_scopes :: "string list"
  rv_capabilities :: "operation list"

definition resolveActorFromSession ::
  "int \<Rightarrow> string option \<Rightarrow> session_store \<Rightarrow> resolved_session option outcome \<times> session_store" where
  "resolveActorFromSession now sid st =
     (case sid of
        None \<Rightarrow> (Inr None, st)
      | Some i \<Rightarrow>
          if i = [] then (Inr None, st)
          else (case getActive now i st of
                  (None, st') \<Rightarrow> (Inl (ProtocolError ''session_expired'' NoDetails), st')
                | (Some s, st') \<Rightarrow>
                    (Inr (Some \<lparr>rv_actor_id = ss_actor_id s, rv_policy = ss_policy s,
                               rv_requested_scopes = ss_requested_scopes s, rv_capabilities = ss_capabilities s\<rparr>), st')))"

definition requireSessionCapability :: "resolved_session \<Rightarrow> operation \<Rightarrow> string \<Rightarrow> unit outcome" where
  "requireSessionCapability rv cap scope =
     (if cap \<notin> set (rv_capabilities rv) then Inl (ProtocolError ''forbidden'' NoDetails)
      else if \<not> list_ex (\<lambda>r. scopeCovers r scope) (rv_requested_scopes rv)
        then Inl (ProtocolError ''forbidden'' NoDetails)
      else Inr ())"

section \<open>Lemmas\<close>

interpretation ss_exp: key_preserving ss_id set_expired
  by unfold_locales (simp add: set_expired_def)

interpretation ss_end: key_preserving ss_id "set_ended at"
  by unfold_locales (simp add: set_ended_def)

lemma scopeCovers_scopeMatches: "scopeCovers = scopeMatches"
  by (simp add: fun_eq_iff scopeCovers_def scopeMatches_def)

primrec trust_rank :: "trust_level \<Rightarrow> nat" where
  "trust_rank TUntrusted = 0"
| "trust_rank TBackgroundAgent = 1"
| "trust_rank TUserFacing = 2"
| "trust_rank TVerified = 3"

lemma resolveCapabilities_iff:
  "op \<in> set (resolveCapabilities g requested) \<longleftrightarrow>
     (\<exists>p \<in> set (capability_scopes g op). p = ''*'' \<or> (\<exists>rs \<in> set requested. scopeMatches p rs))"
proof -
  have "op \<in> set all_operations" by (cases op) (simp_all add: all_operations_def)
  then show ?thesis by (auto simp: resolveCapabilities_def list_ex_iff scopeCovers_scopeMatches Let_def)
qed

text \<open>The store as a state machine: time passes, sessions are inserted, read and ended.\<close>

inductive session_step :: "int \<times> session_store \<Rightarrow> int \<times> session_store \<Rightarrow> bool" where
  tick: "now \<le> now' \<Longrightarrow> session_step (now, st) (now', st)"
| start: "session_insert s st = Inr st' \<Longrightarrow> session_step (now, st) (now, st')"
| get: "session_get now sid st = (r, st') \<Longrightarrow> session_step (now, st) (now, st')"
| finish: "session_end at sid st = (b, st') \<Longrightarrow> session_step (now, st) (now, st')"

inductive_cases session_stepE: "session_step a b"

definition session_dead :: "string \<Rightarrow> int \<times> session_store \<Rightarrow> bool" where
  "session_dead sid w =
     (case lookup_by ss_id sid (snd w) of None \<Rightarrow> False
      | Some s \<Rightarrow> ss_status s \<noteq> SsActive \<or> ss_expires_at s < fst w)"

lemma session_dead_step:
  assumes "session_step w w'" and "session_dead sid w"
  shows "session_dead sid w'"
  using assms
proof (cases rule: session_step.cases)
  case (tick now now' st)
  then show ?thesis using assms(2) by (auto simp: session_dead_def split: option.splits)
next
  case (start s st st' now)
  then show ?thesis using assms(2)
    by (auto simp: session_dead_def session_insert_def split: option.splits if_splits)
next
  case (get now sid' st r st')
  then show ?thesis using assms(2)
    by (auto simp: session_dead_def session_get_def ss_exp.lookup_upd_key split: option.splits if_splits)
      (auto simp: set_expired_def)
next
  case (finish at sid' st b st' now)
  then show ?thesis using assms(2)
    by (auto simp: session_dead_def session_end_def ss_end.lookup_upd_where split: option.splits)
      (auto simp: set_ended_def)
qed

lemma session_dead_steps: "session_step\<^sup>*\<^sup>* w w' \<Longrightarrow> session_dead sid w \<Longrightarrow> session_dead sid w'"
  by (induction rule: rtranclp_induct) (auto intro: session_dead_step)

lemma getActive_dead: "session_dead sid (now, st) \<Longrightarrow> fst (getActive now sid st) = None"
  by (auto simp: session_dead_def getActive_def session_get_def set_expired_def split: option.splits if_splits)

lemma getActive_live:
  assumes "lookup_by ss_id sid st = Some s" and "ss_status s = SsActive" and "now \<le> ss_expires_at s"
  shows "getActive now sid st = (Some s, st)"
  using assms by (simp add: getActive_def session_get_def)

section \<open>Properties\<close>

text \<open>A session never gets more trust than the server can justify. The owner gets the level it
  declares. Any other actor gets at most that: without a live grant in its name it is untrusted with no
  capability; with one, it is verified only if the grant is trusted and not quarantined, a quarantined
  grant gives at most a background agent, and a capability is granted iff the grant has a pattern for it
  that is the wildcard or covers a requested scope. Policy and life time follow the level.\<close>

lemma resolveTrust_capped:
  assumes "res = resolveTrust now client declared caps a requested config"
  shows "(isOwner a config \<longrightarrow> tr_level res = declared)
    \<and> (\<not> isOwner a config \<longrightarrow> trust_rank (tr_level res) \<le> trust_rank declared)
    \<and> (\<not> isOwner a config \<and> getGrantForActor now a config = None \<longrightarrow> tr_level res = TUntrusted \<and> tr_capabilities res = [])
    \<and> (\<not> isOwner a config \<and> getGrantForActor now a config = Some g \<longrightarrow>
        (tr_level res = TVerified \<longrightarrow> g_trusted g \<and> \<not> g_quarantine g)
        \<and> (g_quarantine g \<longrightarrow> trust_rank (tr_level res) \<le> trust_rank TBackgroundAgent)
        \<and> (\<forall>op. op \<in> set (tr_capabilities res) \<longleftrightarrow>
             (\<exists>p \<in> set (capability_scopes g op). p = ''*'' \<or> (\<exists>rs \<in> set requested. scopeMatches p rs))))
    \<and> tr_actor_id res = a \<and> tr_policy res = POLICY_MATRIX (tr_level res)
    \<and> tr_expires_at res = now + SESSION_DURATION_HOURS (tr_level res) * 3600000"
  by (cases declared)
    (auto simp: assms resolveTrust_def Let_def session_expiry_def resolveCapabilities_iff split: option.split)

definition demo_client :: client_capabilities where
  "demo_client = \<lparr>can_tag_sensitivity = False, can_provide_intent = False, can_request_user_confirmation = False\<rparr>"

lemma resolveTrust_capped_example:
  "\<not> isOwner ''agent:a'' demo_config \<and> getGrantForActor 50 ''agent:a'' demo_config = Some demo_grant
   \<and> trust_rank (tr_level (resolveTrust 50 ''c'' TVerified demo_client ''agent:a'' [''project/foo''] demo_config)) \<le> 3"
proof -
  have o: "\<not> isOwner ''agent:a'' demo_config" and g: "getGrantForActor 50 ''agent:a'' demo_config = Some demo_grant"
    by code_simp+
  show ?thesis
    using resolveTrust_capped [OF refl, of "''agent:a''" demo_config 50 "''c''" TVerified demo_client "[''project/foo'']" demo_grant] o g
    by simp
qed

text \<open>C9: A session that is over stays over. Once a session has been ended or expired, or its expiry time
  has passed, then after any number of steps of the store (time passing, other sessions starting, reads,
  ends) resolving an actor from it fails with \<^verbatim>\<open>session_expired\<close>; its id can never be taken by a new
  session.\<close>

theorem session_over_stays_over:
  assumes "lookup_by ss_id sid st = Some s" and "ss_status s \<noteq> SsActive \<or> ss_expires_at s < now"
    and "session_step\<^sup>*\<^sup>* (now, st) (now', st')" and "sid \<noteq> []"
  shows "fst (resolveActorFromSession now' (Some sid) st') = Inl (ProtocolError ''session_expired'' NoDetails)
    \<and> (\<forall>s'. ss_id s' = sid \<longrightarrow> \<not> is_ok (session_insert s' st'))"
proof -
  have "session_dead sid (now, st)" using assms(1,2) by (simp add: session_dead_def)
  with assms(3) have dead: "session_dead sid (now', st')" by (rule session_dead_steps)
  then have "\<exists>x \<in> set st'. ss_id x = sid"
    by (auto simp: session_dead_def split: option.splits dest: lookup_by_SomeD)
  then have "\<forall>s'. ss_id s' = sid \<longrightarrow> \<not> is_ok (session_insert s' st')"
    by (auto simp: session_insert_def list_ex_iff)
  then show ?thesis using getActive_dead [OF dead] assms(4)
    by (cases "getActive now' sid st'") (simp add: resolveActorFromSession_def)
qed

definition demo_session :: session where
  "demo_session = start_session_record 50 ''t'' ''u'' ''v''
     \<lparr>sp_actor_id = ''agent:a'', sp_client_id = ''c'', sp_client_version = ''1'', sp_declared = TVerified,
      sp_declared_capabilities = demo_client, sp_requested_scopes = Some [''project/foo'']\<rparr> demo_config"

theorem session_over_stays_over_witness:
  "fst (resolveActorFromSession 20 (Some ''session_u'') (snd (session_end ''t1'' ''session_u'' [demo_session])))
     = Inl (ProtocolError ''session_expired'' NoDetails)"
proof -
  let ?st = "snd (session_end ''t1'' ''session_u'' [demo_session])"
  have "lookup_by ss_id ''session_u'' ?st = Some (set_ended ''t1'' demo_session)" by code_simp
  moreover have "ss_status (set_ended ''t1'' demo_session) \<noteq> SsActive" by (simp add: set_ended_def)
  moreover have "session_step\<^sup>*\<^sup>* (10, ?st) (20, ?st)" by (intro r_into_rtranclp session_step.tick) simp
  ultimately show ?thesis
    using session_over_stays_over [of "''session_u''" ?st "set_ended ''t1'' demo_session" 10 20 ?st] by simp
qed

end
