(* ===== verification/Intents.thy ===== *)
theory Intents
  imports Ops_Log Layer0
begin

text \<open>
  The write-ahead log of operation intents (\<^verbatim>\<open>ops_log/intent.ts\<close>): one file per prepared operation, with
  the identities and hashes of the artifacts it is about to write. An intent is the common fields and a
  body per operation. A file holds an intent or a text that does not parse as one of the seven shapes;
  \<open>valid_intent\<close> is what the code checks of a parsed intent beyond the types of its fields.
\<close>

section \<open>Intents\<close>

record claim_artifact =
  xa_claim_id :: string
  xa_version :: int
  xa_record_hash :: string

record audit_artifact =
  au_observation_id :: string
  au_observation_hash :: string
  au_sequence :: nat

datatype forget_target = TargetObservation | TargetClaim
datatype forget_mode = ModeTombstone | ModeRedact
datatype forget_reason = ReasonErasure | ReasonOffboarding

record observe_body =
  ob_audit :: audit_artifact
  ob_result_id :: string
  ob_result_status :: obs_status
  ob_result_sequence :: nat
  ob_details_scope :: string
  ob_details_source :: string

record revise_body =
  rb_artifact :: claim_artifact
  rb_relation_ids :: "string list"
  rb_repick :: "claim_artifact list option"
  rb_result_claim_id :: string
  rb_result_version :: int
  rb_owner_is_user :: bool
  rb_result_operation_id :: string
  rb_superseded_by :: "string option"
  rb_demoted :: "string list option"
  rb_details_claim_id :: string
  rb_details_version :: int

record forget_body =
  fb_audit :: audit_artifact
  fb_claim_version :: "claim_artifact option"
  fb_target_id :: string
  fb_target_kind :: forget_target
  fb_mode :: forget_mode
  fb_claims_retracted :: nat
  fb_claims_reduced :: nat
  fb_audit_observation_id :: string
  fb_details :: "string \<times> forget_target \<times> forget_mode"

record forget_scope_body =
  sb_audit :: audit_artifact
  sb_scope :: string
  sb_reason :: forget_reason
  sb_result_scope :: string
  sb_result_reason :: forget_reason
  sb_claims_retracted :: nat
  sb_observations_retracted :: nat
  sb_grants_revoked :: "string list"
  sb_scope_entry_removed :: bool
  sb_audit_observation_id :: string
  sb_details :: "string \<times> forget_reason"
  sb_export_id :: "string option"

record revive_body =
  vi_artifact :: claim_artifact
  vi_result_claim_id :: string
  vi_result_version :: int
  vi_result_operation_id :: string
  vi_invalidated_edges :: "string list"
  vi_details_claim_id :: string
  vi_tombstone_id :: string

record endorse_body =
  eb_page_id :: string
  eb_content_hash :: string
  eb_claims :: "claim_artifact list"
  eb_result_page_id :: string
  eb_claims_endorsed :: nat
  eb_result_operation_id :: string
  eb_commit_ts :: string
  eb_details_page_id :: string

record reflect_body =
  fl_artifact :: claim_artifact
  fl_result_claim_id :: string
  fl_result_version :: int
  fl_details_claim_id :: string
  fl_fingerprint :: string

datatype intent_body =
    IObserve observe_body
  | IRevise revise_body
  | IForget forget_body
  | IForgetScope forget_scope_body
  | IRevive revive_body
  | IEndorse endorse_body
  | IReflect reflect_body

record op_intent =
  it_operation_id :: string
  it_actor_id :: string
  it_payload_hash :: string
  it_fence :: "commit_stamp option"
  it_prepared_at :: string
  it_body :: intent_body

definition intent_op :: "op_intent \<Rightarrow> string" where
  "intent_op i =
     (case it_body i of IObserve _ \<Rightarrow> ''observe'' | IRevise _ \<Rightarrow> ''revise.claim'' | IForget _ \<Rightarrow> ''forget''
      | IForgetScope _ \<Rightarrow> ''forget.scope'' | IRevive _ \<Rightarrow> ''revive'' | IEndorse _ \<Rightarrow> ''endorse''
      | IReflect _ \<Rightarrow> ''reflect.auto'')"

section \<open>Validation\<close>

definition is_hex64 :: "string \<Rightarrow> bool" where
  "is_hex64 s =
     (length s = 64 \<and> list_all (\<lambda>c. (CHR ''a'' \<le> c \<and> c \<le> CHR ''f'') \<or> (CHR ''0'' \<le> c \<and> c \<le> CHR ''9'')) s)"

definition hasCommonIntentFields :: "op_intent \<Rightarrow> bool" where
  "hasCommonIntentFields i =
     (isValidOperationId (it_operation_id i) \<and> is_hex64 (it_payload_hash i)
      \<and> (case it_fence i of None \<Rightarrow> True
         | Some st \<Rightarrow> isSafeInteger (JInt (st_epoch st)) \<and> 1 \<le> st_epoch st \<and> st_writer_id st \<noteq> []))"

definition isObservationIntent :: "observe_body \<Rightarrow> bool" where
  "isObservationIntent b =
     (ob_result_id b = au_observation_id (ob_audit b) \<and> ob_result_sequence b = au_sequence (ob_audit b))"

definition isReviseIntent :: "op_intent \<Rightarrow> revise_body \<Rightarrow> bool" where
  "isReviseIntent i b =
     (is_hex64 (xa_record_hash (rb_artifact b))
      \<and> (case rb_repick b of None \<Rightarrow> True | Some ds \<Rightarrow> list_all (\<lambda>d. is_hex64 (xa_record_hash d)) ds)
      \<and> (case rb_repick b of
           None \<Rightarrow> rb_demoted b = None
         | Some ds \<Rightarrow> rb_demoted b = Some (map xa_claim_id ds))
      \<and> rb_result_claim_id b = xa_claim_id (rb_artifact b)
      \<and> rb_result_version b = xa_version (rb_artifact b)
      \<and> rb_result_operation_id b = it_operation_id i
      \<and> (rb_repick b = None \<or> rb_superseded_by b = None)
      \<and> rb_details_claim_id b = xa_claim_id (rb_artifact b)
      \<and> rb_details_version b = xa_version (rb_artifact b))"

definition isForgetIntent :: "forget_body \<Rightarrow> bool" where
  "isForgetIntent b =
     ((case fb_claim_version b of None \<Rightarrow> True | Some a \<Rightarrow> is_hex64 (xa_record_hash a))
      \<and> fb_audit_observation_id b = au_observation_id (fb_audit b)
      \<and> fb_details b = (fb_target_id b, fb_target_kind b, fb_mode b)
      \<and> (fb_target_kind b = TargetClaim) = (fb_claim_version b \<noteq> None))"

definition isForgetScopeIntent :: "forget_scope_body \<Rightarrow> bool" where
  "isForgetScopeIntent b =
     (sb_result_scope b = sb_scope b \<and> sb_result_reason b = sb_reason b
      \<and> sb_audit_observation_id b = au_observation_id (sb_audit b)
      \<and> sb_details b = (sb_scope b, sb_reason b))"

definition isReviveIntent :: "op_intent \<Rightarrow> revive_body \<Rightarrow> bool" where
  "isReviveIntent i b =
     (is_hex64 (xa_record_hash (vi_artifact b))
      \<and> vi_result_claim_id b = xa_claim_id (vi_artifact b)
      \<and> vi_result_version b = xa_version (vi_artifact b)
      \<and> vi_result_operation_id b = it_operation_id i
      \<and> vi_details_claim_id b = xa_claim_id (vi_artifact b))"

definition isEndorseIntent :: "op_intent \<Rightarrow> endorse_body \<Rightarrow> bool" where
  "isEndorseIntent i b =
     (is_hex64 (eb_content_hash b) \<and> list_all (\<lambda>c. is_hex64 (xa_record_hash c)) (eb_claims b)
      \<and> eb_result_page_id b = eb_page_id b
      \<and> eb_claims_endorsed b = length (eb_claims b)
      \<and> eb_result_operation_id b = it_operation_id i
      \<and> eb_commit_ts b = it_prepared_at i
      \<and> eb_details_page_id b = eb_page_id b)"

definition isReflectClaimIntent :: "reflect_body \<Rightarrow> bool" where
  "isReflectClaimIntent b =
     (is_hex64 (xa_record_hash (fl_artifact b))
      \<and> fl_result_claim_id b = xa_claim_id (fl_artifact b)
      \<and> fl_result_version b = xa_version (fl_artifact b)
      \<and> fl_details_claim_id b = xa_claim_id (fl_artifact b))"

definition valid_intent :: "op_intent \<Rightarrow> bool" where
  "valid_intent i =
     (hasCommonIntentFields i \<and>
      (case it_body i of
         IObserve b \<Rightarrow> isObservationIntent b
       | IRevise b \<Rightarrow> isReviseIntent i b
       | IForget b \<Rightarrow> isForgetIntent b
       | IForgetScope b \<Rightarrow> isForgetScopeIntent b
       | IRevive b \<Rightarrow> isReviveIntent i b
       | IEndorse b \<Rightarrow> isEndorseIntent i b
       | IReflect b \<Rightarrow> isReflectClaimIntent b))"

section \<open>The intents directory\<close>

datatype intent_file = IntentFile op_intent | GarbledFile string

type_synonym intents_dir = "(string \<times> intent_file) list"

definition parseIntent :: "intent_file \<Rightarrow> string \<Rightarrow> op_intent outcome" where
  "parseIntent f expectedId =
     (case f of
        GarbledFile t \<Rightarrow> Inl (JsError ''Malformed operation intent'')
      | IntentFile i \<Rightarrow>
          if \<not> valid_intent i \<or> it_operation_id i \<noteq> expectedId
          then Inl (JsError ''Malformed operation intent'') else Inr i)"

definition readOperationIntent :: "intents_dir \<Rightarrow> string \<Rightarrow> op_intent option outcome" where
  "readOperationIntent dir oid =
     (if \<not> isValidOperationId oid then Inl (JsError ''Invalid operation intent id'')
      else case map_of dir oid of
        None \<Rightarrow> Inr None
      | Some f \<Rightarrow> (case parseIntent f oid of Inl x \<Rightarrow> Inl x | Inr i \<Rightarrow> Inr (Some i)))"

text \<open>The records of a scan, sorted by file name.\<close>

definition readOperationIntentRecords :: "intents_dir \<Rightarrow> (string \<times> op_intent outcome) list" where
  "readOperationIntentRecords dir =
     map (\<lambda>(oid, f). (oid, if \<not> isValidOperationId oid then Inl (JsError ''invalid filename'') else parseIntent f oid))
       (sort_key (\<lambda>(oid, f). oid @ ''.json'') dir)"

definition same_identity :: "op_intent \<Rightarrow> op_intent \<Rightarrow> bool" where
  "same_identity a b = (intent_op a = intent_op b \<and> it_actor_id a = it_actor_id b \<and> it_payload_hash a = it_payload_hash b)"

definition persistOperationIntent :: "op_intent \<Rightarrow> bool \<Rightarrow> intents_dir \<Rightarrow> unit outcome \<times> intents_dir" where
  "persistOperationIntent i allowReplacement dir =
     (if \<not> valid_intent i then (Inl (JsError ''Invalid operation intent''), dir)
      else case readOperationIntent dir (it_operation_id i) of
        Inl x \<Rightarrow> (Inl x, dir)
      | Inr (Some existing) \<Rightarrow>
          if \<not> same_identity existing i \<or> \<not> allowReplacement then
            (if existing = i then (Inr (), dir)
             else (Inl (JsError ''Operation intent already exists with different state''), dir))
          else (Inr (), js_map_set (it_operation_id i) (IntentFile i) dir)
      | Inr None \<Rightarrow> (Inr (), js_map_set (it_operation_id i) (IntentFile i) dir))"

definition removeOperationIntent :: "string \<Rightarrow> intents_dir \<Rightarrow> unit outcome \<times> intents_dir" where
  "removeOperationIntent oid dir =
     (if \<not> isValidOperationId oid then (Inl (JsError ''Invalid operation intent id''), dir)
      else (Inr (), filter (\<lambda>(k, f). k \<noteq> oid) dir))"

section \<open>Lemmas\<close>

lemma valid_intent_id: "valid_intent i \<Longrightarrow> isValidOperationId (it_operation_id i)"
  by (simp add: valid_intent_def hasCommonIntentFields_def)

lemma map_of_remove: "map_of (filter (\<lambda>(k, f). k \<noteq> oid) dir) = (map_of dir)(oid := None)"
  by (induction dir) (auto simp: fun_eq_iff)

section \<open>Properties\<close>

text \<open>An intent is durable until it is removed. When persisting succeeds, reading the operation id
  gives that intent; an intent of the same id with another kind, actor or payload is never overwritten,
  the call fails and the directory is unchanged; removing one intent touches no other; and an intent that
  does not validate is never written.\<close>

lemma persist_read_remove:
  assumes "persistOperationIntent i allow dir = (r, dir')"
  shows "(r = Inr () \<longrightarrow> valid_intent i \<and> readOperationIntent dir' (it_operation_id i) = Inr (Some i))
    \<and> (\<forall>e. r = Inl e \<longrightarrow> dir' = dir)
    \<and> (\<forall>old. readOperationIntent dir (it_operation_id i) = Inr (Some old) \<and> \<not> same_identity old i \<longrightarrow> \<not> is_ok r)
    \<and> (\<forall>oid. oid \<noteq> it_operation_id i \<longrightarrow> readOperationIntent dir' oid = readOperationIntent dir oid)
    \<and> (isValidOperationId gone \<longrightarrow> readOperationIntent (snd (removeOperationIntent gone dir')) gone = Inr None
        \<and> (\<forall>oid. oid \<noteq> gone \<longrightarrow> readOperationIntent (snd (removeOperationIntent gone dir')) oid = readOperationIntent dir' oid))"
proof -
  have put: "readOperationIntent (js_map_set (it_operation_id i) (IntentFile i) dir) (it_operation_id i) = Inr (Some i)"
    if "valid_intent i" using that valid_intent_id [OF that] by (simp add: readOperationIntent_def parseIntent_def)
  have frame: "readOperationIntent (js_map_set (it_operation_id i) (IntentFile i) dir) oid = readOperationIntent dir oid"
    if "oid \<noteq> it_operation_id i" for oid using that by (simp add: readOperationIntent_def)
  have gone: "isValidOperationId gone \<longrightarrow> readOperationIntent (snd (removeOperationIntent gone dir')) gone = Inr None
      \<and> (\<forall>oid. oid \<noteq> gone \<longrightarrow> readOperationIntent (snd (removeOperationIntent gone dir')) oid = readOperationIntent dir' oid)"
    by (simp add: removeOperationIntent_def readOperationIntent_def map_of_remove)
  have same: "same_identity i i" by (simp add: same_identity_def)
  show ?thesis
    using assms put frame gone same
    by (auto simp: persistOperationIntent_def split: if_splits sum.splits option.splits)
qed

definition demo_intent :: op_intent where
  "demo_intent = \<lparr>it_operation_id = ''op_00000000000000000000000009'', it_actor_id = ''user:a'',
     it_payload_hash = replicate 64 (CHR ''a''), it_fence = None, it_prepared_at = ''2026-01-01T00:00:00Z'',
     it_body = IObserve \<lparr>ob_audit = \<lparr>au_observation_id = ''obs_1'', au_observation_hash = ''sha256:h'', au_sequence = 1\<rparr>,
       ob_result_id = ''obs_1'', ob_result_status = OAccepted, ob_result_sequence = 1,
       ob_details_scope = ''self'', ob_details_source = ''mcp-client''\<rparr>\<rparr>"

lemma persist_read_remove_example:
  "readOperationIntent (snd (persistOperationIntent demo_intent True [])) ''op_00000000000000000000000009'' = Inr (Some demo_intent)
   \<and> \<not> is_ok (fst (persistOperationIntent (demo_intent\<lparr>it_actor_id := ''user:b''\<rparr>) True
        (snd (persistOperationIntent demo_intent True []))))"
proof -
  let ?d = "snd (persistOperationIntent demo_intent True [])"
  let ?j = "demo_intent\<lparr>it_actor_id := ''user:b''\<rparr>"
  have ok: "fst (persistOperationIntent demo_intent True []) = Inr ()" by code_simp
  then have run: "persistOperationIntent demo_intent True [] = (Inr (), ?d)" by (simp add: prod_eq_iff)
  have id: "it_operation_id demo_intent = ''op_00000000000000000000000009''" by (simp add: demo_intent_def)
  have read: "readOperationIntent ?d (it_operation_id demo_intent) = Inr (Some demo_intent)"
    using persist_read_remove [OF run, of "''x''"] by simp
  have "\<not> same_identity demo_intent ?j" by (simp add: same_identity_def demo_intent_def)
  with read persist_read_remove [of ?j True ?d "fst (persistOperationIntent ?j True ?d)" "snd (persistOperationIntent ?j True ?d)" "''x''"]
  have "\<not> is_ok (fst (persistOperationIntent ?j True ?d))" by simp
  with read id show ?thesis by simp
qed

end
