(* ===== verification/Recovery.thy ===== *)
theory Recovery
  imports Intents Claim_Log "HOL-Library.Sublist"
begin

text \<open>
  Recovery of prepared but unfinished operations (\<^verbatim>\<open>ops_log/recovery.ts\<close>). A scan reads the operations
  log, the evidence log, the claim log and the wiki pages; for every intent on disk it decides what to
  do, and finalizes an operation only when the artifacts on disk are exactly those the intent names and
  its ownership epoch is not stale. \<open>dispose\<close> is that decision, one function per kind of operation;
  \<open>recover_one\<close> carries it out. A wiki page is what the scan reads of it: its operation id, its page id
  and its text. The hashes are arguments. Other processes may claim the brain while the scan runs: \<open>env\<close>
  is what happens to the fencing store right before a commit decision.
\<close>

section \<open>What a scan reads\<close>

record page_file =
  pf_locator :: string
  pf_operation_id :: "string option"
  pf_page_id :: "string option"
  pf_raw :: string

record hashes =
  hs_obs :: "observation \<Rightarrow> string"
  hs_version :: "claim_version \<Rightarrow> string"
  hs_page :: "string \<Rightarrow> string"
  hs_text :: "string \<Rightarrow> string"

record recovery_context =
  rx_evidence :: "evidence_dir option"
  rx_claims :: "claims_dir option"
  rx_wiki :: "page_file list option"
  rx_fenced :: bool

record scan =
  sc_entries :: "op_entry list"
  sc_obs :: "observation list"
  sc_versions :: "claim_version list"
  sc_pages :: "page_file list"
  sc_high_water :: int

definition l0_of :: "scan \<Rightarrow> string \<Rightarrow> observation list" where
  "l0_of sc oid = filter (\<lambda>o1. ob_operation_id o1 = Some oid) (sc_obs sc)"

definition l1_of :: "scan \<Rightarrow> string \<Rightarrow> claim_version list" where
  "l1_of sc oid = filter (\<lambda>v. cv_operation_id v = oid) (sc_versions sc)"

definition pages_of :: "scan \<Rightarrow> string \<Rightarrow> page_file list" where
  "pages_of sc oid = filter (\<lambda>p. pf_operation_id p = Some oid) (sc_pages sc)"

definition artifact_count :: "scan \<Rightarrow> string \<Rightarrow> nat" where
  "artifact_count sc oid = length (l0_of sc oid) + length (l1_of sc oid) + length (pages_of sc oid)"

definition existing_of :: "scan \<Rightarrow> string \<Rightarrow> op_entry list" where
  "existing_of sc oid = filter (\<lambda>e. oe_operation_id e = oid) (sc_entries sc)"

section \<open>Exactness\<close>

definition writer_chain_valid :: "hashes \<Rightarrow> observation \<Rightarrow> observation list \<Rightarrow> bool" where
  "writer_chain_valid hs obs all =
     (let chain = sort_key (\<lambda>c. ob_sequence c)
                    (filter (\<lambda>c. in_writer_id (ob_integrity c) = in_writer_id (ob_integrity obs)) all);
          prior = takeWhile (\<lambda>c. ob_id c \<noteq> ob_id obs) chain
      in length prior < length chain
         \<and> verifyChain (hs_obs hs) (take (length prior + 1) chain) = None)"

definition isExactAudit :: "hashes \<Rightarrow> op_intent \<Rightarrow> audit_artifact \<Rightarrow> observation \<Rightarrow> bool" where
  "isExactAudit hs i a obs =
     (ob_id obs = au_observation_id a \<and> ob_operation_id obs = Some (it_operation_id i)
      \<and> ob_actor_id obs = Some (it_actor_id i) \<and> ob_hash obs = au_observation_hash a
      \<and> ob_sequence obs = au_sequence a \<and> computeHash (hs_obs hs) obs = ob_hash obs)"

definition isExactObservationIntent :: "hashes \<Rightarrow> op_intent \<Rightarrow> observe_body \<Rightarrow> observation \<Rightarrow> observation list \<Rightarrow> bool" where
  "isExactObservationIntent hs i b obs all =
     (isExactAudit hs i (ob_audit b) obs \<and> ob_id obs = ob_result_id b \<and> ob_status obs = ob_result_status b
      \<and> ob_sequence obs = ob_result_sequence b \<and> writer_chain_valid hs obs all)"

definition isExactVersion :: "hashes \<Rightarrow> op_intent \<Rightarrow> claim_state \<Rightarrow> claim_artifact \<Rightarrow> claim_version \<Rightarrow> bool" where
  "isExactVersion hs i state a v =
     (cv_state v = state \<and> cv_claim_id v = xa_claim_id a \<and> cv_version v = xa_version a
      \<and> cv_operation_id v = it_operation_id i \<and> cv_actor_id v = it_actor_id i
      \<and> cv_version_at v = it_prepared_at i \<and> hs_version hs v = xa_record_hash a)"

definition isExactReviseRelease :: "hashes \<Rightarrow> op_intent \<Rightarrow> revise_body \<Rightarrow> claim_version \<Rightarrow> bool" where
  "isExactReviseRelease hs i b v =
     (isExactVersion hs i CsActive (rb_artifact b) v
      \<and> cv_epistemic_owner v = Some (if rb_owner_is_user b then AUser else AAgent))"

definition isExactReviseIntent :: "hashes \<Rightarrow> op_intent \<Rightarrow> revise_body \<Rightarrow> claim_version list \<Rightarrow> bool" where
  "isExactReviseIntent hs i b versions =
     (let demoted = (case rb_repick b of None \<Rightarrow> [] | Some ds \<Rightarrow> ds) in
      length versions = 1 + length demoted
      \<and> length (filter (isExactReviseRelease hs i b) versions) = 1
      \<and> list_all (\<lambda>d. length (filter (isExactVersion hs i CsActive d) versions) = 1) demoted)"

definition targetScopeFromAudit :: "json \<Rightarrow> string option" where
  "targetScopeFromAudit body =
     (case body_get body ''scope'' of
        Some (JStr s) \<Rightarrow> Some s
      | _ \<Rightarrow> (case body_get body ''target'' of
                Some t \<Rightarrow> (case body_get t ''scope'' of Some (JStr s) \<Rightarrow> Some s | _ \<Rightarrow> None)
              | None \<Rightarrow> None))"

definition reason_name :: "forget_reason \<Rightarrow> string" where
  "reason_name r = (case r of ReasonErasure \<Rightarrow> ''erasure'' | ReasonOffboarding \<Rightarrow> ''offboarding'')"

definition isExactForgetScopeAudit :: "hashes \<Rightarrow> op_intent \<Rightarrow> forget_scope_body \<Rightarrow> observation \<Rightarrow> observation list \<Rightarrow> bool" where
  "isExactForgetScopeAudit hs i b obs all =
     (isExactAudit hs i (sb_audit b) obs
      \<and> targetScopeFromAudit (co_body (ob_content obs)) = Some (sb_scope b)
      \<and> body_get (co_body (ob_content obs)) ''reason'' = Some (JStr (reason_name (sb_reason b)))
      \<and> writer_chain_valid hs obs all)"

definition isExactForgetClaim :: "hashes \<Rightarrow> op_intent \<Rightarrow> forget_body \<Rightarrow> claim_version \<Rightarrow> bool" where
  "isExactForgetClaim hs i b v =
     (case fb_claim_version b of None \<Rightarrow> False | Some a \<Rightarrow> isExactVersion hs i CsForgotten a v)"

text \<open>\<^verbatim>\<open>new Map(versions.map(..))\<close> keeps the last version of an identity.\<close>

definition isExactEndorseClaims :: "hashes \<Rightarrow> op_intent \<Rightarrow> claim_artifact list \<Rightarrow> claim_version list \<Rightarrow> bool" where
  "isExactEndorseClaims hs i expected versions =
     (length versions = length expected
      \<and> list_all (\<lambda>a. case List.find (\<lambda>v. cv_claim_id v = xa_claim_id a \<and> cv_version v = xa_version a) (rev versions) of
                       None \<Rightarrow> False | Some v \<Rightarrow> isExactVersion hs i CsActive a v) expected)"

definition isExactEndorsePage :: "hashes \<Rightarrow> endorse_body \<Rightarrow> page_file list \<Rightarrow> bool" where
  "isExactEndorsePage hs b pages =
     (case pages of [p] \<Rightarrow> pf_page_id p = Some (eb_page_id b) \<and> hs_page hs (pf_raw p) = eb_content_hash b | _ \<Rightarrow> False)"

section \<open>Commit entries of recovered operations\<close>

definition entry_detail :: "op_entry \<Rightarrow> string \<Rightarrow> json option" where
  "entry_detail e k = (case oe_details e of None \<Rightarrow> None | Some d \<Rightarrow> map_of d k)"

definition recovered_entry :: "op_intent \<Rightarrow> (string \<times> json) list \<Rightarrow> op_entry" where
  "recovered_entry i details =
     \<lparr>oe_operation_id = it_operation_id i, oe_actor_id = it_actor_id i, oe_timestamp = it_prepared_at i,
      oe_op = intent_op i, oe_details = Some ((''payload_hash'', JStr (it_payload_hash i)) # details)\<rparr>"

definition status_name :: "obs_status \<Rightarrow> string" where
  "status_name s = (case s of OAccepted \<Rightarrow> ''accepted'' | OQuarantined \<Rightarrow> ''quarantined'')"

definition target_name :: "forget_target \<Rightarrow> string" where
  "target_name t = (case t of TargetObservation \<Rightarrow> ''observation'' | TargetClaim \<Rightarrow> ''claim'')"

definition mode_name :: "forget_mode \<Rightarrow> string" where
  "mode_name m = (case m of ModeTombstone \<Rightarrow> ''tombstone'' | ModeRedact \<Rightarrow> ''redact_if_supported'')"

definition artifact_json :: "claim_artifact \<Rightarrow> json" where
  "artifact_json a = JObj [(''claim_id'', JStr (xa_claim_id a)), (''version'', JNum (xa_version a)),
     (''record_hash'', JStr (xa_record_hash a))]"

definition opt_detail :: "string \<Rightarrow> json option \<Rightarrow> (string \<times> json) list" where
  "opt_detail k v = (case v of None \<Rightarrow> [] | Some j \<Rightarrow> [(k, j)])"

definition forget_entry :: "op_intent \<Rightarrow> forget_body \<Rightarrow> op_entry" where
  "forget_entry i b = recovered_entry i
     ([(''audit_observation_id'', JStr (fb_audit_observation_id b)),
       (''observation_hash'', JStr (au_observation_hash (fb_audit b)))]
      @ opt_detail ''claim_record_hash'' (map_option (\<lambda>a. JStr (xa_record_hash a)) (fb_claim_version b))
      @ [(''target_id'', JStr (fb_target_id b)), (''target_kind'', JStr (target_name (fb_target_kind b))),
         (''mode'', JStr (mode_name (fb_mode b))), (''claims_retracted'', JNum (int (fb_claims_retracted b))),
         (''claims_reduced'', JNum (int (fb_claims_reduced b))), (''recovered'', JBool True)])"

definition forget_scope_entry :: "op_intent \<Rightarrow> forget_scope_body \<Rightarrow> op_entry" where
  "forget_scope_entry i b = recovered_entry i
     [(''audit_observation_id'', JStr (sb_audit_observation_id b)),
      (''observation_hash'', JStr (au_observation_hash (sb_audit b))),
      (''scope'', JStr (sb_result_scope b)), (''reason'', JStr (reason_name (sb_result_reason b))),
      (''claims_retracted'', JNum (int (sb_claims_retracted b))),
      (''observations_retracted'', JNum (int (sb_observations_retracted b))),
      (''grants_revoked'', JArr (map JStr (sb_grants_revoked b))),
      (''scope_entry_removed'', JBool (sb_scope_entry_removed b)), (''recovered'', JBool True),
      (''export_id'', case sb_export_id b of None \<Rightarrow> JNull | Some x \<Rightarrow> JStr x)]"

definition revive_entry :: "op_intent \<Rightarrow> revive_body \<Rightarrow> op_entry" where
  "revive_entry i b = recovered_entry i
     [(''claim_id'', JStr (vi_result_claim_id b)), (''new_version'', JNum (vi_result_version b)),
      (''tombstone_id'', JStr (vi_tombstone_id b)), (''invalidated_edges'', JArr (map JStr (vi_invalidated_edges b))),
      (''record_hash'', JStr (xa_record_hash (vi_artifact b))), (''recovered'', JBool True)]"

definition endorse_entry :: "op_intent \<Rightarrow> endorse_body \<Rightarrow> op_entry" where
  "endorse_entry i b = recovered_entry i
     [(''page_id'', JStr (eb_result_page_id b)), (''page_hash'', JStr (eb_content_hash b)),
      (''claims'', JArr (map artifact_json (eb_claims b))), (''claims_endorsed'', JNum (int (eb_claims_endorsed b))),
      (''recovered'', JBool True)]"

definition reflect_entry :: "op_intent \<Rightarrow> reflect_body \<Rightarrow> op_entry" where
  "reflect_entry i b = recovered_entry i
     [(''claim_id'', JStr (fl_result_claim_id b)), (''version'', JNum (fl_result_version b)),
      (''fingerprint'', JStr (fl_fingerprint b)), (''record_hash'', JStr (xa_record_hash (fl_artifact b))),
      (''recovered'', JBool True)]"

definition observe_entry :: "op_intent \<Rightarrow> observe_body \<Rightarrow> op_entry" where
  "observe_entry i b = recovered_entry i
     [(''observation_id'', JStr (ob_result_id b)), (''scope'', JStr (ob_details_scope b)),
      (''source'', JStr (ob_details_source b)), (''status'', JStr (status_name (ob_result_status b))),
      (''sequence'', JNum (int (ob_result_sequence b))), (''recovered'', JBool True)]"

definition revise_entry :: "op_intent \<Rightarrow> revise_body \<Rightarrow> op_entry" where
  "revise_entry i b = recovered_entry i
     ([(''claim_id'', JStr (rb_result_claim_id b)), (''new_version'', JNum (rb_result_version b)),
       (''epistemic_owner'', JStr (if rb_owner_is_user b then ''user'' else ''agent'')),
       (''record_hash'', JStr (xa_record_hash (rb_artifact b)))]
      @ opt_detail ''superseded_by'' (map_option JStr (rb_superseded_by b))
      @ (case rb_demoted b of None \<Rightarrow> []
         | Some ds \<Rightarrow> [(''repick_survivor'', JBool True), (''demoted'', JArr (map JStr ds)),
                      (''demoted_records'', JArr (map artifact_json (case rb_repick b of None \<Rightarrow> [] | Some xs \<Rightarrow> xs)))])
      @ [(''recovered'', JBool True)])"

section \<open>Dispositions\<close>

datatype stale_reason = EpochBehindHighWater | UnstampedOnFencedBrain

datatype disposition = DStale stale_reason | DRemove | DManual | DPending | DAbort | DFinalize op_entry

definition staleReason :: "bool \<Rightarrow> int \<Rightarrow> fence_store \<Rightarrow> op_intent \<Rightarrow> stale_reason option" where
  "staleReason fenced mark f i =
     (if \<not> fenced then None
      else if authorization (it_operation_id i) f \<noteq> None then None
      else case it_fence i of
        None \<Rightarrow> if 0 < mark then Some UnstampedOnFencedBrain else None
      | Some st \<Rightarrow> if st_epoch st < mark then Some EpochBehindHighWater else None)"

definition matches :: "op_intent \<Rightarrow> (string \<times> json option) list \<Rightarrow> op_entry \<Rightarrow> bool" where
  "matches i ds e =
     (oe_op e = intent_op i \<and> oe_actor_id e = it_actor_id i
      \<and> entry_detail e ''payload_hash'' = Some (JStr (it_payload_hash i))
      \<and> list_all (\<lambda>(k, v). entry_detail e k = v) ds)"

definition dispose_forget :: "hashes \<Rightarrow> scan \<Rightarrow> op_intent \<Rightarrow> forget_body \<Rightarrow> disposition" where
  "dispose_forget hs sc i b =
     (let oid = it_operation_id i; audits = l0_of sc oid; claims = l1_of sc oid; existing = existing_of sc oid;
          exactAudit = (case audits of [o1] \<Rightarrow> isExactAudit hs i (fb_audit b) o1 \<and> writer_chain_valid hs o1 (sc_obs sc)
                        | _ \<Rightarrow> False);
          expectsClaim = (fb_claim_version b \<noteq> None);
          exactClaim = (\<not> expectsClaim \<or> (case claims of [v] \<Rightarrow> isExactForgetClaim hs i b v | _ \<Rightarrow> False));
          unexpected = (1 < length audits \<or> (if expectsClaim then 1 else 0) < length claims)
      in
      if existing \<noteq> [] then
        (if list_ex (matches i [(''audit_observation_id'', Some (JStr (au_observation_id (fb_audit b)))),
               (''claim_record_hash'', map_option (\<lambda>a. JStr (xa_record_hash a)) (fb_claim_version b))]) existing
            \<and> exactAudit \<and> exactClaim \<and> \<not> unexpected
         then DRemove else DManual)
      else if unexpected \<or> (audits \<noteq> [] \<and> \<not> exactAudit) \<or> (claims \<noteq> [] \<and> \<not> exactClaim) then DManual
      else if \<not> exactAudit \<or> \<not> exactClaim then DPending
      else DFinalize (forget_entry i b))"

definition dispose_forget_scope :: "hashes \<Rightarrow> scan \<Rightarrow> op_intent \<Rightarrow> forget_scope_body \<Rightarrow> disposition" where
  "dispose_forget_scope hs sc i b =
     (let oid = it_operation_id i; audits = l0_of sc oid; existing = existing_of sc oid;
          exactAudit = (case audits of [o1] \<Rightarrow> isExactForgetScopeAudit hs i b o1 (sc_obs sc) | _ \<Rightarrow> False)
      in
      if existing \<noteq> [] then
        (if list_ex (matches i [(''audit_observation_id'', Some (JStr (au_observation_id (sb_audit b))))]) existing
            \<and> exactAudit then DRemove else DManual)
      else if audits \<noteq> [] \<and> \<not> exactAudit then DManual
      else if audits = [] then DPending
      else DFinalize (forget_scope_entry i b))"

definition dispose_revive :: "hashes \<Rightarrow> scan \<Rightarrow> op_intent \<Rightarrow> revive_body \<Rightarrow> disposition" where
  "dispose_revive hs sc i b =
     (let oid = it_operation_id i; artifacts = l1_of sc oid; existing = existing_of sc oid;
          exact = (case artifacts of [v] \<Rightarrow> isExactVersion hs i CsActive (vi_artifact b) v | _ \<Rightarrow> False)
      in
      if existing \<noteq> [] then
        (if list_ex (matches i [(''claim_id'', Some (JStr (xa_claim_id (vi_artifact b)))),
               (''new_version'', Some (JNum (xa_version (vi_artifact b)))),
               (''record_hash'', Some (JStr (xa_record_hash (vi_artifact b))))]) existing \<and> exact
         then DRemove else DManual)
      else if artifacts = [] then DPending
      else if \<not> exact then DManual
      else DFinalize (revive_entry i b))"

definition dispose_endorse :: "hashes \<Rightarrow> scan \<Rightarrow> op_intent \<Rightarrow> endorse_body \<Rightarrow> disposition" where
  "dispose_endorse hs sc i b =
     (let oid = it_operation_id i; claims = l1_of sc oid; pages = pages_of sc oid; existing = existing_of sc oid;
          exactClaims = isExactEndorseClaims hs i (eb_claims b) claims;
          exactPage = isExactEndorsePage hs b pages;
          present = filter (\<lambda>a. list_ex (\<lambda>v. cv_claim_id v = xa_claim_id a \<and> cv_version v = xa_version a) claims) (eb_claims b)
      in
      if existing \<noteq> [] then
        (if list_ex (matches i [(''page_id'', Some (JStr (eb_page_id b))),
               (''page_hash'', Some (JStr (eb_content_hash b)))]) existing \<and> exactClaims \<and> exactPage
         then DRemove else DManual)
      else if (claims \<noteq> [] \<and> \<not> isExactEndorseClaims hs i present claims) \<or> (pages \<noteq> [] \<and> \<not> exactPage) then DManual
      else if \<not> exactClaims \<or> \<not> exactPage then DPending
      else DFinalize (endorse_entry i b))"

definition dispose_reflect :: "hashes \<Rightarrow> scan \<Rightarrow> op_intent \<Rightarrow> reflect_body \<Rightarrow> disposition" where
  "dispose_reflect hs sc i b =
     (let oid = it_operation_id i; artifacts = l1_of sc oid; existing = existing_of sc oid;
          exact = (case artifacts of [v] \<Rightarrow> isExactVersion hs i CsActive (fl_artifact b) v | _ \<Rightarrow> False)
      in
      if existing \<noteq> [] then
        (if list_ex (matches i [(''claim_id'', Some (JStr (xa_claim_id (fl_artifact b)))),
               (''record_hash'', Some (JStr (xa_record_hash (fl_artifact b))))]) existing \<and> exact
         then DRemove else DManual)
      else if artifacts = [] then DAbort
      else if \<not> exact then DManual
      else DFinalize (reflect_entry i b))"

definition dispose_observe :: "hashes \<Rightarrow> scan \<Rightarrow> op_intent \<Rightarrow> observe_body \<Rightarrow> disposition" where
  "dispose_observe hs sc i b =
     (let oid = it_operation_id i; artifacts = l0_of sc oid; existing = existing_of sc oid in
      if existing \<noteq> [] then
        (if list_ex (matches i [(''observation_id'', Some (JStr (au_observation_id (ob_audit b))))]) existing
         then DRemove else DManual)
      else case artifacts of
        [] \<Rightarrow> DPending
      | [o1] \<Rightarrow> if isExactObservationIntent hs i b o1 (sc_obs sc) then DFinalize (observe_entry i b) else DManual
      | _ \<Rightarrow> DManual)"

definition revise_commit_matches :: "op_intent \<Rightarrow> revise_body \<Rightarrow> op_entry \<Rightarrow> bool" where
  "revise_commit_matches i b e =
     (matches i [(''claim_id'', Some (JStr (xa_claim_id (rb_artifact b)))),
        (''new_version'', Some (JNum (xa_version (rb_artifact b)))),
        (''record_hash'', Some (JStr (xa_record_hash (rb_artifact b))))] e
      \<and> (case rb_demoted b of
           None \<Rightarrow> True
         | Some ds \<Rightarrow> entry_detail e ''repick_survivor'' = Some (JBool True)
                     \<and> entry_detail e ''demoted'' = Some (JArr (map JStr ds))))"

definition dispose_revise :: "hashes \<Rightarrow> scan \<Rightarrow> op_intent \<Rightarrow> revise_body \<Rightarrow> disposition" where
  "dispose_revise hs sc i b =
     (let oid = it_operation_id i; artifacts = l1_of sc oid; existing = existing_of sc oid;
          exact = isExactReviseIntent hs i b artifacts
      in
      if existing \<noteq> [] then
        (if list_ex (revise_commit_matches i b) existing \<and> exact then DRemove else DManual)
      else if artifacts = [] then DPending
      else if \<not> exact then DManual
      else DFinalize (revise_entry i b))"

definition dispose_body :: "hashes \<Rightarrow> scan \<Rightarrow> op_intent \<Rightarrow> disposition" where
  "dispose_body hs sc i =
     (case it_body i of
        IForget b \<Rightarrow> dispose_forget hs sc i b
      | IForgetScope b \<Rightarrow> dispose_forget_scope hs sc i b
      | IRevive b \<Rightarrow> dispose_revive hs sc i b
      | IEndorse b \<Rightarrow> dispose_endorse hs sc i b
      | IReflect b \<Rightarrow> dispose_reflect hs sc i b
      | IObserve b \<Rightarrow> dispose_observe hs sc i b
      | IRevise b \<Rightarrow> dispose_revise hs sc i b)"

definition dispose :: "hashes \<Rightarrow> bool \<Rightarrow> scan \<Rightarrow> fence_store \<Rightarrow> op_intent \<Rightarrow> disposition" where
  "dispose hs fenced sc f i =
     (case (if existing_of sc (it_operation_id i) = [] \<and> 0 < artifact_count sc (it_operation_id i)
            then staleReason fenced (sc_high_water sc) f i else None) of
        Some reason \<Rightarrow> DStale reason
      | None \<Rightarrow> dispose_body hs sc i)"

section \<open>Carrying it out\<close>

record stale_rejection =
  sr_operation_id :: string
  sr_reason :: stale_reason
  sr_epoch :: "int option"
  sr_high_water :: int
  sr_artifacts :: nat

record recovery_state =
  rs_ops :: ops_dir
  rs_intents :: intents_dir
  rs_fence :: fence_store
  rs_committed :: "string list"
  rs_completed :: "string list"
  rs_pending :: "string list"
  rs_manual :: "string list"
  rs_errors :: "string list"
  rs_aborted :: "string list"
  rs_stale :: "stale_rejection list"

definition recordStale :: "scan \<Rightarrow> op_intent \<Rightarrow> stale_reason \<Rightarrow> recovery_state \<Rightarrow> recovery_state" where
  "recordStale sc i reason s =
     (if it_operation_id i \<in> sr_operation_id ` set (rs_stale s) then s
      else s\<lparr>rs_stale := rs_stale s @ [\<lparr>sr_operation_id = it_operation_id i, sr_reason = reason,
               sr_epoch = map_option st_epoch (it_fence i), sr_high_water = sc_high_water sc,
               sr_artifacts = artifact_count sc (it_operation_id i)\<rparr>]\<rparr>)"

definition decide_commit ::
  "(fence_store \<Rightarrow> fence_store) \<Rightarrow> string \<Rightarrow> scan \<Rightarrow> op_intent \<Rightarrow> fence_store \<Rightarrow> bool \<times> fence_store" where
  "decide_commit env now sc i f =
     (case it_fence i of
        Some st \<Rightarrow> recovery_gate (st_writer_id st) now [it_operation_id i] (st_epoch st) (env f)
      | None \<Rightarrow> (sc_high_water sc = 0, f))"

definition finalizeRecovered ::
  "(fence_store \<Rightarrow> fence_store) \<Rightarrow> string \<Rightarrow> bool \<Rightarrow> scan \<Rightarrow> op_intent \<Rightarrow> op_entry \<Rightarrow> recovery_state
     \<Rightarrow> bool outcome \<times> recovery_state" where
  "finalizeRecovered env now fenced sc i e s =
     (let (authorized, f) =
        (if fenced \<and> authorization (it_operation_id i) (rs_fence s) = None
         then decide_commit env now sc i (rs_fence s) else (True, rs_fence s));
        s1 = s\<lparr>rs_fence := f\<rparr>
      in
      if \<not> authorized then
        (Inr False, recordStale sc i (case staleReason fenced (sc_high_water sc) f i of
                                        Some r \<Rightarrow> r | None \<Rightarrow> EpochBehindHighWater) s1)
      else
        (case appendOpLogEntry (with_stamp (it_fence i) e) (rs_ops s1) of
           (Inl x, d) \<Rightarrow> (Inl x, s1\<lparr>rs_ops := d\<rparr>)
         | (Inr _, d) \<Rightarrow> (Inr True, s1\<lparr>rs_ops := d\<rparr>)))"

definition drop_intent :: "string \<Rightarrow> recovery_state \<Rightarrow> recovery_state" where
  "drop_intent oid s = s\<lparr>rs_intents := snd (removeOperationIntent oid (rs_intents s))\<rparr>"

definition recover_one ::
  "(fence_store \<Rightarrow> fence_store) \<Rightarrow> string \<Rightarrow> hashes \<Rightarrow> bool \<Rightarrow> scan \<Rightarrow> op_intent \<Rightarrow> recovery_state
     \<Rightarrow> unit outcome \<times> recovery_state" where
  "recover_one env now hs fenced sc i s =
     (let oid = it_operation_id i in
      case dispose hs fenced sc (rs_fence s) i of
        DStale reason \<Rightarrow> (Inr (), recordStale sc i reason s)
      | DRemove \<Rightarrow> (Inr (), drop_intent oid s)
      | DManual \<Rightarrow> (Inr (), s\<lparr>rs_manual := rs_manual s @ [oid]\<rparr>)
      | DPending \<Rightarrow> (Inr (), s\<lparr>rs_pending := rs_pending s @ [oid]\<rparr>)
      | DAbort \<Rightarrow> (Inr (), (drop_intent oid s)\<lparr>rs_aborted := rs_aborted s @ [oid]\<rparr>)
      | DFinalize e \<Rightarrow>
          (case finalizeRecovered env now fenced sc i e s of
             (Inl x, s') \<Rightarrow> (Inl x, s')
           | (Inr False, s') \<Rightarrow> (Inr (), s')
           | (Inr True, s') \<Rightarrow>
               (Inr (), drop_intent oid (s'\<lparr>rs_committed := rs_committed s' @ [oid], rs_completed := rs_completed s' @ [oid]\<rparr>))))"

fun recover_loop ::
  "(fence_store \<Rightarrow> fence_store) \<Rightarrow> string \<Rightarrow> hashes \<Rightarrow> bool \<Rightarrow> scan \<Rightarrow> (string \<times> op_intent outcome) list \<Rightarrow> recovery_state
     \<Rightarrow> unit outcome \<times> recovery_state" where
  "recover_loop env now hs fenced sc [] s = (Inr (), s)"
| "recover_loop env now hs fenced sc ((oid, Inl x) # rest) s =
     recover_loop env now hs fenced sc rest
       (s\<lparr>rs_errors := rs_errors s @ [oid],
         rs_manual := (if starts_with oid ''op_'' then rs_manual s @ [oid] else rs_manual s)\<rparr>)"
| "recover_loop env now hs fenced sc ((oid, Inr i) # rest) s =
     (case recover_one env now hs fenced sc i s of
        (Inl x, s') \<Rightarrow> (Inl x, s')
      | (Inr _, s') \<Rightarrow> recover_loop env now hs fenced sc rest s')"

definition take_scan ::
  "hashes \<Rightarrow> recovery_context \<Rightarrow> ops_dir \<Rightarrow> fence_store \<Rightarrow> scan outcome" where
  "take_scan hs ctx ops f =
     (case readAllOpLogEntries ops of
        Inl x \<Rightarrow> Inl x
      | Inr entries \<Rightarrow>
          (case (case rx_evidence ctx of None \<Rightarrow> Inr [] | Some d \<Rightarrow> readAll d) of
             Inl x \<Rightarrow> Inl x
           | Inr obs \<Rightarrow>
               (case (case rx_claims ctx of None \<Rightarrow> Inr [] | Some d \<Rightarrow> iterAllClaimVersions (hs_text hs) d) of
                  Inl x \<Rightarrow> Inl x
                | Inr versions \<Rightarrow>
                    Inr \<lparr>sc_entries = entries, sc_obs = obs, sc_versions = versions,
                         sc_pages = (case rx_wiki ctx of None \<Rightarrow> [] | Some ps \<Rightarrow> ps),
                         sc_high_water = (if rx_fenced ctx then highWater f else 0)\<rparr>)))"

section \<open>Orphans and the report\<close>

datatype orphan =
    OrphanL0 (orphan_id: string) (orphan_op: string)
  | OrphanL1 (orphan_id: string) int (orphan_op: string)
  | OrphanPage (orphan_id: string) bool (orphan_op: string)

definition unaccounted :: "recovery_state \<Rightarrow> string \<Rightarrow> bool" where
  "unaccounted s oid = (oid \<notin> set (rs_committed s) \<and> oid \<notin> sr_operation_id ` set (rs_stale s))"

definition find_orphans :: "scan \<Rightarrow> recovery_state \<Rightarrow> orphan list" where
  "find_orphans sc s =
     concat (map (\<lambda>o1. case ob_operation_id o1 of
                     Some oid \<Rightarrow> if oid \<noteq> [] \<and> unaccounted s oid then [OrphanL0 (ob_id o1) oid] else []
                   | None \<Rightarrow> []) (sc_obs sc))
     @ concat (map (\<lambda>v. if cv_operation_id v \<noteq> [] \<and> unaccounted s (cv_operation_id v)
                       then [OrphanL1 (cv_claim_id v) (cv_version v) (cv_operation_id v)] else []) (sc_versions sc))
     @ concat (map (\<lambda>p. case pf_operation_id p of
                     Some oid \<Rightarrow> if oid \<noteq> [] \<and> unaccounted s oid
                                then [OrphanPage (pf_locator p) (js_includes (pf_locator p) ''tombstones/'') oid] else []
                   | None \<Rightarrow> []) (sc_pages sc))"

record recovery_report =
  rr_committed :: nat
  rr_orphans :: "orphan list"
  rr_pending :: "string list"
  rr_errors :: "string list"
  rr_manual :: "string list"
  rr_completed :: "string list"
  rr_stale :: "stale_rejection list"
  rr_aborted :: "string list"

definition sorted_ids :: "string list \<Rightarrow> string list" where
  "sorted_ids xs = sort (js_set xs)"

definition make_report :: "scan \<Rightarrow> recovery_state \<Rightarrow> recovery_report" where
  "make_report sc s =
     (let orphans = find_orphans sc s;
          more = filter (\<lambda>oid. oid \<notin> set (rs_pending s)) (map orphan_op orphans)
      in \<lparr>rr_committed = length (js_set (rs_committed s)), rr_orphans = orphans,
          rr_pending = sorted_ids (rs_pending s), rr_errors = rs_errors s,
          rr_manual = sorted_ids (rs_manual s @ more), rr_completed = sorted_ids (rs_completed s),
          rr_stale = sort_key sr_operation_id (rs_stale s), rr_aborted = sorted_ids (rs_aborted s)\<rparr>)"

definition start_state :: "scan \<Rightarrow> ops_dir \<Rightarrow> intents_dir \<Rightarrow> fence_store \<Rightarrow> recovery_state" where
  "start_state sc ops intents f =
     \<lparr>rs_ops = ops, rs_intents = intents, rs_fence = f, rs_committed = map oe_operation_id (sc_entries sc),
      rs_completed = [], rs_pending = [], rs_manual = [], rs_errors = [], rs_aborted = [], rs_stale = []\<rparr>"

definition runRecovery ::
  "(fence_store \<Rightarrow> fence_store) \<Rightarrow> string \<Rightarrow> hashes \<Rightarrow> recovery_context \<Rightarrow> ops_dir \<Rightarrow> intents_dir \<Rightarrow> fence_store
     \<Rightarrow> recovery_report outcome \<times> ops_dir \<times> intents_dir \<times> fence_store" where
  "runRecovery env now hs ctx ops intents f =
     (case take_scan hs ctx ops f of
        Inl x \<Rightarrow> (Inl x, ops, intents, f)
      | Inr sc \<Rightarrow>
          (case recover_loop env now hs (rx_fenced ctx) sc (readOperationIntentRecords intents)
                  (start_state sc ops intents f) of
             (Inl x, s) \<Rightarrow> (Inl x, rs_ops s, rs_intents s, rs_fence s)
           | (Inr _, s) \<Rightarrow> (Inr (make_report sc s), rs_ops s, rs_intents s, rs_fence s)))"

section \<open>Exact artifact sets\<close>

definition single :: "('a \<Rightarrow> bool) \<Rightarrow> 'a list \<Rightarrow> bool" where
  "single P xs = (case xs of [x] \<Rightarrow> P x | _ \<Rightarrow> False)"

definition exact_set :: "hashes \<Rightarrow> scan \<Rightarrow> op_intent \<Rightarrow> bool" where
  "exact_set hs sc i =
     (let l0 = l0_of sc (it_operation_id i); l1 = l1_of sc (it_operation_id i); pages = pages_of sc (it_operation_id i) in
      case it_body i of
        IForget b \<Rightarrow> single (\<lambda>o1. isExactAudit hs i (fb_audit b) o1 \<and> writer_chain_valid hs o1 (sc_obs sc)) l0
          \<and> (case fb_claim_version b of None \<Rightarrow> l1 = [] | Some a \<Rightarrow> single (isExactVersion hs i CsForgotten a) l1)
      | IForgetScope b \<Rightarrow> single (\<lambda>o1. isExactForgetScopeAudit hs i b o1 (sc_obs sc)) l0
      | IRevive b \<Rightarrow> single (isExactVersion hs i CsActive (vi_artifact b)) l1
      | IEndorse b \<Rightarrow> isExactEndorseClaims hs i (eb_claims b) l1 \<and> isExactEndorsePage hs b pages
      | IReflect b \<Rightarrow> single (isExactVersion hs i CsActive (fl_artifact b)) l1
      | IObserve b \<Rightarrow> single (\<lambda>o1. isExactObservationIntent hs i b o1 (sc_obs sc)) l0
      | IRevise b \<Rightarrow> isExactReviseIntent hs i b l1)"

definition recovery_entry :: "op_intent \<Rightarrow> op_entry" where
  "recovery_entry i =
     (case it_body i of
        IForget b \<Rightarrow> forget_entry i b | IForgetScope b \<Rightarrow> forget_scope_entry i b | IRevive b \<Rightarrow> revive_entry i b
      | IEndorse b \<Rightarrow> endorse_entry i b | IReflect b \<Rightarrow> reflect_entry i b | IObserve b \<Rightarrow> observe_entry i b
      | IRevise b \<Rightarrow> revise_entry i b)"

lemmas entry_defs = forget_entry_def forget_scope_entry_def revive_entry_def endorse_entry_def
  reflect_entry_def observe_entry_def revise_entry_def recovered_entry_def

lemma recovery_entry_simps [simp]:
  "oe_operation_id (recovery_entry i) = it_operation_id i"
  "oe_timestamp (recovery_entry i) = it_prepared_at i"
  by (simp_all add: recovery_entry_def entry_defs split: intent_body.split)

lemma single_simps [simp]: "single P [x] = P x" "\<not> single P []" "\<not> single P (x # y # zs)"
  by (simp_all add: single_def)

lemma single_not_Nil: "single P xs \<Longrightarrow> xs \<noteq> []"
  by (auto simp: single_def)

lemma single_length: "single P xs \<Longrightarrow> length xs = 1"
  by (auto simp: single_def split: list.splits)

lemma isExactReviseIntent_nonempty: "isExactReviseIntent hs i b vs \<Longrightarrow> vs \<noteq> []"
  by (auto simp: isExactReviseIntent_def Let_def)

lemma exact_endorse_present:
  assumes "isExactEndorseClaims hs i expected vs"
  shows "filter (\<lambda>a. list_ex (\<lambda>v. cv_claim_id v = xa_claim_id a \<and> cv_version v = xa_version a) vs) expected = expected"
proof (rule filter_True, rule ballI)
  fix a assume "a \<in> set expected"
  with assms obtain v where "List.find (\<lambda>v. cv_claim_id v = xa_claim_id a \<and> cv_version v = xa_version a) (rev vs) = Some v"
    by (auto simp: isExactEndorseClaims_def list_all_iff split: option.splits)
  then have "v \<in> set (rev vs)" "cv_claim_id v = xa_claim_id a \<and> cv_version v = xa_version a"
    by (metis (mono_tags, lifting) find_Some_iff nth_mem)+
  then show "list_ex (\<lambda>v. cv_claim_id v = xa_claim_id a \<and> cv_version v = xa_version a) vs"
    by (auto simp: list_ex_iff)
qed

text \<open>The decision on an operation the log does not have yet.\<close>

lemma forget_finalizes:
  assumes "existing_of sc (it_operation_id i) = []" and "it_body i = IForget b"
  shows "dispose_forget hs sc i b = DFinalize e \<longleftrightarrow> e = forget_entry i b \<and> exact_set hs sc i"
  using assms
  by (auto simp: dispose_forget_def exact_set_def single_def isExactForgetClaim_def Let_def
      split: list.splits option.splits if_splits)

lemma endorse_finalizes:
  assumes "existing_of sc (it_operation_id i) = []" and "it_body i = IEndorse b"
  shows "dispose_endorse hs sc i b = DFinalize e \<longleftrightarrow> e = endorse_entry i b \<and> exact_set hs sc i"
proof -
  let ?claims = "l1_of sc (it_operation_id i)"
  have "isExactEndorseClaims hs i (eb_claims b) ?claims \<Longrightarrow>
    isExactEndorseClaims hs i (filter (\<lambda>a. list_ex (\<lambda>v. cv_claim_id v = xa_claim_id a \<and> cv_version v = xa_version a) ?claims)
      (eb_claims b)) ?claims"
    by (simp add: exact_endorse_present)
  then show ?thesis using assms by (auto simp: dispose_endorse_def exact_set_def Let_def)
qed

lemma revise_finalizes:
  assumes "existing_of sc (it_operation_id i) = []" and "it_body i = IRevise b"
  shows "dispose_revise hs sc i b = DFinalize e \<longleftrightarrow> e = revise_entry i b \<and> exact_set hs sc i"
  using assms isExactReviseIntent_nonempty [of hs i b]
  by (auto simp: dispose_revise_def exact_set_def Let_def)

lemma single_finalizes:
  assumes "existing_of sc (it_operation_id i) = []"
  shows "it_body i = IForgetScope fs \<Longrightarrow>
      dispose_forget_scope hs sc i fs = DFinalize e \<longleftrightarrow> e = forget_scope_entry i fs \<and> exact_set hs sc i"
    and "it_body i = IRevive rv \<Longrightarrow>
      dispose_revive hs sc i rv = DFinalize e \<longleftrightarrow> e = revive_entry i rv \<and> exact_set hs sc i"
    and "it_body i = IReflect rf \<Longrightarrow>
      dispose_reflect hs sc i rf = DFinalize e \<longleftrightarrow> e = reflect_entry i rf \<and> exact_set hs sc i"
    and "it_body i = IObserve ob \<Longrightarrow>
      dispose_observe hs sc i ob = DFinalize e \<longleftrightarrow> e = observe_entry i ob \<and> exact_set hs sc i"
  using assms
  by (auto simp: dispose_forget_scope_def dispose_revive_def dispose_reflect_def dispose_observe_def exact_set_def
      single_def Let_def split: list.splits)

lemma dispose_body_finalizes:
  assumes "existing_of sc (it_operation_id i) = []"
  shows "dispose_body hs sc i = DFinalize e \<longleftrightarrow> e = recovery_entry i \<and> exact_set hs sc i"
  using assms
  by (cases "it_body i")
     (simp_all add: dispose_body_def recovery_entry_def forget_finalizes endorse_finalizes revise_finalizes single_finalizes)

lemma dispose_body_committed:
  "existing_of sc (it_operation_id i) \<noteq> [] \<Longrightarrow> dispose_body hs sc i = DRemove \<or> dispose_body hs sc i = DManual"
  by (simp add: dispose_body_def dispose_forget_def dispose_forget_scope_def dispose_revive_def dispose_reflect_def
      dispose_observe_def dispose_endorse_def dispose_revise_def Let_def split: intent_body.split)

lemma exact_set_artifacts: "exact_set hs sc i \<Longrightarrow> 0 < artifact_count sc (it_operation_id i)"
  by (auto simp: exact_set_def artifact_count_def Let_def isExactEndorsePage_def
      dest!: single_length isExactReviseIntent_nonempty split: intent_body.splits list.splits)

lemma dispose_finalizes:
  "dispose hs fenced sc f i = DFinalize e \<longleftrightarrow>
     existing_of sc (it_operation_id i) = [] \<and> exact_set hs sc i \<and> e = recovery_entry i
     \<and> staleReason fenced (sc_high_water sc) f i = None"
proof (cases "existing_of sc (it_operation_id i) = []")
  case True
  then show ?thesis using exact_set_artifacts [of hs sc i] 
    by (auto simp: dispose_def dispose_body_finalizes split: option.splits)
next
  case False
  then show ?thesis using dispose_body_committed [OF False, of hs] by (auto simp: dispose_def)
qed


section \<open>What a recovery run does to the log and to the fencing store\<close>

text \<open>
  How the fencing store may change while a scan runs: the mark only grows, an authorization is never
  lost, and a new one is never behind the mark. Both commit gates change it so.
\<close>

definition fence_le :: "fence_store \<Rightarrow> fence_store \<Rightarrow> bool" where
  "fence_le s t =
     (hw s \<le> hw t \<and> (\<forall>oid a. auth_epoch s oid = Some a \<longrightarrow> auth_epoch t oid = Some a)
      \<and> (\<forall>oid a. auth_epoch t oid = Some a \<longrightarrow> auth_epoch s oid = Some a \<or> hw s \<le> a))"

definition rely :: "(fence_store \<Rightarrow> fence_store) \<Rightarrow> bool" where
  "rely env = (\<forall>s. fence_le s (env s))"

lemma fence_le_refl [simp]: "fence_le s s"
  by (simp add: fence_le_def)

lemma fence_le_trans: "fence_le s t \<Longrightarrow> fence_le t u \<Longrightarrow> fence_le s u"
  unfolding fence_le_def by (meson order_trans)

lemma fence_le_authorized:
  assumes "fence_le s t" and "authorization oid s \<noteq> None"
  shows "authorization oid t \<noteq> None"
proof -
  obtain a where "auth_epoch s oid = Some a" using assms(2) by auto
  then have "auth_epoch t oid = Some a" using assms(1) unfolding fence_le_def by blast
  then show ?thesis by auto
qed

lemma gate_fence_le: "fence_le s (snd (recovery_gate w now oids e s))"
  unfolding fence_le_def
proof (intro conjI allI impI)
  fix oid a assume a: "auth_epoch (snd (recovery_gate w now oids e s)) oid = Some a"
  show "auth_epoch s oid = Some a \<or> hw s \<le> a"
  proof (cases "auth_epoch s oid")
    case None
    then show ?thesis using rg.fresh_not_behind [OF None a] by simp
  next
    case (Some b)
    then show ?thesis using rg.keeps [OF Some, of w now oids e] a by simp
  qed
qed (simp_all add: rg.mark_grows rg.keeps)

definition gate_passed :: "bool \<Rightarrow> scan \<Rightarrow> fence_store \<Rightarrow> op_intent \<Rightarrow> bool" where
  "gate_passed fenced sc f i =
     (fenced \<longrightarrow> authorization (it_operation_id i) f \<noteq> None \<or> (it_fence i = None \<and> sc_high_water sc = 0))"

lemma gate_passed_mono: "fence_le f g \<Longrightarrow> gate_passed fenced sc f i \<Longrightarrow> gate_passed fenced sc g i"
  using fence_le_authorized [of f g "it_operation_id i"] by (auto simp: gate_passed_def)

lemma decide_commit_sound:
  assumes "rely env" and "decide_commit env now sc i f = (ok, g)"
  shows "fence_le f g \<and> (ok \<longrightarrow> gate_passed fenced sc g i)"
proof (cases "it_fence i")
  case None
  then show ?thesis using assms(2) by (auto simp: decide_commit_def gate_passed_def)
next
  case (Some st)
  let ?gate = "recovery_gate (st_writer_id st) now [it_operation_id i] (st_epoch st) (env f)"
  have g: "g = snd ?gate" "ok = fst ?gate" using assms(2) Some by (auto simp: decide_commit_def)
  have "fence_le f g" unfolding g(1)
    by (rule fence_le_trans [OF _ gate_fence_le]) (use assms(1) in \<open>simp add: rely_def\<close>)
  moreover have "ok \<Longrightarrow> gate_passed fenced sc g i"
    using rg.accepted_all [of "st_writer_id st" now "[it_operation_id i]" "st_epoch st" "env f" "it_operation_id i"]
    by (simp add: g gate_passed_def)
  ultimately show ?thesis by blast
qed

text \<open>The day files after the commit signals of \<open>fin\<close> were appended in order.\<close>

definition signal :: "op_intent \<Rightarrow> op_entry" where
  "signal i = with_stamp (it_fence i) (recovery_entry i)"

definition appended :: "op_intent list \<Rightarrow> ops_dir \<Rightarrow> ops_dir \<Rightarrow> bool" where
  "appended fin d d' =
     (\<forall>day. day_lines day d' =
        day_lines day d @ map (\<lambda>i. Line (signal i)) (filter (\<lambda>i. dayOfTimestamp (it_prepared_at i) = day) fin))"

lemma appended_Nil [simp]: "appended [] d d"
  by (simp add: appended_def)

lemma appended_Cons: "appended [i] d d1 \<Longrightarrow> appended fin d1 d2 \<Longrightarrow> appended (i # fin) d d2"
  by (auto simp: appended_def)

lemma signal_appended:
  "appendOpLogEntry (with_stamp (it_fence i) (recovery_entry i)) d = (Inr x, d') \<Longrightarrow> appended [i] d d'"
  by (auto simp: appendOpLogEntry_def appendOpLogEntry_eq appended_def signal_def split: option.splits)

lemma signal_refused: "appendOpLogEntry e d = (Inl x, d') \<Longrightarrow> d' = d"
  by (auto simp: appendOpLogEntry_def dest: appendOpLogEntries_refused)

definition recover_ok :: "hashes \<Rightarrow> bool \<Rightarrow> scan \<Rightarrow> fence_store \<Rightarrow> op_intent \<Rightarrow> bool" where
  "recover_ok hs fenced sc f i =
     (existing_of sc (it_operation_id i) = [] \<and> exact_set hs sc i \<and> gate_passed fenced sc f i)"

definition progress :: "hashes \<Rightarrow> bool \<Rightarrow> scan \<Rightarrow> op_intent list \<Rightarrow> recovery_state \<Rightarrow> recovery_state \<Rightarrow> bool" where
  "progress hs fenced sc fin s s' =
     (fence_le (rs_fence s) (rs_fence s') \<and> appended fin (rs_ops s) (rs_ops s')
      \<and> rs_completed s' = rs_completed s @ map it_operation_id fin
      \<and> (\<forall>i \<in> set fin. recover_ok hs fenced sc (rs_fence s') i))"

lemma progress_refl: "progress hs fenced sc [] s s"
  by (simp add: progress_def)

lemma progress_frame:
  "rs_fence s' = rs_fence s \<Longrightarrow> rs_ops s' = rs_ops s \<Longrightarrow> rs_completed s' = rs_completed s \<Longrightarrow> progress hs fenced sc [] s s'"
  by (simp add: progress_def)

lemma progress_trans:
  assumes "progress hs fenced sc [i] s t \<or> (progress hs fenced sc [] s t)" and "progress hs fenced sc fin t u"
  shows "progress hs fenced sc fin s u \<or> progress hs fenced sc (i # fin) s u"
proof -
  have le: "fence_le (rs_fence s) (rs_fence u)" using assms by (auto simp: progress_def intro: fence_le_trans)
  have keep: "recover_ok hs fenced sc (rs_fence u) j" if "recover_ok hs fenced sc (rs_fence t) j" for j
    using that assms(2) gate_passed_mono [of "rs_fence t" "rs_fence u"] by (auto simp: recover_ok_def progress_def)
  from assms(1) show ?thesis
  proof
    assume "progress hs fenced sc [i] s t"
    then have "progress hs fenced sc (i # fin) s u"
      using assms(2) le keep appended_Cons [of i "rs_ops s" "rs_ops t" fin "rs_ops u"] by (simp add: progress_def)
    then show ?thesis ..
  next
    assume "progress hs fenced sc [] s t"
    then have "progress hs fenced sc fin s u" using assms(2) le by (simp add: progress_def appended_def)
    then show ?thesis ..
  qed
qed

lemma recordStale_frame [simp]:
  "rs_fence (recordStale sc i r s) = rs_fence s" "rs_ops (recordStale sc i r s) = rs_ops s"
  "rs_completed (recordStale sc i r s) = rs_completed s" "rs_intents (recordStale sc i r s) = rs_intents s"
  by (simp_all add: recordStale_def)

lemma drop_intent_frame [simp]:
  "rs_fence (drop_intent oid s) = rs_fence s" "rs_ops (drop_intent oid s) = rs_ops s"
  "rs_completed (drop_intent oid s) = rs_completed s"
  by (simp_all add: drop_intent_def)

lemma finalizeRecovered_sound:
  assumes "rely env" and "existing_of sc (it_operation_id i) = []" and "exact_set hs sc i"
    and "finalizeRecovered env now fenced sc i (recovery_entry i) s = (r, s')"
  shows "rs_completed s' = rs_completed s \<and> fence_le (rs_fence s) (rs_fence s')
    \<and> (if r = Inr True then appended [i] (rs_ops s) (rs_ops s') \<and> recover_ok hs fenced sc (rs_fence s') i
       else rs_ops s' = rs_ops s)"
proof -
  let ?gated = "fenced \<and> authorization (it_operation_id i) (rs_fence s) = None"
  obtain ok f where d: "(if ?gated then decide_commit env now sc i (rs_fence s) else (True, rs_fence s)) = (ok, f)"
    by (metis surj_pair)
  have f: "fence_le (rs_fence s) f" and passed: "ok \<Longrightarrow> gate_passed fenced sc f i"
    using d decide_commit_sound [OF assms(1), of now sc i "rs_fence s" ok f fenced]
    by (auto simp: gate_passed_def split: if_splits)
  show ?thesis
  proof (cases ok)
    case False
    then show ?thesis using assms(4) f by (auto simp: finalizeRecovered_def d Let_def)
  next
    case True
    then show ?thesis using assms f passed [OF True]
      by (auto simp: finalizeRecovered_def d Let_def recover_ok_def split: prod.splits sum.splits
          dest: signal_refused signal_appended)
  qed
qed

lemma recover_one_progress:
  assumes "rely env" and "recover_one env now hs fenced sc i s = (r, s')"
  shows "progress hs fenced sc [i] s s' \<or> progress hs fenced sc [] s s'"
proof (cases "dispose hs fenced sc (rs_fence s) i")
  case (DFinalize e)
  then have ready: "existing_of sc (it_operation_id i) = []" "exact_set hs sc i" "e = recovery_entry i"
    by (simp_all add: dispose_finalizes)
  obtain v t where run: "finalizeRecovered env now fenced sc i (recovery_entry i) s = (v, t)" by (metis surj_pair)
  note sound = finalizeRecovered_sound [OF assms(1) ready(1,2) run]
  show ?thesis
  proof (cases "v = Inr True")
    case True
    then have "progress hs fenced sc [i] s s'"
      using assms(2) sound by (auto simp: recover_one_def DFinalize ready(3) run progress_def Let_def)
    then show ?thesis ..
  next
    case False
    then have "s' = t" using assms(2) by (auto simp: recover_one_def DFinalize ready(3) run Let_def split: sum.splits bool.splits)
    then show ?thesis using sound False by (simp add: progress_def)
  qed
qed (use assms(2) in \<open>auto simp: recover_one_def Let_def intro!: disjI2 progress_frame\<close>)

text \<open>The intents among the records of a directory, in the order of the loop; the finalized ones are some of them, each at most once.\<close>

definition good_intents :: "(string \<times> op_intent outcome) list \<Rightarrow> op_intent list" where
  "good_intents recs = concat (map (\<lambda>(oid, v). case v of Inl _ \<Rightarrow> [] | Inr i \<Rightarrow> [i]) recs)"

lemma good_intents_simps [simp]:
  "good_intents [] = []" "good_intents ((oid, Inl x) # recs) = good_intents recs" "good_intents ((oid, Inr i) # recs) = i # good_intents recs"
  by (simp_all add: good_intents_def)

lemma set_good_intents: "set (good_intents recs) = {i. \<exists>oid. (oid, Inr i) \<in> set recs}"
  by (force simp: good_intents_def split: sum.splits)

lemma good_intents_distinct:
  "distinct (map fst recs) \<Longrightarrow> \<forall>oid i. (oid, Inr i) \<in> set recs \<longrightarrow> it_operation_id i = oid \<Longrightarrow> distinct (map it_operation_id (good_intents recs))"
proof (induction recs)
  case (Cons rec recs)
  obtain oid v where rec: "rec = (oid, v)" by (cases rec)
  show ?case
  proof (cases v)
    case (Inr i)
    have ids: "it_operation_id j = k" if "(k, Inr j) \<in> set recs" for k j using Cons.prems(2) that by simp
    have own: "it_operation_id i = oid" using Cons.prems(2) rec Inr by simp
    have new: "oid \<notin> fst ` set recs" using Cons.prems(1) rec by simp
    have "it_operation_id i \<notin> it_operation_id ` set (good_intents recs)"
    proof
      assume "it_operation_id i \<in> it_operation_id ` set (good_intents recs)"
      then obtain j k where jk: "(k, Inr j) \<in> set recs" "it_operation_id j = it_operation_id i" unfolding set_good_intents by auto
      then have "oid \<in> fst ` set recs" using ids [OF jk(1)] own by (metis fst_conv image_eqI)
      then show False using new by simp
    qed
    moreover have "distinct (map it_operation_id (good_intents recs))"
      by (rule Cons.IH) (use Cons.prems in simp_all)
    ultimately show ?thesis using rec Inr by simp
  next
    case (Inl x)
    have "distinct (map it_operation_id (good_intents recs))"
      by (rule Cons.IH) (use Cons.prems in simp_all)
    then show ?thesis using rec Inl by simp
  qed
qed simp

lemma distinct_subseq: "subseq xs ys \<Longrightarrow> distinct (map f ys) \<Longrightarrow> distinct (map f xs)"
  using subseq_map [of xs ys f] subseqs_distinctD [of "map f xs" "map f ys"] by simp

lemma recover_loop_progress:
  assumes "rely env" and "recover_loop env now hs fenced sc recs s = (r, s')"
  shows "\<exists>fin. subseq fin (good_intents recs) \<and> progress hs fenced sc fin s s'"
  using assms(2)
proof (induction recs arbitrary: s)
  case Nil
  then show ?case using progress_refl by (intro exI [of _ "[]"]) simp
next
  case (Cons rec recs)
  obtain oid v where rec: "rec = (oid, v)" by (cases rec)
  show ?case
  proof (cases v)
    case (Inl x)
    let ?t = "s\<lparr>rs_errors := rs_errors s @ [oid],
         rs_manual := (if starts_with oid ''op_'' then rs_manual s @ [oid] else rs_manual s)\<rparr>"
    obtain fin where "subseq fin (good_intents recs)" "progress hs fenced sc fin ?t s'"
      using Cons.IH [of ?t] Cons.prems by (auto simp: rec Inl)
    then show ?thesis by (intro exI [of _ fin]) (auto simp: progress_def rec Inl)
  next
    case (Inr i)
    obtain w t where one: "recover_one env now hs fenced sc i s = (w, t)" by (metis surj_pair)
    note step = recover_one_progress [OF assms(1) one]
    show ?thesis
    proof (cases w)
      case (Inl x)
      then have "s' = t" using Cons.prems by (simp add: rec Inr one)
      then consider "progress hs fenced sc [i] s s'" | "progress hs fenced sc [] s s'" using step by blast
      then show ?thesis
      proof cases
        case 1
        then show ?thesis by (intro exI [of _ "[i]"]) (auto simp: rec Inr)
      next
        case 2
        then show ?thesis by (intro exI [of _ "[]"]) simp
      qed
    next
      case (Inr u)
      then obtain fin where fin: "subseq fin (good_intents recs)" "progress hs fenced sc fin t s'"
        using Cons.IH [of t] Cons.prems by (auto simp: rec \<open>v = Inr i\<close> one)
      then consider "progress hs fenced sc fin s s'" | "progress hs fenced sc (i # fin) s s'"
        using progress_trans [OF step fin(2)] by blast
      then show ?thesis
      proof cases
        case 1
        then show ?thesis using fin by (intro exI [of _ fin]) (auto simp: rec \<open>v = Inr i\<close>)
      next
        case 2
        then show ?thesis using fin by (intro exI [of _ "i # fin"]) (auto simp: rec \<open>v = Inr i\<close>)
      qed
    qed
  qed
qed


text \<open>What happens to the intents.\<close>

definition settled :: "scan \<Rightarrow> recovery_state \<Rightarrow> string \<Rightarrow> bool" where
  "settled sc s oid = (oid \<in> set (rs_completed s) \<or> oid \<in> set (rs_aborted s) \<or> existing_of sc oid \<noteq> [])"

definition intents_kept :: "scan \<Rightarrow> recovery_state \<Rightarrow> recovery_state \<Rightarrow> bool" where
  "intents_kept sc s s' =
     ((\<forall>oid. settled sc s oid \<longrightarrow> settled sc s' oid)
      \<and> (\<forall>oid. \<not> settled sc s' oid \<longrightarrow> map_of (rs_intents s') oid = map_of (rs_intents s) oid))"

lemma intents_kept_trans: "intents_kept sc s t \<Longrightarrow> intents_kept sc t u \<Longrightarrow> intents_kept sc s u"
  unfolding intents_kept_def by metis

lemma intents_kept_frame:
  "rs_intents s' = rs_intents s \<Longrightarrow> rs_completed s' = rs_completed s \<Longrightarrow> rs_aborted s' = rs_aborted s \<Longrightarrow> intents_kept sc s s'"
  by (simp add: intents_kept_def settled_def)

lemma map_of_drop_intent: "oid' \<noteq> oid \<Longrightarrow> map_of (rs_intents (drop_intent oid s)) oid' = map_of (rs_intents s) oid'"
  by (simp add: drop_intent_def removeOperationIntent_def map_of_remove)

lemma recordStale_aborted [simp]: "rs_aborted (recordStale sc i r s) = rs_aborted s"
  by (simp add: recordStale_def)

lemma drop_intent_aborted [simp]: "rs_aborted (drop_intent oid s) = rs_aborted s"
  by (simp add: drop_intent_def)

lemma finalizeRecovered_frame:
  "finalizeRecovered env now fenced sc i e s = (r, s') \<Longrightarrow>
   rs_intents s' = rs_intents s \<and> rs_completed s' = rs_completed s \<and> rs_aborted s' = rs_aborted s"
  by (auto simp: finalizeRecovered_def Let_def split: prod.splits if_splits sum.splits)

lemma dispose_removes: "dispose hs fenced sc f i = DRemove \<Longrightarrow> existing_of sc (it_operation_id i) \<noteq> []"
  by (auto simp: dispose_def dispose_body_def dispose_forget_def dispose_forget_scope_def dispose_revive_def
      dispose_reflect_def dispose_observe_def dispose_endorse_def dispose_revise_def Let_def
      split: option.splits if_splits intent_body.splits list.splits)

lemma dispose_aborts:
  "dispose hs fenced sc f i = DAbort \<Longrightarrow>
   existing_of sc (it_operation_id i) = [] \<and> l1_of sc (it_operation_id i) = [] \<and> (\<exists>b. it_body i = IReflect b)"
  by (auto simp: dispose_def dispose_body_def dispose_forget_def dispose_forget_scope_def dispose_revive_def
      dispose_reflect_def dispose_observe_def dispose_endorse_def dispose_revise_def Let_def
      split: option.splits if_splits intent_body.splits list.splits)

lemma recover_one_intents:
  assumes "recover_one env now hs fenced sc i s = (r, s')"
  shows "intents_kept sc s s'"
proof (cases "dispose hs fenced sc (rs_fence s) i")
  case DRemove
  then show ?thesis using assms dispose_removes [OF DRemove]
    by (auto simp: recover_one_def intents_kept_def settled_def map_of_drop_intent Let_def) (metis map_of_drop_intent)
next
  case DAbort
  then show ?thesis using assms
    by (auto simp: recover_one_def intents_kept_def settled_def map_of_drop_intent Let_def)
next
  case (DFinalize e)
  obtain v t where run: "finalizeRecovered env now fenced sc i e s = (v, t)" by (metis surj_pair)
  note frame = finalizeRecovered_frame [OF run]
  show ?thesis
  proof (cases "v = Inr True")
    case True
    then show ?thesis using assms frame
      by (auto simp: recover_one_def DFinalize run intents_kept_def settled_def map_of_drop_intent Let_def)
  next
    case False
    then have "s' = t" using assms by (auto simp: recover_one_def DFinalize run Let_def split: sum.splits bool.splits)
    then show ?thesis using frame by (simp add: intents_kept_frame)
  qed
qed (use assms in \<open>auto simp: recover_one_def Let_def intro!: intents_kept_frame\<close>)

text \<open>A relation that every disposition of one intent keeps holds over the whole loop.\<close>

lemma recover_loop_rel:
  assumes refl: "\<And>s. R s s" and trans: "\<And>s t u. R s t \<Longrightarrow> R t u \<Longrightarrow> R s u"
    and frame: "\<And>s errs man. R s (s\<lparr>rs_errors := errs, rs_manual := man\<rparr>)"
    and "\<And>oid i s r t. (oid, Inr i) \<in> set recs \<Longrightarrow> recover_one env now hs fenced sc i s = (r, t) \<Longrightarrow> R s t"
    and "recover_loop env now hs fenced sc recs s = (r, s')"
  shows "R s s'"
  using assms(4,5)
proof (induction recs arbitrary: s)
  case (Cons rec recs)
  obtain oid v where rec: "rec = (oid, v)" by (cases rec)
  have one: "R s t" if "(oid, Inr i) \<in> set recs" "recover_one env now hs fenced sc i s = (r, t)" for oid i s r t
    using Cons.prems(1) [of oid i s r t] that by simp
  have IH: "recover_loop env now hs fenced sc recs t = (r, s') \<Longrightarrow> R t s'" for t
    by (rule Cons.IH) (use one in blast)+
  show ?case
  proof (cases v)
    case (Inl x)
    let ?t = "s\<lparr>rs_errors := rs_errors s @ [oid],
         rs_manual := (if starts_with oid ''op_'' then rs_manual s @ [oid] else rs_manual s)\<rparr>"
    have "R ?t s'" using IH [of ?t] Cons.prems(2) by (simp add: rec Inl)
    then show ?thesis by (rule trans [OF frame])
  next
    case (Inr i)
    obtain w t where step: "recover_one env now hs fenced sc i s = (w, t)" by (metis surj_pair)
    have first: "R s t" using Cons.prems(1) [of oid i s w t] step by (simp add: rec Inr)
    show ?thesis
    proof (cases w)
      case (Inl x)
      then show ?thesis using Cons.prems(2) first by (simp add: rec Inr step)
    next
      case (Inr u)
      then have "R t s'" using IH [of t] Cons.prems(2) by (simp add: rec \<open>v = Inr i\<close> step)
      then show ?thesis by (rule trans [OF first])
    qed
  qed
qed (simp add: refl)

lemma recover_loop_intents:
  "recover_loop env now hs fenced sc recs s = (r, s') \<Longrightarrow> intents_kept sc s s'"
  by (rule recover_loop_rel [where R = "intents_kept sc"])
     (auto intro: intents_kept_trans recover_one_intents intents_kept_frame)

definition shrinks :: "recovery_state \<Rightarrow> recovery_state \<Rightarrow> bool" where
  "shrinks s s' =
     ((\<forall>oid. map_of (rs_intents s) oid = None \<longrightarrow> map_of (rs_intents s') oid = None) \<and> set (rs_aborted s) \<subseteq> set (rs_aborted s'))"

lemma shrinks_drop: "shrinks s (drop_intent oid s)"
  by (simp add: shrinks_def drop_intent_def removeOperationIntent_def map_of_remove)

lemma recover_one_shrinks:
  assumes "recover_one env now hs fenced sc i s = (r, s')"
  shows "shrinks s s'"
proof (cases "dispose hs fenced sc (rs_fence s) i")
  case (DFinalize e)
  obtain v t where run: "finalizeRecovered env now fenced sc i e s = (v, t)" by (metis surj_pair)
  note frame = finalizeRecovered_frame [OF run]
  show ?thesis using assms frame shrinks_drop [of t "it_operation_id i"]
    by (auto simp: recover_one_def DFinalize run shrinks_def drop_intent_def Let_def split: sum.splits bool.splits)
qed (use assms shrinks_drop [of s "it_operation_id i"] in
      \<open>auto simp: recover_one_def shrinks_def Let_def\<close>)

lemma recover_loop_shrinks:
  "recover_loop env now hs fenced sc recs s = (r, s') \<Longrightarrow> shrinks s s'"
  by (rule recover_loop_rel [where R = shrinks, OF _ _ _ recover_one_shrinks]) (auto simp: shrinks_def)

text \<open>Only automatic reflections without a claim are aborted.\<close>

lemma finalizeRecovered_aborted:
  "finalizeRecovered env now fenced sc i e s = (r, t) \<Longrightarrow> rs_aborted t = rs_aborted s"
  using finalizeRecovered_frame by blast

lemma recover_one_aborted:
  assumes "recover_one env now hs fenced sc i s = (r, s')"
  shows "set (rs_aborted s') \<subseteq> set (rs_aborted s) \<union>
    {it_operation_id i | b. it_body i = IReflect b \<and> existing_of sc (it_operation_id i) = [] \<and> l1_of sc (it_operation_id i) = []}"
proof (cases "dispose hs fenced sc (rs_fence s) i")
  case DAbort
  then show ?thesis using assms dispose_aborts [OF DAbort] by (auto simp: recover_one_def Let_def)
next
  case (DFinalize e)
  obtain v t where run: "finalizeRecovered env now fenced sc i e s = (v, t)" by (metis surj_pair)
  show ?thesis using assms finalizeRecovered_aborted [OF run]
    by (auto simp: recover_one_def DFinalize run Let_def split: sum.splits bool.splits)
qed (use assms in \<open>auto simp: recover_one_def Let_def\<close>)

definition abortable :: "scan \<Rightarrow> (string \<times> op_intent outcome) list \<Rightarrow> string set" where
  "abortable sc recs = {it_operation_id i | i k b. (k, Inr i) \<in> set recs \<and> it_body i = IReflect b
     \<and> existing_of sc (it_operation_id i) = [] \<and> l1_of sc (it_operation_id i) = []}"

lemma recover_loop_aborted:
  assumes "recover_loop env now hs fenced sc recs s = (r, s')"
  shows "set (rs_aborted s') \<subseteq> set (rs_aborted s) \<union> abortable sc recs"
proof (rule recover_loop_rel [where R = "\<lambda>s s'. set (rs_aborted s') \<subseteq> set (rs_aborted s) \<union> abortable sc recs", OF _ _ _ _ assms])
  fix oid i s r t
  assume "(oid, Inr i) \<in> set recs" "recover_one env now hs fenced sc i s = (r, t)"
  then show "set (rs_aborted t) \<subseteq> set (rs_aborted s) \<union> abortable sc recs"
    using recover_one_aborted [of env now hs fenced sc i s r t] unfolding abortable_def by blast
qed auto

lemma recover_one_aborts:
  assumes "it_body i = IReflect b" and "existing_of sc (it_operation_id i) = []" and "artifact_count sc (it_operation_id i) = 0"
    and "valid_intent i" and "recover_one env now hs fenced sc i s = (r, s')"
  shows "it_operation_id i \<in> set (rs_aborted s') \<and> map_of (rs_intents s') (it_operation_id i) = None"
proof -
  have "dispose hs fenced sc (rs_fence s) i = DAbort"
    using assms(1-3) by (simp add: dispose_def dispose_body_def dispose_reflect_def artifact_count_def)
  then show ?thesis using assms(5) valid_intent_id [OF assms(4)]
    by (auto simp: recover_one_def drop_intent_def removeOperationIntent_def map_of_remove Let_def)
qed

lemma recover_loop_aborts:
  assumes "it_body i = IReflect b" and "existing_of sc (it_operation_id i) = []" and "artifact_count sc (it_operation_id i) = 0"
    and "valid_intent i" and "recover_loop env now hs fenced sc recs s = (Inr u, s')" and "(oid, Inr i) \<in> set recs"
  shows "it_operation_id i \<in> set (rs_aborted s') \<and> map_of (rs_intents s') (it_operation_id i) = None"
  using assms(5,6)
proof (induction recs arbitrary: s)
  case (Cons rec recs)
  show ?case
  proof (cases "rec = (oid, Inr i)")
    case True
    obtain w t where one: "recover_one env now hs fenced sc i s = (w, t)" by (metis surj_pair)
    then have "recover_loop env now hs fenced sc recs t = (Inr u, s')"
      using Cons.prems(1) by (cases w) (auto simp: True)
    from recover_loop_shrinks [OF this] recover_one_aborts [OF assms(1-4) one]
    show ?thesis by (auto simp: shrinks_def)
  next
    case False
    then have mem: "(oid, Inr i) \<in> set recs" using Cons.prems(2) by auto
    obtain t where "recover_loop env now hs fenced sc recs t = (Inr u, s')"
      using Cons.prems(1) by (cases rec; cases "snd rec") (auto split: prod.splits sum.splits)
    then show ?thesis using Cons.IH mem by blast
  qed
qed simp

text \<open>The records of a scan, and the report of a run.\<close>

lemma set_records:
  "set (readOperationIntentRecords dir) =
     (\<lambda>(oid, f). (oid, if \<not> isValidOperationId oid then Inl (JsError ''invalid filename'') else parseIntent f oid)) ` set dir"
  by (simp add: readOperationIntentRecords_def)

lemma record_read:
  assumes "distinct (map fst dir)"
  shows "(oid, Inr i) \<in> set (readOperationIntentRecords dir) \<longleftrightarrow> readOperationIntent dir oid = Inr (Some i)"
proof -
  have "(oid, Inr i) \<in> set (readOperationIntentRecords dir) \<longleftrightarrow>
      isValidOperationId oid \<and> (\<exists>f. (oid, f) \<in> set dir \<and> parseIntent f oid = Inr i)"
    by (force simp: set_records split: if_splits)
  also have "\<dots> \<longleftrightarrow> isValidOperationId oid \<and> (\<exists>f. map_of dir oid = Some f \<and> parseIntent f oid = Inr i)"
    using assms by simp
  also have "\<dots> \<longleftrightarrow> readOperationIntent dir oid = Inr (Some i)"
    by (cases "map_of dir oid") (auto simp: readOperationIntent_def split: sum.splits)
  finally show ?thesis .
qed

lemma record_id: "readOperationIntent dir oid = Inr (Some i) \<Longrightarrow> it_operation_id i = oid \<and> valid_intent i"
  by (auto simp: readOperationIntent_def parseIntent_def split: if_splits option.splits sum.splits intent_file.splits)

lemma set_sorted_ids [simp]: "set (sorted_ids xs) = set xs"
  by (simp add: sorted_ids_def)

lemma start_state_simps [simp]:
  "rs_ops (start_state sc ops intents f) = ops" "rs_intents (start_state sc ops intents f) = intents"
  "rs_fence (start_state sc ops intents f) = f" "rs_completed (start_state sc ops intents f) = []"
  "rs_aborted (start_state sc ops intents f) = []"
  by (simp_all add: start_state_def)

lemma make_report_simps [simp]:
  "set (rr_completed (make_report sc s)) = set (rs_completed s)"
  "set (rr_aborted (make_report sc s)) = set (rs_aborted s)"
  by (simp_all add: make_report_def Let_def)

lemma runRecovery_loop:
  assumes "runRecovery env now hs ctx ops intents f = (r, ops', intents', f')"
  shows "(\<exists>x. r = Inl x \<and> ops' = ops \<and> intents' = intents \<and> f' = f) \<or>
    (\<exists>sc v s'. take_scan hs ctx ops f = Inr sc
      \<and> recover_loop env now hs (rx_fenced ctx) sc (readOperationIntentRecords intents) (start_state sc ops intents f) = (v, s')
      \<and> ops' = rs_ops s' \<and> intents' = rs_intents s' \<and> f' = rs_fence s' \<and> (\<forall>rep. r = Inr rep \<longrightarrow> rep = make_report sc s'))"
  using assms by (auto simp: runRecovery_def split: sum.splits prod.splits)

lemma runRecovery_sound:
  assumes "rely env" and "distinct (map fst intents)"
    and "runRecovery env now hs ctx ops intents f = (r, ops', intents', f')"
  shows "\<exists>fin. appended fin ops ops' \<and> fence_le f f'
    \<and> (\<forall>rep. r = Inr rep \<longrightarrow> set (rr_completed rep) = it_operation_id ` set fin)
    \<and> (\<forall>i \<in> set fin. readOperationIntent intents (it_operation_id i) = Inr (Some i)
         \<and> (\<exists>sc. take_scan hs ctx ops f = Inr sc \<and> recover_ok hs (rx_fenced ctx) sc f' i))
    \<and> distinct (map it_operation_id fin)"
  using runRecovery_loop [OF assms(3)]
proof (elim disjE exE conjE)
  fix x assume "r = Inl x" "ops' = ops" "f' = f"
  then show ?thesis by (intro exI [of _ "[]"]) simp
next
  fix sc v s'
  assume scan: "take_scan hs ctx ops f = Inr sc"
    and loop: "recover_loop env now hs (rx_fenced ctx) sc (readOperationIntentRecords intents)
       (start_state sc ops intents f) = (v, s')"
    and res: "ops' = rs_ops s'" "intents' = rs_intents s'" "f' = rs_fence s'" "\<forall>rep. r = Inr rep \<longrightarrow> rep = make_report sc s'"
  obtain fin where fin: "subseq fin (good_intents (readOperationIntentRecords intents))"
    and prog: "progress hs (rx_fenced ctx) sc fin (start_state sc ops intents f) s'"
    using recover_loop_progress [OF assms(1) loop] by blast
  have "readOperationIntent intents (it_operation_id i) = Inr (Some i)" if "i \<in> set fin" for i
  proof -
    have "i \<in> set (good_intents (readOperationIntentRecords intents))" using list_emb_set [OF fin that] by auto
    then obtain oid where "(oid, Inr i) \<in> set (readOperationIntentRecords intents)" by (auto simp: set_good_intents)
    then have "readOperationIntent intents oid = Inr (Some i)" using record_read [OF assms(2)] by blast
    then show ?thesis using record_id by blast
  qed
  moreover have "distinct (map it_operation_id fin)"
  proof (rule distinct_subseq [OF fin good_intents_distinct])
    show "distinct (map fst (readOperationIntentRecords intents))" using assms(2) by (simp add: readOperationIntentRecords_def comp_def case_prod_beta' distinct_map)
    show "\<forall>oid i. (oid, Inr i) \<in> set (readOperationIntentRecords intents) \<longrightarrow> it_operation_id i = oid"
      using record_read [OF assms(2)] record_id by blast
  qed
  ultimately show ?thesis using prog scan res by (intro exI [of _ fin]) (auto simp: progress_def)
qed

text \<open>An entry of a day file is an entry of the scan.\<close>

lemma parse_lines_mem: "parse_lines ls = Inr es \<Longrightarrow> Line e \<in> set ls \<Longrightarrow> e \<in> set es"
  by (induction ls arbitrary: es rule: parse_lines.induct) (auto split: sum.splits)

lemma read_days_mem:
  "read_days dir ds = Inr es \<Longrightarrow> d \<in> set ds \<Longrightarrow> Line e \<in> set (day_lines d dir) \<Longrightarrow> e \<in> set es"
  by (induction ds arbitrary: es) (auto simp: read_day_def split: sum.splits dest: parse_lines_mem)

lemma read_all_mem:
  assumes "read_all dir = Inr es" and "Line e \<in> set (day_lines d dir)"
  shows "e \<in> set es"
proof -
  have "d \<in> set (log_days dir)" using assms(2) day_lines_absent [of d dir] by force
  then show ?thesis using read_days_mem [of dir "log_days dir"] assms unfolding read_all_def by blast
qed

lemma scan_entries: "take_scan hs ctx ops f = Inr sc \<Longrightarrow> read_all ops = Inr (sc_entries sc)"
  by (auto simp: take_scan_def readAllOpLogEntries_def split: sum.splits)

lemma scan_existing:
  assumes "take_scan hs ctx ops f = Inr sc" and "Line e \<in> set (day_lines d ops)"
  shows "existing_of sc (oe_operation_id e) \<noteq> []"
  using read_all_mem [OF scan_entries [OF assms(1)] assms(2)] by (auto simp: existing_of_def filter_empty_conv)

lemma appended_signal:
  "appended fin d d' \<Longrightarrow> i \<in> set fin \<Longrightarrow> \<exists>day e. Line e \<in> set (day_lines day d') \<and> oe_operation_id e = it_operation_id i"
  by (auto simp: appended_def signal_def intro!: exI [of _ "dayOfTimestamp (it_prepared_at i)"]
      exI [of _ "with_stamp (it_fence i) (recovery_entry i)"])

lemma runRecovery_completed:
  assumes "rely env" and "distinct (map fst intents)"
    and "runRecovery env now hs ctx ops intents f = (Inr rep, ops', intents', f')" and "oid \<in> set (rr_completed rep)"
  shows "\<exists>sc. take_scan hs ctx ops f = Inr sc \<and> existing_of sc oid = []"
proof -
  obtain fin where "set (rr_completed rep) = it_operation_id ` set fin"
    and ok: "\<forall>i \<in> set fin. readOperationIntent intents (it_operation_id i) = Inr (Some i)
         \<and> (\<exists>sc. take_scan hs ctx ops f = Inr sc \<and> recover_ok hs (rx_fenced ctx) sc f' i)"
    using runRecovery_sound [OF assms(1-3)] by blast
  then obtain i where "i \<in> set fin" "it_operation_id i = oid" using assms(4) by auto
  with ok show ?thesis by (auto simp: recover_ok_def)
qed

text \<open>A run during which no other process touches the fencing store.\<close>

definition alone :: "fence_store \<Rightarrow> fence_store" where
  "alone s = s"

lemma rely_alone: "rely alone"
  by (simp add: rely_def alone_def)

definition ready :: "hashes \<Rightarrow> bool \<Rightarrow> scan \<Rightarrow> fence_store \<Rightarrow> op_intent \<Rightarrow> bool" where
  "ready hs fenced sc f i =
     (existing_of sc (it_operation_id i) = [] \<and> exact_set hs sc i \<and> valid_intent i
      \<and> staleReason fenced (sc_high_water sc) f i = None \<and> 0 \<le> sc_high_water sc)"

lemma ready_mono: "fence_le f g \<Longrightarrow> ready hs fenced sc f i \<Longrightarrow> ready hs fenced sc g i"
  using fence_le_authorized [of f g "it_operation_id i"] by (auto simp: ready_def staleReason_def split: if_splits)

lemma decide_commit_alone:
  assumes "ready hs True sc f i" and "sc_high_water sc = hw f" and "authorization (it_operation_id i) f = None"
  shows "fst (decide_commit alone now sc i f)"
proof (cases "it_fence i")
  case None
  then show ?thesis using assms by (auto simp: decide_commit_def ready_def staleReason_def split: if_splits)
next
  case (Some st)
  then have "1 \<le> st_epoch st" "st_epoch st \<le> max_safe_integer" "hw f \<le> st_epoch st"
    using assms by (auto simp: ready_def valid_intent_def hasCommonIntentFields_def isSafeInteger_def staleReason_def
        split: if_splits)
  then show ?thesis by (simp add: decide_commit_def Some recovery_gate_eq alone_def)
qed

lemma decide_commit_hw: "hw (snd (decide_commit alone now sc i f)) = hw f"
  by (simp add: decide_commit_def recovery_gate_eq alone_def split: option.split)

lemma finalizeRecovered_hw:
  "hw (rs_fence (snd (finalizeRecovered alone now fenced sc i e s))) = hw (rs_fence s)"
  using decide_commit_hw [of now sc i "rs_fence s"]
  by (auto simp: finalizeRecovered_def Let_def split: prod.splits sum.splits)

lemma recover_one_hw:
  assumes "recover_one alone now hs fenced sc i s = (r, s')"
  shows "hw (rs_fence s') = hw (rs_fence s)"
proof (cases "dispose hs fenced sc (rs_fence s) i")
  case (DFinalize e)
  obtain v t where run: "finalizeRecovered alone now fenced sc i e s = (v, t)" by (metis surj_pair)
  then have "hw (rs_fence t) = hw (rs_fence s)" using finalizeRecovered_hw [of now fenced sc i e s] by simp
  then show ?thesis using assms
    by (auto simp: recover_one_def DFinalize run Let_def split: sum.splits bool.splits)
qed (use assms in \<open>auto simp: recover_one_def Let_def\<close>)

lemma finalizeRecovered_ready:
  assumes "ready hs fenced sc (rs_fence s) i" and "fenced \<Longrightarrow> sc_high_water sc = hw (rs_fence s)"
  shows "fst (finalizeRecovered alone now fenced sc i e s) \<noteq> Inr False"
proof (cases "fenced \<and> authorization (it_operation_id i) (rs_fence s) = None")
  case True
  then obtain f where "decide_commit alone now sc i (rs_fence s) = (True, f)"
    using decide_commit_alone [of hs sc "rs_fence s" i now] assms by (metis (full_types) prod.collapse)
  then show ?thesis using True by (simp add: finalizeRecovered_def Let_def split: prod.splits sum.splits)
next
  case False
  then show ?thesis by (simp add: finalizeRecovered_def Let_def split: prod.splits sum.splits)
qed

lemma recover_one_ready:
  assumes "ready hs fenced sc (rs_fence s) i" and "fenced \<Longrightarrow> sc_high_water sc = hw (rs_fence s)"
    and "recover_one alone now hs fenced sc i s = (Inr u, s')"
  shows "it_operation_id i \<in> set (rs_completed s')"
proof -
  have d: "dispose hs fenced sc (rs_fence s) i = DFinalize (recovery_entry i)"
    using assms(1) by (simp add: dispose_finalizes ready_def)
  show ?thesis using assms(3) finalizeRecovered_ready [OF assms(1,2), of now "recovery_entry i"]
    by (auto simp: recover_one_def d Let_def split: prod.splits sum.splits bool.splits)
qed

lemma recover_loop_ready:
  assumes "ready hs fenced sc (rs_fence s) i" and "fenced \<Longrightarrow> sc_high_water sc = hw (rs_fence s)"
    and "recover_loop alone now hs fenced sc recs s = (Inr u, s')" and "(oid, Inr i) \<in> set recs"
  shows "it_operation_id i \<in> set (rs_completed s')"
  using assms
proof (induction recs arbitrary: s)
  case (Cons rec recs)
  obtain oid' v where rec: "rec = (oid', v)" by (cases rec)
  show ?case
  proof (cases v)
    case (Inl x)
    then show ?thesis using Cons.prems Cons.IH [of "s\<lparr>rs_errors := rs_errors s @ [oid'],
         rs_manual := (if starts_with oid' ''op_'' then rs_manual s @ [oid'] else rs_manual s)\<rparr>"]
      by (simp add: rec)
  next
    case (Inr j)
    obtain w t where one: "recover_one alone now hs fenced sc j s = (w, t)" by (metis surj_pair)
    with Cons.prems(3) obtain u' where w: "w = Inr u'" by (cases w) (auto simp: rec Inr)
    then have loop: "recover_loop alone now hs fenced sc recs t = (Inr u, s')" using Cons.prems(3) by (simp add: rec Inr one)
    have le: "fence_le (rs_fence s) (rs_fence t)"
      using recover_one_progress [OF rely_alone one] by (auto simp: progress_def)
    show ?thesis
    proof (cases "j = i")
      case True
      then have "it_operation_id i \<in> set (rs_completed t)"
        using recover_one_ready [OF Cons.prems(1,2)] one w by blast
      moreover obtain fin where "progress hs fenced sc fin t s'" using recover_loop_progress [OF rely_alone loop] by blast
      ultimately show ?thesis by (auto simp: progress_def)
    next
      case False
      then show ?thesis using Cons.IH [of t] Cons.prems ready_mono [OF le] recover_one_hw [OF one] loop
        by (auto simp: rec Inr)
    qed
  qed
qed simp

section \<open>Properties\<close>

text \<open>C1: Recovery finalizes only exact artifact sets, under the fence. Whatever other processes do to the
  fencing store meanwhile (as long as marks grow, authorizations are kept and new ones are not behind the
  mark), and whether the run ends with a report or an error, the operations log is only appended to, by
  one commit signal for each of a list of prepared intents; each of them was read from the intents
  directory, had no entry in the log at the scan, and the artifacts on disk under its operation id are
  exactly the ones the intent promised; on a fenced brain its commit is authorized in the fencing store,
  unless the brain was never claimed and the intent carries no stamp, and an authorization that was not
  there before is at an epoch that is not behind the mark the run started from. The completed operations
  of the report are exactly these.\<close>

theorem recovery_finalizes_only_exact:
  assumes "rely env" and "distinct (map fst intents)"
    and "runRecovery env now hs ctx ops intents f = (r, ops', intents', f')"
  shows "\<exists>fin. appended fin ops ops'
    \<and> (\<forall>rep. r = Inr rep \<longrightarrow> set (rr_completed rep) = it_operation_id ` set fin)
    \<and> (\<forall>i \<in> set fin. readOperationIntent intents (it_operation_id i) = Inr (Some i)
         \<and> (\<exists>sc. take_scan hs ctx ops f = Inr sc \<and> existing_of sc (it_operation_id i) = [] \<and> exact_set hs sc i
              \<and> (rx_fenced ctx \<longrightarrow> authorization (it_operation_id i) f' \<noteq> None \<or> it_fence i = None \<and> highWater f = 0)))
    \<and> (\<forall>oid a. auth_epoch f' oid = Some a \<longrightarrow> auth_epoch f oid = Some a \<or> highWater f \<le> a)"
proof -
  have mark: "take_scan hs ctx ops f = Inr sc \<Longrightarrow> rx_fenced ctx \<Longrightarrow> sc_high_water sc = highWater f" for sc
    by (auto simp: take_scan_def split: sum.splits)
  obtain fin where fin: "appended fin ops ops'" "fence_le f f'"
    "\<forall>rep. r = Inr rep \<longrightarrow> set (rr_completed rep) = it_operation_id ` set fin"
    "\<forall>i \<in> set fin. readOperationIntent intents (it_operation_id i) = Inr (Some i)
         \<and> (\<exists>sc. take_scan hs ctx ops f = Inr sc \<and> recover_ok hs (rx_fenced ctx) sc f' i)"
    using runRecovery_sound [OF assms] by blast
  have "\<forall>oid a. auth_epoch f' oid = Some a \<longrightarrow> auth_epoch f oid = Some a \<or> highWater f \<le> a"
    using fin(2) unfolding fence_le_def highWater_def by blast
  moreover have "\<forall>i \<in> set fin. readOperationIntent intents (it_operation_id i) = Inr (Some i)
         \<and> (\<exists>sc. take_scan hs ctx ops f = Inr sc \<and> existing_of sc (it_operation_id i) = [] \<and> exact_set hs sc i
              \<and> (rx_fenced ctx \<longrightarrow> authorization (it_operation_id i) f' \<noteq> None \<or> it_fence i = None \<and> highWater f = 0))"
    using fin(4) mark by (fastforce simp: recover_ok_def gate_passed_def)
  ultimately show ?thesis using fin(1,3) by blast
qed

text \<open>C22: Recovery never commits an operation twice. A run commits, by a signal appended to the log, each of a list of distinct operations, whether it
  ends with a report or an error (its report, if any, names exactly these). A later run over the log it left, with any intents,
  artifacts and fencing state and whatever way it ends, commits none of them again, nor any operation that has an entry in the log.\<close>

theorem recovery_never_commits_twice:
  assumes "rely env1" "rely env2" and "distinct (map fst intents1)" "distinct (map fst intents2)"
    and "runRecovery env1 now1 hs1 ctx1 ops intents1 f1 = (r1, ops1, i1, g1)"
    and "runRecovery env2 now2 hs2 ctx2 ops1 intents2 f2 = (r2, ops2, i2, g2)"
  shows "\<exists>fin1 fin2. appended fin1 ops ops1 \<and> appended fin2 ops1 ops2
    \<and> (\<forall>rep. r1 = Inr rep \<longrightarrow> set (rr_completed rep) = it_operation_id ` set fin1)
    \<and> (\<forall>rep. r2 = Inr rep \<longrightarrow> set (rr_completed rep) = it_operation_id ` set fin2)
    \<and> distinct (map it_operation_id (fin1 @ fin2))
    \<and> (\<forall>d e. Line e \<in> set (day_lines d ops) \<longrightarrow> oe_operation_id e \<notin> it_operation_id ` set fin1)
    \<and> (\<forall>d e. Line e \<in> set (day_lines d ops1) \<longrightarrow> oe_operation_id e \<notin> it_operation_id ` set fin2)"
proof -
  obtain fin1 where fin1: "appended fin1 ops ops1" "\<forall>rep. r1 = Inr rep \<longrightarrow> set (rr_completed rep) = it_operation_id ` set fin1"
    "\<forall>i \<in> set fin1. \<exists>sc. take_scan hs1 ctx1 ops f1 = Inr sc \<and> recover_ok hs1 (rx_fenced ctx1) sc g1 i" "distinct (map it_operation_id fin1)"
    using runRecovery_sound [OF assms(1,3,5)] by blast
  obtain fin2 where fin2: "appended fin2 ops1 ops2" "\<forall>rep. r2 = Inr rep \<longrightarrow> set (rr_completed rep) = it_operation_id ` set fin2"
    "\<forall>i \<in> set fin2. \<exists>sc. take_scan hs2 ctx2 ops1 f2 = Inr sc \<and> recover_ok hs2 (rx_fenced ctx2) sc g2 i" "distinct (map it_operation_id fin2)"
    using runRecovery_sound [OF assms(2,4,6)] by blast
  have fresh1: "oe_operation_id e \<notin> it_operation_id ` set fin1" if "Line e \<in> set (day_lines d ops)" for d e
    using fin1(3) scan_existing [OF _ that] by (fastforce simp: recover_ok_def)
  have fresh2: "oe_operation_id e \<notin> it_operation_id ` set fin2" if "Line e \<in> set (day_lines d ops1)" for d e
    using fin2(3) scan_existing [OF _ that] by (fastforce simp: recover_ok_def)
  have "it_operation_id ` set fin1 \<inter> it_operation_id ` set fin2 = {}"
    using appended_signal [OF fin1(1)] fresh2 by fastforce
  then show ?thesis using fin1 fin2 fresh1 fresh2 by (intro exI [of _ fin1] exI [of _ fin2]) auto
qed

text \<open>C23: Recovery does not leave exact work behind. When no other process touches the fencing store and the
  run ends with a report, every intent on disk whose operation has no entry in the log and whose artifacts are
  exactly the promised ones is completed, unless it is stale: that is, on a fenced brain, not authorized
  and either stamped behind the mark or unstamped on a claimed brain.\<close>

theorem recovery_completes_exact:
  assumes "distinct (map fst intents)" and "runRecovery alone now hs ctx ops intents f = (Inr rep, ops', intents', f')"
    and "take_scan hs ctx ops f = Inr sc" and "readOperationIntent intents oid = Inr (Some i)"
    and "existing_of sc oid = []" and "exact_set hs sc i" and "0 \<le> highWater f"
    and "staleReason (rx_fenced ctx) (highWater f) f i = None"
  shows "oid \<in> set (rr_completed rep)"
proof -
  have id: "it_operation_id i = oid" "valid_intent i" using record_id [OF assms(4)] by simp_all
  have mark: "rx_fenced ctx \<Longrightarrow> sc_high_water sc = hw f"
    using assms(3) by (auto simp: take_scan_def highWater_def split: sum.splits)
  obtain v s' where loop: "recover_loop alone now hs (rx_fenced ctx) sc (readOperationIntentRecords intents)
      (start_state sc ops intents f) = (v, s')" by (metis surj_pair)
  then have rep: "rep = make_report sc s'" "v = Inr ()" using assms(2,3) by (auto simp: runRecovery_def split: sum.splits)
  have "ready hs (rx_fenced ctx) sc f i"
    using assms(3,5-8) id mark
    by (cases "rx_fenced ctx") (auto simp: ready_def highWater_def staleReason_def take_scan_def split: sum.splits)
  then show ?thesis
    using recover_loop_ready [of hs "rx_fenced ctx" sc "start_state sc ops intents f" i now _ "()" s' oid]
      loop rep mark assms(4) record_read [OF assms(1), of oid i] id
    by simp
qed

text \<open>Recovery loses no prepared work. After a run that ends with a report, the intent of an operation is on
  disk as it was before unless the run completed it, aborted it, or the log already had an entry for it; and
  what it aborts are only automatic reflections that were read from disk and for which the scan saw neither an
  entry of the log nor a claim version.\<close>

lemma recovery_keeps_intents:
  assumes "distinct (map fst intents)" and "runRecovery env now hs ctx ops intents f = (Inr rep, ops', intents', f')"
    and "take_scan hs ctx ops f = Inr sc"
  shows "(\<forall>oid. oid \<notin> set (rr_completed rep) \<and> oid \<notin> set (rr_aborted rep) \<and> existing_of sc oid = []
            \<longrightarrow> readOperationIntent intents' oid = readOperationIntent intents oid)
    \<and> (\<forall>oid \<in> set (rr_aborted rep). existing_of sc oid = [] \<and> l1_of sc oid = []
         \<and> (\<exists>i b. readOperationIntent intents oid = Inr (Some i) \<and> it_body i = IReflect b))"
proof -
  obtain v s' where loop: "recover_loop env now hs (rx_fenced ctx) sc (readOperationIntentRecords intents)
      (start_state sc ops intents f) = (v, s')" by (metis surj_pair)
  then have rep: "rep = make_report sc s'" "intents' = rs_intents s'"
    using assms(2,3) by (auto simp: runRecovery_def split: sum.splits)
  have keep: "readOperationIntent intents' oid = readOperationIntent intents oid"
    if "oid \<notin> set (rr_completed rep)" "oid \<notin> set (rr_aborted rep)" "existing_of sc oid = []" for oid
  proof -
    have "\<not> settled sc s' oid" using that rep by (simp add: settled_def)
    then have "map_of intents' oid = map_of intents oid"
      using recover_loop_intents [OF loop] rep by (simp add: intents_kept_def)
    then show ?thesis by (simp add: readOperationIntent_def)
  qed
  have "existing_of sc oid = [] \<and> l1_of sc oid = [] \<and> (\<exists>i b. readOperationIntent intents oid = Inr (Some i) \<and> it_body i = IReflect b)"
    if oid: "oid \<in> set (rr_aborted rep)" for oid
  proof -
    have "oid \<in> abortable sc (readOperationIntentRecords intents)"
      using recover_loop_aborted [OF loop] oid rep by auto
    then obtain i k b where i: "oid = it_operation_id i" "(k, Inr i) \<in> set (readOperationIntentRecords intents)"
      "it_body i = IReflect b" "existing_of sc oid = []" "l1_of sc oid = []" by (auto simp: abortable_def)
    then have read: "readOperationIntent intents k = Inr (Some i)" using record_read [OF assms(1)] by blast
    then have "k = oid" using record_id [OF read] i(1) by simp
    with read i show ?thesis by blast
  qed
  with keep show ?thesis by blast
qed

text \<open>A run that is given no claims directory, as the one \<^verbatim>\<open>observe\<close> starts before it retries, discards every
  automatic reflection that is prepared but not committed: the intent is reported as aborted and its file is
  removed, whatever claim version it has already written, because the scan sees no claim at all.\<close>

lemma recovery_without_claims_aborts:
  assumes "rx_claims ctx = None" and "distinct (map fst intents)"
    and "runRecovery env now hs ctx ops intents f = (Inr rep, ops', intents', f')"
    and "take_scan hs ctx ops f = Inr sc" and "readOperationIntent intents oid = Inr (Some i)" and "it_body i = IReflect b"
    and "existing_of sc oid = []" and "l0_of sc oid = []" and "pages_of sc oid = []"
  shows "oid \<in> set (rr_aborted rep) \<and> readOperationIntent intents' oid = Inr None"
proof -
  have id: "it_operation_id i = oid" "valid_intent i" using record_id [OF assms(5)] by simp_all
  have "l1_of sc oid = []" using assms(1,4) by (auto simp: take_scan_def l1_of_def split: sum.splits)
  then have none: "artifact_count sc oid = 0" using assms(8,9) by (simp add: artifact_count_def)
  obtain v s' where loop: "recover_loop env now hs (rx_fenced ctx) sc (readOperationIntentRecords intents)
      (start_state sc ops intents f) = (v, s')" by (metis surj_pair)
  then have rep: "rep = make_report sc s'" "v = Inr ()" "intents' = rs_intents s'"
    using assms(3,4) by (auto simp: runRecovery_def split: sum.splits)
  have mem: "(oid, Inr i) \<in> set (readOperationIntentRecords intents)" using record_read [OF assms(2)] assms(5) by blast
  show ?thesis
    using recover_loop_aborts [OF assms(6), of sc env now hs "rx_fenced ctx"] loop rep mem none assms(7) id valid_intent_id [OF id(2)]
    by (auto simp: readOperationIntent_def)
qed


section \<open>An interrupted observe and an interrupted reflection\<close>

definition demo_hs :: hashes where
  "demo_hs = \<lparr>hs_obs = (\<lambda>o1. ''h''), hs_version = (\<lambda>v. replicate 64 (CHR ''a'')), hs_page = (\<lambda>s. s), hs_text = (\<lambda>s. s)\<rparr>"

definition demo_prepared :: observation where
  "demo_prepared = (demo_obs ''obs_1'' 1 T_message (JStr ''hello''))
     \<lparr>ob_operation_id := Some ''op_00000000000000000000000009'', ob_actor_id := Some ''user:a'',
      ob_integrity := \<lparr>in_hash = ''sha256:h'', in_writer_id = ''w'', in_sequence = 1, in_previous_hash = None\<rparr>\<rparr>"

definition demo_reflect :: op_intent where
  "demo_reflect = \<lparr>it_operation_id = ''op_00000000000000000000000008'', it_actor_id = ''user:a'',
     it_payload_hash = replicate 64 (CHR ''a''), it_fence = None, it_prepared_at = ''2026-01-01'',
     it_body = IReflect \<lparr>fl_artifact = \<lparr>xa_claim_id = ''c'', xa_version = 1, xa_record_hash = replicate 64 (CHR ''a'')\<rparr>,
       fl_result_claim_id = ''c'', fl_result_version = 1, fl_details_claim_id = ''c'', fl_fingerprint = ''f''\<rparr>\<rparr>"

definition demo_reflected :: claim_version where
  "demo_reflected = (demo_version ''c'' 1 ''self'')\<lparr>cv_operation_id := ''op_00000000000000000000000008''\<rparr>"

definition demo_intents :: intents_dir where
  "demo_intents = [(''op_00000000000000000000000009'', IntentFile demo_intent),
     (''op_00000000000000000000000008'', IntentFile demo_reflect), (''notes'', GarbledFile ''x''),
     (''op_00000000000000000000000007'', IntentFile (demo_intent\<lparr>it_operation_id := ''op_00000000000000000000000007''\<rparr>))]"

definition demo_ctx :: "claims_dir option \<Rightarrow> recovery_context" where
  "demo_ctx claims = \<lparr>rx_evidence = Some [(''2026-01-01'', [Line demo_prepared])], rx_claims = claims, rx_wiki = None, rx_fenced = True\<rparr>"

definition demo_recovery ::
  "claims_dir option \<Rightarrow> ops_dir \<Rightarrow> recovery_report outcome \<times> ops_dir \<times> intents_dir \<times> fence_store" where
  "demo_recovery claims ops = runRecovery alone ''t'' demo_hs (demo_ctx claims) ops demo_intents (open_store None [] ''t0'')"

abbreviation demo_written :: "claims_dir option" where
  "demo_written \<equiv> Some [(''2026-01'', [Line demo_reflected])]"

lemma demo_intents_distinct: "distinct (map fst demo_intents)"
  by code_simp

definition demo_report :: "claims_dir option \<Rightarrow> ops_dir \<Rightarrow> recovery_report" where
  "demo_report claims ops = (case fst (demo_recovery claims ops) of Inr rep \<Rightarrow> rep | Inl _ \<Rightarrow> undefined)"

definition demo_scan :: "claims_dir option \<Rightarrow> scan" where
  "demo_scan claims = (case take_scan demo_hs (demo_ctx claims) [] (open_store None [] ''t0'') of Inr sc \<Rightarrow> sc | Inl _ \<Rightarrow> undefined)"

lemma demo_recovery_ok: "is_ok (fst (demo_recovery demo_written []))" "is_ok (fst (demo_recovery None []))"
  "is_ok (fst (demo_recovery demo_written (fst (snd (demo_recovery demo_written [])))))"
  by code_simp+

lemma demo_recovery_run:
  "is_ok (fst (demo_recovery claims ops)) \<Longrightarrow>
   runRecovery alone ''t'' demo_hs (demo_ctx claims) ops demo_intents (open_store None [] ''t0'') =
     (Inr (demo_report claims ops), fst (snd (demo_recovery claims ops)), fst (snd (snd (demo_recovery claims ops))),
      snd (snd (snd (demo_recovery claims ops))))"
  unfolding demo_report_def
  by (cases "demo_recovery claims ops"; cases "fst (demo_recovery claims ops)") (auto simp: demo_recovery_def)

lemma demo_scan_ok: "take_scan demo_hs (demo_ctx claims) [] (open_store None [] ''t0'') = Inr (demo_scan claims)"
  if "is_ok (take_scan demo_hs (demo_ctx claims) [] (open_store None [] ''t0''))"
  using that by (cases "take_scan demo_hs (demo_ctx claims) [] (open_store None [] ''t0'')") (simp_all add: demo_scan_def)

lemma demo_scans: "is_ok (take_scan demo_hs (demo_ctx demo_written) [] (open_store None [] ''t0''))"
  "is_ok (take_scan demo_hs (demo_ctx None) [] (open_store None [] ''t0''))"
  by code_simp+

theorem recovery_finalizes_only_exact_witness:
  "\<exists>fin. appended fin [] (fst (snd (demo_recovery demo_written [])))
     \<and> it_operation_id ` set fin = {''op_00000000000000000000000008'', ''op_00000000000000000000000009''}"
proof -
  have "set (rr_completed (demo_report demo_written [])) = {''op_00000000000000000000000008'', ''op_00000000000000000000000009''}"
    by code_simp
  then show ?thesis
    using recovery_finalizes_only_exact [OF rely_alone demo_intents_distinct demo_recovery_run [OF demo_recovery_ok(1)]]
    by (elim exE conjE) (metis (no_types))
qed

theorem recovery_never_commits_twice_witness:
  "set (rr_completed (demo_report demo_written [])) \<noteq> {}
   \<and> set (rr_completed (demo_report demo_written [])) \<inter>
     set (rr_completed (demo_report demo_written (fst (snd (demo_recovery demo_written []))))) = {}"
proof -
  have "set (rr_completed (demo_report demo_written [])) \<noteq> {}" by code_simp
  then show ?thesis
    using recovery_never_commits_twice [OF rely_alone rely_alone demo_intents_distinct demo_intents_distinct
        demo_recovery_run [OF demo_recovery_ok(1)] demo_recovery_run [OF demo_recovery_ok(3)]]
    by fastforce
qed

theorem recovery_completes_exact_witness:
  "''op_00000000000000000000000008'' \<in> set (rr_completed (demo_report demo_written []))"
proof (rule recovery_completes_exact [OF demo_intents_distinct demo_recovery_run [OF demo_recovery_ok(1)]
      demo_scan_ok [OF demo_scans(1)]])
  show "readOperationIntent demo_intents ''op_00000000000000000000000008'' = Inr (Some demo_reflect)" by code_simp
  show "existing_of (demo_scan demo_written) ''op_00000000000000000000000008'' = []" by code_simp
  show "exact_set demo_hs (demo_scan demo_written) demo_reflect" by code_simp
  show "0 \<le> highWater (open_store None [] ''t0'')" by code_simp
  show "staleReason (rx_fenced (demo_ctx demo_written)) (highWater (open_store None [] ''t0'')) (open_store None [] ''t0'')
    demo_reflect = None" by code_simp
qed

lemma recovery_keeps_intents_example:
  "readOperationIntent (fst (snd (snd (demo_recovery demo_written [])))) ''op_00000000000000000000000007''
   = Inr (Some (demo_intent\<lparr>it_operation_id := ''op_00000000000000000000000007''\<rparr>))"
proof -
  have "''op_00000000000000000000000007'' \<notin> set (rr_completed (demo_report demo_written []))"
    "''op_00000000000000000000000007'' \<notin> set (rr_aborted (demo_report demo_written []))"
    "existing_of (demo_scan demo_written) ''op_00000000000000000000000007'' = []" by code_simp+
  moreover have "readOperationIntent demo_intents ''op_00000000000000000000000007''
      = Inr (Some (demo_intent\<lparr>it_operation_id := ''op_00000000000000000000000007''\<rparr>))" by code_simp
  ultimately show ?thesis
    using recovery_keeps_intents [OF demo_intents_distinct demo_recovery_run [OF demo_recovery_ok(1)] demo_scan_ok [OF demo_scans(1)],
        THEN conjunct1, THEN spec, of "''op_00000000000000000000000007''"]
    by simp
qed

lemma recovery_without_claims_aborts_example:
  "exact_set demo_hs (demo_scan demo_written) demo_reflect
   \<and> ''op_00000000000000000000000008'' \<in> set (rr_aborted (demo_report None []))
   \<and> readOperationIntent (fst (snd (snd (demo_recovery None [])))) ''op_00000000000000000000000008'' = Inr None"
proof -
  have exact: "exact_set demo_hs (demo_scan demo_written) demo_reflect" by code_simp
  have "''op_00000000000000000000000008'' \<in> set (rr_aborted (demo_report None []))
   \<and> readOperationIntent (fst (snd (snd (demo_recovery None [])))) ''op_00000000000000000000000008'' = Inr None"
  proof (rule recovery_without_claims_aborts [OF _ demo_intents_distinct demo_recovery_run [OF demo_recovery_ok(2)]
        demo_scan_ok [OF demo_scans(2)]])
    show "rx_claims (demo_ctx None) = None" by (simp add: demo_ctx_def)
    show "readOperationIntent demo_intents ''op_00000000000000000000000008'' = Inr (Some demo_reflect)" by code_simp
    show "it_body demo_reflect = IReflect (case it_body demo_reflect of IReflect b \<Rightarrow> b)" by (simp add: demo_reflect_def)
    show "existing_of (demo_scan None) ''op_00000000000000000000000008'' = []"
      "l0_of (demo_scan None) ''op_00000000000000000000000008'' = []"
      "pages_of (demo_scan None) ''op_00000000000000000000000008'' = []" by code_simp+
  qed
  with exact show ?thesis by blast
qed

end
