(* ===== verification/Secrets.thy ===== *)
theory Secrets
  imports Config
begin

text \<open>
  The secret patterns of \<^verbatim>\<open>layer0/secrets.ts\<close>. Each regular expression is a term of a small syntax: the
  source repeats only character classes, so a repetition is a class with a count. \<open>lang\<close> is what an
  expression means, \<open>rests\<close> what the matcher computes: what may be left of a text after a match at its
  start. The texts are in U+0000 to U+00FF. The snippet of the report, which depends on greediness, is left out.
\<close>

section \<open>Regular expressions\<close>

datatype re =
    Lit string
  | NoCase string
  | Times nat "char \<Rightarrow> bool"
  | AtLeast nat "char \<Rightarrow> bool"
  | Seq re re
  | Alt re re

fun lang :: "re \<Rightarrow> string set" where
  "lang (Lit w) = {w}"
| "lang (NoCase w) = {x. toLowerCase x = w}"
| "lang (Times n p) = {x. length x = n \<and> list_all p x}"
| "lang (AtLeast n p) = {x. n \<le> length x \<and> list_all p x}"
| "lang (Seq a b) = {x @ y | x y. x \<in> lang a \<and> y \<in> lang b}"
| "lang (Alt a b) = lang a \<union> lang b"

fun rests :: "re \<Rightarrow> string \<Rightarrow> string list" where
  "rests (Lit w) s = (if starts_with s w then [drop (length w) s] else [])"
| "rests (NoCase w) s = (if starts_with (toLowerCase s) w then [drop (length w) s] else [])"
| "rests (Times n p) s = (if n \<le> length s \<and> list_all p (take n s) then [drop n s] else [])"
| "rests (AtLeast n p) s = map (\<lambda>k. drop k s) [n ..< Suc (length (takeWhile p s))]"
| "rests (Seq a b) s = concat (map (rests b) (rests a s))"
| "rests (Alt a b) s = rests a s @ rests b s"

text \<open>\<^verbatim>\<open>pattern.exec(text)\<close> with \<^verbatim>\<open>lastIndex\<close> 0: the leftmost index at which the pattern matches.\<close>

fun exec_from :: "re \<Rightarrow> nat \<Rightarrow> string \<Rightarrow> nat option" where
  "exec_from p i [] = (if rests p [] \<noteq> [] then Some i else None)"
| "exec_from p i (c # cs) = (if rests p (c # cs) \<noteq> [] then Some i else exec_from p (Suc i) cs)"

section \<open>The patterns\<close>

definition between :: "char \<Rightarrow> char \<Rightarrow> char \<Rightarrow> bool" where
  "between a b c = (a \<le> c \<and> c \<le> b)"

definition is_digit :: "char \<Rightarrow> bool" where
  "is_digit = between (CHR ''0'') (CHR ''9'')"

definition is_upper :: "char \<Rightarrow> bool" where
  "is_upper = between (CHR ''A'') (CHR ''Z'')"

definition is_alnum :: "char \<Rightarrow> bool" where
  "is_alnum c = (is_digit c \<or> is_upper c \<or> between (CHR ''a'') (CHR ''z'') c)"

definition alnum_or :: "string \<Rightarrow> char \<Rightarrow> bool" where
  "alnum_or extra c = (is_alnum c \<or> c \<in> set extra)"

definition one_of :: "string \<Rightarrow> re" where
  "one_of cs = Times 1 (\<lambda>c. c \<in> set cs)"

definition opt :: "re \<Rightarrow> re" where
  "opt r = Alt r (Lit [])"

fun seq :: "re list \<Rightarrow> re" where
  "seq [] = Lit []"
| "seq [r] = r"
| "seq (r # rs) = Seq r (seq rs)"

fun alts :: "re list \<Rightarrow> re" where
  "alts [] = Lit []"
| "alts [r] = r"
| "alts (r # rs) = Alt r (alts rs)"

definition spaces :: re where
  "spaces = AtLeast 0 is_js_space"

definition separator :: re where
  "separator = seq [spaces, one_of '':='', spaces]"

definition quote :: re where
  "quote = opt (one_of [CHR 39, CHR 34])"

definition secret_word :: re where
  "secret_word = seq [quote, AtLeast 16 (alnum_or ''_-''), quote]"

definition dash_word :: "string \<Rightarrow> string \<Rightarrow> re" where
  "dash_word a b = seq [NoCase a, opt (one_of ''_-''), NoCase b]"

definition PATTERNS :: "(string \<times> re) list" where
  "PATTERNS =
     [(''aws_access_key'', Seq (Lit ''AKIA'') (Times 16 (\<lambda>c. is_digit c \<or> is_upper c))),
      (''aws_secret_key'', seq [NoCase ''aws'', opt (Lit ''_''), NoCase ''secret'', opt (Lit ''_''), NoCase ''key'', separator,
         Times 40 (alnum_or ''/+'')]),
      (''github_token'', alts [Seq (Lit ''ghp_'') (Times 36 is_alnum), Seq (Lit ''gho_'') (Times 36 is_alnum),
         Seq (Lit ''ghs_'') (Times 36 is_alnum), Seq (Lit ''github_pat_'') (Times 82 (alnum_or ''_''))]),
      (''openai_key'', Seq (Lit ''sk-'') (AtLeast 32 is_alnum)),
      (''anthropic_key'', Seq (Lit ''sk-ant-'') (AtLeast 32 (alnum_or ''_-''))),
      (''stripe_key'', Alt (Seq (Lit ''sk_live_'') (AtLeast 24 is_alnum)) (Seq (Lit ''pk_live_'') (AtLeast 24 is_alnum))),
      (''bearer_token'', seq [Lit ''Bearer'', AtLeast 1 is_js_space, AtLeast 1 (alnum_or ''_-.~+/''), AtLeast 0 (\<lambda>c. c = CHR ''='')]),
      (''private_key'', seq [Lit ''-----BEGIN '', opt (alts [Lit ''RSA '', Lit ''EC '', Lit ''OPENSSH '']), Lit ''PRIVATE KEY'']),
      (''password_in_url'', seq [Lit ''http'', opt (Lit ''s''), Lit ''://'',
         AtLeast 1 (\<lambda>c. c \<noteq> CHR '':'' \<and> c \<noteq> CHR ''@'' \<and> \<not> is_js_space c), Lit '':'',
         AtLeast 1 (\<lambda>c. c \<noteq> CHR ''@'' \<and> \<not> is_js_space c), Lit ''@'']),
      (''generic_api_key'', seq [alts [dash_word ''api'' ''key'', NoCase ''apikey'', dash_word ''api'' ''secret''], separator, secret_word]),
      (''generic_token'', seq [alts [dash_word ''access'' ''token'', dash_word ''auth'' ''token'', dash_word ''secret'' ''token''],
         separator, secret_word])]"

fun first_match :: "(string \<times> re) list \<Rightarrow> string \<Rightarrow> (string \<times> nat) option" where
  "first_match [] content = None"
| "first_match ((name, p) # ps) content =
     (case exec_from p 0 content of Some i \<Rightarrow> Some (name, i) | None \<Rightarrow> first_match ps content)"

definition detectSecrets :: "string \<Rightarrow> (string \<times> nat) option" where
  "detectSecrets content = first_match PATTERNS content"

section \<open>Lemmas\<close>

lemma length_toLowerCase [simp]: "length (toLowerCase s) = length s"
  by (simp add: toLowerCase_def)

lemma toLowerCase_append [simp]: "toLowerCase (a @ b) = toLowerCase a @ toLowerCase b"
  by (simp add: toLowerCase_def)

lemma rests_AtLeast: "r \<in> set (rests (AtLeast n p) s) \<longleftrightarrow> (\<exists>w. n \<le> length w \<and> list_all p w \<and> s = w @ r)"
proof
  assume "r \<in> set (rests (AtLeast n p) s)"
  then obtain k where k: "n \<le> k" "k \<le> length (takeWhile p s)" "r = drop k s" by auto
  have "take k s = take k (takeWhile p s)" using k(2) by (metis take_append takeWhile_dropWhile_id diff_is_0_eq append_Nil2 take0)
  then have "list_all p (take k s)" by (metis (no_types, lifting) in_set_takeD list_all_iff set_takeWhileD)
  moreover have "k \<le> length s" using k(2) length_takeWhile_le [of p s] by linarith
  ultimately show "\<exists>w. n \<le> length w \<and> list_all p w \<and> s = w @ r"
    using k by (intro exI [of _ "take k s"]) simp
next
  assume "\<exists>w. n \<le> length w \<and> list_all p w \<and> s = w @ r"
  then obtain w where w: "n \<le> length w" "list_all p w" "s = w @ r" by blast
  then have "length w \<le> length (takeWhile p s)" by (simp add: takeWhile_append list_all_iff)
  then have "length w \<in> set [n ..< Suc (length (takeWhile p s))]" "r = drop (length w) s" using w by auto
  then show "r \<in> set (rests (AtLeast n p) s)" by (auto simp del: upt_Suc)
qed

lemma rests_iff: "r \<in> set (rests e s) \<longleftrightarrow> (\<exists>w \<in> lang e. s = w @ r)"
proof (induction e arbitrary: r s)
  case (Lit w)
  then show ?case by (auto simp: starts_with_iff)
next
  case (NoCase w)
  show ?case
  proof
    assume "r \<in> set (rests (NoCase w) s)"
    then have a: "take (length w) (toLowerCase s) = w" "r = drop (length w) s"
      by (auto simp: starts_with_def split: if_splits)
    then have "toLowerCase (take (length w) s) = w" by (simp add: toLowerCase_def take_map)
    then show "\<exists>x \<in> lang (NoCase w). s = x @ r" using a(2) by (intro bexI [of _ "take (length w) s"]) simp_all
  next
    assume "\<exists>x \<in> lang (NoCase w). s = x @ r"
    then obtain x where x: "toLowerCase x = w" "s = x @ r" by auto
    then have "length w = length x" by auto
    then show "r \<in> set (rests (NoCase w) s)" using x by (simp add: starts_with_def)
  qed
next
  case (Times n p)
  show ?case
  proof
    assume "r \<in> set (rests (Times n p) s)"
    then show "\<exists>w \<in> lang (Times n p). s = w @ r"
      by (intro bexI [of _ "take n s"]) (auto split: if_splits)
  qed auto
next
  case (AtLeast n p)
  show ?case using rests_AtLeast [of r n p s] by auto
next
  case (Seq a b)
  show ?case
  proof
    assume "r \<in> set (rests (Seq a b) s)"
    then obtain m where "m \<in> set (rests a s)" "r \<in> set (rests b m)" by auto
    then obtain u v where "u \<in> lang a" "s = u @ m" "v \<in> lang b" "m = v @ r" using Seq.IH by blast
    then show "\<exists>w \<in> lang (Seq a b). s = w @ r" by force
  next
    assume "\<exists>w \<in> lang (Seq a b). s = w @ r"
    then obtain u v where uv: "u \<in> lang a" "v \<in> lang b" "s = u @ v @ r" by auto
    then have "v @ r \<in> set (rests a s)" "r \<in> set (rests b (v @ r))" using Seq.IH by blast+
    then show "r \<in> set (rests (Seq a b) s)" by auto
  qed
next
  case (Alt a b)
  then show ?case by auto
qed

definition matches_at :: "re \<Rightarrow> string \<Rightarrow> nat \<Rightarrow> bool" where
  "matches_at p s i = (i \<le> length s \<and> (\<exists>w v. w \<in> lang p \<and> drop i s = w @ v))"

lemma rests_nonempty: "rests p s \<noteq> [] \<longleftrightarrow> matches_at p s 0"
  using rests_iff [of _ p s] by (auto simp: matches_at_def) (metis list.set_intros(1) list.exhaust)+

lemma matches_at_Suc: "matches_at p (c # cs) (Suc i) = matches_at p cs i"
  by (simp add: matches_at_def)

lemma exec_from_None: "exec_from p n s = None \<longleftrightarrow> (\<forall>i. \<not> matches_at p s i)"
proof (induction p n s rule: exec_from.induct)
  case (1 p i)
  then show ?case by (auto simp: rests_nonempty) (auto simp: matches_at_def)
next
  case (2 p i c cs)
  have "(\<forall>j. \<not> matches_at p (c # cs) j) \<longleftrightarrow> \<not> matches_at p (c # cs) 0 \<and> (\<forall>j. \<not> matches_at p cs j)"
    by (metis matches_at_Suc not0_implies_Suc)
  then show ?case using 2 by (auto simp: rests_nonempty)
qed

lemma exec_from_Some:
  "exec_from p n s = Some k \<Longrightarrow> n \<le> k \<and> matches_at p s (k - n) \<and> (\<forall>j. j < k - n \<longrightarrow> \<not> matches_at p s j)"
proof (induction p n s rule: exec_from.induct)
  case (1 p i)
  then show ?case by (auto simp: rests_nonempty split: if_splits)
next
  case (2 p i c cs)
  show ?case
  proof (cases "matches_at p (c # cs) 0")
    case True
    then show ?thesis using 2(2) by (auto simp: rests_nonempty split: if_splits)
  next
    case False
    then have "exec_from p (Suc i) cs = Some k" using 2(2) by (auto simp: rests_nonempty)
    then have ih: "Suc i \<le> k" "matches_at p cs (k - Suc i)" "\<forall>j. j < k - Suc i \<longrightarrow> \<not> matches_at p cs j"
      using 2(1) False by (auto simp: rests_nonempty)
    then have "k - i = Suc (k - Suc i)" by simp
    moreover have "\<not> matches_at p (c # cs) j" if "j < Suc (k - Suc i)" for j
      using that ih(3) False by (cases j) (simp_all add: matches_at_Suc)
    ultimately show ?thesis using ih(1,2) by (simp add: matches_at_Suc)
  qed
qed

lemma first_match_None: "first_match ps s = None \<longleftrightarrow> (\<forall>(n, p) \<in> set ps. \<forall>i. \<not> matches_at p s i)"
proof (induction ps s rule: first_match.induct)
  case (2 name p ps content)
  show ?case
  proof (cases "exec_from p 0 content")
    case None
    then show ?thesis using 2 exec_from_None [of p 0 content] by simp
  next
    case (Some i)
    then show ?thesis using exec_from_Some [OF Some] by auto
  qed
qed simp

lemma first_match_Some:
  "first_match ps s = Some (name, i) \<Longrightarrow>
   \<exists>p. (name, p) \<in> set ps \<and> matches_at p s i \<and> (\<forall>j < i. \<not> matches_at p s j)"
proof (induction ps s rule: first_match.induct)
  case (2 nm p ps content)
  show ?case
  proof (cases "exec_from p 0 content")
    case None
    then show ?thesis using 2 by auto
  next
    case (Some k)
    then show ?thesis using 2(2) exec_from_Some [OF Some] by auto
  qed
qed simp

lemma matches_at_iff: "(\<exists>i. matches_at p s i) \<longleftrightarrow> (\<exists>u w v. s = u @ w @ v \<and> w \<in> lang p)"
proof
  assume "\<exists>i. matches_at p s i"
  then obtain i w v where "w \<in> lang p" "drop i s = w @ v" by (auto simp: matches_at_def)
  then show "\<exists>u w v. s = u @ w @ v \<and> w \<in> lang p" by (metis append_take_drop_id)
next
  assume "\<exists>u w v. s = u @ w @ v \<and> w \<in> lang p"
  then obtain u w v where "s = u @ w @ v" "w \<in> lang p" by blast
  then have "matches_at p s (length u)" by (auto simp: matches_at_def)
  then show "\<exists>i. matches_at p s i" ..
qed

section \<open>Properties\<close>

text \<open>Secret detection is exact. A text is accepted if and only if no part of it is in the language of one of
  the eleven patterns, and when it is refused, the report names a pattern that matches at the reported index
  and at no index before it.\<close>

lemma detectSecrets_exact:
  "(detectSecrets content = None \<longleftrightarrow>
      (\<forall>(name, p) \<in> set PATTERNS. \<forall>u w v. content = u @ w @ v \<longrightarrow> w \<notin> lang p))
   \<and> (\<forall>name i. detectSecrets content = Some (name, i) \<longrightarrow>
      (\<exists>p. (name, p) \<in> set PATTERNS \<and> matches_at p content i \<and> (\<forall>j < i. \<not> matches_at p content j)))"
proof (intro conjI allI impI)
  have "(\<forall>i. \<not> matches_at p content i) \<longleftrightarrow> (\<forall>u w v. content = u @ w @ v \<longrightarrow> w \<notin> lang p)" for p
    using matches_at_iff [of p content] by blast
  then show "detectSecrets content = None \<longleftrightarrow>
      (\<forall>(name, p) \<in> set PATTERNS. \<forall>u w v. content = u @ w @ v \<longrightarrow> w \<notin> lang p)"
    by (simp add: detectSecrets_def first_match_None)
qed (auto simp: detectSecrets_def dest: first_match_Some)

lemma detectSecrets_exact_example:
  "\<exists>p. (''aws_access_key'', p) \<in> set PATTERNS \<and> matches_at p ''id=AKIA0123456789ABCDEF'' 3
     \<and> (\<forall>j < 3. \<not> matches_at p ''id=AKIA0123456789ABCDEF'' j)"
proof -
  have "detectSecrets ''id=AKIA0123456789ABCDEF'' = Some (''aws_access_key'', 3)" by code_simp
  then show ?thesis using detectSecrets_exact [where content = "''id=AKIA0123456789ABCDEF''"] by blast
qed

end
