(* ===== verification/Sources.thy ===== *)
theory Sources
  imports Auth
begin

text \<open>
  The registry of provenance sources (\<^verbatim>\<open>ingestion/sources.ts\<close>), part of the configuration: owner-only
  registration, and the fail-closed check that every write under a source passes.
\<close>

definition is_source_start :: "char \<Rightarrow> bool" where
  "is_source_start c = ((CHR ''A'' \<le> c \<and> c \<le> CHR ''Z'') \<or> (CHR ''a'' \<le> c \<and> c \<le> CHR ''z'') \<or> (CHR ''0'' \<le> c \<and> c \<le> CHR ''9''))"

definition SOURCE_ID_PATTERN :: "string \<Rightarrow> bool" where
  "SOURCE_ID_PATTERN s =
     (case s of [] \<Rightarrow> False
      | c # cs \<Rightarrow> is_source_start c \<and> length cs \<le> 127 \<and> list_all (\<lambda>x. is_source_start x \<or> x \<in> set ''._:-'') cs)"

record register_source_params =
  rp_actor :: string
  rp_id :: string
  rp_kind :: source_kind
  rp_display_name :: string
  rp_status :: "source_status option"
  rp_actor_ids :: "string list option"
  rp_external_ref :: "string option option"

definition listSourceEntries :: "smartware_config \<Rightarrow> source_entry list" where
  "listSourceEntries config = (case cfg_sources config of None \<Rightarrow> [] | Some xs \<Rightarrow> xs)"

definition getSourceEntry :: "smartware_config \<Rightarrow> string \<Rightarrow> source_entry option" where
  "getSourceEntry config sid = lookup_by src_id sid (listSourceEntries config)"

text \<open>\<^verbatim>\<open>Object.assign(existing, entry)\<close>: a property the entry does not have keeps its old value.\<close>

definition assign_source :: "source_entry \<Rightarrow> source_entry \<Rightarrow> source_entry" where
  "assign_source entry existing =
     entry\<lparr>src_actor_ids := (case src_actor_ids entry of None \<Rightarrow> src_actor_ids existing | Some a \<Rightarrow> Some a),
           src_external_ref := (case src_external_ref entry of None \<Rightarrow> src_external_ref existing | Some x \<Rightarrow> Some x)\<rparr>"

fun assign_first :: "source_entry \<Rightarrow> source_entry list \<Rightarrow> source_entry list" where
  "assign_first entry [] = []"
| "assign_first entry (x # xs) =
     (if src_id x = src_id entry then assign_source entry x # xs else x # assign_first entry xs)"

definition registerSourceEntry ::
  "string \<Rightarrow> register_source_params \<Rightarrow> smartware_config \<Rightarrow> source_entry outcome \<times> smartware_config" where
  "registerSourceEntry now p config =
     (case requireOwner (rp_actor p) config of
        Inl x \<Rightarrow> (Inl x, config)
      | Inr _ \<Rightarrow>
          if \<not> SOURCE_ID_PATTERN (rp_id p) then (Inl (ProtocolError ''invalid_parameter'' NoDetails), config)
          else if rp_display_name p = [] then (Inl (ProtocolError ''invalid_parameter'' NoDetails), config)
          else if (case rp_actor_ids p of None \<Rightarrow> False | Some ids \<Rightarrow> [] \<in> set ids)
            then (Inl (ProtocolError ''invalid_parameter'' NoDetails), config)
          else
            (let sources = listSourceEntries config; existing = lookup_by src_id (rp_id p) sources;
                 entry = \<lparr>src_id = rp_id p, src_kind = rp_kind p, src_display_name = rp_display_name p,
                   src_status = (case rp_status p of None \<Rightarrow> SActive | Some s \<Rightarrow> s),
                   src_created_at = (case existing of None \<Rightarrow> now | Some x \<Rightarrow> src_created_at x),
                   src_actor_ids = rp_actor_ids p, src_external_ref = rp_external_ref p\<rparr>
             in case existing of
                  None \<Rightarrow> (Inr entry, config\<lparr>cfg_sources := Some (sources @ [entry])\<rparr>)
                | Some x \<Rightarrow> (Inr (assign_source entry x), config\<lparr>cfg_sources := Some (assign_first entry sources)\<rparr>)))"

definition requireActiveSource :: "smartware_config \<Rightarrow> string \<Rightarrow> string \<Rightarrow> source_entry outcome" where
  "requireActiveSource config sourceRef actorId =
     (case getSourceEntry config sourceRef of
        None \<Rightarrow> Inl (ProtocolError ''source_unregistered'' NoDetails)
      | Some entry \<Rightarrow>
          if src_status entry \<noteq> SActive then Inl (ProtocolError ''source_inactive'' NoDetails)
          else if (case src_actor_ids entry of None \<Rightarrow> False | Some ids \<Rightarrow> ids \<noteq> [] \<and> actorId \<notin> set ids)
            then Inl (ProtocolError ''insufficient_permission'' NoDetails)
          else Inr entry)"

section \<open>Lemmas\<close>

definition may_write_under :: "smartware_config \<Rightarrow> string \<Rightarrow> string \<Rightarrow> bool" where
  "may_write_under config ref actorId =
     (\<exists>e. getSourceEntry config ref = Some e \<and> src_status e = SActive
        \<and> (case src_actor_ids e of None \<Rightarrow> True | Some ids \<Rightarrow> ids = [] \<or> actorId \<in> set ids))"

lemma requireActiveSource_ok: "is_ok (requireActiveSource config ref a) \<longleftrightarrow> may_write_under config ref a"
  by (auto simp: requireActiveSource_def may_write_under_def split: option.splits)

lemma requireActiveSource_id: "requireActiveSource config ref a = Inr e \<Longrightarrow> src_id e = ref"
  by (auto simp: requireActiveSource_def getSourceEntry_def split: option.splits if_splits dest: lookup_by_SomeD)

lemma assign_source_simps [simp]:
  "src_id (assign_source entry x) = src_id entry" "src_created_at (assign_source entry x) = src_created_at entry"
  by (simp_all add: assign_source_def)

lemma lookup_assign_first:
  "lookup_by src_id k (assign_first entry xs) =
     (if k = src_id entry then map_option (assign_source entry) (lookup_by src_id k xs) else lookup_by src_id k xs)"
  by (induction xs) auto

text \<open>A registered entry is the one later writes are checked against; no other entry changes, and only
  the owner can do it.\<close>

lemma register_then_get:
  assumes "registerSourceEntry now p config = (Inr e, config')"
  shows "isOwner (rp_actor p) config \<and> getSourceEntry config' (rp_id p) = Some e
    \<and> (\<forall>k. k \<noteq> rp_id p \<longrightarrow> getSourceEntry config' k = getSourceEntry config k)
    \<and> (\<forall>old. getSourceEntry config (rp_id p) = Some old \<longrightarrow> src_created_at e = src_created_at old)"
  using assms
  by (auto simp: registerSourceEntry_def requireOwner_def getSourceEntry_def listSourceEntries_def lookup_assign_first
      Let_def split: if_splits option.splits)

end
