(* ===== verification/Observe.thy ===== *)
theory Observe
  imports Sources Secrets Sessions Recovery
begin

text \<open>
  The OBSERVE handler (\<^verbatim>\<open>protocol/observe.ts\<close>): session resolution, validation, authorization, the prepared
  operation and its replay, deduplication, and the write of the observation with its intent and its commit
  signal. The world is what the handler reads and writes on disk; \<open>observe_env\<close> holds the clock, the two
  SHA-256 digests, \<^verbatim>\<open>JSON.stringify\<close>, \<^verbatim>\<open>Number\<close> of a string (rounded up, \<open>None\<close> for NaN) and what other
  processes may do to the fencing store during a recovery.
\<close>

section \<open>Parameters and world\<close>

definition SMARTWARE_VERSION :: string where
  "SMARTWARE_VERSION = ''0.8.0''"

text \<open>In \<open>op_retention_duration\<close> the outer \<open>None\<close> is undefined and \<open>Some None\<close> is null.\<close>

record observe_params =
  op_actor :: actor
  op_type :: obs_type
  op_content :: "obs_content option"
  op_scope :: string
  op_visibility :: "visibility option"
  op_source_id :: "string option"
  op_source_ref :: "string option"
  op_app :: "string option"
  op_app_version :: "string option"
  op_observed_at :: "string option"
  op_parent_ids :: "string list option"
  op_informed_by :: "string list option"
  op_sensitive :: "bool option"
  op_pii_detected :: "bool option"
  op_retention :: "retention_policy option"
  op_retention_duration :: "string option option"
  op_claims :: "json list option"
  op_idempotency_key :: "string option"
  op_session_id :: "string option"
  op_operation_id :: "string option"

datatype observe_status = RAccepted | RQuarantined | RDuplicate

record observe_result =
  os_id :: string
  os_status :: observe_status
  os_existing_id :: "string option"
  os_sequence :: int

text \<open>What \<^verbatim>\<open>computePayloadHash\<close> is given. Its claims are always the empty list when it is reached.\<close>

record observe_payload =
  pl_actor_id :: string
  pl_type :: obs_type
  pl_scope :: string
  pl_visibility :: visibility
  pl_source_id :: "string option"
  pl_app :: string
  pl_app_version :: string
  pl_observed_at :: "string option"
  pl_parent_ids :: "string list"
  pl_informed_by :: "string list"
  pl_sensitive :: bool
  pl_pii_detected :: bool
  pl_retention :: retention_policy
  pl_idempotency_key :: "string option"
  pl_content :: "obs_content option"
  pl_source_ref :: "string option"
  pl_retention_duration :: "string option"

record observe_env =
  ev_now :: int
  ev_now_iso :: string
  ev_hash :: "observe_payload \<Rightarrow> string"
  ev_hs :: hashes
  ev_stringify :: "json \<Rightarrow> string"
  ev_number :: "string \<Rightarrow> int option"
  ev_others :: "fence_store \<Rightarrow> fence_store"

record observe_world =
  ow_evidence :: evidence_dir
  ow_index :: layer0_index
  ow_sessions :: "session_store option"
  ow_ops :: "ops_dir option"
  ow_intents :: intents_dir
  ow_fence :: fence_store

definition truthy :: "string option \<Rightarrow> string option" where
  "truthy s = (case s of None \<Rightarrow> None | Some x \<Rightarrow> if x = [] then None else Some x)"

definition or_else :: "'a option \<Rightarrow> 'a \<Rightarrow> 'a" where
  "or_else x d = (case x of None \<Rightarrow> d | Some v \<Rightarrow> v)"

definition observePayload :: "observe_params \<Rightarrow> retention_policy \<Rightarrow> string option \<Rightarrow> observe_payload" where
  "observePayload p retention duration =
     \<lparr>pl_actor_id = ac_id (op_actor p), pl_type = op_type p, pl_scope = op_scope p,
      pl_visibility = or_else (op_visibility p) VScope, pl_source_id = op_source_id p,
      pl_app = or_else (op_app p) ''mcp-client'', pl_app_version = or_else (op_app_version p) SMARTWARE_VERSION,
      pl_observed_at = op_observed_at p, pl_parent_ids = or_else (op_parent_ids p) [],
      pl_informed_by = or_else (op_informed_by p) [], pl_sensitive = or_else (op_sensitive p) False,
      pl_pii_detected = or_else (op_pii_detected p) False, pl_retention = retention,
      pl_idempotency_key = op_idempotency_key p, pl_content = op_content p, pl_source_ref = op_source_ref p,
      pl_retention_duration = duration\<rparr>"

section \<open>Session and validation\<close>

definition resolve_session :: "int \<Rightarrow> observe_params \<Rightarrow> observe_world \<Rightarrow> observe_params outcome \<times> observe_world" where
  "resolve_session now p w =
     (case (truthy (op_session_id p), ow_sessions w) of
        (Some sid, Some st) \<Rightarrow>
          (case resolveActorFromSession now (Some sid) st of
             (Inl x, st') \<Rightarrow> (Inl x, w\<lparr>ow_sessions := Some st'\<rparr>)
           | (Inr None, st') \<Rightarrow> (Inr p, w\<lparr>ow_sessions := Some st'\<rparr>)
           | (Inr (Some rv), st') \<Rightarrow>
               (let w1 = w\<lparr>ow_sessions := Some st'\<rparr>; p1 = p\<lparr>op_actor := (op_actor p)\<lparr>ac_id := rv_actor_id rv\<rparr>\<rparr> in
                if ep_write_mode (rv_policy rv) = WOff then (Inl (ProtocolError ''write_disabled'' NoDetails), w1)
                else case requireSessionCapability rv OpObserve (op_scope p) of
                  Inl x \<Rightarrow> (Inl x, w1) | Inr _ \<Rightarrow> (Inr p1, w1)))
      | _ \<Rightarrow> (Inr p, w))"

definition falsy :: "json \<Rightarrow> bool" where
  "falsy j = (j = JNull \<or> j = JBool False \<or> j = JNum 0 \<or> j = JStr [])"

text \<open>\<^verbatim>\<open>String(v)\<close> and \<^verbatim>\<open>Number(v)\<close> on the value of a body property.\<close>

definition int_to_string :: "int \<Rightarrow> string" where
  "int_to_string n = (if n < 0 then ''-'' @ nat_to_string (nat (- n)) else nat_to_string (nat n))"

fun join_comma :: "string list \<Rightarrow> string" where
  "join_comma [] = []"
| "join_comma [x] = x"
| "join_comma (x # xs) = x @ '','' @ join_comma xs"

fun js_String :: "json \<Rightarrow> string" where
  "js_String JNull = ''null''"
| "js_String (JBool b) = (if b then ''true'' else ''false'')"
| "js_String (JNum n) = int_to_string n"
| "js_String (JStr s) = s"
| "js_String (JArr xs) = join_comma (map (\<lambda>x. if x = JNull then [] else js_String x) xs)"
| "js_String (JObj ps) = ''[object Object]''"

definition js_Number :: "(string \<Rightarrow> int option) \<Rightarrow> json \<Rightarrow> int option" where
  "js_Number num j =
     (case j of JNull \<Rightarrow> Some 0 | JBool b \<Rightarrow> Some (if b then 1 else 0) | JNum n \<Rightarrow> Some n
      | JStr s \<Rightarrow> num s | JArr xs \<Rightarrow> num (js_String j) | JObj ps \<Rightarrow> None)"

definition attachment_ok :: "observe_env \<Rightarrow> observe_params \<Rightarrow> obs_content \<Rightarrow> bool" where
  "attachment_ok env p c =
     (if op_type p = T_file \<or> co_format c = ''application/octet-stream'' then
        checkAttachmentSafety
          (case body_get (co_body c) ''filename'' of Some v \<Rightarrow> js_String v | None \<Rightarrow> ''unknown'')
          (case body_get (co_body c) ''size'' of Some v \<Rightarrow> js_Number (ev_number env) v | None \<Rightarrow> Some 0)
      else True)"

definition body_text :: "observe_env \<Rightarrow> obs_content \<Rightarrow> string" where
  "body_text env c = (case co_body c of JStr s \<Rightarrow> s | j \<Rightarrow> ev_stringify env j)"

definition validate :: "observe_env \<Rightarrow> smartware_config \<Rightarrow> observe_params \<Rightarrow> unit outcome" where
  "validate env config p =
     (if op_claims p \<notin> {None, Some []} then Inl (ProtocolError ''invalid_parameter'' NoDetails)
      else case op_content p of
        None \<Rightarrow> Inl (ProtocolError ''invalid_content'' NoDetails)
      | Some c \<Rightarrow>
          if falsy (co_body c) then Inl (ProtocolError ''invalid_content'' NoDetails)
          else if op_scope p = [] then Inl (ProtocolError ''invalid_scope'' NoDetails)
          else if \<not> attachment_ok env p c then Inl (ProtocolError ''attachment_rejected'' NoDetails)
          else if detectSecrets (body_text env c) \<noteq> None then Inl (ProtocolError ''secret_detected'' NoDetails)
          else case requireGrant (ev_now env) (ac_id (op_actor p)) OpObserve (op_scope p) config of
            Inl x \<Rightarrow> Inl x
          | Inr _ \<Rightarrow>
              (case truthy (op_source_ref p) of
                 None \<Rightarrow> Inr ()
               | Some ref \<Rightarrow> (case requireActiveSource config ref (ac_id (op_actor p)) of Inl x \<Rightarrow> Inl x | Inr _ \<Rightarrow> Inr ())))"

section \<open>The prepared operation and its replay\<close>

definition operationActorId :: "string \<Rightarrow> string" where
  "operationActorId a =
     (if starts_with a ''user:'' \<or> starts_with a ''agent:'' \<or> starts_with a ''sidecar:'' \<or> starts_with a ''substrate:''
      then a else ''agent:'' @ a)"

definition replayable :: "op_entry \<Rightarrow> observe_result option" where
  "replayable e =
     (case (entry_detail e ''observation_id'', entry_detail e ''status'', entry_detail e ''sequence'') of
        (Some (JStr i), Some (JStr st), Some (JNum n)) \<Rightarrow>
          if st = ''accepted'' then Some \<lparr>os_id = i, os_status = RAccepted, os_existing_id = None, os_sequence = n\<rparr>
          else if st = ''quarantined'' then Some \<lparr>os_id = i, os_status = RQuarantined, os_existing_id = None, os_sequence = n\<rparr>
          else None
      | _ \<Rightarrow> None)"

definition committedResult :: "string \<Rightarrow> string \<Rightarrow> string \<Rightarrow> ops_dir \<Rightarrow> observe_result option outcome" where
  "committedResult oid actorId payloadHash ops =
     (case readAllOpLogEntries ops of
        Inl x \<Rightarrow> Inl x
      | Inr all \<Rightarrow>
          (let entries = filter (\<lambda>e. oe_operation_id e = oid) all in
           if entries = [] then Inr None
           else case List.find (\<lambda>e. oe_op e = ''observe'' \<and> oe_actor_id e = actorId
                       \<and> entry_detail e ''payload_hash'' = Some (JStr payloadHash)) entries of
             None \<Rightarrow> Inl (ProtocolError ''conflict'' NoDetails)
           | Some e \<Rightarrow> (case replayable e of
                          None \<Rightarrow> Inl (ProtocolError ''conflict'' NoDetails) | Some r \<Rightarrow> Inr (Some r))))"

text \<open>The outcome of the replay stage: a result to return, or \<open>None\<close> to go on.\<close>

definition replay_stage ::
  "observe_env \<Rightarrow> mutation_fence option \<Rightarrow> string \<Rightarrow> string \<Rightarrow> string \<Rightarrow> ops_dir \<Rightarrow> observe_world
     \<Rightarrow> observe_result option outcome \<times> observe_world" where
  "replay_stage env fence oid actorId payloadHash ops w =
     (case committedResult oid actorId payloadHash ops of
        Inl x \<Rightarrow> (Inl x, w)
      | Inr (Some r) \<Rightarrow> (Inr (Some r), w)
      | Inr None \<Rightarrow>
          (case readOperationIntent (ow_intents w) oid of
             Inl x \<Rightarrow> (Inl x, w)
           | Inr None \<Rightarrow> (Inr None, w)
           | Inr (Some i) \<Rightarrow>
               if intent_op i \<noteq> ''observe'' \<or> it_actor_id i \<noteq> actorId \<or> it_payload_hash i \<noteq> payloadHash
               then (Inl (ProtocolError ''conflict'' NoDetails), w)
               else
                 (case runRecovery (ev_others env) (ev_now_iso env) (ev_hs env)
                         \<lparr>rx_evidence = Some (ow_evidence w), rx_claims = None, rx_wiki = None, rx_fenced = (fence \<noteq> None)\<rparr>
                         ops (ow_intents w) (ow_fence w) of
                    (rep, ops', intents', f') \<Rightarrow>
                      (let w1 = w\<lparr>ow_ops := Some ops', ow_intents := intents', ow_fence := f'\<rparr> in
                       case rep of
                         Inl x \<Rightarrow> (Inl x, w1)
                       | Inr _ \<Rightarrow>
                           (case committedResult oid actorId payloadHash ops' of
                              Inl x \<Rightarrow> (Inl x, w1)
                            | Inr (Some r) \<Rightarrow> (Inr (Some r), w1)
                            | Inr None \<Rightarrow>
                                (case readAll (ow_evidence w) of
                                   Inl x \<Rightarrow> (Inl x, w1)
                                 | Inr obs \<Rightarrow>
                                     if list_ex (\<lambda>o1. ob_operation_id o1 = Some oid) obs
                                     then (Inl (ProtocolError ''conflict'' NoDetails), w1) else (Inr None, w1)))))))"

section \<open>Deduplication\<close>

definition duplicate_of :: "string \<Rightarrow> int \<Rightarrow> observe_result" where
  "duplicate_of oid n = \<lparr>os_id = oid, os_status = RDuplicate, os_existing_id = Some oid, os_sequence = n\<rparr>"

definition dedup_stage :: "observe_params \<Rightarrow> string \<Rightarrow> layer0_index \<Rightarrow> observe_result option outcome" where
  "dedup_stage p payloadHash idx =
     (case checkIdempotency idx (ac_id (op_actor p)) (op_idempotency_key p) payloadHash of
        IDuplicate oid \<Rightarrow> Inr (Some (duplicate_of oid 0))
      | IConflict oid \<Rightarrow> Inl (ProtocolError ''idempotency_conflict'' NoDetails)
      | INone \<Rightarrow>
          (case (if truthy (op_idempotency_key p) = None
                 then checkLegacySourceDedup idx (or_else (op_app p) ''mcp-client'') (op_source_id p) (op_scope p) else None) of
             Some oid \<Rightarrow> Inr (Some (duplicate_of oid 0))
           | None \<Rightarrow>
               (case lookup_by r_id (''obs_'' @ payloadHash) (l0_rows idx) of
                  Some r \<Rightarrow> Inr (Some (duplicate_of (''obs_'' @ payloadHash) (int (r_sequence r))))
                | None \<Rightarrow> Inr None)))"

section \<open>The write\<close>

definition quarantined :: "int \<Rightarrow> observe_params \<Rightarrow> smartware_config \<Rightarrow> bool" where
  "quarantined now p config =
     (if isOwner (ac_id (op_actor p)) config then False
      else quarantineForGrants (getAuthorizingGrants now (ac_id (op_actor p)) OpObserve (op_scope p) config))"

definition resolved_retention :: "observe_params \<Rightarrow> smartware_config \<Rightarrow> retention_policy \<times> string option" where
  "resolved_retention p config =
     (let setting = resolveRetention config (op_scope p); retention = or_else (op_retention p) (rs_policy setting) in
      (retention, case op_retention_duration p of Some d \<Rightarrow> d
                  | None \<Rightarrow> if retention = Duration then toRetentionDurationString setting else None))"

definition new_observation ::
  "observe_env \<Rightarrow> smartware_config \<Rightarrow> observe_params \<Rightarrow> string option \<Rightarrow> string \<Rightarrow> obs_content \<Rightarrow> layer0_index \<Rightarrow> observation" where
  "new_observation env config p oid payloadHash c idx =
     (let seq = getLastSequence idx + 1; prevHash = getLatestHashForWriter (writer_id config) idx;
          (retention, duration) = resolved_retention p config;
          obs = \<lparr>ob_id = ''obs_'' @ payloadHash, ob_operation_id = oid,
            ob_actor_id = map_option (\<lambda>_. operationActorId (ac_id (op_actor p))) oid,
            ob_type = op_type p, ob_status = (if quarantined (ev_now env) p config then OQuarantined else OAccepted),
            ob_app = or_else (op_app p) ''mcp-client'', ob_app_version = or_else (op_app_version p) SMARTWARE_VERSION,
            ob_source_id = op_source_id p, ob_source_ref = truthy (op_source_ref p), ob_actor = op_actor p,
            ob_captured_at = ev_now_iso env, ob_observed_at = or_else (op_observed_at p) (ev_now_iso env),
            ob_scope = op_scope p, ob_visibility = or_else (op_visibility p) VScope, ob_content = c, ob_claims = op_claims p,
            ob_parent_ids = or_else (op_parent_ids p) [], ob_informed_by = or_else (op_informed_by p) [],
            ob_idempotency = map_option (\<lambda>k. \<lparr>id_actor_id = ac_id (op_actor p), id_key = k, id_payload_hash = payloadHash\<rparr>)
              (truthy (op_idempotency_key p)),
            ob_policy = \<lparr>po_retention = retention, po_retention_duration = duration,
              po_sensitive = or_else (op_sensitive p) False, po_pii_detected = or_else (op_pii_detected p) False\<rparr>,
            ob_integrity = \<lparr>in_hash = [], in_writer_id = writer_id config, in_sequence = seq, in_previous_hash = prevHash\<rparr>\<rparr>
      in assignIntegrity (hs_obs (ev_hs env)) obs (writer_id config) seq prevHash)"

definition observe_intent ::
  "observe_env \<Rightarrow> mutation_fence option \<Rightarrow> observe_params \<Rightarrow> string \<Rightarrow> string \<Rightarrow> observation \<Rightarrow> op_intent" where
  "observe_intent env fence p oid payloadHash obs =
     \<lparr>it_operation_id = oid, it_actor_id = operationActorId (ac_id (op_actor p)), it_payload_hash = payloadHash,
      it_fence = Option.bind fence mf_stamp, it_prepared_at = ev_now_iso env,
      it_body = IObserve \<lparr>ob_audit = \<lparr>au_observation_id = ob_id obs, au_observation_hash = ob_hash obs, au_sequence = ob_sequence obs\<rparr>,
        ob_result_id = ob_id obs, ob_result_status = ob_status obs, ob_result_sequence = ob_sequence obs,
        ob_details_scope = op_scope p, ob_details_source = or_else (op_app p) ''mcp-client''\<rparr>\<rparr>"

definition observe_commit_entry :: "observe_env \<Rightarrow> observe_params \<Rightarrow> string \<Rightarrow> string \<Rightarrow> observation \<Rightarrow> op_entry" where
  "observe_commit_entry env p oid payloadHash obs =
     \<lparr>oe_operation_id = oid, oe_actor_id = operationActorId (ac_id (op_actor p)), oe_timestamp = ev_now_iso env,
      oe_op = ''observe'', oe_details = Some [(''payload_hash'', JStr payloadHash), (''observation_id'', JStr (ob_id obs)),
        (''scope'', JStr (op_scope p)), (''source'', JStr (or_else (op_app p) ''mcp-client'')),
        (''status'', JStr (status_name (ob_status obs))), (''sequence'', JNum (int (ob_sequence obs)))]\<rparr>"

definition observed :: "observation \<Rightarrow> observe_result" where
  "observed obs = \<lparr>os_id = ob_id obs, os_status = (case ob_status obs of OAccepted \<Rightarrow> RAccepted | OQuarantined \<Rightarrow> RQuarantined),
     os_existing_id = None, os_sequence = int (ob_sequence obs)\<rparr>"

definition store_observation :: "string \<Rightarrow> observation \<Rightarrow> observe_world \<Rightarrow> observe_world" where
  "store_observation now obs w =
     w\<lparr>ow_evidence := appendObservation now obs (ow_evidence w), ow_index := insertOrSkip obs (ow_index w)\<rparr>"

definition commit_operation ::
  "observe_env \<Rightarrow> mutation_fence option \<Rightarrow> observe_params \<Rightarrow> string \<Rightarrow> string \<Rightarrow> ops_dir \<Rightarrow> observation \<Rightarrow> observe_world
     \<Rightarrow> observe_result outcome \<times> observe_world" where
  "commit_operation env fence p oid payloadHash ops obs w =
     (case persistOperationIntent (observe_intent env fence p oid payloadHash obs) True (ow_intents w) of
        (Inl x, is) \<Rightarrow> (Inl x, w\<lparr>ow_intents := is\<rparr>)
      | (Inr _, is) \<Rightarrow>
          (let w1 = store_observation (ev_now_iso env) obs (w\<lparr>ow_intents := is\<rparr>) in
           case appendCommittedOpLogEntries (ev_now_iso env) [observe_commit_entry env p oid payloadHash obs] fence
                  \<lparr>cw_ops = ops, cw_fence = ow_fence w1\<rparr> of
             (Inl x, cw) \<Rightarrow> (Inl x, w1\<lparr>ow_ops := Some (cw_ops cw), ow_fence := cw_fence cw\<rparr>)
           | (Inr _, cw) \<Rightarrow>
               (Inr (observed obs), w1\<lparr>ow_ops := Some (cw_ops cw), ow_fence := cw_fence cw,
                  ow_intents := snd (removeOperationIntent oid (ow_intents w1))\<rparr>)))"

definition write_stage ::
  "observe_env \<Rightarrow> smartware_config \<Rightarrow> mutation_fence option \<Rightarrow> observe_params \<Rightarrow> string option \<Rightarrow> string \<Rightarrow> observe_world
     \<Rightarrow> observe_result outcome \<times> observe_world" where
  "write_stage env config fence p oid payloadHash w =
     (case dedup_stage p payloadHash (ow_index w) of
        Inl x \<Rightarrow> (Inl x, w)
      | Inr (Some r) \<Rightarrow> (Inr r, w)
      | Inr None \<Rightarrow>
          (case op_content p of
             None \<Rightarrow> (Inl (ProtocolError ''invalid_content'' NoDetails), w)
           | Some c \<Rightarrow>
               (let obs = new_observation env config p oid payloadHash c (ow_index w) in
                case (oid, ow_ops w) of
                  (Some i, Some ops) \<Rightarrow> commit_operation env fence p i payloadHash ops obs w
                | _ \<Rightarrow> (Inr (observed obs), store_observation (ev_now_iso env) obs w))))"

definition payload_hash_of :: "observe_env \<Rightarrow> smartware_config \<Rightarrow> observe_params \<Rightarrow> string" where
  "payload_hash_of env config p =
     (let (retention, duration) = resolved_retention p config in ev_hash env (observePayload p retention duration))"

definition handleObserve ::
  "observe_env \<Rightarrow> smartware_config \<Rightarrow> mutation_fence option \<Rightarrow> observe_params \<Rightarrow> observe_world
     \<Rightarrow> observe_result outcome \<times> observe_world" where
  "handleObserve env config fence params w0 =
     (case resolve_session (ev_now env) params w0 of
        (Inl x, w) \<Rightarrow> (Inl x, w)
      | (Inr p, w) \<Rightarrow>
          (case validate env config p of
             Inl x \<Rightarrow> (Inl x, w)
           | Inr _ \<Rightarrow>
               (let payloadHash = payload_hash_of env config p in
                case truthy (op_operation_id p) of
                  None \<Rightarrow> write_stage env config fence p None payloadHash w
                | Some oid \<Rightarrow>
                    if \<not> isValidOperationId oid then (Inl (ProtocolError ''invalid_parameter'' NoDetails), w)
                    else case ow_ops w of
                      None \<Rightarrow> (Inl (ProtocolError ''invalid_parameter'' NoDetails), w)
                    | Some ops \<Rightarrow>
                        (case replay_stage env fence oid (operationActorId (ac_id (op_actor p))) payloadHash ops w of
                           (Inl x, w1) \<Rightarrow> (Inl x, w1)
                         | (Inr (Some r), w1) \<Rightarrow> (Inr r, w1)
                         | (Inr None, w1) \<Rightarrow> write_stage env config fence p (Some oid) payloadHash w1))))"

section \<open>Lemmas\<close>

lemma replay_stage_frame:
  "replay_stage env fence oid a h ops w = (r, w') \<Longrightarrow> ow_evidence w' = ow_evidence w \<and> ow_index w' = ow_index w
     \<and> ow_sessions w' = ow_sessions w"
  by (auto simp: replay_stage_def Let_def split: sum.splits option.splits if_splits prod.splits)

lemma resolve_session_frame:
  "resolve_session now p w = (r, w') \<Longrightarrow> ow_evidence w' = ow_evidence w \<and> ow_index w' = ow_index w
     \<and> ow_ops w' = ow_ops w \<and> ow_intents w' = ow_intents w \<and> ow_fence w' = ow_fence w"
  by (auto simp: resolve_session_def Let_def split: sum.splits option.splits if_splits prod.splits)

lemma commit_operation_evidence:
  "commit_operation env fence p oid h ops obs w = (r, w') \<Longrightarrow>
   (ow_evidence w' = ow_evidence w \<and> ow_index w' = ow_index w)
   \<or> (ow_evidence w' = appendObservation (ev_now_iso env) obs (ow_evidence w) \<and> ow_index w' = insertOrSkip obs (ow_index w))"
  by (auto simp: commit_operation_def store_observation_def Let_def split: sum.splits prod.splits)

lemma write_stage_evidence:
  assumes "write_stage env config fence p oid h w = (r, w')"
  shows "(ow_evidence w' = ow_evidence w \<and> ow_index w' = ow_index w)
    \<or> (dedup_stage p h (ow_index w) = Inr None
       \<and> (\<exists>c. op_content p = Some c \<and>
          (let obs = new_observation env config p oid h c (ow_index w) in
           ow_evidence w' = appendObservation (ev_now_iso env) obs (ow_evidence w) \<and> ow_index w' = insertOrSkip obs (ow_index w))))"
  using assms
  by (auto simp: write_stage_def store_observation_def Let_def split: sum.splits option.splits
      dest!: commit_operation_evidence)

definition admissible :: "observe_env \<Rightarrow> smartware_config \<Rightarrow> observe_params \<Rightarrow> obs_content \<Rightarrow> bool" where
  "admissible env config p c =
     (op_content p = Some c \<and> op_scope p \<noteq> [] \<and> \<not> falsy (co_body c) \<and> attachment_ok env p c
      \<and> detectSecrets (body_text env c) = None
      \<and> is_ok (requireGrant (ev_now env) (ac_id (op_actor p)) OpObserve (op_scope p) config)
      \<and> (\<forall>ref. truthy (op_source_ref p) = Some ref \<longrightarrow> may_write_under config ref (ac_id (op_actor p))))"

lemma validate_admissible: "is_ok (validate env config p) \<longleftrightarrow> op_claims p \<in> {None, Some []} \<and> (\<exists>c. admissible env config p c)"
  by (auto simp: validate_def admissible_def requireActiveSource_ok [symmetric] split: option.splits sum.splits if_splits)
     (metis not_None_eq surj_pair)+

lemma new_observation_facts:
  "ob_sequence (new_observation env config p oid h c idx) = getLastSequence idx + 1"
  "in_previous_hash (ob_integrity (new_observation env config p oid h c idx)) = getLatestHashForWriter (writer_id config) idx"
  "in_writer_id (ob_integrity (new_observation env config p oid h c idx)) = writer_id config"
  "computeHash (hs_obs (ev_hs env)) (new_observation env config p oid h c idx) = ob_hash (new_observation env config p oid h c idx)"
  "ob_status (new_observation env config p oid h c idx) = (if quarantined (ev_now env) p config then OQuarantined else OAccepted)"
  "ob_id (new_observation env config p oid h c idx) = ''obs_'' @ h"
  "ob_operation_id (new_observation env config p oid h c idx) = oid"
  "ob_content (new_observation env config p oid h c idx) = c"
  "ob_scope (new_observation env config p oid h c idx) = op_scope p"
  by (simp_all add: new_observation_def assignIntegrity_def computeHash_def without_hash_def Let_def split: prod.split)


section \<open>Replay of a committed operation\<close>

lemma entry_detail_stamp: "k \<noteq> ''fence'' \<Longrightarrow> entry_detail (with_stamp st e) k = entry_detail e k"
  by (auto simp: entry_detail_def with_stamp_def split: option.split)

lemma replayable_commit:
  "replayable (with_stamp st (observe_commit_entry env p oid h obs)) = Some (observed obs)"
  unfolding replayable_def
  by (simp add: entry_detail_stamp)
     (simp add: entry_detail_def observe_commit_entry_def observed_def status_name_def split: obs_status.split)

lemma committedResult_None:
  "committedResult oid a h ops = Inr None \<Longrightarrow> \<exists>es. readAllOpLogEntries ops = Inr es \<and> filter (\<lambda>e. oe_operation_id e = oid) es = []"
  by (auto simp: committedResult_def Let_def split: sum.splits if_splits option.splits)

lemma committedResult_after:
  assumes "distinct (map fst ops)" and "committedResult oid a h ops = Inr None"
    and "e = with_stamp st (observe_commit_entry env p oid h obs)" and "a = operationActorId (ac_id (op_actor p))"
  shows "committedResult oid a h (append_day day [Line e] ops) = Inr (Some (observed obs))"
proof -
  obtain es where es: "read_all ops = Inr es" "filter (\<lambda>x. oe_operation_id x = oid) es = []"
    using committedResult_None [OF assms(2)] by (auto simp: readAllOpLogEntries_def)
  obtain es' where es': "read_all (append_day day [Line e] ops) = Inr es'" "mset es' = add_mset e (mset es)"
    using read_all_append_one [OF assms(1) es(1)] by blast
  have e: "oe_operation_id e = oid" "oe_op e = ''observe''" "oe_actor_id e = a" "entry_detail e ''payload_hash'' = Some (JStr h)"
    using assms(3,4) by (simp_all add: entry_detail_stamp) (simp_all add: observe_commit_entry_def entry_detail_def)
  have "filter (\<lambda>x. oe_operation_id x = oid) es' = [e]" by (rule filter_one [OF es'(2) _ es(2)]) (rule e(1))
  moreover have "replayable e = Some (observed obs)" by (simp add: assms(3) replayable_commit)
  ultimately show ?thesis using e by (simp add: committedResult_def readAllOpLogEntries_def es'(1) Let_def)
qed

lemma commit_entry_timestamp [simp]: "oe_timestamp (observe_commit_entry env p oid h obs) = ev_now_iso env"
  by (simp add: observe_commit_entry_def)

lemma commit_operation_ok:
  assumes "commit_operation env fence p oid h ops obs w = (Inr r, w')"
  shows "r = observed obs \<and> ow_ops w' = Some (append_day (dayOfTimestamp (ev_now_iso env))
    [Line (with_stamp (Option.bind fence mf_stamp) (observe_commit_entry env p oid h obs))] ops)"
  using assms appendCommitted_ok
  by (auto simp: commit_operation_def store_observation_def Let_def split: sum.splits prod.splits)


lemma append_keeps_days:
  "distinct (map fst d) \<Longrightarrow> appendOpLogEntry e d = (r, d') \<Longrightarrow> distinct (map fst d')"
  by (auto simp: appendOpLogEntry_def appendOpLogEntry_eq split: option.splits)

lemma recover_one_days:
  assumes "recover_one env now hs fenced sc i s = (r, s')" and "distinct (map fst (rs_ops s))"
  shows "distinct (map fst (rs_ops s'))"
proof (cases "dispose hs fenced sc (rs_fence s) i")
  case (DFinalize e)
  obtain v t where run: "finalizeRecovered env now fenced sc i e s = (v, t)" by (metis surj_pair)
  then have "distinct (map fst (rs_ops t))" using assms(2)
    by (auto simp: finalizeRecovered_def Let_def split: prod.splits sum.splits if_splits dest: append_keeps_days)
  then show ?thesis using assms(1)
    by (auto simp: recover_one_def DFinalize run Let_def split: sum.splits bool.splits)
qed (use assms in \<open>auto simp: recover_one_def Let_def\<close>)

lemma runRecovery_days:
  assumes "runRecovery env now hs ctx ops intents f = (r, ops', intents', f')" and "distinct (map fst ops)"
  shows "distinct (map fst ops')"
proof -
  have loop: "distinct (map fst (rs_ops s'))" if "recover_loop env now hs fenced sc recs s = (v, s')" "distinct (map fst (rs_ops s))"
    for fenced sc recs s v s'
    using recover_loop_rel [where R = "\<lambda>s s'. distinct (map fst (rs_ops s)) \<longrightarrow> distinct (map fst (rs_ops s'))", OF _ _ _ _ that(1)]
      recover_one_days that(2) by (auto dest: recover_one_days)
  show ?thesis using runRecovery_loop [OF assms(1)] loop assms(2) by auto
qed

lemma replay_stage_result:
  assumes "replay_stage env fence oid a h ops w = (Inr r, w')" and "ow_ops w = Some ops" and "distinct (map fst ops)"
  shows "\<exists>ops'. ow_ops w' = Some ops' \<and> committedResult oid a h ops' = Inr r \<and> distinct (map fst ops')"
  using assms
  by (auto simp: replay_stage_def Let_def split: sum.splits option.splits if_splits prod.splits dest: runRecovery_days)

lemma replay_stage_committed:
  "committedResult oid a h ops = Inr (Some r) \<Longrightarrow> replay_stage env fence oid a h ops w = (Inr (Some r), w)"
  by (simp add: replay_stage_def)

lemma dedup_stage_status: "dedup_stage p h idx = Inr (Some r) \<Longrightarrow> os_status r = RDuplicate"
  unfolding dedup_stage_def duplicate_of_def by (auto split: idempotency_result.splits option.splits)

lemma write_stage_committed:
  assumes "write_stage env config fence p (Some oid) h w = (Inr r, w')" and "ow_ops w = Some ops"
    and "committedResult oid (operationActorId (ac_id (op_actor p))) h ops = Inr None" and "distinct (map fst ops)"
    and "os_status r \<noteq> RDuplicate"
  shows "\<exists>ops'. ow_ops w' = Some ops' \<and> committedResult oid (operationActorId (ac_id (op_actor p))) h ops' = Inr (Some r)"
proof -
  have "dedup_stage p h (ow_index w) = Inr None"
    using assms(1,5) dedup_stage_status [of p h "ow_index w"] by (auto simp: write_stage_def split: sum.splits option.splits)
  then obtain obs where run: "commit_operation env fence p oid h ops obs w = (Inr r, w')"
    using assms(1,2) by (auto simp: write_stage_def Let_def split: option.splits)
  show ?thesis using commit_operation_ok [OF run] committedResult_after [OF assms(4,3) refl refl] by auto
qed

lemma resolve_no_session: "truthy (op_session_id p) = None \<Longrightarrow> resolve_session now p w = (Inr p, w)"
  by (simp add: resolve_session_def)

lemma appendObservation_new: "appendObservation now obs d \<noteq> d"
proof
  assume "appendObservation now obs d = d"
  then have "day_lines (take 10 now) (appendObservation now obs d) = day_lines (take 10 now) d" by simp
  then show False by (simp add: appendObservation_def appendObservationAt_def)
qed

lemma dedup_with_key:
  assumes "truthy (op_idempotency_key p) = Some k" and "index_checkIdempotency (ac_id (op_actor p)) k idx = None"
    and "lookup_by r_id (''obs_'' @ h) (l0_rows idx) = None"
  shows "dedup_stage p h idx = Inr None"
  using assms by (auto simp: dedup_stage_def checkIdempotency_def truthy_def split: option.splits if_splits)

lemma observe_unindexed:
  assumes "truthy (op_session_id p) = None" and "truthy (op_operation_id p) = None" and "is_ok (validate env config p)"
    and "dedup_stage p (payload_hash_of env config p) (ow_index w) = Inr None"
    and "op_source_id p = Some s"
    and "\<exists>x \<in> set (l0_rows (ow_index w)). r_source_id x = Some s \<and> r_app x = or_else (op_app p) ''mcp-client'' \<and> r_scope x = op_scope p"
  shows "\<exists>r w'. handleObserve env config fence p w = (Inr r, w') \<and> os_status r \<noteq> RDuplicate
    \<and> ow_evidence w' \<noteq> ow_evidence w \<and> ow_index w' = ow_index w"
proof -
  have ok: "validate env config p = Inr ()" using assms(3) by (cases "validate env config p") simp_all
  obtain c where c: "op_content p = Some c" using assms(3) by (auto simp: validate_admissible admissible_def)
  let ?obs = "new_observation env config p None (payload_hash_of env config p) c (ow_index w)"
  have run: "handleObserve env config fence p w = (Inr (observed ?obs), store_observation (ev_now_iso env) ?obs w)"
    using assms(2,4) c by (simp add: handleObserve_def resolve_no_session [OF assms(1)] ok write_stage_def Let_def)
  have "r_source_id (obs_to_row ?obs) = Some s \<and> r_app (obs_to_row ?obs) = or_else (op_app p) ''mcp-client''
      \<and> r_scope (obs_to_row ?obs) = op_scope p"
    using assms(5) by (simp add: obs_to_row_def new_observation_def assignIntegrity_def Let_def split: prod.split)
  then have "list_ex (\<lambda>x. row_clash x (obs_to_row ?obs)) (l0_rows (ow_index w))"
    using assms(6) by (auto simp: list_ex_iff row_clash_def)
  then have "insertOrSkip ?obs (ow_index w) = ow_index w" by (simp add: insertOrSkip_def)
  then show ?thesis using run
    by (simp add: store_observation_def appendObservation_new observed_def split: obs_status.split)
qed

lemma handleObserve_writes:
  assumes "handleObserve env config fence params w = (r, w')"
  shows "(ow_evidence w' = ow_evidence w \<and> ow_index w' = ow_index w)
    \<or> (\<exists>p c oid. fst (resolve_session (ev_now env) params w) = Inr p \<and> op_claims p \<in> {None, Some []} \<and> admissible env config p c
       \<and> dedup_stage p (payload_hash_of env config p) (ow_index w) = Inr None
       \<and> ow_evidence w' = appendObservation (ev_now_iso env)
            (new_observation env config p oid (payload_hash_of env config p) c (ow_index w)) (ow_evidence w)
       \<and> ow_index w' = insertOrSkip (new_observation env config p oid (payload_hash_of env config p) c (ow_index w)) (ow_index w))"
proof (rule ccontr)
  assume no: "\<not> ?thesis"
  obtain v w0 where rs: "resolve_session (ev_now env) params w = (v, w0)" by (metis surj_pair)
  note frame0 = resolve_session_frame [OF rs]
  obtain p where p: "resolve_session (ev_now env) params w = (Inr p, w0)"
    using no assms frame0 rs by (cases v) (auto simp: handleObserve_def)
  have ok: "validate env config p = Inr ()"
    using no assms frame0 by (cases "validate env config p") (auto simp: handleObserve_def p)
  then have "is_ok (validate env config p)" by simp
  then obtain c where c: "op_claims p \<in> {None, Some []}" "admissible env config p c" by (auto simp: validate_admissible)
  have content: "op_content p = Some c" using c(2) by (simp add: admissible_def)
  have settled: False if "ow_evidence w1 = ow_evidence w" "ow_index w1 = ow_index w"
    "write_stage env config fence p oid (payload_hash_of env config p) w1 = (r, w')" for oid w1
    using write_stage_evidence [OF that(3)] that(1,2) no content c p by (auto simp: Let_def)
  show False
  proof (cases "truthy (op_operation_id p)")
    case None
    then show ?thesis using settled [of w0 None] frame0 assms by (simp add: handleObserve_def p ok)
  next
    case (Some oid)
    have run: "isValidOperationId oid" and "ow_ops w0 \<noteq> None"
      using no assms frame0 by (auto simp: handleObserve_def p ok Some Let_def split: if_splits option.splits)
    then obtain ops where ops: "ow_ops w0 = Some ops" by blast
    obtain v w1 where stage: "replay_stage env fence oid (operationActorId (ac_id (op_actor p))) (payload_hash_of env config p) ops w0 = (v, w1)"
      by (metis surj_pair)
    note frame1 = replay_stage_frame [OF stage]
    then have "write_stage env config fence p (Some oid) (payload_hash_of env config p) w1 = (r, w')"
      using no assms frame0 run by (auto simp: handleObserve_def p ok Some ops stage Let_def split: sum.splits option.splits)
    then show ?thesis using settled [of w1 "Some oid"] frame0 frame1 by simp
  qed
qed

section \<open>Properties\<close>

text \<open>C2: Nothing is written without admission. Whenever the evidence log changes in a call of the OBSERVE handler,
  whatever the call returns, exactly one observation was appended, and every check passed first: the actor (the
  session's, when there is one) is the owner or holds a grant to observe in this scope, the content is present,
  free of detectable secrets and a safe attachment, and the source it names is registered, active and open to
  this actor. The observation is quarantined exactly when the grants say so, extends its writer's hash chain with
  the next sequence number, carries its own hash, and is what the index was offered.\<close>

theorem observe_admission:
  assumes "handleObserve env config fence params w = (r, w')" and "ow_evidence w' \<noteq> ow_evidence w"
  shows "\<exists>p c obs. fst (resolve_session (ev_now env) params w) = Inr p \<and> op_claims p \<in> {None, Some []} \<and> admissible env config p c
    \<and> ow_evidence w' = appendObservation (ev_now_iso env) obs (ow_evidence w) \<and> ow_index w' = insertOrSkip obs (ow_index w)
    \<and> ob_content obs = c \<and> ob_scope obs = op_scope p \<and> (ob_status obs = OQuarantined \<longleftrightarrow> quarantined (ev_now env) p config)
    \<and> ob_sequence obs = getLastSequence (ow_index w) + 1 \<and> computeHash (hs_obs (ev_hs env)) obs = ob_hash obs
    \<and> in_previous_hash (ob_integrity obs) = getLatestHashForWriter (writer_id config) (ow_index w)"
proof -
  obtain p c oid where "fst (resolve_session (ev_now env) params w) = Inr p" "op_claims p \<in> {None, Some []}" "admissible env config p c"
    "ow_evidence w' = appendObservation (ev_now_iso env)
       (new_observation env config p oid (payload_hash_of env config p) c (ow_index w)) (ow_evidence w)"
    "ow_index w' = insertOrSkip (new_observation env config p oid (payload_hash_of env config p) c (ow_index w)) (ow_index w)"
    using handleObserve_writes [OF assms(1)] assms(2) by blast
  then show ?thesis
    by (intro exI [of _ p] exI [of _ c] exI [of _ "new_observation env config p oid (payload_hash_of env config p) c (ow_index w)"])
       (simp add: new_observation_facts)
qed

text \<open>A committed OBSERVE is replayed, never repeated. When a call with an operation id succeeds, with an
  accepted or quarantined observation and not as a duplicate, then the same call made again on the resulting
  state, at any later time, by any process with any fencing token, as long as the actor is still admitted, returns
  the same result and changes nothing on disk; this holds too when the first call found and completed the
  interrupted work of an earlier one.\<close>

lemma observe_retry_replays:
  assumes "handleObserve env config fence p w = (Inr r, w')" and "truthy (op_session_id p) = None"
    and "truthy (op_operation_id p) = Some oid" and "ow_ops w = Some ops" and "distinct (map fst ops)"
    and "os_status r \<noteq> RDuplicate" and "is_ok (validate env2 config p)" and "ev_hash env2 = ev_hash env"
  shows "handleObserve env2 config fence2 p w' = (Inr r, w')"
proof -
  let ?a = "operationActorId (ac_id (op_actor p))" and ?h = "payload_hash_of env config p"
  have h: "payload_hash_of env2 config p = ?h" using assms(8) by (simp add: payload_hash_of_def)
  obtain v w1 where stage: "replay_stage env fence oid ?a ?h ops w = (v, w1)" by (metis surj_pair)
  have valid: "isValidOperationId oid"
    using assms(1,3) by (auto simp: handleObserve_def resolve_no_session [OF assms(2)] Let_def split: sum.splits if_splits)
  obtain ops' where ops': "ow_ops w' = Some ops'" "committedResult oid ?a ?h ops' = Inr (Some r)"
  proof (cases v)
    case (Inl x)
    then show ?thesis using assms(1,3,4) stage valid
      by (auto simp: handleObserve_def resolve_no_session [OF assms(2)] Let_def split: sum.splits)
  next
    case (Inr res)
    then obtain ops1 where o: "ow_ops w1 = Some ops1" "committedResult oid ?a ?h ops1 = Inr res" "distinct (map fst ops1)"
      using replay_stage_result [OF _ assms(4,5)] stage by blast
    show ?thesis
    proof (cases res)
      case None
      then have "write_stage env config fence p (Some oid) ?h w1 = (Inr r, w')"
        using assms(1,3,4) stage valid Inr
        by (auto simp: handleObserve_def resolve_no_session [OF assms(2)] Let_def split: sum.splits)
      then show ?thesis using write_stage_committed o None assms(6) that by blast
    next
      case (Some res')
      then have "res' = r \<and> w1 = w'"
        using assms(1,3,4) stage valid Inr
        by (auto simp: handleObserve_def resolve_no_session [OF assms(2)] Let_def split: sum.splits)
      then show ?thesis using o Some that by blast
    qed
  qed
  have "fst (validate env2 config p, ()) = Inr ()" using assms(7) by (cases "validate env2 config p") simp_all
  then show ?thesis
    using ops' replay_stage_committed [OF ops'(2)] valid assms(3)
    by (simp add: handleObserve_def resolve_no_session [OF assms(2)] h Let_def)
qed

text \<open>With an idempotency key the source deduplication is skipped but the index still enforces it. When the
  index already has an observation of the same app, source id and scope, a call with a fresh key is answered as
  accepted or quarantined and appended to the evidence log, and never indexed; repeating the call appends the
  evidence again and again, with the same sequence number, although it carries the same key.\<close>

lemma observe_key_bypasses_source_dedup:
  assumes "truthy (op_session_id p) = None" and "truthy (op_operation_id p) = None" and "is_ok (validate env config p)"
    and "truthy (op_idempotency_key p) = Some k" and "index_checkIdempotency (ac_id (op_actor p)) k (ow_index w) = None"
    and "lookup_by r_id (''obs_'' @ payload_hash_of env config p) (l0_rows (ow_index w)) = None"
    and "op_source_id p = Some s"
    and "\<exists>x \<in> set (l0_rows (ow_index w)). r_source_id x = Some s \<and> r_app x = or_else (op_app p) ''mcp-client'' \<and> r_scope x = op_scope p"
  shows "\<exists>r1 w1 r2 w2. handleObserve env config fence p w = (Inr r1, w1) \<and> handleObserve env config fence p w1 = (Inr r2, w2)
    \<and> os_status r1 \<noteq> RDuplicate \<and> os_status r2 \<noteq> RDuplicate
    \<and> ow_evidence w1 \<noteq> ow_evidence w \<and> ow_evidence w2 \<noteq> ow_evidence w1 \<and> ow_index w2 = ow_index w"
proof -
  note dd = dedup_with_key [OF assms(4-6)]
  obtain r1 w1 where 1: "handleObserve env config fence p w = (Inr r1, w1)" "os_status r1 \<noteq> RDuplicate"
    "ow_evidence w1 \<noteq> ow_evidence w" "ow_index w1 = ow_index w"
    using observe_unindexed [OF assms(1-3) dd assms(7,8)] by blast
  obtain r2 w2 where "handleObserve env config fence p w1 = (Inr r2, w2)" "os_status r2 \<noteq> RDuplicate"
    "ow_evidence w2 \<noteq> ow_evidence w1" "ow_index w2 = ow_index w1"
    using observe_unindexed [OF assms(1-3) _ assms(7), of w1 fence] dd assms(8) unfolding 1(4) by blast
  with 1 show ?thesis by auto
qed

section \<open>A concrete call\<close>

definition demo_env :: observe_env where
  "demo_env = \<lparr>ev_now = 0, ev_now_iso = ''2026-01-01T00:00:00Z'', ev_hash = (\<lambda>pl. replicate 64 (CHR ''a'')), ev_hs = demo_hs,
     ev_stringify = (\<lambda>j. ''json''), ev_number = (\<lambda>s. None), ev_others = alone\<rparr>"

definition demo_params :: observe_params where
  "demo_params = \<lparr>op_actor = \<lparr>ac_type = Person, ac_id = ''user:local'', ac_display_name = ''A''\<rparr>, op_type = T_message,
     op_content = Some \<lparr>co_format = ''text/plain'', co_body = JStr ''hello''\<rparr>, op_scope = ''self'', op_visibility = None,
     op_source_id = Some ''m1'', op_source_ref = None, op_app = None, op_app_version = None, op_observed_at = None,
     op_parent_ids = None, op_informed_by = None, op_sensitive = None, op_pii_detected = None, op_retention = None,
     op_retention_duration = None, op_claims = None, op_idempotency_key = None, op_session_id = None,
     op_operation_id = Some ''op_00000000000000000000000009''\<rparr>"

definition demo_config :: smartware_config where
  "demo_config = createDefaultConfig ''1'' ''2''"

definition demo_world :: observe_world where
  "demo_world = \<lparr>ow_evidence = [], ow_index = \<lparr>l0_rows = [], l0_last_sequence = None\<rparr>, ow_sessions = None, ow_ops = Some [],
     ow_intents = [], ow_fence = open_store None [] ''t0''\<rparr>"

definition demo_call :: "observe_result outcome \<times> observe_world" where
  "demo_call = handleObserve demo_env demo_config None demo_params demo_world"

lemma demo_call_ok: "is_ok (fst demo_call)" "ow_evidence (snd demo_call) \<noteq> ow_evidence demo_world"
  "os_status (projr (fst demo_call)) \<noteq> RDuplicate"
  by code_simp+

lemma demo_call_run: "handleObserve demo_env demo_config None demo_params demo_world = (Inr (projr (fst demo_call)), snd demo_call)"
  using demo_call_ok(1) by (cases "fst demo_call") (simp_all add: demo_call_def [symmetric] prod_eq_iff)

theorem observe_admission_witness:
  "\<exists>p c obs. admissible demo_env demo_config p c \<and> ow_evidence (snd demo_call) = appendObservation ''2026-01-01T00:00:00Z'' obs []
     \<and> ob_status obs = OAccepted"
proof -
  obtain p c obs where 1: "admissible demo_env demo_config p c"
    "ow_evidence (snd demo_call) = appendObservation (ev_now_iso demo_env) obs (ow_evidence demo_world)"
    "ob_status obs = OQuarantined \<longleftrightarrow> quarantined (ev_now demo_env) p demo_config"
    "fst (resolve_session (ev_now demo_env) demo_params demo_world) = Inr p"
    using observe_admission [OF demo_call_run demo_call_ok(2)] by blast
  have "p = demo_params" using 1(4) by (simp add: resolve_session_def demo_params_def truthy_def)
  moreover have "\<not> quarantined (ev_now demo_env) demo_params demo_config" by code_simp
  ultimately have "ob_status obs = OAccepted" using 1(3) by (cases "ob_status obs") simp_all
  with 1 show ?thesis by (auto simp: demo_env_def demo_world_def)
qed

lemma observe_retry_replays_example:
  "handleObserve (demo_env\<lparr>ev_now := 5\<rparr>) demo_config (Some \<lparr>mf_token = Some 3, mf_writer = ''w''\<rparr>) demo_params (snd demo_call)
   = (Inr (projr (fst demo_call)), snd demo_call)"
proof (rule observe_retry_replays [OF demo_call_run])
  show "truthy (op_session_id demo_params) = None" "truthy (op_operation_id demo_params) = Some ''op_00000000000000000000000009''"
    "ow_ops demo_world = Some []" "distinct (map fst ([] :: ops_dir))" by code_simp+
  show "os_status (projr (fst demo_call)) \<noteq> RDuplicate" by (rule demo_call_ok(3))
  show "is_ok (validate (demo_env\<lparr>ev_now := 5\<rparr>) demo_config demo_params)" by code_simp
qed simp

definition demo_keyed :: observe_params where
  "demo_keyed = demo_params\<lparr>op_operation_id := None, op_idempotency_key := Some ''k''\<rparr>"

definition demo_indexed :: observe_world where
  "demo_indexed = demo_world\<lparr>ow_index := insertOrSkip ((demo_obs ''o'' 1 T_message (JStr ''x''))
     \<lparr>ob_app := ''mcp-client'', ob_source_id := Some ''m1'', ob_scope := ''self''\<rparr>) (ow_index demo_world)\<rparr>"

lemma observe_key_bypasses_source_dedup_example:
  "\<exists>r1 w1 r2 w2. handleObserve demo_env demo_config None demo_keyed demo_indexed = (Inr r1, w1)
    \<and> handleObserve demo_env demo_config None demo_keyed w1 = (Inr r2, w2)
    \<and> ow_evidence w1 \<noteq> ow_evidence demo_indexed \<and> ow_evidence w2 \<noteq> ow_evidence w1 \<and> ow_index w2 = ow_index demo_indexed"
proof -
  have 1: "truthy (op_session_id demo_keyed) = None" "truthy (op_operation_id demo_keyed) = None"
    "is_ok (validate demo_env demo_config demo_keyed)" "truthy (op_idempotency_key demo_keyed) = Some ''k''"
    "index_checkIdempotency (ac_id (op_actor demo_keyed)) ''k'' (ow_index demo_indexed) = None"
    "lookup_by r_id (''obs_'' @ payload_hash_of demo_env demo_config demo_keyed) (l0_rows (ow_index demo_indexed)) = None"
    "op_source_id demo_keyed = Some ''m1''"
    "\<exists>x \<in> set (l0_rows (ow_index demo_indexed)). r_source_id x = Some ''m1'' \<and> r_app x = or_else (op_app demo_keyed) ''mcp-client''
       \<and> r_scope x = op_scope demo_keyed"
    by code_simp+
  show ?thesis using observe_key_bypasses_source_dedup [OF 1, of None] by blast
qed

end
