(* ===== verification/Ingestion.thy ===== *)
theory Ingestion
  imports Observe
begin

text \<open>
  Batch ingestion (\<^verbatim>\<open>ingestion/ingest.ts\<close>, \<^verbatim>\<open>ingestion/store.ts\<close>, \<^verbatim>\<open>ingestion/sync.ts\<close>,
  \<^verbatim>\<open>ingestion/types.ts\<close>): the batch ledger, the admission of a batch, one OBSERVE per item, and the sync status
  folded from the ledger. The ledger is its rows in insertion order. The digest of a batch is a parameter, and
  \<open>envs i\<close> is the environment, with its clock, in which item \<open>i\<close> is observed.
\<close>

section \<open>Batches and their ledger\<close>

record ingest_item =
  ii_external_id :: string
  ii_type :: obs_type
  ii_content :: "obs_content option"
  ii_observed_at :: "string option"
  ii_visibility :: "visibility option"
  ii_sensitive :: "bool option"
  ii_informed_by :: "string list option"
  ii_parent_ids :: "string list option"

record ingest_params =
  ip_actor :: actor
  ip_source_id :: string
  ip_scope :: string
  ip_cursor :: string
  ip_operation_id :: string
  ip_items :: "ingest_item list"
  ip_app :: "string option"

datatype item_status = IAccepted | IDuplicated | IQuarantined | IRejected

record item_result =
  ir_external_id :: string
  ir_status :: item_status
  ir_observation_id :: "string option"
  ir_code :: "string option"

record batch_record =
  br_operation_id :: string
  br_source_id :: string
  br_scope :: string
  br_actor_id :: string
  br_payload_hash :: string
  br_cursor_before :: "string option"
  br_cursor :: string
  br_accepted :: nat
  br_duplicated :: nat
  br_quarantined :: nat
  br_rejected :: nat
  br_items :: "item_result list"
  br_synced_at :: string

type_synonym ledger = "batch_record list"

definition recordBatch :: "batch_record \<Rightarrow> ledger \<Rightarrow> ledger outcome" where
  "recordBatch b l =
     (if br_operation_id b \<in> br_operation_id ` set l
      then Inl (JsError ''UNIQUE constraint failed: ingestion_batches.operation_id'') else Inr (l @ [b]))"

definition findBatch :: "string \<Rightarrow> ledger \<Rightarrow> batch_record option" where
  "findBatch oid l = lookup_by br_operation_id oid l"

definition stream_of :: "string \<Rightarrow> string \<Rightarrow> ledger \<Rightarrow> batch_record list" where
  "stream_of sid scope l = filter (\<lambda>b. br_source_id b = sid \<and> br_scope b = scope) l"

definition latestBatch :: "string \<Rightarrow> string \<Rightarrow> ledger \<Rightarrow> batch_record option" where
  "latestBatch sid scope l = (case rev (stream_of sid scope l) of [] \<Rightarrow> None | b # _ \<Rightarrow> Some b)"

definition listBatches :: "string \<Rightarrow> ledger \<Rightarrow> batch_record list" where
  "listBatches sid l = filter (\<lambda>b. br_source_id b = sid) l"

section \<open>Ingesting a batch\<close>

definition MAX_INGEST_ITEMS :: nat where
  "MAX_INGEST_ITEMS = 500"

record ingest_payload =
  ipl_actor_id :: string
  ipl_source_id :: string
  ipl_scope :: string
  ipl_cursor :: string
  ipl_items :: "ingest_item list"

record ingest_world =
  iw_observe :: observe_world
  iw_ledger :: ledger

definition item_params :: "ingest_params \<Rightarrow> source_entry \<Rightarrow> ingest_item \<Rightarrow> observe_params" where
  "item_params p source item =
     \<lparr>op_actor = ip_actor p, op_type = ii_type item, op_content = ii_content item, op_scope = ip_scope p,
      op_visibility = ii_visibility item, op_source_id = Some (ii_external_id item), op_source_ref = Some (src_id source),
      op_app = Some (or_else (ip_app p) (src_id source)), op_app_version = None, op_observed_at = ii_observed_at item,
      op_parent_ids = ii_parent_ids item, op_informed_by = ii_informed_by item, op_sensitive = ii_sensitive item,
      op_pii_detected = None, op_retention = None, op_retention_duration = None, op_claims = None,
      op_idempotency_key = None, op_session_id = None, op_operation_id = None\<rparr>"

text \<open>The handler is called without an operations directory, so the item has no operation of its own.\<close>

definition observe_item ::
  "observe_env \<Rightarrow> smartware_config \<Rightarrow> ingest_params \<Rightarrow> source_entry \<Rightarrow> ingest_item \<Rightarrow> observe_world
     \<Rightarrow> item_result outcome \<times> observe_world" where
  "observe_item env config p source item w =
     (if ii_external_id item = [] then
        (Inr \<lparr>ir_external_id = [], ir_status = IRejected, ir_observation_id = None, ir_code = Some ''invalid_parameter''\<rparr>, w)
      else
        (case handleObserve env config None (item_params p source item) (w\<lparr>ow_ops := None\<rparr>) of
           (r, w1) \<Rightarrow>
             (let w2 = w1\<lparr>ow_ops := ow_ops w\<rparr> in
              case r of
                Inr res \<Rightarrow> (Inr \<lparr>ir_external_id = ii_external_id item,
                    ir_status = (case os_status res of RDuplicate \<Rightarrow> IDuplicated | RAccepted \<Rightarrow> IAccepted | RQuarantined \<Rightarrow> IQuarantined),
                    ir_observation_id = Some (os_id res), ir_code = None\<rparr>, w2)
              | Inl (ProtocolError code info) \<Rightarrow>
                  (Inr \<lparr>ir_external_id = ii_external_id item, ir_status = IRejected, ir_observation_id = None, ir_code = Some code\<rparr>, w2)
              | Inl (JsError m) \<Rightarrow> (Inl (JsError m), w2))))"

fun ingest_items ::
  "(nat \<Rightarrow> observe_env) \<Rightarrow> smartware_config \<Rightarrow> ingest_params \<Rightarrow> source_entry \<Rightarrow> nat \<Rightarrow> ingest_item list \<Rightarrow> item_result list
     \<Rightarrow> observe_world \<Rightarrow> item_result list outcome \<times> observe_world" where
  "ingest_items envs config p source i [] results w = (Inr results, w)"
| "ingest_items envs config p source i (item # items) results w =
     (case observe_item (envs i) config p source item w of
        (Inl x, w1) \<Rightarrow> (Inl x, w1)
      | (Inr r, w1) \<Rightarrow> ingest_items envs config p source (Suc i) items (results @ [r]) w1)"

definition ingest_context :: "int \<Rightarrow> smartware_config \<Rightarrow> ingest_params \<Rightarrow> source_entry outcome" where
  "ingest_context now config p =
     (if ip_source_id p = [] then Inl (ProtocolError ''source_required'' NoDetails)
      else case requireActiveSource config (ip_source_id p) (ac_id (ip_actor p)) of
        Inl x \<Rightarrow> Inl x
      | Inr source \<Rightarrow>
          if ip_scope p = [] then Inl (ProtocolError ''invalid_scope'' NoDetails)
          else case requireGrant now (ac_id (ip_actor p)) OpObserve (ip_scope p) config of
            Inl x \<Rightarrow> Inl x
          | Inr _ \<Rightarrow>
              if \<not> isValidOperationId (ip_operation_id p) then Inl (ProtocolError ''invalid_parameter'' NoDetails)
              else if ip_cursor p = [] then Inl (ProtocolError ''invalid_parameter'' NoDetails)
              else if MAX_INGEST_ITEMS < length (ip_items p) then Inl (ProtocolError ''invalid_parameter'' NoDetails)
              else Inr source)"

record ingest_result =
  ig_replayed :: bool
  ig_batch :: batch_record

definition count_status :: "item_status \<Rightarrow> item_result list \<Rightarrow> nat" where
  "count_status st rs = length (filter (\<lambda>r. ir_status r = st) rs)"

definition make_batch :: "ingest_params \<Rightarrow> source_entry \<Rightarrow> string \<Rightarrow> string option \<Rightarrow> item_result list \<Rightarrow> string \<Rightarrow> batch_record" where
  "make_batch p source h cursorBefore rs now =
     \<lparr>br_operation_id = ip_operation_id p, br_source_id = src_id source, br_scope = ip_scope p,
      br_actor_id = ac_id (ip_actor p), br_payload_hash = h, br_cursor_before = cursorBefore, br_cursor = ip_cursor p,
      br_accepted = count_status IAccepted rs, br_duplicated = count_status IDuplicated rs,
      br_quarantined = count_status IQuarantined rs, br_rejected = count_status IRejected rs, br_items = rs, br_synced_at = now\<rparr>"

definition batch_payload :: "ingest_params \<Rightarrow> source_entry \<Rightarrow> ingest_payload" where
  "batch_payload p source =
     \<lparr>ipl_actor_id = ac_id (ip_actor p), ipl_source_id = src_id source, ipl_scope = ip_scope p, ipl_cursor = ip_cursor p,
      ipl_items = ip_items p\<rparr>"

definition handleIngest ::
  "(ingest_payload \<Rightarrow> string) \<Rightarrow> int \<Rightarrow> string \<Rightarrow> (nat \<Rightarrow> observe_env) \<Rightarrow> smartware_config \<Rightarrow> ingest_params \<Rightarrow> ingest_world
     \<Rightarrow> ingest_result outcome \<times> ingest_world" where
  "handleIngest hash now synced_at envs config p w =
     (case ingest_context now config p of
        Inl x \<Rightarrow> (Inl x, w)
      | Inr source \<Rightarrow>
          (let h = hash (batch_payload p source) in
           case findBatch (ip_operation_id p) (iw_ledger w) of
             Some b \<Rightarrow> if br_payload_hash b \<noteq> h then (Inl (ProtocolError ''conflict'' NoDetails), w)
                       else (Inr \<lparr>ig_replayed = True, ig_batch = b\<rparr>, w)
           | None \<Rightarrow>
               (let cursorBefore = map_option br_cursor (latestBatch (src_id source) (ip_scope p) (iw_ledger w)) in
                case ingest_items envs config p source 0 (ip_items p) [] (iw_observe w) of
                  (Inl x, ow) \<Rightarrow> (Inl x, w\<lparr>iw_observe := ow\<rparr>)
                | (Inr rs, ow) \<Rightarrow>
                    (let b = make_batch p source h cursorBefore rs synced_at in
                     case recordBatch b (iw_ledger w) of
                       Inl x \<Rightarrow> (Inl x, w\<lparr>iw_observe := ow\<rparr>)
                     | Inr l \<Rightarrow> (Inr \<lparr>ig_replayed = False, ig_batch = b\<rparr>, w\<lparr>iw_observe := ow, iw_ledger := l\<rparr>)))))"

section \<open>Sync status\<close>

record sync_scope =
  sy_scope :: string
  sy_cursor :: string
  sy_cursor_before :: "string option"
  sy_synced_at :: string
  sy_batches :: nat
  sy_accepted :: nat
  sy_duplicated :: nat
  sy_quarantined :: nat
  sy_rejected :: nat

record source_sync =
  sq_source_id :: string
  sq_kind :: source_kind
  sq_display_name :: string
  sq_status :: source_status
  sq_last_sync :: "batch_record option"
  sq_scopes :: "sync_scope list"
  sq_batches :: nat
  sq_accepted :: nat
  sq_duplicated :: nat
  sq_quarantined :: nat
  sq_rejected :: nat

definition sync_row :: "batch_record \<Rightarrow> sync_scope option \<Rightarrow> sync_scope" where
  "sync_row b row =
     \<lparr>sy_scope = br_scope b, sy_cursor = br_cursor b, sy_cursor_before = br_cursor_before b, sy_synced_at = br_synced_at b,
      sy_batches = (case row of None \<Rightarrow> 0 | Some r \<Rightarrow> sy_batches r) + 1,
      sy_accepted = (case row of None \<Rightarrow> 0 | Some r \<Rightarrow> sy_accepted r) + br_accepted b,
      sy_duplicated = (case row of None \<Rightarrow> 0 | Some r \<Rightarrow> sy_duplicated r) + br_duplicated b,
      sy_quarantined = (case row of None \<Rightarrow> 0 | Some r \<Rightarrow> sy_quarantined r) + br_quarantined b,
      sy_rejected = (case row of None \<Rightarrow> 0 | Some r \<Rightarrow> sy_rejected r) + br_rejected b\<rparr>"

definition by_scope :: "batch_record list \<Rightarrow> (string \<times> sync_scope) list" where
  "by_scope bs = fold (\<lambda>b m. js_map_set (br_scope b) (sync_row b (map_of m (br_scope b))) m) bs []"

text \<open>\<^verbatim>\<open>localeCompare\<close> is the argument \<open>collate\<close>: a sort of the scope rows.\<close>

definition source_status_of :: "(sync_scope list \<Rightarrow> sync_scope list) \<Rightarrow> ledger \<Rightarrow> source_entry \<Rightarrow> source_sync" where
  "source_status_of collate l e =
     (let batches = listBatches (src_id e) l; scopes = collate (map snd (by_scope batches)) in
      \<lparr>sq_source_id = src_id e, sq_kind = src_kind e, sq_display_name = src_display_name e, sq_status = src_status e,
       sq_last_sync = (case rev batches of [] \<Rightarrow> None | b # _ \<Rightarrow> Some b), sq_scopes = scopes, sq_batches = length batches,
       sq_accepted = sum_list (map sy_accepted scopes), sq_duplicated = sum_list (map sy_duplicated scopes),
       sq_quarantined = sum_list (map sy_quarantined scopes), sq_rejected = sum_list (map sy_rejected scopes)\<rparr>)"

definition computeSourceSyncStatus ::
  "(sync_scope list \<Rightarrow> sync_scope list) \<Rightarrow> smartware_config \<Rightarrow> ledger \<Rightarrow> string option \<Rightarrow> source_sync list outcome" where
  "computeSourceSyncStatus collate config l sourceId =
     (let entries = listSourceEntries config;
          selected = (case truthy sourceId of None \<Rightarrow> entries | Some sid \<Rightarrow> filter (\<lambda>e. src_id e = sid) entries)
      in if truthy sourceId \<noteq> None \<and> selected = [] then Inl (ProtocolError ''source_unregistered'' NoDetails)
         else Inr (map (source_status_of collate l) selected))"

section \<open>Lemmas\<close>

lemma recordBatch_ok: "recordBatch b l = Inr l' \<Longrightarrow> l' = l @ [b] \<and> findBatch (br_operation_id b) l = None"
  by (auto simp: recordBatch_def findBatch_def lookup_by_None_iff split: if_splits)

lemma findBatch_id: "findBatch oid l = Some b \<Longrightarrow> br_operation_id b = oid"
  by (auto simp: findBatch_def dest: lookup_by_SomeD)

lemma make_batch_simps [simp]:
  "br_operation_id (make_batch p s h cb rs now) = ip_operation_id p" "br_payload_hash (make_batch p s h cb rs now) = h"
  "br_source_id (make_batch p s h cb rs now) = src_id s" "br_scope (make_batch p s h cb rs now) = ip_scope p"
  "br_cursor (make_batch p s h cb rs now) = ip_cursor p" "br_cursor_before (make_batch p s h cb rs now) = cb"
  by (simp_all add: make_batch_def)

text \<open>The ways a call can end.\<close>

lemma handleIngest_cases:
  assumes "handleIngest hash now tm envs config p w = (r, w')"
  obtains (refused) x where "r = Inl x" "w' = w"
  | (replayed) source b where "ingest_context now config p = Inr source" "findBatch (ip_operation_id p) (iw_ledger w) = Some b"
      "br_payload_hash b = hash (batch_payload p source)" "r = Inr \<lparr>ig_replayed = True, ig_batch = b\<rparr>" "w' = w"
  | (interrupted) source x rs ow where "ingest_context now config p = Inr source" "r = Inl x" "w' = w\<lparr>iw_observe := ow\<rparr>"
      "ingest_items envs config p source 0 (ip_items p) [] (iw_observe w) = (rs, ow)"
  | (committed) source rs ow b where "ingest_context now config p = Inr source"
      "findBatch (ip_operation_id p) (iw_ledger w) = None"
      "ingest_items envs config p source 0 (ip_items p) [] (iw_observe w) = (Inr rs, ow)"
      "b = make_batch p source (hash (batch_payload p source))
             (map_option br_cursor (latestBatch (src_id source) (ip_scope p) (iw_ledger w))) rs tm"
      "r = Inr \<lparr>ig_replayed = False, ig_batch = b\<rparr>" "w' = w\<lparr>iw_observe := ow, iw_ledger := iw_ledger w @ [b]\<rparr>"
proof (cases "ingest_context now config p")
  case (Inl x)
  then show thesis using assms by (auto simp: handleIngest_def intro: refused)
next
  case (Inr source)
  show thesis
  proof (cases "findBatch (ip_operation_id p) (iw_ledger w)")
    case (Some b)
    then show thesis using assms Inr
      by (auto simp: handleIngest_def Let_def split: if_splits intro: refused replayed)
  next
    case None
    obtain rs ow where items: "ingest_items envs config p source 0 (ip_items p) [] (iw_observe w) = (rs, ow)" by (metis surj_pair)
    show thesis
    proof (cases rs)
      case (Inl x)
      then have "r = Inl x" "w' = w\<lparr>iw_observe := ow\<rparr>" using assms None items by (simp_all add: handleIngest_def Inr)
      then show thesis using items Inr by (rule_tac interrupted) simp_all
    next
      case (Inr rs')
      let ?b = "make_batch p source (hash (batch_payload p source))
             (map_option br_cursor (latestBatch (src_id source) (ip_scope p) (iw_ledger w))) rs' tm"
      show thesis
      proof (cases "recordBatch ?b (iw_ledger w)")
        case (Inl x)
        then have "r = Inl x" "w' = w\<lparr>iw_observe := ow\<rparr>"
          using assms None items \<open>rs = Inr rs'\<close> \<open>ingest_context now config p = Inr source\<close> by (simp_all add: handleIngest_def)
        then show thesis using items \<open>ingest_context now config p = Inr source\<close> by (rule_tac interrupted) simp_all
      next
        case (Inr l)
        then have "r = Inr \<lparr>ig_replayed = False, ig_batch = ?b\<rparr>" "w' = w\<lparr>iw_observe := ow, iw_ledger := iw_ledger w @ [?b]\<rparr>"
          using assms None items recordBatch_ok [OF Inr] \<open>rs = Inr rs'\<close> \<open>ingest_context now config p = Inr source\<close>
          by (simp_all add: handleIngest_def Let_def)
        then show thesis using items None \<open>rs = Inr rs'\<close> \<open>ingest_context now config p = Inr source\<close>
          by (rule_tac committed) simp_all
      qed
    qed
  qed
qed

subsection \<open>Cursors\<close>

fun chained_from :: "string option \<Rightarrow> batch_record list \<Rightarrow> bool" where
  "chained_from c [] = True"
| "chained_from c (b # bs) = (br_cursor_before b = c \<and> chained_from (Some (br_cursor b)) bs)"

definition end_cursor :: "string option \<Rightarrow> batch_record list \<Rightarrow> string option" where
  "end_cursor c bs = (if bs = [] then c else Some (br_cursor (last bs)))"

lemma chained_from_snoc: "chained_from c (bs @ [b]) \<longleftrightarrow> chained_from c bs \<and> br_cursor_before b = end_cursor c bs"
  by (induction bs arbitrary: c) (auto simp: end_cursor_def)

lemma latestBatch_end: "map_option br_cursor (latestBatch sid scope l) = end_cursor None (stream_of sid scope l)"
  by (cases "stream_of sid scope l" rule: rev_cases) (simp_all add: latestBatch_def end_cursor_def)

definition ledger_ok :: "ledger \<Rightarrow> bool" where
  "ledger_ok l = (distinct (map br_operation_id l) \<and> (\<forall>sid scope. chained_from None (stream_of sid scope l)))"

lemma ledger_ok_commit:
  assumes "ledger_ok l" and "findBatch (br_operation_id b) l = None"
    and "br_cursor_before b = map_option br_cursor (latestBatch (br_source_id b) (br_scope b) l)"
  shows "ledger_ok (l @ [b])"
proof -
  have "br_operation_id b \<notin> set (map br_operation_id l)" using assms(2) by (auto simp: findBatch_def lookup_by_None_iff)
  moreover have "chained_from None (stream_of sid scope (l @ [b]))" for sid scope
    using assms(1,3) latestBatch_end [of sid scope l] chained_from_snoc [of None "stream_of sid scope l" b]
    by (auto simp: ledger_ok_def stream_of_def)
  ultimately show ?thesis using assms(1) by (simp add: ledger_ok_def)
qed

lemma handleIngest_ledger_ok:
  assumes "ledger_ok (iw_ledger w)" and "handleIngest hash now tm envs config p w = (r, w')"
  shows "ledger_ok (iw_ledger w')"
  using assms(2)
proof (cases rule: handleIngest_cases)
  case (committed source rs ow b)
  then show ?thesis using ledger_ok_commit [OF assms(1), of b] by simp
qed (use assms(1) in simp_all)

subsection \<open>The sync status\<close>

definition stream_row :: "string \<Rightarrow> batch_record list \<Rightarrow> sync_scope option" where
  "stream_row scope bs =
     (if bs = [] then None else Some \<lparr>sy_scope = scope, sy_cursor = br_cursor (last bs), sy_cursor_before = br_cursor_before (last bs),
        sy_synced_at = br_synced_at (last bs), sy_batches = length bs, sy_accepted = sum_list (map br_accepted bs),
        sy_duplicated = sum_list (map br_duplicated bs), sy_quarantined = sum_list (map br_quarantined bs),
        sy_rejected = sum_list (map br_rejected bs)\<rparr>)"

lemma by_scope_snoc: "by_scope (bs @ [b]) = js_map_set (br_scope b) (sync_row b (map_of (by_scope bs) (br_scope b))) (by_scope bs)"
  by (simp add: by_scope_def)

lemma by_scope_row: "map_of (by_scope bs) scope = stream_row scope (filter (\<lambda>b. br_scope b = scope) bs)"
proof (induction bs rule: rev_induct)
  case Nil
  then show ?case by (simp add: by_scope_def stream_row_def)
next
  case (snoc b bs)
  then show ?case by (auto simp: by_scope_snoc stream_row_def sync_row_def)
qed

lemma by_scope_distinct: "distinct (map fst (by_scope bs))"
  by (induction bs rule: rev_induct) (simp_all add: by_scope_snoc, simp add: by_scope_def)

lemma by_scope_key_of: "(k, row) \<in> set (by_scope bs) \<Longrightarrow> sy_scope row = k"
proof -
  assume "(k, row) \<in> set (by_scope bs)"
  then have "map_of (by_scope bs) k = Some row" using by_scope_distinct by (simp add: map_of_eq_Some_iff)
  then show ?thesis by (auto simp: by_scope_row stream_row_def split: if_splits)
qed

lemma by_scope_keys: "map sy_scope (map snd (by_scope bs)) = map fst (by_scope bs)"
  using by_scope_key_of [of _ _ bs] by (auto simp: in_set_conv_nth)

lemma sum_js_map_set:
  fixes f :: "sync_scope \<Rightarrow> nat"
  assumes "distinct (map fst m)"
  shows "sum_list (map (\<lambda>(k, v). f v) (js_map_set s v m)) + (case map_of m s of None \<Rightarrow> 0 | Some x \<Rightarrow> f x)
    = sum_list (map (\<lambda>(k, v). f v) m) + f v"
  using assms
proof (induction m)
  case (Cons kv m)
  obtain k x where kv: "kv = (k, x)" by (cases kv)
  show ?case
  proof (cases "k = s")
    case True
    then show ?thesis by (simp add: kv)
  next
    case False
    then show ?thesis using Cons by (cases "map_of m s") (simp_all add: kv)
  qed
qed simp

lemma by_scope_total:
  assumes "\<And>b row. f (sync_row b row) = (case row of None \<Rightarrow> 0 | Some r \<Rightarrow> f r) + g b"
  shows "sum_list (map f (map snd (by_scope bs))) = (sum_list (map g bs) :: nat)"
proof -
  have "sum_list (map (\<lambda>(k, v). f v) (by_scope bs)) = sum_list (map g bs)"
  proof (induction bs rule: rev_induct)
    case (snoc b bs)
    then show ?case using sum_js_map_set [OF by_scope_distinct [of bs], of f "br_scope b" "sync_row b (map_of (by_scope bs) (br_scope b))"]
      by (simp add: by_scope_snoc assms)
  qed (simp add: by_scope_def)
  then show ?thesis by (simp add: comp_def case_prod_beta')
qed


subsection \<open>One observation per source item\<close>

definition source_key :: "observation \<Rightarrow> string \<times> string option \<times> string" where
  "source_key o1 = (ob_app o1, ob_source_id o1, ob_scope o1)"

definition row_key :: "obs_row \<Rightarrow> string \<times> string option \<times> string" where
  "row_key r = (r_app r, r_source_id r, r_scope r)"

definition keyed_by :: "string \<Rightarrow> string \<Rightarrow> string \<Rightarrow> observation \<Rightarrow> bool" where
  "keyed_by app s scope o1 = (source_key o1 = (app, Some s, scope))"

text \<open>The log is readable, every record with a source id is indexed under its source key, and no key has two records.\<close>

definition twin_free :: "observe_world \<Rightarrow> bool" where
  "twin_free w =
     (distinct (map fst (ow_evidence w)) \<and> (\<forall>x \<in> set (l0_rows (ow_index w)). r_id x \<noteq> [])
      \<and> (\<exists>es. readAll (ow_evidence w) = Inr es
         \<and> (\<forall>app s scope. s \<noteq> [] \<longrightarrow> length (filter (keyed_by app s scope) es) \<le> 1
              \<and> (filter (keyed_by app s scope) es \<noteq> [] \<longrightarrow> (app, Some s, scope) \<in> row_key ` set (l0_rows (ow_index w))))))"

lemma dedup_fresh:
  assumes "dedup_stage p h idx = Inr None" and "truthy (op_idempotency_key p) = None" and "op_source_id p = Some s" and "s \<noteq> []"
    and "\<forall>x \<in> set (l0_rows idx). r_id x \<noteq> []"
  shows "(or_else (op_app p) ''mcp-client'', Some s, op_scope p) \<notin> row_key ` set (l0_rows idx)
    \<and> lookup_by r_id (''obs_'' @ h) (l0_rows idx) = None"
proof
  have none: "checkLegacySourceDedup idx (or_else (op_app p) ''mcp-client'') (op_source_id p) (op_scope p) = None"
    using assms(1,2) by (auto simp: dedup_stage_def split: idempotency_result.splits option.splits)
  show "lookup_by r_id (''obs_'' @ h) (l0_rows idx) = None"
    using assms(1,2) by (auto simp: dedup_stage_def split: idempotency_result.splits option.splits)
  have "checkDedup (or_else (op_app p) ''mcp-client'') s (op_scope p) idx = None"
  proof (rule ccontr)
    assume "checkDedup (or_else (op_app p) ''mcp-client'') s (op_scope p) idx \<noteq> None"
    then obtain x where x: "checkDedup (or_else (op_app p) ''mcp-client'') s (op_scope p) idx = Some (r_id x)"
        "List.find (\<lambda>x. r_app x = or_else (op_app p) ''mcp-client'' \<and> r_source_id x = Some s \<and> r_scope x = op_scope p) (l0_rows idx) = Some x"
      by (auto simp: checkDedup_def)
    then have "x \<in> set (l0_rows idx)" by (auto simp: find_Some_iff)
    then have "r_id x \<noteq> []" using assms(5) by blast
    then show False using none x(1) assms(3,4) by (simp add: checkLegacySourceDedup_def)
  qed
  then show "(or_else (op_app p) ''mcp-client'', Some s, op_scope p) \<notin> row_key ` set (l0_rows idx)"
    by (auto simp: checkDedup_def find_None_iff row_key_def)
qed

lemma new_observation_row:
  "r_id (obs_to_row (new_observation env config p oid h c idx)) = ''obs_'' @ h"
  "row_key (obs_to_row (new_observation env config p oid h c idx)) = (or_else (op_app p) ''mcp-client'', op_source_id p, op_scope p)"
  "source_key (new_observation env config p oid h c idx) = (or_else (op_app p) ''mcp-client'', op_source_id p, op_scope p)"
  "truthy (op_idempotency_key p) = None \<Longrightarrow> r_idempotency_key (obs_to_row (new_observation env config p oid h c idx)) = None"
  by (simp_all add: obs_to_row_def row_key_def source_key_def new_observation_def assignIntegrity_def Let_def split: prod.split)

lemma insert_fresh:
  assumes "(or_else (op_app p) ''mcp-client'', op_source_id p, op_scope p) \<notin> row_key ` set (l0_rows idx)"
    and "lookup_by r_id (''obs_'' @ h) (l0_rows idx) = None" and "truthy (op_idempotency_key p) = None"
  shows "l0_rows (insertOrSkip (new_observation env config p oid h c idx) idx) =
    l0_rows idx @ [obs_to_row (new_observation env config p oid h c idx)]"
proof -
  let ?r = "obs_to_row (new_observation env config p oid h c idx)"
  have "\<not> row_clash x ?r" if "x \<in> set (l0_rows idx)" for x
  proof -
    have "''obs_'' @ h \<notin> r_id ` set (l0_rows idx)" using assms(2) by (simp add: lookup_by_None_iff)
    then have "r_id x \<noteq> r_id ?r" using that by (metis image_eqI new_observation_row(1))
    moreover have "row_key x \<noteq> row_key ?r" using assms(1) that by (force simp: new_observation_row)
    ultimately show ?thesis using new_observation_row(4) [OF assms(3), of env config oid h c idx] by (auto simp: row_clash_def row_key_def)
  qed
  then show ?thesis by (auto simp: insertOrSkip_def list_ex_iff)
qed

lemma twin_free_append:
  assumes "twin_free w" and "obs = new_observation env config p oid h c (ow_index w)" and "op_source_id p = Some s" "s \<noteq> []"
    and "dedup_stage p h (ow_index w) = Inr None" and "truthy (op_idempotency_key p) = None"
    and "ow_evidence w' = appendObservation now obs (ow_evidence w)" and "ow_index w' = insertOrSkip obs (ow_index w)"
  shows "twin_free w'"
proof -
  let ?k = "(or_else (op_app p) ''mcp-client'', Some s, op_scope p)"
  obtain es where es: "readAll (ow_evidence w) = Inr es"
    and one: "\<And>app s scope. s \<noteq> [] \<Longrightarrow> length (filter (keyed_by app s scope) es) \<le> 1
      \<and> (filter (keyed_by app s scope) es \<noteq> [] \<longrightarrow> (app, Some s, scope) \<in> row_key ` set (l0_rows (ow_index w)))"
    using assms(1) unfolding twin_free_def by blast
  have days: "distinct (map fst (ow_evidence w))" and ids: "\<forall>x \<in> set (l0_rows (ow_index w)). r_id x \<noteq> []"
    using assms(1) by (auto simp: twin_free_def)
  have fresh: "?k \<notin> row_key ` set (l0_rows (ow_index w))" "lookup_by r_id (''obs_'' @ h) (l0_rows (ow_index w)) = None"
    using dedup_fresh [OF assms(5,6,3,4) ids] by auto
  have key: "source_key obs = ?k" using assms(2,3) by (simp add: new_observation_row)
  have rows: "l0_rows (ow_index w') = l0_rows (ow_index w) @ [obs_to_row obs]"
    using insert_fresh [of p "ow_index w" h env config oid c] fresh assms(2,3,6,8) by simp
  obtain es' where es': "readAll (ow_evidence w') = Inr es'" "mset es' = add_mset obs (mset es)"
    using read_all_append_one [OF days es [unfolded readAll_def], of "take 10 now" obs] assms(7)
    by (auto simp: readAll_def appendObservation_def appendObservationAt_def)
  have count: "length (filter P es') = length (filter P es) + (if P obs then 1 else 0)" for P
  proof -
    have "length (filter P es') = size (filter_mset P (add_mset obs (mset es)))" by (metis es'(2) mset_filter size_mset)
    also have "\<dots> = size (mset (filter P es)) + (if P obs then 1 else 0)" by simp
    finally show ?thesis by (simp only: size_mset)
  qed
  have "length (filter (keyed_by app t scope) es') \<le> 1
      \<and> (filter (keyed_by app t scope) es' \<noteq> [] \<longrightarrow> (app, Some t, scope) \<in> row_key ` set (l0_rows (ow_index w')))"
    if "t \<noteq> []" for app t scope
  proof (cases "(app, Some t, scope) = ?k")
    case True
    then have "filter (keyed_by app t scope) es = []" using one [OF that, of app scope] fresh(1) by blast
    moreover have "row_key (obs_to_row obs) = ?k" using assms(2,3) by (simp add: new_observation_row)
    ultimately show ?thesis using count [of "keyed_by app t scope"] rows True by simp
  next
    case False
    then have "\<not> keyed_by app t scope obs" using key by (auto simp: keyed_by_def)
    then have "length (filter (keyed_by app t scope) es') = length (filter (keyed_by app t scope) es)"
      using count [of "keyed_by app t scope"] by simp
    then show ?thesis using one [OF that, of app scope] rows by auto
  qed
  moreover have "distinct (map fst (ow_evidence w'))"
    using days assms(7) by (simp add: appendObservation_def appendObservationAt_def)
  moreover have "\<forall>x \<in> set (l0_rows (ow_index w')). r_id x \<noteq> []"
    using ids rows assms(2) by (auto simp: new_observation_row)
  ultimately show ?thesis using es'(1) unfolding twin_free_def by blast
qed

lemma twin_free_cong: "ow_evidence w' = ow_evidence w \<Longrightarrow> ow_index w' = ow_index w \<Longrightarrow> twin_free w' = twin_free w"
  by (simp add: twin_free_def)

lemma observe_item_twin_free:
  assumes "twin_free w" and "observe_item env config p source item w = (r, w')"
  shows "twin_free w'"
proof (cases "ii_external_id item = []")
  case True
  then show ?thesis using assms by (simp add: observe_item_def)
next
  case False
  obtain v w1 where run: "handleObserve env config None (item_params p source item) (w\<lparr>ow_ops := None\<rparr>) = (v, w1)" by (metis surj_pair)
  have w': "ow_evidence w' = ow_evidence w1" "ow_index w' = ow_index w1"
    using assms(2) False by (auto simp: observe_item_def run Let_def split: sum.splits protocol_error.splits)
  have "resolve_session now (item_params p source item) u = (Inr (item_params p source item), u)" for now u
    by (rule resolve_no_session) (simp add: item_params_def truthy_def)
  then have "twin_free w1"
    using handleObserve_writes [OF run] False assms(1)
      twin_free_append [of w _ env config "item_params p source item" _ _ _ "ii_external_id item" w1 "ev_now_iso env"]
    by (auto simp: item_params_def truthy_def twin_free_cong [of w1 w])
  then show ?thesis using w' by (simp add: twin_free_cong [of w' w1])
qed

lemma ingest_items_twin_free:
  "twin_free w \<Longrightarrow> ingest_items envs config p source i items rs w = (r, w') \<Longrightarrow> twin_free w'"
  by (induction envs config p source i items rs w rule: ingest_items.induct)
     (auto split: prod.splits sum.splits dest: observe_item_twin_free)

lemma handleIngest_twin_free:
  assumes "twin_free (iw_observe w)" and "handleIngest hash now tm envs config p w = (r, w')"
  shows "twin_free (iw_observe w')"
  using assms(2)
proof (cases rule: handleIngest_cases)
  case (interrupted source x rs ow)
  then show ?thesis using ingest_items_twin_free [OF assms(1)] by simp
next
  case (committed source rs ow b)
  then show ?thesis using ingest_items_twin_free [OF assms(1)] by simp
qed (use assms(1) in simp_all)


subsection \<open>Replays\<close>

lemma findBatch_append: "findBatch oid l = None \<Longrightarrow> findBatch oid (l @ [b]) = (if br_operation_id b = oid then Some b else None)"
  by (induction l) (auto simp: findBatch_def split: if_splits)

lemma replay_committed:
  assumes "ingest_context now config p = Inr source" and "findBatch (ip_operation_id p) (iw_ledger w) = Some b"
    and "br_payload_hash b = hash (batch_payload p source)"
  shows "handleIngest hash now tm envs config p w = (Inr \<lparr>ig_replayed = True, ig_batch = b\<rparr>, w)"
  using assms by (simp add: handleIngest_def)

lemma context_source:
  "ingest_context now config p = Inr s \<Longrightarrow> ingest_context now' config p = Inr s' \<Longrightarrow> s' = s"
  by (auto simp: ingest_context_def split: if_splits sum.splits)

subsection \<open>Runs\<close>

text \<open>What can happen to an installation: a call of the handler, or a crash of the process after some of the items
  of a batch were observed and before its receipt is recorded.\<close>

inductive ingest_run :: "(ingest_payload \<Rightarrow> string) \<Rightarrow> ingest_world \<Rightarrow> bool" for hash where
  fresh: "ow_evidence (iw_observe w) = [] \<Longrightarrow> l0_rows (ow_index (iw_observe w)) = [] \<Longrightarrow> iw_ledger w = [] \<Longrightarrow> ingest_run hash w"
| call: "ingest_run hash w \<Longrightarrow> ingest_run hash (snd (handleIngest hash now tm envs config p w))"
| crash: "ingest_run hash w \<Longrightarrow> ingest_context now config p = Inr source \<Longrightarrow> findBatch (ip_operation_id p) (iw_ledger w) = None
    \<Longrightarrow> ingest_run hash (w\<lparr>iw_observe := snd (ingest_items envs config p source 0 (take k (ip_items p)) [] (iw_observe w))\<rparr>)"

lemma twin_free_fresh: "ow_evidence w = [] \<Longrightarrow> l0_rows (ow_index w) = [] \<Longrightarrow> twin_free w"
  by (simp add: twin_free_def readAll_def read_all_def log_days_def)

lemma ingest_run_invariant: "ingest_run hash w \<Longrightarrow> ledger_ok (iw_ledger w) \<and> twin_free (iw_observe w)"
proof (induction rule: ingest_run.induct)
  case (fresh w)
  then show ?case by (simp add: ledger_ok_def stream_of_def twin_free_fresh)
next
  case (call w now tm envs config p)
  then show ?case
    using handleIngest_ledger_ok [of w hash now tm envs config p] handleIngest_twin_free [of w hash now tm envs config p]
    by (cases "handleIngest hash now tm envs config p w") simp
next
  case (crash w now config p source envs k)
  then show ?case
    using ingest_items_twin_free [of "iw_observe w" envs config p source 0 "take k (ip_items p)" "[]"]
    by (cases "ingest_items envs config p source 0 (take k (ip_items p)) [] (iw_observe w)") simp
qed

section \<open>Properties\<close>

text \<open>A committed batch is replayed, never repeated. After a call of the ingestion handler succeeds, the same call
  at any later time, in any environment, as long as the caller is still admitted, returns the recorded receipt with
  status replayed and changes nothing; a call that is not admitted changes nothing either.\<close>

lemma ingest_replays:
  assumes "handleIngest hash now tm envs config p w = (Inr r, w')" and "ingest_context now2 config p = Inr source"
  shows "handleIngest hash now2 at2 envs2 config p w' = (Inr \<lparr>ig_replayed = True, ig_batch = ig_batch r\<rparr>, w')
    \<and> (\<forall>q x u. ingest_context now2 config q = Inl x \<longrightarrow> handleIngest hash now2 at2 envs2 config q u = (Inl x, u))"
proof (rule conjI)
  show "handleIngest hash now2 at2 envs2 config p w' = (Inr \<lparr>ig_replayed = True, ig_batch = ig_batch r\<rparr>, w')"
    using assms(1)
  proof (cases rule: handleIngest_cases)
    case (replayed source' b)
    then show ?thesis using replay_committed [OF assms(2)] context_source [OF replayed(1) assms(2)] by simp
  next
    case (committed source' rs ow b)
    then show ?thesis
      using replay_committed [OF assms(2), of w' b] context_source [OF committed(1) assms(2)] by (simp add: findBatch_append)
  qed simp_all
qed (simp add: handleIngest_def)

text \<open>C4: The batch ledger and the evidence stay consistent under any sequence of ingestion calls and crashes between
  items. No operation id has two receipts; the receipts of a source and scope form a chain, each one starting at the
  cursor the previous one reached; and however often batches are retried, repeated under new operation ids or overlap,
  the evidence log never holds two observations of the same source item.\<close>

theorem ingest_runs_consistent:
  assumes "ingest_run hash w"
  shows "distinct (map br_operation_id (iw_ledger w))
    \<and> (\<forall>sid scope. chained_from None (stream_of sid scope (iw_ledger w)))
    \<and> (\<exists>es. readAll (ow_evidence (iw_observe w)) = Inr es
         \<and> (\<forall>app s scope. s \<noteq> [] \<longrightarrow> length (filter (\<lambda>e. ob_app e = app \<and> ob_source_id e = Some s \<and> ob_scope e = scope) es) \<le> 1))"
proof -
  note inv = ingest_run_invariant [OF assms]
  obtain es where es: "readAll (ow_evidence (iw_observe w)) = Inr es"
    "\<And>app s scope. s \<noteq> [] \<Longrightarrow> length (filter (keyed_by app s scope) es) \<le> 1"
    using inv unfolding twin_free_def by blast
  have "keyed_by app s scope = (\<lambda>e. ob_app e = app \<and> ob_source_id e = Some s \<and> ob_scope e = scope)" for app s scope
    by (rule ext) (auto simp: keyed_by_def source_key_def)
  then show ?thesis using inv es unfolding ledger_ok_def by auto
qed

text \<open>The sync status is a fold of the ledger. For each source it reports, the row of a scope exists exactly when
  the source has batches in it and holds the last batch's cursors and the sums of the counts of all of them, and the
  totals are the sums over every batch of the source, whatever order the rows are sorted into.\<close>

lemma sync_status_is_ledger_fold:
  assumes "\<And>rows. mset (collate rows) = mset rows"
  shows "let st = source_status_of collate l e; bs = listBatches (src_id e) l in
      (\<forall>row. row \<in> set (sq_scopes st) \<longleftrightarrow> stream_row (sy_scope row) (stream_of (src_id e) (sy_scope row) l) = Some row)
    \<and> distinct (map sy_scope (sq_scopes st))
    \<and> sq_batches st = length bs \<and> sq_accepted st = sum_list (map br_accepted bs)
    \<and> sq_duplicated st = sum_list (map br_duplicated bs) \<and> sq_quarantined st = sum_list (map br_quarantined bs)
    \<and> sq_rejected st = sum_list (map br_rejected bs)"
proof -
  let ?bs = "listBatches (src_id e) l"
  let ?rows = "map snd (by_scope ?bs)"
  have key: "map sy_scope ?rows = map fst (by_scope ?bs)" by (rule by_scope_keys)
  have stream: "filter (\<lambda>b. br_scope b = scope) ?bs = stream_of (src_id e) scope l" for scope
    by (simp add: listBatches_def stream_of_def conj_commute)
  have "row \<in> set ?rows \<longleftrightarrow> map_of (by_scope ?bs) (sy_scope row) = Some row" for row
  proof
    assume "row \<in> set ?rows"
    then obtain k where "(k, row) \<in> set (by_scope ?bs)" by auto
    then show "map_of (by_scope ?bs) (sy_scope row) = Some row" using by_scope_key_of by_scope_distinct by (metis map_of_is_SomeI)
  next
    assume "map_of (by_scope ?bs) (sy_scope row) = Some row"
    then have "(sy_scope row, row) \<in> set (by_scope ?bs)" by (rule map_of_SomeD)
    then show "row \<in> set ?rows" by force
  qed
  then have "row \<in> set (collate ?rows) \<longleftrightarrow> stream_row (sy_scope row) (stream_of (src_id e) (sy_scope row) l) = Some row" for row
    using assms [of ?rows, THEN mset_eq_setD] by (simp only: by_scope_row stream)
  moreover have "distinct (map sy_scope (collate ?rows))"
  proof -
    have "mset (map sy_scope (collate ?rows)) = mset (map sy_scope ?rows)" using assms [of ?rows] by (simp only: mset_map)
    then show ?thesis using key by_scope_distinct [of ?bs] mset_eq_imp_distinct_iff by metis
  qed
  moreover have "sum_list (map f (collate ?rows)) = sum_list (map f ?rows)" for f :: "sync_scope \<Rightarrow> nat"
    using assms [of ?rows] by (metis mset_map sum_mset_sum_list)
  moreover have "sum_list (map sy_accepted ?rows) = sum_list (map br_accepted ?bs)"
    "sum_list (map sy_duplicated ?rows) = sum_list (map br_duplicated ?bs)"
    "sum_list (map sy_quarantined ?rows) = sum_list (map br_quarantined ?bs)"
    "sum_list (map sy_rejected ?rows) = sum_list (map br_rejected ?bs)"
    by (rule by_scope_total, simp add: sync_row_def)+
  ultimately show ?thesis by (simp add: source_status_of_def Let_def del: map_map)
qed


section \<open>A concrete batch\<close>

definition demo_source :: source_entry where
  "demo_source = \<lparr>src_id = ''mail'', src_kind = SKConnector, src_display_name = ''Mail'', src_status = SActive, src_created_at = ''t'',
     src_actor_ids = None, src_external_ref = None\<rparr>"

definition demo_item :: "string \<Rightarrow> ingest_item" where
  "demo_item x = \<lparr>ii_external_id = x, ii_type = T_message, ii_content = Some \<lparr>co_format = ''text/plain'', co_body = JStr ''hello''\<rparr>,
     ii_observed_at = None, ii_visibility = None, ii_sensitive = None, ii_informed_by = None, ii_parent_ids = None\<rparr>"

definition demo_batch :: ingest_params where
  "demo_batch = \<lparr>ip_actor = \<lparr>ac_type = Person, ac_id = ''user:local'', ac_display_name = ''A''\<rparr>, ip_source_id = ''mail'', ip_scope = ''self'',
     ip_cursor = ''c1'', ip_operation_id = ''op_00000000000000000000000009'', ip_items = [demo_item ''m1'', demo_item ''m1'', demo_item []],
     ip_app = None\<rparr>"

definition demo_ingest_config :: smartware_config where
  "demo_ingest_config = demo_config\<lparr>cfg_sources := Some [demo_source]\<rparr>"

definition demo_ingest_world :: ingest_world where
  "demo_ingest_world = \<lparr>iw_observe = demo_world, iw_ledger = []\<rparr>"

definition demo_ingest :: "ingest_result outcome \<times> ingest_world" where
  "demo_ingest = handleIngest (\<lambda>pl. ''h'') 0 ''t'' (\<lambda>i. demo_env) demo_ingest_config demo_batch demo_ingest_world"

definition demo_receipt :: batch_record where
  "demo_receipt = make_batch demo_batch demo_source ''h'' None
     [\<lparr>ir_external_id = ''m1'', ir_status = IAccepted, ir_observation_id = Some (''obs_'' @ replicate 64 (CHR ''a'')), ir_code = None\<rparr>,
      \<lparr>ir_external_id = ''m1'', ir_status = IDuplicated, ir_observation_id = Some (''obs_'' @ replicate 64 (CHR ''a'')), ir_code = None\<rparr>,
      \<lparr>ir_external_id = [], ir_status = IRejected, ir_observation_id = None, ir_code = Some ''invalid_parameter''\<rparr>] ''t''"

lemma demo_ingest_facts: "map_prod (map_sum (\<lambda>x. ()) ig_batch) iw_ledger demo_ingest = (Inr demo_receipt, [demo_receipt])"
  by code_simp

lemma demo_receipt_counts: "(br_accepted demo_receipt, br_duplicated demo_receipt, br_rejected demo_receipt) = (1, 1, 1)"
  by code_simp

lemma demo_ingest_ok:
  "is_ok (fst demo_ingest)" "br_accepted (ig_batch (projr (fst demo_ingest))) = 1" "iw_ledger (snd demo_ingest) \<noteq> []"
  "sum_list (map br_duplicated (listBatches ''mail'' (iw_ledger (snd demo_ingest)))) = 1"
proof -
  obtain v u where vu: "demo_ingest = (v, u)" by (cases demo_ingest)
  then have "map_sum (\<lambda>x. ()) ig_batch v = Inr demo_receipt" and u: "iw_ledger u = [demo_receipt]"
    using demo_ingest_facts by (simp_all add: vu)
  then obtain r where "v = Inr r" "ig_batch r = demo_receipt" by (cases v) auto
  moreover have "br_source_id demo_receipt = ''mail''" by (simp add: demo_receipt_def demo_source_def)
  ultimately show "is_ok (fst demo_ingest)" "br_accepted (ig_batch (projr (fst demo_ingest))) = 1" "iw_ledger (snd demo_ingest) \<noteq> []"
    "sum_list (map br_duplicated (listBatches ''mail'' (iw_ledger (snd demo_ingest)))) = 1"
    using u demo_receipt_counts by (simp_all add: vu listBatches_def)
qed

lemma demo_ingest_run:
  "handleIngest (\<lambda>pl. ''h'') 0 ''t'' (\<lambda>i. demo_env) demo_ingest_config demo_batch demo_ingest_world
   = (Inr (projr (fst demo_ingest)), snd demo_ingest)"
  using demo_ingest_ok(1) by (cases "fst demo_ingest") (simp_all add: demo_ingest_def [symmetric] prod_eq_iff)

lemma ingest_replays_example:
  "br_accepted (ig_batch (projr (fst demo_ingest))) = 1
   \<and> handleIngest (\<lambda>pl. ''h'') 7 ''t2'' (\<lambda>i. demo_env) demo_ingest_config demo_batch (snd demo_ingest)
     = (Inr \<lparr>ig_replayed = True, ig_batch = ig_batch (projr (fst demo_ingest))\<rparr>, snd demo_ingest)"
proof -
  have "ingest_context 7 demo_ingest_config demo_batch = Inr demo_source" by code_simp
  then show ?thesis using ingest_replays [OF demo_ingest_run, of 7 demo_source] demo_ingest_ok(2) by simp
qed

theorem ingest_runs_consistent_witness:
  "iw_ledger (snd demo_ingest) \<noteq> [] \<and> distinct (map br_operation_id (iw_ledger (snd demo_ingest)))"
proof
  have "ingest_run (\<lambda>pl. ''h'') demo_ingest_world"
    by (rule ingest_run.fresh) (simp_all add: demo_ingest_world_def demo_world_def)
  then have "ingest_run (\<lambda>pl. ''h'') (snd demo_ingest)" unfolding demo_ingest_def by (rule ingest_run.call)
  then show "distinct (map br_operation_id (iw_ledger (snd demo_ingest)))" using ingest_runs_consistent by blast
  show "iw_ledger (snd demo_ingest) \<noteq> []" by (rule demo_ingest_ok(3))
qed

lemma sync_status_is_ledger_fold_example:
  "sq_duplicated (source_status_of rev (iw_ledger (snd demo_ingest)) demo_source) = 1
   \<and> sum_list (map br_duplicated (listBatches ''mail'' (iw_ledger (snd demo_ingest)))) = 1"
proof -
  have "sq_duplicated (source_status_of rev (iw_ledger (snd demo_ingest)) demo_source) =
      sum_list (map br_duplicated (listBatches ''mail'' (iw_ledger (snd demo_ingest))))"
    using sync_status_is_ledger_fold [of rev "iw_ledger (snd demo_ingest)" demo_source] by (simp add: Let_def demo_source_def)
  then show ?thesis using demo_ingest_ok(4) by simp
qed

end
