(* ===== verification/Holds.thy ===== *)
theory Holds
  imports Recovery Auth
begin

text \<open>
  Legal holds: the release of a hold (\<^verbatim>\<open>protocol/hold_release.ts\<close>) and the hold that offboarding a scope opens
  (\<^verbatim>\<open>protocol/forget_scope.ts\<close>). The world is \<^verbatim>\<open>config.json\<close> on disk and the operations log; the caller's
  in-memory configuration, which only decides who owns the pod, is an argument of its own. The payload digest is a
  parameter.
\<close>

section \<open>Data\<close>

record hold_release_params =
  hr_actor :: actor
  hr_scope :: string
  hr_operation_id :: string
  hr_statement :: "string option"

record hold_release_result =
  hx_scope :: string
  hx_released_at :: string
  hx_released_by :: string
  hx_statement :: "string option"
  hx_operation_id :: string

record release_payload =
  hp_actor_id :: string
  hp_scope :: string
  hp_statement :: "string option"

record recorded_release =
  rr_released_at :: string
  rr_released_by :: string
  rr_statement :: "string option"
  rr_hold_operation_id :: "string option"

record release_world =
  rw_config :: smartware_config
  rw_ops :: ops_dir

section \<open>Opening a hold\<close>

definition open_hold :: "string \<Rightarrow> string \<Rightarrow> string option \<Rightarrow> string \<Rightarrow> smartware_config \<Rightarrow> smartware_config" where
  "open_hold now actorId oid scope config =
     config\<lparr>cfg_holds := js_map_set scope
       \<lparr>lh_scope = scope, lh_opened_at = now, lh_opened_by = actorId, lh_operation_id = oid, lh_released_at = None,
        lh_released_by = None, lh_release_operation_id = None, lh_release_statement = None\<rparr> (cfg_holds config)\<rparr>"

section \<open>Releasing a hold\<close>

definition releasePayload :: "hold_release_params \<Rightarrow> release_payload" where
  "releasePayload p = \<lparr>hp_actor_id = ac_id (hr_actor p), hp_scope = hr_scope p, hp_statement = hr_statement p\<rparr>"

definition released :: "string \<Rightarrow> string \<Rightarrow> string \<Rightarrow> string option \<Rightarrow> legal_hold \<Rightarrow> legal_hold" where
  "released tm by_actor oid statement h =
     h\<lparr>lh_released_at := Some tm, lh_released_by := Some by_actor, lh_release_operation_id := Some oid,
       lh_release_statement := statement\<rparr>"

definition convergeReleasedHold :: "string \<Rightarrow> string \<Rightarrow> recorded_release \<Rightarrow> smartware_config \<Rightarrow> smartware_config" where
  "convergeReleasedHold scope oid rec config =
     (case (rr_hold_operation_id rec, map_of (cfg_holds config) scope) of
        (Some duty, Some h) \<Rightarrow>
          if lh_released_at h \<noteq> None then config
          else if lh_operation_id h \<noteq> Some duty then config
          else config\<lparr>cfg_holds := js_map_set scope
                 (released (rr_released_at rec) (rr_released_by rec) oid (rr_statement rec) h) (cfg_holds config)\<rparr>
      | _ \<Rightarrow> config)"

definition opt_string :: "string option \<Rightarrow> json" where
  "opt_string v = (case v of None \<Rightarrow> JNull | Some s \<Rightarrow> JStr s)"

definition detail_string :: "op_entry \<Rightarrow> string \<Rightarrow> string option" where
  "detail_string e k = (case entry_detail e k of Some (JStr s) \<Rightarrow> Some s | _ \<Rightarrow> None)"

definition release_entry :: "hold_release_params \<Rightarrow> string \<Rightarrow> string \<Rightarrow> string \<Rightarrow> string option \<Rightarrow> string option \<Rightarrow> op_entry" where
  "release_entry p payloadHash tm by_actor statement duty =
     \<lparr>oe_operation_id = hr_operation_id p, oe_actor_id = ac_id (hr_actor p), oe_timestamp = tm, oe_op = ''hold.release'',
      oe_details = Some [(''payload_hash'', JStr payloadHash), (''scope'', JStr (hr_scope p)), (''released_at'', JStr tm),
        (''released_by'', JStr by_actor), (''statement'', opt_string statement), (''hold_operation_id'', opt_string duty)]\<rparr>"

definition release_result :: "hold_release_params \<Rightarrow> string \<Rightarrow> string \<Rightarrow> string option \<Rightarrow> hold_release_result" where
  "release_result p tm by_actor statement =
     \<lparr>hx_scope = hr_scope p, hx_released_at = tm, hx_released_by = by_actor, hx_statement = statement,
      hx_operation_id = hr_operation_id p\<rparr>"

definition release_context :: "smartware_config \<Rightarrow> hold_release_params \<Rightarrow> unit outcome" where
  "release_context config p =
     (if hr_scope p = [] then Inl (ProtocolError ''invalid_parameter'' NoDetails)
      else if hr_scope p = ''self'' \<or> hr_scope p = ''workspace'' then Inl (ProtocolError ''invalid_parameter'' NoDetails)
      else if \<not> isValidOperationId (hr_operation_id p) then Inl (ProtocolError ''invalid_parameter'' NoDetails)
      else if (case hr_statement p of None \<Rightarrow> False | Some s \<Rightarrow> js_trim s = [])
      then Inl (ProtocolError ''invalid_parameter'' NoDetails)
      else requireOwner (ac_id (hr_actor p)) config)"

definition prior_release :: "string \<Rightarrow> op_entry list \<Rightarrow> op_entry option" where
  "prior_release oid es = List.find (\<lambda>e. oe_operation_id e = oid \<and> oe_op e = ''hold.release'') es"

definition replay_release :: "string \<Rightarrow> hold_release_params \<Rightarrow> op_entry \<Rightarrow> release_world \<Rightarrow> hold_release_result outcome \<times> release_world" where
  "replay_release payloadHash p prior w =
     (if oe_actor_id prior \<noteq> ac_id (hr_actor p) \<or> entry_detail prior ''payload_hash'' \<noteq> Some (JStr payloadHash)
      then (Inl (ProtocolError ''conflict'' NoDetails), w)
      else case (detail_string prior ''released_at'', detail_string prior ''released_by'') of
        (Some tm, Some by_actor) \<Rightarrow>
          (let rec = \<lparr>rr_released_at = tm, rr_released_by = by_actor, rr_statement = detail_string prior ''statement'',
                      rr_hold_operation_id = detail_string prior ''hold_operation_id''\<rparr> in
           (Inr (release_result p tm by_actor (rr_statement rec)),
            w\<lparr>rw_config := convergeReleasedHold (hr_scope p) (hr_operation_id p) rec (rw_config w)\<rparr>))
      | _ \<Rightarrow> (Inl (ProtocolError ''conflict'' NoDetails), w))"

text \<open>The receipt, written last.\<close>

definition write_receipt ::
  "string \<Rightarrow> hold_release_params \<Rightarrow> string \<Rightarrow> string \<Rightarrow> string option \<Rightarrow> string option \<Rightarrow> release_world
     \<Rightarrow> hold_release_result outcome \<times> release_world" where
  "write_receipt payloadHash p tm by_actor statement duty w =
     (case appendOpLogEntry (release_entry p payloadHash tm by_actor statement duty) (rw_ops w) of
        (Inl x, ops) \<Rightarrow> (Inl x, w\<lparr>rw_ops := ops\<rparr>)
      | (Inr _, ops) \<Rightarrow> (Inr (release_result p tm by_actor statement), w\<lparr>rw_ops := ops\<rparr>))"

text \<open>The configuration write that comes before the receipt.\<close>

definition publish_release :: "string \<Rightarrow> hold_release_params \<Rightarrow> legal_hold \<Rightarrow> smartware_config \<Rightarrow> smartware_config" where
  "publish_release now p h config =
     config\<lparr>cfg_holds := js_map_set (hr_scope p)
       (released now (ac_id (hr_actor p)) (hr_operation_id p) (hr_statement p) h) (cfg_holds config)\<rparr>"

definition handleHoldRelease ::
  "(release_payload \<Rightarrow> string) \<Rightarrow> string \<Rightarrow> smartware_config \<Rightarrow> hold_release_params \<Rightarrow> release_world
     \<Rightarrow> hold_release_result outcome \<times> release_world" where
  "handleHoldRelease hash now config p w =
     (case release_context config p of
        Inl x \<Rightarrow> (Inl x, w)
      | Inr _ \<Rightarrow>
          (let payloadHash = hash (releasePayload p) in
           case readAllOpLogEntries (rw_ops w) of
             Inl x \<Rightarrow> (Inl x, w)
           | Inr es \<Rightarrow>
               (case prior_release (hr_operation_id p) es of
                  Some prior \<Rightarrow> replay_release payloadHash p prior w
                | None \<Rightarrow>
                    (case map_of (cfg_holds (rw_config w)) (hr_scope p) of
                       None \<Rightarrow> (Inl (ProtocolError ''no_open_hold'' NoDetails), w)
                     | Some h \<Rightarrow>
                         (case lh_released_at h of
                            None \<Rightarrow>
                              write_receipt payloadHash p now (ac_id (hr_actor p)) (hr_statement p) (lh_operation_id h)
                                (w\<lparr>rw_config := publish_release now p h (rw_config w)\<rparr>)
                          | Some tm \<Rightarrow>
                              if lh_release_operation_id h \<noteq> Some (hr_operation_id p)
                              then (Inl (ProtocolError ''no_open_hold'' NoDetails), w)
                              else if lh_release_statement h \<noteq> hr_statement p
                              then (Inl (ProtocolError ''conflict'' NoDetails), w)
                              else write_receipt payloadHash p tm
                                     (case lh_released_by h of Some b \<Rightarrow> b | None \<Rightarrow> ac_id (hr_actor p))
                                     (lh_release_statement h) (lh_operation_id h) w)))))"

section \<open>Lemmas\<close>

lemma find_eq_filter: "List.find P es = (case filter P es of [] \<Rightarrow> None | e # _ \<Rightarrow> Some e)"
  by (induction es) auto

lemma release_entry_simps [simp]:
  "oe_operation_id (release_entry p h tm b st duty) = hr_operation_id p" "oe_op (release_entry p h tm b st duty) = ''hold.release''"
  "oe_actor_id (release_entry p h tm b st duty) = ac_id (hr_actor p)" "oe_timestamp (release_entry p h tm b st duty) = tm"
  "entry_detail (release_entry p h tm b st duty) ''payload_hash'' = Some (JStr h)"
  "detail_string (release_entry p h tm b st duty) ''released_at'' = Some tm"
  "detail_string (release_entry p h tm b st duty) ''released_by'' = Some b"
  "detail_string (release_entry p h tm b st duty) ''statement'' = st"
  "detail_string (release_entry p h tm b st duty) ''hold_operation_id'' = duty"
  by (simp_all add: release_entry_def entry_detail_def detail_string_def opt_string_def split: option.split)

lemma released_simps [simp]:
  "lh_released_at (released tm b oid st h) = Some tm" "lh_released_by (released tm b oid st h) = Some b"
  "lh_release_operation_id (released tm b oid st h) = Some oid" "lh_release_statement (released tm b oid st h) = st"
  "lh_operation_id (released tm b oid st h) = lh_operation_id h"
  by (simp_all add: released_def)

lemma converge_idem [simp]: "convergeReleasedHold scope oid rec (convergeReleasedHold scope oid rec config) = convergeReleasedHold scope oid rec config"
  by (auto simp: convergeReleasedHold_def split: option.splits)

lemma converge_other: "s \<noteq> scope \<Longrightarrow> map_of (cfg_holds (convergeReleasedHold scope oid rec config)) s = map_of (cfg_holds config) s"
  by (auto simp: convergeReleasedHold_def split: option.splits)

lemma converge_lifts:
  assumes "isScopeHeld config s" and "\<not> isScopeHeld (convergeReleasedHold scope oid rec config) s"
  shows "s = scope \<and> (\<exists>h. map_of (cfg_holds config) scope = Some h \<and> lh_operation_id h \<noteq> None
    \<and> lh_operation_id h = rr_hold_operation_id rec)"
proof -
  have "s = scope"
  proof (rule ccontr)
    assume "s \<noteq> scope"
    then show False using assms converge_other [of s scope oid rec config] by (simp add: isScopeHeld_def)
  qed
  then show ?thesis using assms by (auto simp: isScopeHeld_def convergeReleasedHold_def split: option.splits if_splits)
qed

lemma write_receipt_eq:
  assumes "isValidOperationId (hr_operation_id p)" and "ac_id (hr_actor p) \<noteq> []" and "tm \<noteq> []"
  shows "write_receipt h p tm b st duty w =
    (Inr (release_result p tm b st), w\<lparr>rw_ops := append_day (dayOfTimestamp tm) [Line (release_entry p h tm b st duty)] (rw_ops w)\<rparr>)"
  using assms by (simp add: write_receipt_def appendOpLogEntry_def appendOpLogEntry_eq entry_rejected_def)

lemma prior_after_receipt:
  assumes "distinct (map fst ops)" and "readAllOpLogEntries ops = Inr es" and "prior_release oid es = None"
    and "oe_operation_id e = oid" and "oe_op e = ''hold.release''"
  shows "\<exists>es'. readAllOpLogEntries (append_day day [Line e] ops) = Inr es' \<and> prior_release oid es' = Some e"
proof -
  obtain es' where es': "read_all (append_day day [Line e] ops) = Inr es'" "mset es' = add_mset e (mset es)"
    using read_all_append_one [OF assms(1), of es day e] assms(2) by (auto simp: readAllOpLogEntries_def)
  have "filter (\<lambda>e. oe_operation_id e = oid \<and> oe_op e = ''hold.release'') es = []"
    using assms(3) by (auto simp: prior_release_def find_None_iff filter_empty_conv)
  then have "filter (\<lambda>e. oe_operation_id e = oid \<and> oe_op e = ''hold.release'') es' = [e]"
    using filter_one [OF es'(2), of "\<lambda>e. oe_operation_id e = oid \<and> oe_op e = ''hold.release''"] assms(4,5) by simp
  then show ?thesis using es'(1) by (auto simp: readAllOpLogEntries_def prior_release_def find_eq_filter)
qed

text \<open>A call in a world with the receipt of the same act answers from the receipt.\<close>

lemma replay_receipt:
  assumes "release_context config p = Inr u" and "readAllOpLogEntries (rw_ops w) = Inr es"
    and "prior_release (hr_operation_id p) es = Some (release_entry p (hash (releasePayload p)) tm b st duty)"
  shows "handleHoldRelease hash now config p w = (Inr (release_result p tm b st),
    w\<lparr>rw_config := convergeReleasedHold (hr_scope p) (hr_operation_id p)
        \<lparr>rr_released_at = tm, rr_released_by = b, rr_statement = st, rr_hold_operation_id = duty\<rparr> (rw_config w)\<rparr>)"
  using assms by (simp add: handleHoldRelease_def replay_release_def Let_def)

lemma release_fresh:
  assumes "release_context config p = Inr u" and "readAllOpLogEntries (rw_ops w) = Inr es"
    and "prior_release (hr_operation_id p) es = None" and "map_of (cfg_holds (rw_config w)) (hr_scope p) = Some h"
    and "lh_released_at h = None"
  shows "handleHoldRelease hash now config p w =
    write_receipt (hash (releasePayload p)) p now (ac_id (hr_actor p)) (hr_statement p) (lh_operation_id h)
      (w\<lparr>rw_config := publish_release now p h (rw_config w)\<rparr>)"
  using assms by (simp add: handleHoldRelease_def)

lemma release_resumed:
  assumes "release_context config p = Inr u" and "readAllOpLogEntries (rw_ops w) = Inr es"
    and "prior_release (hr_operation_id p) es = None"
    and "map_of (cfg_holds (rw_config w)) (hr_scope p) = Some (released tm (ac_id (hr_actor p)) (hr_operation_id p) (hr_statement p) h)"
  shows "handleHoldRelease hash now config p w =
    write_receipt (hash (releasePayload p)) p tm (ac_id (hr_actor p)) (hr_statement p) (lh_operation_id h) w"
  using assms by (simp add: handleHoldRelease_def)

lemma context_valid: "release_context config p = Inr u \<Longrightarrow> isValidOperationId (hr_operation_id p) \<and> isOwner (ac_id (hr_actor p)) config"
  by (auto simp: release_context_def requireOwner_def split: if_splits option.splits)

section \<open>Properties\<close>

text \<open>C29: A legal hold is lifted only by its owner and only with a receipt that names it. Whenever a scope is held before
  a call of the release handler and not after it, the call was the owner's and was about that scope, and the operations
  log holds a receipt of this operation which names the duty that was lifted, the operation that opened the hold.\<close>

theorem hold_lifted_only_with_receipt:
  assumes "handleHoldRelease hash now config p w = (r, w')" and "isScopeHeld (rw_config w) s" and "\<not> isScopeHeld (rw_config w') s"
    and "distinct (map fst (rw_ops w))" and "now \<noteq> []" and "owner_id config \<noteq> []"
  shows "s = hr_scope p \<and> isOwner (ac_id (hr_actor p)) config
    \<and> (\<exists>h e es. map_of (cfg_holds (rw_config w)) s = Some h \<and> readAllOpLogEntries (rw_ops w') = Inr es \<and> e \<in> set es
        \<and> oe_op e = ''hold.release'' \<and> oe_operation_id e = hr_operation_id p \<and> oe_actor_id e = ac_id (hr_actor p)
        \<and> detail_string e ''hold_operation_id'' = lh_operation_id h)"
proof -
  obtain u where ctx: "release_context config p = Inr u"
    using assms(1-3) by (cases "release_context config p") (auto simp: handleHoldRelease_def)
  note valid = context_valid [OF ctx]
  then have actor: "ac_id (hr_actor p) \<noteq> []" using assms(6) by (auto simp: isOwner_def)
  obtain es where es: "readAllOpLogEntries (rw_ops w) = Inr es"
    using assms(1-3) ctx by (cases "readAllOpLogEntries (rw_ops w)") (auto simp: handleHoldRelease_def)
  show ?thesis
  proof (cases "prior_release (hr_operation_id p) es")
    case (Some prior)
    then have run: "replay_release (hash (releasePayload p)) p prior w = (r, w')"
      using assms(1) ctx es by (simp add: handleHoldRelease_def)
    then obtain rec where rec: "rw_ops w' = rw_ops w" "oe_actor_id prior = ac_id (hr_actor p)"
        "rw_config w' = convergeReleasedHold (hr_scope p) (hr_operation_id p) rec (rw_config w)"
        "rr_hold_operation_id rec = detail_string prior ''hold_operation_id''"
      using assms(2,3) by (auto simp: replay_release_def Let_def split: if_splits option.splits)
    obtain h where "s = hr_scope p" "map_of (cfg_holds (rw_config w)) s = Some h" "lh_operation_id h = detail_string prior ''hold_operation_id''"
      using converge_lifts [OF assms(2), of "hr_scope p" "hr_operation_id p" rec] assms(3) rec(3,4) by auto
    moreover have "prior \<in> set es" "oe_op prior = ''hold.release''" "oe_operation_id prior = hr_operation_id p"
      using Some by (auto simp: prior_release_def find_Some_iff)
    ultimately show ?thesis using valid rec(1,2) es by auto
  next
    case None
    obtain h where h: "map_of (cfg_holds (rw_config w)) (hr_scope p) = Some h"
      using assms(1-3) ctx es None by (cases "map_of (cfg_holds (rw_config w)) (hr_scope p)") (auto simp: handleHoldRelease_def)
    have "write_receipt a p b c d e w = (r, w') \<Longrightarrow> rw_config w' = rw_config w" for a b c d e
      by (auto simp: write_receipt_def split: prod.splits sum.splits)
    then have tm: "lh_released_at h = None"
      using assms(1-3) ctx es None h by (cases "lh_released_at h") (auto simp: handleHoldRelease_def split: if_splits)
    let ?e = "release_entry p (hash (releasePayload p)) now (ac_id (hr_actor p)) (hr_statement p) (lh_operation_id h)"
    have w': "w' = w\<lparr>rw_config := publish_release now p h (rw_config w), rw_ops := append_day (dayOfTimestamp now) [Line ?e] (rw_ops w)\<rparr>"
      using assms(1) release_fresh [OF ctx es None h tm, of hash now] write_receipt_eq [OF conjunct1 [OF valid] actor assms(5)] by simp
    have "s = hr_scope p"
    proof (rule ccontr)
      assume "s \<noteq> hr_scope p"
      then show False using assms(2,3) w' by (simp add: isScopeHeld_def publish_release_def)
    qed
    moreover obtain es' where "readAllOpLogEntries (rw_ops w') = Inr es'" "prior_release (hr_operation_id p) es' = Some ?e"
      using prior_after_receipt [OF assms(4) es None, of ?e "dayOfTimestamp now"] w' by auto
    moreover from this(2) have "?e \<in> set es'" by (auto simp: prior_release_def find_Some_iff simp del: release_entry_simps)
    ultimately show ?thesis using valid h by fastforce
  qed
qed

text \<open>Releasing a hold survives crashes and replays, and never lifts a later duty. When an open hold is released, a
  crash after the configuration write and before the receipt is completed by the same call at any later time, with the
  same result and the same final state as the undisturbed call; repeating the finished call returns the same result and
  changes nothing; if the configuration write is lost although the receipt exists, the repeated call restores it, when the
  hold was opened under an operation id; and if the scope was meanwhile put on hold again by another operation, the
  repeated call leaves that hold open.\<close>

lemma hold_release_crash_converges:
  assumes "release_context config p = Inr u" and "readAllOpLogEntries (rw_ops w) = Inr es"
    and "prior_release (hr_operation_id p) es = None" and "map_of (cfg_holds (rw_config w)) (hr_scope p) = Some h"
    and "lh_released_at h = None" and "distinct (map fst (rw_ops w))" and "now \<noteq> []" and "owner_id config \<noteq> []"
  shows "\<exists>r w'. handleHoldRelease hash now config p w = (Inr r, w') \<and> \<not> isScopeHeld (rw_config w') (hr_scope p)
    \<and> handleHoldRelease hash later config p (w\<lparr>rw_config := publish_release now p h (rw_config w)\<rparr>) = (Inr r, w')
    \<and> handleHoldRelease hash later config p w' = (Inr r, w')
    \<and> (lh_operation_id h \<noteq> None \<longrightarrow> handleHoldRelease hash later config p (w'\<lparr>rw_config := rw_config w\<rparr>) = (Inr r, w'))
    \<and> (\<forall>t a oid c. oid \<noteq> lh_operation_id h \<longrightarrow> (let u = w'\<lparr>rw_config := open_hold t a oid (hr_scope p) c\<rparr> in
          handleHoldRelease hash later config p u = (Inr r, u) \<and> isScopeHeld (rw_config u) (hr_scope p)))"
proof -
  note valid = context_valid [OF assms(1)]
  then have actor: "ac_id (hr_actor p) \<noteq> []" using assms(8) by (auto simp: isOwner_def)
  let ?r = "release_result p now (ac_id (hr_actor p)) (hr_statement p)"
  let ?e = "release_entry p (hash (releasePayload p)) now (ac_id (hr_actor p)) (hr_statement p) (lh_operation_id h)"
  let ?c = "publish_release now p h (rw_config w)" and ?ops = "append_day (dayOfTimestamp now) [Line ?e] (rw_ops w)"
  let ?rec = "\<lparr>rr_released_at = now, rr_released_by = ac_id (hr_actor p), rr_statement = hr_statement p, rr_hold_operation_id = lh_operation_id h\<rparr>"
  let ?w' = "w\<lparr>rw_config := ?c, rw_ops := ?ops\<rparr>"
  note receipt = write_receipt_eq [OF conjunct1 [OF valid] actor assms(7)]
  have c: "map_of (cfg_holds ?c) (hr_scope p) = Some (released now (ac_id (hr_actor p)) (hr_operation_id p) (hr_statement p) h)"
    by (simp add: publish_release_def)
  have 1: "handleHoldRelease hash now config p w = (Inr ?r, ?w')"
    using release_fresh [OF assms(1-5), of hash now] receipt by simp
  have 2: "handleHoldRelease hash later config p (w\<lparr>rw_config := ?c\<rparr>) = (Inr ?r, ?w')"
    using release_resumed [OF assms(1) _ assms(3), of "w\<lparr>rw_config := ?c\<rparr>" now h hash later] c assms(2) receipt by simp
  obtain es' where es': "readAllOpLogEntries ?ops = Inr es'" "prior_release (hr_operation_id p) es' = Some ?e"
    using prior_after_receipt [OF assms(6,2,3), of ?e "dayOfTimestamp now"] by auto
  have 3: "handleHoldRelease hash later config p v =
      (Inr ?r, v\<lparr>rw_config := convergeReleasedHold (hr_scope p) (hr_operation_id p) ?rec (rw_config v)\<rparr>)" if "rw_ops v = ?ops" for v
    using replay_receipt [OF assms(1), of v es' hash] es' that by simp
  have 4: "convergeReleasedHold (hr_scope p) (hr_operation_id p) ?rec ?c = ?c"
    using c by (simp add: convergeReleasedHold_def split: option.split)
  have 5: "lh_operation_id h \<noteq> None \<Longrightarrow> convergeReleasedHold (hr_scope p) (hr_operation_id p) ?rec (rw_config w) = ?c"
    using assms(4,5) by (auto simp: convergeReleasedHold_def publish_release_def)
  have 6: "oid \<noteq> lh_operation_id h \<Longrightarrow> convergeReleasedHold (hr_scope p) (hr_operation_id p) ?rec (open_hold t a oid (hr_scope p) d)
      = open_hold t a oid (hr_scope p) d" for t a oid d
    by (auto simp: convergeReleasedHold_def open_hold_def split: option.splits)
  have "\<not> isScopeHeld ?c (hr_scope p)" using c by (simp add: isScopeHeld_def)
  moreover have "isScopeHeld (open_hold t a oid (hr_scope p) d) (hr_scope p)" for t a oid d
    by (simp add: isScopeHeld_def open_hold_def)
  moreover have "handleHoldRelease hash later config p ?w' = (Inr ?r, ?w')" using 3 [of ?w'] 4 by simp
  moreover have "lh_operation_id h \<noteq> None \<longrightarrow> handleHoldRelease hash later config p (?w'\<lparr>rw_config := rw_config w\<rparr>) = (Inr ?r, ?w')"
    using 3 [of "?w'\<lparr>rw_config := rw_config w\<rparr>"] 5 by simp
  moreover have "handleHoldRelease hash later config p (?w'\<lparr>rw_config := open_hold t a oid (hr_scope p) d\<rparr>)
      = (Inr ?r, ?w'\<lparr>rw_config := open_hold t a oid (hr_scope p) d\<rparr>)" if "oid \<noteq> lh_operation_id h" for t a oid d
    using 3 [of "?w'\<lparr>rw_config := open_hold t a oid (hr_scope p) d\<rparr>"] 6 [OF that] by simp
  ultimately show ?thesis using 1 2 by (intro exI [of _ ?r] exI [of _ ?w']) (simp add: Let_def)
qed

section \<open>A concrete release\<close>

definition demo_held_config :: smartware_config where
  "demo_held_config = open_hold ''2026-01-01T00:00:00Z'' ''user:local'' (Some ''op_00000000000000000000000001'') ''client:acme''
     (createDefaultConfig ''1'' ''2'')"

definition demo_release :: hold_release_params where
  "demo_release = \<lparr>hr_actor = \<lparr>ac_type = Person, ac_id = ''user:local'', ac_display_name = ''A''\<rparr>, hr_scope = ''client:acme'',
     hr_operation_id = ''op_00000000000000000000000009'', hr_statement = Some ''hold released''\<rparr>"

definition demo_release_world :: release_world where
  "demo_release_world = \<lparr>rw_config = demo_held_config, rw_ops = []\<rparr>"

definition demo_release_call :: "hold_release_result outcome \<times> release_world" where
  "demo_release_call = handleHoldRelease (\<lambda>pl. ''h'') ''2026-01-02T00:00:00Z'' demo_held_config demo_release demo_release_world"

theorem hold_lifted_only_with_receipt_witness:
  "\<exists>e es. readAllOpLogEntries (rw_ops (snd demo_release_call)) = Inr es \<and> e \<in> set es \<and> oe_op e = ''hold.release''
     \<and> oe_operation_id e = ''op_00000000000000000000000009''"
proof -
  have "handleHoldRelease (\<lambda>pl. ''h'') ''2026-01-02T00:00:00Z'' demo_held_config demo_release demo_release_world
      = (fst demo_release_call, snd demo_release_call)" by (simp add: demo_release_call_def)
  moreover have "isScopeHeld (rw_config demo_release_world) ''client:acme''" "\<not> isScopeHeld (rw_config (snd demo_release_call)) ''client:acme''"
    "distinct (map fst (rw_ops demo_release_world))" "''2026-01-02T00:00:00Z'' \<noteq> ([] :: string)" "owner_id demo_held_config \<noteq> []"
    by code_simp+
  ultimately have "\<exists>h e es. map_of (cfg_holds (rw_config demo_release_world)) ''client:acme'' = Some h
      \<and> readAllOpLogEntries (rw_ops (snd demo_release_call)) = Inr es \<and> e \<in> set es \<and> oe_op e = ''hold.release''
      \<and> oe_operation_id e = hr_operation_id demo_release \<and> oe_actor_id e = ac_id (hr_actor demo_release)
      \<and> detail_string e ''hold_operation_id'' = lh_operation_id h"
    using hold_lifted_only_with_receipt by blast
  then show ?thesis by (auto simp: demo_release_def)
qed

lemma hold_release_crash_converges_example:
  "\<exists>r w'. handleHoldRelease (\<lambda>pl. ''h'') ''2026-01-02T00:00:00Z'' demo_held_config demo_release demo_release_world = (Inr r, w')
     \<and> \<not> isScopeHeld (rw_config w') ''client:acme''
     \<and> handleHoldRelease (\<lambda>pl. ''h'') ''2026-01-03T00:00:00Z'' demo_held_config demo_release w' = (Inr r, w')"
proof -
  obtain h where h: "map_of (cfg_holds (rw_config demo_release_world)) (hr_scope demo_release) = Some h" "lh_released_at h = None"
    by (simp add: demo_release_world_def demo_held_config_def open_hold_def demo_release_def)
  have "release_context demo_held_config demo_release = Inr ()" "readAllOpLogEntries (rw_ops demo_release_world) = Inr []"
    "prior_release (hr_operation_id demo_release) [] = None" "distinct (map fst (rw_ops demo_release_world))"
    "''2026-01-02T00:00:00Z'' \<noteq> ([] :: string)" "owner_id demo_held_config \<noteq> []" "hr_scope demo_release = ''client:acme''"
    by code_simp+
  then show ?thesis
    using hold_release_crash_converges [of demo_held_config demo_release "()" demo_release_world "[]" h "''2026-01-02T00:00:00Z''"
        "\<lambda>pl. ''h''" "''2026-01-03T00:00:00Z''"] h by auto
qed

end
