(* ===== verification/Compile_Queue.thy ===== *)
theory Compile_Queue
  imports Recovery
begin

text \<open>
  The durable compile queue (\<^verbatim>\<open>compile_queue/queue.ts\<close>) and its reconciliation with the evidence log and the
  receipts of the operations log when a pod is opened (\<^verbatim>\<open>syncCompileQueue\<close> of \<^verbatim>\<open>compile_queue/worker.ts\<close>). The
  queue is its table; of the search index only the freshness label of the raw window is modelled. The clock is read
  once per statement of the queue and once per observation of a reconciliation.
\<close>

section \<open>The queue\<close>

datatype job_status = JPending | JRunning | JDone | JFailed

record compile_job =
  cj_id :: string
  cj_scope :: string
  cj_status :: job_status
  cj_attempts :: nat
  cj_started_at :: "string option"
  cj_error :: "string option"
  cj_completed_at :: "string option"
  cj_updated_at :: string

type_synonym compile_queue = "compile_job list"

datatype enqueue_result = Enqueued | Exists | Terminal

definition new_job :: "string \<Rightarrow> string \<Rightarrow> string \<Rightarrow> compile_job" where
  "new_job oid scope now =
     \<lparr>cj_id = oid, cj_scope = scope, cj_status = JPending, cj_attempts = 0, cj_started_at = None, cj_error = None,
      cj_completed_at = None, cj_updated_at = now\<rparr>"

definition set_requeued :: "string \<Rightarrow> compile_job \<Rightarrow> compile_job" where
  "set_requeued now j =
     j\<lparr>cj_status := JPending, cj_error := None, cj_started_at := None, cj_completed_at := None, cj_updated_at := now\<rparr>"

definition set_running :: "string \<Rightarrow> compile_job \<Rightarrow> compile_job" where
  "set_running now j =
     j\<lparr>cj_status := JRunning, cj_attempts := cj_attempts j + 1, cj_started_at := Some now, cj_updated_at := now\<rparr>"

definition set_done :: "string \<Rightarrow> compile_job \<Rightarrow> compile_job" where
  "set_done tm j = j\<lparr>cj_status := JDone, cj_error := None, cj_completed_at := Some tm, cj_updated_at := tm\<rparr>"

definition set_failed :: "string \<Rightarrow> string \<Rightarrow> compile_job \<Rightarrow> compile_job" where
  "set_failed err tm j = j\<lparr>cj_status := JFailed, cj_error := Some err, cj_completed_at := Some tm, cj_updated_at := tm\<rparr>"

definition set_stale :: "string \<Rightarrow> compile_job \<Rightarrow> compile_job" where
  "set_stale now j = j\<lparr>cj_status := JPending, cj_started_at := None, cj_updated_at := now\<rparr>"

definition job_get :: "string \<Rightarrow> compile_queue \<Rightarrow> compile_job option" where
  "job_get oid q = lookup_by cj_id oid q"

definition enqueue :: "bool \<Rightarrow> string \<Rightarrow> string \<Rightarrow> string \<Rightarrow> compile_queue \<Rightarrow> enqueue_result \<times> compile_queue" where
  "enqueue retry now oid scope q =
     (let status = map_option cj_status (job_get oid q) in
      if status = Some JDone then (Terminal, q)
      else if status = Some JFailed \<and> \<not> retry then (Terminal, q)
      else if status = Some JFailed \<and> retry then (Enqueued, upd_where (\<lambda>j. cj_id j = oid) (set_requeued now) q)
      else (Enqueued, ins_ignore cj_id (new_job oid scope now) q))"

definition claim_order :: "compile_job \<Rightarrow> string \<times> string" where
  "claim_order j = (cj_updated_at j, cj_id j)"

definition claimBatch :: "int \<Rightarrow> string \<Rightarrow> compile_queue \<Rightarrow> compile_job list \<times> compile_queue" where
  "claimBatch limit now q =
     (if limit \<le> 0 then ([], q)
      else
        (let rows = take (nat limit) (sort_key claim_order (filter (\<lambda>j. cj_status j = JPending) q));
             q' = fold (\<lambda>r. upd_where (\<lambda>j. cj_id j = cj_id r) (set_running now)) rows q
         in (List.map_filter (\<lambda>r. job_get (cj_id r) q') rows, q')))"

definition complete :: "string \<Rightarrow> string \<Rightarrow> compile_queue \<Rightarrow> compile_queue" where
  "complete oid tm q = upd_where (\<lambda>j. cj_id j = oid) (set_done tm) q"

definition fail :: "string \<Rightarrow> string \<Rightarrow> string \<Rightarrow> compile_queue \<Rightarrow> compile_queue" where
  "fail oid err tm q = upd_where (\<lambda>j. cj_id j = oid) (set_failed err tm) q"

definition resetStale :: "string \<Rightarrow> compile_queue \<Rightarrow> nat \<times> compile_queue" where
  "resetStale now q =
     (length (filter (\<lambda>j. cj_status j = JRunning) q), upd_where (\<lambda>j. cj_status j = JRunning) (set_stale now) q)"

definition job_stats :: "compile_queue \<Rightarrow> job_status \<Rightarrow> nat" where
  "job_stats q st = length (filter (\<lambda>j. cj_status j = st) q)"

definition countPending :: "compile_queue \<Rightarrow> nat" where
  "countPending q = length (filter (\<lambda>j. cj_status j = JPending) q)"

record queue_timing =
  qt_oldest_pending_at :: "string option"
  qt_last_completed_at :: "string option"
  qt_last_failed_at :: "string option"

text \<open>The aggregates \<^verbatim>\<open>MIN\<close> and \<^verbatim>\<open>MAX\<close> skip NULL and are NULL on no rows.\<close>

definition sql_extreme :: "(string \<Rightarrow> string \<Rightarrow> string) \<Rightarrow> string option list \<Rightarrow> string option" where
  "sql_extreme f vs = (case List.map_filter (\<lambda>v. v) vs of [] \<Rightarrow> None | x # xs \<Rightarrow> Some (fold f xs x))"

definition timingStats :: "compile_queue \<Rightarrow> queue_timing" where
  "timingStats q =
     \<lparr>qt_oldest_pending_at = sql_extreme min (map (\<lambda>j. Some (cj_updated_at j)) (filter (\<lambda>j. cj_status j = JPending) q)),
      qt_last_completed_at = sql_extreme max (map cj_completed_at (filter (\<lambda>j. cj_status j = JDone) q)),
      qt_last_failed_at = sql_extreme max (map cj_completed_at (filter (\<lambda>j. cj_status j = JFailed) q))\<rparr>"

definition removeByScope :: "string \<Rightarrow> compile_queue \<Rightarrow> nat \<times> compile_queue" where
  "removeByScope scope q =
     (length (filter (\<lambda>j. cj_scope j = scope) q), del_where (\<lambda>j. cj_scope j = scope) q)"

definition clear_queue :: "compile_queue \<Rightarrow> compile_queue" where
  "clear_queue q = []"

section \<open>Reconciliation\<close>

datatype freshness = Unverified | EXTRACTED | FAILED

record meta_row =
  mr_obs_id :: string
  mr_freshness :: freshness

definition updateObservationFreshness :: "string \<Rightarrow> freshness \<Rightarrow> meta_row list \<Rightarrow> meta_row list" where
  "updateObservationFreshness oid f rows = upd_where (\<lambda>r. mr_obs_id r = oid) (\<lambda>r. r\<lparr>mr_freshness := f\<rparr>) rows"

definition TERMINAL_OUTCOMES :: "string list" where
  "TERMINAL_OUTCOMES = [''ignored_context_only'', ''ignored_short_content'', ''no_claims'', ''claims_processed'']"

definition is_string_detail :: "op_entry \<Rightarrow> string \<Rightarrow> bool" where
  "is_string_detail e k = (case entry_detail e k of Some (JStr s) \<Rightarrow> True | _ \<Rightarrow> False)"

definition isReflectAutoTerminalReceipt :: "op_entry \<Rightarrow> bool" where
  "isReflectAutoTerminalReceipt e =
     (oe_op e = ''reflect.auto'' \<and> entry_detail e ''reflection_complete'' = Some (JBool True)
      \<and> is_string_detail e ''observation_id'' \<and> is_string_detail e ''scope''
      \<and> (case entry_detail e ''outcome'' of Some (JStr s) \<Rightarrow> s \<in> set TERMINAL_OUTCOMES | _ \<Rightarrow> False))"

datatype receipt_state = Resolved | MarkedFailed

definition note_receipt :: "op_entry \<Rightarrow> (string \<rightharpoonup> receipt_state) \<Rightarrow> (string \<rightharpoonup> receipt_state)" where
  "note_receipt e m =
     (case entry_detail e ''observation_id'' of
        Some (JStr oid) \<Rightarrow>
          if isReflectAutoTerminalReceipt e then m(oid \<mapsto> Resolved)
          else if entry_detail e ''outcome'' = Some (JStr ''failed'') then m(oid \<mapsto> MarkedFailed) else m
      | _ \<Rightarrow> m)"

definition receiptsByObs :: "op_entry list \<Rightarrow> (string \<rightharpoonup> receipt_state)" where
  "receiptsByObs es = fold note_receipt es Map.empty"

text \<open>The entries come from the derived index, or from the log itself when the index cannot be brought up to date.\<close>

definition reflect_entries :: "(op_line \<Rightarrow> nat) \<Rightarrow> ops_dir \<Rightarrow> ops_index \<Rightarrow> op_entry list outcome \<times> ops_index" where
  "reflect_entries bytes dir idx =
     (case Ops_Log.catchUp bytes dir idx of
        (Inr _, idx') \<Rightarrow> (Inr (entriesByOp ''reflect.auto'' idx'), idx')
      | (Inl _, idx') \<Rightarrow> (readAllOpLogEntries dir, idx'))"

record sync_state =
  sy_queue :: compile_queue
  sy_meta :: "meta_row list"
  sy_seeded :: nat

definition effective_of :: "layer0_index \<Rightarrow> observation \<Rightarrow> effective_status" where
  "effective_of l0 obs = (case getEffectiveStatus (ob_id obs) l0 of Some s \<Rightarrow> s | None \<Rightarrow> initial_status (ob_status obs))"

definition sync_one :: "(string \<rightharpoonup> receipt_state) \<Rightarrow> layer0_index \<Rightarrow> (string \<Rightarrow> string) \<Rightarrow> observation \<Rightarrow> sync_state \<Rightarrow> sync_state" where
  "sync_one receipts l0 clock obs s =
     (let oid = ob_id obs; now = clock oid; enqueued = snd (enqueue False now oid (ob_scope obs) (sy_queue s)) in
      if ob_status obs \<noteq> OAccepted then s
      else if effective_of l0 obs \<noteq> EAccepted then s
      else case receipts oid of
        Some Resolved \<Rightarrow>
          s\<lparr>sy_queue := (if map_option cj_status (job_get oid enqueued) \<noteq> Some JDone then complete oid now enqueued else enqueued),
            sy_meta := updateObservationFreshness oid EXTRACTED (sy_meta s)\<rparr>
      | Some MarkedFailed \<Rightarrow>
          s\<lparr>sy_queue := (if map_option cj_status (job_get oid enqueued) \<noteq> Some JFailed
                         then fail oid ''compile failed previously'' now enqueued else enqueued),
            sy_meta := updateObservationFreshness oid FAILED (sy_meta s)\<rparr>
      | None \<Rightarrow>
          (case map_option cj_status (job_get oid (sy_queue s)) of
             Some JPending \<Rightarrow> s
           | Some JRunning \<Rightarrow> s
           | _ \<Rightarrow> s\<lparr>sy_queue := enqueued, sy_seeded := sy_seeded s + 1\<rparr>))"

fun sync_days ::
  "(string \<rightharpoonup> receipt_state) \<Rightarrow> layer0_index \<Rightarrow> (string \<Rightarrow> string) \<Rightarrow> evidence_dir \<Rightarrow> string list \<Rightarrow> sync_state
     \<Rightarrow> nat outcome \<times> sync_state" where
  "sync_days receipts l0 clock dir [] s = (Inr (sy_seeded s), s)"
| "sync_days receipts l0 clock dir (d # ds) s =
     (case readFile dir d of
        Inl x \<Rightarrow> (Inl x, s)
      | Inr es \<Rightarrow> sync_days receipts l0 clock dir ds (fold (sync_one receipts l0 clock) es s))"

definition syncCompileQueue ::
  "(op_line \<Rightarrow> nat) \<Rightarrow> string \<Rightarrow> (string \<Rightarrow> string) \<Rightarrow> evidence_dir \<Rightarrow> layer0_index \<Rightarrow> ops_dir option \<Rightarrow> ops_index \<Rightarrow> compile_queue
     \<Rightarrow> meta_row list \<Rightarrow> nat outcome \<times> sync_state \<times> ops_index" where
  "syncCompileQueue bytes now clock dir l0 ops idx q meta =
     (let s0 = \<lparr>sy_queue = snd (resetStale now q), sy_meta = meta, sy_seeded = 0\<rparr>;
          (entries, idx') = (case ops of None \<Rightarrow> (Inr [], idx) | Some d \<Rightarrow> reflect_entries bytes d idx)
      in case entries of
           Inl x \<Rightarrow> (Inl x, s0, idx')
         | Inr es \<Rightarrow> (case sync_days (receiptsByObs es) l0 clock dir (listDates dir) s0 of (r, s) \<Rightarrow> (r, s, idx')))"

section \<open>Lemmas\<close>

interpretation requeued: key_preserving cj_id "set_requeued now" for now
  by unfold_locales (simp add: set_requeued_def)

interpretation running: key_preserving cj_id "set_running now" for now
  by unfold_locales (simp add: set_running_def)

interpretation completed: key_preserving cj_id "set_done tm" for tm
  by unfold_locales (simp add: set_done_def)

interpretation failed_job: key_preserving cj_id "set_failed err tm" for err tm
  by unfold_locales (simp add: set_failed_def)

interpretation stale: key_preserving cj_id "set_stale now" for now
  by unfold_locales (simp add: set_stale_def)

interpretation fresh_label: key_preserving mr_obs_id "\<lambda>r. r\<lparr>mr_freshness := f\<rparr>" for f
  by unfold_locales simp

lemma set_status_simps [simp]:
  "cj_status (set_requeued now j) = JPending" "cj_status (set_running now j) = JRunning" "cj_status (set_done now j) = JDone"
  "cj_status (set_failed err now j) = JFailed" "cj_status (set_stale now j) = JPending" "cj_status (new_job oid scope now) = JPending"
  "cj_id (new_job oid scope now) = oid"
  by (simp_all add: set_requeued_def set_running_def set_done_def set_failed_def set_stale_def new_job_def)

definition status_in :: "compile_queue \<Rightarrow> string \<Rightarrow> job_status option" where
  "status_in q oid = map_option cj_status (job_get oid q)"

definition reset_status :: "job_status \<Rightarrow> job_status" where
  "reset_status st = (if st = JRunning then JPending else st)"

lemma status_in_resetStale: "status_in (snd (resetStale now q)) oid = map_option reset_status (status_in q oid)"
  by (cases "lookup_by cj_id oid q")
     (simp_all add: status_in_def job_get_def resetStale_def stale.lookup_upd_where reset_status_def)

lemma status_in_complete: "status_in (complete o1 tm q) oid = (if oid = o1 then map_option (\<lambda>_. JDone) (status_in q oid) else status_in q oid)"
  by (cases "lookup_by cj_id oid q")
     (auto simp: status_in_def job_get_def complete_def completed.lookup_upd_where dest: lookup_by_SomeD)

lemma status_in_fail: "status_in (fail o1 err tm q) oid = (if oid = o1 then map_option (\<lambda>_. JFailed) (status_in q oid) else status_in q oid)"
  by (cases "lookup_by cj_id oid q")
     (auto simp: status_in_def job_get_def fail_def failed_job.lookup_upd_where dest: lookup_by_SomeD)

lemma status_in_enqueue:
  "status_in (snd (enqueue retry now o1 scope q)) oid =
     (if oid \<noteq> o1 then status_in q oid
      else Some (case status_in q oid of None \<Rightarrow> JPending | Some st \<Rightarrow> if st = JFailed \<and> retry then JPending else st))"
proof (cases "lookup_by cj_id oid q")
  case None
  then show ?thesis
    by (auto simp: status_in_def job_get_def enqueue_def Let_def requeued.lookup_upd_where lookup_ins_ignore)
next
  case (Some j)
  then have "cj_id j = oid" by (auto dest: lookup_by_SomeD)
  then show ?thesis using Some
    by (auto simp: status_in_def job_get_def enqueue_def Let_def requeued.lookup_upd_where lookup_ins_ignore)
qed

definition eligible :: "layer0_index \<Rightarrow> observation \<Rightarrow> bool" where
  "eligible li obs = (ob_status obs = OAccepted \<and> effective_of li obs = EAccepted)"

text \<open>The status a reconciliation gives the job of an eligible observation.\<close>

definition synced_status :: "receipt_state option \<Rightarrow> job_status option \<Rightarrow> job_status" where
  "synced_status receipt st =
     (case receipt of Some Resolved \<Rightarrow> JDone | Some MarkedFailed \<Rightarrow> JFailed
      | None \<Rightarrow> (case st of None \<Rightarrow> JPending | Some s \<Rightarrow> s))"

lemma sync_one_status:
  "status_in (sy_queue (sync_one receipts li clock obs s)) oid =
     (if eligible li obs \<and> oid = ob_id obs then Some (synced_status (receipts oid) (status_in (sy_queue s) oid))
      else status_in (sy_queue s) oid)"
proof (cases "eligible li obs")
  case True
  let ?enq = "snd (enqueue False (clock (ob_id obs)) (ob_id obs) (ob_scope obs) (sy_queue s))"
  have get: "map_option cj_status (job_get x q) = status_in q x" for x q by (simp add: status_in_def)
  show ?thesis
  proof (cases "receipts (ob_id obs)")
    case None
    then show ?thesis using True
      by (cases "status_in (sy_queue s) (ob_id obs)"; cases "the (status_in (sy_queue s) (ob_id obs))")
         (auto simp: sync_one_def Let_def eligible_def get status_in_enqueue synced_status_def)
  next
    case (Some r)
    then show ?thesis using True
      by (cases r) (auto simp: sync_one_def Let_def eligible_def get status_in_enqueue status_in_complete status_in_fail
          synced_status_def split: option.splits)
  qed
qed (auto simp: sync_one_def Let_def eligible_def)

lemma synced_status_idem: "synced_status r (Some (synced_status r st)) = synced_status r st"
  by (cases r; cases "the r") (auto simp: synced_status_def split: option.splits receipt_state.splits)

lemma sync_fold_status:
  "status_in (sy_queue (fold (sync_one receipts li clock) es s)) oid =
     (if \<exists>o1 \<in> set es. eligible li o1 \<and> ob_id o1 = oid then Some (synced_status (receipts oid) (status_in (sy_queue s) oid))
      else status_in (sy_queue s) oid)"
  by (induction es arbitrary: s) (auto simp: sync_one_status synced_status_idem)

lemma sync_days_ok:
  "read_days dir ds = Inr es \<Longrightarrow> sync_days receipts li clock dir ds s =
     (Inr (sy_seeded (fold (sync_one receipts li clock) es s)), fold (sync_one receipts li clock) es s)"
  by (induction ds arbitrary: s es) (auto simp: readFile_def split: sum.splits)

definition label_in :: "meta_row list \<Rightarrow> string \<Rightarrow> freshness option" where
  "label_in rows oid = map_option mr_freshness (lookup_by mr_obs_id oid rows)"

definition synced_label :: "receipt_state option \<Rightarrow> freshness \<Rightarrow> freshness" where
  "synced_label receipt f = (case receipt of Some Resolved \<Rightarrow> EXTRACTED | Some MarkedFailed \<Rightarrow> FAILED | None \<Rightarrow> f)"

lemma label_in_update: "label_in (updateObservationFreshness o1 f rows) oid = (if oid = o1 then map_option (\<lambda>_. f) (label_in rows oid) else label_in rows oid)"
  by (cases "lookup_by mr_obs_id oid rows")
     (auto simp: label_in_def updateObservationFreshness_def fresh_label.lookup_upd_where dest: lookup_by_SomeD)

lemma synced_label_simps [simp]:
  "synced_label (Some Resolved) = (\<lambda>_. EXTRACTED)" "synced_label (Some MarkedFailed) = (\<lambda>_. FAILED)" "synced_label None = (\<lambda>f. f)"
  by (auto simp: synced_label_def)

lemma sync_one_label:
  "label_in (sy_meta (sync_one receipts li clock obs s)) oid =
     (if eligible li obs \<and> oid = ob_id obs then map_option (synced_label (receipts oid)) (label_in (sy_meta s) oid)
      else label_in (sy_meta s) oid)"
proof (cases "receipts (ob_id obs)")
  case None
  have "sy_meta (sync_one receipts li clock obs s) = sy_meta s"
    using None by (simp add: sync_one_def Let_def split: option.split job_status.split)
  then show ?thesis using None by (auto simp: option.map_ident)
next
  case (Some r)
  then show ?thesis by (cases r) (auto simp: sync_one_def Let_def eligible_def label_in_update)
qed

lemma synced_label_idem: "synced_label r (synced_label r f) = synced_label r f"
  by (cases r; cases "the r") (auto simp: synced_label_def)

lemma sync_fold_label:
  "label_in (sy_meta (fold (sync_one receipts li clock) es s)) oid =
     (if \<exists>o1 \<in> set es. eligible li o1 \<and> ob_id o1 = oid then map_option (synced_label (receipts oid)) (label_in (sy_meta s) oid)
      else label_in (sy_meta s) oid)"
  by (induction es arbitrary: s) (auto simp: sync_one_label option.map_comp comp_def synced_label_idem)

subsection \<open>Claiming\<close>

definition claimable :: "int \<Rightarrow> compile_queue \<Rightarrow> compile_job list" where
  "claimable limit q = take (nat limit) (sort_key claim_order (filter (\<lambda>j. cj_status j = JPending) q))"

lemma lookup_fold_running:
  "distinct (map cj_id rows) \<Longrightarrow>
   lookup_by cj_id oid (fold (\<lambda>r. upd_where (\<lambda>j. cj_id j = cj_id r) (set_running now)) rows q) =
     (if oid \<in> cj_id ` set rows then map_option (set_running now) (lookup_by cj_id oid q) else lookup_by cj_id oid q)"
  by (induction rows arbitrary: q) (auto simp: running.lookup_upd_key)

lemma claimable_length: "length (claimable limit q) \<le> nat limit"
  by (simp add: claimable_def)

lemma claimable_distinct:
  assumes "keys_unique cj_id q"
  shows "distinct (map cj_id (claimable limit q))"
proof -
  let ?p = "filter (\<lambda>j. cj_status j = JPending) q"
  have "distinct (map cj_id ?p)" using assms by (simp add: keys_unique_def distinct_map_filter)
  moreover have "mset (map cj_id (sort_key claim_order ?p)) = mset (map cj_id ?p)" by simp
  ultimately have "distinct (map cj_id (sort_key claim_order ?p))" by (metis mset_eq_imp_distinct_iff)
  then show ?thesis unfolding claimable_def take_map [symmetric] by (rule distinct_take)
qed

lemma claimable_pending: "j \<in> set (claimable limit q) \<Longrightarrow> j \<in> set q \<and> cj_status j = JPending"
  unfolding claimable_def by (drule in_set_takeD) simp

lemma claimable_lookup: "keys_unique cj_id q \<Longrightarrow> j \<in> set (claimable limit q) \<Longrightarrow> lookup_by cj_id (cj_id j) q = Some j"
  by (simp add: claimable_pending lookup_by_unique)

lemma claimBatch_eq:
  assumes "keys_unique cj_id q"
  shows "claimBatch limit now q = (map (set_running now) (claimable limit q),
    fold (\<lambda>r. upd_where (\<lambda>j. cj_id j = cj_id r) (set_running now)) (claimable limit q) q)"
proof (cases "limit \<le> 0")
  case False
  let ?q = "fold (\<lambda>r. upd_where (\<lambda>j. cj_id j = cj_id r) (set_running now)) (claimable limit q) q"
  have "job_get (cj_id r) ?q = Some (set_running now r)" if "r \<in> set (claimable limit q)" for r
    using that by (simp add: job_get_def lookup_fold_running claimable_distinct claimable_lookup assms)
  then have "List.map_filter (\<lambda>r. job_get (cj_id r) ?q) (claimable limit q) = map (set_running now) (claimable limit q)"
    by (simp add: List.map_filter_def cong: map_cong)
  then show ?thesis using False by (simp add: claimBatch_def claimable_def Let_def)
qed (simp add: claimBatch_def claimable_def)

lemma status_after_claim:
  assumes "keys_unique cj_id q"
  shows "status_in (snd (claimBatch limit now q)) oid =
    (if oid \<in> cj_id ` set (claimable limit q) then Some JRunning else status_in q oid)"
  by (auto simp: claimBatch_eq assms status_in_def job_get_def lookup_fold_running claimable_distinct claimable_lookup)

lemma keys_after_claim: "keys_unique cj_id q \<Longrightarrow> keys_unique cj_id (snd (claimBatch limit now q))"
proof -
  have "keys_unique cj_id (fold (\<lambda>r. upd_where (\<lambda>j. cj_id j = cj_id r) (set_running now)) rows q) = keys_unique cj_id q" for rows
    by (induction rows arbitrary: q) (simp_all add: running.keys_unique_upd_where)
  then show "keys_unique cj_id q \<Longrightarrow> keys_unique cj_id (snd (claimBatch limit now q))" by (simp add: claimBatch_eq)
qed

lemma set_running_simps [simp]: "cj_id (set_running now j) = cj_id j" "cj_attempts (set_running now j) = cj_attempts j + 1"
  by (simp_all add: set_running_def)

lemma claim_oldest_first:
  assumes "j0 \<in> set q" and "cj_status j0 = JPending" and "j0 \<notin> set (claimable limit q)" and "j \<in> set (claimable limit q)"
  shows "claim_order j \<le> claim_order j0"
proof -
  let ?s = "sort_key claim_order (filter (\<lambda>j. cj_status j = JPending) q)"
  have "j0 \<in> set (take (nat limit) ?s) \<union> set (drop (nat limit) ?s)"
    using assms(1,2) by (metis (mono_tags, lifting) append_take_drop_id filter_set mem_Collect_eq set_append set_filter set_sort)
  then have "j0 \<in> set (drop (nat limit) ?s)" using assms(3) by (simp add: claimable_def)
  moreover have "sorted (map claim_order (take (nat limit) ?s @ drop (nat limit) ?s))" by (simp add: sorted_sort_key)
  ultimately show ?thesis using assms(4) unfolding claimable_def map_append sorted_append by fastforce
qed

lemma claim_all:
  assumes "length (claimable limit q) < nat limit" and "j \<in> set q" and "cj_status j = JPending"
  shows "j \<in> set (claimable limit q)"
proof -
  let ?s = "sort_key claim_order (filter (\<lambda>j. cj_status j = JPending) q)"
  have "claimable limit q = ?s" using assms(1) by (simp add: claimable_def min_def split: if_splits)
  then show ?thesis using assms(2,3) by simp
qed

lemma claim_none_left:
  assumes "keys_unique cj_id q" and "length (claimable limit q) < nat limit"
  shows "countPending (snd (claimBatch limit now q)) = 0"
proof (rule ccontr)
  let ?q = "snd (claimBatch limit now q)"
  assume "countPending ?q \<noteq> 0"
  then obtain j where j: "j \<in> set ?q" "cj_status j = JPending" by (auto simp: countPending_def filter_empty_conv)
  then have "status_in ?q (cj_id j) = Some JPending"
    using keys_after_claim [OF assms(1)] by (simp add: status_in_def job_get_def lookup_by_unique)
  then have "cj_id j \<notin> cj_id ` set (claimable limit q)" "status_in q (cj_id j) = Some JPending"
    using status_after_claim [OF assms(1), of limit now "cj_id j"] by (auto split: if_splits)
  then obtain j0 where "lookup_by cj_id (cj_id j) q = Some j0" "cj_status j0 = JPending" by (auto simp: status_in_def job_get_def)
  then have "j0 \<in> set q" "cj_id j0 = cj_id j" "cj_status j0 = JPending" by (auto dest: lookup_by_SomeD)
  then show False using claim_all [OF assms(2), of j0] \<open>cj_id j \<notin> cj_id ` set (claimable limit q)\<close> by (metis imageI)
qed

lemma claims_disjoint:
  assumes "keys_unique cj_id q"
  shows "cj_id ` set (claimable limit2 (snd (claimBatch limit now q))) \<inter> cj_id ` set (claimable limit q) = {}"
proof -
  let ?q = "snd (claimBatch limit now q)"
  have "status_in ?q (cj_id j) = Some JPending" if "j \<in> set (claimable limit2 ?q)" for j
    using claimable_pending [OF that] claimable_lookup [OF keys_after_claim [OF assms] that] by (simp add: status_in_def job_get_def)
  then show ?thesis using status_after_claim [OF assms, of limit now] by fastforce
qed

lemma sync_run:
  assumes "readAll dir = Inr es" and "fst (reflect_entries bytes ops idx) = Inr entries"
  shows "syncCompileQueue bytes now clock dir li (Some ops) idx q meta =
    (let s = fold (sync_one (receiptsByObs entries) li clock) es \<lparr>sy_queue = snd (resetStale now q), sy_meta = meta, sy_seeded = 0\<rparr>
     in (Inr (sy_seeded s), s, snd (reflect_entries bytes ops idx)))"
  using assms sync_days_ok [of dir "listDates dir" es "receiptsByObs entries" li clock
      "\<lparr>sy_queue = snd (resetStale now q), sy_meta = meta, sy_seeded = 0\<rparr>"]
  by (cases "reflect_entries bytes ops idx") (simp add: syncCompileQueue_def Let_def readAll_def read_all_def listDates_def)

section \<open>Properties\<close>

text \<open>Claiming a batch is bounded, exclusive, in order and complete. A claim of at most some number of jobs returns at
  most that many, all different, each of them pending before and now running with one more attempt, and leaves every other
  job alone; no later claim by any other worker returns one of them again; the claimed jobs are the oldest pending ones;
  and when fewer jobs than the limit are returned, no pending job is left.\<close>

lemma claimBatch_exclusive:
  assumes "keys_unique cj_id q" and "claimBatch limit now q = (jobs, q')"
  shows "length jobs \<le> nat limit \<and> distinct (map cj_id jobs)
    \<and> (\<forall>j \<in> set jobs. job_get (cj_id j) q' = Some j \<and> cj_status j = JRunning
        \<and> (\<exists>j0. job_get (cj_id j) q = Some j0 \<and> cj_status j0 = JPending \<and> cj_attempts j = cj_attempts j0 + 1
            \<and> (\<forall>k \<in> set q. cj_status k = JPending \<and> cj_id k \<notin> cj_id ` set jobs \<longrightarrow> claim_order j0 \<le> claim_order k)))
    \<and> (\<forall>oid. oid \<notin> cj_id ` set jobs \<longrightarrow> job_get oid q' = job_get oid q)
    \<and> (\<forall>limit2 now2. cj_id ` set (fst (claimBatch limit2 now2 q')) \<inter> cj_id ` set jobs = {})
    \<and> (int (length jobs) < limit \<longrightarrow> countPending q' = 0)"
proof -
  note eq = claimBatch_eq [OF assms(1), of limit now]
  have jobs: "jobs = map (set_running now) (claimable limit q)" and q': "q' = snd (claimBatch limit now q)"
    using assms(2) eq by simp_all
  have ids: "cj_id ` set jobs = cj_id ` set (claimable limit q)" by (simp add: jobs image_image)
  have look: "job_get oid q' = (if oid \<in> cj_id ` set jobs then map_option (set_running now) (job_get oid q) else job_get oid q)" for oid
    unfolding ids by (simp add: q' eq job_get_def lookup_fold_running claimable_distinct assms(1))
  have "job_get (cj_id j) q' = Some j \<and> cj_status j = JRunning
      \<and> (\<exists>j0. job_get (cj_id j) q = Some j0 \<and> cj_status j0 = JPending \<and> cj_attempts j = cj_attempts j0 + 1
          \<and> (\<forall>k \<in> set q. cj_status k = JPending \<and> cj_id k \<notin> cj_id ` set jobs \<longrightarrow> claim_order j0 \<le> claim_order k))"
    if mem: "j \<in> set jobs" for j
  proof -
    obtain j0 where j0: "j0 \<in> set (claimable limit q)" "j = set_running now j0" using mem jobs by auto
    have "job_get (cj_id j) q = Some j0" using claimable_lookup [OF assms(1) j0(1)] j0(2) by (simp add: job_get_def)
    moreover have "cj_id j \<in> cj_id ` set jobs" using mem by simp
    moreover have "claim_order j0 \<le> claim_order k" if "k \<in> set q" "cj_status k = JPending" "cj_id k \<notin> cj_id ` set jobs" for k
      using claim_oldest_first [OF that(1,2) _ j0(1)] that(3) unfolding ids by blast
    ultimately show ?thesis using look [of "cj_id j"] j0(2) claimable_pending [OF j0(1)] by auto
  qed
  moreover have "cj_id ` set (fst (claimBatch limit2 now2 q')) \<inter> cj_id ` set jobs = {}" for limit2 now2
  proof -
    have "cj_id ` set (fst (claimBatch limit2 now2 q')) = cj_id ` set (claimable limit2 q')"
      using claimBatch_eq [OF keys_after_claim [OF assms(1), of limit now], of limit2 now2] by (simp add: q' image_image)
    then show ?thesis using claims_disjoint [OF assms(1), of limit2 limit now] by (simp only: ids q')
  qed
  moreover have "int (length jobs) < limit \<Longrightarrow> countPending q' = 0"
    using claim_none_left [OF assms(1), of limit now] by (simp add: jobs q')
  moreover have "length jobs \<le> nat limit" using claimable_length [of limit q] by (simp add: jobs)
  moreover have "distinct (map cj_id jobs)" using claimable_distinct [OF assms(1), of limit] by (simp add: jobs comp_def)
  ultimately show ?thesis using look by simp
qed

text \<open>Reopening a pod gives every compile job exactly the status the canonical logs call for. After a reconciliation of
  the queue with readable logs, whatever state a crash left the queue in, a job that was running is pending again; an
  accepted observation that is still in force has a job, which is done if its last receipt is terminal, failed if its last
  receipt is a failure marker, and otherwise keeps its status or is pending; no other observation gains a job, so erased,
  offboarded and quarantined evidence never enters the queue; and the freshness labels follow the receipts.\<close>

lemma sync_queue_exact:
  assumes "readAll dir = Inr es" and "fst (reflect_entries bytes ops idx) = Inr entries"
  shows "\<exists>n s idx'. syncCompileQueue bytes now clock dir li (Some ops) idx q meta = (Inr n, s, idx')
    \<and> (\<forall>oid. let live = (\<exists>o1 \<in> set es. ob_id o1 = oid \<and> ob_status o1 = OAccepted \<and> effective_of li o1 = EAccepted);
            old = map_option (\<lambda>st. if st = JRunning then JPending else st) (map_option cj_status (job_get oid q)) in
         map_option cj_status (job_get oid (sy_queue s)) =
           (if live then Some (case receiptsByObs entries oid of Some Resolved \<Rightarrow> JDone | Some MarkedFailed \<Rightarrow> JFailed
                               | None \<Rightarrow> (case old of None \<Rightarrow> JPending | Some st \<Rightarrow> st)) else old)
         \<and> label_in (sy_meta s) oid =
             (if live then map_option (case receiptsByObs entries oid of Some Resolved \<Rightarrow> (\<lambda>_. EXTRACTED)
                                       | Some MarkedFailed \<Rightarrow> (\<lambda>_. FAILED) | None \<Rightarrow> (\<lambda>f. f)) (label_in meta oid)
              else label_in meta oid))"
proof -
  let ?init = "\<lparr>sy_queue = snd (resetStale now q), sy_meta = meta, sy_seeded = 0\<rparr>"
  let ?s = "fold (sync_one (receiptsByObs entries) li clock) es ?init"
  have run: "syncCompileQueue bytes now clock dir li (Some ops) idx q meta = (Inr (sy_seeded ?s), ?s, snd (reflect_entries bytes ops idx))"
    using sync_run [OF assms] by (simp add: Let_def)
  have live: "(\<exists>o1 \<in> set es. eligible li o1 \<and> ob_id o1 = oid)
      = (\<exists>o1 \<in> set es. ob_id o1 = oid \<and> ob_status o1 = OAccepted \<and> effective_of li o1 = EAccepted)" for oid
    by (auto simp: eligible_def)
  have reset: "map_option reset_status st = map_option (\<lambda>st. if st = JRunning then JPending else st) st" for st
    by (cases st) (simp_all add: reset_status_def)
  show ?thesis
    unfolding run using sync_fold_status [of "receiptsByObs entries" li clock es ?init] sync_fold_label [of "receiptsByObs entries" li clock es ?init]
    by (auto simp: Let_def live status_in_resetStale reset status_in_def [symmetric] synced_status_def synced_label_def
        split: option.splits receipt_state.splits)
qed

text \<open>An explicit retry of a failed compilation is lost when the pod is reopened. The retry makes the job pending, but
  the failure marker of the first attempt stays in the operations log, and the next reconciliation marks the job as failed
  again before any worker could claim it.\<close>

lemma retry_lost_on_reopen:
  assumes "readAll dir = Inr es" and "fst (reflect_entries bytes ops idx) = Inr entries" and "obs \<in> set es"
    and "ob_status obs = OAccepted" and "effective_of li obs = EAccepted" and "receiptsByObs entries (ob_id obs) = Some MarkedFailed"
    and "map_option cj_status (job_get (ob_id obs) q) = Some JFailed"
  shows "case enqueue True t (ob_id obs) scope q of (res, q1) \<Rightarrow>
    res = Enqueued \<and> map_option cj_status (job_get (ob_id obs) q1) = Some JPending
    \<and> (case syncCompileQueue bytes now clock dir li (Some ops) idx q1 meta of (r, s, idx') \<Rightarrow>
         is_ok r \<and> map_option cj_status (job_get (ob_id obs) (sy_queue s)) = Some JFailed)"
proof -
  obtain res q1 where q1: "enqueue True t (ob_id obs) scope q = (res, q1)" by (metis surj_pair)
  then have "res = Enqueued" using assms(7) by (auto simp: enqueue_def Let_def)
  moreover have pend: "status_in q1 (ob_id obs) = Some JPending"
    using status_in_enqueue [of True t "ob_id obs" scope q "ob_id obs"] q1 assms(7) by (simp add: status_in_def [symmetric])
  have live: "\<exists>x \<in> set es. eligible li x \<and> ob_id x = ob_id obs" using assms(3-5) by (auto simp: eligible_def)
  have "status_in (sy_queue (fold (sync_one (receiptsByObs entries) li clock) es
      \<lparr>sy_queue = snd (resetStale now q1), sy_meta = meta, sy_seeded = 0\<rparr>)) (ob_id obs) = Some JFailed"
    using sync_fold_status [of "receiptsByObs entries" li clock es _ "ob_id obs"] live by (simp add: synced_status_def assms(6))
  ultimately show ?thesis using q1 pend sync_run [OF assms(1,2), of now clock li q1 meta] by (simp add: status_in_def Let_def)
qed

section \<open>A concrete queue\<close>

definition demo_queue :: compile_queue where
  "demo_queue = [new_job ''o1'' ''self'' ''t2'', set_running ''t1'' (new_job ''o2'' ''self'' ''t0''), new_job ''o3'' ''self'' ''t1'',
     set_failed ''no model'' ''t1'' (new_job ''o4'' ''self'' ''t0'')]"

lemma claimBatch_exclusive_example:
  "map cj_id (fst (claimBatch 1 ''t3'' demo_queue)) = [''o3'']
   \<and> cj_id ` set (fst (claimBatch 5 ''t4'' (snd (claimBatch 1 ''t3'' demo_queue)))) \<inter> {''o3''} = {}"
proof -
  have 1: "map cj_id (fst (claimBatch 1 ''t3'' demo_queue)) = [''o3'']" by code_simp
  then have "cj_id ` set (fst (claimBatch 1 ''t3'' demo_queue)) = {''o3''}" by (metis list.set(1) list.set(2) set_map)
  moreover have "keys_unique cj_id demo_queue" by code_simp
  ultimately show ?thesis
    using 1 claimBatch_exclusive [of demo_queue 1 "''t3''" "fst (claimBatch 1 ''t3'' demo_queue)" "snd (claimBatch 1 ''t3'' demo_queue)"]
    by simp
qed

definition demo_marker :: op_entry where
  "demo_marker = \<lparr>oe_operation_id = ''op_00000000000000000000000007'', oe_actor_id = ''substrate:x'', oe_timestamp = ''2026-01-01T00:00:00Z'',
     oe_op = ''reflect.auto'', oe_details = Some [(''outcome'', JStr ''failed''), (''observation_id'', JStr ''o4'')]\<rparr>"

definition demo_receipts :: ops_dir where
  "demo_receipts = [(''2026-01-01'', [Line demo_marker])]"

definition demo_seen :: evidence_dir where
  "demo_seen = [(''2026-01-01'', [Line (demo_obs ''o2'' 1 T_message (JStr ''x'')), Line (demo_obs ''o4'' 2 T_message (JStr ''y'')),
     Line (demo_obs ''o5'' 3 T_message (JStr ''z''))])]"

definition demo_no_index :: ops_index where
  "demo_no_index = \<lparr>oi_entries = [], oi_sync = []\<rparr>"

definition demo_l0 :: layer0_index where
  "demo_l0 = \<lparr>l0_rows = [], l0_last_sequence = None\<rparr>"

lemma demo_sync_reads:
  "readAll demo_seen = Inr [demo_obs ''o2'' 1 T_message (JStr ''x''), demo_obs ''o4'' 2 T_message (JStr ''y''), demo_obs ''o5'' 3 T_message (JStr ''z'')]"
  "fst (reflect_entries (\<lambda>_. 1) demo_receipts demo_no_index) = Inr [demo_marker]"
  "receiptsByObs [demo_marker] ''o4'' = Some MarkedFailed" "receiptsByObs [demo_marker] ''o5'' = None"
  by code_simp+

lemma sync_queue_exact_example:
  "\<exists>n s idx'. syncCompileQueue (\<lambda>_. 1) ''t5'' (\<lambda>_. ''t6'') demo_seen demo_l0 (Some demo_receipts) demo_no_index demo_queue [] = (Inr n, s, idx')
    \<and> map_option cj_status (job_get ''o5'' (sy_queue s)) = Some JPending"
proof -
  obtain n s idx' where 1: "syncCompileQueue (\<lambda>_. 1) ''t5'' (\<lambda>_. ''t6'') demo_seen demo_l0 (Some demo_receipts) demo_no_index demo_queue [] = (Inr n, s, idx')"
    using sync_queue_exact [OF demo_sync_reads(1,2)] by blast
  have new: "map_option cj_status (job_get ''o5'' demo_queue) = None" by code_simp
  have live: "\<exists>x \<in> set [demo_obs ''o2'' 1 T_message (JStr ''x''), demo_obs ''o4'' 2 T_message (JStr ''y''), demo_obs ''o5'' 3 T_message (JStr ''z'')].
      ob_id x = ''o5'' \<and> ob_status x = OAccepted \<and> effective_of demo_l0 x = EAccepted" by code_simp
  have "map_option cj_status (job_get ''o5'' (sy_queue s)) = Some JPending"
    using sync_queue_exact [OF demo_sync_reads(1,2), where now = "''t5''" and clock = "\<lambda>_. ''t6''" and li = demo_l0 and q = demo_queue and meta = "[]"]
    apply (elim exE conjE)
    apply (drule spec [of _ "''o5''"])
    apply (simp only: Let_def live if_True new demo_sync_reads(4) option.map option.case 1 prod.inject)
    done
  then show ?thesis using 1 by blast
qed

lemma retry_lost_on_reopen_example:
  "case enqueue True ''t4'' ''o4'' ''self'' demo_queue of (res, q1) \<Rightarrow>
    map_option cj_status (job_get ''o4'' q1) = Some JPending
    \<and> (case syncCompileQueue (\<lambda>_. 1) ''t5'' (\<lambda>_. ''t6'') demo_seen demo_l0 (Some demo_receipts) demo_no_index q1 [] of (r, s, idx') \<Rightarrow>
         map_option cj_status (job_get ''o4'' (sy_queue s)) = Some JFailed)"
proof -
  let ?o = "demo_obs ''o4'' 2 T_message (JStr ''y'')"
  have "ob_id ?o = ''o4''" "ob_status ?o = OAccepted" "effective_of demo_l0 ?o = EAccepted"
    "map_option cj_status (job_get ''o4'' demo_queue) = Some JFailed" by code_simp+
  then show ?thesis
    using retry_lost_on_reopen [OF demo_sync_reads(1,2), where obs = ?o and li = demo_l0 and q = demo_queue and t = "''t4''" and scope = "''self''"
        and now = "''t5''" and clock = "\<lambda>_. ''t6''" and meta = "[]"] demo_sync_reads(3)
    by (simp split: prod.splits)
qed

end
