(* ===== verification/Consent.thy ===== *)
theory Consent
  imports Ingestion
begin

text \<open>
  Granting and revoking capabilities (\<^verbatim>\<open>protocol/grant.ts\<close>, \<^verbatim>\<open>protocol/revoke.ts\<close>), each audited by a record in the
  evidence log, and the hash chain of the evidence log under any sequence of the handlers that write it. The world is
  \<^verbatim>\<open>config.json\<close> on disk beside the stores of the observe handler; the caller's in-memory configuration is an
  argument. The digest that gives an audit record its id and SHA-256 of a record are parameters.
\<close>

section \<open>Granting and revoking\<close>

record grant_params =
  gp_actor :: actor
  gp_input :: grant_input

record revoke_params =
  rp_actor :: actor
  rp_grant_id :: string
  rp_reason :: "string option"

record consent_payload =
  cp_action :: string
  cp_actor_id :: string
  cp_grant_id :: string
  cp_sequence :: nat
  cp_observed_at :: string

record consent_world =
  kw_config :: smartware_config
  kw_pod :: observe_world

definition consent_observation ::
  "(consent_payload \<Rightarrow> string) \<Rightarrow> (observation \<Rightarrow> string) \<Rightarrow> string \<Rightarrow> smartware_config \<Rightarrow> actor \<Rightarrow> string \<Rightarrow> string
     \<Rightarrow> (string \<times> json) list \<Rightarrow> layer0_index \<Rightarrow> observation" where
  "consent_observation hash sha now config a action gid extra idx =
     (let seq = getLastSequence idx + 1; prevHash = getLatestHashForWriter (writer_id config) idx;
          obs = \<lparr>ob_id = ''obs_'' @ hash \<lparr>cp_action = action, cp_actor_id = ac_id a, cp_grant_id = gid, cp_sequence = seq, cp_observed_at = now\<rparr>,
            ob_operation_id = None, ob_actor_id = None, ob_type = T_consent_change, ob_status = OAccepted, ob_app = ''smartware'',
            ob_app_version = SMARTWARE_VERSION, ob_source_id = None, ob_source_ref = None, ob_actor = a, ob_captured_at = now,
            ob_observed_at = now, ob_scope = POD_SELF_SCOPE, ob_visibility = VPrivate,
            ob_content = \<lparr>co_format = ''application/json'',
              co_body = JObj ([(''action'', JStr action), (''grant_id'', JStr gid)] @ extra)\<rparr>,
            ob_claims = None,
            ob_parent_ids = [], ob_informed_by = [], ob_idempotency = None,
            ob_policy = \<lparr>po_retention = Forever, po_retention_duration = None, po_sensitive = True, po_pii_detected = False\<rparr>,
            ob_integrity = \<lparr>in_hash = [], in_writer_id = writer_id config, in_sequence = seq, in_previous_hash = prevHash\<rparr>\<rparr>
      in assignIntegrity sha obs (writer_id config) seq prevHash)"

definition audit :: "string \<Rightarrow> observation \<Rightarrow> consent_world \<Rightarrow> consent_world" where
  "audit now obs w = w\<lparr>kw_pod := store_observation now obs (kw_pod w)\<rparr>"

definition handleGrant ::
  "(consent_payload \<Rightarrow> string) \<Rightarrow> (observation \<Rightarrow> string) \<Rightarrow> string \<Rightarrow> string \<Rightarrow> smartware_config \<Rightarrow> grant_params \<Rightarrow> consent_world
     \<Rightarrow> string outcome \<times> consent_world" where
  "handleGrant hash sha uid now config p w =
     (case requireOwner (ac_id (gp_actor p)) config of
        Inl x \<Rightarrow> (Inl x, w)
      | Inr _ \<Rightarrow>
          (let (g, disk) = createGrant uid now (gp_input p) (kw_config w);
               obs = consent_observation hash sha now config (gp_actor p) ''grant'' (g_id g)
                 [(''grant_actor_id'', JStr (gi_actor_id (gp_input p)))] (ow_index (kw_pod w))
           in (Inr (g_id g), audit now obs (w\<lparr>kw_config := disk\<rparr>))))"

definition handleRevoke ::
  "(consent_payload \<Rightarrow> string) \<Rightarrow> (observation \<Rightarrow> string) \<Rightarrow> string \<Rightarrow> smartware_config \<Rightarrow> revoke_params \<Rightarrow> consent_world
     \<Rightarrow> string outcome \<times> consent_world" where
  "handleRevoke hash sha now config p w =
     (case requireOwner (ac_id (rp_actor p)) config of
        Inl x \<Rightarrow> (Inl x, w)
      | Inr _ \<Rightarrow>
          (let (found, disk) = revokeGrant (rp_grant_id p) (kw_config w) in
           if \<not> found then (Inl (ProtocolError ''grant_not_found'' NoDetails), w)
           else
             (let obs = consent_observation hash sha now config (rp_actor p) ''revoke'' (rp_grant_id p)
                    [(''reason'', JStr (or_else (rp_reason p) []))] (ow_index (kw_pod w))
              in (Inr (rp_grant_id p), audit now obs (w\<lparr>kw_config := disk\<rparr>)))))"

section \<open>The hash chain\<close>

text \<open>What the index knows of a record's place in the chain.\<close>

definition link_of_row :: "obs_row \<Rightarrow> string \<times> nat \<times> string \<times> string" where
  "link_of_row r = (r_id r, r_sequence r, r_hash r, r_writer_id r)"

definition link_of :: "observation \<Rightarrow> string \<times> nat \<times> string \<times> string" where
  "link_of o1 = (ob_id o1, ob_sequence o1, ob_hash o1, in_writer_id (ob_integrity o1))"

text \<open>The log reads, verifies, was written by one writer and numbered without gaps, and the index has its links.\<close>

definition chained :: "(observation \<Rightarrow> string) \<Rightarrow> string \<Rightarrow> observe_world \<Rightarrow> bool" where
  "chained sha writer w =
     (distinct (map fst (ow_evidence w)) \<and>
      (\<exists>es. readAll (ow_evidence w) = Inr es \<and> verifyChain sha es = None
         \<and> map ob_sequence es = [1 ..< Suc (length es)]
         \<and> (\<forall>o1 \<in> set es. in_writer_id (ob_integrity o1) = writer \<and> ob_id o1 \<noteq> [])
         \<and> map link_of_row (l0_rows (ow_index w)) = map link_of es))"

section \<open>Lemmas\<close>

lemma links_of_rows:
  assumes "map link_of_row rows = map link_of es"
  shows "map r_id rows = map ob_id es" "map r_sequence rows = map ob_sequence es" "map r_hash rows = map ob_hash es"
    "map r_writer_id rows = map (\<lambda>o1. in_writer_id (ob_integrity o1)) es" "length rows = length es"
  using arg_cong [OF assms, of "map fst"] arg_cong [OF assms, of "map (fst \<circ> snd)"] arg_cong [OF assms, of "map (fst \<circ> snd \<circ> snd)"]
    arg_cong [OF assms, of "map (snd \<circ> snd \<circ> snd)"] arg_cong [OF assms, of length]
  by (simp_all add: link_of_row_def link_of_def comp_def)

lemma fold_max_upt: "map f rows = [1 ..< Suc n] \<Longrightarrow> fold (\<lambda>r m. max m (f r)) rows 0 = (n :: nat)"
proof (induction n arbitrary: rows)
  case (Suc n)
  then obtain r rs where r: "rows = rs @ [r]" by (metis list.map_disc_iff rev_exhaust upt_Suc_append append_is_Nil_conv not_Cons_self2 le_add1 plus_1_eq_Suc)
  then have "map f rs = [1 ..< Suc n] \<and> f r = Suc n" using Suc.prems by simp
  then show ?case using Suc.IH [of rs] r by simp
qed simp

lemma latest_hash:
  assumes "l0_rows idx = rows" and "map r_sequence rows = [1 ..< Suc (length rows)]" and "\<forall>r \<in> set rows. r_writer_id r = writer"
  shows "getLatestHashForWriter writer idx = (if rows = [] then None else Some (r_hash (last rows)))"
proof (cases "rows = []")
  case False
  let ?f = "\<lambda>r. - int (r_sequence r)"
  have all: "filter (\<lambda>r. r_writer_id r = writer) rows = rows" using assms(3) by simp
  obtain x xs where x: "sort_key ?f rows = x # xs" using False by (metis list.exhaust length_0_conv length_sort)
  have mem: "x \<in> set rows" using x by (metis list.set_intros(1) set_sort)
  have "sorted (map ?f (x # xs))" using sorted_sort_key [of ?f rows] x by simp
  moreover have "set rows = set (x # xs)" using x by (metis set_sort)
  ultimately have le: "r_sequence y \<le> r_sequence x" if "y \<in> set rows" for y using that by auto
  have nth: "r_sequence (rows ! i) = Suc i" if "i < length rows" for i
    using arg_cong [OF assms(2), of "\<lambda>l. l ! i"] that by (simp del: upt_Suc)
  obtain i where i: "i < length rows" "x = rows ! i" using mem by (metis in_set_conv_nth)
  have "r_sequence (last rows) \<le> r_sequence x" using le False by simp
  then have "length rows \<le> Suc i" using i nth [of "length rows - 1"] nth [OF i(1)] False by (simp add: last_conv_nth)
  then have "x = last rows" using i False by (metis Suc_leI last_conv_nth le_antisym diff_Suc_1)
  then show ?thesis using False x all by (simp add: getLatestHashForWriter_def assms(1))
qed (simp add: getLatestHashForWriter_def assms(1))

lemma chained_index:
  assumes "map link_of_row (l0_rows idx) = map link_of es" and "map ob_sequence es = [1 ..< Suc (length es)]"
    and "\<forall>o1 \<in> set es. in_writer_id (ob_integrity o1) = writer"
  shows "getLastSequence idx = length es" "getLatestHashForWriter writer idx = (if es = [] then None else Some (ob_hash (last es)))"
proof -
  note links = links_of_rows [OF assms(1)]
  show "getLastSequence idx = length es"
    unfolding getLastSequence_def by (rule fold_max_upt) (simp only: links(2) assms(2))
  have "\<forall>r \<in> set (l0_rows idx). r_writer_id r = writer"
  proof
    fix r assume "r \<in> set (l0_rows idx)"
    then have "r_writer_id r \<in> set (map (\<lambda>o1. in_writer_id (ob_integrity o1)) es)" by (metis imageI links(4) list.set_map)
    then show "r_writer_id r = writer" using assms(3) by auto
  qed
  then have "getLatestHashForWriter writer idx = (if l0_rows idx = [] then None else Some (r_hash (last (l0_rows idx))))"
    using latest_hash [OF refl, of idx writer] by (simp only: links(2,5) assms(2))
  moreover have "l0_rows idx \<noteq> [] \<Longrightarrow> r_hash (last (l0_rows idx)) = ob_hash (last es)"
    using links(3,5) by (metis last_map length_0_conv)
  ultimately show "getLatestHashForWriter writer idx = (if es = [] then None else Some (ob_hash (last es)))"
    using links(5) by (metis length_0_conv)
qed

text \<open>Appending the next link of the chain, on the newest day, under an id the index does not have.\<close>

lemma chained_append:
  assumes "chained sha writer w" and "computeHash sha obs = ob_hash obs"
    and "ob_sequence obs = getLastSequence (ow_index w) + 1"
    and "in_previous_hash (ob_integrity obs) = getLatestHashForWriter writer (ow_index w)"
    and "in_writer_id (ob_integrity obs) = writer" and "ob_id obs \<noteq> []"
    and "\<forall>d \<in> set (map fst (ow_evidence w)). d \<le> take 10 now"
    and "ow_evidence w' = appendObservation now obs (ow_evidence w)"
    and "l0_rows (ow_index w') = l0_rows (ow_index w) @ [obs_to_row obs]"
  shows "chained sha writer w'"
proof -
  obtain es where es: "readAll (ow_evidence w) = Inr es" "verifyChain sha es = None" "map ob_sequence es = [1 ..< Suc (length es)]"
      "\<forall>o1 \<in> set es. in_writer_id (ob_integrity o1) = writer \<and> ob_id o1 \<noteq> []" "map link_of_row (l0_rows (ow_index w)) = map link_of es"
    and days: "distinct (map fst (ow_evidence w))"
    using assms(1) unfolding chained_def by blast
  have wr: "\<forall>o1 \<in> set es. in_writer_id (ob_integrity o1) = writer" using es(4) by blast
  note idx = chained_index [OF es(5,3) wr]
  have "readAll (ow_evidence w') = Inr (es @ [obs])"
    using read_all_append_newest [OF assms(7) days, of es "[obs]"] es(1) assms(8)
    by (simp add: readAll_def appendObservation_def appendObservationAt_def)
  moreover have "verifyChain sha (es @ [obs]) = None"
    using es(2) assms(2,4) idx(2) by (simp add: verifyChain_def verify_from_snoc)
  moreover have "map ob_sequence (es @ [obs]) = [1 ..< Suc (length (es @ [obs]))]" using es(3) assms(3) idx(1) by simp
  moreover have "map link_of_row (l0_rows (ow_index w')) = map link_of (es @ [obs])"
    using assms(9) es(5) by (simp add: link_of_row_def link_of_def obs_to_row_def)
  moreover have "distinct (map fst (ow_evidence w'))" using days assms(8) by (simp add: appendObservation_def appendObservationAt_def)
  ultimately show ?thesis using es(4) assms(5,6) unfolding chained_def by (intro conjI exI [of _ "es @ [obs]"]) auto
qed

lemma chained_ids: "chained sha writer w \<Longrightarrow> \<forall>x \<in> set (l0_rows (ow_index w)). r_id x \<noteq> []"
proof
  fix x assume "chained sha writer w" and x: "x \<in> set (l0_rows (ow_index w))"
  then obtain es where es: "\<forall>o1 \<in> set es. ob_id o1 \<noteq> []" "map link_of_row (l0_rows (ow_index w)) = map link_of es"
    unfolding chained_def by blast
  have "r_id x \<in> set (map ob_id es)" using x links_of_rows(1) [OF es(2)] by (metis imageI list.set_map)
  then show "r_id x \<noteq> []" using es(1) by auto
qed

lemma chained_cong: "ow_evidence w' = ow_evidence w \<Longrightarrow> ow_index w' = ow_index w \<Longrightarrow> chained sha writer w' = chained sha writer w"
  by (simp add: chained_def)

lemma insert_unless_clash: "\<forall>x \<in> set (l0_rows idx). \<not> row_clash x (obs_to_row obs) \<Longrightarrow> l0_rows (insertOrSkip obs idx) = l0_rows idx @ [obs_to_row obs]"
  by (auto simp: insertOrSkip_def list_ex_iff)

lemma resolve_session_params:
  "fst (resolve_session now p w) = Inr p' \<Longrightarrow> op_idempotency_key p' = op_idempotency_key p \<and> op_source_id p' = op_source_id p"
  by (auto simp: resolve_session_def Let_def split: option.splits prod.splits sum.splits if_splits)

lemma observe_chained:
  assumes "chained (hs_obs (ev_hs env)) (writer_id config) w" and "truthy (op_idempotency_key params) = None"
    and "op_source_id params \<noteq> Some []" and "\<forall>d \<in> set (map fst (ow_evidence w)). d \<le> take 10 (ev_now_iso env)"
    and "handleObserve env config fence params w = (r, w')"
  shows "chained (hs_obs (ev_hs env)) (writer_id config) w'"
proof (cases "ow_evidence w' = ow_evidence w \<and> ow_index w' = ow_index w")
  case True
  then show ?thesis using assms(1) chained_cong by blast
next
  case False
  then obtain p c oid where p: "fst (resolve_session (ev_now env) params w) = Inr p"
      and fresh: "dedup_stage p (payload_hash_of env config p) (ow_index w) = Inr None"
      and ev: "ow_evidence w' = appendObservation (ev_now_iso env)
        (new_observation env config p oid (payload_hash_of env config p) c (ow_index w)) (ow_evidence w)"
      and ix: "ow_index w' = insertOrSkip (new_observation env config p oid (payload_hash_of env config p) c (ow_index w)) (ow_index w)"
    using handleObserve_writes [OF assms(5)] by blast
  let ?h = "payload_hash_of env config p" and ?idx = "ow_index w"
  let ?o = "new_observation env config p oid ?h c ?idx"
  have key: "truthy (op_idempotency_key p) = None" "op_source_id p \<noteq> Some []"
    using resolve_session_params [OF p] assms(2,3) by simp_all
  note ids = chained_ids [OF assms(1)]
  have none: "lookup_by r_id (''obs_'' @ ?h) (l0_rows ?idx) = None"
    using fresh key(1) by (auto simp: dedup_stage_def split: idempotency_result.splits option.splits)
  have "l0_rows (insertOrSkip ?o ?idx) = l0_rows ?idx @ [obs_to_row ?o]"
  proof (cases "op_source_id p")
    case None
    have absent: "''obs_'' @ ?h \<notin> r_id ` set (l0_rows ?idx)" using none by (simp add: lookup_by_None_iff)
    have "\<not> row_clash x (obs_to_row ?o)" if "x \<in> set (l0_rows ?idx)" for x
    proof -
      have "r_id x \<noteq> r_id (obs_to_row ?o)" using that absent by (metis image_eqI new_observation_row(1))
      moreover have "r_source_id (obs_to_row ?o) = None"
        using new_observation_row(2) [of env config p oid ?h c ?idx] None by (simp add: row_key_def)
      moreover have "r_idempotency_key (obs_to_row ?o) = None" using key(1) by (rule new_observation_row(4))
      ultimately show ?thesis by (simp add: row_clash_def)
    qed
    then show ?thesis by (simp add: insert_unless_clash)
  next
    case (Some s)
    then show ?thesis using insert_fresh dedup_fresh [OF fresh key(1) Some _ ids] none key by auto
  qed
  then show ?thesis
    using chained_append [OF assms(1) _ _ _ _ _ assms(4) ev] ix by (simp add: new_observation_facts)
qed

lemma consent_facts [simp]:
  "ob_sequence (consent_observation hash sha now config a action gid extra idx) = getLastSequence idx + 1"
  "in_previous_hash (ob_integrity (consent_observation hash sha now config a action gid extra idx)) = getLatestHashForWriter (writer_id config) idx"
  "in_writer_id (ob_integrity (consent_observation hash sha now config a action gid extra idx)) = writer_id config"
  "computeHash sha (consent_observation hash sha now config a action gid extra idx) = ob_hash (consent_observation hash sha now config a action gid extra idx)"
  "ob_id (consent_observation hash sha now config a action gid extra idx) \<noteq> []"
  "ob_type (consent_observation hash sha now config a action gid extra idx) = T_consent_change"
  "body_get (co_body (ob_content (consent_observation hash sha now config a action gid extra idx))) ''action'' = Some (JStr action)"
  "body_get (co_body (ob_content (consent_observation hash sha now config a action gid extra idx))) ''grant_id'' = Some (JStr gid)"
  "r_source_id (obs_to_row (consent_observation hash sha now config a action gid extra idx)) = None"
  "r_idempotency_key (obs_to_row (consent_observation hash sha now config a action gid extra idx)) = None"
  "r_id (obs_to_row (consent_observation hash sha now config a action gid extra idx)) = ob_id (consent_observation hash sha now config a action gid extra idx)"
  by (simp_all add: consent_observation_def assignIntegrity_def computeHash_def without_hash_def Let_def obs_to_row_def
      body_get_def)

text \<open>No collision of the digest: the id of a new audit record is not taken.\<close>

definition new_id :: "observation \<Rightarrow> observe_world \<Rightarrow> bool" where
  "new_id obs w = (\<forall>x \<in> set (l0_rows (ow_index w)). r_id x \<noteq> ob_id obs)"

definition newest :: "string \<Rightarrow> observe_world \<Rightarrow> bool" where
  "newest now w = (\<forall>d \<in> set (map fst (ow_evidence w)). d \<le> take 10 now)"

lemma audit_chained:
  assumes "chained sha (writer_id config) (kw_pod w)" and "newest now (kw_pod w)"
    and "obs = consent_observation hash sha now config a action gid extra (ow_index (kw_pod w))" and "new_id obs (kw_pod w)"
  shows "chained sha (writer_id config) (kw_pod (audit now obs w))"
proof -
  let ?idx = "ow_index (kw_pod w)"
  have "\<not> row_clash x (obs_to_row obs)" if "x \<in> set (l0_rows ?idx)" for x
    using that assms(3,4) by (auto simp: row_clash_def new_id_def)
  then have "l0_rows (insertOrSkip obs ?idx) = l0_rows ?idx @ [obs_to_row obs]" by (simp add: insert_unless_clash)
  then show ?thesis
    using chained_append [OF assms(1), of obs now "kw_pod (audit now obs w)"] assms(2,3)
    by (simp add: audit_def store_observation_def newest_def)
qed

definition grant_record :: "(consent_payload \<Rightarrow> string) \<Rightarrow> (observation \<Rightarrow> string) \<Rightarrow> string \<Rightarrow> string \<Rightarrow> smartware_config \<Rightarrow> grant_params \<Rightarrow> observe_world \<Rightarrow> observation" where
  "grant_record hash sha uid now config p w = consent_observation hash sha now config (gp_actor p) ''grant'' (''grant_'' @ uid)
     [(''grant_actor_id'', JStr (gi_actor_id (gp_input p)))] (ow_index w)"

definition revoke_record :: "(consent_payload \<Rightarrow> string) \<Rightarrow> (observation \<Rightarrow> string) \<Rightarrow> string \<Rightarrow> smartware_config \<Rightarrow> revoke_params \<Rightarrow> observe_world \<Rightarrow> observation" where
  "revoke_record hash sha now config p w = consent_observation hash sha now config (rp_actor p) ''revoke'' (rp_grant_id p)
     [(''reason'', JStr (or_else (rp_reason p) []))] (ow_index w)"

lemma handleGrant_eq:
  "handleGrant hash sha uid now config p w =
     (if isOwner (ac_id (gp_actor p)) config
      then (Inr (''grant_'' @ uid), audit now (grant_record hash sha uid now config p (kw_pod w))
              (w\<lparr>kw_config := snd (createGrant uid now (gp_input p) (kw_config w))\<rparr>))
      else (Inl (ProtocolError ''owner_required'' NoDetails), w))"
  by (simp add: handleGrant_def requireOwner_def grant_record_def createGrant_def Let_def)

lemma handleRevoke_eq:
  "handleRevoke hash sha now config p w =
     (if \<not> isOwner (ac_id (rp_actor p)) config then (Inl (ProtocolError ''owner_required'' NoDetails), w)
      else if \<not> fst (revokeGrant (rp_grant_id p) (kw_config w)) then (Inl (ProtocolError ''grant_not_found'' NoDetails), w)
      else (Inr (rp_grant_id p), audit now (revoke_record hash sha now config p (kw_pod w))
              (w\<lparr>kw_config := snd (revokeGrant (rp_grant_id p) (kw_config w))\<rparr>)))"
  by (cases "revokeGrant (rp_grant_id p) (kw_config w)") (simp add: handleRevoke_def requireOwner_def revoke_record_def Let_def)

section \<open>Runs\<close>

text \<open>The calls of one writer process on a pod, with a clock that does not go back past a day the log already has. An
  observation carries no idempotency key and no empty source id: with them it can be appended without being indexed.\<close>

inductive pod_run :: "(observation \<Rightarrow> string) \<Rightarrow> (consent_payload \<Rightarrow> string) \<Rightarrow> string \<Rightarrow> consent_world \<Rightarrow> bool" for sha hash writer where
  fresh: "ow_evidence (kw_pod w) = [] \<Longrightarrow> l0_rows (ow_index (kw_pod w)) = [] \<Longrightarrow> pod_run sha hash writer w"
| observe: "pod_run sha hash writer w \<Longrightarrow> writer_id config = writer \<Longrightarrow> hs_obs (ev_hs env) = sha \<Longrightarrow> newest (ev_now_iso env) (kw_pod w)
    \<Longrightarrow> truthy (op_idempotency_key p) = None \<Longrightarrow> op_source_id p \<noteq> Some []
    \<Longrightarrow> pod_run sha hash writer (w\<lparr>kw_pod := snd (handleObserve env config fence p (kw_pod w))\<rparr>)"
| grant: "pod_run sha hash writer w \<Longrightarrow> writer_id config = writer \<Longrightarrow> newest now (kw_pod w)
    \<Longrightarrow> new_id (grant_record hash sha uid now config p1 (kw_pod w)) (kw_pod w)
    \<Longrightarrow> pod_run sha hash writer (snd (handleGrant hash sha uid now config p1 w))"
| revoke: "pod_run sha hash writer w \<Longrightarrow> writer_id config = writer \<Longrightarrow> newest now (kw_pod w)
    \<Longrightarrow> new_id (revoke_record hash sha now config p2 (kw_pod w)) (kw_pod w)
    \<Longrightarrow> pod_run sha hash writer (snd (handleRevoke hash sha now config p2 w))"

lemma pod_run_chained: "pod_run sha hash writer w \<Longrightarrow> chained sha writer (kw_pod w)"
proof (induction rule: pod_run.induct)
  case (fresh w)
  then show ?case by (simp add: chained_def readAll_def read_all_def log_days_def verifyChain_def)
next
  case (observe w config env p fence)
  obtain r w' where run: "handleObserve env config fence p (kw_pod w) = (r, w')" by (metis surj_pair)
  then show ?case using observe_chained [of env config "kw_pod w" p fence r w'] observe by (simp add: newest_def)
next
  case (grant w config now uid p1)
  have "chained sha (writer_id config) (kw_pod (audit now (grant_record hash sha uid now config p1 (kw_pod w)) (w\<lparr>kw_config := c\<rparr>)))" for c
    by (rule audit_chained) (use grant in \<open>simp_all add: grant_record_def\<close>)
  then show ?case using grant by (simp add: handleGrant_eq)
next
  case (revoke w config now p2)
  have "chained sha (writer_id config) (kw_pod (audit now (revoke_record hash sha now config p2 (kw_pod w)) (w\<lparr>kw_config := c\<rparr>)))" for c
    by (rule audit_chained) (use revoke in \<open>simp_all add: revoke_record_def\<close>)
  then show ?case using revoke by (simp add: handleRevoke_eq)
qed

section \<open>Properties\<close>

text \<open>The evidence log of a pod is always a verified hash chain. After any sequence of OBSERVE, GRANT and REVOKE calls
  of one writer, accepted or refused, with and without sessions and operation ids, the log reads, its records are numbered
  1, 2, 3 and so on in the order they are read, and the verification of the chain finds no broken link.\<close>

lemma evidence_chain_verifies:
  assumes "pod_run sha hash writer w"
  shows "\<exists>es. readAll (ow_evidence (kw_pod w)) = Inr es \<and> verifyChain sha es = None
    \<and> map ob_sequence es = [1 ..< Suc (length es)] \<and> (\<forall>e \<in> set es. in_writer_id (ob_integrity e) = writer)"
  using pod_run_chained [OF assms] unfolding chained_def by blast

text \<open>Every change of consent is the owner's and is audited. A GRANT or REVOKE call that is refused, because the caller
  does not own the pod or the grant is unknown, changes nothing at all; a call that succeeds changes the grants exactly as
  asked and appends exactly one record, of type consent change, which names the action and the grant.\<close>

lemma consent_audited:
  "(case handleGrant hash sha uid now config p w of
      (Inl x, w') \<Rightarrow> w' = w \<and> \<not> isOwner (ac_id (gp_actor p)) config
    | (Inr gid, w') \<Rightarrow> isOwner (ac_id (gp_actor p)) config \<and> kw_config w' = snd (createGrant uid now (gp_input p) (kw_config w))
        \<and> (\<exists>g \<in> set (cfg_grants (kw_config w')). g_id g = gid \<and> g_status g = GActive \<and> g_actor_id g = gi_actor_id (gp_input p))
        \<and> (\<exists>obs. ow_evidence (kw_pod w') = appendObservation now obs (ow_evidence (kw_pod w)) \<and> ob_type obs = T_consent_change
             \<and> body_get (co_body (ob_content obs)) ''action'' = Some (JStr ''grant'')
             \<and> body_get (co_body (ob_content obs)) ''grant_id'' = Some (JStr gid)))
   \<and> (case handleRevoke hash sha now config q w of
      (Inl x, w') \<Rightarrow> w' = w \<and> (\<not> isOwner (ac_id (rp_actor q)) config \<or> rp_grant_id q \<notin> g_id ` set (cfg_grants (kw_config w)))
    | (Inr gid, w') \<Rightarrow> isOwner (ac_id (rp_actor q)) config \<and> kw_config w' = snd (revokeGrant gid (kw_config w)) \<and> gid = rp_grant_id q
        \<and> gid \<in> g_id ` set (cfg_grants (kw_config w))
        \<and> (\<exists>obs. ow_evidence (kw_pod w') = appendObservation now obs (ow_evidence (kw_pod w)) \<and> ob_type obs = T_consent_change
             \<and> body_get (co_body (ob_content obs)) ''action'' = Some (JStr ''revoke'')
             \<and> body_get (co_body (ob_content obs)) ''grant_id'' = Some (JStr gid)))"
proof
  let ?g = "grant_record hash sha uid now config p (kw_pod w)"
  have "ob_type ?g = T_consent_change \<and> body_get (co_body (ob_content ?g)) ''action'' = Some (JStr ''grant'')
      \<and> body_get (co_body (ob_content ?g)) ''grant_id'' = Some (JStr (''grant_'' @ uid))" by (simp add: grant_record_def)
  then show "case handleGrant hash sha uid now config p w of
      (Inl x, w') \<Rightarrow> w' = w \<and> \<not> isOwner (ac_id (gp_actor p)) config
    | (Inr gid, w') \<Rightarrow> isOwner (ac_id (gp_actor p)) config \<and> kw_config w' = snd (createGrant uid now (gp_input p) (kw_config w))
        \<and> (\<exists>g \<in> set (cfg_grants (kw_config w')). g_id g = gid \<and> g_status g = GActive \<and> g_actor_id g = gi_actor_id (gp_input p))
        \<and> (\<exists>obs. ow_evidence (kw_pod w') = appendObservation now obs (ow_evidence (kw_pod w)) \<and> ob_type obs = T_consent_change
             \<and> body_get (co_body (ob_content obs)) ''action'' = Some (JStr ''grant'')
             \<and> body_get (co_body (ob_content obs)) ''grant_id'' = Some (JStr gid))"
    by (auto simp: handleGrant_eq audit_def store_observation_def createGrant_def Let_def)
next
  let ?r = "revoke_record hash sha now config q (kw_pod w)"
  have "ob_type ?r = T_consent_change \<and> body_get (co_body (ob_content ?r)) ''action'' = Some (JStr ''revoke'')
      \<and> body_get (co_body (ob_content ?r)) ''grant_id'' = Some (JStr (rp_grant_id q))" by (simp add: revoke_record_def)
  moreover have "fst (revokeGrant (rp_grant_id q) (kw_config w)) = (rp_grant_id q \<in> g_id ` set (cfg_grants (kw_config w)))"
    using revoke_first_None_iff [of "rp_grant_id q" "cfg_grants (kw_config w)"] by (auto simp: revokeGrant_def split: option.split)
  ultimately show "case handleRevoke hash sha now config q w of
      (Inl x, w') \<Rightarrow> w' = w \<and> (\<not> isOwner (ac_id (rp_actor q)) config \<or> rp_grant_id q \<notin> g_id ` set (cfg_grants (kw_config w)))
    | (Inr gid, w') \<Rightarrow> isOwner (ac_id (rp_actor q)) config \<and> kw_config w' = snd (revokeGrant gid (kw_config w)) \<and> gid = rp_grant_id q
        \<and> gid \<in> g_id ` set (cfg_grants (kw_config w))
        \<and> (\<exists>obs. ow_evidence (kw_pod w') = appendObservation now obs (ow_evidence (kw_pod w)) \<and> ob_type obs = T_consent_change
             \<and> body_get (co_body (ob_content obs)) ''action'' = Some (JStr ''revoke'')
             \<and> body_get (co_body (ob_content obs)) ''grant_id'' = Some (JStr gid))"
    by (auto simp: handleRevoke_eq audit_def store_observation_def)
qed

section \<open>A concrete run\<close>

definition demo_consent_world :: consent_world where
  "demo_consent_world = \<lparr>kw_config = demo_config, kw_pod = demo_world\<rparr>"

definition demo_grant_params :: grant_params where
  "demo_grant_params = \<lparr>gp_actor = op_actor demo_params, gp_input = \<lparr>gi_actor_type = Agent, gi_actor_id = ''agent:a'',
     gi_capabilities = [(OpObserve, [''self''])], gi_trusted = None, gi_quarantine = None, gi_expires_at = None\<rparr>\<rparr>"

definition demo_hash :: "consent_payload \<Rightarrow> string" where
  "demo_hash pl = cp_action pl @ nat_to_string (cp_sequence pl)"

definition demo_granted :: consent_world where
  "demo_granted = snd (handleGrant demo_hash demo_sha ''1'' ''2026-01-01T00:00:00Z'' demo_config demo_grant_params demo_consent_world)"

definition demo_revoked :: "string outcome \<times> consent_world" where
  "demo_revoked = handleRevoke demo_hash demo_sha ''2026-01-02T00:00:00Z'' demo_config
     \<lparr>rp_actor = op_actor demo_params, rp_grant_id = ''grant_1'', rp_reason = None\<rparr> demo_granted"

lemma evidence_chain_verifies_example:
  "\<exists>es. readAll (ow_evidence (kw_pod (snd demo_revoked))) = Inr es \<and> verifyChain demo_sha es = None \<and> length es = 2"
proof -
  let ?w = "writer_id demo_config"
  have "pod_run demo_sha demo_hash ?w demo_consent_world"
    by (rule pod_run.fresh) (simp_all add: demo_consent_world_def demo_world_def)
  then have "pod_run demo_sha demo_hash ?w demo_granted" unfolding demo_granted_def
    by (rule pod_run.grant [OF _ refl]) code_simp+
  then have "pod_run demo_sha demo_hash ?w (snd demo_revoked)" unfolding demo_revoked_def
    by (rule pod_run.revoke [OF _ refl]) code_simp+
  then obtain es where es: "readAll (ow_evidence (kw_pod (snd demo_revoked))) = Inr es" "verifyChain demo_sha es = None"
    using evidence_chain_verifies by blast
  moreover have "map_sum (\<lambda>x. x) length (readAll (ow_evidence (kw_pod (snd demo_revoked)))) = Inr 2" by code_simp
  ultimately show ?thesis by simp
qed

lemma consent_audited_example:
  "\<exists>obs. ow_evidence (kw_pod demo_granted) = appendObservation ''2026-01-01T00:00:00Z'' obs [] \<and> ob_type obs = T_consent_change
     \<and> body_get (co_body (ob_content obs)) ''grant_id'' = Some (JStr ''grant_1'')"
proof -
  have run: "handleGrant demo_hash demo_sha ''1'' ''2026-01-01T00:00:00Z'' demo_config demo_grant_params demo_consent_world
      = (Inr ''grant_1'', demo_granted)"
  proof -
    have "isOwner (ac_id (gp_actor demo_grant_params)) demo_config" by code_simp
    then show ?thesis by (simp add: demo_granted_def handleGrant_eq)
  qed
  have "ow_evidence (kw_pod demo_consent_world) = []" by (simp add: demo_consent_world_def demo_world_def)
  then show ?thesis
    using consent_audited [where hash = demo_hash and sha = demo_sha and uid = "''1''" and now = "''2026-01-01T00:00:00Z''" and config = demo_config
        and p = demo_grant_params and w = demo_consent_world] run
    by auto
qed

end
