(* ===== verification/Admission.thy ===== *)
theory Admission
  imports Claim_Store
begin

text \<open>
  Confidence scores (\<^verbatim>\<open>layer1/confidence.ts\<close>), conflict detection and the deterministic admission of claims
  (\<^verbatim>\<open>layer1/conflicts.ts\<close>), and the management of supporting evidence (\<^verbatim>\<open>layer1/corroboration.ts\<close>) over the
  claim store. Every read and write of the store is in the order of the code, and an insert that fails ends the
  operation in the state it left. The clock in milliseconds is \<open>av_now\<close>, one reading per operation;
  \<^verbatim>\<open>new Date(s).getTime()\<close> is \<open>av_ms\<close>, None for an Invalid Date; \<^verbatim>\<open>Math.pow(0.5, x)\<close>, which ECMAScript leaves
  to the implementation, is \<open>av_pow\<close>. A confidence that is not a number is None.
\<close>

section \<open>Confidence\<close>

record admission_env =
  av_store :: store_env
  av_now :: int
  av_ms :: "string \<Rightarrow> int option"
  av_pow :: "rat \<Rightarrow> rat"

definition PROJECT_SCOPE_HALF_LIFE_DAYS :: rat where
  "PROJECT_SCOPE_HALF_LIFE_DAYS = 30"

definition getScopeHalfLife :: "string \<Rightarrow> rat" where
  "getScopeHalfLife scope =
     (if scope = ''self'' \<or> starts_with scope ''self/'' then 365
      else if starts_with scope ''project:'' then PROJECT_SCOPE_HALF_LIFE_DAYS
      else 90)"

definition sourceReliability :: "claim \<Rightarrow> rat" where
  "sourceReliability c =
     (case cl_epistemic c of LUserConfirmed \<Rightarrow> 1 | LAsserted \<Rightarrow> 9 / 10 | LObserved \<Rightarrow> 8 / 10 | LInferred \<Rightarrow> 6 / 10
      | LSystemGenerated \<Rightarrow> 5 / 10)"

definition recencyScore :: "admission_env \<Rightarrow> claim \<Rightarrow> rat \<Rightarrow> rat option" where
  "recencyScore env c halfLife =
     map_option (\<lambda>ms. let ageDays = of_int (av_now env - ms) / (1000 * 60 * 60 * 24) in av_pow env (ageDays / halfLife))
       (av_ms env (fst (cl_validity c)))"

definition corroborationScore :: "claim \<Rightarrow> rat" where
  "corroborationScore c = min (of_nat (length (cl_supporting_evidence c)) / 3) 1"

definition contradictionPenalty :: "claim \<Rightarrow> rat" where
  "contradictionPenalty c = of_nat (length (cl_contested_by c)) * (- (15 / 100))"

definition extractionConfidence :: "claim \<Rightarrow> rat" where
  "extractionConfidence c = (case ex_method (cl_extraction c) of MDeterministic \<Rightarrow> 1 | MUserInput \<Rightarrow> 1 | MLlm \<Rightarrow> 7 / 10)"

definition computeConfidence :: "admission_env \<Rightarrow> claim \<Rightarrow> rat option" where
  "computeConfidence env c =
     map_option (\<lambda>recency.
        let score = sourceReliability c * (20 / 100) + (if cl_epistemic c = LUserConfirmed then 1 else 0) * (25 / 100)
              + recency * (15 / 100) + corroborationScore c * (15 / 100)
              + max (contradictionPenalty c) (- (45 / 100)) + extractionConfidence c * (10 / 100)
        in max 0 (min 1 score))
       (recencyScore env c (getScopeHalfLife (cl_scope c)))"

definition isStale :: "claim \<Rightarrow> rat \<Rightarrow> bool" where
  "isStale c threshold = ((case cl_confidence c of None \<Rightarrow> False | Some x \<Rightarrow> x < threshold) \<and> cl_status c = StActive)"

section \<open>Supporting evidence\<close>

definition addCorroborationEvidence :: "admission_env \<Rightarrow> string \<Rightarrow> string \<Rightarrow> claim_store \<Rightarrow> unit outcome \<times> claim_store" where
  "addCorroborationEvidence env existingClaimId newObsId st =
     (case getClaim existingClaimId st of
        None \<Rightarrow> (Inr (), st)
      | Some existing \<Rightarrow>
          and_then (updateClaimSupportingEvidence (av_store env) existingClaimId
                      (js_set (cl_supporting_evidence existing @ [newObsId])) st)
            (\<lambda>_ st1. case getClaim existingClaimId st1 of
                None \<Rightarrow> (Inr (), st1)
              | Some refreshed \<Rightarrow> updateClaimConfidence (av_store env) existingClaimId (computeConfidence env refreshed) st1))"

fun for_each :: "('a \<Rightarrow> 's \<Rightarrow> unit outcome \<times> 's) \<Rightarrow> 'a list \<Rightarrow> 's \<Rightarrow> unit outcome \<times> 's" where
  "for_each f [] s = (Inr (), s)"
| "for_each f (x # xs) s = and_then (f x s) (\<lambda>_ s1. for_each f xs s1)"

record fact_match_resolution =
  fm_claimId :: string
  fm_ambiguous_matches :: nat
  fm_ambiguity_resolved :: bool
  fm_superseded_claims :: "string list"
  fm_supporting_evidence :: nat
  fm_confidence :: "rat option"

definition evidence_count :: "string \<Rightarrow> nat \<Rightarrow> claim_store \<Rightarrow> nat" where
  "evidence_count i d st = (case getClaim i st of None \<Rightarrow> d | Some c \<Rightarrow> length (cl_supporting_evidence c))"

definition confidence_after :: "string \<Rightarrow> rat option \<Rightarrow> claim_store \<Rightarrow> rat option" where
  "confidence_after i d st = (case getClaim i st of None \<Rightarrow> d | Some c \<Rightarrow> cl_confidence c)"

definition resolveFactMatches ::
  "admission_env \<Rightarrow> claim list \<Rightarrow> string option \<Rightarrow> string \<Rightarrow> claim_store \<Rightarrow> fact_match_resolution outcome \<times> claim_store" where
  "resolveFactMatches env matches observationId now st =
     (case sort_key cl_id matches of
        [] \<Rightarrow> (Inl (JsError ''resolveFactMatches: no matches to resolve''), st)
      | [survivor] \<Rightarrow>
          and_then (if truthy observationId then addCorroborationEvidence env (cl_id survivor) (the observationId) st else (Inr (), st))
            (\<lambda>_ st1. (Inr \<lparr>fm_claimId = cl_id survivor, fm_ambiguous_matches = 1, fm_ambiguity_resolved = False,
                           fm_superseded_claims = [], fm_supporting_evidence = evidence_count (cl_id survivor) 0 st1,
                           fm_confidence = confidence_after (cl_id survivor) (cl_confidence survivor) st1\<rparr>, st1))
      | survivor # losers \<Rightarrow>
          (let merged = js_set (cl_supporting_evidence survivor @ concat (map cl_supporting_evidence losers)
                          @ (if truthy observationId then [the observationId] else []))
           in and_then (updateClaimSupportingEvidence (av_store env) (cl_id survivor) merged st)
            (\<lambda>_ st1. and_then
              (case getClaim (cl_id survivor) st1 of
                 None \<Rightarrow> (Inr (), st1)
               | Some withEvidence \<Rightarrow> updateClaimConfidence (av_store env) (cl_id survivor) (computeConfidence env withEvidence) st1)
              (\<lambda>_ st2. and_then
                (for_each (\<lambda>loser. updateClaimStatus (av_store env) (cl_id loser) StSuperseded (Some (cl_id survivor)) (Some (knownTime now)) None)
                  losers st2)
                (\<lambda>_ st3. (Inr \<lparr>fm_claimId = cl_id survivor, fm_ambiguous_matches = length matches, fm_ambiguity_resolved = True,
                               fm_superseded_claims = map cl_id losers,
                               fm_supporting_evidence = evidence_count (cl_id survivor) (length merged) st3,
                               fm_confidence = confidence_after (cl_id survivor) (Some 0) st3\<rparr>, st3))))))"

fun remove_loop ::
  "admission_env \<Rightarrow> string \<Rightarrow> claim_time option \<Rightarrow> claim list \<Rightarrow> string list \<Rightarrow> claim_store \<Rightarrow> string list outcome \<times> claim_store" where
  "remove_loop env removedObsId invalidatedAt [] retracted st = (Inr retracted, st)"
| "remove_loop env removedObsId invalidatedAt (c # cs) retracted st =
     (if removedObsId \<notin> set (cl_supporting_evidence c) \<and> cl_source_event_id c \<noteq> removedObsId \<and> cl_extraction_event_id c \<noteq> removedObsId
      then remove_loop env removedObsId invalidatedAt cs retracted st
      else
        let remaining = filter (\<lambda>i. i \<noteq> removedObsId) (cl_supporting_evidence c) in
        and_then (updateClaimSupportingEvidence (av_store env) (cl_id c) remaining st)
          (\<lambda>_ st1.
             if remaining = []
             then and_then (updateClaimStatus (av_store env) (cl_id c) StRetracted None invalidatedAt None st1)
                    (\<lambda>_ st2. remove_loop env removedObsId invalidatedAt cs (retracted @ [cl_id c]) st2)
             else and_then
                    (case getClaim (cl_id c) st1 of
                       None \<Rightarrow> (Inr (), st1)
                     | Some refreshed \<Rightarrow> updateClaimConfidence (av_store env) (cl_id c) (computeConfidence env refreshed) st1)
                    (\<lambda>_ st2. remove_loop env removedObsId invalidatedAt cs retracted st2)))"

definition removeEvidenceFromClaims ::
  "admission_env \<Rightarrow> string \<Rightarrow> claim_time option \<Rightarrow> claim_store \<Rightarrow> string list outcome \<times> claim_store" where
  "removeEvidenceFromClaims env removedObsId invalidatedAt st =
     remove_loop env removedObsId invalidatedAt (getActiveClaims (av_store env) None st) [] st"

section \<open>Conflicts\<close>

datatype conflict_type = Corroboration | SemanticConflict | TemporalSupersession | NoConflict

record conflict_result =
  cf_type :: conflict_type
  cf_existing :: "claim option"
  cf_same_key :: "claim list"

definition LIVE_STATUSES :: "claim_status set" where
  "LIVE_STATUSES = {StActive, StStale, StContested}"

definition same_key :: "claim \<Rightarrow> claim \<Rightarrow> bool" where
  "same_key n c = (cl_predicate c = cl_predicate n \<and> cl_scope c = cl_scope n \<and> fst (cl_validity c) = fst (cl_validity n))"

definition agrees :: "claim \<Rightarrow> claim \<Rightarrow> bool" where
  "agrees n c = (normaliseValue (cl_object c) = normaliseValue (cl_object n))"

definition supersedable :: "claim \<Rightarrow> claim \<Rightarrow> bool" where
  "supersedable n c = (cl_status c = StActive \<and> cl_predicate c = cl_predicate n \<and> cl_scope c = cl_scope n
     \<and> fst (cl_validity c) < fst (cl_validity n))"

definition live_claims :: "admission_env \<Rightarrow> claim \<Rightarrow> claim_store \<Rightarrow> claim list" where
  "live_claims env n st = filter (\<lambda>c. cl_status c \<in> LIVE_STATUSES) (getClaimsBySubject (av_store env) (cl_subject_id n) None st)"

definition detectConflict :: "admission_env \<Rightarrow> claim \<Rightarrow> claim_store \<Rightarrow> conflict_result" where
  "detectConflict env n st =
     (let live = live_claims env n st; sameKey = filter (same_key n) live in
      case sameKey of
        c # cs \<Rightarrow>
          (case List.find (agrees n) sameKey of
             Some a \<Rightarrow> \<lparr>cf_type = Corroboration, cf_existing = Some a, cf_same_key = sameKey\<rparr>
           | None \<Rightarrow> \<lparr>cf_type = SemanticConflict, cf_existing = Some c, cf_same_key = sameKey\<rparr>)
      | [] \<Rightarrow>
          (case List.find (supersedable n) live of
             Some t \<Rightarrow> \<lparr>cf_type = TemporalSupersession, cf_existing = Some t, cf_same_key = []\<rparr>
           | None \<Rightarrow> \<lparr>cf_type = NoConflict, cf_existing = None, cf_same_key = []\<rparr>))"

definition refresh_confidence :: "admission_env \<Rightarrow> string \<Rightarrow> claim option \<Rightarrow> claim_store \<Rightarrow> unit outcome \<times> claim_store" where
  "refresh_confidence env i c st =
     (case c of None \<Rightarrow> (Inr (), st) | Some c \<Rightarrow> updateClaimConfidence (av_store env) i (computeConfidence env c) st)"

definition applySemanticConflict :: "admission_env \<Rightarrow> string \<Rightarrow> string \<Rightarrow> claim_store \<Rightarrow> unit outcome \<times> claim_store" where
  "applySemanticConflict env existingId newId st =
     and_then (markContested (av_store env) existingId newId st)
       (\<lambda>_ st1. let existing = getClaim existingId st1; updated = getClaim newId st1 in
          and_then (refresh_confidence env existingId existing st1) (\<lambda>_ st2. refresh_confidence env newId updated st2))"

definition replacement_valid_to :: "claim \<Rightarrow> claim_time option" where
  "replacement_valid_to r =
     (if ct_value (cl_t_valid_from r) \<noteq> None then Some (cl_t_valid_from r)
      else if fst (cl_validity r) \<noteq> [] then Some (knownTime (fst (cl_validity r))) else None)"

definition applyTemporalSupersession :: "admission_env \<Rightarrow> string \<Rightarrow> claim \<Rightarrow> claim_store \<Rightarrow> unit outcome \<times> claim_store" where
  "applyTemporalSupersession env oldClaimId replacement st =
     updateClaimStatus (av_store env) oldClaimId StSuperseded (Some (cl_id replacement)) (Some (cl_t_ingested replacement))
       (replacement_valid_to replacement) st"

datatype admission_outcome = AInserted | ACorroborated | AContested | ASuperseded

record claim_admission =
  ad_outcome :: admission_outcome
  ad_claim_id :: string
  ad_related_claim_ids :: "string list"
  ad_superseded_claim_id :: "string option"

definition scored :: "admission_env \<Rightarrow> claim \<Rightarrow> claim" where
  "scored env c = c\<lparr>cl_confidence := computeConfidence env c\<rparr>"

definition admitClaim :: "admission_env \<Rightarrow> claim \<Rightarrow> claim_store \<Rightarrow> claim_admission outcome \<times> claim_store" where
  "admitClaim env c st =
     (let conflict = detectConflict env c st in
      case (cf_type conflict, cf_existing conflict) of
        (Corroboration, Some existing) \<Rightarrow>
          and_then (for_each (addCorroborationEvidence env (cl_id existing)) (cl_supporting_evidence c) st)
            (\<lambda>_ st1. (Inr \<lparr>ad_outcome = ACorroborated, ad_claim_id = cl_id existing, ad_related_claim_ids = [cl_id existing],
                           ad_superseded_claim_id = None\<rparr>, st1))
      | (SemanticConflict, Some existing) \<Rightarrow>
          (let others = filter (\<lambda>e. cl_id e \<noteq> cl_id c) (cf_same_key conflict) in
           and_then (insertClaim (av_store env) (scored env c) st)
             (\<lambda>_ st1. and_then (for_each (\<lambda>e. applySemanticConflict env (cl_id e) (cl_id c)) others st1)
               (\<lambda>_ st2. (Inr \<lparr>ad_outcome = AContested, ad_claim_id = cl_id c, ad_related_claim_ids = cl_id c # map cl_id others,
                              ad_superseded_claim_id = None\<rparr>, st2))))
      | (TemporalSupersession, Some existing) \<Rightarrow>
          and_then (insertClaim (av_store env) (scored env c) st)
            (\<lambda>_ st1. and_then (applyTemporalSupersession env (cl_id existing) (scored env c) st1)
              (\<lambda>_ st2. (Inr \<lparr>ad_outcome = ASuperseded, ad_claim_id = cl_id c, ad_related_claim_ids = [cl_id existing, cl_id c],
                             ad_superseded_claim_id = Some (cl_id existing)\<rparr>, st2)))
      | _ \<Rightarrow>
          and_then (insertClaim (av_store env) (scored env c) st)
            (\<lambda>_ st1. (Inr \<lparr>ad_outcome = AInserted, ad_claim_id = cl_id c, ad_related_claim_ids = [cl_id c],
                           ad_superseded_claim_id = None\<rparr>, st1)))"

section \<open>Evolution of claims\<close>

text \<open>
  What an admission may do to a claim that is already there: its assertion and start stay, evidence and contests
  only grow, a contest is never left, nothing becomes active again, and only an active claim is superseded, by
  one of the admitted claims, with the same predicate and scope and a later start.
\<close>

definition start_of :: "claim \<Rightarrow> string" where
  "start_of c = fst (compatibilityValidity (cl_t_valid_from c) (cl_t_valid_to c) (cl_t_ingested c))"

definition superseded_in_order :: "claim set \<Rightarrow> claim \<Rightarrow> claim \<Rightarrow> bool" where
  "superseded_in_order N c c' = (\<exists>n \<in> N. cl_superseded_by c' = Some (cl_id n) \<and> cl_subject_id c = cl_subject_id n
     \<and> cl_predicate c = cl_predicate n \<and> cl_scope c = cl_scope n \<and> start_of c < fst (cl_validity n))"

definition keeps_claim :: "claim \<Rightarrow> claim \<Rightarrow> bool" where
  "keeps_claim c c' =
     (cl_subject_id c' = cl_subject_id c \<and> cl_predicate c' = cl_predicate c \<and> cl_object c' = cl_object c \<and> cl_scope c' = cl_scope c
      \<and> cl_t_valid_from c' = cl_t_valid_from c \<and> cl_t_ingested c' = cl_t_ingested c
      \<and> set (cl_supporting_evidence c) \<subseteq> set (cl_supporting_evidence c') \<and> set (cl_contested_by c) \<subseteq> set (cl_contested_by c')
      \<and> (cl_status c = StContested \<longrightarrow> cl_status c' = StContested) \<and> (cl_status c \<noteq> StActive \<longrightarrow> cl_status c' \<noteq> StActive))"

definition admits :: "claim set \<Rightarrow> claim \<Rightarrow> claim \<Rightarrow> bool" where
  "admits N c c' = (keeps_claim c c'
      \<and> (cl_status c' = StSuperseded \<longrightarrow> (cl_status c = StSuperseded \<and> cl_superseded_by c' = cl_superseded_by c)
           \<or> (cl_status c = StActive \<and> superseded_in_order N c c')))"

lemma start_of_cong: "cl_t_valid_from c' = cl_t_valid_from c \<Longrightarrow> cl_t_ingested c' = cl_t_ingested c \<Longrightarrow> start_of c' = start_of c"
  by (simp add: start_of_def compatibilityValidity_def)

lemma admits_refl: "reflp (admits N)"
  by (auto simp: admits_def keeps_claim_def intro: reflpI)

lemma keeps_claim_trans: "keeps_claim a b \<Longrightarrow> keeps_claim b c \<Longrightarrow> keeps_claim a c"
  by (auto simp: keeps_claim_def)

lemma admits_trans: "transp (admits N)"
proof (rule transpI)
  fix a b c assume ab: "admits N a b" and bc: "admits N b c"
  note keeps = ab [unfolded admits_def, THEN conjunct1] bc [unfolded admits_def, THEN conjunct1]
  have start: "start_of b = start_of a" using keeps(1) by (intro start_of_cong) (simp_all add: keeps_claim_def)
  have "(cl_status a = StSuperseded \<and> cl_superseded_by c = cl_superseded_by a) \<or> (cl_status a = StActive \<and> superseded_in_order N a c)"
    if "cl_status c = StSuperseded"
  proof (cases "cl_status b = StSuperseded")
    case True
    then have "cl_superseded_by c = cl_superseded_by b" using bc that by (auto simp: admits_def)
    moreover have "(cl_status a = StSuperseded \<and> cl_superseded_by b = cl_superseded_by a) \<or> (cl_status a = StActive \<and> superseded_in_order N a b)"
      using ab True by (simp add: admits_def)
    ultimately show ?thesis by (auto simp: superseded_in_order_def)
  next
    case False
    then have "cl_status b = StActive" "superseded_in_order N b c" using bc that by (auto simp: admits_def)
    then show ?thesis using keeps(1) start by (auto simp: superseded_in_order_def keeps_claim_def)
  qed
  then show "admits N a c" using keeps_claim_trans [OF keeps] by (simp add: admits_def)
qed

lemma admits_stored [simp]: "admits N c (stored c') = admits N c c'"
  by (simp add: admits_def keeps_claim_def superseded_in_order_def)

text \<open>One step of an admission: it keeps the key of the table, adds no id and evolves every claim.\<close>

definition admission_step :: "claim set \<Rightarrow> claim_store \<Rightarrow> claim_store \<Rightarrow> bool" where
  "admission_step N st st' = (evolves getClaim (admits N) st st'
     \<and> (keys_unique cl_id (st_claims st) \<longrightarrow> keys_unique cl_id (st_claims st'))
     \<and> (\<forall>i. getClaim i st = None \<longrightarrow> getClaim i st' = None))"

lemma admission_step_refl [simp]: "admission_step N st st"
  by (simp add: admission_step_def evolves_refl admits_refl)

lemma admission_step_trans: "admission_step N s t \<Longrightarrow> admission_step N t u \<Longrightarrow> admission_step N s u"
  by (auto simp: admission_step_def intro: evolves_trans [OF admits_trans])

lemma insertClaim_keys: "keys_unique cl_id (st_claims st) \<Longrightarrow> keys_unique cl_id (st_claims (snd (insertClaim env c st)))"
  by (simp add: insertClaim_def Let_def keyed split: option.split sum.split)

lemma step_insert:
  assumes "getClaim (cl_id c) st = Some old" and "admits N old c"
  shows "admission_step N st (snd (insertClaim env c st))"
proof -
  have "getClaim i (snd (insertClaim env c st)) = None" if "getClaim i st = None" for i
    using claims.put_other [of i c env st] assms(1) that by (cases "i = cl_id c") auto
  moreover have "evolves getClaim (admits N) st (snd (insertClaim env c st))"
    by (rule claims.put_evolves [OF admits_refl]) (use assms in simp)
  ultimately show ?thesis by (simp add: admission_step_def insertClaim_keys)
qed

lemma getClaim_id: "getClaim i st = Some c \<Longrightarrow> cl_id c = i"
  by (auto simp: getClaim_def dest!: lookup_by_SomeD)

lemma step_update:
  assumes "\<And>c. getClaim i st = Some c \<Longrightarrow> cl_id (f c) = i \<and> admits N c (f c)"
  shows "admission_step N st (snd (update_claim env i f st))"
  using assms step_insert by (auto simp: update_claim_def split: option.split)

lemma step_and_then:
  assumes "admission_step N s (snd p)" and "\<And>a s1. p = (Inr a, s1) \<Longrightarrow> admission_step N s1 (snd (f a s1))"
  shows "admission_step N s (snd (and_then p f))"
  using assms admission_step_trans by (cases p) (auto simp: and_then_def split: sum.split)

lemma step_for_each:
  assumes "\<And>x s. x \<in> set xs \<Longrightarrow> admission_step N s (snd (f x s))"
  shows "admission_step N s (snd (for_each f xs s))"
  using assms by (induction xs arbitrary: s) (auto intro: step_and_then)

lemma step_confidence: "admission_step N st (snd (updateClaimConfidence env i conf st))"
  unfolding updateClaimConfidence_def
  by (rule step_update) (auto simp: getClaim_id admits_def keeps_claim_def superseded_in_order_def)

lemma step_refresh: "admission_step N st (snd (refresh_confidence env i c st))"
  by (simp add: refresh_confidence_def step_confidence split: option.split)

lemma step_evidence:
  assumes "\<And>c. getClaim i st = Some c \<Longrightarrow> set (cl_supporting_evidence c) \<subseteq> set ev"
  shows "admission_step N st (snd (updateClaimSupportingEvidence env i ev st))"
  unfolding updateClaimSupportingEvidence_def
  by (rule step_update) (use assms in \<open>auto simp: getClaim_id admits_def keeps_claim_def superseded_in_order_def\<close>)

lemma step_corroborate: "admission_step N st (snd (addCorroborationEvidence env i ob st))"
  unfolding addCorroborationEvidence_def
  by (auto intro!: step_and_then step_evidence step_confidence split: option.split)

lemma step_contest: "admission_step N st (snd (markContested env a b st))"
proof (cases "getClaim a st")
  case (Some first)
  show ?thesis
  proof (cases "getClaim b st")
    case second: (Some second)
    have contest: "admits N c (contest k c)" for c k by (auto simp: admits_def keeps_claim_def contest_def)
    have "admission_step N st1 (snd (insertClaim env (contest a second) st1))"
      if run: "insertClaim env (contest b first) st = (Inr (), st1)" for st1
    proof (cases "a = b")
      case True
      then have "second = first" using Some second by simp
      have "getClaim b st1 = Some (stored (contest b first))"
        using claims.put_done [OF run, of b] getClaim_id [OF Some] True by simp
      then show ?thesis
        by (rule step_insert [of "contest a second", unfolded contest_simps getClaim_id [OF second]])
          (auto simp: admits_def keeps_claim_def contest_def stored_def \<open>second = first\<close> True)
    next
      case False
      have "getClaim b st1 = Some second"
        using claims.put_done [OF run, of b] getClaim_id [OF Some] False second by simp
      then show ?thesis by (rule step_insert [of "contest a second", unfolded contest_simps getClaim_id [OF second]]) (rule contest)
    qed
    moreover have "admission_step N st (snd (insertClaim env (contest b first) st))"
      by (rule step_insert [of "contest b first", unfolded contest_simps getClaim_id [OF Some], OF Some contest])
    ultimately show ?thesis using Some second by (auto simp: markContested_def intro!: step_and_then)
  qed (simp add: markContested_def Some)
qed (simp add: markContested_def)

lemma step_semantic: "admission_step N st (snd (applySemanticConflict env a b st))"
  unfolding applySemanticConflict_def Let_def by (intro step_and_then step_contest step_refresh)

definition plan_ok :: "store_env \<Rightarrow> bool" where
  "plan_ok env = (\<forall>xs. mset (sv_plan env xs) = mset xs)"

lemma plan_set: "plan_ok env \<Longrightarrow> set (sv_plan env xs) = set xs"
  by (metis plan_ok_def set_mset_mset)

lemma by_subject_mem:
  assumes "plan_ok env" and "keys_unique cl_id (st_claims st)"
  shows "c \<in> set (getClaimsBySubject env s status st) \<longleftrightarrow>
    getClaim (cl_id c) st = Some c \<and> cl_subject_id c = s \<and> (case status of None \<Rightarrow> True | Some x \<Rightarrow> cl_status c = x)"
proof -
  have "getClaim (cl_id c) st = Some c \<longleftrightarrow> c \<in> rowToClaim ` set (st_claims st)"
    using assms(2) by (auto simp: getClaim_def lookup_by_iff image_iff)
  then show ?thesis by (auto simp: getClaimsBySubject_def plan_set [OF assms(1)] split: option.splits)
qed

lemma getClaim_start: "getClaim i st = Some c \<Longrightarrow> fst (cl_validity c) = start_of c"
  by (auto simp: getClaim_def rowToClaim_def start_of_def)

lemma live_claims_mem:
  assumes "plan_ok (av_store env)" and "keys_unique cl_id (st_claims st)" and "t \<in> set (live_claims env n st)"
  shows "getClaim (cl_id t) st = Some t" "cl_subject_id t = cl_subject_id n" "fst (cl_validity t) = start_of t" "cl_status t \<in> LIVE_STATUSES"
  using assms by (auto simp: live_claims_def by_subject_mem getClaim_start)

lemma step_supersede:
  assumes "getClaim i st = Some t" and "n \<in> N" and "cl_status t = StActive" and "cl_subject_id t = cl_subject_id n"
    and "cl_predicate t = cl_predicate n" and "cl_scope t = cl_scope n" and "start_of t < fst (cl_validity n)"
  shows "admission_step N st (snd (applyTemporalSupersession env i (scored env n) st))"
  unfolding applyTemporalSupersession_def updateClaimStatus_def
proof (rule step_update)
  fix c assume "getClaim i st = Some c"
  then have "c = t" "cl_id t = i" using assms(1) getClaim_id by auto
  then show "cl_id (set_status StSuperseded (Some (cl_id (scored env n))) (Some (cl_t_ingested (scored env n))) (replacement_valid_to (scored env n)) c) = i
      \<and> admits N c (set_status StSuperseded (Some (cl_id (scored env n))) (Some (cl_t_ingested (scored env n))) (replacement_valid_to (scored env n)) c)"
    using assms(2-)
    by (auto simp: set_status_def with_validity_def admits_def keeps_claim_def superseded_in_order_def scored_def Let_def split: option.split)
qed

text \<open>A whole admission of a claim whose id is new.\<close>

definition admission_new :: "claim set \<Rightarrow> string \<Rightarrow> claim_store \<Rightarrow> claim_store \<Rightarrow> bool" where
  "admission_new N i st st' = (evolves getClaim (admits N) st st'
     \<and> (keys_unique cl_id (st_claims st) \<longrightarrow> keys_unique cl_id (st_claims st'))
     \<and> (\<forall>j. j \<noteq> i \<longrightarrow> getClaim j st = None \<longrightarrow> getClaim j st' = None))"

lemma admission_new_step: "admission_step N st st' \<Longrightarrow> admission_new N i st st'"
  by (simp add: admission_step_def admission_new_def)

lemma admission_new_trans: "admission_new N i s t \<Longrightarrow> admission_step N t u \<Longrightarrow> admission_new N i s u"
  by (auto simp: admission_step_def admission_new_def intro: evolves_trans [OF admits_trans])

lemma new_insert:
  assumes "getClaim (cl_id c) st = None"
  shows "admission_new N (cl_id c) st (snd (insertClaim env c st))"
proof -
  have "evolves getClaim (admits N) st (snd (insertClaim env c st))"
    by (rule claims.put_evolves [OF admits_refl]) (use assms in simp)
  then show ?thesis using claims.put_other by (simp add: admission_new_def insertClaim_keys)
qed

lemma new_and_then:
  assumes "admission_new N i s (snd p)" and "\<And>a s1. p = (Inr a, s1) \<Longrightarrow> admission_step N s1 (snd (f a s1))"
  shows "admission_new N i s (snd (and_then p f))"
  using assms admission_new_trans by (cases p) (auto simp: and_then_def split: sum.split)

lemma detectConflict_cases:
  obtains (corroboration) e where "cf_type (detectConflict env n st) = Corroboration" "cf_existing (detectConflict env n st) = Some e"
      "e \<in> set (live_claims env n st)" "same_key n e" "agrees n e"
    | (semantic) e where "cf_type (detectConflict env n st) = SemanticConflict" "cf_existing (detectConflict env n st) = Some e"
      "cf_same_key (detectConflict env n st) = filter (same_key n) (live_claims env n st)" "e \<in> set (filter (same_key n) (live_claims env n st))"
      "\<forall>c \<in> set (live_claims env n st). same_key n c \<longrightarrow> \<not> agrees n c"
    | (temporal) t where "cf_type (detectConflict env n st) = TemporalSupersession" "cf_existing (detectConflict env n st) = Some t"
      "t \<in> set (live_claims env n st)" "supersedable n t" "\<forall>c \<in> set (live_claims env n st). \<not> same_key n c"
    | (none) "cf_type (detectConflict env n st) = NoConflict" "cf_existing (detectConflict env n st) = None"
      "\<forall>c \<in> set (live_claims env n st). \<not> same_key n c \<and> \<not> supersedable n c"
proof (cases "filter (same_key n) (live_claims env n st)")
  case Nil
  then have no: "\<forall>c \<in> set (live_claims env n st). \<not> same_key n c" by (simp add: filter_empty_conv)
  show thesis
  proof (cases "List.find (supersedable n) (live_claims env n st)")
    case None
    then have "\<forall>c \<in> set (live_claims env n st). \<not> supersedable n c" by (auto simp: find_None_iff)
    then show thesis using none None Nil no by (simp add: detectConflict_def Let_def)
  next
    case (Some t)
    then show thesis using temporal [of t] Nil no find_mem [OF Some] by (simp add: detectConflict_def Let_def)
  qed
next
  case (Cons c cs)
  show thesis
  proof (cases "List.find (agrees n) (filter (same_key n) (live_claims env n st))")
    case None
    then have no: "\<forall>c \<in> set (live_claims env n st). same_key n c \<longrightarrow> \<not> agrees n c" by (auto simp: find_None_iff)
    have "c \<in> set (filter (same_key n) (live_claims env n st))" by (simp add: Cons)
    then show thesis using semantic [of c] None no Cons by (simp add: detectConflict_def Let_def)
  next
    case (Some a)
    then have "a \<in> set (live_claims env n st)" "same_key n a" "agrees n a" using find_mem [OF Some] by auto
    then show thesis using corroboration [of a] Some Cons by (simp add: detectConflict_def Let_def)
  qed
qed

lemma scored_simps [simp]:
  "cl_id (scored env c) = cl_id c" "cl_subject_id (scored env c) = cl_subject_id c" "cl_confidence (scored env c) = computeConfidence env c"
  "cl_status (scored env c) = cl_status c" "cl_contested_by (scored env c) = cl_contested_by c"
  "cl_t_ingested (scored env c) = cl_t_ingested c" "replacement_valid_to (scored env c) = replacement_valid_to c"
  by (simp_all add: scored_def replacement_valid_to_def)

lemma admitClaim_new:
  assumes "plan_ok (av_store env)" and "keys_unique cl_id (st_claims st)" and "getClaim (cl_id n) st = None"
  shows "admission_new {n} (cl_id n) st (snd (admitClaim env n st))"
proof -
  let ?n = "scored env n"
  have insert: "admission_new {n} (cl_id n) st (snd (insertClaim (av_store env) ?n st))"
    using new_insert [of ?n st] assms(3) by simp
  show ?thesis
  proof (cases rule: detectConflict_cases [of env n st])
    case (corroboration e)
    then show ?thesis unfolding admitClaim_def Let_def
      by (auto intro!: admission_new_step step_and_then step_for_each step_corroborate)
  next
    case (semantic e)
    then show ?thesis unfolding admitClaim_def Let_def
      by (auto intro!: new_and_then [OF insert] step_and_then step_for_each step_semantic)
  next
    case (temporal t)
    note t = live_claims_mem [OF assms(1,2) temporal(3)]
    have "admission_step {n} st1 (snd (applyTemporalSupersession env (cl_id t) ?n st1))"
      if run: "insertClaim (av_store env) ?n st = (Inr (), st1)" for st1
    proof (rule step_supersede)
      have "cl_id t \<noteq> cl_id n" using t(1) assms(3) by auto
      then show "getClaim (cl_id t) st1 = Some t" using claims.put_done [OF run, of "cl_id t"] t(1) by simp
    qed (use temporal(4) t in \<open>auto simp: supersedable_def\<close>)
    with temporal show ?thesis unfolding admitClaim_def Let_def
      by (auto intro!: new_and_then [OF insert] step_and_then)
  next
    case none
    then show ?thesis unfolding admitClaim_def Let_def by (auto intro!: new_and_then [OF insert])
  qed
qed

lemma admits_mono: "N \<subseteq> M \<Longrightarrow> admits N c c' \<Longrightarrow> admits M c c'"
  by (auto simp: admits_def superseded_in_order_def)

lemma admissions_evolve:
  assumes "keys_unique cl_id (st_claims st)" and "\<forall>(env, n) \<in> set ns. plan_ok (av_store env) \<and> getClaim (cl_id n) st = None"
    and "distinct (map (cl_id \<circ> snd) ns)"
  shows "evolves getClaim (admits (snd ` set ns)) st (fold (\<lambda>(env, n) s. snd (admitClaim env n s)) ns st)"
  using assms
proof (induction ns arbitrary: st)
  case Nil
  show ?case by (simp add: evolves_refl admits_refl)
next
  case (Cons p ns)
  obtain env n where p: "p = (env, n)" by (cases p)
  let ?s = "snd (admitClaim env n st)"
  have new: "admission_new {n} (cl_id n) st ?s" using Cons.prems p by (intro admitClaim_new) auto
  have "evolves getClaim (admits (snd ` set ns)) ?s (fold (\<lambda>(env, n) s. snd (admitClaim env n s)) ns ?s)"
  proof (rule Cons.IH)
    show "keys_unique cl_id (st_claims ?s)" using new Cons.prems(1) by (simp add: admission_new_def)
    show "\<forall>(env, m) \<in> set ns. plan_ok (av_store env) \<and> getClaim (cl_id m) ?s = None"
    proof clarify
      fix env' m assume m: "(env', m) \<in> set ns"
      then have "cl_id m \<noteq> cl_id n" using Cons.prems(3) p by (force simp: image_iff)
      with m Cons.prems(2) new show "plan_ok (av_store env') \<and> getClaim (cl_id m) ?s = None" by (auto simp: admission_new_def)
    qed
    show "distinct (map (cl_id \<circ> snd) ns)" using Cons.prems(3) by (simp add: comp_def)
  qed
  then have "evolves getClaim (admits (snd ` set (p # ns))) ?s (fold (\<lambda>(env, n) s. snd (admitClaim env n s)) ns ?s)"
    unfolding evolves_def by (metis admits_mono image_mono set_subset_Cons)
  moreover have "evolves getClaim (admits (snd ` set (p # ns))) st ?s"
    using new admits_mono [of "{n}" "snd ` set (p # ns)"] unfolding admission_new_def evolves_def p by fastforce
  ultimately show ?case using evolves_trans [OF admits_trans] by (auto simp: p)
qed

section \<open>Successful writes\<close>

definition rows_valid :: "claim_store \<Rightarrow> bool" where
  "rows_valid st = (\<forall>r \<in> set (st_claims st). cl_subject_id r \<in> entity_ids (st_ents st) \<and> cl_confidence r \<noteq> None)"

lemma rows_valid_grow: "rows_valid st \<Longrightarrow> entity_ids (st_ents st) \<subseteq> entity_ids es \<Longrightarrow> rows_valid (st\<lparr>st_ents := es\<rparr>)"
  by (auto simp: rows_valid_def)

lemma sync_valid:
  assumes "rows_valid st"
  shows "rows_valid (syncFromJsonlVersion env v h False st)"
proof -
  let ?ex = "getClaim (cv_claim_id v) st"
  let ?n = "subject_of_version v h ?ex" and ?t = "type_of_version v h ?ex (st_ents st)"
  obtain res es where run: "resolveEntity (sv_clock env) None ?n ?t (cv_scope v) (st_ents st) = (res, es)"
    by (cases "resolveEntity (sv_clock env) None ?n ?t (cv_scope v) (st_ents st)")
  have "cl_subject_id (version_row v h ?ex i) = i" "cl_confidence (version_row v h ?ex i) \<noteq> None" for i
    by (simp_all add: version_row_def Let_def)
  then show ?thesis
    using assms resolveEntity_ids [OF run] run
    by (auto simp: syncFromJsonlVersion_def claimVersionVals_def memo_resolve_def refresh_edges_eq rows_valid_def set_ins_replace Let_def)
qed

lemma insert_valid: "rows_valid st \<Longrightarrow> rows_valid (snd (insertClaim env c st))"
  by (auto simp: insertClaim_def rows_valid_def set_ins_replace entity_ids_def Let_def split: option.split sum.split)

lemma store_run_valid: "store_run env st \<Longrightarrow> rows_valid st"
proof (induction rule: store_run.induct)
  case run_empty
  show ?case by (simp add: rows_valid_def empty_store_def)
next
  case (run_entity st e)
  have "entity_ids (st_ents st) \<subseteq> entity_ids (insertEntity e (st_ents st))"
    by (auto simp: entity_ids_def insertEntity_def ins_ignore_def)
  with run_entity show ?case by (intro rows_valid_grow)
next
  case (run_retype st i ty)
  have "entity_ids (updateEntityType i ty (st_ents st)) = entity_ids (st_ents st)"
    using arg_cong [OF retyped.keys_upd_where [of "\<lambda>x. en_id x = i" ty "es_entities (st_ents st)"], of set]
    by (simp add: entity_ids_def updateEntityType_def)
  with run_retype show ?case by (intro rows_valid_grow) simp_all
next
  case (run_resolve st cfg name ty scope)
  obtain res es where run: "resolveEntity (sv_clock env) cfg name ty scope (st_ents st) = (res, es)"
    by (cases "resolveEntity (sv_clock env) cfg name ty scope (st_ents st)")
  with run_resolve show ?case using resolveEntity_ids [OF run] by (intro rows_valid_grow) auto
next
  case (run_insert st c)
  then show ?case by (simp add: insert_valid)
next
  case (run_reopen st dir)
  have "rows_valid s \<Longrightarrow> rows_valid (fold (\<lambda>v s. syncFromJsonlVersion env v None False s) vs s)" for vs s
    by (induction vs arbitrary: s) (simp_all add: sync_valid)
  moreover have "rows_valid (st\<lparr>st_log := Some dir\<rparr>)" using run_reopen by (simp add: rows_valid_def)
  ultimately show ?case by (simp add: setDataDir_def Let_def split: sum.split)
qed

definition healthy :: "store_env \<Rightarrow> claim_store \<Rightarrow> bool" where
  "healthy env st = (store_ok env st \<and> rows_valid st)"

lemma store_run_healthy: "store_run env st \<Longrightarrow> healthy env st"
  by (simp add: healthy_def store_run_ok store_run_valid)

lemma healthy_keys: "healthy env st \<Longrightarrow> keys_unique cl_id (st_claims st)"
  by (simp add: healthy_def store_ok_def)

lemma healthy_insert:
  assumes "healthy env st" and "cl_confidence c \<noteq> None" and "cl_subject_id c \<in> entity_ids (st_ents st)"
  shows "\<exists>st'. insertClaim env c st = (Inr (), st') \<and> healthy env st' \<and> st_ents st' = st_ents st
    \<and> (\<forall>k. getClaim k st' = (if k = cl_id c then Some (stored c) else getClaim k st))"
proof -
  obtain conf where "cl_confidence c = Some conf" using assms(2) by blast
  from insertClaim_ok [OF _ this assms(3), of env] assms(1) obtain st' where
    st': "insertClaim env c st = (Inr (), st')" "store_ok env st'" "st_ents st' = st_ents st" by (auto simp: healthy_def)
  moreover have "rows_valid st'" using insert_valid [of st env c] assms(1) st'(1) by (simp add: healthy_def)
  ultimately show ?thesis using claims.put_done by (simp add: healthy_def)
qed

lemma healthy_claim:
  assumes "healthy env st" and "getClaim i st = Some c"
  shows "cl_subject_id c \<in> entity_ids (st_ents st)" "cl_confidence c \<noteq> None"
  using assms by (auto simp: healthy_def rows_valid_def getClaim_def dest!: lookup_by_SomeD)

lemma healthy_update:
  assumes "healthy env st" and "getClaim i st = Some c" and "cl_id (f c) = i" and "cl_subject_id (f c) = cl_subject_id c"
    and "cl_confidence (f c) \<noteq> None"
  shows "\<exists>st'. update_claim env i f st = (Inr (), st') \<and> healthy env st' \<and> st_ents st' = st_ents st
    \<and> (\<forall>k. getClaim k st' = (if k = i then Some (stored (f c)) else getClaim k st))"
  using healthy_insert [OF assms(1,5)] healthy_claim [OF assms(1,2)] assms(2-4) by (simp add: update_claim_def)

text \<open>The score is a number when the start parses as a date.\<close>

definition dated :: "admission_env \<Rightarrow> claim \<Rightarrow> bool" where
  "dated env c = (av_ms env (start_of c) \<noteq> None)"

lemma computeConfidence_dated: "computeConfidence env c \<noteq> None \<longleftrightarrow> av_ms env (fst (cl_validity c)) \<noteq> None"
  by (auto simp: computeConfidence_def recencyScore_def)

lemma stored_start [simp]: "fst (cl_validity (stored c)) = start_of c" "start_of (stored c) = start_of c"
  by (simp_all add: stored_def rowToClaim_def start_of_def claim_columns_def Let_def)

text \<open>Claims that make the same assertion with the same evidence and window.\<close>

definition same_report :: "claim \<Rightarrow> claim \<Rightarrow> bool" where
  "same_report c c' = (cl_id c' = cl_id c \<and> cl_subject_id c' = cl_subject_id c \<and> cl_predicate c' = cl_predicate c \<and> cl_object c' = cl_object c
     \<and> cl_scope c' = cl_scope c \<and> cl_t_valid_from c' = cl_t_valid_from c \<and> cl_t_valid_to c' = cl_t_valid_to c
     \<and> cl_t_ingested c' = cl_t_ingested c \<and> cl_supporting_evidence c' = cl_supporting_evidence c)"

lemma same_report_trans: "same_report a b \<Longrightarrow> same_report b c \<Longrightarrow> same_report a c"
  by (simp add: same_report_def)

lemma same_report_start: "same_report a b \<Longrightarrow> start_of b = start_of a"
  by (simp add: same_report_def start_of_def)

definition contested_with :: "string set \<Rightarrow> claim \<Rightarrow> claim \<Rightarrow> bool" where
  "contested_with X c c' = (same_report c c' \<and> cl_status c' = StContested \<and> set (cl_contested_by c') = set (cl_contested_by c) \<union> X)"

lemma refresh_effect:
  assumes "healthy (av_store env) st" and "getClaim i st = Some c" and "dated env d" and "fst (cl_validity d) = start_of d"
  shows "\<exists>st'. refresh_confidence env i (Some d) st = (Inr (), st') \<and> healthy (av_store env) st' \<and> st_ents st' = st_ents st
    \<and> (\<forall>k. getClaim k st' = (if k = i then Some (stored (c\<lparr>cl_confidence := computeConfidence env d\<rparr>)) else getClaim k st))"
proof -
  have "computeConfidence env d \<noteq> None" using assms(3,4) computeConfidence_dated dated_def by metis
  then show ?thesis
    using healthy_update [OF assms(1,2), of "\<lambda>c. c\<lparr>cl_confidence := computeConfidence env d\<rparr>"] getClaim_id [OF assms(2)]
    by (simp add: refresh_confidence_def updateClaimConfidence_def)
qed

lemma contest_report: "contested_with {k} c (stored (contest k c))"
  by (auto simp: contested_with_def same_report_def contest_def stored_def)

lemma contested_rescored:
  "contested_with X c d \<Longrightarrow> contested_with X c (stored (d\<lparr>cl_confidence := x\<rparr>))"
  by (simp add: contested_with_def same_report_def stored_def)

lemma semantic_effect:
  assumes "healthy (av_store env) st" and "getClaim a st = Some ca" and "getClaim b st = Some cb" and "a \<noteq> b"
    and "dated env ca" and "dated env cb"
  shows "\<exists>st' ca' cb'. applySemanticConflict env a b st = (Inr (), st') \<and> healthy (av_store env) st' \<and> st_ents st' = st_ents st
    \<and> contested_with {b} ca ca' \<and> contested_with {a} cb cb'
    \<and> (\<forall>k. getClaim k st' = (if k = a then Some ca' else if k = b then Some cb' else getClaim k st))"
proof -
  let ?E = "av_store env" and ?x = "stored (contest b ca)" and ?y = "stored (contest a cb)"
  note id = getClaim_id [OF assms(2)] getClaim_id [OF assms(3)]
  obtain s1 where s1: "insertClaim ?E (contest b ca) st = (Inr (), s1)" "healthy ?E s1" "st_ents s1 = st_ents st"
    "\<And>k. getClaim k s1 = (if k = a then Some ?x else getClaim k st)"
    using healthy_insert [OF assms(1), of "contest b ca"] healthy_claim [OF assms(1,2)] id by auto
  obtain s2 where s2: "insertClaim ?E (contest a cb) s1 = (Inr (), s2)" "healthy ?E s2" "st_ents s2 = st_ents st"
    "\<And>k. getClaim k s2 = (if k = b then Some ?y else getClaim k s1)"
    using healthy_insert [OF s1(2), of "contest a cb"] healthy_claim [OF assms(1,3)] id s1(3) by auto
  have mark: "markContested ?E a b st = (Inr (), s2)" using assms(2,3) s1(1) s2(1) by (simp add: markContested_def)
  have x: "getClaim a s2 = Some ?x" and y: "getClaim b s2 = Some ?y" using s2(4) s1(4) assms(4) by simp_all
  have "start_of (contest b ca) = start_of ca" "start_of (contest a cb) = start_of cb" by (simp_all add: contest_def start_of_def)
  then have "dated env ?x" "dated env ?y" using assms(5,6) by (simp_all add: dated_def)
  from refresh_effect [OF s2(2) x this(1)] obtain s3 where s3: "refresh_confidence env a (Some ?x) s2 = (Inr (), s3)" "healthy ?E s3"
    "st_ents s3 = st_ents st" "\<And>k. getClaim k s3 = (if k = a then Some (stored (?x\<lparr>cl_confidence := computeConfidence env ?x\<rparr>)) else getClaim k s2)"
    using s2(3) by auto
  have "getClaim b s3 = Some ?y" using s3(4) y assms(4) by simp
  from refresh_effect [OF s3(2) this \<open>dated env ?y\<close>] obtain s4 where s4: "refresh_confidence env b (Some ?y) s3 = (Inr (), s4)" "healthy ?E s4"
    "st_ents s4 = st_ents st" "\<And>k. getClaim k s4 = (if k = b then Some (stored (?y\<lparr>cl_confidence := computeConfidence env ?y\<rparr>)) else getClaim k s3)"
    using s3(3) by auto
  have "applySemanticConflict env a b st = (Inr (), s4)"
    using mark x y s3(1) s4(1) by (simp add: applySemanticConflict_def Let_def)
  moreover have "getClaim k s4 = (if k = a then Some (stored (?x\<lparr>cl_confidence := computeConfidence env ?x\<rparr>))
      else if k = b then Some (stored (?y\<lparr>cl_confidence := computeConfidence env ?y\<rparr>)) else getClaim k st)" for k
    using s4(4) s3(4) s2(4) s1(4) assms(4) by simp
  ultimately show ?thesis
    using s4(2,3) contested_rescored [OF contest_report [of b ca]] contested_rescored [OF contest_report [of a cb]] by blast
qed

lemma for_each_map: "for_each (\<lambda>x. f (g x)) xs s = for_each f (map g xs) s"
proof (induction xs arbitrary: s)
  case (Cons x xs)
  then show ?case by (simp add: and_then_def split: prod.split sum.split)
qed simp

lemma contested_with_trans: "contested_with X a b \<Longrightarrow> contested_with Y b c \<Longrightarrow> contested_with (X \<union> Y) a c"
  by (auto simp: contested_with_def intro: same_report_trans)

lemma contested_dated: "contested_with X c c' \<Longrightarrow> dated env c' = dated env c"
  by (auto simp: contested_with_def dated_def dest!: same_report_start)

lemma contest_loop:
  assumes "healthy (av_store env) st" and "getClaim n st = Some cn" and "dated env cn" and "distinct es" and "n \<notin> set es"
    and "\<forall>e \<in> set es. \<exists>c. getClaim e st = Some c \<and> dated env c"
  shows "\<exists>st' cn'. for_each (\<lambda>e. applySemanticConflict env e n) es st = (Inr (), st') \<and> healthy (av_store env) st' \<and> st_ents st' = st_ents st
    \<and> getClaim n st' = Some cn' \<and> (if es = [] then cn' = cn else contested_with (set es) cn cn')
    \<and> (\<forall>k. k \<noteq> n \<longrightarrow> k \<notin> set es \<longrightarrow> getClaim k st' = getClaim k st)
    \<and> (\<forall>e \<in> set es. \<forall>c. getClaim e st = Some c \<longrightarrow> (\<exists>c'. getClaim e st' = Some c' \<and> contested_with {n} c c'))"
  using assms
proof (induction es arbitrary: st cn)
  case (Cons e es)
  let ?E = "av_store env"
  obtain c where c: "getClaim e st = Some c" "dated env c" using Cons.prems(6) by auto
  have ne: "e \<noteq> n" using Cons.prems(5) by auto
  obtain s1 c' cn1 where s1: "applySemanticConflict env e n st = (Inr (), s1)" "healthy ?E s1" "st_ents s1 = st_ents st"
    "contested_with {n} c c'" "contested_with {e} cn cn1"
    "\<And>k. getClaim k s1 = (if k = e then Some c' else if k = n then Some cn1 else getClaim k st)"
    using semantic_effect [OF Cons.prems(1) c(1) Cons.prems(2) ne c(2) Cons.prems(3)] by metis
  have pre: "getClaim n s1 = Some cn1" "dated env cn1" "distinct es" "n \<notin> set es"
    "\<forall>e \<in> set es. \<exists>c. getClaim e s1 = Some c \<and> dated env c"
    using s1(6) ne contested_dated [OF s1(5), of env] Cons.prems(3-6) by auto
  obtain s2 cn2 where s2: "for_each (\<lambda>e. applySemanticConflict env e n) es s1 = (Inr (), s2)" "healthy ?E s2" "st_ents s2 = st_ents s1"
    "getClaim n s2 = Some cn2" "if es = [] then cn2 = cn1 else contested_with (set es) cn1 cn2"
    "\<And>k. k \<noteq> n \<Longrightarrow> k \<notin> set es \<Longrightarrow> getClaim k s2 = getClaim k s1"
    "\<And>e c. e \<in> set es \<Longrightarrow> getClaim e s1 = Some c \<Longrightarrow> \<exists>c'. getClaim e s2 = Some c' \<and> contested_with {n} c c'"
    using Cons.IH [OF s1(2) pre] by metis
  have "contested_with (set (e # es)) cn cn2"
    using s1(5) s2(5) contested_with_trans [OF s1(5), of "set es" cn2] by (cases "es = []") auto
  moreover have "\<exists>d. getClaim f s2 = Some d \<and> contested_with {n} x d" if f: "f \<in> set (e # es)" "getClaim f st = Some x" for f x
  proof (cases "f = e")
    case True
    then have "f \<notin> set es" using Cons.prems(4) by auto
    then show ?thesis using s2(6) [of f] s1(4,6) True ne f(2) c(1) by auto
  next
    case False
    then have "f \<in> set es" "f \<noteq> n" using f(1) Cons.prems(5) by auto
    then show ?thesis using s2(7) [of f x] s1(6) [of f] False f(2) by auto
  qed
  moreover have "getClaim k s2 = getClaim k st" if "k \<noteq> n" "k \<notin> set (e # es)" for k
    using s2(6) [of k] s1(6) [of k] that by simp
  ultimately show ?case using s1(1,3) s2(1-4) by (intro exI [of _ s2] exI [of _ cn2]) simp
qed simp

text \<open>The claims that stand in conflict with a new one.\<close>

definition rivals :: "claim \<Rightarrow> claim_store \<Rightarrow> string set" where
  "rivals n st = {i. \<exists>c. getClaim i st = Some c \<and> cl_subject_id c = cl_subject_id n \<and> cl_status c \<in> LIVE_STATUSES \<and> same_key n c}"

lemma set_live_claims:
  assumes "plan_ok (av_store env)" and "keys_unique cl_id (st_claims st)"
  shows "set (live_claims env n st) = {c. getClaim (cl_id c) st = Some c \<and> cl_subject_id c = cl_subject_id n \<and> cl_status c \<in> LIVE_STATUSES}"
  using by_subject_mem [OF assms] by (auto simp: live_claims_def)

lemma distinct_live_claims:
  assumes "plan_ok (av_store env)" and "keys_unique cl_id (st_claims st)"
  shows "distinct (map cl_id (filter P (live_claims env n st)))"
proof -
  let ?rows = "filter (\<lambda>r. cl_subject_id r = cl_subject_id n) (st_claims st)"
  have "distinct (map cl_id ?rows)" using assms(2) by (simp add: keys_unique_def distinct_map_filter)
  moreover have "mset (map cl_id (sv_plan (av_store env) ?rows)) = mset (map cl_id ?rows)"
    using assms(1) by (simp add: plan_ok_def)
  ultimately have "distinct (map cl_id (sv_plan (av_store env) ?rows))" using mset_eq_imp_distinct_iff by blast
  then have "distinct (map cl_id (getClaimsBySubject (av_store env) (cl_subject_id n) None st))"
    by (simp add: getClaimsBySubject_def comp_def)
  then show ?thesis by (simp add: live_claims_def distinct_map_filter)
qed

lemma rivals_live:
  assumes "plan_ok (av_store env)" and "keys_unique cl_id (st_claims st)"
  shows "set (map cl_id (filter (same_key n) (live_claims env n st))) = rivals n st"
  using set_live_claims [OF assms] by (auto simp: rivals_def image_iff dest: getClaim_id)

section \<open>Properties\<close>

text \<open>C8: Admission never resolves a disagreement and never loses a report. Whatever claims are admitted, in
  whatever order, with whatever clocks and row orders and whether each admission succeeds or fails midway: every
  claim that was there is still there with its assertion and its start, its evidence and its contests have only
  grown, a contested claim is still contested, no claim became active again, and a claim that became superseded was
  active and names an admitted claim with the same subject, predicate and scope and a later start.\<close>

theorem admissions_never_resolve:
  assumes "keys_unique cl_id (st_claims st)" and "\<forall>(env, n) \<in> set ns. plan_ok (av_store env) \<and> getClaim (cl_id n) st = None"
    and "distinct (map (cl_id \<circ> snd) ns)" and "getClaim i st = Some c"
  shows "\<exists>c'. getClaim i (fold (\<lambda>(env, n) s. snd (admitClaim env n s)) ns st) = Some c'
    \<and> cl_subject_id c' = cl_subject_id c \<and> cl_predicate c' = cl_predicate c \<and> cl_object c' = cl_object c \<and> cl_scope c' = cl_scope c
    \<and> cl_t_valid_from c' = cl_t_valid_from c \<and> cl_t_ingested c' = cl_t_ingested c
    \<and> set (cl_supporting_evidence c) \<subseteq> set (cl_supporting_evidence c') \<and> set (cl_contested_by c) \<subseteq> set (cl_contested_by c')
    \<and> (cl_status c = StContested \<longrightarrow> cl_status c' = StContested) \<and> (cl_status c \<noteq> StActive \<longrightarrow> cl_status c' \<noteq> StActive)
    \<and> (cl_status c' = StSuperseded \<and> cl_status c \<noteq> StSuperseded \<longrightarrow> cl_status c = StActive
        \<and> (\<exists>n \<in> snd ` set ns. cl_superseded_by c' = Some (cl_id n) \<and> cl_subject_id c = cl_subject_id n \<and> cl_predicate c = cl_predicate n
             \<and> cl_scope c = cl_scope n \<and> fst (cl_validity c) < fst (cl_validity n)))"
proof -
  obtain c' where c': "getClaim i (fold (\<lambda>(env, n) s. snd (admitClaim env n s)) ns st) = Some c'" "keeps_claim c c'"
    "cl_status c' = StSuperseded \<longrightarrow> (cl_status c = StSuperseded \<and> cl_superseded_by c' = cl_superseded_by c)
       \<or> (cl_status c = StActive \<and> superseded_in_order (snd ` set ns) c c')"
    using admissions_evolve [OF assms(1-3)] assms(4) unfolding evolves_def admits_def by blast
  have "cl_status c = StActive \<and> superseded_in_order (snd ` set ns) c c'" if "cl_status c' = StSuperseded \<and> cl_status c \<noteq> StSuperseded"
    using c'(3) that by blast
  with c'(1,2) show ?thesis
    unfolding keeps_claim_def superseded_in_order_def getClaim_start [OF assms(4), symmetric] by blast
qed

text \<open>A disagreement about one window is contested on every side. When live claims share the subject, predicate,
  scope and start of a new claim and none of them agrees with it, its admission succeeds with the outcome contested
  and names exactly those claims; the new claim is stored as contested by all of them, each of them is contested by
  the new one, with its assertion, window and evidence unchanged, and every other claim of the store is untouched.\<close>

lemma disagreement_contests_all:
  assumes "store_run (av_store env) st" and "plan_ok (av_store env)" and "getClaim (cl_id n) st = None"
    and "cl_subject_id n \<in> entity_ids (st_ents st)" and "av_ms env (fst (cl_validity n)) \<noteq> None" and "av_ms env (start_of n) \<noteq> None"
    and "rivals n st \<noteq> {}" and "\<forall>i \<in> rivals n st. \<forall>c. getClaim i st = Some c \<longrightarrow> \<not> agrees n c"
  shows "\<exists>adm st'. admitClaim env n st = (Inr adm, st') \<and> ad_outcome adm = AContested
    \<and> set (ad_related_claim_ids adm) = insert (cl_id n) (rivals n st)
    \<and> (\<exists>c'. getClaim (cl_id n) st' = Some c' \<and> contested_with (rivals n st) n c')
    \<and> (\<forall>i c. getClaim i st = Some c \<longrightarrow> (if i \<in> rivals n st then \<exists>c'. getClaim i st' = Some c' \<and> contested_with {cl_id n} c c'
          else getClaim i st' = Some c))"
proof -
  let ?E = "av_store env" and ?K = "filter (same_key n) (live_claims env n st)" and ?n = "scored env n"
  note healthy = store_run_healthy [OF assms(1)]
  note keys = healthy_keys [OF healthy]
  note K = rivals_live [OF assms(2) keys, of n]
  have live: "getClaim (cl_id c) st = Some c" if "c \<in> set ?K" for c using that set_live_claims [OF assms(2) keys] by auto
  have disagree: "\<not> agrees n c" if "c \<in> set ?K" for c
    using assms(8) live [OF that] K that by (metis image_eqI list.set_map)
  have ne: "?K \<noteq> []"
  proof
    assume "?K = []"
    then show False using K assms(7) by (metis list.set(1) list.map(1))
  qed
  obtain e where conflict: "cf_type (detectConflict env n st) = SemanticConflict" "cf_existing (detectConflict env n st) = Some e"
    "cf_same_key (detectConflict env n st) = ?K"
    using ne disagree by (cases rule: detectConflict_cases [of env n st]) (auto simp: filter_empty_conv)
  have fresh: "cl_id n \<notin> set (map cl_id ?K)" using live assms(3) by fastforce
  then have "\<forall>e \<in> set ?K. cl_id e \<noteq> cl_id n" by (metis image_eqI list.set_map)
  then have others: "filter (\<lambda>e. cl_id e \<noteq> cl_id n) ?K = ?K" by (rule filter_True)
  obtain s1 where s1: "insertClaim ?E ?n st = (Inr (), s1)" "healthy ?E s1" "st_ents s1 = st_ents st"
    "\<And>k. getClaim k s1 = (if k = cl_id n then Some (stored ?n) else getClaim k st)"
    using healthy_insert [OF healthy, of ?n] computeConfidence_dated [of env n] assms(4,5) by auto
  have start: "start_of ?n = start_of n" by (simp add: scored_def start_of_def)
  have dated: "dated env c" if "c \<in> set ?K" for c
  proof -
    have "start_of c = fst (cl_validity n)" using getClaim_start [OF live [OF that]] that by (simp add: same_key_def)
    then show ?thesis using assms(5) by (simp add: dated_def)
  qed
  have pre: "getClaim (cl_id n) s1 = Some (stored ?n)" "dated env (stored ?n)" using s1(4) assms(6) by (simp_all add: dated_def start)
  have old: "getClaim i s1 = getClaim i st" if "getClaim i st = Some c" for i c using s1(4) [of i] assms(3) that by auto
  have "\<forall>i \<in> set (map cl_id ?K). \<exists>c. getClaim i s1 = Some c \<and> dated env c" using live dated old by fastforce
  from contest_loop [OF s1(2) pre distinct_live_claims [OF assms(2) keys] fresh this]
  obtain s2 c' where s2: "for_each (\<lambda>e. applySemanticConflict env e (cl_id n)) (map cl_id ?K) s1 = (Inr (), s2)"
    "getClaim (cl_id n) s2 = Some c'" "contested_with (rivals n st) (stored ?n) c'"
    "\<And>k. k \<noteq> cl_id n \<Longrightarrow> k \<notin> rivals n st \<Longrightarrow> getClaim k s2 = getClaim k s1"
    "\<And>i c. i \<in> rivals n st \<Longrightarrow> getClaim i s1 = Some c \<Longrightarrow> \<exists>c'. getClaim i s2 = Some c' \<and> contested_with {cl_id n} c c'"
    unfolding K using ne by auto
  have "admitClaim env n st = (Inr \<lparr>ad_outcome = AContested, ad_claim_id = cl_id n, ad_related_claim_ids = cl_id n # map cl_id ?K,
      ad_superseded_claim_id = None\<rparr>, s2)"
    using conflict s1(1) s2(1) others for_each_map [of "\<lambda>i. applySemanticConflict env i (cl_id n)" cl_id ?K s1]
    by (simp add: admitClaim_def Let_def del: filter_filter)
  moreover have "contested_with (rivals n st) n c'" using s2(3) by (simp add: contested_with_def same_report_def scored_def)
  moreover have "if i \<in> rivals n st then \<exists>c'. getClaim i s2 = Some c' \<and> contested_with {cl_id n} c c' else getClaim i s2 = Some c"
    if c: "getClaim i st = Some c" for i c
  proof -
    have "i \<noteq> cl_id n" using c assms(3) by auto
    then show ?thesis using s2(4) [of i] s2(5) [of i c] old [OF c] c by auto
  qed
  ultimately show ?thesis using s2(2) K by (intro exI [of _ s2] exI conjI) auto
qed

text \<open>A later window closes the earlier one on both time axes. When no live claim shares the key of a new claim and
  an active claim of the same subject, predicate and scope starts earlier, the admission succeeds with the outcome
  superseded: the new claim is stored, the target it names is superseded by it, its event-valid end is the start of the
  new claim unless it already had one, its system-time invalidation is the moment the new claim was ingested, and no
  other claim changes.\<close>

lemma later_window_supersedes:
  assumes "store_run (av_store env) st" and "plan_ok (av_store env)" and "getClaim (cl_id n) st = None"
    and "cl_subject_id n \<in> entity_ids (st_ents st)" and "av_ms env (fst (cl_validity n)) \<noteq> None"
    and "rivals n st = {}" and "getClaim i st = Some c" and "cl_subject_id c = cl_subject_id n" and "supersedable n c"
  shows "\<exists>adm st' t old new. admitClaim env n st = (Inr adm, st') \<and> ad_outcome adm = ASuperseded \<and> ad_superseded_claim_id adm = Some t
    \<and> getClaim t st = Some old \<and> supersedable n old \<and> getClaim (cl_id n) st' = Some (stored (scored env n))
    \<and> getClaim t st' = Some new \<and> cl_status new = StSuperseded \<and> cl_superseded_by new = Some (cl_id n)
    \<and> cl_t_invalidated new = cl_t_ingested n \<and> cl_object new = cl_object old \<and> cl_supporting_evidence new = cl_supporting_evidence old
    \<and> cl_t_valid_to new = (if ct_state (cl_t_valid_to old) = TsNull then or_else (replacement_valid_to n) (cl_t_valid_to old) else cl_t_valid_to old)
    \<and> (\<forall>k. k \<noteq> cl_id n \<longrightarrow> k \<noteq> t \<longrightarrow> getClaim k st' = getClaim k st)"
proof -
  let ?E = "av_store env" and ?n = "scored env n"
  note healthy = store_run_healthy [OF assms(1)]
  note keys = healthy_keys [OF healthy]
  note live = set_live_claims [OF assms(2) keys, of n]
  have "filter (same_key n) (live_claims env n st) = []" using rivals_live [OF assms(2) keys, of n] assms(6) by simp
  then have "\<not> same_key n x" if "x \<in> set (live_claims env n st)" for x using that by (simp add: filter_empty_conv)
  moreover have "c \<in> set (live_claims env n st)"
    using live assms(7-9) getClaim_id [OF assms(7)] by (auto simp: supersedable_def LIVE_STATUSES_def)
  ultimately obtain old where conflict: "cf_type (detectConflict env n st) = TemporalSupersession" "cf_existing (detectConflict env n st) = Some old"
    "old \<in> set (live_claims env n st)" "supersedable n old"
    using assms(9) by (cases rule: detectConflict_cases [of env n st]) auto
  let ?t = "cl_id old"
  have old: "getClaim ?t st = Some old" using conflict(3) live by simp
  obtain s1 where s1: "insertClaim ?E ?n st = (Inr (), s1)" "healthy ?E s1" "\<And>k. getClaim k s1 = (if k = cl_id n then Some (stored ?n) else getClaim k st)"
    using healthy_insert [OF healthy, of ?n] computeConfidence_dated [of env n] assms(4,5) by auto
  have "?t \<noteq> cl_id n" using old assms(3) by auto
  then have old1: "getClaim ?t s1 = Some old" using s1(3) old by simp
  let ?f = "set_status StSuperseded (Some (cl_id n)) (Some (cl_t_ingested n)) (replacement_valid_to n)"
  have f: "cl_id (?f old) = ?t" "cl_subject_id (?f old) = cl_subject_id old" "cl_confidence (?f old) = cl_confidence old"
    "cl_status (?f old) = StSuperseded" "cl_superseded_by (?f old) = Some (cl_id n)" "cl_t_invalidated (?f old) = cl_t_ingested n"
    "cl_object (?f old) = cl_object old" "cl_supporting_evidence (?f old) = cl_supporting_evidence old"
    "cl_t_valid_to (?f old) = (if ct_state (cl_t_valid_to old) = TsNull then or_else (replacement_valid_to n) (cl_t_valid_to old) else cl_t_valid_to old)"
    by (simp_all add: set_status_def with_validity_def Let_def split: option.split)
  obtain s2 where s2: "update_claim ?E ?t ?f s1 = (Inr (), s2)" "\<And>k. getClaim k s2 = (if k = ?t then Some (stored (?f old)) else getClaim k s1)"
    using healthy_update [OF s1(2) old1, of ?f] f healthy_claim [OF s1(2) old1] by auto
  have run: "admitClaim env n st = (Inr \<lparr>ad_outcome = ASuperseded, ad_claim_id = cl_id n, ad_related_claim_ids = [?t, cl_id n],
      ad_superseded_claim_id = Some ?t\<rparr>, s2)"
    using conflict(1,2) s1(1) s2(1) by (simp add: admitClaim_def applyTemporalSupersession_def updateClaimStatus_def Let_def)
  have "getClaim ?t s2 = Some (stored (?f old))" "getClaim (cl_id n) s2 = Some (stored ?n)"
    "\<forall>k. k \<noteq> cl_id n \<longrightarrow> k \<noteq> ?t \<longrightarrow> getClaim k s2 = getClaim k st"
    using s2(2) s1(3) \<open>?t \<noteq> cl_id n\<close> by simp_all
  with run old conflict(4) show ?thesis
    by (intro exI [of _ "\<lparr>ad_outcome = ASuperseded, ad_claim_id = cl_id n, ad_related_claim_ids = [?t, cl_id n], ad_superseded_claim_id = Some ?t\<rparr>"]
        exI [of _ s2] exI [of _ ?t] exI [of _ old] exI [of _ "stored (?f old)"]) (simp add: f)
qed


section \<open>Resolving duplicates\<close>

lemma fact_match_mem:
  assumes "plan_ok env" and "keys_unique cl_id (st_claims st)"
  shows "c \<in> set (findActiveFactMatches env s p sc v st) \<longleftrightarrow> getClaim (cl_id c) st = Some c \<and> cl_subject_id c = s \<and> cl_status c = StActive
    \<and> cl_predicate c = p \<and> cl_scope c = sc \<and> snd (cl_validity c) = None \<and> normaliseValue (cl_object c) = normaliseValue v"
  using by_subject_mem [OF assms, of c s "Some StActive"] by (auto simp: findActiveFactMatches_def)

lemma distinct_fact_matches:
  assumes "plan_ok env" and "keys_unique cl_id (st_claims st)"
  shows "distinct (map cl_id (findActiveFactMatches env s p sc v st))"
proof -
  let ?rows = "filter (\<lambda>r. cl_subject_id r = s \<and> cl_status r = StActive) (st_claims st)"
  have "distinct (map cl_id ?rows)" using assms(2) by (simp add: keys_unique_def distinct_map_filter)
  moreover have "mset (map cl_id (sv_plan env ?rows)) = mset (map cl_id ?rows)" using assms(1) by (simp add: plan_ok_def)
  ultimately have "distinct (map cl_id (sv_plan env ?rows))" using mset_eq_imp_distinct_iff by blast
  then have "distinct (map cl_id (getClaimsBySubject env s (Some StActive) st))" by (simp add: getClaimsBySubject_def comp_def)
  then have *: "distinct (map cl_id (filter P (getClaimsBySubject env s (Some StActive) st)))" for P by (rule distinct_map_filter)
  have "distinct (map cl_id (sort_key cl_id xs))" if "distinct (map cl_id xs)" for xs :: "claim list"
    using that mset_eq_imp_distinct_iff [of "map cl_id (sort_key cl_id xs)" "map cl_id xs"] by simp
  then show ?thesis unfolding findActiveFactMatches_def using * by blast
qed

lemma getClaim_end: "getClaim i st = Some c \<Longrightarrow> snd (cl_validity c) = ct_value (cl_t_valid_to c)"
  by (auto simp: getClaim_def rowToClaim_def compatibilityValidity_def)

lemma evidence_effect:
  assumes "healthy env st" and "getClaim i st = Some c"
  shows "\<exists>st'. updateClaimSupportingEvidence env i ev st = (Inr (), st') \<and> healthy env st'
    \<and> (\<forall>k. getClaim k st' = (if k = i then Some (stored (c\<lparr>cl_supporting_evidence := ev\<rparr>)) else getClaim k st))"
  using healthy_update [OF assms, of "\<lambda>c. c\<lparr>cl_supporting_evidence := ev\<rparr>"] getClaim_id [OF assms(2)] healthy_claim [OF assms]
  by (auto simp: updateClaimSupportingEvidence_def)

text \<open>Evidence and confidence of one claim are rewritten, in both branches of the resolution.\<close>

definition with_evidence :: "string list \<Rightarrow> claim \<Rightarrow> claim \<Rightarrow> bool" where
  "with_evidence ev c c' = (cl_id c' = cl_id c \<and> cl_subject_id c' = cl_subject_id c \<and> cl_predicate c' = cl_predicate c \<and> cl_object c' = cl_object c
     \<and> cl_scope c' = cl_scope c \<and> cl_status c' = cl_status c \<and> cl_t_valid_to c' = cl_t_valid_to c \<and> cl_supporting_evidence c' = ev)"

lemma evidence_confidence_effect:
  assumes "healthy (av_store env) st" and "getClaim i st = Some c" and "dated env c"
  shows "\<exists>st1 st' c'. updateClaimSupportingEvidence (av_store env) i ev st = (Inr (), st1)
    \<and> refresh_confidence env i (getClaim i st1) st1 = (Inr (), st') \<and> healthy (av_store env) st' \<and> with_evidence ev c c'
    \<and> (\<forall>k. getClaim k st' = (if k = i then Some c' else getClaim k st))"
proof -
  let ?d = "stored (c\<lparr>cl_supporting_evidence := ev\<rparr>)"
  obtain s1 where s1: "updateClaimSupportingEvidence (av_store env) i ev st = (Inr (), s1)" "healthy (av_store env) s1"
    "\<And>k. getClaim k s1 = (if k = i then Some ?d else getClaim k st)"
    using evidence_effect [OF assms(1,2), of ev] by blast
  have "start_of (c\<lparr>cl_supporting_evidence := ev\<rparr>) = start_of c" by (simp add: start_of_def)
  then have "dated env ?d" using assms(3) by (simp add: dated_def)
  with refresh_effect [OF s1(2), of i ?d ?d] s1(3) obtain s2 where
    "refresh_confidence env i (Some ?d) s1 = (Inr (), s2)" "healthy (av_store env) s2"
    "\<And>k. getClaim k s2 = (if k = i then Some (stored (?d\<lparr>cl_confidence := computeConfidence env ?d\<rparr>)) else getClaim k s1)"
    by auto
  moreover have "with_evidence ev c (stored (?d\<lparr>cl_confidence := computeConfidence env ?d\<rparr>))" by (simp add: with_evidence_def stored_def)
  ultimately show ?thesis using s1 by (intro exI [of _ s1] exI [of _ s2] exI conjI) auto
qed

lemma supersede_loop:
  assumes "healthy env st" and "distinct is" and "\<forall>i \<in> set is. getClaim i st \<noteq> None"
  shows "\<exists>st'. for_each (\<lambda>i. updateClaimStatus env i StSuperseded (Some w) (Some tm) None) is st = (Inr (), st') \<and> healthy env st'
    \<and> (\<forall>k. getClaim k st' = (if k \<in> set is then map_option (\<lambda>c. stored (set_status StSuperseded (Some w) (Some tm) None c)) (getClaim k st)
          else getClaim k st))"
  using assms
proof (induction "is" arbitrary: st)
  case (Cons i "is")
  let ?f = "set_status StSuperseded (Some w) (Some tm) None"
  obtain c where c: "getClaim i st = Some c" using Cons.prems(3) by auto
  have "cl_id (?f c) = cl_id c" "cl_subject_id (?f c) = cl_subject_id c" "cl_confidence (?f c) = cl_confidence c"
    by (simp_all add: set_status_def with_validity_def Let_def)
  with healthy_update [OF Cons.prems(1) c, of ?f] healthy_claim [OF Cons.prems(1) c] getClaim_id [OF c]
  obtain s1 where s1: "updateClaimStatus env i StSuperseded (Some w) (Some tm) None st = (Inr (), s1)" "healthy env s1"
    "\<And>k. getClaim k s1 = (if k = i then Some (stored (?f c)) else getClaim k st)"
    by (auto simp: updateClaimStatus_def)
  have "\<forall>j \<in> set is. getClaim j s1 \<noteq> None" using Cons.prems(3) s1(3) by auto
  from Cons.IH [OF s1(2) _ this] Cons.prems(2) obtain s2 where s2:
    "for_each (\<lambda>i. updateClaimStatus env i StSuperseded (Some w) (Some tm) None) is s1 = (Inr (), s2)" "healthy env s2"
    "\<And>k. getClaim k s2 = (if k \<in> set is then map_option (\<lambda>c. stored (?f c)) (getClaim k s1) else getClaim k s1)"
    by auto
  have "i \<notin> set is" using Cons.prems(2) by simp
  then have "getClaim k s2 = (if k \<in> set (i # is) then map_option (\<lambda>c. stored (?f c)) (getClaim k st) else getClaim k st)" for k
    using s2(3) [of k] s1(3) [of k] c by auto
  with s1(1) s2(1,2) show ?case by auto
qed simp

lemma singleton_list: "set xs = {w} \<Longrightarrow> distinct (map f xs) \<Longrightarrow> xs = [w]"
  by (cases xs; cases "tl xs") auto

lemma survivor_alone:
  assumes "plan_ok env" and "keys_unique cl_id (st_claims st)" and "healthy env st'" and "ms = findActiveFactMatches env s p sc v st"
    and "ms = first # losers" and "getClaim (cl_id first) st' = Some w" and "with_evidence ev first w"
    and "\<And>k. k \<noteq> cl_id first \<Longrightarrow> getClaim k st' = (if k \<in> cl_id ` set losers
           then map_option (\<lambda>c. stored (set_status StSuperseded (Some (cl_id first)) (Some tm) None c)) (getClaim k st) else getClaim k st)"
  shows "findActiveFactMatches env s p sc v st' = [w]"
proof (rule singleton_list)
  note keys' = healthy_keys [OF assms(3)]
  note mem = fact_match_mem [OF assms(1,2), of _ s p sc v, folded assms(4)] and mem' = fact_match_mem [OF assms(1) keys', of _ s p sc v]
  have first: "first \<in> set ms" by (simp add: assms(5))
  then have "getClaim (cl_id first) st = Some first" using mem by blast
  then have "ct_value (cl_t_valid_to first) = None" using first mem getClaim_end by force
  then have "w \<in> set (findActiveFactMatches env s p sc v st')"
    using mem' [of w] mem [of first] first assms(6,7) getClaim_end [OF assms(6)] by (simp add: with_evidence_def)
  moreover have "x = w" if x: "x \<in> set (findActiveFactMatches env s p sc v st')" for x
  proof (cases "cl_id x = cl_id first")
    case True
    then show ?thesis using x mem' [of x] assms(6) by simp
  next
    case False
    have "cl_status (set_status StSuperseded (Some u) (Some t) None c) = StSuperseded" for c u t
      by (simp add: set_status_def with_validity_def Let_def)
    then have "cl_id x \<notin> cl_id ` set losers"
      using x mem' [of x] assms(8) [OF False] by (auto split: if_splits)
    then have "getClaim (cl_id x) st = Some x" using x mem' [of x] assms(8) [OF False] by simp
    then have "x \<in> set ms" using x mem' [of x] mem [of x] by simp
    then show ?thesis using False \<open>cl_id x \<notin> cl_id ` set losers\<close> assms(5) by auto
  qed
  ultimately show "set (findActiveFactMatches env s p sc v st') = {w}" by blast
  show "distinct (map cl_id (findActiveFactMatches env s p sc v st'))" by (rule distinct_fact_matches [OF assms(1) keys'])
qed

text \<open>The three branches of the resolution at the level of the store.\<close>

lemma resolve_run:
  assumes "healthy (av_store env) st" and "\<forall>c \<in> set ms. getClaim (cl_id c) st = Some c \<and> dated env c"
    and "distinct (map cl_id ms)" and "sorted (map cl_id ms)" and "ms = first # losers"
  shows "\<exists>res st' w ev. resolveFactMatches env ms ob now st = (Inr res, st') \<and> fm_claimId res = cl_id first
    \<and> healthy (av_store env) st' \<and> getClaim (cl_id first) st' = Some w \<and> with_evidence ev first w
    \<and> set ev = (\<Union>c \<in> set ms. set (cl_supporting_evidence c)) \<union> (if truthy ob then {the ob} else {})
    \<and> fm_superseded_claims res = map cl_id losers
    \<and> (\<forall>k. k \<noteq> cl_id first \<longrightarrow> getClaim k st' = (if k \<in> cl_id ` set losers
         then map_option (\<lambda>c. stored (set_status StSuperseded (Some (cl_id first)) (Some (knownTime now)) None c)) (getClaim k st) else getClaim k st))"
proof -
  let ?E = "av_store env" and ?i = "cl_id first"
  have first: "getClaim ?i st = Some first" "dated env first" using assms(2,5) by auto
  have sort: "sort_key cl_id ms = first # losers" unfolding sort_key_id_if_sorted [OF assms(4)] by (rule assms(5))
  show ?thesis
  proof (cases losers)
    case Nil
    show ?thesis
    proof (cases "truthy ob")
      case True
      let ?ev = "js_set (cl_supporting_evidence first @ [the ob])"
      obtain s1 s2 w where run: "updateClaimSupportingEvidence ?E ?i ?ev st = (Inr (), s1)" "refresh_confidence env ?i (getClaim ?i s1) s1 = (Inr (), s2)"
        "healthy ?E s2" "with_evidence ?ev first w" "\<And>k. getClaim k s2 = (if k = ?i then Some w else getClaim k st)"
        using evidence_confidence_effect [OF assms(1) first, of ?ev] by blast
      then have "addCorroborationEvidence env ?i (the ob) st = (Inr (), s2)"
        by (simp add: addCorroborationEvidence_def first(1) refresh_confidence_def split: option.splits)
      then show ?thesis using run(3-5) True sort assms(5) Nil by (auto simp: resolveFactMatches_def)
    next
      case False
      then show ?thesis using sort assms(1,5) Nil first by (auto simp: resolveFactMatches_def with_evidence_def)
    qed
  next
    case (Cons l ls)
    let ?ev = "js_set (cl_supporting_evidence first @ concat (map cl_supporting_evidence losers) @ (if truthy ob then [the ob] else []))"
    obtain s1 s2 w where run: "updateClaimSupportingEvidence ?E ?i ?ev st = (Inr (), s1)" "refresh_confidence env ?i (getClaim ?i s1) s1 = (Inr (), s2)"
      "healthy ?E s2" "with_evidence ?ev first w" "\<And>k. getClaim k s2 = (if k = ?i then Some w else getClaim k st)"
      using evidence_confidence_effect [OF assms(1) first, of ?ev] by blast
    have fresh: "?i \<notin> cl_id ` set losers" "distinct (map cl_id losers)" using assms(3,5) by auto
    have "\<forall>k \<in> set (map cl_id losers). getClaim k s2 \<noteq> None" using run(5) assms(2,5) fresh(1) by auto
    from supersede_loop [OF run(3) fresh(2) this, of ?i "knownTime now"] obtain s3 where s3:
      "for_each (\<lambda>i. updateClaimStatus ?E i StSuperseded (Some ?i) (Some (knownTime now)) None) (map cl_id losers) s2 = (Inr (), s3)" "healthy ?E s3"
      "\<And>k. getClaim k s3 = (if k \<in> cl_id ` set losers then map_option (\<lambda>c. stored (set_status StSuperseded (Some ?i) (Some (knownTime now)) None c)) (getClaim k s2)
          else getClaim k s2)" by auto
    have loop: "for_each (\<lambda>l. updateClaimStatus ?E (cl_id l) StSuperseded (Some ?i) (Some (knownTime now)) None) losers s2 = (Inr (), s3)"
      using s3(1) for_each_map [of "\<lambda>i. updateClaimStatus ?E i StSuperseded (Some ?i) (Some (knownTime now)) None" cl_id losers s2] by simp
    have refresh: "(case getClaim ?i s1 of None \<Rightarrow> (Inr (), s1) | Some c \<Rightarrow> updateClaimConfidence ?E ?i (computeConfidence env c) s1) = (Inr (), s2)"
      using run(2) by (simp add: refresh_confidence_def split: option.splits)
    have "resolveFactMatches env ms ob now st = (Inr \<lparr>fm_claimId = ?i, fm_ambiguous_matches = length ms, fm_ambiguity_resolved = True,
        fm_superseded_claims = map cl_id losers, fm_supporting_evidence = evidence_count ?i (length ?ev) s3,
        fm_confidence = confidence_after ?i (Some 0) s3\<rparr>, s3)"
      using run(1) refresh loop unfolding resolveFactMatches_def sort Cons by (simp add: Let_def)
    moreover have "getClaim ?i s3 = Some w" using s3(3) run(5) fresh(1) by simp
    moreover have "getClaim k s3 = (if k \<in> cl_id ` set losers
         then map_option (\<lambda>c. stored (set_status StSuperseded (Some ?i) (Some (knownTime now)) None c)) (getClaim k st) else getClaim k st)"
      if "k \<noteq> ?i" for k using s3(3) [of k] run(5) [of k] that by simp
    moreover have "set ?ev = (\<Union>c \<in> set ms. set (cl_supporting_evidence c)) \<union> (if truthy ob then {the ob} else {})" using assms(5) by auto
    ultimately show ?thesis using run(4) s3(2) by (intro exI conjI) auto
  qed
qed

text \<open>Duplicates of a fact are folded into one survivor. Resolving all active claims of a fact succeeds and leaves
  exactly one active claim for it, the one with the smallest id, whose evidence is the union of the evidence of all of
  them and the new observation; every other one is still there, superseded by the survivor with its assertion and
  evidence unchanged; no other claim changes, and the reported losers are exactly the demoted claims.\<close>

lemma resolveFactMatches_one_survivor:
  assumes "store_run (av_store env) st" and "plan_ok (av_store env)" and "ms = findActiveFactMatches (av_store env) s p sc v st"
    and "ms \<noteq> []" and "\<forall>c \<in> set ms. av_ms env (start_of c) \<noteq> None"
  shows "\<exists>res st' w. resolveFactMatches env ms ob now st = (Inr res, st') \<and> fm_claimId res = cl_id w
    \<and> findActiveFactMatches (av_store env) s p sc v st' = [w] \<and> cl_id w = Min (cl_id ` set ms)
    \<and> set (cl_supporting_evidence w) = (\<Union>c \<in> set ms. set (cl_supporting_evidence c)) \<union> (if truthy ob then {the ob} else {})
    \<and> set (fm_superseded_claims res) = cl_id ` set ms - {cl_id w}
    \<and> (\<forall>i c. getClaim i st = Some c \<longrightarrow> i \<noteq> cl_id w \<longrightarrow> (if i \<in> cl_id ` set ms
          then \<exists>c'. getClaim i st' = Some c' \<and> cl_status c' = StSuperseded \<and> cl_superseded_by c' = Some (cl_id w)
                 \<and> cl_object c' = cl_object c \<and> cl_supporting_evidence c' = cl_supporting_evidence c
          else getClaim i st' = Some c))"
proof -
  let ?E = "av_store env"
  note healthy = store_run_healthy [OF assms(1)]
  note keys = healthy_keys [OF healthy]
  note mem = fact_match_mem [OF assms(2) keys, of _ s p sc v, folded assms(3)]
  obtain first losers where ms: "ms = first # losers" using assms(4) by (cases ms) auto
  have dist: "distinct (map cl_id ms)" using distinct_fact_matches [OF assms(2) keys] assms(3) by simp
  have sorted: "sorted (map cl_id ms)" unfolding assms(3) findActiveFactMatches_def by (rule sorted_sort_key)
  have live: "\<forall>c \<in> set ms. getClaim (cl_id c) st = Some c \<and> dated env c" using mem assms(5) by (auto simp: dated_def)
  from resolve_run [OF healthy live dist sorted ms, of ob now] obtain res st' w ev where
    run: "resolveFactMatches env ms ob now st = (Inr res, st')" "fm_claimId res = cl_id first" "healthy ?E st'"
      "getClaim (cl_id first) st' = Some w" "with_evidence ev first w"
      "set ev = (\<Union>c \<in> set ms. set (cl_supporting_evidence c)) \<union> (if truthy ob then {the ob} else {})"
      "fm_superseded_claims res = map cl_id losers"
      "\<And>k. k \<noteq> cl_id first \<Longrightarrow> getClaim k st' = (if k \<in> cl_id ` set losers
         then map_option (\<lambda>c. stored (set_status StSuperseded (Some (cl_id first)) (Some (knownTime now)) None c)) (getClaim k st) else getClaim k st)"
    by blast
  have alone: "findActiveFactMatches ?E s p sc v st' = [w]"
    by (rule survivor_alone [OF assms(2) keys run(3) assms(3) ms run(4,5,8)])
  have w: "cl_id w = cl_id first" "cl_supporting_evidence w = ev" using run(5) by (simp_all add: with_evidence_def)
  have least: "cl_id w = Min (cl_id ` set ms)" using sorted w(1) by (auto simp: ms intro!: Min_eqI [symmetric])
  have demoted: "set (fm_superseded_claims res) = cl_id ` set ms - {cl_id w}" using run(7) w(1) dist by (auto simp: ms)
  have rest: "if i \<in> cl_id ` set ms then \<exists>c'. getClaim i st' = Some c' \<and> cl_status c' = StSuperseded \<and> cl_superseded_by c' = Some (cl_id w)
        \<and> cl_object c' = cl_object c \<and> cl_supporting_evidence c' = cl_supporting_evidence c
      else getClaim i st' = Some c" if c: "getClaim i st = Some c" "i \<noteq> cl_id w" for i c
    using run(8) [of i] c w(1) by (auto simp: ms set_status_def with_validity_def Let_def)
  have "fm_claimId res = cl_id w" using run(2) w(1) by simp
  moreover have "set (cl_supporting_evidence w) = (\<Union>c \<in> set ms. set (cl_supporting_evidence c)) \<union> (if truthy ob then {the ob} else {})"
    using run(6) w(2) by simp
  ultimately show ?thesis using run(1) alone least demoted rest by blast
qed


section \<open>Witnesses\<close>

definition demo_admission :: admission_env where
  "demo_admission = \<lparr>av_store = demo_env, av_now = 1785628800000, av_ms = (\<lambda>_. Some 1785542400000), av_pow = (\<lambda>_. 9 / 10)\<rparr>"

abbreviation demo_c :: "string \<Rightarrow> claim" where
  "demo_c \<equiv> demo_claim ''claim_c'' ''2027-01-01''"

definition demo_twins :: claim_store where
  "demo_twins = snd (insertClaim demo_env (demo_claim ''claim_b'' ''2026-12-01'' ''2026-08-01'')
     (snd (insertClaim demo_env (demo_claim ''claim_a'' ''2026-12-01'' ''2026-08-01'') demo_base)))"

lemma demo_twins_run: "store_run demo_env demo_twins"
  unfolding demo_twins_def demo_base_def by (intro run_insert run_entity run_empty)

lemma demo_twins_claims:
  "st_claims demo_twins = [claim_columns (demo_claim ''claim_a'' ''2026-12-01'' ''2026-08-01''), claim_columns (demo_claim ''claim_b'' ''2026-12-01'' ''2026-08-01'')]"
  unfolding demo_twins_def
  by (simp add: insertClaim_run [OF run_insert [OF demo_runs(1)], where conf = "1 / 2"]
      insertClaim_run [OF demo_runs(1), where conf = "1 / 2"] ins_replace_def)

lemma demo_plan: "plan_ok demo_env"
  by (simp add: plan_ok_def demo_env_def)

lemma demo_admission_simps [simp]: "av_store demo_admission = demo_env" "av_ms demo_admission t = Some 1785542400000"
  by (simp_all add: demo_admission_def)

lemma demo_stored [simp]:
  "cl_predicate (demo_claim i v from) = ''renewal_date''" "cl_scope (demo_claim i v from) = ''client:acme''"
  "cl_object (demo_claim i v from) = \<lparr>tv_type = ''text'', tv_value = JStr v\<rparr>" "cl_supporting_evidence (demo_claim i v from) = [''obs_1'']"
  "cl_validity (demo_claim i v from) = (from, None)" "cl_validity (stored (demo_claim i v from)) = (from, None)"
  by (simp_all add: demo_claim_def stored_def rowToClaim_def claim_columns_def compatibilityValidity_def knownTime_def nullTime_def Let_def)

lemma demo_pair_get:
  "getClaim i demo_pair = (if i = ''claim_a'' then Some (stored (demo_claim ''claim_a'' ''2026-11-02'' ''2026-08-01''))
     else if i = ''claim_b'' then Some (stored (demo_claim ''claim_b'' ''2026-12-01'' ''2026-08-01'')) else None)"
  by (auto simp: getClaim_def demo_pair_simps stored_def)

lemma demo_pair_rivals: "rivals (demo_c ''2026-08-01'') demo_pair = {''claim_a'', ''claim_b''}" "rivals (demo_c ''2026-09-01'') demo_pair = {}"
  by (auto simp: rivals_def demo_pair_get same_key_def LIVE_STATUSES_def split: if_splits)

theorem admissions_never_resolve_witness:
  "\<exists>c'. getClaim ''claim_a'' (fold (\<lambda>(env, n) s. snd (admitClaim env n s)) [(demo_admission, demo_c ''2026-08-01'')] demo_pair) = Some c'
     \<and> cl_object c' = \<lparr>tv_type = ''text'', tv_value = JStr ''2026-11-02''\<rparr> \<and> {''obs_1''} \<subseteq> set (cl_supporting_evidence c')"
proof -
  have "keys_unique cl_id (st_claims demo_pair)" by (rule healthy_keys [OF store_run_healthy [OF demo_runs(2)]])
  from admissions_never_resolve [OF this, of "[(demo_admission, demo_c ''2026-08-01'')]" "''claim_a''" "stored (demo_claim ''claim_a'' ''2026-11-02'' ''2026-08-01'')"]
  show ?thesis using demo_plan by (auto simp: demo_pair_get)
qed

lemma disagreement_contests_all_example:
  "\<exists>adm st'. admitClaim demo_admission (demo_c ''2026-08-01'') demo_pair = (Inr adm, st') \<and> ad_outcome adm = AContested
     \<and> set (ad_related_claim_ids adm) = {''claim_a'', ''claim_b'', ''claim_c''}"
proof -
  have "\<forall>i \<in> {''claim_a'', ''claim_b''}. \<forall>c. getClaim i demo_pair = Some c \<longrightarrow> \<not> agrees (demo_c ''2026-08-01'') c"
    by (simp add: demo_pair_get agrees_def normaliseValue_def) code_simp
  with disagreement_contests_all [of demo_admission demo_pair "demo_c ''2026-08-01''"] demo_plan demo_runs(2)
  show ?thesis by (auto simp: demo_pair_rivals demo_pair_get demo_pair_simps insert_commute)
qed

lemma later_window_supersedes_example:
  "\<exists>adm st' t new. admitClaim demo_admission (demo_c ''2026-09-01'') demo_pair = (Inr adm, st') \<and> ad_outcome adm = ASuperseded
     \<and> getClaim t st' = Some new \<and> cl_status new = StSuperseded \<and> cl_superseded_by new = Some ''claim_c''"
proof -
  have "supersedable (demo_c ''2026-09-01'') (stored (demo_claim ''claim_a'' ''2026-11-02'' ''2026-08-01''))"
    by (simp add: supersedable_def)
  with later_window_supersedes [of demo_admission demo_pair "demo_c ''2026-09-01''" "''claim_a''"] demo_plan demo_runs(2)
  show ?thesis by (auto simp: demo_pair_rivals demo_pair_get demo_pair_simps)
qed

abbreviation demo_matches :: "claim list" where
  "demo_matches \<equiv> [stored (demo_claim ''claim_a'' ''2026-12-01'' ''2026-08-01''), stored (demo_claim ''claim_b'' ''2026-12-01'' ''2026-08-01'')]"

lemma demo_matches_found:
  "demo_matches = findActiveFactMatches demo_env ''entity_acme'' ''renewal_date'' ''client:acme'' \<lparr>tv_type = ''text'', tv_value = JStr ''2026-12-01''\<rparr> demo_twins"
proof -
  have "sorted [''claim_a'', ''claim_b'']" by code_simp
  then have sorted: "sort_key cl_id demo_matches = demo_matches" by (intro sort_key_id_if_sorted) simp
  have "getClaimsBySubject demo_env ''entity_acme'' (Some StActive) demo_twins = demo_matches"
    by (simp add: getClaimsBySubject_def demo_twins_claims demo_env_def stored_def)
  then show ?thesis unfolding findActiveFactMatches_def using sorted by simp
qed

lemma resolveFactMatches_one_survivor_example:
  "\<exists>res st' w. resolveFactMatches demo_admission demo_matches (Some ''obs_2'') ''2026-08-03'' demo_twins = (Inr res, st')
     \<and> findActiveFactMatches demo_env ''entity_acme'' ''renewal_date'' ''client:acme'' \<lparr>tv_type = ''text'', tv_value = JStr ''2026-12-01''\<rparr> st' = [w]
     \<and> cl_id w = ''claim_a'' \<and> set (cl_supporting_evidence w) = {''obs_1'', ''obs_2''}"
proof -
  have "min ''claim_a'' ''claim_b'' = ''claim_a''" by code_simp
  then have least: "Min (cl_id ` set demo_matches) = ''claim_a''" by simp
  have evidence: "(\<Union>c \<in> set demo_matches. set (cl_supporting_evidence c)) \<union> (if truthy (Some ''obs_2'') then {the (Some ''obs_2'')} else {}) = {''obs_1'', ''obs_2''}"
    by (auto simp: truthy_def)
  have "demo_matches \<noteq> []" "\<forall>c \<in> set demo_matches. av_ms demo_admission (start_of c) \<noteq> None" by simp_all
  from resolveFactMatches_one_survivor [of demo_admission demo_twins, unfolded demo_admission_simps(1), OF demo_twins_run demo_plan demo_matches_found this,
      of "Some ''obs_2''" "''2026-08-03''", unfolded least evidence]
  show ?thesis by (elim exE conjE) (intro exI conjI, assumption+)
qed


section \<open>Range of the confidence score\<close>

definition halving :: "(rat \<Rightarrow> rat) \<Rightarrow> bool" where
  "halving p = (\<forall>x \<ge> 0. 0 \<le> p x \<and> p x \<le> 1)"

lemma half_life_pos: "0 < getScopeHalfLife s"
  by (simp add: getScopeHalfLife_def PROJECT_SCOPE_HALF_LIFE_DAYS_def)

lemma recency_range:
  assumes "halving (av_pow env)" and "av_ms env (fst (cl_validity c)) = Some t" and "t \<le> av_now env"
  shows "\<exists>r. recencyScore env c (getScopeHalfLife s) = Some r \<and> 0 \<le> r \<and> r \<le> 1"
proof -
  have "0 \<le> of_int (av_now env - t) / (1000 * 60 * 60 * 24) / getScopeHalfLife s" using assms(3) half_life_pos [of s] by simp
  with assms(1,2) show ?thesis by (simp add: recencyScore_def halving_def Let_def)
qed

text \<open>The confidence of a claim that starts no later than the clock is a number between 0 and 85/100, and no more
  than 58/100 unless a user confirmed it; it never falls when evidence is added and never rises when the claim is
  contested, and from the third contest on a further contest changes nothing.\<close>

lemma confidence_range:
  assumes "halving (av_pow env)" and "av_ms env (fst (cl_validity c)) = Some t" and "t \<le> av_now env"
  shows "\<exists>x. computeConfidence env c = Some x \<and> 0 \<le> x \<and> x \<le> 85 / 100
    \<and> (cl_epistemic c \<noteq> LUserConfirmed \<longrightarrow> x \<le> 58 / 100)
    \<and> (\<exists>y. computeConfidence env (c\<lparr>cl_supporting_evidence := cl_supporting_evidence c @ ev\<rparr>) = Some y \<and> x \<le> y)
    \<and> (\<exists>y. computeConfidence env (c\<lparr>cl_contested_by := cl_contested_by c @ ids\<rparr>) = Some y \<and> y \<le> x
         \<and> (3 \<le> length (cl_contested_by c) \<longrightarrow> y = x))"
proof -
  obtain r where r: "recencyScore env c (getScopeHalfLife (cl_scope c)) = Some r" "0 \<le> r" "r \<le> 1"
    using recency_range [OF assms] by blast
  have same: "recencyScore env (c\<lparr>cl_supporting_evidence := e\<rparr>) h = recencyScore env c h"
    "recencyScore env (c\<lparr>cl_contested_by := k\<rparr>) h = recencyScore env c h" for e k h
    by (simp_all add: recencyScore_def)
  define f where "f u = (if cl_epistemic c = LUserConfirmed then 1 else 0) * (25 / 100) + sourceReliability c * (20 / 100) + r * (15 / 100)
    + extractionConfidence c * (10 / 100) + (u :: rat)" for u
  define co where "co n = min (of_nat n / 3) 1 * (15 / 100 :: rat)" for n :: nat
  define pe where "pe n = max (of_nat n * (- (15 / 100))) (- (45 / 100) :: rat)" for n :: nat
  have val: "computeConfidence env c = Some (max 0 (min 1 (f (co (length (cl_supporting_evidence c)) + pe (length (cl_contested_by c))))))"
    "computeConfidence env (c\<lparr>cl_supporting_evidence := cl_supporting_evidence c @ ev\<rparr>)
      = Some (max 0 (min 1 (f (co (length (cl_supporting_evidence c) + length ev) + pe (length (cl_contested_by c))))))"
    "computeConfidence env (c\<lparr>cl_contested_by := cl_contested_by c @ ids\<rparr>)
      = Some (max 0 (min 1 (f (co (length (cl_supporting_evidence c)) + pe (length (cl_contested_by c) + length ids)))))"
    using r(1) by (simp_all add: computeConfidence_def same f_def co_def pe_def corroborationScore_def contradictionPenalty_def sourceReliability_def
        extractionConfidence_def Let_def algebra_simps)
  have mono: "co m \<le> co (m + k)" "pe (m + k) \<le> pe m" "3 \<le> m \<Longrightarrow> pe (m + k) = pe m" for m k
  proof -
    have "of_nat m \<le> (of_nat (m + k) :: rat)" by simp
    then show "co m \<le> co (m + k)" "pe (m + k) \<le> pe m" unfolding co_def pe_def by (simp_all add: min_def max_def)
    show "pe (m + k) = pe m" if "3 \<le> m"
    proof -
      have "(3 :: rat) \<le> of_nat m" "(3 :: rat) \<le> of_nat (m + k)" using that by (simp_all add: of_nat_le_iff [of 3, simplified])
      then show ?thesis unfolding pe_def by (simp add: max_def)
    qed
  qed
  have caps: "co m \<le> 15 / 100" "pe m \<le> 0" for m by (simp_all add: co_def pe_def min_def max_def)
  have src: "sourceReliability c \<le> 1" "cl_epistemic c \<noteq> LUserConfirmed \<Longrightarrow> sourceReliability c \<le> 9 / 10"
    by (cases "cl_epistemic c"; simp add: sourceReliability_def)+
  have ext: "extractionConfidence c \<le> 1" by (simp add: extractionConfidence_def split: extraction_method.split)
  let ?u = "co (length (cl_supporting_evidence c)) + pe (length (cl_contested_by c))"
  have u: "?u \<le> 15 / 100" using caps [of "length (cl_supporting_evidence c)"] caps [of "length (cl_contested_by c)"] by linarith
  define clamp :: "rat \<Rightarrow> rat" where "clamp a = max 0 (min 1 (f a))" for a
  have top: "f ?u \<le> 85 / 100" "cl_epistemic c \<noteq> LUserConfirmed \<Longrightarrow> f ?u \<le> 58 / 100"
    using src ext r(3) u unfolding f_def by (auto split: if_splits)
  then have "0 \<le> clamp ?u" "clamp ?u \<le> 85 / 100" "cl_epistemic c \<noteq> LUserConfirmed \<Longrightarrow> clamp ?u \<le> 58 / 100"
    by (simp_all add: clamp_def max_def min_def)
  moreover have "clamp a \<le> clamp b" if "a \<le> b" for a b using that by (simp add: clamp_def f_def max_def min_def)
  moreover note mono(1) [of "length (cl_supporting_evidence c)" "length ev"] mono(2,3) [of "length (cl_contested_by c)" "length ids"]
  ultimately show ?thesis using val [folded clamp_def] by simp
qed

lemma confidence_range_example:
  "\<exists>x. computeConfidence demo_admission (demo_c ''2026-08-01'') = Some x \<and> 0 \<le> x \<and> x \<le> 58 / 100"
  using confidence_range [of demo_admission "demo_c ''2026-08-01''" 1785542400000]
  by (auto simp: halving_def demo_admission_def demo_claim_def)

end
