(* ===== verification/Replay.thy ===== *)
theory Replay
  imports Admission Layer0
begin

text \<open>
  Replay of the evidence log into the claim store (\<^verbatim>\<open>layer1/replay.ts\<close>): extracted claims are admitted, corrections
  rewrite a claim and its replacement, tombstones and redactions retract. The entries of \<^verbatim>\<open>obs.claims\<close> or
  \<^verbatim>\<open>body.claims\<close> are JSON values which the code casts to the declared claim shape without a check; \<open>raw_subject\<close>
  and \<open>as_raw_claim\<close> are that cast on values of the declared shape. An entry of another shape raises and is skipped by the code's
  catch clause; when only the part of it behind the subject has another shape, the subject's entity has been resolved, and so
  maybe written, by then. An admission that raises leaves what it had written and the loop goes on. A corrected predicate or
  object of another shape is refused by the insert of the corrected claim, after the original was rewritten; a correction or retraction that raises ends
  the replay, and the sequence mark is not written. The model takes a number where text is declared for such another shape, where SQLite would turn some
  into text, and a legacy validity time that is not text for an absent one. The yields to
  the event loop between batches of events are not modelled: one replay runs to its end, at one instant of the clock from which confidences decay and with one
  enumeration of the ids it mints.
\<close>

section \<open>Reading an event\<close>

definition COMPILER_VERSION :: string where
  "COMPILER_VERSION = ''0.6.1''"

definition deterministicClaimId :: "store_env \<Rightarrow> string \<Rightarrow> nat \<Rightarrow> string" where
  "deterministicClaimId env extractionEventId index =
     ''claim_'' @ take 26 (sv_sha env (extractionEventId @ '':'' @ nat_to_string index))"

definition json_text :: "json option \<Rightarrow> string option" where
  "json_text j = (case j of Some (JStr s) \<Rightarrow> Some s | _ \<Rightarrow> None)"

definition time_state_of :: "string \<Rightarrow> time_state option" where
  "time_state_of s = (if s = ''known'' then Some TsKnown else if s = ''inferred'' then Some TsInferred
     else if s = ''null'' then Some TsNull else None)"

definition normaliseTimeValue :: "json option \<Rightarrow> claim_time \<Rightarrow> claim_time" where
  "normaliseTimeValue raw fallback =
     (case raw of
        Some (JStr s) \<Rightarrow> knownTime s
      | Some (JObj kvs) \<Rightarrow>
          (case Option.bind (json_text (map_of kvs ''state'')) time_state_of of
             Some state \<Rightarrow> \<lparr>ct_value = json_text (map_of kvs ''value''), ct_state = state, ct_basis = json_text (map_of kvs ''basis'')\<rparr>
           | None \<Rightarrow> fallback)
      | _ \<Rightarrow> fallback)"

datatype correction_reason = RsChanged | RsWrong | RsExtractionError | RsDuplicate

definition normaliseCorrectionReason :: "json option \<Rightarrow> correction_reason" where
  "normaliseCorrectionReason reason =
     (if reason = Some (JStr ''wrong'') then RsWrong else if reason = Some (JStr ''extraction_error'') then RsExtractionError
      else if reason = Some (JStr ''duplicate'') then RsDuplicate else RsChanged)"

section \<open>Extracted claims\<close>

record raw_extraction =
  re_method :: "extraction_method option"
  re_model :: "string option"
  re_compiler_version :: "string option"
  re_prompt_hash :: "string option"

record raw_claim =
  rw_subject_id :: "string option"
  rw_subject_name :: "string option"
  rw_subject_type :: "string option"
  rw_predicate :: string
  rw_object :: typed_value
  rw_scope :: "string option"
  rw_from :: "string option"
  rw_to :: "string option"
  rw_t_valid_from :: "json option"
  rw_t_valid_to :: "json option"
  rw_extraction :: "raw_extraction option"
  rw_epistemic :: "epistemic_label option"
  rw_sensitive :: bool

text \<open>A nullable property of a declared type: the outer option is None when the value is not of that type.\<close>

definition nullable :: "(json \<Rightarrow> 'a option) \<Rightarrow> json \<Rightarrow> string \<Rightarrow> 'a option option" where
  "nullable rd j k = (case body_get j k of None \<Rightarrow> Some None | Some JNull \<Rightarrow> Some None | Some v \<Rightarrow> map_option Some (rd v))"

definition rd_text :: "json \<Rightarrow> string option" where
  "rd_text j = (case j of JStr s \<Rightarrow> Some s | _ \<Rightarrow> None)"

definition rd_method :: "json \<Rightarrow> extraction_method option" where
  "rd_method j = (if j = JStr ''deterministic'' then Some MDeterministic else if j = JStr ''llm'' then Some MLlm
     else if j = JStr ''user_input'' then Some MUserInput else None)"

definition rd_epistemic :: "json \<Rightarrow> epistemic_label option" where
  "rd_epistemic j = (if j = JStr ''observed'' then Some LObserved else if j = JStr ''asserted'' then Some LAsserted
     else if j = JStr ''inferred'' then Some LInferred else if j = JStr ''user_confirmed'' then Some LUserConfirmed
     else if j = JStr ''system_generated'' then Some LSystemGenerated else None)"

definition rd_typed_value :: "json \<Rightarrow> typed_value option" where
  "rd_typed_value j =
     (case (body_get j ''type'', body_get j ''value'') of
        (Some (JStr t), Some v) \<Rightarrow> Some \<lparr>tv_type = t, tv_value = v\<rparr> | _ \<Rightarrow> None)"

definition rd_validity :: "json \<Rightarrow> (string option \<times> string option) option" where
  "rd_validity j =
     Option.bind (nullable rd_text j ''from'') (\<lambda>f. Option.bind (nullable rd_text j ''to'') (\<lambda>t. Some (f, t)))"

definition rd_extraction :: "json \<Rightarrow> raw_extraction option" where
  "rd_extraction j =
     Option.bind (nullable rd_method j ''method'') (\<lambda>me. Option.bind (nullable rd_text j ''model'') (\<lambda>mo.
     Option.bind (nullable rd_text j ''compiler_version'') (\<lambda>cv. Option.bind (nullable rd_text j ''prompt_hash'') (\<lambda>ph.
       Some \<lparr>re_method = me, re_model = mo, re_compiler_version = cv, re_prompt_hash = ph\<rparr>))))"

definition truthy_json :: "json option \<Rightarrow> bool" where
  "truthy_json j = (case j of None \<Rightarrow> False | Some v \<Rightarrow> v \<noteq> JNull \<and> v \<noteq> JBool False \<and> v \<noteq> JNum 0 \<and> v \<noteq> JStr [])"

definition as_raw_claim :: "json \<Rightarrow> raw_claim option" where
  "as_raw_claim j =
     Option.bind (nullable rd_text j ''subject_id'') (\<lambda>si. Option.bind (nullable rd_text j ''subject_name'') (\<lambda>sn.
     Option.bind (nullable rd_text j ''subject_type'') (\<lambda>sy. Option.bind (Option.bind (body_get j ''predicate'') rd_text) (\<lambda>p.
     Option.bind (Option.bind (body_get j ''object'') rd_typed_value) (\<lambda>ob. Option.bind (nullable rd_text j ''scope'') (\<lambda>sc.
     Option.bind (nullable rd_validity j ''validity'') (\<lambda>va. Option.bind (nullable rd_extraction j ''extraction'') (\<lambda>ex.
     Option.bind (nullable rd_epistemic j ''epistemic'') (\<lambda>ep.
       Some \<lparr>rw_subject_id = si, rw_subject_name = sn, rw_subject_type = sy, rw_predicate = p, rw_object = ob, rw_scope = sc,
             rw_from = Option.bind va fst, rw_to = Option.bind va snd, rw_t_valid_from = body_get j ''t_valid_from'',
             rw_t_valid_to = body_get j ''t_valid_to'', rw_extraction = ex, rw_epistemic = ep,
             rw_sensitive = truthy_json (body_get j ''sensitive'')\<rparr>)))))))))"

text \<open>\<^verbatim>\<open>\b(?:w1|w2)\b\<close> with words of word characters only: some maximal run of word characters is one of them.\<close>

definition is_word_char :: "char \<Rightarrow> bool" where
  "is_word_char c = (c = CHR ''_'' \<or> (CHR ''0'' \<le> c \<and> c \<le> CHR ''9'') \<or> (CHR ''a'' \<le> c \<and> c \<le> CHR ''z'') \<or> (CHR ''A'' \<le> c \<and> c \<le> CHR ''Z''))"

fun word_runs :: "string \<Rightarrow> string \<Rightarrow> string list" where
  "word_runs run [] = [rev run]"
| "word_runs run (c # cs) = (if is_word_char c then word_runs (c # run) cs else rev run # word_runs [] cs)"

definition has_word :: "string list \<Rightarrow> string \<Rightarrow> bool" where
  "has_word ws s = list_ex (\<lambda>w. w \<in> set ws) (word_runs [] s)"

definition inferTypeFromClaim :: "string \<Rightarrow> json \<Rightarrow> string" where
  "inferTypeFromClaim subjectName raw =
     (let name = toLowerCase subjectName; predicate = or_else (json_text (body_get raw ''predicate'')) [];
          objValue = toLowerCase (or_else (json_text (Option.bind (body_get raw ''object'') (\<lambda>v. body_get v ''value''))) []) in
      if list_ex (\<lambda>e. ends_with name e) [''.ai'', ''.io'', ''.dev'', ''.com'', ''.app''] then ''tool''
      else if has_word [''api'', ''sdk'', ''framework'', ''server'', ''runtime'', ''engine'', ''registry'', ''bus'', ''ledger''] name then ''tool''
      else if has_word [''pricing'', ''price'', ''cost'', ''fee'', ''budget'', ''cap''] name then ''concept''
      else if has_word [''direction'', ''decision'', ''strategy'', ''approach''] name then ''decision''
      else if has_word [''orchestrator'', ''pipeline'', ''system'', ''stack'', ''extract''] name then ''tool''
      else if predicate = ''decided_on'' then ''decision''
      else if predicate = ''status_is'' \<and> has_word [''rejected'', ''approved'', ''viable'', ''deployed'', ''chosen''] objValue then ''tool''
      else ''concept'')"

definition or_falsy :: "string option \<Rightarrow> string \<Rightarrow> string" where
  "or_falsy x d = (if truthy x then the x else d)"

definition body_time :: "observation \<Rightarrow> string \<Rightarrow> string \<Rightarrow> string" where
  "body_time obs k d = or_else (json_text (body_get (co_body (ob_content obs)) k)) d"

definition parent_obs_id :: "observation \<Rightarrow> string" where
  "parent_obs_id obs = (case ob_parent_ids obs of p # _ \<Rightarrow> p | [] \<Rightarrow> ob_id obs)"

definition legacy_time :: "json option \<Rightarrow> string option \<Rightarrow> string \<Rightarrow> claim_time \<Rightarrow> claim_time" where
  "legacy_time raw validity basis d = normaliseTimeValue raw (if truthy validity then inferredTime (the validity) basis else d)"

definition draft_claim :: "store_env \<Rightarrow> observation \<Rightarrow> nat \<Rightarrow> raw_claim \<Rightarrow> string \<Rightarrow> string \<Rightarrow> string \<Rightarrow> claim" where
  "draft_claim env obs index raw subjectId subjectName claimScope =
     (let tIngested = knownTime (body_time obs ''source_obs_captured_at'' (ob_captured_at obs));
          tValidFrom = legacy_time (rw_t_valid_from raw) (rw_from raw) ''legacy_validity_from'' nullTime;
          tValidTo = legacy_time (rw_t_valid_to raw) (rw_to raw) ''legacy_validity_to'' nullTime;
          sourceObservedAt = body_time obs ''source_obs_observed_at'' (ob_observed_at obs)
      in \<lparr>cl_id = deterministicClaimId env (ob_id obs) index, cl_subject_id = subjectId, cl_subject_name = subjectName,
          cl_predicate = rw_predicate raw, cl_object = rw_object raw, cl_scope = claimScope,
          cl_validity = compatibilityValidity
            (if ct_state tValidFrom = TsNull then inferredTime sourceObservedAt ''source_observed_at'' else tValidFrom) tValidTo tIngested,
          cl_t_ingested = tIngested, cl_t_invalidated = nullTime, cl_t_valid_from = tValidFrom, cl_t_valid_to = tValidTo,
          cl_source_event_id = parent_obs_id obs, cl_extraction_event_id = ob_id obs, cl_supporting_evidence = [parent_obs_id obs],
          cl_extraction = \<lparr>ex_method = or_else (Option.bind (rw_extraction raw) re_method) MLlm, ex_model = Option.bind (rw_extraction raw) re_model,
            ex_compiler_version = or_else (Option.bind (rw_extraction raw) re_compiler_version) COMPILER_VERSION,
            ex_prompt_hash = Option.bind (rw_extraction raw) re_prompt_hash, ex_extracted_at = ob_captured_at obs\<rparr>,
          cl_status = StActive, cl_epistemic = or_else (rw_epistemic raw) LInferred, cl_confidence = Some 0,
          cl_sensitive = (rw_sensitive raw \<or> po_sensitive (ob_policy obs)), cl_superseded_by = None, cl_contested_by = [],
          cl_state = None, cl_author = None, cl_epistemic_owner = None, cl_claim_type = None, cl_claim_role = None,
          cl_version_at = None, cl_created_at = None, cl_operation_id = None, cl_actor_id = None, cl_relations = None\<rparr>)"

definition raw_claims :: "observation \<Rightarrow> json list" where
  "raw_claims obs =
     (case ob_claims obs of Some cs \<Rightarrow> cs
      | None \<Rightarrow> (case body_get (co_body (ob_content obs)) ''claims'' of Some (JArr cs) \<Rightarrow> cs | _ \<Rightarrow> []))"

text \<open>The subject of an entry: its id, name, type and scope. Nothing is read from null.\<close>

definition raw_subject :: "json \<Rightarrow> (string option \<times> string option \<times> string option \<times> string option) option" where
  "raw_subject j =
     (if j = JNull then None
      else Option.bind (nullable rd_text j ''subject_id'') (\<lambda>si. Option.bind (nullable rd_text j ''subject_name'') (\<lambda>sn.
        Option.bind (nullable rd_text j ''subject_type'') (\<lambda>sy. Option.bind (nullable rd_text j ''scope'') (\<lambda>sc. Some (si, sn, sy, sc))))))"

definition admit_extracted :: "admission_env \<Rightarrow> er_config option \<Rightarrow> observation \<Rightarrow> nat \<times> json \<Rightarrow> claim_store \<Rightarrow> claim_store" where
  "admit_extracted env cfg obs entry st =
     (case raw_subject (snd entry) of
        None \<Rightarrow> st
      | Some (persistedSubjectId, name, type, scope) \<Rightarrow>
          let subjectName = or_falsy name ''Unknown'';
              subjectType = or_falsy type (inferTypeFromClaim subjectName (snd entry));
              claimScope = or_falsy scope (ob_scope obs);
              (subjectId, st1) =
                (case persistedSubjectId of
                   Some i \<Rightarrow> (i, st)
                 | None \<Rightarrow>
                     let (res, es) = resolveEntity (sv_clock (av_store env)) cfg subjectName subjectType claimScope (st_ents st)
                     in (rs_id res, st\<lparr>st_ents := es\<rparr>))
          in (case as_raw_claim (snd entry) of
                None \<Rightarrow> st1
              | Some raw \<Rightarrow> snd (admitClaim env (draft_claim (av_store env) obs (fst entry) raw subjectId subjectName claimScope) st1)))"

definition handleClaimExtracted :: "admission_env \<Rightarrow> er_config option \<Rightarrow> observation \<Rightarrow> claim_store \<Rightarrow> claim_store" where
  "handleClaimExtracted env cfg obs st = fold (admit_extracted env cfg obs) (enumerate 0 (raw_claims obs)) st"

section \<open>Corrections\<close>

definition corrected_get :: "json option \<Rightarrow> string \<Rightarrow> json option" where
  "corrected_get corrected k = Option.bind corrected (\<lambda>j. body_get j k)"

definition corrected_validity :: "json option \<Rightarrow> string \<Rightarrow> string option" where
  "corrected_validity corrected k = json_text (corrected_get (corrected_get corrected ''validity'') k)"

definition buildCorrectedClaim :: "store_env \<Rightarrow> claim \<Rightarrow> json option \<Rightarrow> observation \<Rightarrow> claim_time \<Rightarrow> claim" where
  "buildCorrectedClaim env original correctedData obs defaultValidFrom =
     (let tIngested = knownTime (ob_captured_at obs);
          tValidFrom = legacy_time (corrected_get correctedData ''t_valid_from'') (corrected_validity correctedData ''from'')
            ''legacy_validity_from'' defaultValidFrom;
          tValidTo = legacy_time (corrected_get correctedData ''t_valid_to'') (corrected_validity correctedData ''to'') ''legacy_validity_to'' nullTime
      in original\<lparr>cl_id := deterministicClaimId env (ob_id obs) 0,
           cl_predicate := or_else (json_text (corrected_get correctedData ''predicate'')) (cl_predicate original),
           cl_object := or_else (Option.bind (corrected_get correctedData ''object'') rd_typed_value) (cl_object original),
           cl_validity := compatibilityValidity tValidFrom tValidTo tIngested, cl_t_ingested := tIngested, cl_t_invalidated := nullTime,
           cl_t_valid_from := tValidFrom, cl_t_valid_to := tValidTo, cl_source_event_id := ob_id obs, cl_extraction_event_id := ob_id obs,
           cl_supporting_evidence := js_set (ob_id obs # cl_supporting_evidence original),
           cl_extraction := \<lparr>ex_method = MUserInput, ex_model = None, ex_compiler_version = COMPILER_VERSION, ex_prompt_hash = None,
             ex_extracted_at = ob_captured_at obs\<rparr>,
           cl_status := StActive, cl_epistemic := LUserConfirmed, cl_confidence := Some 1, cl_superseded_by := None, cl_contested_by := []\<rparr>)"

text \<open>A corrected predicate or object that is given has the declared shape.\<close>

definition corrected_ok :: "json option \<Rightarrow> bool" where
  "corrected_ok corrected =
     ((case corrected_get corrected ''predicate'' of None \<Rightarrow> True | Some JNull \<Rightarrow> True | Some v \<Rightarrow> rd_text v \<noteq> None)
      \<and> (case corrected_get corrected ''object'' of None \<Rightarrow> True | Some JNull \<Rightarrow> True | Some v \<Rightarrow> rd_typed_value v \<noteq> None))"

definition insertCorrected :: "store_env \<Rightarrow> json option \<Rightarrow> claim \<Rightarrow> claim_store \<Rightarrow> unit outcome \<times> claim_store" where
  "insertCorrected env corrected c st =
     (if corrected_ok corrected then insertClaim env c st else (Inl (JsError ''NOT NULL constraint failed: claims''), st))"

definition from_or_now :: "claim \<Rightarrow> claim_time \<Rightarrow> claim_time" where
  "from_or_now c now = (if ct_state (cl_t_valid_from c) = TsNull then now else cl_t_valid_from c)"

definition handleCorrection :: "admission_env \<Rightarrow> observation \<Rightarrow> claim_store \<Rightarrow> unit outcome \<times> claim_store" where
  "handleCorrection env obs st =
     (let body = co_body (ob_content obs); E = av_store env; now = knownTime (ob_captured_at obs);
          correctedData = body_get body ''corrected_claim''
      in case Option.bind (body_string body ''target_claim_id'') (\<lambda>t. getClaim t st) of
        None \<Rightarrow> (Inr (), st)
      | Some original \<Rightarrow>
          (case normaliseCorrectionReason (body_get body ''reason'') of
             RsDuplicate \<Rightarrow>
               (case Option.bind (body_string body ''merge_into_claim_id'') (\<lambda>t. getClaim t st) of
                  None \<Rightarrow> (Inr (), st)
                | Some canonical \<Rightarrow>
                    let merged = canonical\<lparr>cl_supporting_evidence := js_set (cl_supporting_evidence canonical @ cl_supporting_evidence original)\<rparr> in
                    and_then (insertClaim E (scored env merged) st)
                      (\<lambda>_ st1. insertClaim E (with_validity (original\<lparr>cl_status := StSuperseded, cl_superseded_by := Some (cl_id canonical),
                         cl_t_invalidated := now\<rparr>)) st1))
           | RsChanged \<Rightarrow>
               let changeTime = normaliseTimeValue (body_get body ''change_time'') now;
                   corrected = buildCorrectedClaim E original correctedData obs changeTime
               in and_then (insertClaim E (with_validity (original\<lparr>cl_status := StSuperseded, cl_superseded_by := Some (cl_id corrected),
                       cl_t_valid_to := changeTime\<rparr>)) st)
                    (\<lambda>_ st1. insertCorrected E correctedData corrected st1)
           | RsWrong \<Rightarrow>
               let wrong = with_validity (original\<lparr>cl_status := StRetracted, cl_t_invalidated := now, cl_t_valid_to := from_or_now original now\<rparr>)
               in and_then (insertClaim E wrong st)
                    (\<lambda>_ st1. if truthy_json correctedData then insertCorrected E correctedData (buildCorrectedClaim E wrong correctedData obs now) st1
                              else (Inr (), st1))
           | RsExtractionError \<Rightarrow>
               let wrong = with_validity (original\<lparr>cl_status := StRetracted, cl_t_invalidated := now\<rparr>)
               in and_then (insertClaim E wrong st)
                    (\<lambda>_ st1. if truthy_json correctedData
                              then insertCorrected E correctedData (buildCorrectedClaim E wrong correctedData obs (from_or_now wrong now)) st1
                              else (Inr (), st1))))"

section \<open>Retractions\<close>

definition handleRetraction :: "admission_env \<Rightarrow> observation \<Rightarrow> claim_store \<Rightarrow> unit outcome \<times> claim_store" where
  "handleRetraction env obs st =
     (let body = co_body (ob_content obs); tm = Some (knownTime (ob_captured_at obs)) in
      case body_string body ''target_id'' of
        None \<Rightarrow> (Inr (), st)
      | Some targetId \<Rightarrow>
          if body_get body ''target_kind'' = Some (JStr ''claim'')
          then if ob_type obs = T_redaction then redactClaim (av_store env) targetId st
               else if map_option cl_status (getClaim targetId st) = Some StRetracted then (Inr (), st)
               else updateClaimStatus (av_store env) targetId StRetracted None tm None st
          else and_then (removeEvidenceFromClaims env targetId tm st) (\<lambda>_ st1. (Inr (), st1)))"

section \<open>The replay loops\<close>

definition replayable :: "layer0_index option \<Rightarrow> (string \<rightharpoonup> effective_status) option \<Rightarrow> observation \<Rightarrow> bool" where
  "replayable layer0 statusMap obs =
     (case layer0 of
        None \<Rightarrow> True
      | Some idx \<Rightarrow>
          (case statusMap of
             Some m \<Rightarrow> or_else (m (ob_id obs)) (initial_status (ob_status obs)) = EAccepted
           | None \<Rightarrow> getEffectiveStatus (ob_id obs) idx \<in> {None, Some EAccepted}))"

definition processEvent ::
  "admission_env \<Rightarrow> er_config option \<Rightarrow> layer0_index option \<Rightarrow> (string \<rightharpoonup> effective_status) option \<Rightarrow> observation \<Rightarrow> claim_store
     \<Rightarrow> unit outcome \<times> claim_store" where
  "processEvent env cfg layer0 statusMap obs st =
     (if \<not> replayable layer0 statusMap obs then (Inr (), st)
      else case ob_type obs of
        T_claim_extracted \<Rightarrow> (Inr (), handleClaimExtracted env cfg obs st)
      | T_correction \<Rightarrow> handleCorrection env obs st
      | T_tombstone \<Rightarrow> handleRetraction env obs st
      | T_redaction \<Rightarrow> handleRetraction env obs st
      | _ \<Rightarrow> (Inr (), st))"

fun replay_events :: "(observation \<Rightarrow> 's \<Rightarrow> unit outcome \<times> 's) \<Rightarrow> observation list \<Rightarrow> nat \<Rightarrow> 's \<Rightarrow> nat outcome \<times> 's" where
  "replay_events process [] lastSeq s = (Inr lastSeq, s)"
| "replay_events process (e # es) lastSeq s = and_then (process e s) (\<lambda>_ s1. replay_events process es (ob_sequence e) s1)"

fun replay_days :: "(observation \<Rightarrow> 's \<Rightarrow> unit outcome \<times> 's) \<Rightarrow> evidence_dir \<Rightarrow> string list \<Rightarrow> nat \<Rightarrow> 's \<Rightarrow> nat outcome \<times> 's" where
  "replay_days process dir [] lastSeq s = (Inr lastSeq, s)"
| "replay_days process dir (d # ds) lastSeq s =
     (case readFile dir d of
        Inl x \<Rightarrow> (Inl x, s)
      | Inr es \<Rightarrow> and_then (replay_events process es lastSeq s) (\<lambda>n s1. replay_days process dir ds n s1))"

definition replayAll ::
  "admission_env \<Rightarrow> er_config option \<Rightarrow> evidence_dir \<Rightarrow> layer0_index \<Rightarrow> claim_store \<Rightarrow> unit outcome \<times> claim_store" where
  "replayAll env cfg dir layer0 st =
     and_then (replay_days (processEvent env cfg (Some layer0) None) dir (listDates dir) 0 (deleteAllClaims st))
       (\<lambda>lastSeq st1. (Inr (), setLastReplayedSequence lastSeq st1))"

fun catch_up_events ::
  "(observation \<Rightarrow> 's \<Rightarrow> unit outcome \<times> 's) \<Rightarrow> nat \<Rightarrow> observation list \<Rightarrow> nat \<Rightarrow> 's \<Rightarrow> nat outcome \<times> 's" where
  "catch_up_events process lastSeq [] newLastSeq s = (Inr newLastSeq, s)"
| "catch_up_events process lastSeq (e # es) newLastSeq s =
     (if ob_sequence e \<le> lastSeq then catch_up_events process lastSeq es newLastSeq s
      else and_then (process e s) (\<lambda>_ s1. catch_up_events process lastSeq es (max newLastSeq (ob_sequence e)) s1))"

definition replayCatchUp ::
  "admission_env \<Rightarrow> er_config option \<Rightarrow> evidence_dir \<Rightarrow> layer0_index option \<Rightarrow> observation list option
     \<Rightarrow> (string \<rightharpoonup> effective_status) option \<Rightarrow> claim_store \<Rightarrow> unit outcome \<times> claim_store" where
  "replayCatchUp env cfg dir layer0 observations statusMap st =
     (let lastSeq = st_last_replayed st in
      case (case observations of Some es \<Rightarrow> Inr es | None \<Rightarrow> readAll dir) of
        Inl x \<Rightarrow> (Inl x, st)
      | Inr es \<Rightarrow>
          and_then (catch_up_events (processEvent env cfg layer0 statusMap) lastSeq es lastSeq st)
            (\<lambda>n st1. (Inr (), if lastSeq < n then setLastReplayedSequence n st1 else st1)))"


section \<open>Invariants of the store\<close>

lemma and_then_inv:
  assumes "Inv (snd r)" and "\<And>a s. Inv s \<Longrightarrow> Inv (snd (f a s))"
  shows "Inv (snd (and_then r f))"
  using assms by (cases r) (auto simp: and_then_def split: sum.split)

lemma draft_event [simp]: "cl_extraction_event_id (draft_claim env obs n raw i name scope) = ob_id obs"
  by (simp add: draft_claim_def Let_def)

lemma corrected_event [simp]: "cl_extraction_event_id (buildCorrectedClaim env c d obs t) = ob_id obs"
  by (simp add: buildCorrectedClaim_def Let_def)

text \<open>
  The interface between the store and everything that writes claims through it: an invariant that holds of what is
  read and survives an insert of a claim whose extraction event is allowed, and a resolution of a name. Every
  admission, correction, retraction and replay then keeps it, whether it succeeds or raises.
\<close>

locale claim_invariant =
  fixes env :: admission_env and Inv :: "claim_store \<Rightarrow> bool" and ok :: "string \<Rightarrow> bool"
  assumes insert: "Inv st \<Longrightarrow> ok (cl_extraction_event_id c) \<Longrightarrow> Inv (snd (insertClaim (av_store env) c st))"
    and read: "Inv st \<Longrightarrow> getClaim i st = Some c \<Longrightarrow> ok (cl_extraction_event_id c)"
    and resolve: "Inv st \<Longrightarrow> Inv (st\<lparr>st_ents := snd (resolveEntity (sv_clock (av_store env)) cfg name ty scope (st_ents st))\<rparr>)"
    and cleared: "Inv st \<Longrightarrow> Inv (deleteAllClaims st)"
    and marked: "Inv st \<Longrightarrow> Inv (setLastReplayedSequence n st)"
begin

lemmas keep = and_then_inv [where Inv = Inv]

lemma update_inv:
  assumes "Inv st" and "\<And>c. cl_extraction_event_id (f c) = cl_extraction_event_id c"
  shows "Inv (snd (update_claim (av_store env) i f st))"
  using assms insert read by (auto simp: update_claim_def split: option.split)

lemma for_each_inv:
  assumes "\<And>x s. Inv s \<Longrightarrow> Inv (snd (f x s))" and "Inv s"
  shows "Inv (snd (for_each f xs s))"
  using assms(2) by (induction xs arbitrary: s) (auto intro!: keep assms(1))

lemma updates_inv [intro]:
  assumes "Inv st"
  shows "Inv (snd (updateClaimSupportingEvidence (av_store env) i ev st))" "Inv (snd (updateClaimConfidence (av_store env) i x st))"
    "Inv (snd (updateClaimStatus (av_store env) i status by tm to st))" "Inv (snd (redactClaim (av_store env) i st))"
  unfolding updateClaimSupportingEvidence_def updateClaimConfidence_def updateClaimStatus_def redactClaim_def
  by (intro update_inv assms; simp add: set_status_def with_validity_def Let_def split: option.split)+

lemma refresh_inv [intro]: "Inv st \<Longrightarrow> Inv (snd (refresh_confidence env i c st))"
  by (auto simp: refresh_confidence_def split: option.split)

lemma corroborate_inv [intro]: "Inv st \<Longrightarrow> Inv (snd (addCorroborationEvidence env i j st))"
  by (auto simp: addCorroborationEvidence_def split: option.split intro!: keep)

lemma contest_inv [intro]:
  assumes "Inv st"
  shows "Inv (snd (markContested (av_store env) i j st))"
proof -
  have "cl_extraction_event_id (contest k c) = cl_extraction_event_id c" for k c by (simp add: contest_def)
  then show ?thesis using assms read by (auto simp: markContested_def split: option.split intro!: keep insert)
qed

lemma semantic_inv [intro]: "Inv st \<Longrightarrow> Inv (snd (applySemanticConflict env i j st))"
  by (auto simp: applySemanticConflict_def Let_def intro!: keep)

lemma admit_inv:
  assumes "Inv st" and "ok (cl_extraction_event_id c)"
  shows "Inv (snd (admitClaim env c st))"
proof -
  have "ok (cl_extraction_event_id (scored env c))" using assms(2) by (simp add: scored_def)
  then have "Inv (snd (insertClaim (av_store env) (scored env c) st))" using insert assms(1) by blast
  then show ?thesis using assms(1)
    by (auto simp: admitClaim_def applyTemporalSupersession_def Let_def split: conflict_type.split option.split intro!: keep for_each_inv)
qed

lemma remove_inv: "Inv st \<Longrightarrow> Inv (snd (remove_loop env i tm cs rs st))"
proof (induction cs arbitrary: rs st)
  case (Cons c cs)
  then show ?case by (auto simp: Let_def split: option.split intro!: keep)
qed simp

lemma extracted_inv:
  assumes "Inv st" and "ok (ob_id obs)"
  shows "Inv (handleClaimExtracted env cfg obs st)"
proof -
  have resolved: "Inv (s\<lparr>st_ents := es\<rparr>)" if "Inv s" "resolveEntity (sv_clock (av_store env)) cfg name ty scope (st_ents s) = (r, es)" for s r es name ty scope
    using resolve [OF that(1), of cfg name ty scope] that(2) by simp
  have one: "Inv (admit_extracted env cfg obs e s)" if "Inv s" for e s
    using that assms(2) by (auto simp: admit_extracted_def Let_def split: option.split prod.split intro!: admit_inv intro: resolved)
  have "Inv (fold (admit_extracted env cfg obs) es st)" for es using assms(1) by (induction es arbitrary: st) (simp_all add: one)
  then show ?thesis by (simp add: handleClaimExtracted_def)
qed

lemma corrected_inv: "Inv st \<Longrightarrow> ok (cl_extraction_event_id c) \<Longrightarrow> Inv (snd (insertCorrected (av_store env) j c st))"
  by (simp add: insertCorrected_def insert)

lemma correction_inv:
  assumes "Inv st" and "ok (ob_id obs)"
  shows "Inv (snd (handleCorrection env obs st))"
proof -
  have "ok (cl_extraction_event_id c)" if "Option.bind x (\<lambda>t. getClaim t st) = Some c" for x c
    using that read [OF assms(1)] by (cases x) auto
  then show ?thesis using assms
    by (auto simp: handleCorrection_def Let_def scored_def with_validity_def split: option.split correction_reason.split intro!: keep insert corrected_inv)
qed

lemma retraction_inv: "Inv st \<Longrightarrow> Inv (snd (handleRetraction env obs st))"
  by (auto simp: handleRetraction_def removeEvidenceFromClaims_def Let_def split: option.split intro!: keep remove_inv)

lemma event_inv:
  assumes "Inv st" and "replayable layer0 statusMap obs \<Longrightarrow> ob_type obs \<in> {T_claim_extracted, T_correction} \<Longrightarrow> ok (ob_id obs)"
  shows "Inv (snd (processEvent env cfg layer0 statusMap obs st))"
  using assms by (auto simp: processEvent_def split: obs_type.split intro: extracted_inv correction_inv retraction_inv)

end

lemma replay_events_inv:
  assumes "\<And>e s. e \<in> set es \<Longrightarrow> Inv s \<Longrightarrow> Inv (snd (f e s))" and "Inv s"
  shows "Inv (snd (replay_events f es n s))"
  using assms by (induction es arbitrary: n s) (auto intro!: and_then_inv [where Inv = Inv])

lemma catch_up_events_inv:
  assumes "\<And>e s. e \<in> set es \<Longrightarrow> Inv s \<Longrightarrow> Inv (snd (f e s))" and "Inv s"
  shows "Inv (snd (catch_up_events f l es n s))"
  using assms by (induction es arbitrary: n s) (auto intro!: and_then_inv [where Inv = Inv])

lemma replay_days_inv:
  assumes "\<And>d es e s. d \<in> set ds \<Longrightarrow> readFile dir d = Inr es \<Longrightarrow> e \<in> set es \<Longrightarrow> Inv s \<Longrightarrow> Inv (snd (f e s))" and "Inv s"
  shows "Inv (snd (replay_days f dir ds n s))"
  using assms
proof (induction ds arbitrary: n s)
  case (Cons d ds)
  show ?case
  proof (cases "readFile dir d")
    case (Inr es)
    then have "Inv (snd (replay_events f es n s))" using Cons.prems by (intro replay_events_inv [where Inv = Inv]) auto
    moreover have "Inv (snd (replay_days f dir ds k s1))" if "Inv s1" for k s1
      by (rule Cons.IH) (use Cons.prems(1) that in auto)
    ultimately show ?thesis using Inr by (auto intro!: and_then_inv [where Inv = Inv])
  qed (simp add: Cons.prems(2))
qed simp

section \<open>Instances\<close>

text \<open>A row of the claims table as its schema has it: every column with a default is filled, the state is the one of the status,
  the subject is a row of the entities table and the confidence is a number.\<close>

definition typed_row :: "claim \<Rightarrow> bool" where
  "typed_row r = (cl_state r = Some (statusToState (cl_status r)) \<and> cl_author r \<noteq> None \<and> cl_epistemic_owner r \<noteq> None \<and> cl_claim_type r \<noteq> None
     \<and> cl_claim_role r \<noteq> None \<and> cl_version_at r \<noteq> None \<and> cl_created_at r \<noteq> None \<and> cl_relations r \<noteq> None)"

definition store_typed :: "claim_store \<Rightarrow> bool" where
  "store_typed st = (keys_unique cl_id (st_claims st) \<and> rows_valid st \<and> (\<forall>r \<in> set (st_claims st). typed_row r))"

lemma typed_columns: "typed_row (claim_columns c)"
  by (simp add: typed_row_def claim_columns_def Let_def)

lemma insert_typed:
  assumes "store_typed st"
  shows "store_typed (snd (insertClaim env c st))"
proof -
  have "store_typed (write_row c st)" if "cl_subject_id c \<in> entity_ids (st_ents st)" "cl_confidence c \<noteq> None"
    using that assms typed_columns [of c] by (auto simp: store_typed_def rows_valid_def keys_unique_ins_replace set_ins_replace)
  then show ?thesis using assms
    by (auto simp: insertClaim_def entity_ids_def Let_def store_typed_def rows_valid_def split: option.split sum.split)
qed

definition extracted_from :: "(string \<Rightarrow> bool) \<Rightarrow> claim_store \<Rightarrow> bool" where
  "extracted_from ok st = (\<forall>r \<in> set (st_claims st). ok (cl_extraction_event_id r))"

interpretation typed: claim_invariant env store_typed "\<lambda>_. True" for env
proof
  fix st cfg name ty scope
  assume "store_typed st"
  moreover have "entity_ids (st_ents st) \<subseteq> entity_ids (snd (resolveEntity (sv_clock (av_store env)) cfg name ty scope (st_ents st)))"
    by (cases "resolveEntity (sv_clock (av_store env)) cfg name ty scope (st_ents st)") (auto simp: resolveEntity_ids)
  ultimately show "store_typed (st\<lparr>st_ents := snd (resolveEntity (sv_clock (av_store env)) cfg name ty scope (st_ents st))\<rparr>)"
    using rows_valid_grow by (auto simp: store_typed_def)
qed (auto simp: insert_typed, auto simp: store_typed_def rows_valid_def deleteAllClaims_def setLastReplayedSequence_def)

interpretation origin: claim_invariant env "extracted_from ok" ok for env ok
proof
  fix st :: claim_store and c :: claim
  assume *: "extracted_from ok st" "ok (cl_extraction_event_id c)"
  have "cl_extraction_event_id (claim_columns c) = cl_extraction_event_id c" by (simp add: claim_columns_def Let_def)
  with * show "extracted_from ok (snd (insertClaim (av_store env) c st))"
    by (auto simp: extracted_from_def insertClaim_def set_ins_replace Let_def split: option.split sum.split)
next
  fix st i c
  assume "extracted_from ok st" "getClaim i st = Some c"
  then show "ok (cl_extraction_event_id c)" by (auto simp: extracted_from_def getClaim_def rowToClaim_def dest!: lookup_by_SomeD)
qed (auto simp: extracted_from_def deleteAllClaims_def setLastReplayedSequence_def)


section \<open>The mark is not read\<close>

abbreviation remark :: "nat \<Rightarrow> 'a \<times> claim_store \<Rightarrow> 'a \<times> claim_store" where
  "remark n r \<equiv> map_prod (\<lambda>x. x) (setLastReplayedSequence n) r"

lemma mark_simps [simp]:
  "getClaim i (setLastReplayedSequence n st) = getClaim i st" "st_ents (setLastReplayedSequence n st) = st_ents st"
  "getActiveClaims E sc (setLastReplayedSequence n st) = getActiveClaims E sc st"
  "st_claims (setLastReplayedSequence n st) = st_claims st"
  "setLastReplayedSequence n (setLastReplayedSequence m st) = setLastReplayedSequence n st"
  "(setLastReplayedSequence n st)\<lparr>st_ents := es\<rparr> = setLastReplayedSequence n (st\<lparr>st_ents := es\<rparr>)"
  "detectConflict env c (setLastReplayedSequence n st) = detectConflict env c st"
  "st_last_replayed (setLastReplayedSequence n st) = n"
  by (simp_all add: setLastReplayedSequence_def getClaim_def getActiveClaims_def detectConflict_def live_claims_def getClaimsBySubject_def)

lemma insert_remark [simp]: "insertClaim E c (setLastReplayedSequence n st) = remark n (insertClaim E c st)"
proof -
  have "write_row c (setLastReplayedSequence n st) = setLastReplayedSequence n (write_row c st)"
    by (simp add: write_row_def refresh_edges_eq setLastReplayedSequence_def)
  moreover have "st_log (setLastReplayedSequence n st) = st_log st" "(setLastReplayedSequence n s)\<lparr>st_log := l\<rparr> = setLastReplayedSequence n (s\<lparr>st_log := l\<rparr>)" for s l
    by (simp_all add: setLastReplayedSequence_def)
  ultimately show ?thesis by (simp add: insertClaim_def Let_def split: option.split sum.split)
qed

lemma and_then_remark:
  assumes "\<And>a s. f a (setLastReplayedSequence n s) = remark n (f a s)"
  shows "and_then (remark n r) f = remark n (and_then r f)"
  using assms by (cases r) (auto simp: and_then_def split: sum.split)

lemma update_remark [simp]:
  "update_claim E i f (setLastReplayedSequence n st) = remark n (update_claim E i f st)"
  "updateClaimSupportingEvidence E i ev (setLastReplayedSequence n st) = remark n (updateClaimSupportingEvidence E i ev st)"
  "updateClaimConfidence E i x (setLastReplayedSequence n st) = remark n (updateClaimConfidence E i x st)"
  "updateClaimStatus E i s b tm to (setLastReplayedSequence n st) = remark n (updateClaimStatus E i s b tm to st)"
  "redactClaim E i (setLastReplayedSequence n st) = remark n (redactClaim E i st)"
  "refresh_confidence env i d (setLastReplayedSequence n st) = remark n (refresh_confidence env i d st)"
  by (simp_all add: update_claim_def updateClaimSupportingEvidence_def updateClaimConfidence_def updateClaimStatus_def redactClaim_def
      refresh_confidence_def split: option.split)

lemma for_each_remark:
  assumes "\<And>x s. f x (setLastReplayedSequence n s) = remark n (f x s)"
  shows "for_each f xs (setLastReplayedSequence n s) = remark n (for_each f xs s)"
  by (induction xs arbitrary: s) (simp_all add: assms and_then_remark)

lemma corroborate_remark [simp]: "addCorroborationEvidence env i j (setLastReplayedSequence n st) = remark n (addCorroborationEvidence env i j st)"
  by (simp add: addCorroborationEvidence_def and_then_remark split: option.split)

lemma semantic_remark [simp]: "applySemanticConflict env i j (setLastReplayedSequence n st) = remark n (applySemanticConflict env i j st)"
proof -
  have "markContested (av_store env) i j (setLastReplayedSequence n st) = remark n (markContested (av_store env) i j st)"
    by (simp add: markContested_def and_then_remark split: option.split)
  then show ?thesis by (simp add: applySemanticConflict_def and_then_remark Let_def)
qed

lemma admit_remark [simp]: "admitClaim env c (setLastReplayedSequence n st) = remark n (admitClaim env c st)"
  by (simp add: admitClaim_def applyTemporalSupersession_def Let_def and_then_remark for_each_remark split: conflict_type.split option.split)

lemma remove_remark [simp]: "remove_loop env i tm cs rs (setLastReplayedSequence n st) = remark n (remove_loop env i tm cs rs st)"
  by (induction cs arbitrary: rs st) (simp_all add: Let_def and_then_remark split: option.split)

lemma extracted_remark [simp]: "handleClaimExtracted env cfg obs (setLastReplayedSequence n st) = setLastReplayedSequence n (handleClaimExtracted env cfg obs st)"
proof -
  have "admit_extracted env cfg obs e (setLastReplayedSequence n s) = setLastReplayedSequence n (admit_extracted env cfg obs e s)" for e s
    by (auto simp: admit_extracted_def Let_def split: option.split prod.split)
  then have "fold (admit_extracted env cfg obs) es (setLastReplayedSequence n s) = setLastReplayedSequence n (fold (admit_extracted env cfg obs) es s)" for es s
    by (induction es arbitrary: s) simp_all
  then show ?thesis by (simp add: handleClaimExtracted_def)
qed

lemma correction_remark [simp]: "handleCorrection env obs (setLastReplayedSequence n st) = remark n (handleCorrection env obs st)"
  by (simp add: handleCorrection_def insertCorrected_def Let_def and_then_remark split: option.split correction_reason.split)

lemma event_remark: "processEvent env cfg l0 sm obs (setLastReplayedSequence n st) = remark n (processEvent env cfg l0 sm obs st)"
proof -
  have "handleRetraction env obs (setLastReplayedSequence n st) = remark n (handleRetraction env obs st)"
    by (auto simp: handleRetraction_def removeEvidenceFromClaims_def Let_def and_then_remark split: option.split)
  then show ?thesis by (simp add: processEvent_def split: obs_type.split)
qed

lemma replay_events_remark:
  "replay_events (processEvent env cfg l0 sm) es k (setLastReplayedSequence n st) = remark n (replay_events (processEvent env cfg l0 sm) es k st)"
  by (induction es arbitrary: k st) (simp_all add: event_remark and_then_remark)

section \<open>Replaying in one or two runs\<close>

lemma and_then_cong: "(\<And>a s. f a s = g a s) \<Longrightarrow> and_then r f = and_then r g"
  by (metis ext)

lemma and_then_assoc: "and_then (and_then r f) g = and_then r (\<lambda>a s. and_then (f a s) g)"
  by (cases r) (simp add: and_then_def split: sum.split)

lemma replay_events_append: "replay_events f (xs @ ys) n s = and_then (replay_events f xs n s) (\<lambda>m s1. replay_events f ys m s1)"
  by (induction xs arbitrary: n s) (auto simp: and_then_assoc intro!: and_then_cong)

lemma replay_events_last:
  assumes "replay_events f es n s = (Inr m, s')"
  shows "m = (if es = [] then n else ob_sequence (last es))"
  using assms by (induction es arbitrary: n s) (auto simp: and_then_def split: sum.splits prod.splits if_splits)

lemma replay_days_ok:
  assumes "readAll dir = Inr es"
  shows "replay_days f dir (listDates dir) n s = replay_events f es n s"
proof -
  have "replay_days f dir ds n s = replay_events f es n s" if "read_days dir ds = Inr es" for ds n s es
    using that
    by (induction ds arbitrary: n s es) (auto simp: replay_events_append readFile_def split: sum.splits intro!: and_then_cong)
  then show ?thesis using assms by (simp add: readAll_def read_all_def listDates_def)
qed

lemma catch_up_fresh:
  assumes "sorted_wrt (\<lambda>a b. ob_sequence a < ob_sequence b) es" and "\<forall>e \<in> set es. l < ob_sequence e \<and> n \<le> ob_sequence e"
  shows "catch_up_events f l es n s = replay_events f es n s"
  using assms
proof (induction es arbitrary: n s)
  case (Cons e es)
  then have "catch_up_events f l es (max n (ob_sequence e)) s1 = replay_events f es (ob_sequence e) s1" for s1
    using Cons.IH [of "ob_sequence e"] Cons.prems by (auto simp: max_def less_imp_le)
  then show ?case using Cons.prems by (auto intro!: and_then_cong)
qed simp

lemma catch_up_seen: "\<forall>e \<in> set xs. ob_sequence e \<le> l \<Longrightarrow> catch_up_events f l (xs @ ys) n s = catch_up_events f l ys n s"
  by (induction xs) simp_all

lemma replay_events_cong:
  assumes "\<And>e s. e \<in> set es \<Longrightarrow> f e s = g e s"
  shows "replay_events f es n s = replay_events g es n s"
  using assms by (induction es arbitrary: n s) (auto intro!: and_then_cong)

lemma event_cong: "replayable l0 sm e = replayable l0' sm' e \<Longrightarrow> processEvent env cfg l0 sm e st = processEvent env cfg l0' sm' e st"
  by (simp add: processEvent_def)

section \<open>Properties\<close>

text \<open>C30: Replaying keeps the claim store well formed. Whatever the evidence log holds and whether the replay succeeds or
  raises midway, afterwards claim ids are unique, every claim has a subject in the entity table and a numeric confidence,
  its state is the one of its status, and every column with a default is filled; a catch-up keeps that of the store it
  starts from.\<close>

theorem replay_typed:
  "store_typed (snd (replayAll env cfg dir layer0 st))
   \<and> (store_typed st \<longrightarrow> store_typed (snd (replayCatchUp env cfg dir l0 observations statusMap st)))"
proof
  let ?f = "processEvent env cfg (Some layer0) None"
  have "store_typed (deleteAllClaims st)" by (simp add: store_typed_def rows_valid_def deleteAllClaims_def)
  then have "store_typed (snd (replay_days ?f dir (listDates dir) 0 (deleteAllClaims st)))"
    by (intro replay_days_inv [where Inv = store_typed] typed.event_inv) simp_all
  then show "store_typed (snd (replayAll env cfg dir layer0 st))"
    unfolding replayAll_def by (rule and_then_inv) (simp add: typed.marked)
  have "store_typed (snd (catch_up_events (processEvent env cfg l0 statusMap) n es m st))" if "store_typed st" for n es m
    using that by (intro catch_up_events_inv [where Inv = store_typed] typed.event_inv) simp_all
  then show "store_typed st \<longrightarrow> store_typed (snd (replayCatchUp env cfg dir l0 observations statusMap st))"
    by (auto simp: replayCatchUp_def Let_def typed.marked split: option.split sum.split intro!: and_then_inv [where Inv = store_typed])
qed

text \<open>A replay materialises claims from accepted evidence only. Every claim of the store after a replay from scratch, finished or
  not, was extracted by an event of the evidence log which is an extraction or a correction and whose effective status is
  accepted (or which the index does not know): nothing is derived from a quarantined, rejected, tombstoned, redacted or
  erased event.\<close>

lemma replay_only_accepted:
  assumes "getClaim i (snd (replayAll env cfg dir layer0 st)) = Some c"
  shows "\<exists>d es e. readFile dir d = Inr es \<and> e \<in> set es \<and> ob_id e = cl_extraction_event_id c
    \<and> ob_type e \<in> {T_claim_extracted, T_correction} \<and> getEffectiveStatus (ob_id e) layer0 \<in> {None, Some EAccepted}"
proof -
  let ?ok = "\<lambda>x. \<exists>d es e. readFile dir d = Inr es \<and> e \<in> set es \<and> ob_id e = x \<and> ob_type e \<in> {T_claim_extracted, T_correction}
    \<and> getEffectiveStatus (ob_id e) layer0 \<in> {None, Some EAccepted}"
  let ?f = "processEvent env cfg (Some layer0) None"
  have "extracted_from ?ok (snd (?f e s))" if "readFile dir d = Inr es" "e \<in> set es" "extracted_from ?ok s" for d es e s
    by (rule origin.event_inv [OF that(3)]) (use that(1,2) in \<open>auto simp: replayable_def\<close>)
  moreover have "extracted_from ?ok (deleteAllClaims st)" by (simp add: extracted_from_def deleteAllClaims_def)
  ultimately have "extracted_from ?ok (snd (replay_days ?f dir (listDates dir) 0 (deleteAllClaims st)))"
    by (intro replay_days_inv [where Inv = "extracted_from ?ok"])
  then have "extracted_from ?ok (snd (replayAll env cfg dir layer0 st))"
    unfolding replayAll_def by (rule and_then_inv) (simp add: origin.marked)
  from origin.read [OF this assms] show ?thesis .
qed

text \<open>A catch-up is the same as a replay from scratch. When the log has only grown, its sequence numbers increase from 1 and the new
  events leave the status of the earlier ones as it was, then after a replay that succeeded a catch-up ends with the same result
  as a replay of the whole log, and when it succeeds with exactly the same store: claims, entities, relations, appended
  versions and mark. The three runs read the same clock and mint the same ids: at other times the confidences and the ids of new entities
  differ.\<close>

lemma catchUp_equals_replayAll:
  assumes "readAll dir = Inr old" and "readAll dir' = Inr (old @ new)"
    and "sorted_wrt (\<lambda>a b. ob_sequence a < ob_sequence b) (old @ new)" and "\<forall>e \<in> set (old @ new). 0 < ob_sequence e"
    and "\<forall>e \<in> set old. replayable (Some idx) None e = replayable (Some idx') None e"
    and "replayAll env cfg dir idx st = (Inr (), st1)"
  shows "fst (replayCatchUp env cfg dir' (Some idx') None None st1) = fst (replayAll env cfg dir' idx' st)
    \<and> (fst (replayAll env cfg dir' idx' st) = Inr () \<longrightarrow>
         snd (replayCatchUp env cfg dir' (Some idx') None None st1) = snd (replayAll env cfg dir' idx' st))"
proof -
  let ?f = "processEvent env cfg (Some idx') None" and ?s = "deleteAllClaims st" and ?n = "if old = [] then 0 else ob_sequence (last old)"
  have old: "replay_events (processEvent env cfg (Some idx) None) old 0 ?s = replay_events ?f old 0 ?s"
    using assms(5) by (intro replay_events_cong event_cong) simp
  obtain r s1 where run: "replay_events ?f old 0 ?s = (r, s1)" by (cases "replay_events ?f old 0 ?s")
  have "replayAll env cfg dir idx st = and_then (r, s1) (\<lambda>k s. (Inr (), setLastReplayedSequence k s))"
    by (simp only: replayAll_def replay_days_ok [OF assms(1)] old run)
  with assms(6) obtain m where m: "r = Inr m" "st1 = setLastReplayedSequence m s1" by (cases r) auto
  have "m = ?n" by (rule replay_events_last [OF run [unfolded m(1)]])
  with run m have s1: "replay_events ?f old 0 ?s = (Inr ?n, s1)" "st1 = setLastReplayedSequence ?n s1" by blast+
  have seen: "\<forall>e \<in> set old. ob_sequence e \<le> ?n"
  proof (cases old rule: rev_cases)
    case (snoc xs x)
    then show ?thesis using assms(3) by (auto simp: sorted_wrt_append less_imp_le)
  qed simp
  have fresh: "\<forall>e \<in> set new. ?n < ob_sequence e \<and> ?n \<le> ob_sequence e"
    using assms(3,4) by (cases old rule: rev_cases) (auto simp: sorted_wrt_append less_imp_le)
  have "sorted_wrt (\<lambda>a b. ob_sequence a < ob_sequence b) new" using assms(3) by (simp add: sorted_wrt_append)
  then have caught: "catch_up_events ?f ?n (old @ new) ?n st1 = remark ?n (replay_events ?f new ?n s1)"
    unfolding s1(2) by (simp only: catch_up_seen [OF seen] catch_up_fresh [OF _ fresh] replay_events_remark)
  have whole: "replay_days ?f dir' (listDates dir') 0 ?s = replay_events ?f new ?n s1"
    by (simp add: replay_days_ok [OF assms(2)] replay_events_append s1(1))
  have mark: "st_last_replayed st1 = ?n" by (simp add: s1(2))
  show ?thesis
  proof (cases "replay_events ?f new ?n s1")
    case (Pair r s2)
    have "m = (if new = [] then ?n else ob_sequence (last new))" if "r = Inr m" for m
      using replay_events_last [of ?f new ?n s1 m s2] Pair that by simp
    moreover have "new \<noteq> [] \<Longrightarrow> ?n < ob_sequence (last new)" using fresh by simp
    ultimately show ?thesis
      by (cases r) (auto simp: replayCatchUp_def replayAll_def mark assms(2) caught whole Pair Let_def)
  qed
qed


section \<open>Removing evidence\<close>

definition depends_on :: "string \<Rightarrow> claim \<Rightarrow> bool" where
  "depends_on i c = (i \<in> set (cl_supporting_evidence c) \<or> cl_source_event_id c = i \<or> cl_extraction_event_id c = i)"

definition evidence_without :: "string \<Rightarrow> claim \<Rightarrow> string list" where
  "evidence_without i c = filter (\<lambda>j. j \<noteq> i) (cl_supporting_evidence c)"

definition relieved :: "string \<Rightarrow> claim \<Rightarrow> claim \<Rightarrow> bool" where
  "relieved i c c' = (cl_object c' = cl_object c \<and> cl_subject_id c' = cl_subject_id c \<and> cl_predicate c' = cl_predicate c \<and> cl_scope c' = cl_scope c
     \<and> cl_supporting_evidence c' = evidence_without i c
     \<and> cl_status c' = (if evidence_without i c = [] then StRetracted else cl_status c))"

lemma status_effect:
  assumes "healthy env st" and "getClaim i st = Some c"
  shows "\<exists>st'. updateClaimStatus env i status by tm to st = (Inr (), st') \<and> healthy env st'
    \<and> (\<forall>k. getClaim k st' = (if k = i then Some (stored (set_status status by tm to c)) else getClaim k st))"
proof -
  have "cl_id (set_status status by tm to c) = i" "cl_subject_id (set_status status by tm to c) = cl_subject_id c"
    "cl_confidence (set_status status by tm to c) = cl_confidence c"
    using getClaim_id [OF assms(2)] by (simp_all add: set_status_def with_validity_def Let_def split: option.split)
  then show ?thesis using healthy_update [OF assms, of "set_status status by tm to"] healthy_claim [OF assms] by (auto simp: updateClaimStatus_def)
qed

lemma relieve_effect:
  assumes "healthy (av_store env) st" and "getClaim (cl_id c) st = Some c" and "evidence_without i c \<noteq> [] \<longrightarrow> dated env c" and "depends_on i c"
  shows "\<exists>rs' st' c'. (\<forall>cs rs. remove_loop env i tm (c # cs) rs st = remove_loop env i tm cs (rs @ rs') st')
    \<and> rs' = (if evidence_without i c = [] then [cl_id c] else []) \<and> healthy (av_store env) st' \<and> relieved i c c'
    \<and> (\<forall>k. getClaim k st' = (if k = cl_id c then Some c' else getClaim k st))"
proof (cases "evidence_without i c = []")
  case True
  let ?d = "stored (c\<lparr>cl_supporting_evidence := []\<rparr>)"
  obtain s1 where s1: "updateClaimSupportingEvidence (av_store env) (cl_id c) [] st = (Inr (), s1)" "healthy (av_store env) s1"
    "\<And>k. getClaim k s1 = (if k = cl_id c then Some ?d else getClaim k st)"
    using evidence_effect [OF assms(1,2), of "[]"] by blast
  obtain s2 where s2: "updateClaimStatus (av_store env) (cl_id c) StRetracted None tm None s1 = (Inr (), s2)" "healthy (av_store env) s2"
    "\<And>k. getClaim k s2 = (if k = cl_id c then Some (stored (set_status StRetracted None tm None ?d)) else getClaim k s1)"
    using status_effect [OF s1(2), of "cl_id c" ?d StRetracted None tm None] s1(3) by auto
  have "relieved i c (stored (set_status StRetracted None tm None ?d))"
    using True by (simp add: relieved_def set_status_def with_validity_def Let_def split: option.split)
  then show ?thesis using True assms(4) s1 s2
    by (intro exI [of _ "[cl_id c]"] exI [of _ s2] exI [of _ "stored (set_status StRetracted None tm None ?d)"])
      (auto simp: depends_on_def evidence_without_def Let_def)
next
  case False
  obtain s1 s2 c' where s: "updateClaimSupportingEvidence (av_store env) (cl_id c) (evidence_without i c) st = (Inr (), s1)"
    "refresh_confidence env (cl_id c) (getClaim (cl_id c) s1) s1 = (Inr (), s2)" "healthy (av_store env) s2" "with_evidence (evidence_without i c) c c'"
    "\<And>k. getClaim k s2 = (if k = cl_id c then Some c' else getClaim k st)"
    using evidence_confidence_effect [OF assms(1,2) mp [OF assms(3) False], of "evidence_without i c"] by blast
  then have "relieved i c c'" using False by (simp add: relieved_def with_evidence_def)
  moreover have "remove_loop env i tm (c # cs) rs st = remove_loop env i tm cs rs s2" for cs rs
    using assms(4) False s(1) s(2) [unfolded refresh_confidence_def]
    by (auto simp: depends_on_def evidence_without_def Let_def split: option.splits)
  ultimately show ?thesis using False s(3,5) by (intro exI [of _ "[]"] exI [of _ s2] exI [of _ c']) simp
qed

lemma remove_effect:
  assumes "healthy (av_store env) st" and "\<forall>c \<in> set cs. getClaim (cl_id c) st = Some c \<and> (depends_on i c \<and> evidence_without i c \<noteq> [] \<longrightarrow> dated env c)"
    and "distinct (map cl_id cs)"
  shows "\<exists>st'. remove_loop env i tm cs rs st = (Inr (rs @ map cl_id (filter (\<lambda>c. depends_on i c \<and> evidence_without i c = []) cs)), st')
    \<and> (\<forall>c \<in> set cs. if depends_on i c then \<exists>c'. getClaim (cl_id c) st' = Some c' \<and> relieved i c c' else getClaim (cl_id c) st' = Some c)
    \<and> (\<forall>k. k \<notin> cl_id ` set cs \<longrightarrow> getClaim k st' = getClaim k st)"
  using assms
proof (induction cs arbitrary: rs st)
  case (Cons c cs)
  show ?case
  proof (cases "depends_on i c")
    case True
    have c: "getClaim (cl_id c) st = Some c" "evidence_without i c \<noteq> [] \<longrightarrow> dated env c" using Cons.prems(2) True by simp_all
    obtain rs' s1 c' where s1: "\<forall>cs rs. remove_loop env i tm (c # cs) rs st = remove_loop env i tm cs (rs @ rs') s1"
      "rs' = (if evidence_without i c = [] then [cl_id c] else [])" "healthy (av_store env) s1" "relieved i c c'"
      "\<forall>k. getClaim k s1 = (if k = cl_id c then Some c' else getClaim k st)"
      using relieve_effect [OF Cons.prems(1) c True, of tm] by blast
    have "cl_id x \<noteq> cl_id c" if "x \<in> set cs" for x
      using Cons.prems(3) imageI [OF that, of cl_id] by auto
    then have old: "\<forall>x \<in> set cs. getClaim (cl_id x) s1 = Some x \<and> (depends_on i x \<and> evidence_without i x \<noteq> [] \<longrightarrow> dated env x)" using Cons.prems(2) s1(5) by simp
    have "distinct (map cl_id cs)" using Cons.prems(3) by simp
    from Cons.IH [OF s1(3) old this, of "rs @ rs'"] obtain s2 where s2:
      "remove_loop env i tm cs (rs @ rs') s1 = (Inr ((rs @ rs') @ map cl_id (filter (\<lambda>c. depends_on i c \<and> evidence_without i c = []) cs)), s2)"
      "\<forall>c \<in> set cs. if depends_on i c then \<exists>c'. getClaim (cl_id c) s2 = Some c' \<and> relieved i c c' else getClaim (cl_id c) s2 = Some c"
      "\<forall>k. k \<notin> cl_id ` set cs \<longrightarrow> getClaim k s2 = getClaim k s1" by blast
    have "getClaim (cl_id c) s2 = Some c'" using s2(3) s1(5) Cons.prems(3) by simp
    moreover have "getClaim k s2 = getClaim k st" if "k \<notin> cl_id ` set (c # cs)" for k using s2(3) s1(5) that by auto
    ultimately show ?thesis using s1(1,2,4) s2(1,2) True by (intro exI [of _ s2] conjI) auto
  next
    case False
    then have "remove_loop env i tm (c # cs) rs st = remove_loop env i tm cs rs st" for rs by (simp add: depends_on_def)
    moreover have "cl_id c \<notin> cl_id ` set cs" using Cons.prems(3) by simp
    ultimately show ?thesis using Cons.IH [of st rs] Cons.prems False by auto
  qed
qed simp

text \<open>C31: What forgetting an observation does to the claims. When the start of every active or stale claim that
  rests on the observation and on other evidence parses as a date (its confidence is computed again from it), removing the observation succeeds; every active
  or stale claim that rests on it, by its evidence, its source or its extraction event, loses it from its evidence and is retracted if none is left,
  and the retracted claims are reported; every other claim is unchanged. In particular a contested claim is unchanged, even
  one whose only evidence is the removed observation.\<close>

theorem removeEvidence_exact:
  assumes "store_run (av_store env) st" and "plan_ok (av_store env)"
    and "\<forall>k c. getClaim k st = Some c \<and> cl_status c \<in> {StActive, StStale} \<and> depends_on i c \<and> evidence_without i c \<noteq> []
      \<longrightarrow> av_ms env (start_of c) \<noteq> None"
  shows "\<exists>rs st'. removeEvidenceFromClaims env i tm st = (Inr rs, st')
    \<and> set rs = {k. \<exists>c. getClaim k st = Some c \<and> cl_status c \<in> {StActive, StStale} \<and> depends_on i c \<and> evidence_without i c = []}
    \<and> (\<forall>k c. getClaim k st = Some c \<longrightarrow>
         (if cl_status c \<in> {StActive, StStale} \<and> depends_on i c then \<exists>c'. getClaim k st' = Some c' \<and> relieved i c c'
          else getClaim k st' = Some c))
    \<and> (\<forall>k. getClaim k st = None \<longrightarrow> getClaim k st' = None)"
proof -
  let ?cs = "getActiveClaims (av_store env) None st"
  let ?rows = "filter (\<lambda>r. cl_status r \<in> {StActive, StStale}) (st_claims st)"
  note healthy = store_run_healthy [OF assms(1)]
  note keys = healthy_keys [OF healthy]
  have row: "getClaim (cl_id c) st = Some c \<longleftrightarrow> c \<in> rowToClaim ` set (st_claims st)" for c
    using keys by (auto simp: getClaim_def lookup_by_iff image_iff)
  have cs: "c \<in> set ?cs \<longleftrightarrow> getClaim (cl_id c) st = Some c \<and> cl_status c \<in> {StActive, StStale}" for c
    unfolding row by (auto simp: getActiveClaims_def plan_set [OF assms(2)] scope_filter_def)
  have "distinct (map cl_id ?rows)" using keys by (simp add: keys_unique_def distinct_map_filter)
  moreover have "mset (map cl_id (sv_plan (av_store env) ?rows)) = mset (map cl_id ?rows)" using assms(2) by (simp add: plan_ok_def)
  ultimately have "distinct (map cl_id (sv_plan (av_store env) ?rows))" using mset_eq_imp_distinct_iff by blast
  then have dist: "distinct (map cl_id ?cs)" by (simp add: getActiveClaims_def comp_def scope_filter_def)
  have "\<forall>c \<in> set ?cs. getClaim (cl_id c) st = Some c \<and> (depends_on i c \<and> evidence_without i c \<noteq> [] \<longrightarrow> dated env c)"
    using cs assms(3) unfolding dated_def by blast
  from remove_effect [OF healthy this dist, of tm "[]", unfolded append_Nil] obtain st' where st':
    "remove_loop env i tm ?cs [] st = (Inr (map cl_id (filter (\<lambda>c. depends_on i c \<and> evidence_without i c = []) ?cs)), st')"
    "\<forall>c \<in> set ?cs. if depends_on i c then \<exists>c'. getClaim (cl_id c) st' = Some c' \<and> relieved i c c' else getClaim (cl_id c) st' = Some c"
    "\<forall>k. k \<notin> cl_id ` set ?cs \<longrightarrow> getClaim k st' = getClaim k st" by blast
  have "if cl_status c \<in> {StActive, StStale} \<and> depends_on i c then \<exists>c'. getClaim k st' = Some c' \<and> relieved i c c' else getClaim k st' = Some c"
    if c: "getClaim k st = Some c" for k c
  proof (cases "cl_status c \<in> {StActive, StStale}")
    case True
    then show ?thesis using bspec [OF st'(2), of c] cs [of c] c getClaim_id [OF c] by auto
  next
    case False
    have "k \<notin> cl_id ` set ?cs" using cs c False by (metis imageE option.inject)
    then show ?thesis using st'(3) c False by simp
  qed
  moreover have "getClaim k st' = None" if "getClaim k st = None" for k using st'(3) cs that by (metis imageE option.distinct(1))
  moreover have "set (map cl_id (filter (\<lambda>c. depends_on i c \<and> evidence_without i c = []) ?cs))
      = {k. \<exists>c. getClaim k st = Some c \<and> cl_status c \<in> {StActive, StStale} \<and> depends_on i c \<and> evidence_without i c = []}"
    using cs by (auto simp: image_iff dest: getClaim_id)
  ultimately show ?thesis using st'(1) unfolding removeEvidenceFromClaims_def by blast
qed


section \<open>Restated claims\<close>

lemma no_conflict_inserts:
  assumes "healthy (av_store env) st" and "cf_type (detectConflict env n st) = NoConflict"
    and "cl_subject_id n \<in> entity_ids (st_ents st)" and "av_ms env (fst (cl_validity n)) \<noteq> None"
  shows "\<exists>adm st'. admitClaim env n st = (Inr adm, st') \<and> ad_outcome adm = AInserted \<and> healthy (av_store env) st' \<and> st_ents st' = st_ents st
    \<and> (\<forall>k. getClaim k st' = (if k = cl_id n then Some (stored (scored env n)) else getClaim k st))"
proof -
  obtain s1 where "insertClaim (av_store env) (scored env n) st = (Inr (), s1)" "healthy (av_store env) s1" "st_ents s1 = st_ents st"
    "\<forall>k. getClaim k s1 = (if k = cl_id n then Some (stored (scored env n)) else getClaim k st)"
    using healthy_insert [OF assms(1), of "scored env n"] computeConfidence_dated [of env n] assms(3,4) by auto
  then show ?thesis using assms(2) by (auto simp: admitClaim_def Let_def)
qed

text \<open>A drafted claim with no start of its own takes the observation's time as its start for the conflict check, but the row it is
  stored in has the capture time.\<close>

lemma draft_simps [simp]:
  "cl_subject_id (draft_claim E obs k raw s name sc) = s" "cl_predicate (draft_claim E obs k raw s name sc) = rw_predicate raw"
  "cl_scope (draft_claim E obs k raw s name sc) = sc" "cl_object (draft_claim E obs k raw s name sc) = rw_object raw"
  "cl_status (draft_claim E obs k raw s name sc) = StActive" "cl_id (draft_claim E obs k raw s name sc) = deterministicClaimId E (ob_id obs) k"
  by (simp_all add: draft_claim_def Let_def)

lemma draft_starts:
  assumes "rw_t_valid_from raw = None" and "\<not> truthy (rw_from raw)"
  shows "fst (cl_validity (draft_claim E obs k raw s name sc)) = body_time obs ''source_obs_observed_at'' (ob_observed_at obs)"
    "start_of (draft_claim E obs k raw s name sc) = body_time obs ''source_obs_captured_at'' (ob_captured_at obs)"
  using assms
  by (simp_all add: draft_claim_def start_of_def legacy_time_def normaliseTimeValue_def compatibilityValidity_def nullTime_def inferredTime_def
      knownTime_def Let_def)

text \<open>A restated claim without a start of its own is stored twice. When two extraction events carry the same claim of the same
  subject, with no event-valid start, and the evidence of the second was observed before the first was captured (as it is when both
  were extracted from one observation), then the second is not recognised as the same assertion: it is inserted as a further active claim beside the first, with the same
  subject, predicate, scope and value, and no evidence is folded.\<close>

lemma restatement_stored_twice:
  assumes "store_run (av_store env) st" and "plan_ok (av_store env)" and "av_ms env (fst (cl_validity n)) \<noteq> None" and "av_ms env (fst (cl_validity n')) \<noteq> None"
    and "s \<in> entity_ids (st_ents st)" and "\<forall>i c. getClaim i st = Some c \<longrightarrow> cl_subject_id c \<noteq> s"
    and "rw_t_valid_from raw = None" and "\<not> truthy (rw_from raw)"
    and "n = draft_claim (av_store env) e i raw s name sc" and "n' = draft_claim (av_store env) e' i' raw s name' sc" and "cl_id n \<noteq> cl_id n'"
    and "body_time e' ''source_obs_observed_at'' (ob_observed_at e') < body_time e ''source_obs_captured_at'' (ob_captured_at e)"
  shows "\<exists>st1 st2 adm adm' c c'. admitClaim env n st = (Inr adm, st1) \<and> admitClaim env n' st1 = (Inr adm', st2)
    \<and> ad_outcome adm' = AInserted \<and> getClaim (cl_id n) st2 = Some c \<and> getClaim (cl_id n') st2 = Some c'
    \<and> cl_status c = StActive \<and> cl_status c' = StActive \<and> cl_subject_id c' = cl_subject_id c \<and> cl_predicate c' = cl_predicate c
    \<and> cl_scope c' = cl_scope c \<and> cl_object c' = cl_object c \<and> cl_supporting_evidence c = cl_supporting_evidence n"
proof -
  let ?E = "av_store env" and ?c = "stored (scored env n)"
  note starts = draft_starts [OF assms(7,8)]
  note healthy = store_run_healthy [OF assms(1)]
  have "set (live_claims env n st) = {}"
    unfolding set_live_claims [OF assms(2) healthy_keys [OF healthy]] using assms(6,9) by auto
  then have "cf_type (detectConflict env n st) = NoConflict" by (simp add: detectConflict_def Let_def)
  then obtain adm st1 where st1: "admitClaim env n st = (Inr adm, st1)" "healthy ?E st1" "st_ents st1 = st_ents st"
    "\<forall>k. getClaim k st1 = (if k = cl_id n then Some ?c else getClaim k st)"
    using no_conflict_inserts [OF healthy, of n] assms(3,5,9) by auto
  have old: "x = ?c" if "x \<in> set (live_claims env n' st1)" for x
  proof -
    have "getClaim (cl_id x) st1 = Some x" "cl_subject_id x = s"
      using that set_live_claims [OF assms(2) healthy_keys [OF st1(2)], of n'] assms(10) by auto
    then show ?thesis using st1(4) assms(6) by (auto split: if_splits)
  qed
  have "start_of (scored env n) = start_of n" by (simp add: scored_def start_of_def)
  then have later: "fst (cl_validity n') < fst (cl_validity ?c)" using assms(9,10,12) starts stored_start by simp
  then have "\<not> same_key n' ?c" "\<not> supersedable n' ?c" by (auto simp: same_key_def supersedable_def)
  then have none: "\<not> same_key n' x" "\<not> supersedable n' x" if "x \<in> set (live_claims env n' st1)" for x using old [OF that] by simp_all
  have "cf_type (detectConflict env n' st1) = NoConflict"
    using none by (cases rule: detectConflict_cases [of env n' st1]) auto
  then obtain adm' st2 where "admitClaim env n' st1 = (Inr adm', st2)" "ad_outcome adm' = AInserted"
    "\<forall>k. getClaim k st2 = (if k = cl_id n' then Some (stored (scored env n')) else getClaim k st1)"
    using no_conflict_inserts [OF st1(2), of n'] assms(4,5,10) st1(3) by auto
  then show ?thesis using st1(1,4) assms(9-11) by (intro exI [of _ st1] exI [of _ st2]) (auto simp: scored_def)
qed


section \<open>Witnesses\<close>

definition demo_raw :: json where
  "demo_raw = JObj [(''subject_name'', JStr ''Acme''), (''subject_type'', JStr ''organisation''), (''predicate'', JStr ''renewal_date''),
     (''object'', JObj [(''type'', JStr ''text''), (''value'', JStr ''2026-12-01'')])]"

definition demo_event :: "string \<Rightarrow> nat \<Rightarrow> obs_type \<Rightarrow> json \<Rightarrow> observation" where
  "demo_event i n ty body = (demo_obs i n ty body)\<lparr>ob_captured_at := ''2026-08-02'', ob_observed_at := ''2026-08-01''\<rparr>"

definition demo_extracted :: observation where
  "demo_extracted = demo_event ''o1'' 1 T_claim_extracted (JObj [(''claims'', JArr [demo_raw])])"

definition demo_rested :: observation where
  "demo_rested = demo_event ''o2'' 2 T_tombstone (JObj [(''target_id'', JStr ''o1'')])"

definition demo_unlogged :: claim_store where
  "demo_unlogged = empty_store\<lparr>st_log := None\<rparr>"

abbreviation demo_index :: layer0_index where
  "demo_index \<equiv> \<lparr>l0_rows = [], l0_last_sequence = None\<rparr>"

lemma demo_replay:
  "(case replayAll demo_admission None [(''d1'', [Line demo_extracted])] demo_index demo_unlogged of
     (r, st) \<Rightarrow> (r, map (\<lambda>c. (cl_id c, cl_status c, cl_extraction_event_id c)) (st_claims st), st_last_replayed st))
   = (Inr (), [(''claim_o1:0'', StActive, ''o1'')], 1)"
  by code_simp

abbreviation demo_days :: evidence_dir where
  "demo_days \<equiv> [(''d1'', [Line demo_extracted])]"

abbreviation demo_more_days :: evidence_dir where
  "demo_more_days \<equiv> [(''d1'', [Line demo_extracted]), (''d2'', [Line demo_rested])]"

abbreviation demo_replayed :: claim_store where
  "demo_replayed \<equiv> snd (replayAll demo_admission None demo_days demo_index demo_unlogged)"

lemma demo_replayed_facts:
  "fst (replayAll demo_admission None demo_days demo_index demo_unlogged) = Inr ()"
  "\<exists>c. getClaim ''claim_o1:0'' demo_replayed = Some c \<and> cl_extraction_event_id c = ''o1''"
proof -
  obtain r st where run: "replayAll demo_admission None demo_days demo_index demo_unlogged = (r, st)"
    by (cases "replayAll demo_admission None demo_days demo_index demo_unlogged")
  then have "r = Inr ()" "map (\<lambda>c. (cl_id c, cl_status c, cl_extraction_event_id c)) (st_claims st) = [(''claim_o1:0'', StActive, ''o1'')]"
    using demo_replay by simp_all
  then show "fst (replayAll demo_admission None demo_days demo_index demo_unlogged) = Inr ()"
    "\<exists>c. getClaim ''claim_o1:0'' demo_replayed = Some c \<and> cl_extraction_event_id c = ''o1''"
    using run by (auto simp: getClaim_def rowToClaim_def)
qed

theorem replay_typed_witness:
  "store_typed demo_unlogged
   \<and> store_typed (snd (replayCatchUp demo_admission None [] (Some demo_index) (Some [demo_extracted, demo_rested]) None demo_unlogged))"
proof -
  have "store_typed demo_unlogged" by (simp add: store_typed_def rows_valid_def demo_unlogged_def empty_store_def)
  then show ?thesis using replay_typed by blast
qed

lemma replay_only_accepted_example:
  "\<exists>c d es e. getClaim ''claim_o1:0'' demo_replayed = Some c \<and> readFile demo_days d = Inr es \<and> e \<in> set es
     \<and> ob_id e = ''o1'' \<and> getEffectiveStatus ''o1'' demo_index \<in> {None, Some EAccepted}"
proof -
  obtain c where c: "getClaim ''claim_o1:0'' demo_replayed = Some c" "cl_extraction_event_id c = ''o1''" using demo_replayed_facts(2) by blast
  from replay_only_accepted [OF c(1)] c show ?thesis by metis
qed

lemma catchUp_equals_replayAll_example:
  "fst (replayCatchUp demo_admission None demo_more_days (Some demo_index) None None demo_replayed)
   = fst (replayAll demo_admission None demo_more_days demo_index demo_unlogged)"
proof -
  have "readAll demo_days = Inr [demo_extracted]" "readAll demo_more_days = Inr ([demo_extracted] @ [demo_rested])" by code_simp+
  moreover have "ob_sequence demo_extracted = 1" "ob_sequence demo_rested = 2"
    by (simp_all add: demo_extracted_def demo_rested_def demo_event_def demo_obs_def)
  moreover have "replayAll demo_admission None demo_days demo_index demo_unlogged = (Inr (), demo_replayed)"
    using demo_replayed_facts(1) by (metis prod.collapse)
  ultimately show ?thesis
    using catchUp_equals_replayAll [of demo_days "[demo_extracted]" demo_more_days "[demo_rested]" demo_index demo_index demo_admission None demo_unlogged demo_replayed]
    by simp
qed

theorem removeEvidence_exact_witness:
  "\<exists>rs st'. removeEvidenceFromClaims demo_admission ''obs_1'' None demo_pair = (Inr rs, st') \<and> set rs = {''claim_a'', ''claim_b''}"
proof -
  have "{k. \<exists>c. getClaim k demo_pair = Some c \<and> cl_status c \<in> {StActive, StStale} \<and> depends_on ''obs_1'' c \<and> evidence_without ''obs_1'' c = []}
      = {''claim_a'', ''claim_b''}"
    by (auto simp: demo_pair_get depends_on_def evidence_without_def split: if_splits)
  moreover have "store_run (av_store demo_admission) demo_pair" "plan_ok (av_store demo_admission)"
    using demo_runs(2) demo_plan by simp_all
  ultimately show ?thesis using removeEvidence_exact [of demo_admission demo_pair "''obs_1''" None] by auto
qed

lemma restatement_stored_twice_example:
  "\<exists>raw st1 st2 adm adm' c c'. as_raw_claim demo_raw = Some raw
     \<and> admitClaim demo_admission (draft_claim demo_env demo_extracted 0 raw ''entity_acme'' ''Acme'' ''client:acme'') demo_base = (Inr adm, st1)
     \<and> admitClaim demo_admission (draft_claim demo_env demo_rested 0 raw ''entity_acme'' ''Acme'' ''client:acme'') st1 = (Inr adm', st2)
     \<and> getClaim ''claim_o1:0'' st2 = Some c \<and> getClaim ''claim_o2:0'' st2 = Some c' \<and> cl_object c' = cl_object c \<and> cl_status c = StActive \<and> cl_status c' = StActive"
proof -
  have "as_raw_claim demo_raw \<noteq> None" "rw_t_valid_from (the (as_raw_claim demo_raw)) = None" "\<not> truthy (rw_from (the (as_raw_claim demo_raw)))"
    by code_simp+
  then obtain raw where raw: "as_raw_claim demo_raw = Some raw" "rw_t_valid_from raw = None" "\<not> truthy (rw_from raw)" by auto
  let ?n = "\<lambda>e. draft_claim (av_store demo_admission) e 0 raw ''entity_acme'' ''Acme'' ''client:acme''"
  have times: "body_time demo_rested ''source_obs_observed_at'' (ob_observed_at demo_rested)
      < body_time demo_extracted ''source_obs_captured_at'' (ob_captured_at demo_extracted)" by code_simp
  have "deterministicClaimId demo_env (ob_id demo_extracted) 0 = ''claim_o1:0''" "deterministicClaimId demo_env (ob_id demo_rested) 0 = ''claim_o2:0''"
    by code_simp+
  then have ids: "cl_id (?n demo_extracted) = ''claim_o1:0''" "cl_id (?n demo_rested) = ''claim_o2:0''" by simp_all
  then have "cl_id (?n demo_extracted) \<noteq> cl_id (?n demo_rested)" by simp
  note differ = this
  have "store_run (av_store demo_admission) demo_base" "plan_ok (av_store demo_admission)" "av_ms demo_admission (fst (cl_validity (?n demo_extracted))) \<noteq> None"
    "av_ms demo_admission (fst (cl_validity (?n demo_rested))) \<noteq> None"
    "''entity_acme'' \<in> entity_ids (st_ents demo_base)" "\<forall>i c. getClaim i demo_base = Some c \<longrightarrow> cl_subject_id c \<noteq> ''entity_acme''"
    using demo_runs(1) demo_plan by (simp_all add: getClaim_def)
  from restatement_stored_twice [OF this raw(2,3) refl refl differ times] raw(1)
  show ?thesis unfolding ids unfolding demo_admission_simps(1) by - (elim exE conjE, intro exI conjI, assumption+)
qed

end
