(* ===== verification/Quarantine.thy ===== *)
theory Quarantine
  imports Replay Observe
begin

text \<open>
  Review of quarantined evidence (\<^verbatim>\<open>protocol/quarantine_review.ts\<close>): the owner approves or rejects an observation,
  the review is appended to the evidence log and applied to the index, and a catch-up of the claims is started. The handler does
  not wait for the catch-up, so an error in it does not reach the caller: its outcome is dropped here, and the state is
  the one after it has run. The hash of the review's payload is the argument \<open>hash\<close>.
\<close>

section \<open>The handler\<close>

datatype quarantine_action = QApprove | QReject

definition action_name :: "quarantine_action \<Rightarrow> string" where
  "action_name a = (case a of QApprove \<Rightarrow> ''approve'' | QReject \<Rightarrow> ''reject'')"

record review_params =
  qp_actor :: actor
  qp_target_obs_id :: string
  qp_action :: quarantine_action
  qp_reason :: "string option"

record review_result =
  qr_target_obs_id :: string
  qr_action :: quarantine_action
  qr_new_status :: effective_status

record review_payload =
  ql_actor_id :: string
  ql_target_obs_id :: string
  ql_action :: quarantine_action
  ql_sequence :: nat
  ql_observed_at :: string

record review_world =
  qw_evidence :: evidence_dir
  qw_index :: layer0_index
  qw_store :: claim_store

definition review_observation ::
  "(review_payload \<Rightarrow> string) \<Rightarrow> (observation \<Rightarrow> string) \<Rightarrow> string \<Rightarrow> smartware_config \<Rightarrow> review_params \<Rightarrow> layer0_index \<Rightarrow> observation" where
  "review_observation hash sha now config p idx =
     (let scope = or_else (map_option r_scope (lookup_by r_id (qp_target_obs_id p) (l0_rows idx))) POD_SELF_SCOPE;
          seq = getLastSequence idx + 1; prevHash = getLatestHashForWriter (writer_id config) idx;
          obs = \<lparr>ob_id = ''obs_'' @ hash \<lparr>ql_actor_id = ac_id (qp_actor p), ql_target_obs_id = qp_target_obs_id p, ql_action = qp_action p,
              ql_sequence = seq, ql_observed_at = now\<rparr>,
            ob_operation_id = None, ob_actor_id = None, ob_type = T_quarantine_review, ob_status = OAccepted, ob_app = ''mcp-client'',
            ob_app_version = SMARTWARE_VERSION, ob_source_id = None, ob_source_ref = None, ob_actor = qp_actor p, ob_captured_at = now,
            ob_observed_at = now, ob_scope = scope, ob_visibility = VPrivate,
            ob_content = \<lparr>co_format = ''application/json'',
              co_body = JObj [(''target_id'', JStr (qp_target_obs_id p)), (''action'', JStr (action_name (qp_action p))),
                (''reason'', JStr (or_else (qp_reason p) []))]\<rparr>,
            ob_claims = None, ob_parent_ids = [qp_target_obs_id p], ob_informed_by = [], ob_idempotency = None,
            ob_policy = \<lparr>po_retention = Forever, po_retention_duration = None, po_sensitive = False, po_pii_detected = False\<rparr>,
            ob_integrity = \<lparr>in_hash = [], in_writer_id = writer_id config, in_sequence = seq, in_previous_hash = prevHash\<rparr>\<rparr>
      in assignIntegrity sha obs (writer_id config) seq prevHash)"

definition handleQuarantineReview ::
  "admission_env \<Rightarrow> er_config option \<Rightarrow> (review_payload \<Rightarrow> string) \<Rightarrow> (observation \<Rightarrow> string) \<Rightarrow> string \<Rightarrow> smartware_config \<Rightarrow> review_params
     \<Rightarrow> review_world \<Rightarrow> review_result outcome \<times> review_world" where
  "handleQuarantineReview env cfg hash sha now config p w =
     (case requireOwner (ac_id (qp_actor p)) config of
        Inl x \<Rightarrow> (Inl x, w)
      | Inr _ \<Rightarrow>
          (case getEffectiveStatus (qp_target_obs_id p) (qw_index w) of
             None \<Rightarrow> (Inl (ProtocolError ''not_found'' NoDetails), w)
           | Some current \<Rightarrow>
               if current \<noteq> EQuarantined then (Inl (ProtocolError ''invalid_state'' NoDetails), w)
               else if current \<in> TERMINAL_STATES then (Inl (ProtocolError ''terminal_state'' NoDetails), w)
               else
                 let obs = review_observation hash sha now config p (qw_index w);
                     dir = appendObservation now obs (qw_evidence w);
                     idx = applyMutationEvent obs (insertOrSkip obs (qw_index w));
                     st = snd (replayCatchUp env cfg dir (Some idx) None None (qw_store w))
                 in (Inr \<lparr>qr_target_obs_id = qp_target_obs_id p, qr_action = qp_action p,
                          qr_new_status = (if qp_action p = QApprove then EAccepted else ERejected)\<rparr>,
                     w\<lparr>qw_evidence := dir, qw_index := idx, qw_store := st\<rparr>)))"

section \<open>Lemmas\<close>

lemma review_facts [simp]:
  "ob_type (review_observation hash sha now config p idx) = T_quarantine_review"
  "co_body (ob_content (review_observation hash sha now config p idx)) =
     JObj [(''target_id'', JStr (qp_target_obs_id p)), (''action'', JStr (action_name (qp_action p))), (''reason'', JStr (or_else (qp_reason p) []))]"
  by (simp_all add: review_observation_def assignIntegrity_def Let_def)

lemma review_transition:
  assumes "getEffectiveStatus (qp_target_obs_id p) idx = Some EQuarantined" and "qp_target_obs_id p \<noteq> []"
    and "ev = review_observation hash sha now config p idx'" and "getEffectiveStatus i idx = Some s"
  shows "getEffectiveStatus i (applyMutationEvent ev (insertOrSkip ev idx)) =
    Some (if i = qp_target_obs_id p then if qp_action p = QApprove then EAccepted else ERejected else s)"
proof -
  let ?t = "qp_target_obs_id p" and ?idx = "insertOrSkip ev idx"
  have kept: "lookup_by r_id k (l0_rows ?idx) = Some r" if "lookup_by r_id k (l0_rows idx) = Some r" for k r
    by (rule insertOrSkip_keeps [OF that])
  obtain r where r: "lookup_by r_id ?t (l0_rows ?idx) = Some r" "r_effective r = EQuarantined"
    using assms(1) kept by (auto simp: getEffectiveStatus_def)
  obtain q where q: "lookup_by r_id i (l0_rows ?idx) = Some q" "r_effective q = s" "r_id q = i"
    using assms(4) kept by (auto simp: getEffectiveStatus_def dest: lookup_by_SomeD)
  have "TRANSITIONS EQuarantined (transition_key_of (ob_type ev) (co_body (ob_content ev))) = Some (if qp_action p = QApprove then EAccepted else ERejected)"
    using assms(3) by (cases "qp_action p") (simp_all add: TRANSITIONS_def transition_key_of_def body_get_def action_name_def)
  then have "l0_rows (applyMutationEvent ev ?idx) =
      upd_where (\<lambda>x. r_id x = ?t) (set_effective (if qp_action p = QApprove then EAccepted else ERejected)) (l0_rows ?idx)"
    using r assms(2,3)
    by (simp add: applyMutationEvent_def apply_target_mutation_def body_get_def body_string_def TERMINAL_STATES_def)
  then show ?thesis using q by (simp add: getEffectiveStatus_status_of status_of_upd)
qed

lemma catch_up_idle:
  assumes "\<And>e. e \<in> set es \<Longrightarrow> ob_sequence e \<le> l \<or> ob_type e \<notin> {T_claim_extracted, T_correction, T_tombstone, T_redaction}"
  shows "\<exists>m. catch_up_events (processEvent env cfg l0 sm) l es n s = (Inr m, s)"
  using assms
proof (induction es arbitrary: n)
  case (Cons e es)
  have "processEvent env cfg l0 sm e s = (Inr (), s)" if "\<not> ob_sequence e \<le> l"
    using Cons.prems [of e] that by (auto simp: processEvent_def split: obs_type.split)
  then show ?case using Cons by simp
qed simp

section \<open>Properties\<close>

text \<open>A review decides exactly, and only the owner reviews. The call succeeds iff the actor is the owner and the target is
  quarantined; otherwise nothing changes and the error is owner_required, not_found or invalid_state. When it succeeds the review
  has been appended to the log, the target is accepted or rejected as decided, and every other known observation keeps its
  effective status.\<close>

lemma review_decides:
  assumes "qp_target_obs_id p \<noteq> []" and "handleQuarantineReview env cfg hash sha now config p w = (r, w')"
  shows "(is_ok r \<longleftrightarrow> isOwner (ac_id (qp_actor p)) config \<and> getEffectiveStatus (qp_target_obs_id p) (qw_index w) = Some EQuarantined)
    \<and> (if is_ok r
        then (\<exists>ev. qw_evidence w' = appendObservation now ev (qw_evidence w) \<and> ob_type ev = T_quarantine_review \<and> ob_actor ev = qp_actor p)
          \<and> (\<forall>i s. getEffectiveStatus i (qw_index w) = Some s \<longrightarrow> getEffectiveStatus i (qw_index w') =
               Some (if i = qp_target_obs_id p then if qp_action p = QApprove then EAccepted else ERejected else s))
        else w' = w \<and> r = Inl (ProtocolError
          (if \<not> isOwner (ac_id (qp_actor p)) config then ''owner_required''
           else if getEffectiveStatus (qp_target_obs_id p) (qw_index w) = None then ''not_found'' else ''invalid_state'') NoDetails))"
proof (cases "isOwner (ac_id (qp_actor p)) config \<and> getEffectiveStatus (qp_target_obs_id p) (qw_index w) = Some EQuarantined")
  case True
  let ?ev = "review_observation hash sha now config p (qw_index w)"
  have q: "is_ok r" "qw_evidence w' = appendObservation now ?ev (qw_evidence w)"
    "qw_index w' = applyMutationEvent ?ev (insertOrSkip ?ev (qw_index w))"
    using assms(2) True by (auto simp: handleQuarantineReview_def requireOwner_def TERMINAL_STATES_def Let_def)
  moreover have "ob_actor ?ev = qp_actor p" by (simp add: review_observation_def assignIntegrity_def Let_def)
  ultimately show ?thesis using True review_transition [OF _ assms(1) refl, of "qw_index w"] by (intro conjI) auto
next
  case False
  then show ?thesis using assms(2)
    by (auto simp: handleQuarantineReview_def requireOwner_def TERMINAL_STATES_def Let_def split: if_splits option.splits)
qed

text \<open>C32: An approval alone materialises no claim. When the evidence log parses and has been replayed up to its end, approving a
  quarantined observation makes it accepted in the index, and leaves every claim, entity and relation and the claim log as they were: the
  catch-up the handler starts reads only what comes after the mark, and the approved event does not.\<close>

theorem approval_materialises_nothing:
  assumes "handleQuarantineReview env cfg hash sha now config p w = (Inr res, w')" and "qp_target_obs_id p \<noteq> []" and "qp_action p = QApprove"
    and "distinct (map fst (qw_evidence w))" and "readAll (qw_evidence w) = Inr es" and "\<forall>e \<in> set es. ob_sequence e \<le> st_last_replayed (qw_store w)"
  shows "getEffectiveStatus (qp_target_obs_id p) (qw_index w') = Some EAccepted
    \<and> (\<exists>n. qw_store w' = setLastReplayedSequence n (qw_store w))"
proof -
  let ?ev = "review_observation hash sha now config p (qw_index w)" and ?f = "processEvent env cfg (Some (qw_index w')) None" and ?l = "st_last_replayed (qw_store w)"
  have q: "getEffectiveStatus (qp_target_obs_id p) (qw_index w) = Some EQuarantined" "qw_index w' = applyMutationEvent ?ev (insertOrSkip ?ev (qw_index w))"
    "qw_store w' = snd (replayCatchUp env cfg (appendObservation now ?ev (qw_evidence w)) (Some (qw_index w')) None None (qw_store w))"
    using assms(1) by (auto simp: handleQuarantineReview_def requireOwner_def Let_def split: if_splits option.splits)
  obtain es' where es': "readAll (appendObservation now ?ev (qw_evidence w)) = Inr es'" "mset es' = add_mset ?ev (mset es)"
    using read_all_append_one [OF assms(4), of es] assms(5) by (auto simp: readAll_def appendObservation_def appendObservationAt_def)
  have "set es' = insert ?ev (set es)" using es'(2) by (metis set_mset_add_mset_insert set_mset_mset)
  then have "ob_sequence e \<le> ?l \<or> ob_type e \<notin> {T_claim_extracted, T_correction, T_tombstone, T_redaction}" if "e \<in> set es'" for e
    using that assms(6) by auto
  from catch_up_idle [OF this] obtain m where "catch_up_events ?f ?l es' ?l (qw_store w) = (Inr m, qw_store w)" by blast
  then have "\<exists>n. qw_store w' = setLastReplayedSequence n (qw_store w)"
    by (auto simp: q(3) replayCatchUp_def es'(1) Let_def setLastReplayedSequence_def intro: exI [of _ ?l])
  then show ?thesis using review_transition [OF q(1) assms(2) refl q(1)] q(2) assms(3) by simp
qed

section \<open>Witnesses\<close>

definition demo_review_world :: review_world where
  "demo_review_world = \<lparr>qw_evidence = [(''2026-08-02'', [Line (demo_extracted\<lparr>ob_status := OQuarantined\<rparr>)])],
     qw_index = insertOrSkip (demo_extracted\<lparr>ob_status := OQuarantined\<rparr>) demo_index, qw_store = demo_unlogged\<lparr>st_last_replayed := 1\<rparr>\<rparr>"

definition demo_review :: "quarantine_action \<Rightarrow> review_params" where
  "demo_review a = \<lparr>qp_actor = \<lparr>ac_type = Person, ac_id = ''user:local'', ac_display_name = ''Owner''\<rparr>, qp_target_obs_id = ''o1'', qp_action = a, qp_reason = None\<rparr>"

abbreviation demo_reviewed :: "quarantine_action \<Rightarrow> review_result outcome \<times> review_world" where
  "demo_reviewed a \<equiv> handleQuarantineReview demo_admission None (\<lambda>_. ''review'') (\<lambda>_. ''hash'') ''2026-08-03'' Auth.demo_config (demo_review a) demo_review_world"

lemma demo_review_ok: "is_ok (fst (demo_reviewed QApprove))" "is_ok (fst (demo_reviewed QReject))"
  by code_simp+

lemma review_decides_example:
  "getEffectiveStatus ''o1'' (qw_index demo_review_world) = Some EQuarantined
   \<and> getEffectiveStatus ''o1'' (qw_index (snd (demo_reviewed QReject))) = Some ERejected"
proof -
  have "getEffectiveStatus ''o1'' (qw_index demo_review_world) = Some EQuarantined" by code_simp
  moreover have t: "qp_target_obs_id (demo_review QReject) = ''o1''" "qp_action (demo_review QReject) = QReject" by (simp_all add: demo_review_def)
  moreover have "qp_target_obs_id (demo_review QReject) \<noteq> []" using t by simp
  ultimately show ?thesis using review_decides [OF _ prod.collapse [symmetric], of "demo_review QReject"] demo_review_ok(2) by force
qed

theorem approval_materialises_nothing_witness:
  "getEffectiveStatus ''o1'' (qw_index (snd (demo_reviewed QApprove))) = Some EAccepted \<and> st_claims (qw_store (snd (demo_reviewed QApprove))) = []"
proof -
  let ?es = "[demo_extracted\<lparr>ob_status := OQuarantined\<rparr>]"
  obtain res where run: "demo_reviewed QApprove = (Inr res, snd (demo_reviewed QApprove))"
    using demo_review_ok(1) by (cases "demo_reviewed QApprove"; cases "fst (demo_reviewed QApprove)") auto
  have "readAll (qw_evidence demo_review_world) = Inr ?es" "st_last_replayed (qw_store demo_review_world) = 1" "ob_sequence (hd ?es) = 1"
    "distinct (map fst (qw_evidence demo_review_world))" by code_simp+
  moreover have "qp_target_obs_id (demo_review QApprove) = ''o1''" "qp_action (demo_review QApprove) = QApprove" by (simp_all add: demo_review_def)
  ultimately have "getEffectiveStatus ''o1'' (qw_index (snd (demo_reviewed QApprove))) = Some EAccepted
      \<and> (\<exists>n. qw_store (snd (demo_reviewed QApprove)) = setLastReplayedSequence n (qw_store demo_review_world))"
    using approval_materialises_nothing [OF run, of ?es] by simp
  then show ?thesis by (auto simp: demo_review_world_def demo_unlogged_def empty_store_def)
qed

end
