(* ===== verification/Forget.thy ===== *)
theory Forget
  imports Replay Observe
begin

text \<open>
  The FORGET and REVIVE handlers (\<^verbatim>\<open>protocol/forget.ts\<close>): a tombstone or redaction of an observation or of a claim,
  with its audit record in the evidence log, a forgotten version in the claim log, the catch-up of the claim store and, when the
  call has an operation id, the intent, the commit signal and the replay of a committed result; and the revival of a forgotten
  claim from its last active version. The hashes of the payloads, the clock and a fresh ULID are in \<open>forget_env\<close>.
  The test hooks of the handlers are not modelled.
\<close>

section \<open>Parameters\<close>

datatype requested_mode = FmTombstone | FmDeleteObject | FmRedact

record forget_params =
  fp_actor :: actor
  fp_target :: "(forget_target \<times> string) option"
  fp_target_obs_id :: "string option"
  fp_target_claim_id :: "string option"
  fp_mode :: requested_mode
  fp_reason :: "string option"
  fp_redaction_reason :: "string option"
  fp_operation_id :: "string option"

record forget_payload =
  fy_actor_id :: string
  fy_target :: "forget_target \<times> string"
  fy_mode :: requested_mode
  fy_reason :: string
  fy_redaction_reason :: "string option"

record forget_audit_payload =
  fa_type :: obs_type
  fa_actor_id :: string
  fa_target :: "forget_target \<times> string"
  fa_mode :: requested_mode
  fa_operation_id :: "string option"
  fa_sequence :: nat
  fa_observed_at :: string

record forget_result =
  fr_target_id :: string
  fr_target_kind :: forget_target
  fr_mode :: forget_mode
  fr_claims_retracted :: int
  fr_claims_reduced :: int
  fr_audit_observation_id :: string

record forget_env =
  fe_now :: int
  fe_now_iso :: string
  fe_hs :: hashes
  fe_hash :: "forget_payload \<Rightarrow> string"
  fe_audit_hash :: "forget_audit_payload \<Rightarrow> string"
  fe_ulid :: string
  fe_others :: "fence_store \<Rightarrow> fence_store"
  fe_adm :: admission_env
  fe_cfg :: "er_config option"

record forget_world =
  fw_pod :: observe_world
  fw_store :: claim_store

abbreviation fe_sha :: "forget_env \<Rightarrow> string \<Rightarrow> string" where
  "fe_sha env \<equiv> sv_sha (av_store (fe_adm env))"

abbreviation conflict :: "'a outcome" where
  "conflict \<equiv> Inl (ProtocolError ''conflict'' NoDetails)"

definition normaliseTarget :: "forget_params \<Rightarrow> (forget_target \<times> string) outcome" where
  "normaliseTarget p =
     (case fp_target p of
        Some t \<Rightarrow> Inr t
      | None \<Rightarrow>
          if Claim_Store.truthy (fp_target_obs_id p) then Inr (TargetObservation, the (fp_target_obs_id p))
          else if Claim_Store.truthy (fp_target_claim_id p) then Inr (TargetClaim, the (fp_target_claim_id p))
          else Inl (ProtocolError ''invalid_target'' NoDetails))"

definition forgetPayload :: "forget_params \<Rightarrow> forget_target \<times> string \<Rightarrow> forget_payload" where
  "forgetPayload p target =
     \<lparr>fy_actor_id = ac_id (fp_actor p), fy_target = target, fy_mode = fp_mode p, fy_reason = or_else (fp_reason p) [],
      fy_redaction_reason = fp_redaction_reason p\<rparr>"

definition actor_is_user :: "actor \<Rightarrow> bool" where
  "actor_is_user a = (starts_with (ac_id a) ''user:'' \<or> starts_with (ac_id a) ''person_'')"

definition mode_of :: "requested_mode \<Rightarrow> forget_mode" where
  "mode_of m = (if m = FmRedact then ModeRedact else ModeTombstone)"

definition requested_mode_name :: "requested_mode \<Rightarrow> string" where
  "requested_mode_name m = (case m of FmTombstone \<Rightarrow> ''tombstone'' | FmDeleteObject \<Rightarrow> ''delete_object'' | FmRedact \<Rightarrow> ''redact_if_supported'')"

section \<open>Replaying a committed call\<close>

definition kind_of_detail :: "json option \<Rightarrow> forget_target option" where
  "kind_of_detail j = (if j = Some (JStr ''observation'') then Some TargetObservation else if j = Some (JStr ''claim'') then Some TargetClaim else None)"

definition mode_of_detail :: "json option \<Rightarrow> forget_mode option" where
  "mode_of_detail j = (if j = Some (JStr ''tombstone'') then Some ModeTombstone else if j = Some (JStr ''redact_if_supported'') then Some ModeRedact else None)"

definition forget_result_of :: "op_entry \<Rightarrow> (forget_result \<times> string) option" where
  "forget_result_of e =
     (case (entry_detail e ''audit_observation_id'', entry_detail e ''observation_hash'', entry_detail e ''target_id'',
            kind_of_detail (entry_detail e ''target_kind''), mode_of_detail (entry_detail e ''mode''),
            entry_detail e ''claims_retracted'', entry_detail e ''claims_reduced'') of
        (Some (JStr auditId), Some (JStr observationHash), Some (JStr targetId), Some kind, Some mode, Some (JNum retracted), Some (JNum reduced)) \<Rightarrow>
          Some (\<lparr>fr_target_id = targetId, fr_target_kind = kind, fr_mode = mode, fr_claims_retracted = retracted, fr_claims_reduced = reduced,
                 fr_audit_observation_id = auditId\<rparr>, observationHash)
      | _ \<Rightarrow> None)"

definition replay_claim_version ::
  "forget_env \<Rightarrow> string \<Rightarrow> op_entry \<Rightarrow> forget_result \<Rightarrow> forget_world \<Rightarrow> forget_result option outcome \<times> forget_world" where
  "replay_claim_version env oid e res w =
     (case (st_log (fw_store w), entry_detail e ''claim_record_hash'') of
        (Some dir, Some (JStr claimRecordHash)) \<Rightarrow>
          (case readClaimHistory (fe_sha env) dir (fr_target_id res) of
             Inl x \<Rightarrow> (Inl x, w)
           | Inr history \<Rightarrow>
               (case filter (\<lambda>v. cv_operation_id v = oid) history of
                  [v] \<Rightarrow> if hs_version (fe_hs env) v \<noteq> claimRecordHash then (conflict, w)
                         else (Inr (Some res), w\<lparr>fw_store := syncFromJsonlVersion (av_store (fe_adm env)) v None False (fw_store w)\<rparr>)
                | _ \<Rightarrow> (conflict, w)))
      | _ \<Rightarrow> (conflict, w))"

definition forget_committed ::
  "forget_env \<Rightarrow> string \<Rightarrow> string \<Rightarrow> string \<Rightarrow> ops_dir \<Rightarrow> forget_world \<Rightarrow> forget_result option outcome \<times> forget_world" where
  "forget_committed env oid actorId payloadHash ops w =
     (case readAllOpLogEntries ops of
        Inl x \<Rightarrow> (Inl x, w)
      | Inr all \<Rightarrow>
          (let entries = filter (\<lambda>e. oe_operation_id e = oid) all in
           if entries = [] then (Inr None, w)
           else case List.find (\<lambda>e. oe_op e = ''forget'' \<and> oe_actor_id e = actorId
                       \<and> entry_detail e ''payload_hash'' = Some (JStr payloadHash)) entries of
             None \<Rightarrow> (conflict, w)
           | Some e \<Rightarrow>
               (case forget_result_of e of
                  None \<Rightarrow> (conflict, w)
                | Some (res, observationHash) \<Rightarrow>
                    (case readAll (ow_evidence (fw_pod w)) of
                       Inl x \<Rightarrow> (Inl x, w)
                     | Inr obs \<Rightarrow>
                         (case filter (\<lambda>o1. ob_operation_id o1 = Some oid) obs of
                            [a] \<Rightarrow>
                              if ob_id a \<noteq> fr_audit_observation_id res \<or> computeHash (hs_obs (fe_hs env)) a \<noteq> observationHash then (conflict, w)
                              else if fr_target_kind res = TargetClaim then replay_claim_version env oid e res w
                              else (Inr (Some res), w)
                          | _ \<Rightarrow> (conflict, w))))))"

text \<open>What a prepared call found: its intent and its audit record, if the record had been written.\<close>

type_synonym forget_prepared = "((op_intent \<times> forget_body) \<times> observation option) option"

definition forget_replay_stage ::
  "forget_env \<Rightarrow> mutation_fence option \<Rightarrow> string \<Rightarrow> string \<Rightarrow> string \<Rightarrow> ops_dir \<Rightarrow> forget_world
     \<Rightarrow> (forget_result + forget_prepared) outcome \<times> forget_world" where
  "forget_replay_stage env fence oid actorId payloadHash ops w0 =
     and_then (forget_committed env oid actorId payloadHash ops w0)
       (\<lambda>done_before w. case done_before of
          Some r \<Rightarrow> (Inr (Inl r), w)
        | None \<Rightarrow>
            (case readOperationIntent (ow_intents (fw_pod w)) oid of
               Inl x \<Rightarrow> (Inl x, w)
             | Inr None \<Rightarrow> (Inr (Inr None), w)
             | Inr (Some i) \<Rightarrow>
                 (case it_body i of
                    IForget b \<Rightarrow>
                      if it_actor_id i \<noteq> actorId \<or> it_payload_hash i \<noteq> payloadHash then (conflict, w)
                      else
                        (case runRecovery (fe_others env) (fe_now_iso env) (fe_hs env)
                                \<lparr>rx_evidence = Some (ow_evidence (fw_pod w)), rx_claims = st_log (fw_store w), rx_wiki = None,
                                 rx_fenced = (fence \<noteq> None)\<rparr> ops (ow_intents (fw_pod w)) (ow_fence (fw_pod w)) of
                           (rep, ops', intents', f') \<Rightarrow>
                             (let w1 = w\<lparr>fw_pod := (fw_pod w)\<lparr>ow_ops := Some ops', ow_intents := intents', ow_fence := f'\<rparr>\<rparr> in
                              case rep of
                                Inl x \<Rightarrow> (Inl x, w1)
                              | Inr report \<Rightarrow>
                                  and_then (forget_committed env oid actorId payloadHash ops' w1)
                                    (\<lambda>recovered w2. case recovered of
                                       Some r \<Rightarrow> (Inr (Inl r), w2)
                                     | None \<Rightarrow>
                                         if oid \<in> set (rr_manual report) then (conflict, w2)
                                         else (case readAll (ow_evidence (fw_pod w2)) of
                                                 Inl x \<Rightarrow> (Inl x, w2)
                                               | Inr obs \<Rightarrow> (Inr (Inr (Some ((i, b), List.find (\<lambda>o1. ob_operation_id o1 = Some oid) obs))), w2)))))
                  | _ \<Rightarrow> (conflict, w))))"

section \<open>Preparing the change\<close>

definition forget_lane :: "forget_env \<Rightarrow> forget_params \<Rightarrow> forget_target \<times> string \<Rightarrow> bool \<Rightarrow> forget_world \<Rightarrow> string outcome" where
  "forget_lane env p target resumed w =
     (case fst target of
        TargetObservation \<Rightarrow>
          (case getEffectiveStatus (snd target) (ow_index (fw_pod w)) of
             None \<Rightarrow> Inl (ProtocolError ''not_found'' NoDetails)
           | Some s \<Rightarrow>
               if s \<in> TERMINAL_STATES \<and> \<not> resumed then Inl (ProtocolError ''terminal_state'' NoDetails)
               else Inr (or_else (map_option r_scope (lookup_by r_id (snd target) (l0_rows (ow_index (fw_pod w))))) POD_SELF_SCOPE))
      | TargetClaim \<Rightarrow>
          (case getClaim (snd target) (fw_store w) of
             None \<Rightarrow> Inl (ProtocolError ''claim_not_found'' NoDetails)
           | Some c \<Rightarrow>
               (case (case st_log (fw_store w) of None \<Rightarrow> Inr None | Some dir \<Rightarrow> readLatestVersion (fe_sha env) dir (snd target)) of
                  Inl x \<Rightarrow> Inl x
                | Inr canonical \<Rightarrow>
                    let author = first_some [map_option cv_author canonical, cl_author c] AAgent;
                        owner = first_some [Option.bind canonical cv_epistemic_owner, cl_epistemic_owner c] author
                    in if \<not> actor_is_user (fp_actor p) \<and> (author = AUser \<or> owner = AUser)
                       then Inl (ProtocolError ''protected_claim'' NoDetails)
                       else Inr (cl_scope c))))"

definition impacted_claims :: "store_env \<Rightarrow> forget_target \<times> string \<Rightarrow> claim_store \<Rightarrow> claim list" where
  "impacted_claims E target st =
     filter (\<lambda>c. cl_status c \<noteq> StRetracted
       \<and> (if fst target = TargetClaim then cl_id c = snd target
          else snd target \<in> set (cl_supporting_evidence c) \<or> cl_source_event_id c = snd target \<or> cl_extraction_event_id c = snd target))
       (getAllClaims E None st)"

definition planned_retracted :: "requested_mode \<Rightarrow> forget_target \<times> string \<Rightarrow> claim list \<Rightarrow> nat" where
  "planned_retracted mode target impacted =
     (if fst target = TargetClaim then (if mode = FmTombstone \<and> impacted \<noteq> [] then 1 else 0)
      else length (filter (\<lambda>c. filter (\<lambda>i. i \<noteq> snd target) (cl_supporting_evidence c) = []) impacted))"

definition planned_reduced :: "forget_target \<times> string \<Rightarrow> claim list \<Rightarrow> nat" where
  "planned_reduced target impacted =
     (if fst target = TargetObservation
      then length (filter (\<lambda>c. snd target \<in> set (cl_supporting_evidence c)
             \<and> filter (\<lambda>i. i \<noteq> snd target) (cl_supporting_evidence c) \<noteq> []) impacted)
      else 0)"

definition forget_event_type :: "requested_mode \<Rightarrow> obs_type" where
  "forget_event_type mode = (if mode = FmRedact then T_redaction else T_tombstone)"

definition mutation_observation ::
  "forget_env \<Rightarrow> smartware_config \<Rightarrow> forget_params \<Rightarrow> forget_target \<times> string \<Rightarrow> string \<Rightarrow> string \<Rightarrow> (op_intent \<times> forget_body) option
     \<Rightarrow> layer0_index \<Rightarrow> observation" where
  "mutation_observation env config p target scope now prior idx =
     (let seq = (case prior of Some (_, b) \<Rightarrow> au_sequence (fb_audit b) | None \<Rightarrow> getLastSequence idx + 1);
          prevHash = getLatestHashForWriter (writer_id config) idx;
          ty = forget_event_type (fp_mode p);
          obs = \<lparr>ob_id = (case prior of
                Some (_, b) \<Rightarrow> au_observation_id (fb_audit b)
              | None \<Rightarrow> ''obs_'' @ fe_audit_hash env \<lparr>fa_type = ty, fa_actor_id = ac_id (fp_actor p), fa_target = target, fa_mode = fp_mode p,
                  fa_operation_id = fp_operation_id p, fa_sequence = seq, fa_observed_at = now\<rparr>),
            ob_operation_id = Observe.truthy (fp_operation_id p),
            ob_actor_id = map_option (\<lambda>_. ac_id (fp_actor p)) (Observe.truthy (fp_operation_id p)),
            ob_type = ty, ob_status = OAccepted, ob_app = ''mcp-client'', ob_app_version = SMARTWARE_VERSION, ob_source_id = None,
            ob_source_ref = None, ob_actor = fp_actor p, ob_captured_at = now, ob_observed_at = now, ob_scope = scope, ob_visibility = VPrivate,
            ob_content = \<lparr>co_format = ''application/json'',
              co_body = JObj [(''target_id'', JStr (snd target)), (''target_kind'', JStr (target_name (fst target))),
                (''mode'', JStr (requested_mode_name (fp_mode p))), (''reason'', JStr (or_else (fp_reason p) [])),
                (''redaction_reason'', case fp_redaction_reason p of None \<Rightarrow> JNull | Some r \<Rightarrow> JStr r)]\<rparr>,
            ob_claims = None, ob_parent_ids = [snd target], ob_informed_by = [], ob_idempotency = None,
            ob_policy = \<lparr>po_retention = Forever, po_retention_duration = None, po_sensitive = False, po_pii_detected = False\<rparr>,
            ob_integrity = \<lparr>in_hash = [], in_writer_id = writer_id config, in_sequence = seq, in_previous_hash = prevHash\<rparr>\<rparr>
      in assignIntegrity (hs_obs (fe_hs env)) obs (writer_id config) seq prevHash)"

definition forgotten_of :: "forget_env \<Rightarrow> forget_params \<Rightarrow> string \<Rightarrow> claim_version \<Rightarrow> claim_version" where
  "forgotten_of env p now latest =
     carryDemotion
       (latest\<lparr>cv_version := cv_version latest + 1, cv_version_at := now,
         cv_operation_id := or_else (fp_operation_id p) (''op_'' @ fe_ulid env), cv_actor_id := ac_id (fp_actor p),
         cv_lineage := \<lparr>vl_supersedes = Some (cv_version latest), vl_superseded_by = None, vl_superseded_at = None,
           vl_superseded_by_user = False, vl_reinstated_by_user = False,
           vl_endorsement_source = vl_endorsement_source (cv_lineage latest), vl_revived_via = None\<rparr>,
         cv_body := ForgottenBody (''tomb_'' @ drop 6 (cv_claim_id latest)) now (ac_id (fp_actor p))\<rparr>) latest"

definition forgotten_version ::
  "forget_env \<Rightarrow> forget_params \<Rightarrow> forget_target \<times> string \<Rightarrow> string \<Rightarrow> claim_store \<Rightarrow> claim_version option outcome" where
  "forgotten_version env p target now st =
     (case (fst target, st_log st) of
        (TargetClaim, Some dir) \<Rightarrow>
          (case readLatestVersion (fe_sha env) dir (snd target) of
             Inl x \<Rightarrow> Inl x
           | Inr None \<Rightarrow> Inr None
           | Inr (Some latest) \<Rightarrow> Inr (if cv_state latest = CsActive then Some (forgotten_of env p now latest) else None))
      | _ \<Rightarrow> Inr None)"

definition forget_intent ::
  "forget_env \<Rightarrow> mutation_fence option \<Rightarrow> forget_params \<Rightarrow> string \<Rightarrow> string \<Rightarrow> forget_target \<times> string \<Rightarrow> string \<Rightarrow> observation
     \<Rightarrow> claim_version option \<Rightarrow> nat \<Rightarrow> nat \<Rightarrow> op_intent" where
  "forget_intent env fence p oid payloadHash target now audit version retracted reduced =
     \<lparr>it_operation_id = oid, it_actor_id = ac_id (fp_actor p), it_payload_hash = payloadHash, it_fence = Option.bind fence mf_stamp,
      it_prepared_at = now,
      it_body = IForget \<lparr>fb_audit = \<lparr>au_observation_id = ob_id audit, au_observation_hash = ob_hash audit, au_sequence = ob_sequence audit\<rparr>,
        fb_claim_version = map_option (\<lambda>v. \<lparr>xa_claim_id = cv_claim_id v, xa_version = cv_version v, xa_record_hash = hs_version (fe_hs env) v\<rparr>) version,
        fb_target_id = snd target, fb_target_kind = fst target, fb_mode = mode_of (fp_mode p), fb_claims_retracted = retracted,
        fb_claims_reduced = reduced, fb_audit_observation_id = ob_id audit, fb_details = (snd target, fst target, mode_of (fp_mode p))\<rparr>\<rparr>"

section \<open>Writing\<close>

definition write_audit :: "string \<Rightarrow> forget_target \<Rightarrow> observation \<Rightarrow> observe_world \<Rightarrow> observe_world" where
  "write_audit now kind audit pod =
     (let pod1 = store_observation now audit pod in
      if kind = TargetObservation then pod1\<lparr>ow_index := applyMutationEvent audit (ow_index pod1)\<rparr> else pod1)"

definition write_version :: "forget_env \<Rightarrow> claim_version option \<Rightarrow> claim_store \<Rightarrow> claim_store" where
  "write_version env version st =
     (case (version, st_log st) of
        (Some v, Some dir) \<Rightarrow> syncFromJsonlVersion (av_store (fe_adm env)) v None False (st\<lparr>st_log := Some (appendClaimVersion v dir)\<rparr>)
      | _ \<Rightarrow> st)"

definition forget_write ::
  "forget_env \<Rightarrow> forget_target \<times> string \<Rightarrow> bool \<Rightarrow> observation \<Rightarrow> claim_version option \<Rightarrow> forget_world \<Rightarrow> unit outcome \<times> forget_world" where
  "forget_write env target audited audit version w =
     (let pod = (if audited then fw_pod w else write_audit (fe_now_iso env) (fst target) audit (fw_pod w));
          (r, st) = replayCatchUp (fe_adm env) (fe_cfg env) (ow_evidence pod) (Some (ow_index pod)) None None (write_version env version (fw_store w))
      in (r, w\<lparr>fw_pod := pod, fw_store := st\<rparr>))"

definition forget_commit_entry :: "op_intent \<Rightarrow> forget_body \<Rightarrow> op_entry" where
  "forget_commit_entry i b =
     \<lparr>oe_operation_id = it_operation_id i, oe_actor_id = it_actor_id i, oe_timestamp = it_prepared_at i, oe_op = ''forget'',
      oe_details = Some ([(''payload_hash'', JStr (it_payload_hash i)), (''audit_observation_id'', JStr (fb_audit_observation_id b)),
          (''observation_hash'', JStr (au_observation_hash (fb_audit b)))]
        @ opt_detail ''claim_record_hash'' (map_option (\<lambda>a. JStr (xa_record_hash a)) (fb_claim_version b))
        @ [(''target_id'', JStr (fb_target_id b)), (''target_kind'', JStr (target_name (fb_target_kind b))), (''mode'', JStr (mode_name (fb_mode b))),
           (''claims_retracted'', JNum (int (fb_claims_retracted b))), (''claims_reduced'', JNum (int (fb_claims_reduced b)))])\<rparr>"

definition commit_forget ::
  "forget_env \<Rightarrow> mutation_fence option \<Rightarrow> op_intent \<Rightarrow> forget_body \<Rightarrow> ops_dir \<Rightarrow> forget_world \<Rightarrow> unit outcome \<times> forget_world" where
  "commit_forget env fence i b ops w =
     (let pod = fw_pod w in
      case appendCommittedOpLogEntries (fe_now_iso env) [forget_commit_entry i b] fence \<lparr>cw_ops = ops, cw_fence = ow_fence pod\<rparr> of
        (Inl x, cw) \<Rightarrow> (Inl x, w\<lparr>fw_pod := pod\<lparr>ow_ops := Some (cw_ops cw), ow_fence := cw_fence cw\<rparr>\<rparr>)
      | (Inr _, cw) \<Rightarrow> (Inr (), w\<lparr>fw_pod := pod\<lparr>ow_ops := Some (cw_ops cw), ow_fence := cw_fence cw,
            ow_intents := snd (removeOperationIntent (it_operation_id i) (ow_intents pod))\<rparr>\<rparr>))"

definition expected_of :: "forget_body \<Rightarrow> audit_artifact \<times> claim_artifact option" where
  "expected_of b = (fb_audit b, fb_claim_version b)"

definition forget_change ::
  "forget_env \<Rightarrow> smartware_config \<Rightarrow> mutation_fence option \<Rightarrow> forget_params \<Rightarrow> forget_target \<times> string \<Rightarrow> string \<Rightarrow> forget_prepared \<Rightarrow> forget_world
     \<Rightarrow> forget_result outcome \<times> forget_world" where
  "forget_change env config fence p target payloadHash prior w =
     (let existingIntent = map_option fst prior; existingAudit = Option.bind prior snd in
      case forget_lane env p target (existingIntent \<noteq> None) w of
        Inl x \<Rightarrow> (Inl x, w)
      | Inr scope \<Rightarrow>
          (case requireGrant (fe_now env) (ac_id (fp_actor p)) OpForget scope config of
             Inl x \<Rightarrow> (Inl x, w)
           | Inr _ \<Rightarrow>
               (let impacted = impacted_claims (av_store (fe_adm env)) target (fw_store w);
                    retracted = (case existingIntent of Some (_, b) \<Rightarrow> fb_claims_retracted b | None \<Rightarrow> planned_retracted (fp_mode p) target impacted);
                    reduced = (case existingIntent of Some (_, b) \<Rightarrow> fb_claims_reduced b | None \<Rightarrow> planned_reduced target impacted);
                    now = (case existingIntent of Some (i, _) \<Rightarrow> it_prepared_at i | None \<Rightarrow> fe_now_iso env);
                    audit = or_else existingAudit (mutation_observation env config p target scope now existingIntent (ow_index (fw_pod w)));
                    result = \<lparr>fr_target_id = snd target, fr_target_kind = fst target, fr_mode = mode_of (fp_mode p), fr_claims_retracted = int retracted,
                      fr_claims_reduced = int reduced, fr_audit_observation_id = ob_id audit\<rparr>
                in case forgotten_version env p target now (fw_store w) of
                  Inl x \<Rightarrow> (Inl x, w)
                | Inr version \<Rightarrow>
                    (case (Observe.truthy (fp_operation_id p), ow_ops (fw_pod w)) of
                       (Some oid, Some ops) \<Rightarrow>
                         (let i = forget_intent env fence p oid payloadHash target now audit version retracted reduced in
                          case it_body i of
                            IForget b \<Rightarrow>
                              if existingIntent \<noteq> None \<and> expected_of (snd (the existingIntent)) \<noteq> expected_of b then (conflict, w)
                              else
                                (case persistOperationIntent i True (ow_intents (fw_pod w)) of
                                   (Inl x, ints) \<Rightarrow> (Inl x, w\<lparr>fw_pod := (fw_pod w)\<lparr>ow_intents := ints\<rparr>\<rparr>)
                                 | (Inr _, ints) \<Rightarrow>
                                     and_then (forget_write env target (existingAudit \<noteq> None) audit version
                                                 (w\<lparr>fw_pod := (fw_pod w)\<lparr>ow_intents := ints\<rparr>\<rparr>))
                                       (\<lambda>_ w1. and_then (commit_forget env fence i b ops w1) (\<lambda>_ w2. (Inr result, w2))))
                          | _ \<Rightarrow> (conflict, w))
                     | _ \<Rightarrow> and_then (forget_write env target (existingAudit \<noteq> None) audit version w) (\<lambda>_ w1. (Inr result, w1))))))"

definition handleForget ::
  "forget_env \<Rightarrow> smartware_config \<Rightarrow> mutation_fence option \<Rightarrow> forget_params \<Rightarrow> forget_world \<Rightarrow> forget_result outcome \<times> forget_world" where
  "handleForget env config fence p w =
     (case normaliseTarget p of
        Inl x \<Rightarrow> (Inl x, w)
      | Inr target \<Rightarrow>
          if fp_mode p = FmDeleteObject then (Inl (ProtocolError ''invalid_mode'' NoDetails), w)
          else
            (let payloadHash = fe_hash env (forgetPayload p target) in
             case Observe.truthy (fp_operation_id p) of
               None \<Rightarrow> forget_change env config fence p target payloadHash None w
             | Some oid \<Rightarrow>
                 if \<not> isValidOperationId oid then (Inl (ProtocolError ''invalid_parameter'' NoDetails), w)
                 else case ow_ops (fw_pod w) of
                   None \<Rightarrow> (Inl (ProtocolError ''invalid_parameter'' NoDetails), w)
                 | Some ops \<Rightarrow>
                     and_then (forget_replay_stage env fence oid (ac_id (fp_actor p)) payloadHash ops w)
                       (\<lambda>r w1. case r of Inl res \<Rightarrow> (Inr res, w1)
                          | Inr prior \<Rightarrow> forget_change env config fence p target payloadHash prior w1)))"

section \<open>Reviving\<close>

text \<open>The data directory of a REVIVE is the one of the store; the relations are checked when the handler is given the database.\<close>

record revive_params =
  vp_actor :: actor
  vp_tombstone_id :: string
  vp_reason :: string
  vp_operation_id :: string

record revive_payload =
  vy_actor_id :: string
  vy_tombstone_id :: string
  vy_reason :: string

record revive_result =
  vr_claim_id :: string
  vr_new_version :: int
  vr_operation_id :: string
  vr_invalidated_edges :: "string list"

definition revivePayload :: "revive_params \<Rightarrow> revive_payload" where
  "revivePayload p = \<lparr>vy_actor_id = ac_id (vp_actor p), vy_tombstone_id = vp_tombstone_id p, vy_reason = vp_reason p\<rparr>"

definition claims_of :: "forget_world \<Rightarrow> claims_dir" where
  "claims_of w = or_else (st_log (fw_store w)) []"

definition json_texts :: "json list \<Rightarrow> string list option" where
  "json_texts js = (if list_all (\<lambda>j. case j of JStr _ \<Rightarrow> True | _ \<Rightarrow> False) js
     then Some (map (\<lambda>j. case j of JStr t \<Rightarrow> t | _ \<Rightarrow> []) js) else None)"

definition revive_result_of :: "string \<Rightarrow> op_entry \<Rightarrow> (revive_result \<times> string) option" where
  "revive_result_of oid e =
     (case (entry_detail e ''claim_id'', entry_detail e ''new_version'', entry_detail e ''invalidated_edges'', entry_detail e ''record_hash'') of
        (Some (JStr claimId), Some (JNum n), Some (JArr edges), Some (JStr recordHash)) \<Rightarrow>
          map_option (\<lambda>es. (\<lparr>vr_claim_id = claimId, vr_new_version = n, vr_operation_id = oid, vr_invalidated_edges = es\<rparr>, recordHash)) (json_texts edges)
      | _ \<Rightarrow> None)"

definition revive_committed ::
  "forget_env \<Rightarrow> string \<Rightarrow> string \<Rightarrow> string \<Rightarrow> ops_dir \<Rightarrow> forget_world \<Rightarrow> revive_result option outcome \<times> forget_world" where
  "revive_committed env oid actorId payloadHash ops w =
     (case readAllOpLogEntries ops of
        Inl x \<Rightarrow> (Inl x, w)
      | Inr all \<Rightarrow>
          (let entries = filter (\<lambda>e. oe_operation_id e = oid) all in
           if entries = [] then (Inr None, w)
           else case List.find (\<lambda>e. oe_op e = ''revive'' \<and> oe_actor_id e = actorId
                       \<and> entry_detail e ''payload_hash'' = Some (JStr payloadHash)) entries of
             None \<Rightarrow> (conflict, w)
           | Some e \<Rightarrow>
               (case revive_result_of oid e of
                  None \<Rightarrow> (conflict, w)
                | Some (res, recordHash) \<Rightarrow>
                    (case readClaimHistory (fe_sha env) (claims_of w) (vr_claim_id res) of
                       Inl x \<Rightarrow> (Inl x, w)
                     | Inr history \<Rightarrow>
                         (case filter (\<lambda>v. cv_operation_id v = oid) history of
                            [v] \<Rightarrow> if cv_version v \<noteq> vr_new_version res \<or> hs_version (fe_hs env) v \<noteq> recordHash then (conflict, w)
                                   else (Inr (Some res), w\<lparr>fw_store := syncFromJsonlVersion (av_store (fe_adm env)) v None False (fw_store w)\<rparr>)
                          | _ \<Rightarrow> (conflict, w))))))"

definition revive_replay_stage ::
  "forget_env \<Rightarrow> mutation_fence option \<Rightarrow> string \<Rightarrow> string \<Rightarrow> string \<Rightarrow> ops_dir \<Rightarrow> forget_world
     \<Rightarrow> (revive_result + (op_intent \<times> revive_body) option) outcome \<times> forget_world" where
  "revive_replay_stage env fence oid actorId payloadHash ops w0 =
     and_then (revive_committed env oid actorId payloadHash ops w0)
       (\<lambda>done_before w. case done_before of
          Some r \<Rightarrow> (Inr (Inl r), w)
        | None \<Rightarrow>
            (case readOperationIntent (ow_intents (fw_pod w)) oid of
               Inl x \<Rightarrow> (Inl x, w)
             | Inr None \<Rightarrow> (Inr (Inr None), w)
             | Inr (Some i) \<Rightarrow>
                 (case it_body i of
                    IRevive b \<Rightarrow>
                      if it_actor_id i \<noteq> actorId \<or> it_payload_hash i \<noteq> payloadHash then (conflict, w)
                      else
                        (case runRecovery (fe_others env) (fe_now_iso env) (fe_hs env)
                                \<lparr>rx_evidence = None, rx_claims = Some (claims_of w), rx_wiki = None, rx_fenced = (fence \<noteq> None)\<rparr>
                                ops (ow_intents (fw_pod w)) (ow_fence (fw_pod w)) of
                           (rep, ops', intents', f') \<Rightarrow>
                             (let w1 = w\<lparr>fw_pod := (fw_pod w)\<lparr>ow_ops := Some ops', ow_intents := intents', ow_fence := f'\<rparr>\<rparr> in
                              case rep of
                                Inl x \<Rightarrow> (Inl x, w1)
                              | Inr report \<Rightarrow>
                                  and_then (revive_committed env oid actorId payloadHash ops' w1)
                                    (\<lambda>recovered w2. case recovered of
                                       Some r \<Rightarrow> (Inr (Inl r), w2)
                                     | None \<Rightarrow> if oid \<in> set (rr_manual report) then (conflict, w2) else (Inr (Inr (Some (i, b))), w2))))
                  | _ \<Rightarrow> (conflict, w))))"

definition revived_claim_id :: "string \<Rightarrow> string" where
  "revived_claim_id t = (if starts_with t ''tomb_'' then ''claim_'' @ drop 5 t else t)"

definition revived_of :: "revive_params \<Rightarrow> string \<Rightarrow> claim_relation list \<Rightarrow> claim_version \<Rightarrow> claim_version \<Rightarrow> claim_version" where
  "revived_of p now relations latest lastActive =
     carryDemotion
       (lastActive\<lparr>cv_claim_id := revived_claim_id (vp_tombstone_id p), cv_version := cv_version latest + 1, cv_relations := relations,
         cv_version_at := now, cv_operation_id := vp_operation_id p, cv_actor_id := ac_id (vp_actor p),
         cv_lineage := \<lparr>vl_supersedes = Some (cv_version latest), vl_superseded_by = None, vl_superseded_at = None,
           vl_superseded_by_user = False, vl_reinstated_by_user = False,
           vl_endorsement_source = vl_endorsement_source (cv_lineage lastActive), vl_revived_via = Some (vp_tombstone_id p)\<rparr>\<rparr>) lastActive"

definition revive_intent ::
  "forget_env \<Rightarrow> mutation_fence option \<Rightarrow> revive_params \<Rightarrow> string \<Rightarrow> string \<Rightarrow> claim_version \<Rightarrow> string list \<Rightarrow> op_intent \<times> revive_body" where
  "revive_intent env fence p payloadHash now v edges =
     (let b = \<lparr>vi_artifact = \<lparr>xa_claim_id = cv_claim_id v, xa_version = cv_version v, xa_record_hash = hs_version (fe_hs env) v\<rparr>,
            vi_result_claim_id = cv_claim_id v, vi_result_version = cv_version v, vi_result_operation_id = vp_operation_id p,
            vi_invalidated_edges = edges, vi_details_claim_id = cv_claim_id v, vi_tombstone_id = vp_tombstone_id p\<rparr>
      in (\<lparr>it_operation_id = vp_operation_id p, it_actor_id = ac_id (vp_actor p), it_payload_hash = payloadHash,
           it_fence = Option.bind fence mf_stamp, it_prepared_at = now, it_body = IRevive b\<rparr>, b))"

definition revive_commit_entry :: "op_intent \<Rightarrow> revive_body \<Rightarrow> op_entry" where
  "revive_commit_entry i b =
     \<lparr>oe_operation_id = it_operation_id i, oe_actor_id = it_actor_id i, oe_timestamp = it_prepared_at i, oe_op = ''revive'',
      oe_details = Some [(''payload_hash'', JStr (it_payload_hash i)), (''claim_id'', JStr (vi_result_claim_id b)),
        (''new_version'', JNum (vi_result_version b)), (''tombstone_id'', JStr (vi_tombstone_id b)),
        (''invalidated_edges'', JArr (map JStr (vi_invalidated_edges b))), (''record_hash'', JStr (xa_record_hash (vi_artifact b)))]\<rparr>"

definition append_version :: "claim_version \<Rightarrow> forget_world \<Rightarrow> forget_world" where
  "append_version v w = w\<lparr>fw_store := (fw_store w)\<lparr>st_log := Some (appendClaimVersion v (claims_of w))\<rparr>\<rparr>"

definition commit_revive ::
  "forget_env \<Rightarrow> mutation_fence option \<Rightarrow> revive_params \<Rightarrow> string \<Rightarrow> (op_intent \<times> revive_body) option \<Rightarrow> string \<Rightarrow> claim_version \<Rightarrow> string list
     \<Rightarrow> ops_dir \<Rightarrow> forget_world \<Rightarrow> unit outcome \<times> forget_world" where
  "commit_revive env fence p payloadHash existing now v edges ops w =
     (let (i, b) = revive_intent env fence p payloadHash now v edges in
      if existing \<noteq> None \<and> xa_record_hash (vi_artifact (snd (the existing))) \<noteq> hs_version (fe_hs env) v then (conflict, w)
      else
        (case persistOperationIntent i True (ow_intents (fw_pod w)) of
           (Inl x, ints) \<Rightarrow> (Inl x, w\<lparr>fw_pod := (fw_pod w)\<lparr>ow_intents := ints\<rparr>\<rparr>)
         | (Inr _, ints) \<Rightarrow>
             (let w1 = append_version v (w\<lparr>fw_pod := (fw_pod w)\<lparr>ow_intents := ints\<rparr>\<rparr>); pod = fw_pod w1 in
              case appendCommittedOpLogEntries (fe_now_iso env) [revive_commit_entry i b] fence \<lparr>cw_ops = ops, cw_fence = ow_fence pod\<rparr> of
                (Inl x, cw) \<Rightarrow> (Inl x, w1\<lparr>fw_pod := pod\<lparr>ow_ops := Some (cw_ops cw), ow_fence := cw_fence cw\<rparr>\<rparr>)
              | (Inr _, cw) \<Rightarrow> (Inr (), w1\<lparr>fw_pod := pod\<lparr>ow_ops := Some (cw_ops cw), ow_fence := cw_fence cw,
                    ow_intents := snd (removeOperationIntent (vp_operation_id p) (ow_intents pod))\<rparr>\<rparr>))))"

definition revive_change ::
  "forget_env \<Rightarrow> mutation_fence option \<Rightarrow> bool \<Rightarrow> revive_params \<Rightarrow> string \<Rightarrow> (op_intent \<times> revive_body) option \<Rightarrow> forget_world
     \<Rightarrow> revive_result outcome \<times> forget_world" where
  "revive_change env fence withDb p payloadHash existing w =
     (let claimId = revived_claim_id (vp_tombstone_id p) in
      case readClaimHistory (fe_sha env) (claims_of w) claimId of
        Inl x \<Rightarrow> (Inl x, w)
      | Inr history \<Rightarrow>
          if history = [] then (Inl (ProtocolError ''claim_not_found'' NoDetails), w)
          else if cv_state (last history) \<noteq> CsForgotten then (Inl (ProtocolError ''not_forgotten'' NoDetails), w)
          else case List.find (\<lambda>v. cv_state v = CsActive) (rev history) of
            None \<Rightarrow> (Inl (ProtocolError ''no_active_snapshot'' NoDetails), w)
          | Some lastActive \<Rightarrow>
              (let latest = last history;
                   now = (case existing of Some (i, _) \<Rightarrow> it_prepared_at i | None \<Rightarrow> fe_now_iso env);
                   edges = (if withDb then rv_invalidated (revalidateOnRevive claimId (claim_db_of (fw_store w))) else []);
                   relations = map (\<lambda>r. if cr_relation_id r \<in> set edges then r\<lparr>cr_invalid_at := Some now\<rparr> else r) (cv_relations lastActive);
                   v = revived_of p now relations latest lastActive
               in and_then
                    (case ow_ops (fw_pod w) of
                       Some ops \<Rightarrow> commit_revive env fence p payloadHash existing now v edges ops w
                     | None \<Rightarrow> (Inr (), append_version v w))
                    (\<lambda>_ w1. (Inr \<lparr>vr_claim_id = claimId, vr_new_version = cv_version latest + 1, vr_operation_id = vp_operation_id p,
                               vr_invalidated_edges = edges\<rparr>,
                             w1\<lparr>fw_store := syncFromJsonlVersion (av_store (fe_adm env)) v None False (fw_store w1)\<rparr>))))"

definition handleRevive ::
  "forget_env \<Rightarrow> smartware_config \<Rightarrow> mutation_fence option \<Rightarrow> (revive_payload \<Rightarrow> string) \<Rightarrow> bool \<Rightarrow> revive_params \<Rightarrow> forget_world
     \<Rightarrow> revive_result outcome \<times> forget_world" where
  "handleRevive env config fence hash withDb p w =
     (if \<not> actor_is_user (vp_actor p) then (Inl (ProtocolError ''user_required'' NoDetails), w)
      else case requireRegisteredActor (fe_now env) (ac_id (vp_actor p)) config of
        Inl x \<Rightarrow> (Inl x, w)
      | Inr _ \<Rightarrow>
          if \<not> isValidOperationId (vp_operation_id p) then (Inl (ProtocolError ''invalid_parameter'' NoDetails), w)
          else
            (let payloadHash = hash (revivePayload p) in
             case ow_ops (fw_pod w) of
               None \<Rightarrow> revive_change env fence withDb p payloadHash None w
             | Some ops \<Rightarrow>
                 and_then (revive_replay_stage env fence (vp_operation_id p) (ac_id (vp_actor p)) payloadHash ops w)
                   (\<lambda>r w1. case r of Inl res \<Rightarrow> (Inr res, w1)
                      | Inr existing \<Rightarrow> revive_change env fence withDb p payloadHash existing w1)))"


section \<open>Lemmas\<close>

lemma backfill_more [simp]:
  "cv_operation_id (backfillClaimVersion sha v) = cv_operation_id v" "cv_state (backfillClaimVersion sha v) = cv_state v"
  by (simp_all add: backfillClaimVersion_def cv_state_def Let_def)

lemma backfilled: "cv_epistemic_owner v \<noteq> None \<Longrightarrow> cv_fingerprint v \<noteq> None \<Longrightarrow> backfillClaimVersion sha v = v"
  by (simp add: backfillClaimVersion_def Let_def)

lemma backfilled_read:
  assumes "iterAllClaimVersions sha dir = Inr vs" and "v \<in> set vs"
  shows "cv_epistemic_owner v \<noteq> None" "cv_fingerprint v \<noteq> None"
  using assms by (auto simp: iterAllClaimVersions_def backfillClaimVersion_def Let_def split: sum.splits)

lemma carry_simps [simp]:
  "cv_claim_id (carryDemotion n v) = cv_claim_id n" "cv_version (carryDemotion n v) = cv_version n" "cv_body (carryDemotion n v) = cv_body n"
  "cv_operation_id (carryDemotion n v) = cv_operation_id n" "cv_epistemic_owner (carryDemotion n v) = cv_epistemic_owner n"
  "cv_fingerprint (carryDemotion n v) = cv_fingerprint n" "cv_state (carryDemotion n v) = cv_state n" "cv_scope (carryDemotion n v) = cv_scope n"
  "cv_relations (carryDemotion n v) = cv_relations n" "cv_derived_from (carryDemotion n v) = cv_derived_from n"
  "cv_author (carryDemotion n v) = cv_author n" "cv_version_at (carryDemotion n v) = cv_version_at n"
  by (simp_all add: carryDemotion_def cv_state_def split: option.split)

lemma forgotten_simps [simp]:
  "cv_claim_id (forgotten_of env p now v) = cv_claim_id v" "cv_version (forgotten_of env p now v) = cv_version v + 1"
  "cv_state (forgotten_of env p now v) = CsForgotten" "cv_epistemic_owner (forgotten_of env p now v) = cv_epistemic_owner v"
  "cv_fingerprint (forgotten_of env p now v) = cv_fingerprint v" "cv_scope (forgotten_of env p now v) = cv_scope v"
  "cv_operation_id (forgotten_of env p now v) = or_else (fp_operation_id p) (''op_'' @ fe_ulid env)"
  by (simp_all add: forgotten_of_def cv_state_def)

section \<open>Catching up on the audit record\<close>

text \<open>The pod has replayed its evidence log to the end.\<close>

definition caught_up :: "forget_world \<Rightarrow> bool" where
  "caught_up w = (distinct (map fst (ow_evidence (fw_pod w)))
     \<and> (\<exists>es. readAll (ow_evidence (fw_pod w)) = Inr es \<and> (\<forall>e \<in> set es. ob_sequence e \<le> st_last_replayed (fw_store w)))
     \<and> st_last_replayed (fw_store w) \<le> getLastSequence (ow_index (fw_pod w)))"

lemma catch_up_single:
  assumes "mset es' = add_mset e (mset es)" and "\<forall>x \<in> set es. ob_sequence x \<le> l" and "l < ob_sequence e"
  shows "catch_up_events f l es' l s = and_then (f e s) (\<lambda>_ s1. (Inr (ob_sequence e), s1))"
proof -
  have "e \<in> set es'" using assms(1) by (metis set_mset_mset union_single_eq_member)
  then obtain xs ys where split: "es' = xs @ e # ys" by (metis split_list)
  then have rest: "mset (xs @ ys) = mset es" using assms(1) by simp
  then have "\<forall>x \<in> set (xs @ ys). ob_sequence x \<le> l" using assms(2) by (metis set_mset_mset)
  then have xs: "\<forall>x \<in> set xs. ob_sequence x \<le> l" and ys: "\<forall>x \<in> set ys. ob_sequence x \<le> l" by auto
  have "catch_up_events f l ys n s1 = (Inr n, s1)" for n s1 using catch_up_seen [OF ys, of f "[]"] by simp
  then show ?thesis using assms(3) by (auto simp: split catch_up_seen [OF xs] intro!: and_then_cong)
qed

lemma audit_facts [simp]:
  "ob_sequence (mutation_observation env config p target scope now None idx) = getLastSequence idx + 1"
  "ob_type (mutation_observation env config p target scope now prior idx) = forget_event_type (fp_mode p)"
  "ob_operation_id (mutation_observation env config p target scope now prior idx) = Observe.truthy (fp_operation_id p)"
  "ob_captured_at (mutation_observation env config p target scope now prior idx) = now"
  "body_get (co_body (ob_content (mutation_observation env config p target scope now prior idx))) ''target_id'' = Some (JStr (snd target))"
  "body_get (co_body (ob_content (mutation_observation env config p target scope now prior idx))) ''target_kind'' = Some (JStr (target_name (fst target)))"
  "body_get (co_body (ob_content (mutation_observation env config p target scope now prior idx))) ''scope'' = None"
  "ob_hash (mutation_observation env config p target scope now prior idx) =
     computeHash (hs_obs (fe_hs env)) (mutation_observation env config p target scope now prior idx)"
  by (simp_all add: mutation_observation_def Let_def assignIntegrity_def computeHash_def without_hash_def body_get_def)

lemma write_audit_simps [simp]:
  "ow_evidence (write_audit now k audit pod) = appendObservation now audit (ow_evidence pod)" "ow_ops (write_audit now k audit pod) = ow_ops pod"
  "ow_intents (write_audit now k audit pod) = ow_intents pod" "ow_fence (write_audit now k audit pod) = ow_fence pod"
  by (simp_all add: write_audit_def store_observation_def Let_def)

lemma write_version_mark [simp]: "st_last_replayed (write_version env v st) = st_last_replayed st"
  by (simp add: write_version_def syncFromJsonlVersion_def claimVersionVals_def refresh_edges_eq Let_def split: option.split prod.split)

lemma forget_write_run:
  assumes "caught_up w" and "audit = mutation_observation env config p target scope now None (ow_index (fw_pod w))"
    and "pod = write_audit (fe_now_iso env) (fst target) audit (fw_pod w)"
  shows "forget_write env target False audit version w =
    (case processEvent (fe_adm env) (fe_cfg env) (Some (ow_index pod)) None audit (write_version env version (fw_store w)) of
       (r, st) \<Rightarrow> (r, w\<lparr>fw_pod := pod, fw_store := if r = Inr () then setLastReplayedSequence (ob_sequence audit) st else st\<rparr>))"
proof -
  let ?l = "st_last_replayed (fw_store w)" and ?s = "write_version env version (fw_store w)"
    and ?f = "processEvent (fe_adm env) (fe_cfg env) (Some (ow_index pod)) None"
  obtain es where es: "distinct (map fst (ow_evidence (fw_pod w)))" "readAll (ow_evidence (fw_pod w)) = Inr es" "\<forall>e \<in> set es. ob_sequence e \<le> ?l"
    and later: "?l < ob_sequence audit"
    using assms(1,2) by (auto simp: caught_up_def)
  obtain es' where es': "readAll (appendObservation (fe_now_iso env) audit (ow_evidence (fw_pod w))) = Inr es'" "mset es' = add_mset audit (mset es)"
    using read_all_append_one [OF es(1), of es] es(2) by (auto simp: readAll_def appendObservation_def appendObservationAt_def)
  have "catch_up_events ?f ?l es' ?l ?s = and_then (?f audit ?s) (\<lambda>_ s1. (Inr (ob_sequence audit), s1))"
    by (rule catch_up_single [OF es'(2) es(3) later])
  then have "replayCatchUp (fe_adm env) (fe_cfg env) (ow_evidence pod) (Some (ow_index pod)) None None ?s =
      and_then (?f audit ?s) (\<lambda>_ s1. (Inr (), setLastReplayedSequence (ob_sequence audit) s1))"
    using later by (simp add: replayCatchUp_def assms(3) es'(1) and_then_assoc Let_def)
  then show ?thesis
    by (cases "?f audit ?s"; cases "fst (?f audit ?s)") (simp_all add: forget_write_def assms(3) Let_def)
qed

section \<open>The claim log\<close>

definition log_ready :: "forget_env \<Rightarrow> claim_store \<Rightarrow> claims_dir \<Rightarrow> claim_version list \<Rightarrow> bool" where
  "log_ready env st dir vs = (st_log st = Some dir \<and> distinct (map fst dir) \<and> iterAllClaimVersions (fe_sha env) dir = Inr vs \<and> distinct (map version_key vs))"

lemma log_ready_cong: "st_log st' = st_log st \<Longrightarrow> log_ready env st' = log_ready env st"
  by (simp add: log_ready_def fun_eq_iff)

lemma log_latest: "log_ready env st dir vs \<Longrightarrow> readLatestVersion (fe_sha env) dir i = Inr (latest_of vs i)"
  by (simp add: log_ready_def readLatestVersion_def)

lemma distinct_days_append: "distinct (map fst dir) \<Longrightarrow> distinct (map fst (appendClaimVersion v dir))"
  by (simp add: appendClaimVersion_eq)

lemma log_append:
  assumes "log_ready env st dir vs" and "latest_of vs (cv_claim_id v) = Some l" and "cv_version v = cv_version l + 1"
    and "cv_epistemic_owner v \<noteq> None" and "cv_fingerprint v \<noteq> None" and "st_log st' = Some (appendClaimVersion v dir)"
  shows "\<exists>ws. log_ready env st' (appendClaimVersion v dir) ws \<and> set ws = insert v (set vs)
    \<and> (\<forall>c. latest_of ws c = (if c = cv_claim_id v then Some v else latest_of vs c))"
proof -
  have "nextVersion (fe_sha env) dir (cv_claim_id v) = Inr (cv_version v)"
    using log_latest [OF assms(1)] assms(2,3) by (simp add: nextVersion_def)
  then show ?thesis
    using append_next [of dir "fe_sha env" vs v] assms(1,6) distinct_days_append [of dir v] backfilled [OF assms(4,5), of "fe_sha env"]
    by (auto simp: log_ready_def)
qed

lemma history_sorted:
  assumes "log_ready env st dir vs"
  obtains h where "readClaimHistory (fe_sha env) dir i = Inr h" "set h = {v \<in> set vs. cv_claim_id v = i}"
    "sorted_wrt (\<lambda>a b. cv_version a < cv_version b) h"
proof -
  let ?f = "filter (\<lambda>v. cv_claim_id v = i) vs" and ?h = "sort_key cv_version (filter (\<lambda>v. cv_claim_id v = i) vs)"
  have "distinct vs" "inj_on version_key (set vs)" using assms by (simp_all add: log_ready_def distinct_map)
  then have "distinct (map cv_version ?f)" by (auto simp: distinct_map inj_on_def version_key_def)
  moreover have "mset (map cv_version ?h) = mset (map cv_version ?f)" by simp
  ultimately have "distinct (map cv_version ?h)" using mset_eq_imp_distinct_iff by blast
  moreover have "sorted (map cv_version ?h)" by (rule sorted_sort_key)
  ultimately have "sorted_wrt (<) (map cv_version ?h)" by (simp add: strict_sorted_iff del: sorted_map)
  then have "sorted_wrt (\<lambda>a b. cv_version a < cv_version b) ?h" by (simp add: sorted_wrt_map)
  moreover have "readClaimHistory (fe_sha env) dir i = Inr ?h" using assms by (simp add: log_ready_def readClaimHistory_def)
  ultimately show thesis by (intro that) auto
qed

lemma last_greatest:
  assumes "sorted_wrt (\<lambda>a b. f a < (f b :: int)) h" and "x \<in> set h" and "\<forall>y \<in> set h. f y \<le> f x"
  shows "last h = x"
proof -
  obtain xs ys where h: "h = xs @ x # ys" using assms(2) by (metis split_list)
  then have "ys = []" using assms(1,3) by (cases ys) (auto simp: sorted_wrt_append)
  then show ?thesis by (simp add: h)
qed

lemma find_skip: "\<forall>y \<in> set xs. \<not> P y \<Longrightarrow> List.find P (xs @ ys) = List.find P ys"
  by (induction xs) auto

lemma find_last:
  assumes "sorted_wrt (\<lambda>a b. f a < (f b :: int)) h" and "x \<in> set h" and "P x" and "\<And>y. y \<in> set h \<Longrightarrow> f x < f y \<Longrightarrow> \<not> P y"
  shows "List.find P (rev h) = Some x"
proof -
  obtain xs ys where h: "h = xs @ x # ys" using assms(2) by (metis split_list)
  then have "\<forall>y \<in> set ys. \<not> P y" using assms(1,4) by (auto simp: sorted_wrt_append)
  then show ?thesis using assms(3) by (simp add: h find_skip)
qed

lemma synced:
  assumes "st_claims sa = st_claims st"
  shows "\<exists>e. getClaim (cv_claim_id v) (syncFromJsonlVersion E v None False sa) = Some (rowToClaim (version_row v None (getClaim (cv_claim_id v) st) e))"
    "k \<noteq> cv_claim_id v \<Longrightarrow> getClaim k (syncFromJsonlVersion E v None False sa) = getClaim k st"
    "st_log (syncFromJsonlVersion E v None False sa) = st_log sa"
proof -
  obtain e where e: "st_claims (syncFromJsonlVersion E v None False sa) = ins_replace cl_id (version_row v None (getClaim (cv_claim_id v) sa) e) (st_claims sa)"
    "st_log (syncFromJsonlVersion E v None False sa) = st_log sa" by (rule sync_claims)
  have "getClaim k sa = getClaim k st" for k using assms by (simp add: getClaim_def)
  then show "\<exists>e. getClaim (cv_claim_id v) (syncFromJsonlVersion E v None False sa) = Some (rowToClaim (version_row v None (getClaim (cv_claim_id v) st) e))"
    "k \<noteq> cv_claim_id v \<Longrightarrow> getClaim k (syncFromJsonlVersion E v None False sa) = getClaim k st"
    "st_log (syncFromJsonlVersion E v None False sa) = st_log sa"
    using e assms by (auto simp: getClaim_def sql)
qed

lemma version_row_status [simp]:
  "cl_status (version_row v h ex e) = version_status v" "cl_operation_id (version_row v h ex e) = Some (cv_operation_id v)"
  by (simp_all add: version_row_def Let_def)

lemma forgotten_status [simp]: "cv_state v = CsForgotten \<Longrightarrow> version_status v = StRetracted"
  by (simp add: version_status_def)

text \<open>The whole effect of writing a forgotten version and replaying its tombstone.\<close>

lemma forget_claim_write:
  assumes "caught_up w" and "log_ready env (fw_store w) dir vs" and "latest_of vs i = Some v" and "fp_mode p \<noteq> FmRedact" and "i \<noteq> []"
    and "audit = mutation_observation env config p (TargetClaim, i) scope now None (ow_index (fw_pod w))" and "fv = forgotten_of env p now v"
  shows "\<exists>w1 ws. forget_write env (TargetClaim, i) False audit (Some fv) w = (Inr (), w1)
    \<and> ow_evidence (fw_pod w1) = appendObservation (fe_now_iso env) audit (ow_evidence (fw_pod w))
    \<and> ow_ops (fw_pod w1) = ow_ops (fw_pod w) \<and> ow_intents (fw_pod w1) = ow_intents (fw_pod w)
    \<and> log_ready env (fw_store w1) (appendClaimVersion fv dir) ws \<and> set ws = insert fv (set vs)
    \<and> (\<forall>c. latest_of ws c = (if c = i then Some fv else latest_of vs c))
    \<and> (\<exists>e. getClaim i (fw_store w1) = Some (rowToClaim (version_row fv None (getClaim i (fw_store w)) e)))
    \<and> (\<forall>k. k \<noteq> i \<longrightarrow> getClaim k (fw_store w1) = getClaim k (fw_store w))"
proof -
  let ?E = "av_store (fe_adm env)" and ?pod = "write_audit (fe_now_iso env) TargetClaim audit (fw_pod w)"
  have v: "cv_claim_id v = i" "v \<in> set vs" using latest_of_greatest [OF assms(3)] by auto
  have dir: "st_log (fw_store w) = Some dir" "iterAllClaimVersions (fe_sha env) dir = Inr vs" using assms(2) by (simp_all add: log_ready_def)
  let ?st = "write_version env (Some fv) (fw_store w)"
  have st: "?st = syncFromJsonlVersion ?E fv None False ((fw_store w)\<lparr>st_log := Some (appendClaimVersion fv dir)\<rparr>)"
    by (simp add: write_version_def dir(1))
  have fv: "cv_claim_id fv = i" "cv_state fv = CsForgotten" using assms(7) v(1) by simp_all
  note sync = synced [where sa = "(fw_store w)\<lparr>st_log := Some (appendClaimVersion fv dir)\<rparr>" and st = "fw_store w" and v = fv and E = ?E, folded st, unfolded fv(1)]
  obtain e where e: "getClaim i ?st = Some (rowToClaim (version_row fv None (getClaim i (fw_store w)) e))" using sync(1) by auto
  then have retracted: "map_option cl_status (getClaim i ?st) = Some StRetracted" using fv(2) by simp
  have "processEvent (fe_adm env) (fe_cfg env) (Some (ow_index ?pod)) None audit ?st = (Inr (), ?st)"
    using assms(4-6) retracted
    by (cases "fp_mode p") (auto simp: processEvent_def handleRetraction_def forget_event_type_def body_string_def target_name_def Let_def)
  then have run: "forget_write env (TargetClaim, i) False audit (Some fv) w =
      (Inr (), w\<lparr>fw_pod := ?pod, fw_store := setLastReplayedSequence (ob_sequence audit) ?st\<rparr>)"
    using forget_write_run [OF assms(1,6) refl, of "Some fv"] by simp
  have "\<exists>ws. log_ready env (setLastReplayedSequence (ob_sequence audit) ?st) (appendClaimVersion fv dir) ws \<and> set ws = insert fv (set vs)
      \<and> (\<forall>c. latest_of ws c = (if c = i then Some fv else latest_of vs c))"
    using log_append [OF assms(2), of fv v] assms(3,7) v backfilled_read [OF dir(2) v(2)] sync(3) by (simp add: setLastReplayedSequence_def)
  then show ?thesis using run e sync(2) by (intro exI [of _ "w\<lparr>fw_pod := ?pod, fw_store := setLastReplayedSequence (ob_sequence audit) ?st\<rparr>"]) auto
qed

lemma caught_up_cong [simp]: "caught_up (w\<lparr>fw_pod := (fw_pod w)\<lparr>ow_intents := x\<rparr>\<rparr>) = caught_up w"
  by (simp add: caught_up_def)

lemma and_then_Inr: "and_then r f = (Inr b, s) \<Longrightarrow> \<exists>a s1. r = (Inr a, s1) \<and> f a s1 = (Inr b, s)"
  by (auto simp: and_then_def split: prod.splits sum.splits)

lemma commit_forget_store: "commit_forget env fence i b ops w = (r, w') \<Longrightarrow> fw_store w' = fw_store w"
  by (auto simp: commit_forget_def Let_def split: prod.splits sum.splits)

text \<open>A version was added as the latest of its claim: the log has one more version, and only the row of the claim changed.\<close>

definition version_added ::
  "forget_env \<Rightarrow> claims_dir \<Rightarrow> claim_version list \<Rightarrow> claim_version \<Rightarrow> claim_store \<Rightarrow> claim_store \<Rightarrow> claim_version list \<Rightarrow> bool" where
  "version_added env dir vs fv st st1 ws =
     (log_ready env st1 (appendClaimVersion fv dir) ws \<and> set ws = insert fv (set vs)
      \<and> (\<forall>c. latest_of ws c = (if c = cv_claim_id fv then Some fv else latest_of vs c))
      \<and> map_option cl_status (getClaim (cv_claim_id fv) st1) = Some (version_status fv)
      \<and> (\<forall>k. k \<noteq> cv_claim_id fv \<longrightarrow> getClaim k st1 = getClaim k st))"

lemma forget_change_claim:
  assumes "caught_up w" and "log_ready env (fw_store w) dir vs" and "latest_of vs i = Some v" and "cv_state v = CsActive"
    and "fp_mode p \<noteq> FmRedact" and "i \<noteq> []" and run: "forget_change env config fence p (TargetClaim, i) h None w = (Inr r, w1)"
  shows "\<exists>ws. version_added env dir vs (forgotten_of env p (fe_now_iso env) v) (fw_store w) (fw_store w1) ws"
proof -
  let ?fv = "forgotten_of env p (fe_now_iso env) v"
  have dir: "st_log (fw_store w) = Some dir" using assms(2) by (simp add: log_ready_def)
  have version: "forgotten_version env p (TargetClaim, i) (fe_now_iso env) (fw_store w) = Inr (Some ?fv)"
    using log_latest [OF assms(2), of i] assms(3,4) by (simp add: forgotten_version_def dir)
  have v: "cv_claim_id v = i" using latest_of_greatest [OF assms(3)] by simp
  have step: "\<exists>ws. version_added env dir vs ?fv (fw_store w) (fw_store w') ws"
    if "forget_write env (TargetClaim, i) False (mutation_observation env config p (TargetClaim, i) scope (fe_now_iso env) None (ow_index (fw_pod wa)))
          (Some ?fv) wa = (Inr u, w')"
      and "caught_up wa" and "fw_store wa = fw_store w" for wa w' scope u
    using forget_claim_write [OF that(2) _ assms(3,5,6) refl refl, of env dir config scope "fe_now_iso env"] that assms(2) v
    by (auto simp: version_added_def)
  obtain scope where lane: "forget_lane env p (TargetClaim, i) False w = Inr scope" "requireGrant (fe_now env) (ac_id (fp_actor p)) OpForget scope config = Inr ()"
    using run by (auto simp: forget_change_def split: sum.splits)
  show ?thesis
  proof (cases "Observe.truthy (fp_operation_id p) = None \<or> ow_ops (fw_pod w) = None")
    case True
    then show ?thesis using run lane version step [where wa = w and scope = scope] assms(1)
      by (auto simp: forget_change_def Let_def or_else_def dest!: and_then_Inr split: option.splits)
  next
    case False
    then obtain oid ops where ops: "Observe.truthy (fp_operation_id p) = Some oid" "ow_ops (fw_pod w) = Some ops" by auto
    show ?thesis using run lane version ops step [where wa = "w\<lparr>fw_pod := (fw_pod w)\<lparr>ow_intents := ints\<rparr>\<rparr>" and scope = scope and w' = wb for ints wb] assms(1)
      by (auto simp: forget_change_def forget_intent_def Let_def or_else_def dest!: and_then_Inr commit_forget_store split: prod.splits sum.splits)
  qed
qed

definition operation_unused :: "string \<Rightarrow> observe_world \<Rightarrow> bool" where
  "operation_unused oid pod = (readOperationIntent (ow_intents pod) oid = Inr None
     \<and> (\<forall>ops es. ow_ops pod = Some ops \<longrightarrow> readAllOpLogEntries ops = Inr es \<longrightarrow> (\<forall>e \<in> set es. oe_operation_id e \<noteq> oid)))"

lemma forget_unused:
  assumes "handleForget env config fence p w = (Inr r, w1)" and "normaliseTarget p = Inr target"
    and "\<forall>oid. Observe.truthy (fp_operation_id p) = Some oid \<longrightarrow> operation_unused oid (fw_pod w)"
  shows "forget_change env config fence p target (fe_hash env (forgetPayload p target)) None w = (Inr r, w1)"
proof (cases "Observe.truthy (fp_operation_id p)")
  case None
  then show ?thesis using assms(1,2) by (auto simp: handleForget_def Let_def split: if_splits)
next
  case (Some oid)
  then obtain ops where ops: "ow_ops (fw_pod w) = Some ops" using assms(1,2) by (auto simp: handleForget_def Let_def split: if_splits option.splits)
  have unused: "operation_unused oid (fw_pod w)" using assms(3) Some by simp
  show ?thesis
  proof (cases "readAllOpLogEntries ops")
    case (Inl x)
    then show ?thesis using assms(1,2) Some ops
      by (auto simp: handleForget_def Let_def forget_replay_stage_def forget_committed_def and_then_def split: if_splits)
  next
    case (Inr es)
    then have "forget_replay_stage env fence oid a h ops w = (Inr (Inr None), w)" for a h
      using unused ops by (simp add: operation_unused_def forget_replay_stage_def forget_committed_def filter_empty_conv)
    then show ?thesis using assms(1,2) Some ops by (auto simp: handleForget_def Let_def split: if_splits)
  qed
qed

lemma revived_simps [simp]:
  "cv_claim_id (revived_of q now rels l a) = revived_claim_id (vp_tombstone_id q)" "cv_version (revived_of q now rels l a) = cv_version l + 1"
  "cv_body (revived_of q now rels l a) = cv_body a" "cv_state (revived_of q now rels l a) = cv_state a"
  "cv_epistemic_owner (revived_of q now rels l a) = cv_epistemic_owner a" "cv_fingerprint (revived_of q now rels l a) = cv_fingerprint a"
  "cv_relations (revived_of q now rels l a) = rels"
  by (simp_all add: revived_of_def cv_state_def)

lemma commit_revive_store:
  "commit_revive env fence q h existing now v edges ops w = (Inr u, w') \<Longrightarrow> fw_store w' = fw_store (append_version v w)"
  by (auto simp: commit_revive_def append_version_def claims_of_def Let_def split: prod.splits sum.splits if_splits)

lemma log_ready_env: "fe_sha env' = fe_sha env \<Longrightarrow> log_ready env' = log_ready env"
  by (intro ext) (simp add: log_ready_def)

text \<open>Reviving a forgotten claim: its newest active version comes back as the next version.\<close>

lemma revive_change_claim:
  assumes "log_ready env (fw_store w) dir vs" and "latest_of vs i = Some l" and "cv_state l = CsForgotten"
    and "a \<in> set vs" and "cv_claim_id a = i" and "cv_state a = CsActive"
    and "\<forall>y \<in> set vs. cv_claim_id y = i \<longrightarrow> cv_version a < cv_version y \<longrightarrow> cv_state y = CsForgotten"
    and "revived_claim_id (vp_tombstone_id q) = i" and run: "revive_change env fence withDb q h None w = (Inr res, w1)"
  shows "\<exists>rels zs. map cr_relation_id rels = map cr_relation_id (cv_relations a) \<and> vr_claim_id res = i \<and> vr_new_version res = cv_version l + 1
    \<and> version_added env dir vs (revived_of q (fe_now_iso env) rels l a) (fw_store w) (fw_store w1) zs"
proof -
  have dir: "st_log (fw_store w) = Some dir" "claims_of w = dir" "iterAllClaimVersions (fe_sha env) dir = Inr vs"
    using assms(1) by (simp_all add: log_ready_def claims_of_def or_else_def)
  have l: "l \<in> set vs" "cv_claim_id l = i" "\<forall>y \<in> set vs. cv_claim_id y = i \<longrightarrow> cv_version y \<le> cv_version l"
    using latest_of_greatest [OF assms(2)] by auto
  obtain hist where hist: "readClaimHistory (fe_sha env) dir i = Inr hist" "set hist = {v \<in> set vs. cv_claim_id v = i}"
    "sorted_wrt (\<lambda>a b. cv_version a < cv_version b) hist" by (rule history_sorted [OF assms(1)])
  have last: "last hist = l" by (rule last_greatest [OF hist(3)]) (use l hist(2) in auto)
  have active: "List.find (\<lambda>v. cv_state v = CsActive) (rev hist) = Some a"
    by (rule find_last [OF hist(3)]) (use assms(4-7) hist(2) in auto)
  have "hist \<noteq> []" using l hist(2) by auto
  define edges where "edges = (if withDb then rv_invalidated (revalidateOnRevive i (claim_db_of (fw_store w))) else [])"
  define rels where "rels = map (\<lambda>r. if cr_relation_id r \<in> set edges then r\<lparr>cr_invalid_at := Some (fe_now_iso env)\<rparr> else r) (cv_relations a)"
  define u where "u = revived_of q (fe_now_iso env) rels l a"
  have u: "cv_claim_id u = i" "cv_version u = cv_version l + 1" "cv_epistemic_owner u \<noteq> None" "cv_fingerprint u \<noteq> None"
    using assms(8) backfilled_read [OF dir(3) assms(4)] by (simp_all add: u_def)
  obtain w2 where w2: "fw_store w2 = fw_store (append_version u w)"
    "w1 = w2\<lparr>fw_store := syncFromJsonlVersion (av_store (fe_adm env)) u None False (fw_store w2)\<rparr>"
    "vr_claim_id res = i" "vr_new_version res = cv_version l + 1"
    using run hist(1) last active \<open>hist \<noteq> []\<close> assms(3,8)
    by (auto simp: revive_change_def dir(2) u_def rels_def edges_def Let_def dest!: and_then_Inr commit_revive_store split: option.splits)
  let ?sa = "(fw_store w)\<lparr>st_log := Some (appendClaimVersion u dir)\<rparr>"
  have st: "fw_store w1 = syncFromJsonlVersion (av_store (fe_adm env)) u None False ?sa" using w2(1,2) by (simp add: append_version_def dir(2))
  have same: "st_claims ?sa = st_claims (fw_store w)" by simp
  note sync = synced [OF same, where v = u and E = "av_store (fe_adm env)", folded st]
  obtain zs where "log_ready env (fw_store w1) (appendClaimVersion u dir) zs" "set zs = insert u (set vs)"
    "\<forall>c. latest_of zs c = (if c = cv_claim_id u then Some u else latest_of vs c)"
    using log_append [OF assms(1), of u l "fw_store w1"] assms(2) u sync(3) by auto
  then have "version_added env dir vs u (fw_store w) (fw_store w1) zs"
    using sync(1,2) by (auto simp: version_added_def)
  moreover have "map cr_relation_id rels = map cr_relation_id (cv_relations a)" by (simp add: rels_def)
  ultimately show ?thesis using w2(3,4) u_def by blast
qed

lemma revive_unused:
  assumes "handleRevive env config fence hash withDb q w = (Inr res, w1)" and "operation_unused (vp_operation_id q) (fw_pod w)"
  shows "\<exists>h. revive_change env fence withDb q h None w = (Inr res, w1)"
proof (cases "ow_ops (fw_pod w)")
  case None
  then show ?thesis using assms(1) by (auto simp: handleRevive_def Let_def split: if_splits sum.splits)
next
  case (Some ops)
  show ?thesis
  proof (cases "readAllOpLogEntries ops")
    case (Inl x)
    then show ?thesis using assms(1) Some
      by (auto simp: handleRevive_def Let_def revive_replay_stage_def revive_committed_def and_then_def split: if_splits sum.splits)
  next
    case (Inr es)
    then have "revive_replay_stage env fence (vp_operation_id q) a h ops w = (Inr (Inr None), w)" for a h
      using assms(2) Some by (simp add: operation_unused_def revive_replay_stage_def revive_committed_def filter_empty_conv)
    then show ?thesis using assms(1) Some by (auto simp: handleRevive_def Let_def split: if_splits sum.splits)
  qed
qed

lemma revived_claim_of: "starts_with i ''claim_'' \<Longrightarrow> t = i \<or> t = ''tomb_'' @ drop 6 i \<Longrightarrow> revived_claim_id t = i"
  by (auto simp: revived_claim_id_def starts_with_iff)

text \<open>Writing a redaction: the catch-up redacts the row the forgotten version just wrote, as one more version under the same operation id.\<close>

lemma redact_claim_write:
  assumes "caught_up w" and "log_ready env (fw_store w) dir vs" and "latest_of vs i = Some v" and "fp_mode p = FmRedact" and "i \<noteq> []"
    and "audit = mutation_observation env config p (TargetClaim, i) scope now None (ow_index (fw_pod w))" and "fv = forgotten_of env p now v"
    and "ob_id audit \<notin> r_id ` set (l0_rows (ow_index (fw_pod w)))"
    and run: "forget_write env (TargetClaim, i) False audit (Some fv) w = (Inr u, w1)"
  shows "\<exists>rec ws. log_ready env (fw_store w1) (appendClaimVersion rec (appendClaimVersion fv dir)) ws \<and> set ws = insert rec (insert fv (set vs))
    \<and> cv_claim_id rec = i \<and> cv_version rec = cv_version fv + 1 \<and> cv_operation_id rec = cv_operation_id fv"
proof -
  let ?E = "av_store (fe_adm env)" and ?pod = "write_audit (fe_now_iso env) TargetClaim audit (fw_pod w)" and ?st = "write_version env (Some fv) (fw_store w)"
  have v: "cv_claim_id v = i" "v \<in> set vs" using latest_of_greatest [OF assms(3)] by auto
  have dir: "st_log (fw_store w) = Some dir" "iterAllClaimVersions (fe_sha env) dir = Inr vs" using assms(2) by (simp_all add: log_ready_def)
  let ?sa = "(fw_store w)\<lparr>st_log := Some (appendClaimVersion fv dir)\<rparr>"
  have st: "?st = syncFromJsonlVersion ?E fv None False ?sa" by (simp add: write_version_def dir(1))
  have fv: "cv_claim_id fv = i" "cv_version fv = cv_version v + 1" using assms(7) v(1) by simp_all
  have same: "st_claims ?sa = st_claims (fw_store w)" by simp
  note sync = synced [OF same, where v = fv and E = ?E, folded st, unfolded fv(1)]
  obtain e where e: "getClaim i ?st = Some (rowToClaim (version_row fv None (getClaim i (fw_store w)) e))" using sync(1) by auto
  obtain zs where zs: "log_ready env ?st (appendClaimVersion fv dir) zs" "set zs = insert fv (set vs)" "latest_of zs i = Some fv"
    using log_append [OF assms(2), of fv v ?st] assms(3,7) v backfilled_read [OF dir(2) v(2)] sync(3) by auto
  have "lookup_by r_id (ob_id audit) (l0_rows (ow_index (fw_pod w))) = None" using assms(8) by (simp add: lookup_by_None_iff)
  moreover have "ob_status audit = OAccepted" using assms(6) by (simp add: mutation_observation_def assignIntegrity_def Let_def)
  ultimately have "getEffectiveStatus (ob_id audit) (ow_index ?pod) \<in> {None, Some EAccepted}"
    by (auto simp: write_audit_def store_observation_def insertOrSkip_def getEffectiveStatus_def obs_to_row_def initial_status_def)
  then have "processEvent (fe_adm env) (fe_cfg env) (Some (ow_index ?pod)) None audit ?st = redactClaim ?E i ?st"
    using assms(4-6) by (simp add: processEvent_def Replay.replayable_def handleRetraction_def forget_event_type_def body_string_def target_name_def Let_def)
  moreover define c where "c = (rowToClaim (version_row fv None (getClaim i (fw_store w)) e))\<lparr>cl_object := \<lparr>tv_type = ''text'', tv_value = JStr ''[redacted]''\<rparr>\<rparr>"
  ultimately obtain st2 where ins: "insertClaim ?E c ?st = (Inr (), st2)" and w1: "fw_store w1 = setLastReplayedSequence (ob_sequence audit) st2"
    using run forget_write_run [OF assms(1,6) refl, of "Some fv"] e
    by (auto simp: redactClaim_def update_claim_def split: prod.splits if_splits)
  have c: "cl_id c = i" "cl_operation_id c = Some (cv_operation_id fv)" using fv(1) by (simp_all add: c_def rowToClaim_def)
  have "nextVersion (fe_sha env) (appendClaimVersion fv dir) i = Inr (cv_version fv + 1)"
    using log_latest [OF zs(1), of i] zs(3) by (simp add: nextVersion_def)
  then obtain conf where st2: "st_log st2 = Some (appendClaimVersion (version_record ?E (st_ents ?st) c conf (cv_version fv + 1)) (appendClaimVersion fv dir))"
    using ins c(1) sync(3) by (auto simp: insertClaim_def Let_def split: option.splits if_splits)
  define rec where "rec = version_record ?E (st_ents ?st) c conf (cv_version fv + 1)"
  have rec: "cv_claim_id rec = i" "cv_version rec = cv_version fv + 1" "cv_operation_id rec = cv_operation_id fv"
      "cv_epistemic_owner rec \<noteq> None" "cv_fingerprint rec \<noteq> None"
    using c by (simp_all add: rec_def) (simp_all add: version_record_def claim_columns_def Let_def)
  show ?thesis using log_append [OF zs(1), of rec fv "fw_store w1"] zs rec st2 w1
    by (auto simp: rec_def [symmetric] setLastReplayedSequence_def)
qed

section \<open>A committed call\<close>

declare entry_detail_stamp [simp]

lemma forget_commit_details:
  "entry_detail (forget_commit_entry i b) k =
     map_of ([(''payload_hash'', JStr (it_payload_hash i)), (''audit_observation_id'', JStr (fb_audit_observation_id b)),
          (''observation_hash'', JStr (au_observation_hash (fb_audit b)))]
        @ opt_detail ''claim_record_hash'' (map_option (\<lambda>a. JStr (xa_record_hash a)) (fb_claim_version b))
        @ [(''target_id'', JStr (fb_target_id b)), (''target_kind'', JStr (target_name (fb_target_kind b))), (''mode'', JStr (mode_name (fb_mode b))),
           (''claims_retracted'', JNum (int (fb_claims_retracted b))), (''claims_reduced'', JNum (int (fb_claims_reduced b)))]) k"
  "oe_operation_id (forget_commit_entry i b) = it_operation_id i" "oe_op (forget_commit_entry i b) = ''forget''"
  "oe_actor_id (forget_commit_entry i b) = it_actor_id i"
  by (simp_all add: entry_detail_def forget_commit_entry_def)

lemma forget_commit_result:
  "forget_result_of (with_stamp s (forget_commit_entry i b)) =
     Some (\<lparr>fr_target_id = fb_target_id b, fr_target_kind = fb_target_kind b, fr_mode = fb_mode b, fr_claims_retracted = int (fb_claims_retracted b),
        fr_claims_reduced = int (fb_claims_reduced b), fr_audit_observation_id = fb_audit_observation_id b\<rparr>, au_observation_hash (fb_audit b))"
proof -
  have "kind_of_detail (Some (JStr (target_name t))) = Some t" "mode_of_detail (Some (JStr (mode_name m))) = Some m" for t m
    by (cases t; cases m; simp add: kind_of_detail_def mode_of_detail_def target_name_def mode_name_def)+
  then show ?thesis by (simp add: forget_result_of_def forget_commit_details opt_detail_def split: option.split)
qed

lemma forget_write_pod:
  assumes "forget_write env target False audit version w = (r, w1)"
  shows "fw_pod w1 = write_audit (fe_now_iso env) (fst target) audit (fw_pod w)"
  using assms by (auto simp: forget_write_def Let_def split: prod.splits)

text \<open>What a call that was never tried finds: no entry, no intent and no observation under its operation id, in logs that can be read.\<close>

definition operation_fresh :: "string \<Rightarrow> ops_dir \<Rightarrow> forget_world \<Rightarrow> bool" where
  "operation_fresh oid ops w =
     (ow_ops (fw_pod w) = Some ops \<and> distinct (map fst ops) \<and> operation_unused oid (fw_pod w)
      \<and> (\<exists>es. readAllOpLogEntries ops = Inr es)
      \<and> distinct (map fst (ow_evidence (fw_pod w)))
      \<and> (\<exists>obs. readAll (ow_evidence (fw_pod w)) = Inr obs \<and> (\<forall>o1 \<in> set obs. ob_operation_id o1 \<noteq> Some oid)))"

lemma forget_change_committed:
  assumes run: "forget_change env config fence p (TargetClaim, i) h None w = (Inr r, w1)"
    and oid: "Observe.truthy (fp_operation_id p) = Some oid" and "operation_fresh oid ops w"
    and version: "forgotten_version env p (TargetClaim, i) (fe_now_iso env) (fw_store w) = Inr (Some fv)"
  shows "\<exists>ops1 e. ow_ops (fw_pod w1) = Some ops1 \<and> fr_target_id r = i
    \<and> entry_detail e ''claim_record_hash'' = Some (JStr (hs_version (fe_hs env) fv))
    \<and> (\<forall>env2. fe_hs env2 = fe_hs env \<longrightarrow> forget_committed env2 oid (ac_id (fp_actor p)) h ops1 w1 = replay_claim_version env2 oid e r w1)
    \<and> (\<forall>env2 a k. a \<noteq> ac_id (fp_actor p) \<or> k \<noteq> h \<longrightarrow> forget_committed env2 oid a k ops1 w1 = (conflict, w1))"
proof -
  obtain es obs where ops: "ow_ops (fw_pod w) = Some ops" "distinct (map fst ops)" "readAllOpLogEntries ops = Inr es" "\<forall>e \<in> set es. oe_operation_id e \<noteq> oid"
    and obs: "distinct (map fst (ow_evidence (fw_pod w)))" "readAll (ow_evidence (fw_pod w)) = Inr obs" "\<forall>o1 \<in> set obs. ob_operation_id o1 \<noteq> Some oid"
    using assms(3) by (auto simp: operation_fresh_def operation_unused_def)
  obtain scope where lane: "forget_lane env p (TargetClaim, i) False w = Inr scope" "requireGrant (fe_now env) (ac_id (fp_actor p)) OpForget scope config = Inr ()"
    using run by (auto simp: forget_change_def split: sum.splits)
  define audit where "audit = mutation_observation env config p (TargetClaim, i) scope (fe_now_iso env) None (ow_index (fw_pod w))"
  define n where "n = planned_retracted (fp_mode p) (TargetClaim, i) (impacted_claims (av_store (fe_adm env)) (TargetClaim, i) (fw_store w))"
  define m where "m = planned_reduced (TargetClaim, i) (impacted_claims (av_store (fe_adm env)) (TargetClaim, i) (fw_store w))"
  define it where "it = forget_intent env fence p oid h (TargetClaim, i) (fe_now_iso env) audit (Some fv) n m"
  obtain b where b: "it_body it = IForget b" by (simp add: it_def forget_intent_def)
  obtain ints w2 where writes: "forget_write env (TargetClaim, i) False audit (Some fv) (w\<lparr>fw_pod := (fw_pod w)\<lparr>ow_intents := ints\<rparr>\<rparr>) = (Inr (), w2)"
    and commit: "commit_forget env fence it b ops w2 = (Inr (), w1)"
    and r: "r = \<lparr>fr_target_id = i, fr_target_kind = TargetClaim, fr_mode = mode_of (fp_mode p), fr_claims_retracted = int n, fr_claims_reduced = int m,
        fr_audit_observation_id = ob_id audit\<rparr>"
    using run lane version oid ops(1) b
    by (auto simp: forget_change_def Let_def or_else_def it_def n_def m_def audit_def dest!: and_then_Inr split: prod.splits sum.splits intent_body.splits)
  define e where "e = with_stamp (Option.bind fence mf_stamp) (forget_commit_entry it b)"
  have e: "oe_operation_id e = oid" "oe_op e = ''forget''" "oe_actor_id e = ac_id (fp_actor p)" "entry_detail e ''payload_hash'' = Some (JStr h)"
      "entry_detail e ''claim_record_hash'' = Some (JStr (hs_version (fe_hs env) fv))" "forget_result_of e = Some (r, ob_hash audit)"
    using b by (auto simp: e_def it_def forget_intent_def forget_commit_details forget_commit_result opt_detail_def r)
  obtain ops1 es1 where ops1: "ow_ops (fw_pod w1) = Some ops1" "readAllOpLogEntries ops1 = Inr es1" "filter (\<lambda>x. oe_operation_id x = oid) es1 = [e]"
  proof -
    have "ow_ops (fw_pod w1) = Some (append_day (dayOfTimestamp (oe_timestamp e)) [Line e] ops)"
      using commit by (auto simp: commit_forget_def e_def Let_def dest!: appendCommitted_ok split: prod.splits sum.splits)
    then show thesis
      using that read_all_append_one [OF ops(2), of es "dayOfTimestamp (oe_timestamp e)" e] ops(3,4) e(1)
        filter_one [of _ e es "\<lambda>x. oe_operation_id x = oid"]
      by (auto simp: readAllOpLogEntries_def filter_empty_conv)
  qed
  obtain obs1 where obs1: "readAll (ow_evidence (fw_pod w1)) = Inr obs1" "filter (\<lambda>o1. ob_operation_id o1 = Some oid) obs1 = [audit]"
  proof -
    have "ow_evidence (fw_pod w1) = appendObservation (fe_now_iso env) audit (ow_evidence (fw_pod w))"
      using commit forget_write_pod [OF writes] by (auto simp: commit_forget_def Let_def split: prod.splits sum.splits)
    then show thesis
      using that read_all_append_one [OF obs(1), of obs "take 10 (fe_now_iso env)" audit] obs(2,3) oid
        filter_one [of _ audit obs "\<lambda>o1. ob_operation_id o1 = Some oid"]
      by (auto simp: readAll_def appendObservation_def appendObservationAt_def filter_empty_conv audit_def)
  qed
  have hash: "ob_hash audit = computeHash (hs_obs (fe_hs env)) audit" by (simp add: audit_def)
  have "forget_committed env2 oid (ac_id (fp_actor p)) h ops1 w1 = replay_claim_version env2 oid e r w1" if "fe_hs env2 = fe_hs env" for env2
    using ops1 obs1 e hash that by (simp add: forget_committed_def r)
  moreover have "forget_committed env2 oid a k ops1 w1 = (conflict, w1)" if "a \<noteq> ac_id (fp_actor p) \<or> k \<noteq> h" for env2 a k
    using ops1 e that by (auto simp: forget_committed_def)
  ultimately show ?thesis using ops1(1) e(5) r by auto
qed

lemma filter_strict_one:
  assumes "sorted_wrt (\<lambda>a b. f a < (f b :: int)) xs" and "x \<in> set xs" and "P x" and "\<And>y. y \<in> set xs \<Longrightarrow> P y \<Longrightarrow> y = x"
  shows "filter P xs = [x]"
proof -
  obtain ys zs where xs: "xs = ys @ x # zs" using assms(2) by (metis split_list)
  then have "x \<notin> set ys" "x \<notin> set zs" using assms(1) by (auto simp: sorted_wrt_append)
  then have "filter P ys = []" "filter P zs = []" unfolding filter_empty_conv using assms(4) xs by fastforce+
  then show ?thesis using xs assms(3) by simp
qed

lemma operation_id_given: "Observe.truthy x = Some oid \<Longrightarrow> x = Some oid"
  by (cases x) (simp_all add: Observe.truthy_def split: if_splits)

text \<open>A second call under the operation id of a committed one answers from its commit record or refuses.\<close>

lemma forget_again:
  assumes "normaliseTarget p = Inr target" and "fp_mode p \<noteq> FmDeleteObject" and "Observe.truthy (fp_operation_id p) = Some oid" and "isValidOperationId oid"
    and "ow_ops (fw_pod w) = Some ops"
  shows "forget_committed env oid (ac_id (fp_actor p)) (fe_hash env (forgetPayload p target)) ops w = (Inr (Some r), w1)
      \<Longrightarrow> handleForget env config fence p w = (Inr r, w1)"
    and "forget_committed env oid (ac_id (fp_actor p)) (fe_hash env (forgetPayload p target)) ops w = (conflict, w1)
      \<Longrightarrow> handleForget env config fence p w = (conflict, w1)"
  using assms by (simp_all add: handleForget_def forget_replay_stage_def)

lemma handleForget_valid_id:
  assumes "handleForget env config fence p w = (Inr r, w1)" and "Observe.truthy (fp_operation_id p) = Some oid"
  shows "isValidOperationId oid" "fp_mode p \<noteq> FmDeleteObject"
  using assms by (auto simp: handleForget_def Let_def split: sum.splits if_splits)

lemma redact_change_claim:
  assumes "caught_up w" and "log_ready env (fw_store w) dir vs" and "latest_of vs i = Some v" and "cv_state v = CsActive" and "i \<noteq> []" and "cv_claim_id v = i"
    and "fp_mode p = FmRedact" and oid: "Observe.truthy (fp_operation_id p) = Some oid"
    and "fr_audit_observation_id r \<notin> r_id ` set (l0_rows (ow_index (fw_pod w)))"
    and run: "forget_change env config fence p (TargetClaim, i) h None w = (Inr r, w1)"
  shows "\<exists>rec ws dir1. log_ready env (fw_store w1) dir1 ws \<and> rec \<in> set ws \<and> forgotten_of env p (fe_now_iso env) v \<in> set ws \<and> cv_claim_id rec = i
    \<and> cv_version rec = cv_version (forgotten_of env p (fe_now_iso env) v) + 1 \<and> cv_operation_id rec = oid"
proof -
  let ?fv = "forgotten_of env p (fe_now_iso env) v"
  have version: "forgotten_version env p (TargetClaim, i) (fe_now_iso env) (fw_store w) = Inr (Some ?fv)"
    using log_latest [OF assms(2), of i] assms(2-4) by (simp add: forgotten_version_def log_ready_def)
  obtain scope where lane: "forget_lane env p (TargetClaim, i) False w = Inr scope" "requireGrant (fe_now env) (ac_id (fp_actor p)) OpForget scope config = Inr ()"
    using run by (auto simp: forget_change_def split: sum.splits)
  let ?audit = "mutation_observation env config p (TargetClaim, i) scope (fe_now_iso env) None (ow_index (fw_pod w))"
  have step: "\<exists>rec ws dir1. log_ready env (fw_store wb) dir1 ws \<and> rec \<in> set ws \<and> ?fv \<in> set ws \<and> cv_claim_id rec = i
      \<and> cv_version rec = cv_version ?fv + 1 \<and> cv_operation_id rec = oid"
    if "forget_write env (TargetClaim, i) False ?audit (Some ?fv) wa = (Inr u, wb)" and "caught_up wa" and "fw_store wa = fw_store w"
      and "ow_index (fw_pod wa) = ow_index (fw_pod w)" and "fr_audit_observation_id r = ob_id ?audit" for wa wb u
  proof -
    have "log_ready env (fw_store wa) dir vs" and new: "ob_id ?audit \<notin> r_id ` set (l0_rows (ow_index (fw_pod wa)))"
      using that(3-5) assms(2,9) by simp_all
    moreover have "?audit = mutation_observation env config p (TargetClaim, i) scope (fe_now_iso env) None (ow_index (fw_pod wa))" using that(4) by simp
    ultimately show ?thesis
      using redact_claim_write [OF that(2) _ assms(3,7,5) _ refl new that(1)] operation_id_given [OF oid] by (fastforce simp: Observe.or_else_def)
  qed
  show ?thesis
  proof (cases "ow_ops (fw_pod w)")
    case None
    then show ?thesis using run lane version oid step [where wa = w] assms(1)
      by (auto simp: forget_change_def Let_def or_else_def dest!: and_then_Inr)
  next
    case (Some ops)
    then show ?thesis using run lane version oid step [where wa = "w\<lparr>fw_pod := (fw_pod w)\<lparr>ow_intents := ints\<rparr>\<rparr>" for ints] assms(1)
      by (auto simp: forget_change_def forget_intent_def Let_def or_else_def dest!: and_then_Inr commit_forget_store split: prod.splits sum.splits)
  qed
qed

section \<open>Properties\<close>

text \<open>C11: An agent never forgets a user's claim. When the actor of a FORGET is not a user and the target is a claim whose latest version
  was written by a user or is owned by one, the call is refused as protected and nothing changes, whatever grants the agent
  holds; with an operation id this holds as long as the id has not been used.\<close>

theorem agent_never_forgets_user_claim:
  assumes "normaliseTarget p = Inr (TargetClaim, i)" and "\<not> actor_is_user (fp_actor p)" and "fp_mode p \<noteq> FmDeleteObject"
    and "st_log (fw_store w) = Some dir" and "readLatestVersion (fe_sha env) dir i = Inr (Some v)"
    and "cv_author v = AUser \<or> cv_epistemic_owner v = Some AUser" and "getClaim i (fw_store w) = Some c"
    and "case Observe.truthy (fp_operation_id p) of None \<Rightarrow> True
      | Some oid \<Rightarrow> isValidOperationId oid \<and> readOperationIntent (ow_intents (fw_pod w)) oid = Inr None
          \<and> (\<exists>ops es. ow_ops (fw_pod w) = Some ops \<and> readAllOpLogEntries ops = Inr es \<and> (\<forall>e \<in> set es. oe_operation_id e \<noteq> oid))"
  shows "handleForget env config fence p w = (Inl (ProtocolError ''protected_claim'' NoDetails), w)"
proof -
  have lane: "forget_lane env p (TargetClaim, i) b w = Inl (ProtocolError ''protected_claim'' NoDetails)" for b
    using assms(2,4-7) by (auto simp: forget_lane_def first_some_def Let_def)
  have change: "forget_change env config fence p (TargetClaim, i) h prior w = (Inl (ProtocolError ''protected_claim'' NoDetails), w)" for h prior
    by (simp add: forget_change_def lane)
  show ?thesis
  proof (cases "Observe.truthy (fp_operation_id p)")
    case None
    then show ?thesis using assms(1,3) by (simp add: handleForget_def change)
  next
    case (Some oid)
    then obtain ops es where ops: "isValidOperationId oid" "readOperationIntent (ow_intents (fw_pod w)) oid = Inr None" "ow_ops (fw_pod w) = Some ops"
      "readAllOpLogEntries ops = Inr es" "\<forall>e \<in> set es. oe_operation_id e \<noteq> oid"
      using assms(8) by auto
    then have "forget_replay_stage env fence oid a h ops w = (Inr (Inr None), w)" for a h
      by (simp add: forget_replay_stage_def forget_committed_def filter_empty_conv)
    then show ?thesis using assms(1,3) Some ops by (simp add: handleForget_def change)
  qed
qed

text \<open>C10: REVIVE undoes FORGET. Take a pod whose claim store has replayed all its evidence and whose claim log parses, with at most one line
  per claim and version. When an active claim is forgotten by tombstone and then revived, by its claim id or by its tombstone
  id, under operation ids that had not been used, the claim's latest version carries the body, the type, the author, the epistemic
  owner, the confidence, the scope, the evidence, the tags and the relations (by id) it had before, two versions later; the
  version in between is forgotten, was the latest one before the revival, and is still in the log after it, as is the version that was forgotten;
  the row of the claim was retracted in between and has the status of the new version after; and no other claim's row or latest
  version changed.\<close>

theorem forget_revive_roundtrip:
  assumes "caught_up w" and "log_ready env (fw_store w) dir vs" and "latest_of vs i = Some v" and "cv_state v = CsActive" and "starts_with i ''claim_''"
    and "normaliseTarget p = Inr (TargetClaim, i)" and "fp_mode p = FmTombstone"
    and "\<forall>oid. Observe.truthy (fp_operation_id p) = Some oid \<longrightarrow> operation_unused oid (fw_pod w)"
    and forget: "handleForget env config fence p w = (Inr r, w1)"
    and "vp_tombstone_id q = i \<or> vp_tombstone_id q = ''tomb_'' @ drop 6 i" and "operation_unused (vp_operation_id q) (fw_pod w1)"
    and "fe_sha env2 = fe_sha env" and revive: "handleRevive env2 config2 fence2 hash withDb q w1 = (Inr res, w2)"
  shows "\<exists>u dir2. vr_claim_id res = i \<and> vr_new_version res = cv_version v + 2
    \<and> st_log (fw_store w2) = Some dir2 \<and> readLatestVersion (fe_sha env) dir2 i = Inr (Some u)
    \<and> cv_version u = cv_version v + 2 \<and> cv_body u = cv_body v \<and> cv_claim_type u = cv_claim_type v \<and> cv_claim_role u = cv_claim_role v
    \<and> cv_author u = cv_author v \<and> cv_epistemic_owner u = cv_epistemic_owner v \<and> cv_fingerprint u = cv_fingerprint v
    \<and> cv_confidence u = cv_confidence v \<and> cv_epistemic_tag u = cv_epistemic_tag v \<and> cv_scope u = cv_scope v
    \<and> cv_derived_from u = cv_derived_from v \<and> cv_tags u = cv_tags v \<and> cv_created_at u = cv_created_at v
    \<and> map cr_relation_id (cv_relations u) = map cr_relation_id (cv_relations v)
    \<and> (\<exists>f zs. cv_state f = CsForgotten \<and> cv_version f = cv_version v + 1 \<and> readLatestVersion (fe_sha env) (the (st_log (fw_store w1))) i = Inr (Some f)
        \<and> iterAllClaimVersions (fe_sha env) dir2 = Inr zs \<and> f \<in> set zs \<and> v \<in> set zs)
    \<and> map_option cl_status (getClaim i (fw_store w1)) = Some StRetracted
    \<and> map_option cl_status (getClaim i (fw_store w2)) = Some (version_status u)
    \<and> (\<forall>k. k \<noteq> i \<longrightarrow> getClaim k (fw_store w2) = getClaim k (fw_store w)
        \<and> readLatestVersion (fe_sha env) dir2 k = readLatestVersion (fe_sha env) dir k)"
proof -
  let ?fv = "forgotten_of env p (fe_now_iso env) v"
  have v: "cv_claim_id v = i" "v \<in> set vs" "\<forall>y \<in> set vs. cv_claim_id y = i \<longrightarrow> cv_version y \<le> cv_version v"
    using latest_of_greatest [OF assms(3)] by auto
  have "i \<noteq> []" using assms(5) by (auto simp: starts_with_iff)
  note forget_unused [OF forget assms(6,8)]
  then obtain ws where ws: "version_added env dir vs ?fv (fw_store w) (fw_store w1) ws"
    using forget_change_claim [OF assms(1-4) _ \<open>i \<noteq> []\<close>, of p] assms(7) by fastforce
  then have log1: "log_ready env2 (fw_store w1) (appendClaimVersion ?fv dir) ws" "set ws = insert ?fv (set vs)" "latest_of ws i = Some ?fv"
    using v(1) log_ready_env [OF assms(12)] by (auto simp: version_added_def)
  have revived: "revived_claim_id (vp_tombstone_id q) = i" by (rule revived_claim_of [OF assms(5,10)])
  obtain h2 where "revive_change env2 fence2 withDb q h2 None w1 = (Inr res, w2)" using revive_unused [OF revive assms(11)] by blast
  moreover have "\<forall>y \<in> set ws. cv_claim_id y = i \<longrightarrow> cv_version v < cv_version y \<longrightarrow> cv_state y = CsForgotten"
    using v log1(2) by force
  ultimately obtain rels zs where u: "map cr_relation_id rels = map cr_relation_id (cv_relations v)" "vr_claim_id res = i"
      "vr_new_version res = cv_version ?fv + 1"
      "version_added env2 (appendClaimVersion ?fv dir) ws (revived_of q (fe_now_iso env2) rels ?fv v) (fw_store w1) (fw_store w2) zs"
    using revive_change_claim [OF log1(1,3) _ _ v(1) assms(4) _ revived, of fence2 withDb h2 res w2] log1(2) v(2) by auto
  let ?u = "revived_of q (fe_now_iso env2) rels ?fv v"
  have kept: "cv_claim_type ?u = cv_claim_type v \<and> cv_claim_role ?u = cv_claim_role v \<and> cv_author ?u = cv_author v \<and> cv_confidence ?u = cv_confidence v
      \<and> cv_epistemic_tag ?u = cv_epistemic_tag v \<and> cv_scope ?u = cv_scope v \<and> cv_derived_from ?u = cv_derived_from v \<and> cv_tags ?u = cv_tags v
      \<and> cv_created_at ?u = cv_created_at v"
    by (simp add: revived_of_def carryDemotion_def split: option.split)
  have log2: "log_ready env (fw_store w2) (appendClaimVersion ?u (appendClaimVersion ?fv dir)) zs"
    and latest2: "latest_of zs c = (if c = i then Some ?u else latest_of vs c)" for c
    using u(4) ws v(1) revived log_ready_env [OF assms(12)] by (auto simp: version_added_def)
  have log1': "log_ready env (fw_store w1) (appendClaimVersion ?fv dir) ws" using ws by (simp add: version_added_def)
  have "cv_state ?fv = CsForgotten" "cv_version ?fv = cv_version v + 1" by simp_all
  moreover have "readLatestVersion (fe_sha env) (the (st_log (fw_store w1))) i = Inr (Some ?fv)"
    using log_latest [OF log1'] log1(3) log1' by (simp add: log_ready_def)
  moreover have "iterAllClaimVersions (fe_sha env) (appendClaimVersion ?u (appendClaimVersion ?fv dir)) = Inr zs" using log2 by (simp add: log_ready_def)
  moreover have "?fv \<in> set zs" "v \<in> set zs" using u(4) log1(2) v(2) by (simp_all add: version_added_def)
  ultimately have between: "\<exists>f zs. cv_state f = CsForgotten \<and> cv_version f = cv_version v + 1
      \<and> readLatestVersion (fe_sha env) (the (st_log (fw_store w1))) i = Inr (Some f)
      \<and> iterAllClaimVersions (fe_sha env) (appendClaimVersion ?u (appendClaimVersion ?fv dir)) = Inr zs \<and> f \<in> set zs \<and> v \<in> set zs"
    by blast
  show ?thesis
    using between u kept log_latest [OF log2] latest2 log_latest [OF log1'] log1(3) log_latest [OF assms(2)] ws revived v(1) log2 log1'
    by (intro exI [of _ ?u] exI [of _ "appendClaimVersion ?u (appendClaimVersion ?fv dir)"]) (auto simp: version_added_def log_ready_def)
qed

text \<open>A retried FORGET changes nothing. After an active claim was forgotten by tombstone under a fresh operation id, the same call
  (at any later time, with any configuration and fence) answers the same result; the evidence log, the operations log, the intents and
  the claim log stay as they are and the claim stays retracted. A call under the same id by another actor or with another payload is
  refused as a conflict and changes nothing.\<close>

lemma forget_retry_replays:
  assumes "caught_up w" and "log_ready env (fw_store w) dir vs" and "latest_of vs i = Some v" and "cv_state v = CsActive" and "i \<noteq> []"
    and "normaliseTarget p = Inr (TargetClaim, i)" and "fp_mode p = FmTombstone" and "Observe.truthy (fp_operation_id p) = Some oid"
    and "operation_fresh oid ops w" and "\<forall>y \<in> set vs. cv_claim_id y = i \<longrightarrow> cv_operation_id y \<noteq> oid"
    and forget: "handleForget env config fence p w = (Inr r, w1)"
    and "fe_hs env2 = fe_hs env" and "fe_hash env2 = fe_hash env" and "fe_sha env2 = fe_sha env"
  shows "(\<exists>w2. handleForget env2 config2 fence2 p w1 = (Inr r, w2) \<and> fw_pod w2 = fw_pod w1 \<and> st_log (fw_store w2) = st_log (fw_store w1)
      \<and> map_option cl_status (getClaim i (fw_store w2)) = Some StRetracted)
    \<and> (\<forall>p2 target. normaliseTarget p2 = Inr target \<longrightarrow> fp_mode p2 \<noteq> FmDeleteObject \<longrightarrow> fp_operation_id p2 = fp_operation_id p
        \<longrightarrow> ac_id (fp_actor p2) \<noteq> ac_id (fp_actor p) \<or> fe_hash env (forgetPayload p2 target) \<noteq> fe_hash env (forgetPayload p (TargetClaim, i))
        \<longrightarrow> handleForget env2 config2 fence2 p2 w1 = (conflict, w1))"
proof -
  let ?fv = "forgotten_of env p (fe_now_iso env) v"
  have v: "cv_claim_id v = i" "v \<in> set vs" using latest_of_greatest [OF assms(3)] by auto
  have unused: "\<forall>x. Observe.truthy (fp_operation_id p) = Some x \<longrightarrow> operation_unused x (fw_pod w)" using assms(8,9) by (simp add: operation_fresh_def)
  note change = forget_unused [OF forget assms(6) unused]
  have version: "forgotten_version env p (TargetClaim, i) (fe_now_iso env) (fw_store w) = Inr (Some ?fv)"
    using log_latest [OF assms(2), of i] assms(2-4) by (simp add: forgotten_version_def log_ready_def)
  obtain ops1 e where again: "ow_ops (fw_pod w1) = Some ops1" "fr_target_id r = i" "entry_detail e ''claim_record_hash'' = Some (JStr (hs_version (fe_hs env) ?fv))"
    "\<And>E. fe_hs E = fe_hs env \<Longrightarrow> forget_committed E oid (ac_id (fp_actor p)) (fe_hash env (forgetPayload p (TargetClaim, i))) ops1 w1 = replay_claim_version E oid e r w1"
    "\<And>E a k. a \<noteq> ac_id (fp_actor p) \<or> k \<noteq> fe_hash env (forgetPayload p (TargetClaim, i)) \<Longrightarrow> forget_committed E oid a k ops1 w1 = (conflict, w1)"
    using forget_change_committed [OF change assms(8,9) version] by blast
  obtain ws where ws: "version_added env dir vs ?fv (fw_store w) (fw_store w1) ws"
    using forget_change_claim [OF assms(1-4) _ assms(5) change] assms(7) by auto
  then have log1: "log_ready env2 (fw_store w1) (appendClaimVersion ?fv dir) ws" "set ws = insert ?fv (set vs)"
    using log_ready_env [OF assms(14)] by (auto simp: version_added_def)
  obtain hist where hist: "readClaimHistory (fe_sha env2) (appendClaimVersion ?fv dir) i = Inr hist" "set hist = {x \<in> set ws. cv_claim_id x = i}"
    "sorted_wrt (\<lambda>a b. cv_version a < cv_version b) hist" by (rule history_sorted [OF log1(1)])
  have one: "filter (\<lambda>x. cv_operation_id x = oid) hist = [?fv]"
    by (rule filter_strict_one [OF hist(3)]) (use hist(2) log1(2) v assms(10) operation_id_given [OF assms(8)] in \<open>auto simp: Observe.or_else_def\<close>)
  let ?st = "syncFromJsonlVersion (av_store (fe_adm env2)) ?fv None False (fw_store w1)"
  have st1: "st_log (fw_store w1) = Some (appendClaimVersion ?fv dir)" using log1(1) by (simp add: log_ready_def)
  have "replay_claim_version env2 oid e r w1 = (Inr (Some r), w1\<lparr>fw_store := ?st\<rparr>)"
    using st1 again(2,3) hist(1) one assms(12) by (simp add: replay_claim_version_def)
  moreover note valid = handleForget_valid_id [OF forget assms(8)]
  ultimately have "handleForget env2 config2 fence2 p w1 = (Inr r, w1\<lparr>fw_store := ?st\<rparr>)"
    by (intro forget_again(1) [OF assms(6) valid(2) assms(8) valid(1) again(1)]) (simp add: assms(12,13) again(4))
  moreover have "st_log ?st = st_log (fw_store w1)" "map_option cl_status (getClaim i ?st) = Some StRetracted"
    using synced(1) [of "fw_store w1" "fw_store w1" ?fv "av_store (fe_adm env2)"] synced(3) [of "fw_store w1" "fw_store w1" "av_store (fe_adm env2)" ?fv] v(1) by auto
  moreover have "handleForget env2 config2 fence2 p2 w1 = (conflict, w1)"
    if "normaliseTarget p2 = Inr target" "fp_mode p2 \<noteq> FmDeleteObject" "fp_operation_id p2 = fp_operation_id p"
      "ac_id (fp_actor p2) \<noteq> ac_id (fp_actor p) \<or> fe_hash env (forgetPayload p2 target) \<noteq> fe_hash env (forgetPayload p (TargetClaim, i))" for p2 target
    by (intro forget_again(2) [OF that(1,2) _ valid(1) again(1)]) (use that(3,4) assms(8,13) again(5) in auto)
  ultimately show ?thesis by (intro conjI exI [of _ "w1\<lparr>fw_store := ?st\<rparr>"]) auto
qed

text \<open>C33: A redaction under an operation id cannot be retried. Take a pod whose claim store has replayed all its evidence and whose
  claim log parses, with at most one line per claim and version, and redact an active claim under an operation id that no intent, log entry or
  evidence record has used, where the id of the audit record is not an indexed one. The call succeeds and leaves two versions of the claim
  under that operation id: the forgotten one, and the redacted row that catching up on the redaction event wrote after it. Every retry of the
  same call is then refused as a conflict and changes nothing.\<close>

theorem redaction_retry_conflicts:
  assumes "caught_up w" and "log_ready env (fw_store w) dir vs" and "latest_of vs i = Some v" and "cv_state v = CsActive" and "i \<noteq> []"
    and "normaliseTarget p = Inr (TargetClaim, i)" and "fp_mode p = FmRedact" and "Observe.truthy (fp_operation_id p) = Some oid"
    and "operation_fresh oid ops w" and forget: "handleForget env config fence p w = (Inr r, w1)"
    and "fr_audit_observation_id r \<notin> r_id ` set (l0_rows (ow_index (fw_pod w)))"
    and "fe_hs env2 = fe_hs env" and "fe_hash env2 = fe_hash env" and "fe_sha env2 = fe_sha env"
  shows "(\<exists>dir1 ws f rec. st_log (fw_store w1) = Some dir1 \<and> iterAllClaimVersions (fe_sha env) dir1 = Inr ws \<and> f \<in> set ws \<and> rec \<in> set ws
      \<and> cv_claim_id f = i \<and> cv_state f = CsForgotten \<and> cv_version f = cv_version v + 1 \<and> cv_operation_id f = oid
      \<and> cv_claim_id rec = i \<and> cv_version rec = cv_version v + 2 \<and> cv_operation_id rec = oid)
    \<and> handleForget env2 config2 fence2 p w1 = (conflict, w1)"
proof -
  let ?fv = "forgotten_of env p (fe_now_iso env) v" and ?h = "fe_hash env (forgetPayload p (TargetClaim, i))"
  have v: "cv_claim_id v = i" using latest_of_greatest [OF assms(3)] by auto
  have unused: "\<forall>x. Observe.truthy (fp_operation_id p) = Some x \<longrightarrow> operation_unused x (fw_pod w)" using assms(8,9) by (simp add: operation_fresh_def)
  note change = forget_unused [OF forget assms(6) unused]
  have version: "forgotten_version env p (TargetClaim, i) (fe_now_iso env) (fw_store w) = Inr (Some ?fv)"
    using log_latest [OF assms(2), of i] assms(2-4) by (simp add: forgotten_version_def log_ready_def)
  obtain ops1 e where again: "ow_ops (fw_pod w1) = Some ops1" "fr_target_id r = i" "entry_detail e ''claim_record_hash'' = Some (JStr (hs_version (fe_hs env) ?fv))"
    "forget_committed env2 oid (ac_id (fp_actor p)) ?h ops1 w1 = replay_claim_version env2 oid e r w1"
    using forget_change_committed [OF change assms(8,9) version] assms(12) by blast
  obtain rec ws dir1 where log: "log_ready env (fw_store w1) dir1 ws" "rec \<in> set ws" "?fv \<in> set ws" "cv_claim_id rec = i"
    "cv_version rec = cv_version ?fv + 1" "cv_operation_id rec = oid"
    using redact_change_claim [OF assms(1-5) v assms(7,8) assms(11) change] by blast
  have log2: "log_ready env2 (fw_store w1) dir1 ws" using log(1) log_ready_env [OF assms(14)] by simp
  obtain hist where hist: "readClaimHistory (fe_sha env2) dir1 i = Inr hist" "set hist = {x \<in> set ws. cv_claim_id x = i}"
    by (rule history_sorted [OF log2])
  have "cv_operation_id ?fv = oid" using operation_id_given [OF assms(8)] by (simp add: Observe.or_else_def)
  then have two: "rec \<in> set (filter (\<lambda>x. cv_operation_id x = oid) hist)" "?fv \<in> set (filter (\<lambda>x. cv_operation_id x = oid) hist)"
    using hist(2) log(2-4,6) v by simp_all
  have "rec \<noteq> ?fv" using log(5) by auto
  have "replay_claim_version env2 oid e r w1 = (conflict, w1)"
  proof (cases "filter (\<lambda>x. cv_operation_id x = oid) hist")
    case Nil
    then show ?thesis using two by simp
  next
    case (Cons x xs)
    then have "xs \<noteq> []" using two \<open>rec \<noteq> ?fv\<close> by (cases xs) auto
    then show ?thesis using Cons hist(1) log(1) again(2,3) by (cases xs) (simp_all add: replay_claim_version_def log_ready_def)
  qed
  moreover note valid = handleForget_valid_id [OF forget assms(8)]
  ultimately have "handleForget env2 config2 fence2 p w1 = (conflict, w1)"
    by (intro forget_again(2) [OF assms(6) valid(2) assms(8) valid(1) again(1)]) (simp add: assms(13) again(4))
  moreover have "st_log (fw_store w1) = Some dir1" "iterAllClaimVersions (fe_sha env) dir1 = Inr ws" using log(1) by (simp_all add: log_ready_def)
  moreover have "cv_claim_id ?fv = i" "cv_state ?fv = CsForgotten" "cv_version ?fv = cv_version v + 1" using v by simp_all
  ultimately show ?thesis using log(2-6) \<open>cv_operation_id ?fv = oid\<close>
    by (intro conjI exI [of _ dir1] exI [of _ ws] exI [of _ ?fv] exI [of _ rec]) simp_all
qed

section \<open>Witnesses\<close>

definition demo_remembered :: claim_version where
  "demo_remembered = (demo_version ''claim_a'' 1 ''self'')\<lparr>cv_author := AUser, cv_epistemic_owner := Some AUser, cv_fingerprint := Some ''f'',
     cv_derived_from := [''obs_1''], cv_operation_id := ''op_00000000000000000000000001''\<rparr>"

definition demo_forget_env :: forget_env where
  "demo_forget_env = \<lparr>fe_now = 0, fe_now_iso = ''2026-01-02T00:00:00Z'', fe_hs = demo_hs, fe_hash = (\<lambda>_. replicate 64 (CHR ''a'')),
     fe_audit_hash = (\<lambda>_. ''audit''), fe_ulid = ''u'', fe_others = alone, fe_adm = demo_admission, fe_cfg = None\<rparr>"

definition demo_forget_world :: forget_world where
  "demo_forget_world = \<lparr>fw_pod = demo_world,
     fw_store = syncFromJsonlVersion Claim_Store.demo_env demo_remembered None False
       (demo_base\<lparr>st_log := Some [(''2026-01'', [Line demo_remembered])]\<rparr>)\<rparr>"

definition demo_forget :: "requested_mode \<Rightarrow> forget_params" where
  "demo_forget m = \<lparr>fp_actor = \<lparr>ac_type = Person, ac_id = ''user:local'', ac_display_name = ''A''\<rparr>, fp_target = Some (TargetClaim, ''claim_a''),
     fp_target_obs_id = None, fp_target_claim_id = None, fp_mode = m, fp_reason = None, fp_redaction_reason = None,
     fp_operation_id = Some ''op_00000000000000000000000009''\<rparr>"

definition demo_forgotten :: "requested_mode \<Rightarrow> forget_result outcome \<times> forget_world" where
  "demo_forgotten m = handleForget demo_forget_env Observe.demo_config None (demo_forget m) demo_forget_world"

lemma demo_forget_ok: "is_ok (fst (demo_forgotten FmTombstone))"
  by code_simp

lemma demo_redact_ok: "is_ok (fst (demo_forgotten FmRedact))"
  by code_simp

definition demo_revive :: revive_params where
  "demo_revive = \<lparr>vp_actor = \<lparr>ac_type = Person, ac_id = ''user:local'', ac_display_name = ''A''\<rparr>, vp_tombstone_id = ''tomb_a'', vp_reason = ''needed'',
     vp_operation_id = ''op_0000000000000000000000000A''\<rparr>"

definition demo_revived :: "revive_result outcome \<times> forget_world" where
  "demo_revived = handleRevive demo_forget_env Observe.demo_config None (\<lambda>_. replicate 64 (CHR ''b'')) True demo_revive (snd (demo_forgotten FmTombstone))"

lemma demo_revive_ok: "is_ok (fst demo_revived)"
  by code_simp

lemma demo_forget_ready: "log_ready demo_forget_env (fw_store demo_forget_world) [(''2026-01'', [Line demo_remembered])] [demo_remembered]"
  "caught_up demo_forget_world" "operation_fresh ''op_00000000000000000000000009'' [] demo_forget_world"
proof -
  have "st_log (fw_store demo_forget_world) = Some [(''2026-01'', [Line demo_remembered])]" by code_simp
  moreover have "iterAllClaimVersions (fe_sha demo_forget_env) [(''2026-01'', [Line demo_remembered])] = Inr [demo_remembered]" by code_simp
  ultimately show "log_ready demo_forget_env (fw_store demo_forget_world) [(''2026-01'', [Line demo_remembered])] [demo_remembered]"
    by (simp add: log_ready_def)
  have "st_last_replayed (fw_store demo_forget_world) = 0" "fw_pod demo_forget_world = demo_world" by code_simp+
  moreover have "readAll [] = Inr []" "readAllOpLogEntries [] = Inr []" "readOperationIntent [] ''op_00000000000000000000000009'' = Inr None" by code_simp+
  ultimately show "caught_up demo_forget_world" "operation_fresh ''op_00000000000000000000000009'' [] demo_forget_world"
    by (simp_all add: caught_up_def operation_fresh_def operation_unused_def demo_world_def)
qed

lemma demo_forget_facts:
  "latest_of [demo_remembered] ''claim_a'' = Some demo_remembered" "cv_state demo_remembered = CsActive" "starts_with ''claim_a'' ''claim_''"
  "normaliseTarget (demo_forget m) = Inr (TargetClaim, ''claim_a'')" "fp_mode (demo_forget m) = m"
  "Observe.truthy (fp_operation_id (demo_forget m)) = Some ''op_00000000000000000000000009''"
  "cv_operation_id demo_remembered = ''op_00000000000000000000000001''"
  by (simp_all add: latest_of_def demo_remembered_def demo_version_def cv_state_def starts_with_def normaliseTarget_def demo_forget_def Observe.truthy_def)

lemma demo_run: "is_ok (fst (demo_forgotten m)) \<Longrightarrow>
    handleForget demo_forget_env Observe.demo_config None (demo_forget m) demo_forget_world = (Inr (projr (fst (demo_forgotten m))), snd (demo_forgotten m))"
  by (cases "fst (demo_forgotten m)") (simp_all add: demo_forgotten_def [symmetric] prod_eq_iff)

theorem agent_never_forgets_user_claim_witness:
  "handleForget demo_forget_env Observe.demo_config None ((demo_forget FmTombstone)\<lparr>fp_actor := \<lparr>ac_type = Agent, ac_id = ''agent:b'', ac_display_name = ''B''\<rparr>\<rparr>)
     demo_forget_world = (Inl (ProtocolError ''protected_claim'' NoDetails), demo_forget_world)"
proof -
  let ?p = "(demo_forget FmTombstone)\<lparr>fp_actor := \<lparr>ac_type = Agent, ac_id = ''agent:b'', ac_display_name = ''B''\<rparr>\<rparr>"
  let ?dir = "[(''2026-01'', [Line demo_remembered])]"
  have 1: "normaliseTarget ?p = Inr (TargetClaim, ''claim_a'')" "\<not> actor_is_user (fp_actor ?p)" "fp_mode ?p \<noteq> FmDeleteObject"
    by (simp_all add: normaliseTarget_def demo_forget_def actor_is_user_def starts_with_def)
  have 2: "st_log (fw_store demo_forget_world) = Some ?dir" "readLatestVersion (fe_sha demo_forget_env) ?dir ''claim_a'' = Inr (Some demo_remembered)"
    using demo_forget_ready(1) log_latest [OF demo_forget_ready(1)] demo_forget_facts(1) by (simp_all add: log_ready_def)
  have 3: "cv_author demo_remembered = AUser \<or> cv_epistemic_owner demo_remembered = Some AUser" by (simp add: demo_remembered_def)
  have "getClaim ''claim_a'' (fw_store demo_forget_world) \<noteq> None" by code_simp
  then obtain c where 4: "getClaim ''claim_a'' (fw_store demo_forget_world) = Some c" by auto
  have "isValidOperationId ''op_00000000000000000000000009''" by code_simp
  then have 5: "case Observe.truthy (fp_operation_id ?p) of None \<Rightarrow> True
      | Some oid \<Rightarrow> isValidOperationId oid \<and> readOperationIntent (ow_intents (fw_pod demo_forget_world)) oid = Inr None
          \<and> (\<exists>ops es. ow_ops (fw_pod demo_forget_world) = Some ops \<and> readAllOpLogEntries ops = Inr es \<and> (\<forall>e \<in> set es. oe_operation_id e \<noteq> oid))"
    using demo_forget_ready(3) by (auto simp: demo_forget_def Observe.truthy_def operation_fresh_def operation_unused_def)
  show ?thesis by (rule agent_never_forgets_user_claim [OF 1 2 3 4 5])
qed

lemma forget_retry_replays_example:
  "\<exists>w2. handleForget (demo_forget_env\<lparr>fe_now_iso := ''2026-01-03T00:00:00Z''\<rparr>) Observe.demo_config None (demo_forget FmTombstone) (snd (demo_forgotten FmTombstone))
     = (fst (demo_forgotten FmTombstone), w2) \<and> fw_pod w2 = fw_pod (snd (demo_forgotten FmTombstone))"
proof -
  let ?E = "demo_forget_env\<lparr>fe_now_iso := ''2026-01-03T00:00:00Z''\<rparr>"
  note run = demo_run [OF demo_forget_ok]
  have new: "\<forall>y \<in> set [demo_remembered]. cv_claim_id y = ''claim_a'' \<longrightarrow> cv_operation_id y \<noteq> ''op_00000000000000000000000009''"
    by (simp add: demo_forget_facts(7))
  have same: "fe_hs ?E = fe_hs demo_forget_env" "fe_hash ?E = fe_hash demo_forget_env" "fe_sha ?E = fe_sha demo_forget_env" by simp_all
  have "fst (demo_forgotten FmTombstone) = Inr (projr (fst (demo_forgotten FmTombstone)))" using demo_forget_ok by (cases "fst (demo_forgotten FmTombstone)") simp_all
  then show ?thesis
    using forget_retry_replays [OF demo_forget_ready(2,1) demo_forget_facts(1,2) _ demo_forget_facts(4-6) demo_forget_ready(3) new run same,
        of Observe.demo_config None, THEN conjunct1] by auto
qed

theorem forget_revive_roundtrip_witness:
  "\<exists>u dir2. st_log (fw_store (snd demo_revived)) = Some dir2 \<and> readLatestVersion (fe_sha demo_forget_env) dir2 ''claim_a'' = Inr (Some u)
     \<and> cv_version u = 3 \<and> cv_body u = cv_body demo_remembered"
proof -
  have unused: "\<forall>oid. Observe.truthy (fp_operation_id (demo_forget FmTombstone)) = Some oid \<longrightarrow> operation_unused oid (fw_pod demo_forget_world)"
    using demo_forget_ready(3) demo_forget_facts(6) by (simp add: operation_fresh_def)
  have tomb: "vp_tombstone_id demo_revive = ''claim_a'' \<or> vp_tombstone_id demo_revive = ''tomb_'' @ drop 6 ''claim_a''" by (simp add: demo_revive_def)
  have "case readAllOpLogEntries (the (ow_ops (fw_pod (snd (demo_forgotten FmTombstone))))) of
      Inl x \<Rightarrow> True | Inr es \<Rightarrow> list_all (\<lambda>e. oe_operation_id e \<noteq> vp_operation_id demo_revive) es"
    and "readOperationIntent (ow_intents (fw_pod (snd (demo_forgotten FmTombstone)))) (vp_operation_id demo_revive) = Inr None" by code_simp+
  then have "operation_unused (vp_operation_id demo_revive) (fw_pod (snd (demo_forgotten FmTombstone)))"
    by (auto simp: operation_unused_def list_all_iff)
  moreover have "handleRevive demo_forget_env Observe.demo_config None (\<lambda>_. replicate 64 (CHR ''b'')) True demo_revive (snd (demo_forgotten FmTombstone))
      = (Inr (projr (fst demo_revived)), snd demo_revived)"
    using demo_revive_ok by (cases "fst demo_revived") (simp_all add: demo_revived_def [symmetric] prod_eq_iff)
  ultimately obtain u dir2 where "st_log (fw_store (snd demo_revived)) = Some dir2" "readLatestVersion (fe_sha demo_forget_env) dir2 ''claim_a'' = Inr (Some u)"
      "cv_version u = cv_version demo_remembered + 2" "cv_body u = cv_body demo_remembered"
    using forget_revive_roundtrip [OF demo_forget_ready(2,1) demo_forget_facts(1-5) unused demo_run [OF demo_forget_ok] tomb _ refl] by blast
  then show ?thesis by (auto simp: demo_remembered_def demo_version_def)
qed

theorem redaction_retry_conflicts_witness:
  "fst (handleForget demo_forget_env Observe.demo_config None (demo_forget FmRedact) (snd (demo_forgotten FmRedact))) = conflict"
proof -
  have new: "fr_audit_observation_id (projr (fst (demo_forgotten FmRedact))) \<notin> r_id ` set (l0_rows (ow_index (fw_pod demo_forget_world)))"
    by (simp add: demo_forget_world_def demo_world_def)
  show ?thesis
    using redaction_retry_conflicts [OF demo_forget_ready(2,1) demo_forget_facts(1,2) _ demo_forget_facts(4-6) demo_forget_ready(3)
      demo_run [OF demo_redact_ok] new refl refl refl] by simp
qed

end
