(* ===== verification/Revise.thy ===== *)
theory Revise
  imports Forget Relations
begin

text \<open>
  The REVISE handler (\<^verbatim>\<open>protocol/revise.ts\<close>): a user's revision of the metadata of a claim (relations,
  confidence, tag, evidence, authorship), and the re-pick of the surviving duplicate of a fact. Both write new claim
  versions under an intent and a commit signal and answer a committed call from the operations log. The world is the one of the
  FORGET handler; the hash of the payload and the fresh relation ids are parameters.
  The test hooks of the handler are not modelled.
\<close>

section \<open>Parameters\<close>

record relation_request =
  rq_kind :: relation_kind
  rq_target :: string
  rq_valid_at :: string
  rq_target_claim_version :: int

record revise_params =
  zp_actor :: actor
  zp_target :: string
  zp_expected_base_version :: int
  zp_add_relations :: "relation_request list option"
  zp_set_confidence :: "confidence_bucket option"
  zp_set_epistemic_tag :: "epistemic_tag option"
  zp_add_derived_from :: "string list option"
  zp_invalidate_relations :: "string list option"
  zp_adopt_body :: "bool option"
  zp_repick_survivor :: "bool option"
  zp_reason :: string
  zp_operation_id :: string

record revise_payload =
  zy_actor_id :: string
  zy_target :: string
  zy_expected_base_version :: int
  zy_add_relations :: "relation_request list"
  zy_set_confidence :: "confidence_bucket option"
  zy_set_epistemic_tag :: "epistemic_tag option"
  zy_add_derived_from :: "string list"
  zy_invalidate_relations :: "string list"
  zy_adopt_body :: bool
  zy_repick_survivor :: "bool option"
  zy_reason :: string

record revise_result =
  zr_claim_id :: string
  zr_new_version :: int
  zr_epistemic_owner :: claim_author
  zr_operation_id :: string
  zr_superseded_by :: "string option"
  zr_demoted :: "string list option"

record revise_env =
  ze_base :: forget_env
  ze_hash :: "revise_payload \<Rightarrow> string"
  ze_ulid :: "nat \<Rightarrow> string"

abbreviation ze_store :: "revise_env \<Rightarrow> store_env" where
  "ze_store env \<equiv> av_store (fe_adm (ze_base env))"

definition revisePayload :: "revise_params \<Rightarrow> revise_payload" where
  "revisePayload p =
     \<lparr>zy_actor_id = ac_id (zp_actor p), zy_target = zp_target p, zy_expected_base_version = zp_expected_base_version p,
      zy_add_relations = or_else (zp_add_relations p) [], zy_set_confidence = zp_set_confidence p,
      zy_set_epistemic_tag = zp_set_epistemic_tag p, zy_add_derived_from = or_else (zp_add_derived_from p) [],
      zy_invalidate_relations = or_else (zp_invalidate_relations p) [], zy_adopt_body = or_else (zp_adopt_body p) False,
      zy_repick_survivor = zp_repick_survivor p, zy_reason = zp_reason p\<rparr>"

section \<open>Replaying a committed call\<close>

definition owner_of_detail :: "json option \<Rightarrow> claim_author option" where
  "owner_of_detail j = (if j = Some (JStr ''agent'') then Some AAgent else if j = Some (JStr ''user'') then Some AUser else None)"

definition owner_name :: "claim_author \<Rightarrow> string" where
  "owner_name a = (case a of AAgent \<Rightarrow> ''agent'' | AUser \<Rightarrow> ''user'')"

definition artifact_of_json :: "json \<Rightarrow> claim_artifact option" where
  "artifact_of_json j =
     (case (body_get j ''claim_id'', body_get j ''version'', body_get j ''record_hash'') of
        (Some (JStr c), Some (JNum n), Some (JStr h)) \<Rightarrow> if is_hex64 h then Some \<lparr>xa_claim_id = c, xa_version = n, xa_record_hash = h\<rparr> else None
      | _ \<Rightarrow> None)"

definition artifacts_of_json :: "json list \<Rightarrow> claim_artifact list option" where
  "artifacts_of_json js =
     (if list_all (\<lambda>j. artifact_of_json j \<noteq> None) js then Some (map (\<lambda>j. the (artifact_of_json j)) js) else None)"

text \<open>The demotions a re-pick recorded: none for another REVISE, an error when the three details do not fit together.\<close>

definition repick_of_details :: "op_entry \<Rightarrow> claim_artifact list option option" where
  "repick_of_details e =
     (let flag = entry_detail e ''repick_survivor''; demoted = entry_detail e ''demoted''; records = entry_detail e ''demoted_records'' in
      if flag = None \<and> demoted = None \<and> records = None then Some None
      else if entry_detail e ''superseded_by'' \<noteq> None then None
      else case (flag, demoted, records) of
        (Some (JBool True), Some (JArr ds), Some (JArr rs)) \<Rightarrow>
          (case (json_texts ds, artifacts_of_json rs) of
             (Some ids, Some arts) \<Rightarrow> if ids = map xa_claim_id arts then Some (Some arts) else None
           | _ \<Rightarrow> None)
      | _ \<Rightarrow> None)"

definition revise_result_of :: "string \<Rightarrow> op_entry \<Rightarrow> (revise_result \<times> claim_artifact list) option" where
  "revise_result_of oid e =
     (case (entry_detail e ''claim_id'', entry_detail e ''new_version'', owner_of_detail (entry_detail e ''epistemic_owner''),
            entry_detail e ''record_hash'', entry_detail e ''superseded_by'', repick_of_details e) of
        (Some (JStr c), Some (JNum n), Some a, Some (JStr h), sb, Some repick) \<Rightarrow>
          (case (case sb of None \<Rightarrow> Some None | Some (JStr s) \<Rightarrow> Some (Some s) | _ \<Rightarrow> None) of
             None \<Rightarrow> None
           | Some superseded \<Rightarrow>
               Some (\<lparr>zr_claim_id = c, zr_new_version = n, zr_epistemic_owner = a, zr_operation_id = oid,
                      zr_superseded_by = (if repick = None then superseded else None), zr_demoted = map_option (map xa_claim_id) repick\<rparr>,
                     \<lparr>xa_claim_id = c, xa_version = n, xa_record_hash = h\<rparr> # or_else repick []))
      | _ \<Rightarrow> None)"

definition artifact_found :: "hashes \<Rightarrow> claim_version list \<Rightarrow> claim_artifact \<Rightarrow> bool" where
  "artifact_found hs versions a =
     list_ex (\<lambda>v. cv_claim_id v = xa_claim_id a \<and> cv_version v = xa_version a \<and> hs_version hs v = xa_record_hash a) versions"

definition sync_versions :: "store_env \<Rightarrow> claim_version list \<Rightarrow> claim_store \<Rightarrow> claim_store" where
  "sync_versions E vs st = fold (\<lambda>v. syncFromJsonlVersion E v None False) vs st"

definition revise_committed ::
  "revise_env \<Rightarrow> string \<Rightarrow> string \<Rightarrow> string \<Rightarrow> ops_dir \<Rightarrow> forget_world \<Rightarrow> revise_result option outcome \<times> forget_world" where
  "revise_committed env oid actorId payloadHash ops w =
     (case readAllOpLogEntries ops of
        Inl x \<Rightarrow> (Inl x, w)
      | Inr all \<Rightarrow>
          (let entries = filter (\<lambda>e. oe_operation_id e = oid) all in
           if entries = [] then (Inr None, w)
           else case List.find (\<lambda>e. oe_op e = ''revise.claim'' \<and> oe_actor_id e = actorId
                       \<and> entry_detail e ''payload_hash'' = Some (JStr payloadHash)) entries of
             None \<Rightarrow> (conflict, w)
           | Some e \<Rightarrow>
               (case revise_result_of oid e of
                  None \<Rightarrow> (conflict, w)
                | Some (res, expected) \<Rightarrow>
                    (case iterAllClaimVersions (fe_sha (ze_base env)) (claims_of w) of
                       Inl x \<Rightarrow> (Inl x, w)
                     | Inr vs \<Rightarrow>
                         (let artifacts = filter (\<lambda>v. cv_operation_id v = oid) vs in
                          if length artifacts \<noteq> length expected \<or> \<not> list_all (artifact_found (fe_hs (ze_base env)) artifacts) expected
                          then (conflict, w)
                          else (Inr (Some res), w\<lparr>fw_store := sync_versions (ze_store env) artifacts (fw_store w)\<rparr>))))))"

definition revise_replay_stage ::
  "revise_env \<Rightarrow> mutation_fence option \<Rightarrow> string \<Rightarrow> string \<Rightarrow> string \<Rightarrow> ops_dir \<Rightarrow> forget_world
     \<Rightarrow> (revise_result + (op_intent \<times> revise_body) option) outcome \<times> forget_world" where
  "revise_replay_stage env fence oid actorId payloadHash ops w =
     and_then (revise_committed env oid actorId payloadHash ops w)
       (\<lambda>done_before w. case done_before of
          Some r \<Rightarrow> (Inr (Inl r), w)
        | None \<Rightarrow>
            (case readOperationIntent (ow_intents (fw_pod w)) oid of
               Inl x \<Rightarrow> (Inl x, w)
             | Inr None \<Rightarrow> (Inr (Inr None), w)
             | Inr (Some i) \<Rightarrow>
                 (case it_body i of
                    IRevise b \<Rightarrow>
                      if it_actor_id i \<noteq> actorId \<or> it_payload_hash i \<noteq> payloadHash then (conflict, w)
                      else
                        (case runRecovery (fe_others (ze_base env)) (fe_now_iso (ze_base env)) (fe_hs (ze_base env))
                                \<lparr>rx_evidence = None, rx_claims = Some (claims_of w), rx_wiki = None, rx_fenced = (fence \<noteq> None)\<rparr>
                                ops (ow_intents (fw_pod w)) (ow_fence (fw_pod w)) of
                           (rep, ops', intents', f') \<Rightarrow>
                             (let w1 = w\<lparr>fw_pod := (fw_pod w)\<lparr>ow_ops := Some ops', ow_intents := intents', ow_fence := f'\<rparr>\<rparr> in
                              case rep of
                                Inl x \<Rightarrow> (Inl x, w1)
                              | Inr _ \<Rightarrow>
                                  and_then (revise_committed env oid actorId payloadHash ops' w1)
                                    (\<lambda>recovered w2. case recovered of
                                       Some r \<Rightarrow> (Inr (Inl r), w2)
                                     | None \<Rightarrow>
                                         (case iterAllClaimVersions (fe_sha (ze_base env)) (claims_of w2) of
                                            Inl x \<Rightarrow> (Inl x, w2)
                                          | Inr vs \<Rightarrow> if list_ex (\<lambda>v. cv_operation_id v = oid) vs then (conflict, w2) else (Inr (Inr (Some (i, b))), w2)))))
                  | _ \<Rightarrow> (conflict, w))))"

section \<open>The revised version\<close>

definition some_items :: "'a list option \<Rightarrow> bool" where
  "some_items xs = (or_else xs [] \<noteq> [])"

definition isAdjudicating :: "revise_params \<Rightarrow> bool" where
  "isAdjudicating p =
     (some_items (zp_add_relations p) \<or> zp_set_confidence p \<noteq> None \<or> zp_set_epistemic_tag p \<noteq> None
      \<or> some_items (zp_invalidate_relations p) \<or> zp_adopt_body p = Some True)"

definition relation_ids :: "revise_env \<Rightarrow> revise_params \<Rightarrow> (op_intent \<times> revise_body) option \<Rightarrow> string list" where
  "relation_ids env p existing =
     (case existing of Some (_, b) \<Rightarrow> rb_relation_ids b
      | None \<Rightarrow> map (\<lambda>n. ''rel_'' @ ze_ulid env n) [0..<length (or_else (zp_add_relations p) [])])"

definition requested_relations :: "string list \<Rightarrow> revise_params \<Rightarrow> add_relation list" where
  "requested_relations ids p =
     map (\<lambda>(n, r). \<lparr>ar_relation_id = (if n < length ids then ids ! n else []), ar_kind = rq_kind r, ar_target = rq_target r, ar_valid_at = rq_valid_at r\<rparr>)
       (enumerate 0 (or_else (zp_add_relations p) []))"

text \<open>Without a database the relations are admitted without the check for cycles.\<close>

definition admitted_relations ::
  "claim_db option \<Rightarrow> string \<Rightarrow> string \<Rightarrow> add_relation list \<Rightarrow> string list \<Rightarrow> claim_relation list \<Rightarrow> claim_relation list outcome" where
  "admitted_relations db target preparedAt adds inval latest =
     (case db of
        Some d \<Rightarrow> revise_relations d target preparedAt adds inval latest
      | None \<Rightarrow>
          if list_ex (\<lambda>a. \<not> isCanonicalRelationValid (ar_kind a) RoUser) adds then Inl (ProtocolError ''invalid_relation'' NoDetails)
          else invalidate_relations preparedAt inval
            (latest @ map (\<lambda>a. \<lparr>cr_relation_id = ar_relation_id a, cr_kind = ar_kind a, cr_target = ar_target a, cr_valid_at = ar_valid_at a,
                               cr_invalid_at = None, cr_origin = RoUser\<rparr>) adds))"

definition fresh_lineage :: "claim_version \<Rightarrow> version_lineage" where
  "fresh_lineage latest =
     \<lparr>vl_supersedes = Some (cv_version latest), vl_superseded_by = None, vl_superseded_at = None, vl_superseded_by_user = False,
      vl_reinstated_by_user = False, vl_endorsement_source = None, vl_revived_via = None\<rparr>"

definition owner_of :: "claim_version \<Rightarrow> claim_author" where
  "owner_of v = or_else (cv_epistemic_owner v) (cv_author v)"

definition revised_of :: "revise_params \<Rightarrow> string \<Rightarrow> claim_relation list \<Rightarrow> claim_version \<Rightarrow> claim_version" where
  "revised_of p now relations latest =
     carryDemotion
       (latest\<lparr>cv_version := cv_version latest + 1,
         cv_author := (if zp_adopt_body p = Some True then AUser else cv_author latest),
         cv_epistemic_owner := Some (if isAdjudicating p then AUser else owner_of latest),
         cv_confidence := or_else (zp_set_confidence p) (cv_confidence latest),
         cv_epistemic_tag := or_else (zp_set_epistemic_tag p) (cv_epistemic_tag latest),
         cv_derived_from := (case zp_add_derived_from p of None \<Rightarrow> cv_derived_from latest | Some ds \<Rightarrow> js_set (cv_derived_from latest @ ds)),
         cv_relations := relations, cv_version_at := now, cv_operation_id := zp_operation_id p, cv_actor_id := ac_id (zp_actor p),
         cv_lineage := fresh_lineage latest\<rparr>) latest"

definition artifact_of :: "hashes \<Rightarrow> claim_version \<Rightarrow> claim_artifact" where
  "artifact_of hs v = \<lparr>xa_claim_id = cv_claim_id v, xa_version = cv_version v, xa_record_hash = hs_version hs v\<rparr>"

definition revise_body_of :: "hashes \<Rightarrow> revise_params \<Rightarrow> string list \<Rightarrow> claim_artifact list option \<Rightarrow> claim_version \<Rightarrow> revise_body" where
  "revise_body_of hs p ids repick v =
     \<lparr>rb_artifact = artifact_of hs v, rb_relation_ids = ids, rb_repick = repick, rb_result_claim_id = cv_claim_id v, rb_result_version = cv_version v,
      rb_owner_is_user = (owner_of v = AUser), rb_result_operation_id = zp_operation_id p, rb_superseded_by = vl_superseded_by (cv_lineage v),
      rb_demoted = map_option (map xa_claim_id) repick, rb_details_claim_id = cv_claim_id v, rb_details_version = cv_version v\<rparr>"

definition revise_intent :: "commit_stamp option \<Rightarrow> revise_params \<Rightarrow> string \<Rightarrow> string \<Rightarrow> revise_body \<Rightarrow> op_intent" where
  "revise_intent stamp p payloadHash now b =
     \<lparr>it_operation_id = zp_operation_id p, it_actor_id = ac_id (zp_actor p), it_payload_hash = payloadHash, it_fence = stamp,
      it_prepared_at = now, it_body = IRevise b\<rparr>"

definition revise_commit_entry :: "op_intent \<Rightarrow> revise_body \<Rightarrow> op_entry" where
  "revise_commit_entry i b =
     \<lparr>oe_operation_id = it_operation_id i, oe_actor_id = it_actor_id i, oe_timestamp = it_prepared_at i, oe_op = ''revise.claim'',
      oe_details = Some ([(''payload_hash'', JStr (it_payload_hash i)), (''claim_id'', JStr (rb_result_claim_id b)),
          (''new_version'', JNum (rb_result_version b)), (''epistemic_owner'', JStr (if rb_owner_is_user b then ''user'' else ''agent'')),
          (''record_hash'', JStr (xa_record_hash (rb_artifact b)))]
        @ (case rb_repick b of
             None \<Rightarrow> opt_detail ''superseded_by'' (map_option JStr (rb_superseded_by b))
           | Some arts \<Rightarrow> [(''repick_survivor'', JBool True), (''demoted'', JArr (map (\<lambda>a. JStr (xa_claim_id a)) arts)),
               (''demoted_records'', JArr (map artifact_json arts))]))\<rparr>"

section \<open>Committing\<close>

definition append_versions :: "claim_version list \<Rightarrow> forget_world \<Rightarrow> forget_world" where
  "append_versions vs w = w\<lparr>fw_store := (fw_store w)\<lparr>st_log := Some (appendClaimVersions vs (claims_of w))\<rparr>\<rparr>"

definition commit_versions ::
  "forget_env \<Rightarrow> mutation_fence option \<Rightarrow> op_intent \<Rightarrow> op_entry \<Rightarrow> claim_version list \<Rightarrow> ops_dir \<Rightarrow> forget_world \<Rightarrow> unit outcome \<times> forget_world" where
  "commit_versions env fence i entry vs ops w =
     (case persistOperationIntent i True (ow_intents (fw_pod w)) of
        (Inl x, ints) \<Rightarrow> (Inl x, w\<lparr>fw_pod := (fw_pod w)\<lparr>ow_intents := ints\<rparr>\<rparr>)
      | (Inr _, ints) \<Rightarrow>
          (let w1 = append_versions vs (w\<lparr>fw_pod := (fw_pod w)\<lparr>ow_intents := ints\<rparr>\<rparr>); pod = fw_pod w1 in
           case appendCommittedOpLogEntries (fe_now_iso env) [entry] fence \<lparr>cw_ops = ops, cw_fence = ow_fence pod\<rparr> of
             (Inl x, cw) \<Rightarrow> (Inl x, w1\<lparr>fw_pod := pod\<lparr>ow_ops := Some (cw_ops cw), ow_fence := cw_fence cw\<rparr>\<rparr>)
           | (Inr _, cw) \<Rightarrow> (Inr (), w1\<lparr>fw_pod := pod\<lparr>ow_ops := Some (cw_ops cw), ow_fence := cw_fence cw,
                 ow_intents := snd (removeOperationIntent (it_operation_id i) (ow_intents pod))\<rparr>\<rparr>)))"

definition finish_revise :: "revise_env \<Rightarrow> revise_params \<Rightarrow> claim_version \<Rightarrow> claim_version list \<Rightarrow> string list option
    \<Rightarrow> unit outcome \<times> forget_world \<Rightarrow> revise_result outcome \<times> forget_world" where
  "finish_revise env p v vs demoted committed =
     and_then committed
       (\<lambda>_ w. (Inr \<lparr>zr_claim_id = cv_claim_id v, zr_new_version = cv_version v, zr_epistemic_owner = owner_of v, zr_operation_id = zp_operation_id p,
                    zr_superseded_by = vl_superseded_by (cv_lineage v), zr_demoted = demoted\<rparr>,
               w\<lparr>fw_store := sync_versions (ze_store env) vs (fw_store w)\<rparr>))"

definition commit_revise ::
  "revise_env \<Rightarrow> mutation_fence option \<Rightarrow> revise_params \<Rightarrow> string \<Rightarrow> (op_intent \<times> revise_body) option \<Rightarrow> string \<Rightarrow> string list \<Rightarrow> claim_version
     \<Rightarrow> forget_world \<Rightarrow> revise_result outcome \<times> forget_world" where
  "commit_revise env fence p payloadHash existing now ids v w =
     finish_revise env p v [v] None
       (case ow_ops (fw_pod w) of
          None \<Rightarrow> (Inr (), append_versions [v] w)
        | Some ops \<Rightarrow>
            (let b = revise_body_of (fe_hs (ze_base env)) p ids None v; i = revise_intent (Option.bind fence mf_stamp) p payloadHash now b in
             if existing \<noteq> None \<and> xa_record_hash (rb_artifact (snd (the existing))) \<noteq> hs_version (fe_hs (ze_base env)) v then (conflict, w)
             else commit_versions (ze_base env) fence i (revise_commit_entry i b) [v] ops w))"

section \<open>Re-picking the survivor\<close>

definition combinedActions :: "revise_params \<Rightarrow> bool" where
  "combinedActions p = (isAdjudicating p \<or> some_items (zp_add_derived_from p))"

definition released_of :: "revise_params \<Rightarrow> string \<Rightarrow> claim_version \<Rightarrow> claim_version" where
  "released_of p now latest =
     latest\<lparr>cv_version := cv_version latest + 1, cv_epistemic_owner := Some AUser, cv_version_at := now, cv_operation_id := zp_operation_id p,
       cv_actor_id := ac_id (zp_actor p), cv_lineage := (fresh_lineage latest)\<lparr>vl_reinstated_by_user := True\<rparr>\<rparr>"

definition demoted_of :: "revise_params \<Rightarrow> string \<Rightarrow> string \<Rightarrow> claim_version \<Rightarrow> claim_version" where
  "demoted_of p now releasedId other =
     other\<lparr>cv_version := cv_version other + 1, cv_version_at := now, cv_operation_id := zp_operation_id p, cv_actor_id := ac_id (zp_actor p),
       cv_lineage := (fresh_lineage other)\<lparr>vl_superseded_by := Some releasedId, vl_superseded_at := Some now, vl_superseded_by_user := True\<rparr>\<rparr>"

fun demote_all :: "(string \<Rightarrow> string) \<Rightarrow> claims_dir \<Rightarrow> revise_params \<Rightarrow> string \<Rightarrow> string \<Rightarrow> claim list \<Rightarrow> claim_version list outcome" where
  "demote_all sha dir p now releasedId [] = Inr []"
| "demote_all sha dir p now releasedId (m # ms) =
     (case readLatestVersion sha dir (cl_id m) of
        Inl x \<Rightarrow> Inl x
      | Inr None \<Rightarrow> conflict
      | Inr (Some other) \<Rightarrow>
          if cv_state other \<noteq> CsActive then conflict
          else (case demote_all sha dir p now releasedId ms of Inl x \<Rightarrow> Inl x | Inr ds \<Rightarrow> Inr (demoted_of p now releasedId other # ds)))"

definition fact_matches :: "store_env \<Rightarrow> claim \<Rightarrow> claim_store \<Rightarrow> claim list" where
  "fact_matches E row st = findActiveFactMatches E (cl_subject_id row) (cl_predicate row) (cl_scope row) (cl_object row) st"

definition repickSurvivor ::
  "revise_env \<Rightarrow> revise_params \<Rightarrow> string \<Rightarrow> (op_intent \<times> revise_body) option \<Rightarrow> claim_version \<Rightarrow> forget_world
     \<Rightarrow> revise_result outcome \<times> forget_world" where
  "repickSurvivor env p payloadHash existing latest w =
     (if combinedActions p then (Inl (ProtocolError ''invalid_parameter'' NoDetails), w)
      else if vl_superseded_by (cv_lineage latest) = None then (Inl (ProtocolError ''not_demoted'' NoDetails), w)
      else case getClaim (zp_target p) (fw_store w) of
        None \<Rightarrow> (Inl (ProtocolError ''claim_not_found'' NoDetails), w)
      | Some row \<Rightarrow>
          (let factMatches = fact_matches (ze_store env) row (fw_store w) in
           if list_ex (\<lambda>m. cl_id m = zp_target p) factMatches then (conflict, w)
           else
             (let now = (case existing of Some (i, _) \<Rightarrow> it_prepared_at i | None \<Rightarrow> fe_now_iso (ze_base env)); released = released_of p now latest in
              case demote_all (fe_sha (ze_base env)) (claims_of w) p now (cv_claim_id released) factMatches of
                Inl x \<Rightarrow> (Inl x, w)
              | Inr demoted \<Rightarrow>
                  finish_revise env p released (released # demoted) (Some (map cv_claim_id demoted))
                    (case ow_ops (fw_pod w) of
                       None \<Rightarrow> (Inr (), append_versions (released # demoted) w)
                     | Some ops \<Rightarrow>
                         (let arts = map (artifact_of (fe_hs (ze_base env))) demoted; b = revise_body_of (fe_hs (ze_base env)) p [] (Some arts) released;
                              i = revise_intent None p payloadHash now b in
                          if existing \<noteq> None \<and> (rb_repick (snd (the existing)) \<noteq> Some arts
                               \<or> xa_record_hash (rb_artifact (snd (the existing))) \<noteq> hs_version (fe_hs (ze_base env)) released)
                          then (conflict, w)
                          else commit_versions (ze_base env) None i (revise_commit_entry i b) (released # demoted) ops w)))))"

section \<open>The handler\<close>

definition revise_change ::
  "revise_env \<Rightarrow> mutation_fence option \<Rightarrow> bool \<Rightarrow> revise_params \<Rightarrow> string \<Rightarrow> (op_intent \<times> revise_body) option \<Rightarrow> forget_world
     \<Rightarrow> revise_result outcome \<times> forget_world" where
  "revise_change env fence withDb p payloadHash existing w =
     (case readLatestVersion (fe_sha (ze_base env)) (claims_of w) (zp_target p) of
        Inl x \<Rightarrow> (Inl x, w)
      | Inr None \<Rightarrow> (Inl (ProtocolError ''claim_not_found'' NoDetails), w)
      | Inr (Some latest) \<Rightarrow>
          if cv_state latest \<noteq> CsActive then (Inl (ProtocolError ''claim_forgotten'' NoDetails), w)
          else if cv_version latest \<noteq> zp_expected_base_version p then (conflict, w)
          else if zp_repick_survivor p = Some True then repickSurvivor env p payloadHash existing latest w
          else if some_items (zp_add_derived_from p) \<and> owner_of latest \<noteq> AUser \<and> \<not> isAdjudicating p
          then (Inl (ProtocolError ''invalid_add_derived_from'' NoDetails), w)
          else
            (let now = (case existing of Some (i, _) \<Rightarrow> it_prepared_at i | None \<Rightarrow> fe_now_iso (ze_base env)); ids = relation_ids env p existing in
             case admitted_relations (if withDb then Some (claim_db_of (fw_store w)) else None) (zp_target p) now (requested_relations ids p)
                    (or_else (zp_invalidate_relations p) []) (cv_relations latest) of
               Inl x \<Rightarrow> (Inl x, w)
             | Inr relations \<Rightarrow> commit_revise env fence p payloadHash existing now ids (revised_of p now relations latest) w))"

definition handleRevise ::
  "revise_env \<Rightarrow> smartware_config \<Rightarrow> mutation_fence option \<Rightarrow> bool \<Rightarrow> revise_params \<Rightarrow> forget_world
     \<Rightarrow> revise_result outcome \<times> forget_world" where
  "handleRevise env config fence withDb p w =
     (if \<not> actor_is_user (zp_actor p) then (Inl (ProtocolError ''user_required'' NoDetails), w)
      else case requireRegisteredActor (fe_now (ze_base env)) (ac_id (zp_actor p)) config of
        Inl x \<Rightarrow> (Inl x, w)
      | Inr _ \<Rightarrow>
          if \<not> isValidOperationId (zp_operation_id p) then (Inl (ProtocolError ''invalid_parameter'' NoDetails), w)
          else
            (let payloadHash = ze_hash env (revisePayload p) in
             case ow_ops (fw_pod w) of
               None \<Rightarrow> revise_change env fence withDb p payloadHash None w
             | Some ops \<Rightarrow>
                 and_then (revise_replay_stage env fence (zp_operation_id p) (ac_id (zp_actor p)) payloadHash ops w)
                   (\<lambda>r w1. case r of Inl res \<Rightarrow> (Inr res, w1)
                      | Inr existing \<Rightarrow> revise_change env fence withDb p payloadHash existing w1)))"

section \<open>Lemmas\<close>

lemma observe_or_else_simps [simp]: "Observe.or_else (Some x) d = x" "Observe.or_else None d = d"
  by (simp_all add: Observe.or_else_def)

lemma commit_stale:
  assumes "mf_token f = Some t" and "1 \<le> t" and "t \<le> max_safe_integer" and "t < hw (cw_fence w)"
  shows "\<exists>x w'. appendCommittedOpLogEntries now [e] (Some f) w = (Inl x, w') \<and> cw_ops w' = cw_ops w"
  using assms by (simp add: appendCommittedOpLogEntries_def guardCommit_stale)

lemma commit_versions_stale:
  assumes "mf_token f = Some t" and "1 \<le> t" and "t \<le> max_safe_integer" and "t < hw (ow_fence (fw_pod w))" and "ow_ops (fw_pod w) = Some ops"
  shows "\<exists>x w'. commit_versions env (Some f) i e vs ops w = (Inl x, w') \<and> ow_ops (fw_pod w') = Some ops"
proof -
  obtain r ints where p: "persistOperationIntent i True (ow_intents (fw_pod w)) = (r, ints)" by fastforce
  obtain x w' where "appendCommittedOpLogEntries (fe_now_iso env) [e] (Some f) \<lparr>cw_ops = ops, cw_fence = ow_fence (fw_pod w)\<rparr> = (Inl x, w')" "cw_ops w' = ops"
    using commit_stale [OF assms(1-3), of "\<lparr>cw_ops = ops, cw_fence = ow_fence (fw_pod w)\<rparr>" "fe_now_iso env" e] assms(4) by auto
  then show ?thesis using p assms(5) by (cases r) (simp_all add: commit_versions_def append_versions_def Let_def)
qed

lemma commit_versions_unfenced: "ow_fence (fw_pod (snd (commit_versions env None i e vs ops w))) = ow_fence (fw_pod w)"
  by (simp add: commit_versions_def append_versions_def appendCommittedOpLogEntries_def Let_def split: prod.split sum.split)

lemma commit_versions_store:
  "commit_versions env fence i e vs ops w = (Inr u, w') \<Longrightarrow> fw_store w' = fw_store (append_versions vs w)"
  by (auto simp: commit_versions_def append_versions_def claims_of_def Let_def split: prod.splits sum.splits)

text \<open>A call under an operation id that was never used goes straight to the change.\<close>

definition ops_readable :: "observe_world \<Rightarrow> bool" where
  "ops_readable pod = (case ow_ops pod of None \<Rightarrow> True | Some ops \<Rightarrow> is_ok (readAllOpLogEntries ops))"

lemma handleRevise_unused:
  assumes "operation_unused (zp_operation_id p) (fw_pod w)" and "ops_readable (fw_pod w)"
  shows "handleRevise env config fence withDb p w =
    (if \<not> actor_is_user (zp_actor p) then (Inl (ProtocolError ''user_required'' NoDetails), w)
     else case requireRegisteredActor (fe_now (ze_base env)) (ac_id (zp_actor p)) config of
       Inl x \<Rightarrow> (Inl x, w)
     | Inr _ \<Rightarrow> if \<not> isValidOperationId (zp_operation_id p) then (Inl (ProtocolError ''invalid_parameter'' NoDetails), w)
        else revise_change env fence withDb p (ze_hash env (revisePayload p)) None w)"
proof (cases "ow_ops (fw_pod w)")
  case (Some ops)
  then obtain es where "readAllOpLogEntries ops = Inr es" using assms(2) by (cases "readAllOpLogEntries ops") (auto simp: ops_readable_def)
  then have "revise_replay_stage env fence (zp_operation_id p) a h ops w = (Inr (Inr None), w)" for a h
    using assms(1) Some by (simp add: operation_unused_def revise_replay_stage_def revise_committed_def filter_empty_conv)
  then show ?thesis using Some by (simp add: handleRevise_def Let_def split: sum.split)
qed (simp add: handleRevise_def Let_def split: sum.split)

lemma revise_ran:
  assumes "handleRevise env config fence withDb p w = (Inr res, w1)" and "operation_unused (zp_operation_id p) (fw_pod w)"
  shows "revise_change env fence withDb p (ze_hash env (revisePayload p)) None w = (Inr res, w1)"
proof -
  have "ops_readable (fw_pod w)"
  proof (cases "ow_ops (fw_pod w)")
    case (Some ops)
    then show ?thesis using assms(1)
      by (cases "readAllOpLogEntries ops")
         (auto simp: ops_readable_def handleRevise_def Let_def revise_replay_stage_def revise_committed_def split: if_splits sum.splits)
  qed (simp add: ops_readable_def)
  then show ?thesis using assms by (simp add: handleRevise_unused split: if_splits sum.splits)
qed

lemma finish_fence [simp]: "ow_fence (fw_pod (snd (finish_revise env p v vs d c))) = ow_fence (fw_pod (snd c))"
  by (simp add: finish_revise_def and_then_def split: prod.split sum.split)

lemma repick_fence: "ow_fence (fw_pod (snd (repickSurvivor env p h existing latest w))) = ow_fence (fw_pod w)"
  by (auto simp: repickSurvivor_def append_versions_def commit_versions_unfenced Let_def split: option.split sum.split)

lemma revise_repick:
  assumes "zp_repick_survivor p = Some True"
  shows "revise_change env fence withDb p h existing w = revise_change env None withDb p h existing w"
    "ow_fence (fw_pod (snd (revise_change env fence withDb p h existing w))) = ow_fence (fw_pod w)"
  using assms by (simp_all add: revise_change_def repick_fence split: sum.split option.split)

text \<open>The rows after a list of versions of distinct claims was mirrored.\<close>

lemma sync_versions_rows:
  assumes "distinct (map cv_claim_id vs)"
  shows "v \<in> set vs \<Longrightarrow> \<exists>ex e. getClaim (cv_claim_id v) (sync_versions E vs st) = Some (rowToClaim (version_row v None ex e))"
    and "k \<notin> cv_claim_id ` set vs \<Longrightarrow> getClaim k (sync_versions E vs st) = getClaim k st"
    and "keys_unique cl_id (st_claims st) \<Longrightarrow> keys_unique cl_id (st_claims (sync_versions E vs st))"
  using assms
proof (induction vs arbitrary: st k)
  case Nil
  { case 1 then show ?case by simp }
  { case 2 then show ?case by (simp add: sync_versions_def) }
  { case 3 then show ?case by (simp add: sync_versions_def) }
next
  case (Cons u vs)
  let ?s = "\<lambda>st. syncFromJsonlVersion E u None False st"
  have step: "sync_versions E (u # vs) st = sync_versions E vs (?s st)" for st by (simp add: sync_versions_def)
  { case 1 then show ?case
      using Cons.IH(1) [of "?s st"] Cons.IH(2) [of "cv_claim_id u" "?s st"] synced(1) [of st st u E] unfolding step by (cases "v = u") auto }
  { case 2 then show ?case using Cons.IH(2) [of k "?s st"] synced(2) [of st st k u E] unfolding step by simp }
  { case 3
    obtain e where "st_claims (?s st) = ins_replace cl_id (version_row u None (getClaim (cv_claim_id u) st) e) (st_claims st)" by (rule sync_claims)
    then show ?case using 3 Cons.IH(3) [of "?s st"] unfolding step by (simp add: keys_unique_ins_replace) }
qed

lemma revised_simps [simp]:
  "cv_claim_id (revised_of p now rels v) = cv_claim_id v" "cv_version (revised_of p now rels v) = cv_version v + 1"
  "cv_body (revised_of p now rels v) = cv_body v" "cv_state (revised_of p now rels v) = cv_state v"
  "cv_epistemic_owner (revised_of p now rels v) = Some (if isAdjudicating p then AUser else owner_of v)"
  "cv_fingerprint (revised_of p now rels v) = cv_fingerprint v" "cv_scope (revised_of p now rels v) = cv_scope v"
  "cv_claim_type (revised_of p now rels v) = cv_claim_type v" "cv_claim_role (revised_of p now rels v) = cv_claim_role v"
  "cv_created_at (revised_of p now rels v) = cv_created_at v" "cv_relations (revised_of p now rels v) = rels"
  "cv_author (revised_of p now rels v) = (if zp_adopt_body p = Some True then AUser else cv_author v)"
  "cv_confidence (revised_of p now rels v) = or_else (zp_set_confidence p) (cv_confidence v)"
  "cv_epistemic_tag (revised_of p now rels v) = or_else (zp_set_epistemic_tag p) (cv_epistemic_tag v)"
  "vl_superseded_by (cv_lineage (revised_of p now rels v)) = vl_superseded_by (cv_lineage v)"
  by (simp_all add: revised_of_def carryDemotion_def cv_state_def fresh_lineage_def split: option.split)

lemma revised_status: "version_status (revised_of p now rels v) = version_status v"
  by (simp add: version_status_def version_superseded_by_def split: claim_state.split)

lemma invalidate_first_ids: "invalidate_first rid tm rels = Some rels' \<Longrightarrow> map cr_relation_id rels' = map cr_relation_id rels"
  by (induction rid tm rels arbitrary: rels' rule: invalidate_first.induct) (auto split: if_splits)

lemma invalidate_ids: "invalidate_relations tm rids rels = Inr rels' \<Longrightarrow> map cr_relation_id rels' = map cr_relation_id rels"
  by (induction tm rids rels rule: invalidate_relations.induct) (auto dest: invalidate_first_ids split: option.splits)

lemma admit_ids:
  "admit_relations db t rels adds = Inr rels' \<Longrightarrow> map cr_relation_id rels' = map cr_relation_id rels @ map ar_relation_id adds"
  by (induction db t rels adds rule: admit_relations.induct) (auto split: if_splits)

lemma admitted_ids:
  "admitted_relations db t now adds inval rels = Inr rels' \<Longrightarrow> map cr_relation_id rels' = map cr_relation_id rels @ map ar_relation_id adds"
  by (auto simp: admitted_relations_def revise_relations_def dest!: admit_ids invalidate_ids split: option.splits sum.splits if_splits)

text \<open>What a REVISE that is not a re-pick did when it succeeded.\<close>

text \<open>The relations a revision may lead to: those before, then the requested ones as they were requested, each as it is or, if its id is
  among those to invalidate, invalid from now on.\<close>

definition relation_admitted :: "add_relation \<Rightarrow> claim_relation" where
  "relation_admitted a = \<lparr>cr_relation_id = ar_relation_id a, cr_kind = ar_kind a, cr_target = ar_target a, cr_valid_at = ar_valid_at a,
     cr_invalid_at = None, cr_origin = RoUser\<rparr>"

definition relations_revised :: "string list \<Rightarrow> string \<Rightarrow> claim_relation list \<Rightarrow> claim_relation list \<Rightarrow> bool" where
  "relations_revised inval now former rels =
     (list_all2 (\<lambda>r r'. r' = r \<or> cr_relation_id r \<in> set inval \<and> r' = r\<lparr>cr_invalid_at := Some now\<rparr>) former rels
      \<and> (\<forall>rid \<in> set inval. \<exists>r \<in> set rels. cr_relation_id r = rid \<and> cr_invalid_at r = Some now))"

lemma invalidate_first_revised:
  assumes "invalidate_first rid tm rels = Some rels'"
  shows "list_all2 (\<lambda>r r'. r' = r \<or> cr_relation_id r = rid \<and> r' = r\<lparr>cr_invalid_at := Some tm\<rparr>) rels rels'
    \<and> (\<exists>r \<in> set rels'. cr_relation_id r = rid \<and> cr_invalid_at r = Some tm)"
  using assms
proof (induction rid tm rels arbitrary: rels' rule: invalidate_first.induct)
  case (2 rid tm r rs)
  show ?case
  proof (cases "cr_relation_id r = rid")
    case True
    then show ?thesis using 2(2) by (auto simp: list.rel_refl)
  next
    case False
    then obtain rs' where "invalidate_first rid tm rs = Some rs'" "rels' = r # rs'" using 2(2) by auto
    with 2(1) [OF False this(1)] show ?thesis by auto
  qed
qed simp

lemma invalidate_revised: "invalidate_relations tm rids rels = Inr rels' \<Longrightarrow> relations_revised rids tm rels rels'"
proof (induction tm rids rels rule: invalidate_relations.induct)
  case (1 tm rels)
  then show ?case by (simp add: relations_revised_def list.rel_refl)
next
  case (2 tm rid rids rels)
  then obtain mid where mid: "invalidate_first rid tm rels = Some mid" "invalidate_relations tm rids mid = Inr rels'"
    by (auto split: option.splits)
  have first: "list_all2 (\<lambda>r r'. r' = r \<or> cr_relation_id r = rid \<and> r' = r\<lparr>cr_invalid_at := Some tm\<rparr>) rels mid"
    "\<exists>r \<in> set mid. cr_relation_id r = rid \<and> cr_invalid_at r = Some tm"
    using invalidate_first_revised [OF mid(1)] by auto
  have rest: "list_all2 (\<lambda>r r'. r' = r \<or> cr_relation_id r \<in> set rids \<and> r' = r\<lparr>cr_invalid_at := Some tm\<rparr>) mid rels'"
    "\<forall>x \<in> set rids. \<exists>r \<in> set rels'. cr_relation_id r = x \<and> cr_invalid_at r = Some tm"
    using 2(1) [OF mid] by (auto simp: relations_revised_def)
  have "list_all2 (\<lambda>r r'. r' = r \<or> cr_relation_id r \<in> set (rid # rids) \<and> r' = r\<lparr>cr_invalid_at := Some tm\<rparr>) rels rels'"
    by (rule list_all2_trans [OF _ first(1) rest(1)]) auto
  moreover have "\<exists>r \<in> set rels'. cr_relation_id r = rid \<and> cr_invalid_at r = Some tm"
  proof -
    obtain k where k: "k < length mid" "cr_relation_id (mid ! k) = rid" "cr_invalid_at (mid ! k) = Some tm"
      using first(2) by (metis in_set_conv_nth)
    then have "rels' ! k = mid ! k \<or> rels' ! k = (mid ! k)\<lparr>cr_invalid_at := Some tm\<rparr>" using list_all2_nthD [OF rest(1) k(1)] by auto
    then have "cr_relation_id (rels' ! k) = rid \<and> cr_invalid_at (rels' ! k) = Some tm" using k(2,3) by auto
    moreover have "k < length rels'" using k(1) list_all2_lengthD [OF rest(1)] by simp
    ultimately show ?thesis by (metis nth_mem)
  qed
  ultimately show ?case using rest(2) by (simp add: relations_revised_def)
qed

lemma map_enumerate: "map (\<lambda>x. g (snd x)) (enumerate n xs) = map g xs"
  by (induction xs arbitrary: n) auto

lemma requested_fields:
  "map ar_kind (requested_relations ids p) = map rq_kind (or_else (zp_add_relations p) [])"
  "map ar_target (requested_relations ids p) = map rq_target (or_else (zp_add_relations p) [])"
  "map ar_valid_at (requested_relations ids p) = map rq_valid_at (or_else (zp_add_relations p) [])"
  by (simp_all add: requested_relations_def comp_def case_prod_beta' map_enumerate)

lemma admit_added: "admit_relations db t rels adds = Inr rels' \<Longrightarrow> rels' = rels @ map relation_admitted adds"
  by (induction db t rels adds rule: admit_relations.induct) (auto simp: relation_admitted_def split: if_splits)

lemma admitted_revised:
  "admitted_relations db t now adds inval rels = Inr rels' \<Longrightarrow> relations_revised inval now (rels @ map relation_admitted adds) rels'"
  by (auto simp: admitted_relations_def revise_relations_def relation_admitted_def [abs_def] dest!: invalidate_revised dest: admit_added
      split: option.splits sum.splits if_splits)

lemma revise_effect:
  assumes "revise_change env fence withDb p h None w = (Inr res, w1)" and "zp_repick_survivor p \<noteq> Some True"
  obtains v rels now where "readLatestVersion (fe_sha (ze_base env)) (claims_of w) (zp_target p) = Inr (Some v)" "cv_state v = CsActive"
    "cv_version v = zp_expected_base_version p" "\<not> (some_items (zp_add_derived_from p) \<and> owner_of v \<noteq> AUser \<and> \<not> isAdjudicating p)"
    "relations_revised (or_else (zp_invalidate_relations p) []) now (cv_relations v @ map relation_admitted (requested_relations (relation_ids env p None) p)) rels"
    "fw_store w1 = sync_versions (ze_store env) [revised_of p now rels v] (fw_store (append_versions [revised_of p now rels v] w))"
    "now = fe_now_iso (ze_base env)"
    "res = \<lparr>zr_claim_id = cv_claim_id v, zr_new_version = cv_version v + 1, zr_epistemic_owner = (if isAdjudicating p then AUser else owner_of v),
       zr_operation_id = zp_operation_id p, zr_superseded_by = vl_superseded_by (cv_lineage v), zr_demoted = None\<rparr>"
proof -
  obtain v where v: "readLatestVersion (fe_sha (ze_base env)) (claims_of w) (zp_target p) = Inr (Some v)" "cv_state v = CsActive"
      "cv_version v = zp_expected_base_version p" "\<not> (some_items (zp_add_derived_from p) \<and> owner_of v \<noteq> AUser \<and> \<not> isAdjudicating p)"
    using assms by (auto simp: revise_change_def split: sum.splits option.splits if_splits)
  let ?now = "fe_now_iso (ze_base env)" and ?ids = "relation_ids env p None"
  obtain rels where rels: "admitted_relations (if withDb then Some (claim_db_of (fw_store w)) else None) (zp_target p) ?now
      (requested_relations ?ids p) (or_else (zp_invalidate_relations p) []) (cv_relations v) = Inr rels"
    and commit: "commit_revise env fence p h None ?now ?ids (revised_of p ?now rels v) w = (Inr res, w1)"
    using assms v by (auto simp: revise_change_def Let_def split: sum.splits)
  have "fw_store w1 = sync_versions (ze_store env) [revised_of p ?now rels v] (fw_store (append_versions [revised_of p ?now rels v] w))"
    "res = \<lparr>zr_claim_id = cv_claim_id v, zr_new_version = cv_version v + 1, zr_epistemic_owner = (if isAdjudicating p then AUser else owner_of v),
       zr_operation_id = zp_operation_id p, zr_superseded_by = vl_superseded_by (cv_lineage v), zr_demoted = None\<rparr>"
    using commit by (auto simp: commit_revise_def finish_revise_def owner_of_def Let_def dest!: and_then_Inr commit_versions_store split: option.splits)
  then show thesis using that v admitted_revised [OF rels] by blast
qed



lemma demote_all_ids:
  "demote_all sha dir p now r ms = Inr ds \<Longrightarrow> map cv_claim_id ds = map cl_id ms
     \<and> (\<forall>d \<in> set ds. cv_state d = CsActive \<and> vl_superseded_by (cv_lineage d) = Some r)"
proof (induction sha dir p now r ms arbitrary: ds rule: demote_all.induct)
  case (2 sha dir p now r m ms)
  from 2(2) obtain v ds' where v: "readLatestVersion sha dir (cl_id m) = Inr (Some v)" "cv_state v = CsActive"
    and ds: "demote_all sha dir p now r ms = Inr ds'" "ds = demoted_of p now r v # ds'"
    by (auto split: sum.splits option.splits if_splits)
  obtain vs where "latest_of vs (cl_id m) = Some v" using v(1) by (auto simp: readLatestVersion_def split: sum.splits)
  then have "cv_claim_id v = cl_id m" using latest_of_greatest by blast
  moreover have "map cv_claim_id ds' = map cl_id ms \<and> (\<forall>d \<in> set ds'. cv_state d = CsActive \<and> vl_superseded_by (cv_lineage d) = Some r)"
    using 2(1) v ds(1) by simp
  moreover have "cv_claim_id (demoted_of p now r v) = cv_claim_id v" "cv_state (demoted_of p now r v) = CsActive"
    "vl_superseded_by (cv_lineage (demoted_of p now r v)) = Some r"
    using v(2) by (simp_all add: demoted_of_def cv_state_def)
  ultimately show ?case using ds(2) by simp
qed simp

lemma released_of_simps [simp]:
  "cv_claim_id (released_of p now v) = cv_claim_id v" "cv_version (released_of p now v) = cv_version v + 1"
  "cv_body (released_of p now v) = cv_body v" "cv_state (released_of p now v) = cv_state v"
  "vl_superseded_by (cv_lineage (released_of p now v)) = None" "owner_of (released_of p now v) = AUser"
  by (simp_all add: released_of_def cv_state_def fresh_lineage_def owner_of_def)

lemma repick_effect:
  assumes "revise_change env fence withDb p h None w = (Inr res, w1)" and "zp_repick_survivor p = Some True"
  obtains v row ds now where "readLatestVersion (fe_sha (ze_base env)) (claims_of w) (zp_target p) = Inr (Some v)" "cv_state v = CsActive"
    "vl_superseded_by (cv_lineage v) \<noteq> None" "getClaim (zp_target p) (fw_store w) = Some row"
    "zp_target p \<notin> cl_id ` set (fact_matches (ze_store env) row (fw_store w))"
    "demote_all (fe_sha (ze_base env)) (claims_of w) p now (cv_claim_id v) (fact_matches (ze_store env) row (fw_store w)) = Inr ds"
    "fw_store w1 = sync_versions (ze_store env) (released_of p now v # ds) (fw_store (append_versions (released_of p now v # ds) w))"
    "zr_demoted res = Some (map cv_claim_id ds)" "zr_new_version res = cv_version v + 1"
proof -
  let ?now = "fe_now_iso (ze_base env)" and ?E = "ze_store env"
  obtain v where v: "readLatestVersion (fe_sha (ze_base env)) (claims_of w) (zp_target p) = Inr (Some v)" "cv_state v = CsActive"
      and run: "repickSurvivor env p h None v w = (Inr res, w1)"
    using assms by (auto simp: revise_change_def split: sum.splits option.splits if_splits)
  obtain row where row: "vl_superseded_by (cv_lineage v) \<noteq> None" "getClaim (zp_target p) (fw_store w) = Some row"
      "\<not> list_ex (\<lambda>m. cl_id m = zp_target p) (fact_matches ?E row (fw_store w))"
    using run by (auto simp: repickSurvivor_def Let_def split: if_splits option.splits)
  obtain ds where ds: "demote_all (fe_sha (ze_base env)) (claims_of w) p ?now (cv_claim_id v) (fact_matches ?E row (fw_store w)) = Inr ds"
    using run row by (auto simp: repickSurvivor_def Let_def split: if_splits sum.splits)
  have eff: "fw_store w1 = sync_versions ?E (released_of p ?now v # ds) (fw_store (append_versions (released_of p ?now v # ds) w))"
    "zr_demoted res = Some (map cv_claim_id ds)" "zr_new_version res = cv_version v + 1"
    using run row ds
    by (auto simp: repickSurvivor_def finish_revise_def Let_def dest!: and_then_Inr commit_versions_store split: if_splits option.splits)
  have "zp_target p \<notin> cl_id ` set (fact_matches ?E row (fw_store w))" using row(3) by (auto simp: list_ex_iff)
  then show thesis by (rule that [OF v row(1,2) _ ds eff])
qed

lemma commit_revise_stale:
  assumes "mf_token f = Some t" and "1 \<le> t" and "t \<le> max_safe_integer" and "t < hw (ow_fence (fw_pod w))" and "ow_ops (fw_pod w) = Some ops"
  shows "\<exists>x w'. commit_revise env (Some f) p h existing now ids v w = (Inl x, w') \<and> ow_ops (fw_pod w') = Some ops"
proof (cases "existing \<noteq> None \<and> xa_record_hash (rb_artifact (snd (the existing))) \<noteq> hs_version (fe_hs (ze_base env)) v")
  case True
  then show ?thesis using assms(5) by (simp add: commit_revise_def finish_revise_def Let_def)
next
  case False
  define b where "b = revise_body_of (fe_hs (ze_base env)) p ids None v"
  define i where "i = revise_intent (mf_stamp f) p h now b"
  obtain x w' where "commit_versions (ze_base env) (Some f) i (revise_commit_entry i b) [v] ops w = (Inl x, w')" "ow_ops (fw_pod w') = Some ops"
    using commit_versions_stale [OF assms] by blast
  then show ?thesis using False assms(5) by (auto simp: commit_revise_def finish_revise_def Let_def i_def b_def)
qed

lemma revise_change_stale:
  assumes "mf_token f = Some t" and "1 \<le> t" and "t \<le> max_safe_integer" and "t < hw (ow_fence (fw_pod w))" and "ow_ops (fw_pod w) = Some ops"
    and "zp_repick_survivor p \<noteq> Some True"
  shows "\<exists>x w'. revise_change env (Some f) withDb p h existing w = (Inl x, w') \<and> ow_ops (fw_pod w') = Some ops"
  using commit_revise_stale [OF assms(1-5)] assms(5,6)
  by (auto simp: revise_change_def Let_def split: sum.split option.split)

section \<open>Properties\<close>

text \<open>C12: REVISE changes the metadata of one claim and nothing else. On a claim log that parses, with at most one line per claim and version:
  when a REVISE that is not a re-pick succeeds under a fresh operation id, the target was active at the expected base version; its next version,
  written at the time of the call by the caller, has the same body, type, role, scope, fingerprint, tags and creation time and is still demoted if it was;
  its relations are the former ones in their order and then the requested ones, with the kind, target and time that were requested, each unchanged
  but for those the call invalidates, which are invalid from the time of the call; its confidence, tag and author are those the call sets, and
  otherwise the former ones; its evidence is the former with what the call adds; it is owned by the user if the call adjudicates
  and by its former owner otherwise; the row keeps its status; and no other claim's latest version or row changes.\<close>

theorem revise_changes_metadata_only:
  assumes "log_ready (ze_base env) (fw_store w) dir vs" and "operation_unused (zp_operation_id p) (fw_pod w)" and "zp_repick_survivor p \<noteq> Some True"
    and run: "handleRevise env config fence withDb p w = (Inr res, w1)"
  shows "\<exists>v u dir1. latest_of vs (zp_target p) = Some v \<and> cv_state v = CsActive \<and> cv_version v = zp_expected_base_version p
    \<and> st_log (fw_store w1) = Some dir1 \<and> readLatestVersion (fe_sha (ze_base env)) dir1 (zp_target p) = Inr (Some u)
    \<and> cv_version u = cv_version v + 1 \<and> zr_new_version res = cv_version u \<and> cv_body u = cv_body v \<and> cv_claim_type u = cv_claim_type v
    \<and> cv_claim_role u = cv_claim_role v \<and> cv_scope u = cv_scope v \<and> cv_fingerprint u = cv_fingerprint v \<and> cv_created_at u = cv_created_at v
    \<and> cv_tags u = cv_tags v \<and> cv_version_at u = fe_now_iso (ze_base env) \<and> cv_actor_id u = ac_id (zp_actor p)
    \<and> relations_revised (or_else (zp_invalidate_relations p) []) (fe_now_iso (ze_base env))
        (cv_relations v @ map relation_admitted (requested_relations (relation_ids env p None) p)) (cv_relations u)
    \<and> map ar_kind (requested_relations (relation_ids env p None) p) = map rq_kind (or_else (zp_add_relations p) [])
    \<and> map ar_target (requested_relations (relation_ids env p None) p) = map rq_target (or_else (zp_add_relations p) [])
    \<and> map ar_valid_at (requested_relations (relation_ids env p None) p) = map rq_valid_at (or_else (zp_add_relations p) [])
    \<and> cv_confidence u = or_else (zp_set_confidence p) (cv_confidence v) \<and> cv_epistemic_tag u = or_else (zp_set_epistemic_tag p) (cv_epistemic_tag v)
    \<and> cv_author u = (if zp_adopt_body p = Some True then AUser else cv_author v)
    \<and> set (cv_derived_from u) = set (cv_derived_from v) \<union> set (or_else (zp_add_derived_from p) [])
    \<and> cv_epistemic_owner u = Some (if isAdjudicating p then AUser else owner_of v)
    \<and> vl_superseded_by (cv_lineage u) = vl_superseded_by (cv_lineage v) \<and> zr_superseded_by res = vl_superseded_by (cv_lineage v)
    \<and> map_option cl_status (getClaim (zp_target p) (fw_store w1)) = Some (version_status v)
    \<and> (\<forall>k. k \<noteq> zp_target p \<longrightarrow> getClaim k (fw_store w1) = getClaim k (fw_store w)
        \<and> readLatestVersion (fe_sha (ze_base env)) dir1 k = readLatestVersion (fe_sha (ze_base env)) dir k)"
proof -
  obtain v rels now where eff: "readLatestVersion (fe_sha (ze_base env)) (claims_of w) (zp_target p) = Inr (Some v)" "cv_state v = CsActive"
    "cv_version v = zp_expected_base_version p"
    "relations_revised (or_else (zp_invalidate_relations p) []) now (cv_relations v @ map relation_admitted (requested_relations (relation_ids env p None) p)) rels"
    "fw_store w1 = sync_versions (ze_store env) [revised_of p now rels v] (fw_store (append_versions [revised_of p now rels v] w))"
    "now = fe_now_iso (ze_base env)"
    "zr_new_version res = cv_version v + 1" "zr_superseded_by res = vl_superseded_by (cv_lineage v)"
    by (rule revise_effect [OF revise_ran [OF run assms(2)] assms(3)]) auto
  let ?u = "revised_of p now rels v"
  have dir: "claims_of w = dir" "st_log (fw_store w) = Some dir" "iterAllClaimVersions (fe_sha (ze_base env)) dir = Inr vs"
    using assms(1) by (simp_all add: log_ready_def claims_of_def)
  have v: "latest_of vs (zp_target p) = Some v" using eff(1) log_latest [OF assms(1)] by (simp add: dir)
  then have id: "cv_claim_id v = zp_target p" "v \<in> set vs" using latest_of_greatest by fastforce+
  let ?sa = "(fw_store w)\<lparr>st_log := Some (appendClaimVersion ?u dir)\<rparr>"
  have st: "fw_store w1 = syncFromJsonlVersion (ze_store env) ?u None False ?sa"
    using eff(5) by (simp add: sync_versions_def append_versions_def dir appendClaimVersion_def)
  have same: "st_claims ?sa = st_claims (fw_store w)" by simp
  note sync = synced [OF same, where v = ?u and E = "ze_store env", folded st]
  obtain ws where ws: "log_ready (ze_base env) (fw_store w1) (appendClaimVersion ?u dir) ws"
    "\<forall>c. latest_of ws c = (if c = cv_claim_id ?u then Some ?u else latest_of vs c)"
    using log_append [OF assms(1), of ?u v "fw_store w1"] v id backfilled_read [OF dir(3) id(2)] sync(3) by auto
  have "set (cv_derived_from ?u) = set (cv_derived_from v) \<union> set (or_else (zp_add_derived_from p) [])"
    by (cases "zp_add_derived_from p") (simp_all add: revised_of_def carryDemotion_def set_js_set split: option.split)
  moreover have "map_option cl_status (getClaim (zp_target p) (fw_store w1)) = Some (version_status v)"
    using sync(1) id(1) revised_status by auto
  moreover have "cv_tags ?u = cv_tags v" "cv_version_at ?u = now" "cv_actor_id ?u = ac_id (zp_actor p)"
    by (simp_all add: revised_of_def carryDemotion_def split: option.split)
  moreover note requested_fields
  ultimately show ?thesis
    using eff v id log_latest [OF ws(1)] ws log_latest [OF assms(1)] sync(2)
    by (intro exI [of _ v] exI [of _ ?u] exI [of _ "appendClaimVersion ?u dir"]) (simp add: log_ready_def)
qed

text \<open>C13: A re-pick leaves one survivor of the fact. When a re-pick succeeds under a fresh operation id, the latest version of its target was
  active and marked as superseded, that is, a demoted duplicate; afterwards the target's row is active, exactly the former active copies of the target's
  fact are demoted, each superseded by the target, and no other active row carries the fact; no other row changes.\<close>

theorem repick_leaves_one_survivor:
  assumes "plan_ok (ze_store env)" and "keys_unique cl_id (st_claims (fw_store w))" and "operation_unused (zp_operation_id p) (fw_pod w)"
    and "zp_repick_survivor p = Some True" and "zp_target p \<noteq> []" and run: "handleRevise env config fence withDb p w = (Inr res, w1)"
  shows "\<exists>v row. readLatestVersion (fe_sha (ze_base env)) (claims_of w) (zp_target p) = Inr (Some v) \<and> cv_state v = CsActive
    \<and> vl_superseded_by (cv_lineage v) \<noteq> None \<and> getClaim (zp_target p) (fw_store w) = Some row
    \<and> map_option cl_status (getClaim (zp_target p) (fw_store w1)) = Some StActive
    \<and> zr_demoted res = Some (map cl_id (fact_matches (ze_store env) row (fw_store w)))
    \<and> (\<forall>c \<in> set (fact_matches (ze_store env) row (fw_store w)). \<exists>d. getClaim (cl_id c) (fw_store w1) = Some d
        \<and> cl_status d = StSuperseded \<and> cl_superseded_by d = Some (zp_target p))
    \<and> (\<forall>c \<in> set (fact_matches (ze_store env) row (fw_store w1)). cl_id c = zp_target p)
    \<and> (\<forall>k. k \<noteq> zp_target p \<longrightarrow> k \<notin> cl_id ` set (fact_matches (ze_store env) row (fw_store w)) \<longrightarrow> getClaim k (fw_store w1) = getClaim k (fw_store w))"
proof -
  obtain v row ds now where eff: "readLatestVersion (fe_sha (ze_base env)) (claims_of w) (zp_target p) = Inr (Some v)" "cv_state v = CsActive"
    "getClaim (zp_target p) (fw_store w) = Some row" "zp_target p \<notin> cl_id ` set (fact_matches (ze_store env) row (fw_store w))"
    "vl_superseded_by (cv_lineage v) \<noteq> None"
    "demote_all (fe_sha (ze_base env)) (claims_of w) p now (cv_claim_id v) (fact_matches (ze_store env) row (fw_store w)) = Inr ds"
    "fw_store w1 = sync_versions (ze_store env) (released_of p now v # ds) (fw_store (append_versions (released_of p now v # ds) w))"
    "zr_demoted res = Some (map cv_claim_id ds)"
    by (rule repick_effect [OF revise_ran [OF run assms(3)] assms(4)]) auto
  let ?E = "ze_store env" and ?ms = "fact_matches (ze_store env) row (fw_store w)" and ?vs = "released_of p now v # ds"
  let ?sa = "fw_store (append_versions ?vs w)"
  have v: "cv_claim_id v = zp_target p" using eff(1) latest_of_greatest by (auto simp: readLatestVersion_def split: sum.splits)
  have ids: "map cv_claim_id ds = map cl_id ?ms" and ds: "\<forall>d \<in> set ds. cv_state d = CsActive \<and> vl_superseded_by (cv_lineage d) = Some (zp_target p)"
    using demote_all_ids [OF eff(6)] v by auto
  have idset: "cv_claim_id ` set ds = cl_id ` set ?ms" using ids by (metis list.set_map)
  have dist: "distinct (map cv_claim_id ?vs)"
    using distinct_fact_matches [OF assms(1,2)] eff(4) ids idset v by (simp add: fact_matches_def)
  have get: "getClaim k ?sa = getClaim k (fw_store w)" and keys: "keys_unique cl_id (st_claims ?sa)" for k
    using assms(2) by (simp_all add: getClaim_def append_versions_def)
  note rows = sync_versions_rows [OF dist, where E = ?E and st = ?sa, folded eff(7)]
  have target: "map_option cl_status (getClaim (zp_target p) (fw_store w1)) = Some StActive"
    using rows(1) [of "released_of p now v"] v eff(2) by (auto simp: version_status_def version_superseded_by_def Claim_Store.truthy_def)
  have demoted: "\<exists>d. getClaim (cl_id c) (fw_store w1) = Some d \<and> cl_status d = StSuperseded \<and> cl_superseded_by d = Some (zp_target p)" if c: "c \<in> set ?ms" for c
  proof -
    obtain d where d: "d \<in> set ds" "cv_claim_id d = cl_id c" using c idset by (metis image_iff)
    then have "version_superseded_by d = Some (zp_target p)" "version_status d = StSuperseded"
      using ds assms(5) by (simp_all add: version_status_def version_superseded_by_def Claim_Store.truthy_def)
    then show ?thesis using rows(1) [of d] d by (auto simp: version_row_def Let_def)
  qed
  have other: "getClaim k (fw_store w1) = getClaim k (fw_store w)" if "k \<noteq> zp_target p" "k \<notin> cl_id ` set ?ms" for k
    using rows(2) [of k] that get v idset by simp
  have "cl_id c = zp_target p" if c: "c \<in> set (fact_matches ?E row (fw_store w1))" for c
  proof (rule ccontr)
    assume k: "cl_id c \<noteq> zp_target p"
    have c1: "getClaim (cl_id c) (fw_store w1) = Some c" "cl_status c = StActive"
      using c fact_match_mem [OF assms(1) rows(3) [OF keys]] by (simp_all add: fact_matches_def)
    show False
    proof (cases "cl_id c \<in> cl_id ` set ?ms")
      case True
      then show False using demoted c1 by force
    next
      case False
      then have "c \<in> set ?ms" using c other [OF k False] c1 fact_match_mem [OF assms(1) rows(3) [OF keys]] fact_match_mem [OF assms(1,2)]
        by (simp add: fact_matches_def)
      then show False using False by blast
    qed
  qed
  then show ?thesis using eff(1-3,5,8) ids target demoted other by (intro exI [of _ v] exI [of _ row]) auto
qed


text \<open>C34: A re-pick is not fenced. A REVISE with a stale epoch never commits: it fails and the operations log stays as it is. But a
  re-pick under a fresh operation id does the same under every fence, a stale one included, as under none, and leaves no trace in the
  fencing store.\<close>

theorem repick_bypasses_fence:
  assumes "operation_unused (zp_operation_id p) (fw_pod w)" and "ops_readable (fw_pod w)"
  shows "(zp_repick_survivor p = Some True \<longrightarrow>
      handleRevise env config fence withDb p w = handleRevise env config None withDb p w
      \<and> ow_fence (fw_pod (snd (handleRevise env config fence withDb p w))) = ow_fence (fw_pod w))
    \<and> (zp_repick_survivor p \<noteq> Some True \<longrightarrow> (\<forall>f t. fence = Some f \<longrightarrow> mf_token f = Some t \<longrightarrow> 1 \<le> t \<longrightarrow> t \<le> max_safe_integer
        \<longrightarrow> t < hw (ow_fence (fw_pod w)) \<longrightarrow> ow_ops (fw_pod w) \<noteq> None
        \<longrightarrow> \<not> is_ok (fst (handleRevise env config fence withDb p w))
          \<and> ow_ops (fw_pod (snd (handleRevise env config fence withDb p w))) = ow_ops (fw_pod w)))"
proof (intro conjI impI allI)
  note run = handleRevise_unused [OF assms]
  assume repick: "zp_repick_survivor p = Some True"
  show "handleRevise env config fence withDb p w = handleRevise env config None withDb p w"
    using revise_repick(1) [OF repick] unfolding run by (auto split: sum.split)
  show "ow_fence (fw_pod (snd (handleRevise env config fence withDb p w))) = ow_fence (fw_pod w)"
    using revise_repick(2) [OF repick] unfolding run by (simp split: sum.split)
next
  note run = handleRevise_unused [OF assms]
  fix f t
  assume plain: "zp_repick_survivor p \<noteq> Some True" and fence: "fence = Some f" "mf_token f = Some t" "1 \<le> t" "t \<le> max_safe_integer"
    "t < hw (ow_fence (fw_pod w))" "ow_ops (fw_pod w) \<noteq> None"
  then obtain ops where ops: "ow_ops (fw_pod w) = Some ops" by auto
  obtain x w' where "revise_change env (Some f) withDb p (ze_hash env (revisePayload p)) None w = (Inl x, w')" "ow_ops (fw_pod w') = Some ops"
    using revise_change_stale [OF fence(2-5) ops plain] by blast
  then show "\<not> is_ok (fst (handleRevise env config fence withDb p w))"
    and "ow_ops (fw_pod (snd (handleRevise env config fence withDb p w))) = ow_ops (fw_pod w)"
    unfolding run fence(1) by (simp_all add: ops split: sum.split)
qed

section \<open>Witnesses\<close>

definition demo_meaning :: claim_semantic where
  "demo_meaning = \<lparr>sm_subject_name = ''Acme'', sm_subject_type = ''organisation'', sm_predicate = ''likes'', sm_object = \<lparr>tv_type = ''text'', tv_value = JStr ''tea''\<rparr>,
     sm_t_valid_from = knownTime ''2026-01-01'', sm_t_valid_to = nullTime, sm_extracted_epistemic = LObserved, sm_extracted_confidence = 1 / 2,
     sm_sensitive = False,
     sm_extraction = \<lparr>ex_method = MDeterministic, ex_model = None, ex_compiler_version = ''0.7.0'', ex_prompt_hash = None, ex_extracted_at = ''2026-01-01''\<rparr>\<rparr>"

definition demo_copy :: "string \<Rightarrow> string option \<Rightarrow> claim_version" where
  "demo_copy c s = (demo_version c 1 ''self'')\<lparr>cv_epistemic_owner := Some AAgent, cv_fingerprint := Some ''f'',
     cv_body := ActiveBody ''tea'' (Some demo_meaning), cv_lineage := (cv_lineage (demo_version c 1 ''self''))\<lparr>vl_superseded_by := s\<rparr>\<rparr>"

definition demo_copies :: claims_dir where
  "demo_copies = [(''2026-01'', [Line (demo_copy ''claim_a'' (Some ''claim_b'')), Line (demo_copy ''claim_b'' None)])]"

definition demo_revise_world :: forget_world where
  "demo_revise_world = \<lparr>fw_pod = demo_world\<lparr>ow_fence := open_store (Some \<lparr>high_water = 2, fw_updated_at = ''t0'', refusals = 0,
       last_refusal_at = None, last_refusal_op = None, last_refusal_token = None, last_refusal_high_water = None\<rparr>) [] ''t0''\<rparr>,
     fw_store = sync_versions Claim_Store.demo_env [demo_copy ''claim_a'' (Some ''claim_b''), demo_copy ''claim_b'' None] (demo_base\<lparr>st_log := Some demo_copies\<rparr>)\<rparr>"

definition demo_revise_env :: revise_env where
  "demo_revise_env = \<lparr>ze_base = demo_forget_env, ze_hash = (\<lambda>_. replicate 64 (CHR ''c'')), ze_ulid = (\<lambda>n. replicate n (CHR ''U''))\<rparr>"

definition demo_revise :: "bool option \<Rightarrow> confidence_bucket option \<Rightarrow> revise_params" where
  "demo_revise repick conf = \<lparr>zp_actor = \<lparr>ac_type = Person, ac_id = ''user:local'', ac_display_name = ''A''\<rparr>, zp_target = ''claim_a'', zp_expected_base_version = 1,
     zp_add_relations = None, zp_set_confidence = conf, zp_set_epistemic_tag = None, zp_add_derived_from = None, zp_invalidate_relations = None,
     zp_adopt_body = None, zp_repick_survivor = repick, zp_reason = ''mine'', zp_operation_id = ''op_00000000000000000000000009''\<rparr>"

definition demo_revised_call :: "bool option \<Rightarrow> confidence_bucket option \<Rightarrow> revise_result outcome \<times> forget_world" where
  "demo_revised_call repick conf = handleRevise demo_revise_env Observe.demo_config None True (demo_revise repick conf) demo_revise_world"

lemma demo_repick_ok: "is_ok (fst (demo_revised_call (Some True) None))" "zr_demoted (projr (fst (demo_revised_call (Some True) None))) = Some [''claim_b'']"
  by code_simp+

lemma demo_revise_ok: "is_ok (fst (demo_revised_call None (Some BHigh)))"
  by code_simp

lemma demo_call_ran: "is_ok (fst (demo_revised_call a b)) \<Longrightarrow>
    handleRevise demo_revise_env Observe.demo_config None True (demo_revise a b) demo_revise_world
      = (Inr (projr (fst (demo_revised_call a b))), snd (demo_revised_call a b))"
  by (cases "fst (demo_revised_call a b)") (simp_all add: demo_revised_call_def [symmetric] prod_eq_iff)

lemma demo_revise_unused: "operation_unused (zp_operation_id (demo_revise a b)) (fw_pod demo_revise_world)" "ops_readable (fw_pod demo_revise_world)"
proof -
  have "readOperationIntent [] ''op_00000000000000000000000009'' = Inr None" "readAllOpLogEntries [] = Inr []" by code_simp+
  then show "operation_unused (zp_operation_id (demo_revise a b)) (fw_pod demo_revise_world)" "ops_readable (fw_pod demo_revise_world)"
    by (simp_all add: operation_unused_def ops_readable_def demo_revise_def demo_revise_world_def demo_world_def)
qed

theorem revise_changes_metadata_only_witness:
  "\<exists>u dir1. st_log (fw_store (snd (demo_revised_call None (Some BHigh)))) = Some dir1
     \<and> readLatestVersion (fe_sha (ze_base demo_revise_env)) dir1 ''claim_a'' = Inr (Some u) \<and> cv_version u = 2
     \<and> cv_epistemic_owner u = Some AUser \<and> vl_superseded_by (cv_lineage u) = Some ''claim_b''"
proof -
  let ?vs = "[demo_copy ''claim_a'' (Some ''claim_b''), demo_copy ''claim_b'' None]"
  have "st_log (fw_store demo_revise_world) = Some demo_copies" "iterAllClaimVersions (fe_sha (ze_base demo_revise_env)) demo_copies = Inr ?vs" by code_simp+
  then have ready: "log_ready (ze_base demo_revise_env) (fw_store demo_revise_world) demo_copies ?vs"
    by (simp add: log_ready_def demo_copies_def demo_copy_def demo_version_def version_key_def)
  have plain: "zp_repick_survivor (demo_revise None (Some BHigh)) \<noteq> Some True" by (simp add: demo_revise_def)
  have latest: "latest_of ?vs ''claim_a'' = Some (demo_copy ''claim_a'' (Some ''claim_b''))"
    by (simp add: latest_of_def demo_copy_def demo_version_def)
  have fields: "zp_target (demo_revise None (Some BHigh)) = ''claim_a''" "isAdjudicating (demo_revise None (Some BHigh))"
    "cv_version (demo_copy ''claim_a'' (Some ''claim_b'')) = 1" "vl_superseded_by (cv_lineage (demo_copy ''claim_a'' (Some ''claim_b''))) = Some ''claim_b''"
    by (simp_all add: demo_revise_def isAdjudicating_def demo_copy_def demo_version_def)
  show ?thesis
    using revise_changes_metadata_only [OF ready demo_revise_unused(1) plain demo_call_ran [OF demo_revise_ok]] latest fields by auto
qed





theorem repick_leaves_one_survivor_witness:
  "map_option cl_status (getClaim ''claim_a'' (fw_store (snd (demo_revised_call (Some True) None)))) = Some StActive
   \<and> map_option cl_status (getClaim ''claim_b'' (fw_store (snd (demo_revised_call (Some True) None)))) = Some StSuperseded"
proof -
  have plan: "plan_ok (ze_store demo_revise_env)" by (simp add: demo_revise_env_def demo_forget_env_def demo_plan)
  have keys: "keys_unique cl_id (st_claims (fw_store demo_revise_world))"
    unfolding demo_revise_world_def by (simp, rule sync_versions_rows(3)) (simp_all add: keys_unique_def demo_copy_def demo_version_def)
  have args: "zp_repick_survivor (demo_revise (Some True) None) = Some True" "zp_target (demo_revise (Some True) None) \<noteq> []"
    "zp_target (demo_revise (Some True) None) = ''claim_a''"
    by (simp_all add: demo_revise_def)
  obtain row where row: "map_option cl_status (getClaim ''claim_a'' (fw_store (snd (demo_revised_call (Some True) None)))) = Some StActive"
      "zr_demoted (projr (fst (demo_revised_call (Some True) None))) = Some (map cl_id (fact_matches (ze_store demo_revise_env) row (fw_store demo_revise_world)))"
      "\<forall>c \<in> set (fact_matches (ze_store demo_revise_env) row (fw_store demo_revise_world)). \<exists>d. getClaim (cl_id c) (fw_store (snd (demo_revised_call (Some True) None))) = Some d
        \<and> cl_status d = StSuperseded \<and> cl_superseded_by d = Some ''claim_a''"
    using repick_leaves_one_survivor [OF plan keys demo_revise_unused(1) args(1,2) demo_call_ran [OF demo_repick_ok(1)]]
    unfolding args(3) by (elim exE conjE) (rule that, assumption+)
  have "map cl_id (fact_matches (ze_store demo_revise_env) row (fw_store demo_revise_world)) = [''claim_b'']" using row(2) demo_repick_ok(2) by simp
  then obtain c where "c \<in> set (fact_matches (ze_store demo_revise_env) row (fw_store demo_revise_world))" "cl_id c = ''claim_b''" by auto
  then show ?thesis using row(1,3) by force
qed

definition demo_stale :: mutation_fence where
  "demo_stale = \<lparr>mf_token = Some 1, mf_writer = ''w''\<rparr>"

theorem repick_bypasses_fence_witness:
  "is_ok (fst (handleRevise demo_revise_env Observe.demo_config (Some demo_stale) True (demo_revise (Some True) None) demo_revise_world))
   \<and> \<not> is_ok (fst (handleRevise demo_revise_env Observe.demo_config (Some demo_stale) True (demo_revise None (Some BHigh)) demo_revise_world))"
proof
  have "zp_repick_survivor (demo_revise (Some True) None) = Some True" by (simp add: demo_revise_def)
  then have "handleRevise demo_revise_env Observe.demo_config (Some demo_stale) True (demo_revise (Some True) None) demo_revise_world
      = handleRevise demo_revise_env Observe.demo_config None True (demo_revise (Some True) None) demo_revise_world"
    using repick_bypasses_fence [OF demo_revise_unused] by blast
  then show "is_ok (fst (handleRevise demo_revise_env Observe.demo_config (Some demo_stale) True (demo_revise (Some True) None) demo_revise_world))"
    using demo_repick_ok(1) by (simp add: demo_revised_call_def)
  have "zp_repick_survivor (demo_revise None (Some BHigh)) \<noteq> Some True" "1 < hw (ow_fence (fw_pod demo_revise_world))"
    "ow_ops (fw_pod demo_revise_world) \<noteq> None" "mf_token demo_stale = Some 1" "1 \<le> max_safe_integer"
    by (simp_all add: demo_revise_def demo_revise_world_def open_store_def demo_world_def demo_stale_def max_safe_integer_def)
  then show "\<not> is_ok (fst (handleRevise demo_revise_env Observe.demo_config (Some demo_stale) True (demo_revise None (Some BHigh)) demo_revise_world))"
    using repick_bypasses_fence [OF demo_revise_unused, of None "Some BHigh" demo_revise_env Observe.demo_config "Some demo_stale" True] by simp
qed

end
