(* ===== verification/Context.thy ===== *)
theory Context
  imports Replay Scopes Auth
begin

text \<open>
  Context assembly (\<^verbatim>\<open>layer4/\<close>, \<^verbatim>\<open>layer3/temporal.ts\<close>): the decision whether to retrieve, the packing
  of ranked lanes into a token budget, the authorised snapshot of claims every retrieval channel ranks, the bi-temporal
  constraints, the scoring and the assembly itself.

  Numbers are exact rationals (\<open>js_real\<close>: a finite number, or one of NaN and the infinities, which the code treats alike); the
  rounding of doubles is not modelled. The hits of the full-text index, the parser of timestamps, the collation of ids and the power
  of the recency half-life are parameters. When a score is not a number the order of the results is the one the engine's sort
  gives, which is a parameter too.
\<close>

section \<open>Whether to retrieve\<close>

datatype js_real = Finite rat | NotFinite

datatype retrieval_mode = RmAlways | RmAuto | RmNever

datatype retrieval_reason =
    RrCallerRequired | RrCallerDisabled | RrStructuredTask | RrRecentContext | RrGreeting | RrArithmetic | RrMemoryMayHelp

record retrieval_decision =
  rd_mode :: retrieval_mode
  rd_retrieve :: bool
  rd_reason :: retrieval_reason

definition GREETINGS :: "string list" where
  "GREETINGS = [''hi'', ''hello'', ''hey'', ''hiya'', ''thanks'', ''thank you'', ''cheers'', ''good morning'', ''good afternoon'', ''good evening'']"

definition is_greeting :: "string \<Rightarrow> bool" where
  "is_greeting query =
     list_ex (\<lambda>g. starts_with (toLowerCase query) g
       \<and> list_all (\<lambda>c. c \<in> set ''!.?'' \<or> is_js_space c) (drop (length g) query)) GREETINGS"

definition is_decimal :: "char \<Rightarrow> bool" where
  "is_decimal c = (c \<in> set ''0123456789'')"

text \<open>The characters of the arithmetic patterns; the two signs outside ASCII are U+00D7 and U+00F7.\<close>

definition OPERATORS :: string where
  "OPERATORS = ''+-*/%^'' @ [CHR 0xD7, CHR 0xF7]"

definition is_arithmetic_char :: "char \<Rightarrow> bool" where
  "is_arithmetic_char c = (is_decimal c \<or> is_js_space c \<or> c \<in> set ''.,()='' \<or> c \<in> set OPERATORS)"

definition ARITHMETIC_PREFIXES :: "string list" where
  "ARITHMETIC_PREFIXES = [''what's'', ''what is'', ''calculate'', ''compute'', ''solve'', ''evaluate'']"

definition drop_prefix :: "string \<Rightarrow> string" where
  "drop_prefix s =
     (case List.find (\<lambda>p. starts_with (toLowerCase s) p \<and> (case drop (length p) s of [] \<Rightarrow> False | c # _ \<Rightarrow> is_js_space c)) ARITHMETIC_PREFIXES of
        None \<Rightarrow> s
      | Some p \<Rightarrow> dropWhile is_js_space (drop (length p) s))"

definition isSelfContainedArithmetic :: "string \<Rightarrow> bool" where
  "isSelfContainedArithmetic query =
     (let e = js_trim (drop_prefix (rev (dropWhile (\<lambda>c. c = CHR ''?'') (rev (js_trim query)))))
      in list_ex is_decimal e \<and> list_ex (\<lambda>c. c \<in> set OPERATORS) e \<and> list_all is_arithmetic_char e)"

definition decideContextRetrieval :: "retrieval_mode \<Rightarrow> string \<Rightarrow> bool \<Rightarrow> retrieval_decision" where
  "decideContextRetrieval mode query hasStructuredTask =
     (let d = (\<lambda>r why. \<lparr>rd_mode = mode, rd_retrieve = r, rd_reason = why\<rparr>) in
      if mode = RmAlways then d True RrCallerRequired
      else if mode = RmNever then d False RrCallerDisabled
      else if hasStructuredTask then d True RrStructuredTask
      else if js_trim query = [] then d True RrRecentContext
      else if is_greeting query then d False RrGreeting
      else if isSelfContainedArithmetic query then d False RrArithmetic
      else d True RrMemoryMayHelp)"

section \<open>Packing lanes into a budget\<close>

text \<open>Lanes have non-empty names: the code's check of lanes against costs passes over a lane named by the empty string.\<close>

type_synonym lane_costs = "(string \<times> js_real list) list"

record packing_policy =
  pk_lane_order :: "string list"
  pk_lane_weights :: "(string \<times> js_real) list"
  pk_overflow_order :: "string list option"

record packing =
  pg_selected :: "string \<Rightarrow> nat list"
  pg_tokens :: "string \<Rightarrow> int"
  pg_cursor :: "string \<Rightarrow> nat"
  pg_used :: int

record packing_plan =
  pp_selected :: "(string \<times> nat list) list"
  pp_used_tokens :: int
  pp_lane_tokens :: "(string \<times> int) list"

definition normalizedCost :: "js_real \<Rightarrow> int" where
  "normalizedCost v = (case v of NotFinite \<Rightarrow> 0 | Finite q \<Rightarrow> if 0 < q then \<lceil>q\<rceil> else 0)"

definition costs_of :: "lane_costs \<Rightarrow> string \<Rightarrow> int list" where
  "costs_of costs lane = map normalizedCost (case map_of costs lane of None \<Rightarrow> [] | Some cs \<Rightarrow> cs)"

definition take_next :: "int list \<Rightarrow> string \<Rightarrow> packing \<Rightarrow> packing" where
  "take_next cs lane s =
     (let i = pg_cursor s lane; cost = cs ! i in
      s\<lparr>pg_selected := (pg_selected s)(lane := pg_selected s lane @ [i]), pg_tokens := (pg_tokens s)(lane := pg_tokens s lane + cost),
        pg_cursor := (pg_cursor s)(lane := i + 1), pg_used := pg_used s + cost\<rparr>)"

function fill_lane :: "int list \<Rightarrow> int \<Rightarrow> int \<Rightarrow> string \<Rightarrow> packing \<Rightarrow> packing" where
  "fill_lane cs target budget lane s =
     (if length cs \<le> pg_cursor s lane then s
      else if target < pg_tokens s lane + cs ! pg_cursor s lane \<or> budget < pg_used s + cs ! pg_cursor s lane then s
      else fill_lane cs target budget lane (take_next cs lane s))"
  by pat_completeness auto
termination
  by (relation "measure (\<lambda>(cs, target, budget, lane, s). length cs - pg_cursor s lane)") (auto simp: take_next_def Let_def)

declare fill_lane.simps [simp del]

definition lane_weight :: "packing_policy \<Rightarrow> string \<Rightarrow> rat" where
  "lane_weight policy lane = (case map_of (pk_lane_weights policy) lane of Some (Finite q) \<Rightarrow> max 0 q | _ \<Rightarrow> 1)"

definition lane_weights_of :: "packing_policy \<Rightarrow> string list \<Rightarrow> rat list" where
  "lane_weights_of policy lanes =
     (let raw = map (lane_weight policy) lanes in if 0 < sum_list raw then raw else map (\<lambda>_. 1) lanes)"

definition lane_target :: "int \<Rightarrow> rat list \<Rightarrow> rat \<Rightarrow> int" where
  "lane_target budget weights w = (if 0 < sum_list weights then \<lfloor>of_int budget * w / sum_list weights\<rfloor> else 0)"

fun share_pass :: "lane_costs \<Rightarrow> int \<Rightarrow> rat list \<Rightarrow> (string \<times> rat) list \<Rightarrow> packing \<Rightarrow> packing" where
  "share_pass costs budget weights [] s = s"
| "share_pass costs budget weights ((lane, w) # rest) s =
     share_pass costs budget weights rest (fill_lane (costs_of costs lane) (lane_target budget weights w) budget lane s)"

fun overflow_round :: "lane_costs \<Rightarrow> int \<Rightarrow> string list \<Rightarrow> bool \<Rightarrow> packing \<Rightarrow> bool \<times> packing" where
  "overflow_round costs budget [] progressed s = (progressed, s)"
| "overflow_round costs budget (lane # rest) progressed s =
     (let cs = costs_of costs lane in
      if length cs \<le> pg_cursor s lane then overflow_round costs budget rest progressed s
      else if budget < pg_used s + cs ! pg_cursor s lane then overflow_round costs budget rest progressed s
      else overflow_round costs budget rest True (take_next cs lane s))"

definition items_left :: "lane_costs \<Rightarrow> string list \<Rightarrow> packing \<Rightarrow> nat" where
  "items_left costs lanes s = (\<Sum>lane\<leftarrow>lanes. length (costs_of costs lane) - pg_cursor s lane)"

lemma items_left_take_le: "items_left costs lanes (take_next cs lane s) \<le> items_left costs lanes s"
  by (induction lanes) (auto simp: items_left_def take_next_def Let_def)

lemma items_left_take:
  "lane \<in> set lanes \<Longrightarrow> pg_cursor s lane < length (costs_of costs lane) \<Longrightarrow>
   items_left costs lanes (take_next (costs_of costs lane) lane s) < items_left costs lanes s"
proof (induction lanes)
  case (Cons a lanes)
  have le: "items_left costs lanes (take_next (costs_of costs lane) lane s) \<le> items_left costs lanes s" by (rule items_left_take_le)
  show ?case
  proof (cases "a = lane")
    case True
    then show ?thesis using le Cons.prems(2) by (simp add: items_left_def take_next_def Let_def)
  next
    case False
    then show ?thesis using Cons by (simp add: items_left_def take_next_def Let_def)
  qed
qed simp

lemma overflow_round_left:
  assumes "set order \<subseteq> set lanes" and "overflow_round costs budget order p s = (q, s')"
  shows "items_left costs lanes s' \<le> items_left costs lanes s" "\<not> p \<Longrightarrow> q \<Longrightarrow> items_left costs lanes s' < items_left costs lanes s"
proof -
  have "items_left costs lanes s' \<le> items_left costs lanes s \<and> (\<not> p \<longrightarrow> q \<longrightarrow> items_left costs lanes s' < items_left costs lanes s)"
    using assms
  proof (induction order arbitrary: p s)
    case (Cons lane order)
    show ?case
    proof (cases "length (costs_of costs lane) \<le> pg_cursor s lane \<or> budget < pg_used s + costs_of costs lane ! pg_cursor s lane")
      case True
      then show ?thesis using Cons by (auto simp: Let_def split: if_splits)
    next
      case False
      have "lane \<in> set lanes" using Cons.prems(1) by simp
      then have "items_left costs lanes (take_next (costs_of costs lane) lane s) < items_left costs lanes s"
        using False by (intro items_left_take) auto
      moreover have "items_left costs lanes s' \<le> items_left costs lanes (take_next (costs_of costs lane) lane s)"
        using Cons.IH [of True "take_next (costs_of costs lane) lane s"] Cons.prems False by (simp add: Let_def)
      ultimately show ?thesis by simp
    qed
  qed auto
  then show "items_left costs lanes s' \<le> items_left costs lanes s" "\<not> p \<Longrightarrow> q \<Longrightarrow> items_left costs lanes s' < items_left costs lanes s" by auto
qed

function overflow_pass :: "lane_costs \<Rightarrow> int \<Rightarrow> string list \<Rightarrow> packing \<Rightarrow> packing" where
  "overflow_pass costs budget order s =
     (if pg_used s < budget
      then (case overflow_round costs budget order False s of (progressed, s') \<Rightarrow> if progressed then overflow_pass costs budget order s' else s')
      else s)"
  by pat_completeness auto
termination
  by (relation "measure (\<lambda>(costs, budget, order, s). items_left costs order s)") (auto dest: overflow_round_left(2) [OF order_refl sym])

declare overflow_pass.simps [simp del]

definition overflow_order_of :: "packing_policy \<Rightarrow> string list \<Rightarrow> string list" where
  "overflow_order_of policy lanes =
     (let configured = js_set (case pk_overflow_order policy of None \<Rightarrow> [] | Some o1 \<Rightarrow> o1) in
      filter (\<lambda>l. l \<in> set lanes) configured @ filter (\<lambda>l. l \<notin> set configured) lanes)"

definition empty_packing :: packing where
  "empty_packing = \<lparr>pg_selected = \<lambda>_. [], pg_tokens = \<lambda>_. 0, pg_cursor = \<lambda>_. 0, pg_used = 0\<rparr>"

definition budget_of :: "js_real \<Rightarrow> int" where
  "budget_of tokenBudget = (case tokenBudget of NotFinite \<Rightarrow> 0 | Finite q \<Rightarrow> max 0 \<lfloor>q\<rfloor>)"

definition pack :: "lane_costs \<Rightarrow> int \<Rightarrow> packing_policy \<Rightarrow> string list \<Rightarrow> packing" where
  "pack costs budget policy lanes =
     (let weights = lane_weights_of policy lanes in
      overflow_pass costs budget (overflow_order_of policy lanes) (share_pass costs budget weights (zip lanes weights) empty_packing))"

definition planContextPacking :: "lane_costs \<Rightarrow> js_real \<Rightarrow> packing_policy \<Rightarrow> packing_plan outcome" where
  "planContextPacking costs tokenBudget policy =
     (let lanes = js_set (pk_lane_order policy) in
      if list_ex (\<lambda>(l, _). l \<notin> set lanes) costs \<or> list_ex (\<lambda>l. l \<notin> fst ` set costs) lanes
      then Inl (JsError ''Context packing policy and costs disagree'')
      else
        (let s = pack costs (budget_of tokenBudget) policy lanes in
         Inr \<lparr>pp_selected = map (\<lambda>l. (l, pg_selected s l)) lanes, pp_used_tokens = pg_used s, pp_lane_tokens = map (\<lambda>l. (l, pg_tokens s l)) lanes\<rparr>))"

section \<open>Bi-temporal constraints\<close>

datatype temporal_axis = ValidTime | TransactionTime

datatype range_relation = Overlaps | StartsIn

datatype temporal_constraint =
    TcCurrent temporal_axis "string option"
  | TcAsOf temporal_axis string
  | TcRange temporal_axis string string "range_relation option"

record temporal_document =
  td_valid_time :: "string option \<times> string option"
  td_transaction_time :: "string option \<times> string option"

record clock =
  ck_ms :: "string \<Rightarrow> int option"
  ck_now :: int

definition instant :: "clock \<Rightarrow> string \<Rightarrow> int outcome" where
  "instant ck v = (case ck_ms ck v of None \<Rightarrow> Inl (JsError ''must be a valid ISO 8601 timestamp'') | Some n \<Rightarrow> Inr n)"

definition opt_instant :: "clock \<Rightarrow> string option \<Rightarrow> int option outcome" where
  "opt_instant ck v = (case v of None \<Rightarrow> Inr None | Some t \<Rightarrow> (case instant ck t of Inl x \<Rightarrow> Inl x | Inr n \<Rightarrow> Inr (Some n)))"

definition axis_of :: "temporal_constraint \<Rightarrow> temporal_axis" where
  "axis_of c = (case c of TcCurrent a _ \<Rightarrow> a | TcAsOf a _ \<Rightarrow> a | TcRange a _ _ _ \<Rightarrow> a)"

definition is_history :: "temporal_constraint \<Rightarrow> bool" where
  "is_history c = (case c of TcCurrent _ _ \<Rightarrow> False | _ \<Rightarrow> True)"

definition interval :: "clock \<Rightarrow> temporal_document \<Rightarrow> temporal_axis \<Rightarrow> (int option \<times> int option) outcome" where
  "interval ck d axis =
     (let v = (case axis of ValidTime \<Rightarrow> td_valid_time d | TransactionTime \<Rightarrow> td_transaction_time d) in
      case opt_instant ck (fst v) of
        Inl x \<Rightarrow> Inl x
      | Inr from \<Rightarrow>
          (case opt_instant ck (snd v) of
             Inl x \<Rightarrow> Inl x
           | Inr to \<Rightarrow>
               (case (from, to) of
                  (Some f, Some t) \<Rightarrow> if t \<le> f then Inl (JsError ''to must be after from'') else Inr (from, to)
                | _ \<Rightarrow> Inr (from, to))))"

definition in_interval :: "int option \<times> int option \<Rightarrow> int \<Rightarrow> bool" where
  "in_interval v at_ms = ((case fst v of None \<Rightarrow> True | Some f \<Rightarrow> f \<le> at_ms) \<and> (case snd v of None \<Rightarrow> True | Some t \<Rightarrow> at_ms < t))"

definition matchesTemporalConstraint :: "clock \<Rightarrow> temporal_document \<Rightarrow> temporal_constraint \<Rightarrow> bool outcome" where
  "matchesTemporalConstraint ck d c =
     (case interval ck d (axis_of c) of
        Inl x \<Rightarrow> Inl x
      | Inr v \<Rightarrow>
          (case c of
             TcCurrent _ None \<Rightarrow> Inr (in_interval v (ck_now ck))
           | TcCurrent _ (Some s) \<Rightarrow> (case instant ck s of Inl x \<Rightarrow> Inl x | Inr n \<Rightarrow> Inr (in_interval v n))
           | TcAsOf _ s \<Rightarrow> (case instant ck s of Inl x \<Rightarrow> Inl x | Inr n \<Rightarrow> Inr (in_interval v n))
           | TcRange _ f t rel \<Rightarrow>
               (case instant ck f of
                  Inl x \<Rightarrow> Inl x
                | Inr from \<Rightarrow>
                    (case instant ck t of
                       Inl x \<Rightarrow> Inl x
                     | Inr to \<Rightarrow>
                         if to \<le> from then Inl (JsError ''temporal.to must be after from'')
                         else case rel of
                           Some StartsIn \<Rightarrow> Inr (case fst v of None \<Rightarrow> False | Some vf \<Rightarrow> from \<le> vf \<and> vf < to)
                         | _ \<Rightarrow> Inr ((case fst v of None \<Rightarrow> True | Some vf \<Rightarrow> vf < to) \<and> (case snd v of None \<Rightarrow> True | Some vt \<Rightarrow> from < vt))))))"

definition claim_times :: "claim \<Rightarrow> temporal_document" where
  "claim_times c =
     \<lparr>td_valid_time =
        (case ct_value (cl_t_valid_from c) of Some v \<Rightarrow> Some v | None \<Rightarrow> Some (fst (cl_validity c)),
         case ct_value (cl_t_valid_to c) of Some v \<Rightarrow> Some v | None \<Rightarrow> snd (cl_validity c)),
      td_transaction_time =
        (case ct_value (cl_t_ingested c) of Some v \<Rightarrow> Some v
         | None \<Rightarrow> Some (case cl_created_at c of Some v \<Rightarrow> v | None \<Rightarrow> ex_extracted_at (cl_extraction c)),
         ct_value (cl_t_invalidated c))\<rparr>"

section \<open>The authorised snapshot\<close>

record claim_policy =
  cp_actor_id :: string
  cp_scope :: string
  cp_min_confidence :: "rat option"
  cp_epistemic :: "epistemic_label list"
  cp_epistemic_tags :: "epistemic_tag list"
  cp_entity_type :: "string option"
  cp_sensitive :: bool
  cp_stale :: bool
  cp_superseded :: bool
  cp_forgotten :: bool

definition authorized :: "int \<Rightarrow> claim_policy \<Rightarrow> smartware_config \<Rightarrow> bool" where
  "authorized now p config = (isOwner (cp_actor_id p) config \<or> checkGrant now (cp_actor_id p) OpQuery (cp_scope p) config)"

definition entity_type_of :: "string \<Rightarrow> string \<Rightarrow> claim_store \<Rightarrow> string option" where
  "entity_type_of scope i st = map_option en_type (lookup_by en_id i (getAllEntities scope (st_ents st)))"

definition is_forgotten :: "claim \<Rightarrow> bool" where
  "is_forgotten c = (cl_state c = Some CsForgotten \<or> cl_status c = StRetracted)"

text \<open>The observation index and the claim store are opened on one database file, so whether a claim is current is decided with the
  status of its evidence in sight.\<close>

definition database :: "layer0_index \<Rightarrow> claim_store \<Rightarrow> claim_db" where
  "database l0 st = (claim_db_of st)\<lparr>kd_observations := Some (map (\<lambda>r. (r_id r, r_effective r)) (l0_rows l0))\<rparr>"

definition eligible_claim :: "claim_policy \<Rightarrow> smartware_config \<Rightarrow> layer0_index \<Rightarrow> claim_store \<Rightarrow> claim \<Rightarrow> bool" where
  "eligible_claim p config l0 st c =
     (\<not> (is_forgotten c \<and> \<not> cp_forgotten p)
      \<and> \<not> (cl_status c = StSuperseded \<and> \<not> cp_superseded p)
      \<and> \<not> (cl_status c = StStale \<and> \<not> cp_stale p)
      \<and> \<not> (\<not> cp_superseded p \<and> \<not> isEffectiveCurrent (cl_id c) (database l0 st))
      \<and> \<not> (cl_sensitive c \<and> \<not> (cp_sensitive p \<and> isOwner (cp_actor_id p) config))
      \<and> (case (cp_min_confidence p, cl_confidence c) of (Some m, Some k) \<Rightarrow> \<not> k < m | _ \<Rightarrow> True)
      \<and> (cp_epistemic p = [] \<or> cl_epistemic c \<in> set (cp_epistemic p))
      \<and> (cp_epistemic_tags p = [] \<or> epistemicToTag (cl_epistemic c) (cl_status c) \<in> set (cp_epistemic_tags p))
      \<and> (case cp_entity_type p of None \<Rightarrow> True | Some t \<Rightarrow> t = [] \<or> entity_type_of (cp_scope p) (cl_subject_id c) st = Some t))"

record claim_snapshot =
  sn_authorized :: bool
  sn_claims :: "claim list"
  sn_all :: "claim list"

definition buildAuthorizedClaimSnapshot :: "int \<Rightarrow> store_env \<Rightarrow> claim_policy \<Rightarrow> layer0_index \<Rightarrow> claim_store \<Rightarrow> smartware_config \<Rightarrow> claim_snapshot" where
  "buildAuthorizedClaimSnapshot now E p l0 st config =
     (if \<not> authorized now p config then \<lparr>sn_authorized = False, sn_claims = [], sn_all = []\<rparr>
      else (let all_claims = getAllClaims E (Some (cp_scope p)) st in
            \<lparr>sn_authorized = True, sn_claims = filter (eligible_claim p config l0 st) all_claims, sn_all = all_claims\<rparr>))"

text \<open>\<^verbatim>\<open>new Map(claims.map(c => [c.id, c]))\<close> keeps the last claim of an id.\<close>

definition claim_by_id :: "claim list \<Rightarrow> string \<Rightarrow> claim option" where
  "claim_by_id cs i = List.find (\<lambda>c. cl_id c = i) (rev cs)"

definition claims_by_subject :: "claim list \<Rightarrow> string \<Rightarrow> claim list" where
  "claims_by_subject cs s = filter (\<lambda>c. cl_subject_id c = s) cs"

section \<open>Scoring\<close>

record search_result =
  sr_claim_id :: "string option"
  sr_entity_id :: string
  sr_entity_name :: string
  sr_scope :: string
  sr_rank :: js_real

record scored_result =
  sd_entity_id :: string
  sd_entity_name :: string
  sd_scope :: string
  sd_claim :: "claim option"
  sd_score :: "rat option"
  sd_text_relevance :: rat
  sd_recency :: "rat option"
  sd_epistemic_conf :: "rat option"
  sd_proximity :: rat

record context_env =
  cx_clock :: clock
  cx_half_life :: "int \<Rightarrow> rat"
  cx_store :: store_env
  cx_unordered :: "scored_result list \<Rightarrow> scored_result list"
  cx_search_claims :: "string \<Rightarrow> string \<Rightarrow> search_result list"
  cx_search :: "string \<Rightarrow> string \<Rightarrow> search_result list"
  cx_stringify :: "json \<Rightarrow> string"

definition computeRecency :: "context_env \<Rightarrow> claim \<Rightarrow> rat option" where
  "computeRecency env c =
     (let from = fst (cl_validity c) in
      if from = [] then Some (1 / 2)
      else map_option (\<lambda>t. cx_half_life env (ck_now (cx_clock env) - t)) (ck_ms (cx_clock env) from))"

definition weighted :: "rat \<Rightarrow> rat \<Rightarrow> rat \<Rightarrow> rat \<Rightarrow> rat" where
  "weighted t r e s = t * (35 / 100) + r * (25 / 100) + e * (25 / 100) + s * (15 / 100)"

definition scoreResult :: "context_env \<Rightarrow> string \<Rightarrow> scope_registry \<Rightarrow> search_result \<Rightarrow> claim option \<Rightarrow> rat \<Rightarrow> scored_result" where
  "scoreResult env queryScope reg sr c textRelevance =
     (let recency = (case c of None \<Rightarrow> Some (1 / 2) | Some k \<Rightarrow> computeRecency env k);
          conf = (case c of None \<Rightarrow> Some (1 / 2) | Some k \<Rightarrow> cl_confidence k);
          proximity = getScopeProximity queryScope (sr_scope sr) reg
      in \<lparr>sd_entity_id = sr_entity_id sr, sd_entity_name = sr_entity_name sr, sd_scope = sr_scope sr, sd_claim = c,
          sd_score = (case (recency, conf) of (Some r, Some e) \<Rightarrow> Some (weighted textRelevance r e proximity) | _ \<Rightarrow> None),
          sd_text_relevance = textRelevance, sd_recency = recency, sd_epistemic_conf = conf, sd_proximity = proximity\<rparr>)"

definition finite_rank :: "js_real \<Rightarrow> rat" where
  "finite_rank r = (case r of Finite q \<Rightarrow> if 0 < q then q else 0 | NotFinite \<Rightarrow> 0)"

definition normaliseTextRelevance :: "js_real list \<Rightarrow> rat list" where
  "normaliseTextRelevance ranks =
     (let finite_ranks = map finite_rank ranks; strongest = fold max finite_ranks 0 in
      if strongest = 0 then finite_ranks else map (\<lambda>r. min (r / strongest) 1) finite_ranks)"

definition rankResults :: "context_env \<Rightarrow> scored_result list \<Rightarrow> scored_result list" where
  "rankResults env rs =
     (if list_all (\<lambda>r. sd_score r \<noteq> None) rs then sort_key (\<lambda>r. - the (sd_score r)) rs else cx_unordered env rs)"

section \<open>Assembling\<close>

record query_filters =
  qf_min_confidence :: "rat option"
  qf_epistemic :: "epistemic_label list"
  qf_epistemic_tags :: "epistemic_tag list"
  qf_entity_type :: "string option"
  qf_sensitive :: bool
  qf_stale :: bool
  qf_superseded :: bool
  qf_forgotten :: bool
  qf_temporal :: "temporal_constraint option"
  qf_limit :: "int option"

record assembled_context =
  ac_results :: "scored_result list"
  ac_total_found :: nat
  ac_filtered_out :: nat
  ac_query_scope :: string

definition QUERY_STOPWORDS :: "string list" where
  "QUERY_STOPWORDS =
     [''a'', ''an'', ''the'', ''this'', ''that'', ''these'', ''those'',
      ''of'', ''for'', ''to'', ''in'', ''on'', ''at'', ''by'', ''with'', ''from'', ''about'', ''as'', ''into'', ''over'', ''up'',
      ''is'', ''are'', ''was'', ''were'', ''be'', ''been'', ''being'', ''am'',
      ''do'', ''does'', ''did'', ''has'', ''have'', ''had'',
      ''will'', ''would'', ''can'', ''could'', ''should'', ''may'', ''might'', ''must'',
      ''i'', ''you'', ''he'', ''she'', ''it'', ''we'', ''they'', ''me'', ''my'', ''your'', ''our'', ''their'', ''his'', ''her'', ''its'',
      ''what'', ''which'', ''who'', ''whom'', ''whose'', ''when'', ''where'', ''why'', ''how'',
      ''and'', ''or'', ''not'', ''no'', ''if'', ''then'', ''so'', ''than'', ''there'', ''here'', ''current'', ''currently'']"

definition is_term_char :: "char \<Rightarrow> bool" where
  "is_term_char c = (c \<in> set ''abcdefghijklmnopqrstuvwxyz0123456789'')"

fun words_of :: "string \<Rightarrow> string \<Rightarrow> string list" where
  "words_of acc [] = (if acc = [] then [] else [rev acc])"
| "words_of acc (c # cs) =
     (if is_term_char c then words_of (c # acc) cs else (if acc = [] then words_of [] cs else rev acc # words_of [] cs))"

definition searchQueryTerms :: "string \<Rightarrow> string list" where
  "searchQueryTerms query =
     (let ws = words_of [] (toLowerCase query); meaningful = filter (\<lambda>w. w \<notin> set QUERY_STOPWORDS) ws in
      if ws = [] then [] else if meaningful \<noteq> [] then meaningful else ws)"

definition has_substring :: "string \<Rightarrow> string \<Rightarrow> bool" where
  "has_substring s t = list_ex (\<lambda>n. starts_with (drop n s) t) [0..<Suc (length s)]"

definition claim_hit :: "claim \<Rightarrow> js_real \<Rightarrow> search_result" where
  "claim_hit c rank = \<lparr>sr_claim_id = Some (cl_id c), sr_entity_id = cl_subject_id c, sr_entity_name = cl_subject_name c, sr_scope = cl_scope c, sr_rank = rank\<rparr>"

definition term_matches :: "context_env \<Rightarrow> string list \<Rightarrow> claim \<Rightarrow> nat" where
  "term_matches env terms c =
     (let obj = (case tv_value (cl_object c) of JStr s \<Rightarrow> s | j \<Rightarrow> cx_stringify env j);
          haystack = toLowerCase (cl_subject_name c @ '' '' @ cl_predicate c @ '' '' @ obj)
      in length (filter (has_substring haystack) terms))"

definition historicalClaimSearch :: "context_env \<Rightarrow> claim list \<Rightarrow> string \<Rightarrow> string \<Rightarrow> search_result list" where
  "historicalClaimSearch env claims query scope =
     (let terms = searchQueryTerms query in
      if terms = [] then []
      else take 200 (map (\<lambda>c. claim_hit c (Finite (of_nat (term_matches env terms c))))
        (sort_key (\<lambda>c. - int (term_matches env terms c)) (sort_key (\<lambda>c. sv_coll (cx_store env) (cl_id c))
          (filter (\<lambda>c. term_matches env terms c \<noteq> 0) (filter (\<lambda>c. cl_scope c = scope) claims))))))"

definition snapshot_policy :: "string \<Rightarrow> string \<Rightarrow> query_filters \<Rightarrow> claim_policy" where
  "snapshot_policy actorId queryScope f =
     (let history = (\<lambda>a. case qf_temporal f of None \<Rightarrow> False | Some c \<Rightarrow> is_history c \<and> axis_of c = a) in
      \<lparr>cp_actor_id = actorId, cp_scope = queryScope, cp_min_confidence = qf_min_confidence f, cp_epistemic = qf_epistemic f,
       cp_epistemic_tags = qf_epistemic_tags f, cp_entity_type = qf_entity_type f, cp_sensitive = qf_sensitive f, cp_stale = qf_stale f,
       cp_superseded = (history TransactionTime \<or> history ValidTime \<or> qf_superseded f),
       cp_forgotten = (history TransactionTime \<or> qf_forgotten f)\<rparr>)"

definition claim_results :: "context_env \<Rightarrow> string \<Rightarrow> string \<Rightarrow> query_filters \<Rightarrow> claim list \<Rightarrow> search_result list" where
  "claim_results env query queryScope f claims =
     (let history = (case qf_temporal f of None \<Rightarrow> False | Some c \<Rightarrow> is_history c) \<or> qf_superseded f \<or> qf_forgotten f in
      if js_trim query \<noteq> [] then (if history then historicalClaimSearch env claims query queryScope else cx_search_claims env query queryScope)
      else if qf_temporal f \<noteq> None then map (\<lambda>c. claim_hit c (Finite 1)) claims else [])"

text \<open>\<open>Inr None\<close>: the hit is filtered out; \<open>Inr (Some c)\<close>: it stays, with its representative claim.\<close>

fun temporal_filter :: "clock \<Rightarrow> temporal_constraint \<Rightarrow> claim list \<Rightarrow> claim list outcome" where
  "temporal_filter ck t [] = Inr []"
| "temporal_filter ck t (c # cs) =
     (case matchesTemporalConstraint ck (claim_times c) t of
        Inl x \<Rightarrow> Inl x
      | Inr b \<Rightarrow> (case temporal_filter ck t cs of Inl x \<Rightarrow> Inl x | Inr ds \<Rightarrow> Inr (if b then c # ds else ds)))"

text \<open>The first of the highest confidence; claims of a store all have one.\<close>

definition best_claim :: "claim list \<Rightarrow> claim option" where
  "best_claim cs = (case sort_key (\<lambda>c. - (case cl_confidence c of None \<Rightarrow> 0 | Some q \<Rightarrow> q)) cs of [] \<Rightarrow> None | c # _ \<Rightarrow> Some c)"

text \<open>An empty claim id is no claim id.\<close>

definition hit_id :: "search_result \<Rightarrow> string option" where
  "hit_id sr = (case sr_claim_id sr of Some [] \<Rightarrow> None | v \<Rightarrow> v)"

definition judge_hit :: "context_env \<Rightarrow> query_filters \<Rightarrow> claim_store \<Rightarrow> claim_snapshot \<Rightarrow> search_result \<Rightarrow> claim option option outcome" where
  "judge_hit env f st sn sr =
     (let matching = Option.bind (hit_id sr) (claim_by_id (sn_claims sn)) in
      if hit_id sr \<noteq> None \<and> matching = None then Inr None
      else
        (let entity_claims = (case matching of Some c \<Rightarrow> [c] | None \<Rightarrow> claims_by_subject (sn_claims sn) (sr_entity_id sr)) in
         if hit_id sr = None \<and> claims_by_subject (sn_all sn) (sr_entity_id sr) \<noteq> [] \<and> entity_claims = [] then Inr None
         else
           (case (case qf_temporal f of None \<Rightarrow> Inr entity_claims | Some t \<Rightarrow> temporal_filter (cx_clock env) t entity_claims) of
              Inl x \<Rightarrow> Inl x
            | Inr cs \<Rightarrow>
                if qf_temporal f \<noteq> None \<and> cs = [] then Inr None
                else if hit_id sr = None \<and> (case qf_entity_type f of None \<Rightarrow> False
                         | Some t \<Rightarrow> t \<noteq> [] \<and> map_option en_type (getEntity (sr_entity_id sr) (st_ents st)) \<noteq> Some t)
                then Inr None
                else Inr (Some (best_claim cs)))))"

fun judge_all :: "(search_result \<Rightarrow> claim option option outcome) \<Rightarrow> search_result list \<Rightarrow> ((search_result \<times> claim option) list \<times> nat) outcome" where
  "judge_all judge [] = Inr ([], 0)"
| "judge_all judge (sr # srs) =
     (case judge sr of
        Inl x \<Rightarrow> Inl x
      | Inr v \<Rightarrow>
          (case judge_all judge srs of
             Inl x \<Rightarrow> Inl x
           | Inr (kept, n) \<Rightarrow> Inr (case v of None \<Rightarrow> (kept, n + 1) | Some c \<Rightarrow> ((sr, c) # kept, n))))"

text \<open>\<^verbatim>\<open>slice(0, limit)\<close>.\<close>

definition js_slice :: "int \<Rightarrow> 'a list \<Rightarrow> 'a list" where
  "js_slice n xs = (if 0 \<le> n then take (nat n) xs else take (nat (int (length xs) + n)) xs)"

definition assembleContext ::
  "context_env \<Rightarrow> string \<Rightarrow> string \<Rightarrow> string \<Rightarrow> layer0_index \<Rightarrow> claim_store \<Rightarrow> smartware_config \<Rightarrow> scope_registry \<Rightarrow> query_filters \<Rightarrow> assembled_context outcome" where
  "assembleContext env query queryScope actorId l0 st config reg f =
     (let sn = buildAuthorizedClaimSnapshot (ck_now (cx_clock env)) (cx_store env) (snapshot_policy actorId queryScope f) l0 st config in
      if \<not> sn_authorized sn then Inr \<lparr>ac_results = [], ac_total_found = 0, ac_filtered_out = 0, ac_query_scope = queryScope\<rparr>
      else
        (let claims = claim_results env query queryScope f (sn_claims sn);
             pages = filter (\<lambda>r. sr_entity_id r \<notin> sr_entity_id ` set claims) (if js_trim query \<noteq> [] then cx_search env query queryScope else []);
             raw = claims @ pages
         in case judge_all (judge_hit env f st sn) raw of
              Inl x \<Rightarrow> Inl x
            | Inr (kept, out) \<Rightarrow>
                (let relevance = normaliseTextRelevance (map (\<lambda>(sr, c). sr_rank sr) kept);
                     scored = map (\<lambda>((sr, c), t). scoreResult env queryScope reg sr c t) (zip kept relevance)
                 in Inr \<lparr>ac_results = js_slice (case qf_limit f of None \<Rightarrow> 20 | Some n \<Rightarrow> n) (rankResults env scored),
                         ac_total_found = length raw, ac_filtered_out = out, ac_query_scope = queryScope\<rparr>)))"

section \<open>Lemmas on packing\<close>

lemma costs_nonneg: "c \<in> set (costs_of costs lane) \<Longrightarrow> 0 \<le> c"
  by (auto simp: costs_of_def normalizedCost_def split: js_real.splits option.splits)

text \<open>A packing is a prefix of every lane, with its tokens, within the budget.\<close>

definition packing_ok :: "lane_costs \<Rightarrow> string list \<Rightarrow> int \<Rightarrow> packing \<Rightarrow> bool" where
  "packing_ok costs lanes budget s =
     ((\<forall>l. pg_cursor s l \<le> length (costs_of costs l) \<and> pg_selected s l = [0..<pg_cursor s l]
        \<and> pg_tokens s l = sum_list (take (pg_cursor s l) (costs_of costs l)))
      \<and> pg_used s = (\<Sum>l \<in> set lanes. pg_tokens s l) \<and> pg_used s \<le> budget)"

lemma take_next_simps [simp]:
  "pg_cursor (take_next cs lane s) l = (if l = lane then Suc (pg_cursor s l) else pg_cursor s l)"
  "pg_tokens (take_next cs lane s) l = (if l = lane then pg_tokens s l + cs ! pg_cursor s l else pg_tokens s l)"
  "pg_selected (take_next cs lane s) l = (if l = lane then pg_selected s l @ [pg_cursor s l] else pg_selected s l)"
  "pg_used (take_next cs lane s) = pg_used s + cs ! pg_cursor s lane"
  by (simp_all add: take_next_def Let_def)

lemma packing_take:
  assumes "packing_ok costs lanes budget s" and "lane \<in> set lanes" and "pg_cursor s lane < length (costs_of costs lane)"
    and "pg_used s + costs_of costs lane ! pg_cursor s lane \<le> budget"
  shows "packing_ok costs lanes budget (take_next (costs_of costs lane) lane s)"
proof -
  let ?c = "costs_of costs lane ! pg_cursor s lane" and ?s = "take_next (costs_of costs lane) lane s"
  have "(\<Sum>l \<in> set lanes. pg_tokens ?s l) = pg_tokens s lane + ?c + (\<Sum>l \<in> set lanes - {lane}. pg_tokens s l)"
    using assms(2) by (simp add: sum.remove [of "set lanes" lane])
  also have "\<dots> = (\<Sum>l \<in> set lanes. pg_tokens s l) + ?c" using assms(2) by (simp add: sum.remove [of "set lanes" lane])
  finally have "pg_used ?s = (\<Sum>l \<in> set lanes. pg_tokens ?s l)" using assms(1) by (simp add: packing_ok_def)
  moreover have "pg_cursor ?s l \<le> length (costs_of costs l) \<and> pg_selected ?s l = [0..<pg_cursor ?s l]
        \<and> pg_tokens ?s l = sum_list (take (pg_cursor ?s l) (costs_of costs l))" for l
    using assms(1,3) by (simp add: packing_ok_def take_Suc_conv_app_nth)
  ultimately show ?thesis using assms(4) unfolding packing_ok_def by simp
qed

lemma fill_lane_cases:
  obtains (stop) "fill_lane cs target budget lane s = s" "length cs \<le> pg_cursor s lane \<or> target < pg_tokens s lane + cs ! pg_cursor s lane
      \<or> budget < pg_used s + cs ! pg_cursor s lane"
  | (go) "pg_cursor s lane < length cs" "pg_tokens s lane + cs ! pg_cursor s lane \<le> target" "pg_used s + cs ! pg_cursor s lane \<le> budget"
      "fill_lane cs target budget lane s = fill_lane cs target budget lane (take_next cs lane s)"
  by (cases "length cs \<le> pg_cursor s lane \<or> target < pg_tokens s lane + cs ! pg_cursor s lane \<or> budget < pg_used s + cs ! pg_cursor s lane")
     (auto simp: fill_lane.simps [of cs target budget lane s])

lemma fill_lane_ok:
  "packing_ok costs lanes budget s \<Longrightarrow> lane \<in> set lanes \<Longrightarrow> packing_ok costs lanes budget (fill_lane (costs_of costs lane) target budget lane s)"
proof (induction "costs_of costs lane" target budget lane s rule: fill_lane.induct)
  case (1 target budget lane s)
  show ?case
  proof (cases rule: fill_lane_cases [where cs = "costs_of costs lane" and target = target and budget = budget and lane = lane and s = s])
    case go
    then show ?thesis using 1 packing_take [of costs lanes budget s lane] by simp
  qed (simp add: 1)
qed

text \<open>What filling a lane does to the others, and why it stopped.\<close>

lemma fill_lane_effect:
  "(\<forall>l. l \<noteq> lane \<longrightarrow> pg_cursor (fill_lane cs target budget lane s) l = pg_cursor s l \<and> pg_tokens (fill_lane cs target budget lane s) l = pg_tokens s l)
   \<and> pg_used (fill_lane cs target budget lane s) = pg_used s + (pg_tokens (fill_lane cs target budget lane s) lane - pg_tokens s lane)
   \<and> (pg_tokens s lane \<le> target \<longrightarrow> pg_tokens (fill_lane cs target budget lane s) lane \<le> target)
   \<and> (length cs \<le> pg_cursor (fill_lane cs target budget lane s) lane
      \<or> target < pg_tokens (fill_lane cs target budget lane s) lane + cs ! pg_cursor (fill_lane cs target budget lane s) lane
      \<or> budget < pg_used (fill_lane cs target budget lane s) + cs ! pg_cursor (fill_lane cs target budget lane s) lane)"
proof (induction cs target budget lane s rule: fill_lane.induct)
  case (1 cs target budget lane s)
  show ?case
  proof (cases rule: fill_lane_cases [where cs = cs and target = target and budget = budget and lane = lane and s = s])
    case go
    then show ?thesis using 1 by (auto simp: algebra_simps)
  qed simp
qed

lemma share_pass_ok:
  "packing_ok costs lanes budget s \<Longrightarrow> fst ` set rest \<subseteq> set lanes \<Longrightarrow> packing_ok costs lanes budget (share_pass costs budget weights rest s)"
  by (induction costs budget weights rest s rule: share_pass.induct) (auto intro: fill_lane_ok)

lemma overflow_round_ok:
  "packing_ok costs lanes budget s \<Longrightarrow> set order \<subseteq> set lanes \<Longrightarrow> packing_ok costs lanes budget (snd (overflow_round costs budget order p s))"
proof (induction costs budget order p s rule: overflow_round.induct)
  case (2 costs budget lane rest p s)
  then show ?case using packing_take [of costs lanes budget s lane] by (auto simp: Let_def)
qed simp

lemma overflow_pass_ok:
  "packing_ok costs lanes budget s \<Longrightarrow> set order \<subseteq> set lanes \<Longrightarrow> packing_ok costs lanes budget (overflow_pass costs budget order s)"
proof (induction costs budget order s rule: overflow_pass.induct)
  case (1 costs budget order s)
  obtain q s' where r: "overflow_round costs budget order False s = (q, s')" by fastforce
  then have "packing_ok costs lanes budget s'" using overflow_round_ok [OF 1(2,3), of False] by simp
  then show ?case using 1 r by (simp add: overflow_pass.simps [of costs budget order s])
qed

lemma overflow_round_cursor: "pg_cursor s l \<le> pg_cursor (snd (overflow_round costs budget order p s)) l"
proof (induction costs budget order p s rule: overflow_round.induct)
  case (2 costs budget lane rest p s)
  then show ?case by (fastforce simp: Let_def split: if_splits)
qed simp

lemma overflow_pass_cursor: "pg_cursor s l \<le> pg_cursor (overflow_pass costs budget order s) l"
proof (induction costs budget order s rule: overflow_pass.induct)
  case (1 costs budget order s)
  obtain q s' where r: "overflow_round costs budget order False s = (q, s')" by fastforce
  then show ?case using 1 overflow_round_cursor [of s l costs budget order False]
    by (auto simp: overflow_pass.simps [of costs budget order s] intro: order_trans)
qed

text \<open>A round without progress found every lane exhausted or its next item too large.\<close>

lemma overflow_round_progressed: "fst (overflow_round costs budget order True s)"
  by (induction order arbitrary: s) (auto simp: Let_def)

lemma overflow_round_stuck:
  assumes "overflow_round costs budget order False s = (False, s')"
  shows "s' = s \<and> (\<forall>l \<in> set order. length (costs_of costs l) \<le> pg_cursor s l \<or> budget < pg_used s + costs_of costs l ! pg_cursor s l)"
  using assms
proof (induction order)
  case (Cons l order)
  then show ?case using overflow_round_progressed [of costs budget order "take_next (costs_of costs l) l s"]
    by (auto simp: Let_def split: if_splits)
qed simp

lemma overflow_pass_full:
  "l \<in> set order \<Longrightarrow> length (costs_of costs l) \<le> pg_cursor (overflow_pass costs budget order s) l \<or> budget \<le> pg_used (overflow_pass costs budget order s)
     \<or> budget < pg_used (overflow_pass costs budget order s) + costs_of costs l ! pg_cursor (overflow_pass costs budget order s) l"
proof (induction costs budget order s rule: overflow_pass.induct)
  case (1 costs budget order s)
  obtain q s' where r: "overflow_round costs budget order False s = (q, s')" by fastforce
  show ?case
  proof (cases "pg_used s < budget \<and> q")
    case True
    then show ?thesis using 1 r by (simp add: overflow_pass.simps [of costs budget order s])
  next
    case False
    then show ?thesis using 1(2) r overflow_round_stuck [of costs budget order s s'] by (auto simp: overflow_pass.simps [of costs budget order s])
  qed
qed

lemma floor_shares: "sum_list (map (\<lambda>w. \<lfloor>of_int b * w / W\<rfloor>) ws) \<le> \<lfloor>of_int b * sum_list ws / (W :: rat)\<rfloor>"
proof -
  have "of_int (sum_list (map (\<lambda>w. \<lfloor>of_int b * w / W\<rfloor>) ws)) \<le> (of_int b * sum_list ws / W :: rat)"
  proof (induction ws)
    case (Cons w ws)
    have "of_int \<lfloor>of_int b * w / W\<rfloor> \<le> (of_int b * w / W :: rat)" by (rule of_int_floor_le)
    from add_mono [OF this Cons] show ?case by (simp add: distrib_left add_divide_distrib)
  qed simp
  then show ?thesis by (simp add: le_floor_iff)
qed

lemma targets_within: "0 \<le> b \<Longrightarrow> sum_list (map (lane_target b ws) ws) \<le> b"
proof (cases "0 < sum_list ws")
  case True
  then show ?thesis using floor_shares [of b "sum_list ws" ws] by (simp add: lane_target_def [abs_def])
qed (simp add: lane_target_def [abs_def] sum_list_triv)

text \<open>The first pass gives every lane at least its share: a lane whose cost is within its target is taken whole.\<close>

lemma share_pass_whole:
  assumes "packing_ok costs lanes budget s" and "distinct (map fst rest)" and "fst ` set rest \<subseteq> set lanes"
    and "\<forall>(l, w) \<in> set rest. pg_cursor s l = 0 \<and> pg_tokens s l = 0 \<and> 0 \<le> lane_target budget weights w"
    and "pg_used s + sum_list (map (\<lambda>(l, w). lane_target budget weights w) rest) \<le> budget"
  shows "(\<forall>(l, w) \<in> set rest. sum_list (costs_of costs l) \<le> lane_target budget weights w
            \<longrightarrow> length (costs_of costs l) \<le> pg_cursor (share_pass costs budget weights rest s) l)
     \<and> (\<forall>l. l \<notin> fst ` set rest \<longrightarrow> pg_cursor (share_pass costs budget weights rest s) l = pg_cursor s l)"
  using assms
proof (induction rest arbitrary: s)
  case (Cons a rest)
  obtain lane w where a: "a = (lane, w)" by fastforce
  let ?t = "lane_target budget weights w" and ?cs = "costs_of costs lane"
  let ?s = "fill_lane ?cs ?t budget lane s"
  note eff = fill_lane_effect [of lane ?cs ?t budget s]
  have ok: "packing_ok costs lanes budget ?s" using Cons.prems a by (intro fill_lane_ok) auto
  have lane: "pg_cursor s lane = 0" "pg_tokens s lane = 0" "0 \<le> ?t" using Cons.prems(4) a by auto
  have tok: "pg_tokens ?s lane \<le> ?t" using eff lane by simp
  have rest_nonneg: "0 \<le> sum_list (map (\<lambda>(l, w). lane_target budget weights w) rest)"
    using Cons.prems(4) by (intro sum_list_nonneg) auto
  have used: "pg_used ?s + sum_list (map (\<lambda>(l, w). lane_target budget weights w) rest) \<le> budget"
    using eff tok lane Cons.prems(5) a by simp
  have fresh: "\<forall>(l, w) \<in> set rest. l \<noteq> lane" using Cons.prems(2) a by (force simp: image_iff)
  then have zero: "\<forall>(l, w) \<in> set rest. pg_cursor ?s l = 0 \<and> pg_tokens ?s l = 0 \<and> 0 \<le> lane_target budget weights w"
    using Cons.prems(4) eff a by fastforce
  have ih: "(\<forall>(l, w) \<in> set rest. sum_list (costs_of costs l) \<le> lane_target budget weights w
            \<longrightarrow> length (costs_of costs l) \<le> pg_cursor (share_pass costs budget weights rest ?s) l)
     \<and> (\<forall>l. l \<notin> fst ` set rest \<longrightarrow> pg_cursor (share_pass costs budget weights rest ?s) l = pg_cursor ?s l)"
    using Cons.prems(2,3) a by (intro Cons.IH [OF ok _ _ zero used]) auto
  have whole: "length ?cs \<le> pg_cursor ?s lane" if "sum_list ?cs \<le> ?t"
  proof (rule ccontr)
    assume short: "\<not> length ?cs \<le> pg_cursor ?s lane"
    let ?n = "pg_cursor ?s lane"
    have "pg_tokens ?s lane + ?cs ! ?n = sum_list (take (Suc ?n) ?cs)" using ok short by (simp add: packing_ok_def take_Suc_conv_app_nth)
    also have "\<dots> \<le> sum_list (take (Suc ?n) ?cs) + sum_list (drop (Suc ?n) ?cs)"
      using costs_nonneg by (auto intro!: sum_list_nonneg dest: in_set_dropD)
    also have "\<dots> = sum_list ?cs" by (metis append_take_drop_id sum_list_append)
    finally have le: "pg_tokens ?s lane + ?cs ! ?n \<le> ?t" using that by simp
    moreover have "pg_used ?s + ?cs ! ?n \<le> budget" using le eff lane rest_nonneg Cons.prems(5) a by simp
    ultimately show False using eff short by simp
  qed
  have notin: "lane \<notin> fst ` set rest" using Cons.prems(2) a by simp
  show ?case using ih whole notin eff a by (auto simp: image_iff)
qed simp

lemma sum_js_set: "sum_list (map f (js_set xs)) = sum f (set xs)"
  by (simp add: sum_list_distinct_conv_sum_set)

lemma map2_right: "length xs = length ys \<Longrightarrow> map2 (\<lambda>_. f) xs ys = map f ys"
  by (induction xs ys rule: list_induct2) auto

section \<open>Lemmas on assembly\<close>

lemma claim_by_id_mem: "claim_by_id cs i = Some c \<Longrightarrow> c \<in> set cs \<and> cl_id c = i"
  by (auto simp: claim_by_id_def find_Some_iff) (metis length_rev nth_mem set_rev)

lemma best_claim_mem: "best_claim cs = Some c \<Longrightarrow> c \<in> set cs"
  unfolding best_claim_def by (auto split: list.splits) (metis list.set_intros(1) set_sort)

lemma best_claim_None: "best_claim cs = None \<longleftrightarrow> cs = []"
  by (auto simp: best_claim_def split: list.split) (metis set_empty set_sort)

lemma temporal_filter_mem:
  "temporal_filter ck t cs = Inr ds \<Longrightarrow> set ds = {c \<in> set cs. matchesTemporalConstraint ck (claim_times c) t = Inr True}"
  by (induction ck t cs arbitrary: ds rule: temporal_filter.induct) (auto split: sum.splits if_splits)

lemma judge_all_mem:
  "judge_all j srs = Inr (kept, n) \<Longrightarrow> (\<forall>(sr, c) \<in> set kept. sr \<in> set srs \<and> j sr = Inr (Some c)) \<and> length kept + n = length srs"
  by (induction srs arbitrary: kept n) (fastforce split: sum.splits prod.splits option.splits)+

text \<open>The representative claim of a hit that stays is an eligible claim, within the constraint; a hit without one has no claims behind it.\<close>

lemma judge_hit_claim:
  assumes "judge_hit env f st sn sr = Inr (Some v)"
  shows "case v of Some c \<Rightarrow> c \<in> set (sn_claims sn)
        \<and> (case qf_temporal f of None \<Rightarrow> True | Some t \<Rightarrow> matchesTemporalConstraint (cx_clock env) (claim_times c) t = Inr True)
      | None \<Rightarrow> hit_id sr = None \<and> qf_temporal f = None \<and> claims_by_subject (sn_all sn) (sr_entity_id sr) = []"
proof -
  let ?m = "Option.bind (hit_id sr) (claim_by_id (sn_claims sn))"
  let ?ec = "case ?m of Some c \<Rightarrow> [c] | None \<Rightarrow> claims_by_subject (sn_claims sn) (sr_entity_id sr)"
  have 1: "\<not> (hit_id sr \<noteq> None \<and> ?m = None)"
    and 2: "\<not> (hit_id sr = None \<and> claims_by_subject (sn_all sn) (sr_entity_id sr) \<noteq> [] \<and> ?ec = [])"
    using assms by (auto simp: judge_hit_def Let_def split: if_splits)
  obtain cs where cs: "(case qf_temporal f of None \<Rightarrow> Inr ?ec | Some t \<Rightarrow> temporal_filter (cx_clock env) t ?ec) = Inr cs" "v = best_claim cs"
      "\<not> (qf_temporal f \<noteq> None \<and> cs = [])"
    using assms 1 2 by (auto simp: judge_hit_def Let_def split: if_splits sum.splits)
  have ec: "set ?ec \<subseteq> set (sn_claims sn)"
    by (cases "hit_id sr") (auto simp: claims_by_subject_def dest: claim_by_id_mem split: option.splits)
  show ?thesis
  proof (cases v)
    case None
    then have "cs = []" using cs(2) best_claim_None by metis
    then have "qf_temporal f = None" "?ec = []" using cs(1,3) by auto
    then show ?thesis using None 1 2 by (cases "hit_id sr") (auto split: option.splits)
  next
    case (Some c)
    then have "c \<in> set cs" using best_claim_mem cs(2) by metis
    then show ?thesis using Some cs(1) ec temporal_filter_mem by (cases "qf_temporal f") auto
  qed
qed

lemma rank_results_set:
  assumes "\<forall>rs. mset (cx_unordered env rs) = mset rs"
  shows "mset (rankResults env rs) = mset rs"
  using assms by (simp add: rankResults_def)

lemma js_slice_prefix: "\<exists>n. js_slice l xs = take n xs" "0 \<le> l \<Longrightarrow> length (js_slice l xs) \<le> nat l"
  by (auto simp: js_slice_def)

lemma snapshot_claims:
  assumes "sn_authorized (buildAuthorizedClaimSnapshot now E p l0 st config)"
  shows "sn_claims (buildAuthorizedClaimSnapshot now E p l0 st config) = filter (eligible_claim p config l0 st) (getAllClaims E (Some (cp_scope p)) st)"
    and "sn_all (buildAuthorizedClaimSnapshot now E p l0 st config) = getAllClaims E (Some (cp_scope p)) st"
    and "authorized now p config"
  using assms by (auto simp: buildAuthorizedClaimSnapshot_def Let_def split: if_splits)

text \<open>A current claim with known evidence has some that is accepted.\<close>

lemma evidence_ids_list [simp]: "evidence_ids (Some (JArr (map JStr is))) = is"
  by (simp add: evidence_ids_def comp_def)

lemma evidence_status: "map_of (map (\<lambda>r. (r_id r, r_effective r)) (l0_rows l0)) i = getEffectiveStatus i l0"
proof -
  have "map_of (map (\<lambda>r. (r_id r, r_effective r)) rows) i = map_option r_effective (lookup_by r_id i rows)" for rows
    by (induction rows) simp_all
  then show ?thesis by (simp add: getEffectiveStatus_def)
qed

lemma current_evidence:
  assumes "isEffectiveCurrent i (database l0 st)"
  shows "\<exists>row. lookup_by cl_id i (st_claims st) = Some row
    \<and> ((\<exists>o1 \<in> set (cl_supporting_evidence row). getEffectiveStatus o1 l0 \<noteq> None)
        \<longrightarrow> (\<exists>o1 \<in> set (cl_supporting_evidence row). getEffectiveStatus o1 l0 = Some EAccepted))"
proof -
  have look: "lookup_by kr_id i (kd_claims (claim_db_of st)) = map_option (\<lambda>r. \<lparr>kr_id = cl_id r, kr_scope = cl_scope r,
      kr_state = Claim_Store.or_else (cl_state r) (statusToState (cl_status r)),
      kr_supporting_evidence = Some (JArr (map JStr (cl_supporting_evidence r)))\<rparr>) (lookup_by cl_id i (st_claims st))"
  proof -
    have "lookup_by kr_id i (map g rows) = map_option g (lookup_by cl_id i rows)" if "\<And>r. kr_id (g r) = cl_id r" for g :: "claim \<Rightarrow> claim_row" and rows
      using that by (induction rows) simp_all
    then show ?thesis by (simp add: claim_db_of_def)
  qed
  obtain row where row: "lookup_by cl_id i (st_claims st) = Some row"
    and ev: "\<not> evidence_lost (map (\<lambda>r. (r_id r, r_effective r)) (l0_rows l0)) (Some (JArr (map JStr (cl_supporting_evidence row))))"
    using assms look by (auto simp: isEffectiveCurrent_def database_def split: option.splits if_splits)
  show ?thesis
    using ev by (intro exI [of _ row] conjI row) (fastforce simp: evidence_lost_def Let_def evidence_status split: option.splits)
qed

lemma js_slice_set: "set (js_slice l xs) \<subseteq> set xs" "length (js_slice l xs) \<le> length xs"
  by (auto simp: js_slice_def dest: in_set_takeD)

lemma normalise_length [simp]: "length (normaliseTextRelevance ranks) = length ranks"
  by (simp add: normaliseTextRelevance_def Let_def)

lemma scoreResult_fields [simp]:
  "sd_claim (scoreResult env qs reg sr c t) = c" "sd_entity_id (scoreResult env qs reg sr c t) = sr_entity_id sr"
  by (simp_all add: scoreResult_def Let_def)

lemma scored_mem:
  assumes "r \<in> set (map (\<lambda>((sr, c), t). scoreResult env qs reg sr c t) (zip kept ts))"
  shows "\<exists>sr. (sr, sd_claim r) \<in> set kept \<and> sd_entity_id r = sr_entity_id sr"
proof -
  obtain sr c t where r: "((sr, c), t) \<in> set (zip kept ts)" "r = scoreResult env qs reg sr c t" using assms by auto
  then have "(sr, c) \<in> set kept" by (auto dest: set_zip_leftD)
  then show ?thesis using r(2) by auto
qed

text \<open>A window that ends when it begins is an error, and an error in one hit is the result.\<close>

lemma temporal_filter_error:
  "c \<in> set cs \<Longrightarrow> matchesTemporalConstraint ck (claim_times c) t = Inl x \<Longrightarrow> \<exists>y. temporal_filter ck t cs = Inl y"
  by (induction cs) (auto split: sum.split)

lemma judge_all_error: "sr \<in> set srs \<Longrightarrow> j sr = Inl x \<Longrightarrow> \<exists>y. judge_all j srs = Inl y"
  by (induction srs) (auto split: sum.split)

lemma empty_window_error:
  assumes "ct_value (cl_t_valid_from c) = Some s" and "cl_t_valid_to c = cl_t_valid_from c" and "ck_ms ck s = Some n" and "axis_of t = ValidTime"
  shows "\<exists>x. matchesTemporalConstraint ck (claim_times c) t = Inl x"
  using assms by (simp add: matchesTemporalConstraint_def interval_def claim_times_def opt_instant_def instant_def Let_def)

lemma getAllClaims_distinct:
  assumes "plan_ok E" and "keys_unique cl_id (st_claims st)"
  shows "distinct (map cl_id (getAllClaims E sc st))"
proof -
  let ?rows = "filter (scope_filter sc) (st_claims st)"
  have "mset (map cl_id (sv_plan E ?rows)) = mset (map cl_id ?rows)" using assms(1) by (simp add: plan_ok_def)
  moreover have "distinct (map cl_id ?rows)" using assms(2) by (simp add: keys_unique_def distinct_map_filter)
  ultimately have "distinct (map cl_id (sv_plan E ?rows))" by (metis mset_eq_imp_distinct_iff)
  then show ?thesis by (simp add: getAllClaims_def comp_def)
qed

lemma claim_by_id_found:
  assumes "distinct (map cl_id cs)" and "c \<in> set cs"
  shows "claim_by_id cs (cl_id c) = Some c"
proof -
  obtain d where d: "claim_by_id cs (cl_id c) = Some d"
    using assms(2) by (cases "claim_by_id cs (cl_id c)") (auto simp: claim_by_id_def find_None_iff)
  from claim_by_id_mem [OF this] have "d = c" using assms by (auto simp: distinct_map inj_on_def)
  then show ?thesis using d by simp
qed

lemma claim_hit_error:
  assumes "distinct (map cl_id (sn_claims sn))" and "c \<in> set (sn_claims sn)" and "qf_temporal f = Some t"
    and "matchesTemporalConstraint (cx_clock env) (claim_times c) t = Inl x"
  shows "\<exists>y. judge_hit env f st sn (claim_hit c r) = Inl y"
proof (cases "cl_id c")
  case Nil
  then have h: "hit_id (claim_hit c r) = None" by (simp add: hit_id_def claim_hit_def)
  have c: "c \<in> set (claims_by_subject (sn_claims sn) (sr_entity_id (claim_hit c r)))" using assms(2) by (simp add: claims_by_subject_def claim_hit_def)
  then have "claims_by_subject (sn_claims sn) (sr_entity_id (claim_hit c r)) \<noteq> []" by auto
  moreover obtain y where "temporal_filter (cx_clock env) t (claims_by_subject (sn_claims sn) (sr_entity_id (claim_hit c r))) = Inl y"
    using temporal_filter_error [OF c assms(4)] by blast
  ultimately show ?thesis using h assms(3) by (simp add: judge_hit_def Let_def)
next
  case (Cons a as)
  then have h: "hit_id (claim_hit c r) = Some (cl_id c)" by (simp add: hit_id_def claim_hit_def)
  show ?thesis using h claim_by_id_found [OF assms(1,2)] assms(3,4) by (simp add: judge_hit_def Let_def)
qed

lemma blank_history_error:
  assumes "plan_ok (cx_store env)" and "keys_unique cl_id (st_claims st)" and "js_trim query = []" and "qf_temporal f = Some t"
    and "authorized (ck_now (cx_clock env)) (snapshot_policy actor sc f) config"
    and "c \<in> set (getAllClaims (cx_store env) (Some sc) st)" and "eligible_claim (snapshot_policy actor sc f) config l0 st c"
    and "matchesTemporalConstraint (cx_clock env) (claim_times c) t = Inl x"
  shows "\<exists>y. assembleContext env query sc actor l0 st config reg f = Inl y"
proof -
  let ?sn = "buildAuthorizedClaimSnapshot (ck_now (cx_clock env)) (cx_store env) (snapshot_policy actor sc f) l0 st config"
  have scope: "cp_scope (snapshot_policy actor sc f) = sc" by (simp add: snapshot_policy_def Let_def)
  have auth: "sn_authorized ?sn" using assms(5) by (simp add: buildAuthorizedClaimSnapshot_def Let_def)
  have c: "c \<in> set (sn_claims ?sn)" unfolding snapshot_claims(1) [OF auth] scope using assms(6,7) by simp
  have "distinct (map cl_id (sn_claims ?sn))"
    unfolding snapshot_claims(1) [OF auth] by (rule distinct_map_filter) (rule getAllClaims_distinct [OF assms(1,2)])
  from claim_hit_error [OF this c assms(4,8), where st = st and r = "Finite 1"]
  obtain y where y: "judge_hit env f st ?sn (claim_hit c (Finite 1)) = Inl y" by blast
  have "claim_results env query sc f (sn_claims ?sn) = map (\<lambda>c. claim_hit c (Finite 1)) (sn_claims ?sn)"
    using assms(3,4) by (simp add: claim_results_def Let_def)
  moreover have "\<exists>z. judge_all (judge_hit env f st ?sn) (map (\<lambda>c. claim_hit c (Finite 1)) (sn_claims ?sn)) = Inl z"
    by (rule judge_all_error [where j = "judge_hit env f st ?sn" and x = y, OF _ y]) (use c in simp)
  ultimately show ?thesis using auth assms(3) by (auto simp: assembleContext_def Let_def)
qed

section \<open>Properties\<close>

text \<open>C35: Packing keeps to the budget and to the ranks. A plan never uses more tokens than the budget (none when the budget is not a
  number); what it selects from every lane is a prefix of the lane; and its token counts are exactly the costs of what it selected.\<close>

theorem packing_within_budget:
  assumes "planContextPacking costs tokenBudget policy = Inr plan"
  shows "pp_used_tokens plan \<le> budget_of tokenBudget \<and> pp_used_tokens plan = sum_list (map snd (pp_lane_tokens plan))
    \<and> map fst (pp_selected plan) = js_set (pk_lane_order policy)
    \<and> (\<forall>(lane, items) \<in> set (pp_selected plan). \<exists>n \<le> length (costs_of costs lane). items = [0..<n]
        \<and> map_of (pp_lane_tokens plan) lane = Some (sum_list (take n (costs_of costs lane))))"
proof -
  let ?lanes = "js_set (pk_lane_order policy)" and ?b = "budget_of tokenBudget"
  let ?s = "pack costs ?b policy ?lanes"
  have plan: "plan = \<lparr>pp_selected = map (\<lambda>l. (l, pg_selected ?s l)) ?lanes, pp_used_tokens = pg_used ?s, pp_lane_tokens = map (\<lambda>l. (l, pg_tokens ?s l)) ?lanes\<rparr>"
    using assms by (auto simp: planContextPacking_def Let_def split: if_splits)
  have "packing_ok costs ?lanes ?b empty_packing" by (simp add: packing_ok_def empty_packing_def budget_of_def split: js_real.split)
  then have "packing_ok costs ?lanes ?b (share_pass costs ?b (lane_weights_of policy ?lanes) (zip ?lanes (lane_weights_of policy ?lanes)) empty_packing)"
    by (rule share_pass_ok) (auto dest: set_zip_leftD)
  then have ok: "packing_ok costs ?lanes ?b ?s"
    unfolding pack_def Let_def by (rule overflow_pass_ok) (auto simp: overflow_order_of_def Let_def)
  have "map_of (map (\<lambda>l. (l, f l)) ?lanes) lane = Some (f lane)" if "lane \<in> set ?lanes" for f :: "string \<Rightarrow> int" and lane
    using that by (simp add: map_of_map_restrict)
  then show ?thesis using ok unfolding plan packing_ok_def by (auto simp: comp_def sum_js_set)
qed

text \<open>C19: No lane is starved and no room is wasted. A lane whose items fit into its share of the budget is selected whole, whatever
  the other lanes hold; and when a lane is not selected whole, either the budget is used up or its next item does not fit any more.\<close>

theorem packing_no_starvation:
  assumes "planContextPacking costs tokenBudget policy = Inr plan"
  shows "\<forall>(lane, items) \<in> set (pp_selected plan).
      (sum_list (costs_of costs lane) \<le> lane_target (budget_of tokenBudget) (lane_weights_of policy (js_set (pk_lane_order policy)))
          (if 0 < sum_list (map (lane_weight policy) (js_set (pk_lane_order policy))) then lane_weight policy lane else 1)
        \<longrightarrow> length items = length (costs_of costs lane))
    \<and> (length items < length (costs_of costs lane)
        \<longrightarrow> budget_of tokenBudget \<le> pp_used_tokens plan \<or> budget_of tokenBudget < pp_used_tokens plan + costs_of costs lane ! length items)"
proof -
  let ?lanes = "js_set (pk_lane_order policy)" and ?b = "budget_of tokenBudget"
  let ?ws = "lane_weights_of policy ?lanes" and ?w = "\<lambda>lane. if 0 < sum_list (map (lane_weight policy) ?lanes) then lane_weight policy lane else 1"
  let ?z = "zip ?lanes ?ws" and ?order = "overflow_order_of policy ?lanes"
  let ?s1 = "share_pass costs ?b ?ws ?z empty_packing"
  let ?s = "overflow_pass costs ?b ?order ?s1"
  have plan: "plan = \<lparr>pp_selected = map (\<lambda>l. (l, pg_selected ?s l)) ?lanes, pp_used_tokens = pg_used ?s, pp_lane_tokens = map (\<lambda>l. (l, pg_tokens ?s l)) ?lanes\<rparr>"
    using assms by (auto simp: planContextPacking_def pack_def Let_def split: if_splits)
  have ws: "?ws = map ?w ?lanes" by (auto simp: lane_weights_of_def Let_def)
  then have z: "?z = map (\<lambda>l. (l, ?w l)) ?lanes" by (simp add: zip_map2 zip_same_conv_map comp_def)
  have b: "0 \<le> ?b" by (simp add: budget_of_def split: js_real.split)
  have start: "packing_ok costs ?lanes ?b empty_packing" using b by (simp add: packing_ok_def empty_packing_def)
  have nonneg: "0 \<le> lane_target ?b ?ws (?w l)" for l
    using b by (auto simp: lane_target_def lane_weight_def split: option.split js_real.split)
  have within: "sum_list (map (\<lambda>(l, w). lane_target ?b ?ws w) ?z) \<le> ?b"
    using targets_within [OF b, of ?ws] ws by (simp add: map2_right)
  have "distinct (map fst ?z)" "fst ` set ?z \<subseteq> set ?lanes" by (auto simp: z comp_def)
  moreover have "\<forall>(l, w) \<in> set ?z. pg_cursor empty_packing l = 0 \<and> pg_tokens empty_packing l = 0 \<and> 0 \<le> lane_target ?b ?ws w"
    unfolding z using nonneg by (auto simp: empty_packing_def simp del: if_splits)
  moreover have "pg_used empty_packing + sum_list (map (\<lambda>(l, w). lane_target ?b ?ws w) ?z) \<le> ?b" using within by (simp add: empty_packing_def)
  ultimately have share: "\<forall>(l, w) \<in> set ?z. sum_list (costs_of costs l) \<le> lane_target ?b ?ws w \<longrightarrow> length (costs_of costs l) \<le> pg_cursor ?s1 l"
    using share_pass_whole [OF start] by blast
  have whole: "length (costs_of costs l) \<le> pg_cursor ?s1 l" if "l \<in> set ?lanes" "sum_list (costs_of costs l) \<le> lane_target ?b ?ws (?w l)" for l
  proof -
    have "(l, ?w l) \<in> set ?z" unfolding z using that(1) by (rule imageI [of l "set ?lanes" "\<lambda>l. (l, ?w l)", folded set_map])
    then show ?thesis using share that(2) by blast
  qed
  have sel: "packing_ok costs ?lanes ?b ?s"
    by (rule overflow_pass_ok [OF share_pass_ok [OF start]]) (auto simp: overflow_order_of_def Let_def dest: set_zip_leftD)
  have "l \<in> set ?order" if "l \<in> set ?lanes" for l using that by (auto simp: overflow_order_of_def Let_def)
  note full = overflow_pass_full [OF this, of _ costs ?b ?s1]
  have len: "length (pg_selected ?s l) = pg_cursor ?s l" "pg_cursor ?s l \<le> length (costs_of costs l)" for l
    using sel by (simp_all add: packing_ok_def)
  have all: "length (pg_selected ?s l) = length (costs_of costs l)" if "l \<in> set ?lanes" "sum_list (costs_of costs l) \<le> lane_target ?b ?ws (?w l)" for l
    using whole [OF that] overflow_pass_cursor [of ?s1 l costs ?b ?order] len [of l] by linarith
  show ?thesis using all full len unfolding plan by (fastforce simp: len)
qed

text \<open>C18: Retrieval respects the caller's policy on every channel. An actor who is neither the owner nor granted the query gets nothing.
  Otherwise every result that shows a claim shows one of the query's scope that is eligible for that caller (not forgotten,
  superseded or stale unless asked for, sensitive only for the owner who asks, of the asked confidence and type) and meets the
  temporal constraint; unless the query asks for superseded claims or for history, it is current, so that of its evidence that the
  observation index knows some is accepted; and a result without a claim belongs to an entity no claim of the scope is about, so a page never
  shows what its claims would hide.\<close>

theorem context_respects_policy:
  assumes "assembleContext env query queryScope actorId l0 st config reg f = Inr ctx"
    and "\<forall>rs. mset (cx_unordered env rs) = mset rs"
  shows "(\<not> authorized (ck_now (cx_clock env)) (snapshot_policy actorId queryScope f) config \<longrightarrow> ac_results ctx = [] \<and> ac_total_found ctx = 0)
    \<and> (\<forall>r \<in> set (ac_results ctx).
        case sd_claim r of
          Some c \<Rightarrow> c \<in> set (getAllClaims (cx_store env) (Some queryScope) st)
            \<and> eligible_claim (snapshot_policy actorId queryScope f) config l0 st c
            \<and> (cl_sensitive c \<longrightarrow> isOwner actorId config \<and> qf_sensitive f)
            \<and> (is_forgotten c \<longrightarrow> qf_forgotten f \<or> (\<exists>t. qf_temporal f = Some t \<and> is_history t \<and> axis_of t = TransactionTime))
            \<and> (\<forall>t. qf_temporal f = Some t \<longrightarrow> matchesTemporalConstraint (cx_clock env) (claim_times c) t = Inr True)
            \<and> (\<not> qf_superseded f \<and> (\<forall>t. qf_temporal f = Some t \<longrightarrow> \<not> is_history t) \<longrightarrow> isEffectiveCurrent (cl_id c) (database l0 st)
                \<and> (\<exists>row. lookup_by cl_id (cl_id c) (st_claims st) = Some row
                    \<and> ((\<exists>o1 \<in> set (cl_supporting_evidence row). getEffectiveStatus o1 l0 \<noteq> None)
                      \<longrightarrow> (\<exists>o1 \<in> set (cl_supporting_evidence row). getEffectiveStatus o1 l0 = Some EAccepted))))
        | None \<Rightarrow> qf_temporal f = None \<and> claims_by_subject (getAllClaims (cx_store env) (Some queryScope) st) (sd_entity_id r) = [])
    \<and> (0 \<le> (case qf_limit f of None \<Rightarrow> 20 | Some n \<Rightarrow> n) \<longrightarrow> int (length (ac_results ctx)) \<le> (case qf_limit f of None \<Rightarrow> 20 | Some n \<Rightarrow> n))
    \<and> length (ac_results ctx) + ac_filtered_out ctx \<le> ac_total_found ctx"
proof -
  let ?p = "snapshot_policy actorId queryScope f" and ?now = "ck_now (cx_clock env)"
  let ?sn = "buildAuthorizedClaimSnapshot ?now (cx_store env) ?p l0 st config"
  show ?thesis
  proof (cases "sn_authorized ?sn")
    case False
    then have "ctx = \<lparr>ac_results = [], ac_total_found = 0, ac_filtered_out = 0, ac_query_scope = queryScope\<rparr>"
      using assms(1) by (simp add: assembleContext_def Let_def)
    then show ?thesis by simp
  next
    case True
    let ?claims = "claim_results env query queryScope f (sn_claims ?sn)"
    let ?raw = "?claims @ filter (\<lambda>r. sr_entity_id r \<notin> sr_entity_id ` set ?claims) (if js_trim query \<noteq> [] then cx_search env query queryScope else [])"
    obtain kept n where j: "judge_all (judge_hit env f st ?sn) ?raw = Inr (kept, n)"
      using assms(1) True by (auto simp: assembleContext_def Let_def split: sum.splits)
    let ?scored = "map (\<lambda>((sr, c), t). scoreResult env queryScope reg sr c t)
      (zip kept (normaliseTextRelevance (map (\<lambda>(sr, c). sr_rank sr) kept)))"
    let ?limit = "case qf_limit f of None \<Rightarrow> 20 | Some n \<Rightarrow> n"
    have ctx: "ac_results ctx = js_slice ?limit (rankResults env ?scored)" "ac_total_found ctx = length ?raw" "ac_filtered_out ctx = n"
      using assms(1) True j by (auto simp: assembleContext_def Let_def)
    have ms: "mset (rankResults env ?scored) = mset ?scored" by (rule rank_results_set [OF assms(2)])
    have sub: "set (ac_results ctx) \<subseteq> set ?scored"
      unfolding ctx(1) mset_eq_setD [OF ms, symmetric] by (rule js_slice_set(1))
    note sn = snapshot_claims [OF True]
    have shown: "case sd_claim r of
          Some c \<Rightarrow> c \<in> set (sn_claims ?sn) \<and> (\<forall>t. qf_temporal f = Some t \<longrightarrow> matchesTemporalConstraint (cx_clock env) (claim_times c) t = Inr True)
        | None \<Rightarrow> qf_temporal f = None \<and> claims_by_subject (sn_all ?sn) (sd_entity_id r) = []" if "r \<in> set (ac_results ctx)" for r
    proof -
      have "\<exists>sr. (sr, sd_claim r) \<in> set kept \<and> sd_entity_id r = sr_entity_id sr"
        by (rule scored_mem [OF subsetD [OF sub that]])
      then obtain sr where r: "(sr, sd_claim r) \<in> set kept" "sd_entity_id r = sr_entity_id sr" by blast
      then have "judge_hit env f st ?sn sr = Inr (Some (sd_claim r))" using judge_all_mem [OF j] by auto
      then show ?thesis using judge_hit_claim [of env f st ?sn sr "sd_claim r"] r(2) by (cases "sd_claim r") (auto split: option.splits)
    qed
    have policy: "cl_sensitive c \<longrightarrow> isOwner actorId config \<and> qf_sensitive f"
        "is_forgotten c \<longrightarrow> qf_forgotten f \<or> (\<exists>t. qf_temporal f = Some t \<and> is_history t \<and> axis_of t = TransactionTime)"
        "\<not> qf_superseded f \<and> (\<forall>t. qf_temporal f = Some t \<longrightarrow> \<not> is_history t) \<longrightarrow> isEffectiveCurrent (cl_id c) (database l0 st)"
      if "eligible_claim ?p config l0 st c" for c
      using that by (auto simp: snapshot_policy_def eligible_claim_def Let_def split: option.splits)
    have scope: "cp_scope ?p = queryScope" by (simp add: snapshot_policy_def Let_def)
    have "\<forall>r \<in> set (ac_results ctx).
        case sd_claim r of
          Some c \<Rightarrow> c \<in> set (getAllClaims (cx_store env) (Some queryScope) st)
            \<and> eligible_claim ?p config l0 st c
            \<and> (cl_sensitive c \<longrightarrow> isOwner actorId config \<and> qf_sensitive f)
            \<and> (is_forgotten c \<longrightarrow> qf_forgotten f \<or> (\<exists>t. qf_temporal f = Some t \<and> is_history t \<and> axis_of t = TransactionTime))
            \<and> (\<forall>t. qf_temporal f = Some t \<longrightarrow> matchesTemporalConstraint (cx_clock env) (claim_times c) t = Inr True)
            \<and> (\<not> qf_superseded f \<and> (\<forall>t. qf_temporal f = Some t \<longrightarrow> \<not> is_history t) \<longrightarrow> isEffectiveCurrent (cl_id c) (database l0 st)
                \<and> (\<exists>row. lookup_by cl_id (cl_id c) (st_claims st) = Some row
                    \<and> ((\<exists>o1 \<in> set (cl_supporting_evidence row). getEffectiveStatus o1 l0 \<noteq> None)
                      \<longrightarrow> (\<exists>o1 \<in> set (cl_supporting_evidence row). getEffectiveStatus o1 l0 = Some EAccepted))))
        | None \<Rightarrow> qf_temporal f = None \<and> claims_by_subject (getAllClaims (cx_store env) (Some queryScope) st) (sd_entity_id r) = []"
    proof
      fix r assume "r \<in> set (ac_results ctx)"
      from shown [OF this] policy current_evidence show "case sd_claim r of
          Some c \<Rightarrow> c \<in> set (getAllClaims (cx_store env) (Some queryScope) st)
            \<and> eligible_claim ?p config l0 st c
            \<and> (cl_sensitive c \<longrightarrow> isOwner actorId config \<and> qf_sensitive f)
            \<and> (is_forgotten c \<longrightarrow> qf_forgotten f \<or> (\<exists>t. qf_temporal f = Some t \<and> is_history t \<and> axis_of t = TransactionTime))
            \<and> (\<forall>t. qf_temporal f = Some t \<longrightarrow> matchesTemporalConstraint (cx_clock env) (claim_times c) t = Inr True)
            \<and> (\<not> qf_superseded f \<and> (\<forall>t. qf_temporal f = Some t \<longrightarrow> \<not> is_history t) \<longrightarrow> isEffectiveCurrent (cl_id c) (database l0 st)
                \<and> (\<exists>row. lookup_by cl_id (cl_id c) (st_claims st) = Some row
                    \<and> ((\<exists>o1 \<in> set (cl_supporting_evidence row). getEffectiveStatus o1 l0 \<noteq> None)
                      \<longrightarrow> (\<exists>o1 \<in> set (cl_supporting_evidence row). getEffectiveStatus o1 l0 = Some EAccepted))))
        | None \<Rightarrow> qf_temporal f = None \<and> claims_by_subject (getAllClaims (cx_store env) (Some queryScope) st) (sd_entity_id r) = []"
        unfolding sn(1,2) scope by (cases "sd_claim r") (simp_all, blast)
    qed
    moreover have "length (ac_results ctx) \<le> length kept"
      using js_slice_set(2) [of ?limit "rankResults env ?scored"] mset_eq_length [OF ms] by (simp add: ctx(1))
    then have "length (ac_results ctx) + ac_filtered_out ctx \<le> ac_total_found ctx"
      using judge_all_mem [OF j] by (simp add: ctx(2,3))
    moreover have "int (length (ac_results ctx)) \<le> ?limit" if "0 \<le> ?limit"
      using js_slice_prefix(2) [OF that, of "rankResults env ?scored"] that by (simp add: ctx(1))
    ultimately show ?thesis using sn(3) by blast
  qed
qed

text \<open>C36: Correcting a claim as wrong makes valid-time retrieval fail. A correction with reason wrong and no replacement ends the claim's
  valid window at its own start. From then on every retrieval by valid time over the claim's scope that lists the scope (no search words) fails with
  an error, for every actor who may query the scope and all filters under which the corrected claim is eligible to be shown (which ask for
  forgotten claims in particular) and whatever else the scope holds, because one empty window is refused for the whole query.\<close>

theorem wrong_correction_breaks_valid_time:
  assumes "store_run (av_store adm) st" and "plan_ok (cx_store env)"
    and "body_string (co_body (ob_content obs)) ''target_claim_id'' = Some i" and "getClaim i st = Some original"
    and "normaliseCorrectionReason (body_get (co_body (ob_content obs)) ''reason'') = RsWrong"
    and "\<not> truthy_json (body_get (co_body (ob_content obs)) ''corrected_claim'')"
    and "handleCorrection adm obs st = (Inr (), st')"
    and "ct_state (cl_t_valid_from original) \<noteq> TsNull" and "ct_value (cl_t_valid_from original) = Some s" and "ck_ms (cx_clock env) s = Some n"
    and "qf_temporal f = Some t" and "axis_of t = ValidTime" and "js_trim query = []"
    and "authorized (ck_now (cx_clock env)) (snapshot_policy actorId (cl_scope original) f) config"
  shows "\<exists>corrected. getClaim i st' = Some corrected \<and> is_forgotten corrected
    \<and> (eligible_claim (snapshot_policy actorId (cl_scope original) f) config l0 st' corrected
        \<longrightarrow> (\<exists>x. assembleContext env query (cl_scope original) actorId l0 st' config reg f = Inl x))"
proof -
  let ?c = "with_validity (original\<lparr>cl_status := StRetracted, cl_t_invalidated := knownTime (ob_captured_at obs),
    cl_t_valid_to := from_or_now original (knownTime (ob_captured_at obs))\<rparr>)"
  have ins: "insertClaim (av_store adm) ?c st = (Inr (), st')"
    using assms(3-7) by (auto simp: handleCorrection_def and_then_def Let_def split: sum.splits prod.splits)
  have "\<not> (cl_confidence ?c = None \<or> cl_subject_id ?c \<notin> entity_ids (st_ents st))"
  proof
    assume "cl_confidence ?c = None \<or> cl_subject_id ?c \<notin> entity_ids (st_ents st)"
    from insertClaim_refused [OF this, of "av_store adm"] ins show False by simp
  qed
  then obtain conf where ok: "cl_confidence ?c = Some conf" "cl_subject_id ?c \<in> entity_ids (st_ents st)"
    by (cases "cl_confidence ?c") auto
  have rows: "st_claims st' = ins_replace cl_id (claim_columns ?c) (st_claims st)"
    using insertClaim_run(3) [OF assms(1) ok] ins by simp
  let ?d = "rowToClaim (claim_columns ?c)"
  have keys: "keys_unique cl_id (st_claims st')"
    using insertClaim_keys [of st "av_store adm" ?c] ins healthy_keys [OF store_run_healthy [OF assms(1)]] by simp
  have mem: "?d \<in> set (getAllClaims (cx_store env) (Some (cl_scope original)) st')"
    using plan_set [OF assms(2)] by (auto simp: getAllClaims_def rows scope_filter_def ins_replace_def with_validity_def)
  have id: "cl_id original = i"
    using assms(4) by (auto simp: getClaim_def dest: lookup_by_SomeD)
  have get: "getClaim i st' = Some ?d"
    by (simp add: getClaim_def rows id with_validity_def sql)
  have gone: "is_forgotten ?d" by (simp add: is_forgotten_def with_validity_def)
  have "\<exists>x. matchesTemporalConstraint (cx_clock env) (claim_times ?d) t = Inl x"
    using assms(8-10,12) by (intro empty_window_error) (auto simp: with_validity_def from_or_now_def)
  then show ?thesis using blank_history_error [OF assms(2) keys assms(13,11,14) mem] get gone by blast
qed

section \<open>Witnesses\<close>

definition demo_costs :: lane_costs where
  "demo_costs = [(''claims'', [Finite 3, Finite (9 / 2), Finite 4]), (''pages'', [Finite 2, NotFinite, Finite 6])]"

definition demo_packing :: packing_policy where
  "demo_packing = \<lparr>pk_lane_order = [''claims'', ''pages''], pk_lane_weights = [(''claims'', Finite 2)], pk_overflow_order = None\<rparr>"

lemma demo_packed:
  "planContextPacking demo_costs (Finite 12) demo_packing
   = Inr \<lparr>pp_selected = [(''claims'', [0, 1]), (''pages'', [0, 1])], pp_used_tokens = 10, pp_lane_tokens = [(''claims'', 8), (''pages'', 2)]\<rparr>"
  by code_simp

theorem packing_within_budget_witness:
  "\<exists>plan. planContextPacking demo_costs (Finite 12) demo_packing = Inr plan \<and> pp_used_tokens plan \<le> budget_of (Finite 12) \<and> pp_used_tokens plan = 10"
  using packing_within_budget [OF demo_packed] demo_packed by simp

theorem packing_no_starvation_witness:
  "\<exists>plan. planContextPacking demo_costs (Finite 12) demo_packing = Inr plan
     \<and> budget_of (Finite 12) < pp_used_tokens plan + costs_of demo_costs ''claims'' ! 2"
proof -
  have "costs_of demo_costs ''claims'' = [3, 5, 4]" "budget_of (Finite 12) = 12" by code_simp+
  then show ?thesis using packing_no_starvation [OF demo_packed] demo_packed by simp
qed

definition demo_context :: context_env where
  "demo_context =
     \<lparr>cx_clock = \<lparr>ck_ms = (\<lambda>s. Some (if s = ''2026-08-01'' then 1 else 2)), ck_now = 5\<rparr>, cx_half_life = (\<lambda>_. 1 / 2), cx_store = demo_env,
      cx_unordered = (\<lambda>rs. rs), cx_search_claims = (\<lambda>_ _. []), cx_search = (\<lambda>_ _. []), cx_stringify = (\<lambda>_. [])\<rparr>"

definition demo_filters :: query_filters where
  "demo_filters =
     \<lparr>qf_min_confidence = None, qf_epistemic = [], qf_epistemic_tags = [], qf_entity_type = None, qf_sensitive = True, qf_stale = True,
      qf_superseded = False, qf_forgotten = True, qf_temporal = Some (TcAsOf ValidTime ''2026-09-01''), qf_limit = None\<rparr>"

text \<open>The evidence of the claims of the example, accepted or tombstoned.\<close>

definition demo_evidence :: "effective_status \<Rightarrow> layer0_index" where
  "demo_evidence status =
     \<lparr>l0_rows = [\<lparr>r_id = ''obs_1'', r_type = T_message, r_effective = status, r_app = ''app'', r_source_id = None, r_actor_id = ''user:local'',
        r_actor_type = Person, r_scope = ''client:acme'', r_visibility = VScope, r_sensitive = False, r_pii_detected = False,
        r_captured_at = ''t'', r_observed_at = ''t'', r_sequence = 1, r_writer_id = ''w'', r_hash = ''h'', r_idempotency_actor_id = None,
        r_idempotency_key = None, r_payload_hash = None\<rparr>], l0_last_sequence = Some 1\<rparr>"

abbreviation demo_asked :: "claim_store \<Rightarrow> assembled_context outcome" where
  "demo_asked st \<equiv> assembleContext demo_context [] ''client:acme'' (owner_id Auth.demo_config) (demo_evidence EAccepted) st Auth.demo_config [] demo_filters"

definition demo_wrong :: observation where
  "demo_wrong = demo_event ''o9'' 9 T_correction (JObj [(''target_claim_id'', JStr ''claim_a''), (''reason'', JStr ''wrong'')])"

lemma demo_asked_ok: "(case demo_asked demo_pair of Inl _ \<Rightarrow> False | Inr ctx \<Rightarrow> length (ac_results ctx) = 2 \<and> ac_filtered_out ctx = 0)"
  by code_simp

text \<open>Without evidence left, a query about the present does not show the claim.\<close>

lemma demo_current:
  "isEffectiveCurrent ''claim_a'' (database (demo_evidence EAccepted) demo_pair)"
  "\<not> isEffectiveCurrent ''claim_a'' (database (demo_evidence ETombstoned) demo_pair)"
  by code_simp+

lemma context_hides_withdrawn:
  assumes "cl_id c = ''claim_a''" and "\<not> qf_superseded f" and "qf_temporal f = None"
  shows "\<not> eligible_claim (snapshot_policy actorId sc f) config (demo_evidence ETombstoned) demo_pair c"
  using assms demo_current(2) by (simp add: eligible_claim_def snapshot_policy_def Let_def)

theorem context_respects_policy_witness:
  "\<exists>ctx. demo_asked demo_pair = Inr ctx \<and> ac_results ctx \<noteq> [] \<and> int (length (ac_results ctx)) \<le> 20
     \<and> (\<forall>r \<in> set (ac_results ctx). \<exists>c. sd_claim r = Some c \<and> c \<in> set (getAllClaims demo_env (Some ''client:acme'') demo_pair))"
proof -
  obtain ctx where ctx: "demo_asked demo_pair = Inr ctx" "length (ac_results ctx) = 2"
    using demo_asked_ok by (auto split: sum.splits)
  have perm: "\<forall>rs. mset (cx_unordered demo_context rs) = mset rs" and simps: "cx_store demo_context = demo_env" by (simp_all add: demo_context_def)
  note p = context_respects_policy [OF ctx(1) perm, unfolded simps]
  have f: "qf_temporal demo_filters \<noteq> None" "qf_limit demo_filters = None" by (simp_all add: demo_filters_def)
  have "\<exists>c. sd_claim r = Some c \<and> c \<in> set (getAllClaims demo_env (Some ''client:acme'') demo_pair)" if "r \<in> set (ac_results ctx)" for r
    using conjunct1 [OF conjunct2 [OF p]] that f(1) by (cases "sd_claim r") auto
  moreover have "int (length (ac_results ctx)) \<le> 20" using p f(2) by simp
  ultimately show ?thesis using ctx by (intro exI [of _ ctx]) auto
qed

lemma demo_wrong_runs: "fst (handleCorrection demo_admission demo_wrong demo_pair) = Inr ()"
  by code_simp

theorem wrong_correction_breaks_valid_time_witness:
  "\<exists>st' x. handleCorrection demo_admission demo_wrong demo_pair = (Inr (), st') \<and> demo_asked st' = Inl x
     \<and> \<not> eligible_claim (snapshot_policy (owner_id Auth.demo_config) ''client:acme'' (demo_filters\<lparr>qf_temporal := None, qf_forgotten := False\<rparr>)) Auth.demo_config
          (demo_evidence EAccepted) st' (the (getClaim ''claim_a'' st'))"
proof -
  let ?st = "snd (handleCorrection demo_admission demo_wrong demo_pair)"
  have run: "handleCorrection demo_admission demo_wrong demo_pair = (Inr (), ?st)" using demo_wrong_runs by (metis prod.collapse)
  have body: "body_string (co_body (ob_content demo_wrong)) ''target_claim_id'' = Some ''claim_a''"
    "normaliseCorrectionReason (body_get (co_body (ob_content demo_wrong)) ''reason'') = RsWrong"
    "\<not> truthy_json (body_get (co_body (ob_content demo_wrong)) ''corrected_claim'')"
    by code_simp+
  let ?c = "stored (demo_claim ''claim_a'' ''2026-11-02'' ''2026-08-01'')"
  have c: "getClaim ''claim_a'' demo_pair = Some ?c" by (simp add: demo_pair_get)
  have fields: "ct_state (cl_t_valid_from ?c) \<noteq> TsNull" "ct_value (cl_t_valid_from ?c) = Some ''2026-08-01''" "cl_scope ?c = ''client:acme''" by code_simp+
  have "store_run (av_store demo_admission) demo_pair" "plan_ok (cx_store demo_context)" using demo_runs(2) demo_plan by (simp_all add: demo_context_def)
  moreover have "ck_ms (cx_clock demo_context) ''2026-08-01'' = Some 1" "isOwner (owner_id Auth.demo_config) Auth.demo_config" "js_trim [] = []"
    "qf_temporal demo_filters = Some (TcAsOf ValidTime ''2026-09-01'')" "axis_of (TcAsOf ValidTime ''2026-09-01'') = ValidTime"
    by (simp_all add: demo_context_def isOwner_def js_trim_def demo_filters_def axis_of_def)
  moreover have "authorized (ck_now (cx_clock demo_context)) (snapshot_policy (owner_id Auth.demo_config) (cl_scope ?c) demo_filters) Auth.demo_config"
    by (simp add: authorized_def snapshot_policy_def Let_def isOwner_def)
  ultimately obtain corrected where corrected: "getClaim ''claim_a'' ?st = Some corrected" "is_forgotten corrected"
      "eligible_claim (snapshot_policy (owner_id Auth.demo_config) (cl_scope ?c) demo_filters) Auth.demo_config (demo_evidence EAccepted) ?st corrected
        \<longrightarrow> (\<exists>x. demo_asked ?st = Inl x)"
    using wrong_correction_breaks_valid_time [OF _ _ body(1) c body(2,3) run fields(1,2), of demo_context 1 demo_filters "TcAsOf ValidTime ''2026-09-01''" "[]"
        "owner_id Auth.demo_config" Auth.demo_config "demo_evidence EAccepted" "[]"]
    unfolding fields(3) by blast
  have "eligible_claim (snapshot_policy (owner_id Auth.demo_config) sc demo_filters) Auth.demo_config l0 st' x" for sc l0 st' x
    by (simp add: eligible_claim_def snapshot_policy_def demo_filters_def isOwner_def is_history_def axis_of_def Let_def split: option.split)
  then have "\<exists>x. demo_asked ?st = Inl x" using corrected(3) by blast
  moreover have "\<not> eligible_claim (snapshot_policy (owner_id Auth.demo_config) ''client:acme'' (demo_filters\<lparr>qf_temporal := None, qf_forgotten := False\<rparr>))
      Auth.demo_config (demo_evidence EAccepted) ?st (the (getClaim ''claim_a'' ?st))"
    using corrected(1,2) by (simp add: eligible_claim_def snapshot_policy_def Let_def)
  ultimately show ?thesis using run by blast
qed

end
