(* ===== verification/Retention.thy ===== *)
theory Retention
  imports Forget
begin

text \<open>
  The retention sweep (\<^verbatim>\<open>protocol/retention.ts\<close>): the expiry of an observation, and the sweep of a scope that tombstones what has
  elapsed, forgets the claims whose only evidence it was, catches the claim store up and commits under an operation id.

  The timestamp parser and printer, the hash of a mutation's payload, a fresh ULID and the coercion of a stored count are
  parameters (\<open>retention_env\<close>); days are exact integers. The configuration a call runs with and the one on disk are two arguments,
  since the legal holds are read from the disk.
\<close>

section \<open>Expiry\<close>

definition decimal_value :: "string \<Rightarrow> nat" where
  "decimal_value s = fold (\<lambda>c n. 10 * n + (of_char c - 48)) s 0"

definition parseDurationDays :: "string option \<Rightarrow> nat option" where
  "parseDurationDays duration =
     (case duration of
        Some (p # rest) \<Rightarrow>
          (let digits = butlast rest in
           if p = CHR ''P'' \<and> rest \<noteq> [] \<and> last rest = CHR ''D'' \<and> digits \<noteq> [] \<and> list_all Secrets.is_digit digits \<and> 0 < decimal_value digits
           then Some (decimal_value digits) else None)
      | _ \<Rightarrow> None)"

definition isRetentionExpired :: "(string \<Rightarrow> int option) \<Rightarrow> observation \<Rightarrow> int \<Rightarrow> bool" where
  "isRetentionExpired ms obs asOf =
     (po_retention (ob_policy obs) = Duration
      \<and> (case parseDurationDays (po_retention_duration (ob_policy obs)) of
           None \<Rightarrow> False
         | Some days \<Rightarrow>
             (case ms (ob_observed_at obs) of
                None \<Rightarrow> False
              | Some observedAt \<Rightarrow> observedAt + int days * 86400000 \<le> asOf)))"

section \<open>Parameters, state and results\<close>

record expire_params =
  ep_actor :: actor
  ep_scope :: string
  ep_operation_id :: "string option"
  ep_as_of :: "string option"

record expire_result =
  er_scope :: string
  er_observations_expired :: "int option"
  er_claims_retracted :: "int option"
  er_operation_id :: string
  er_skipped :: bool

record tombstone_payload =
  tp_actor_id :: string
  tp_target :: string
  tp_operation_id :: string
  tp_sequence :: nat
  tp_observed_at :: string

record retention_env =
  rn_now :: int
  rn_iso :: "int \<Rightarrow> string"
  rn_ms :: "string \<Rightarrow> int option"
  rn_hash :: "tombstone_payload \<Rightarrow> string"
  rn_sha :: "observation \<Rightarrow> string"
  rn_ulid :: string
  rn_number :: "json \<Rightarrow> int option"
  rn_adm :: admission_env
  rn_cfg :: "er_config option"

record retention_world =
  rt_evidence :: evidence_dir
  rt_index :: layer0_index
  rt_store :: claim_store
  rt_ops :: ops_dir

abbreviation rn_now_iso :: "retention_env \<Rightarrow> string" where
  "rn_now_iso env \<equiv> rn_iso env (rn_now env)"

text \<open>\<^verbatim>\<open>Number(details?.[key] ?? 0)\<close>; a stored number is itself, anything else is coerced by the engine.\<close>

definition stored_count :: "retention_env \<Rightarrow> op_entry \<Rightarrow> string \<Rightarrow> int option" where
  "stored_count env e key =
     (case entry_detail e key of None \<Rightarrow> Some 0 | Some JNull \<Rightarrow> Some 0 | Some (JNum n) \<Rightarrow> Some n | Some j \<Rightarrow> rn_number env j)"

definition expire_entry :: "retention_env \<Rightarrow> expire_params \<Rightarrow> string \<Rightarrow> int \<Rightarrow> nat \<Rightarrow> nat \<Rightarrow> bool \<Rightarrow> op_entry" where
  "expire_entry env p oid asOf expired retracted skipped =
     \<lparr>oe_operation_id = oid, oe_actor_id = operationActorId (ac_id (ep_actor p)), oe_timestamp = rn_now_iso env, oe_op = ''retention.expire'',
      oe_details = Some ([(''scope'', JStr (ep_scope p)), (''observations_expired'', JNum (int expired)), (''claims_retracted'', JNum (int retracted)),
          (''as_of'', JStr (rn_iso env asOf))] @ (if skipped then [(''skipped'', JStr ''legal_hold'')] else []))\<rparr>"

section \<open>Tombstones\<close>

definition buildTombstoneMutation ::
  "retention_env \<Rightarrow> observation \<Rightarrow> string \<Rightarrow> string \<Rightarrow> actor \<Rightarrow> nat \<Rightarrow> string option \<Rightarrow> observation" where
  "buildTombstoneMutation env target oid operatorId a sqn prevHash =
     (let now = rn_now_iso env in
      \<lparr>ob_id = ''obs_'' @ rn_hash env \<lparr>tp_actor_id = operatorId, tp_target = ob_id target, tp_operation_id = oid, tp_sequence = sqn,
         tp_observed_at = now\<rparr>,
       ob_operation_id = Some oid, ob_actor_id = Some operatorId, ob_type = T_tombstone, ob_status = OAccepted, ob_app = ''mcp-client'',
       ob_app_version = SMARTWARE_VERSION, ob_source_id = None, ob_source_ref = None, ob_actor = a, ob_captured_at = now, ob_observed_at = now,
       ob_scope = ob_scope target, ob_visibility = VPrivate,
       ob_content = \<lparr>co_format = ''application/json'',
         co_body = JObj [(''target_id'', JStr (ob_id target)), (''target_kind'', JStr ''observation''), (''mode'', JStr ''tombstone''),
           (''reason'', JStr ''retention_expiry''),
           (''retention_duration'', case po_retention_duration (ob_policy target) of None \<Rightarrow> JNull | Some d \<Rightarrow> JStr d)]\<rparr>,
       ob_claims = None, ob_parent_ids = [ob_id target], ob_informed_by = [], ob_idempotency = None,
       ob_policy = \<lparr>po_retention = Forever, po_retention_duration = None, po_sensitive = False, po_pii_detected = False\<rparr>,
       ob_integrity = \<lparr>in_hash = [], in_writer_id = [], in_sequence = sqn, in_previous_hash = prevHash\<rparr>\<rparr>)"

definition expired_version :: "retention_env \<Rightarrow> expire_params \<Rightarrow> string \<Rightarrow> claim_version \<Rightarrow> claim_version" where
  "expired_version env p oid latest =
     latest\<lparr>cv_version := cv_version latest + 1, cv_version_at := rn_now_iso env, cv_operation_id := oid, cv_actor_id := ac_id (ep_actor p),
       cv_lineage := \<lparr>vl_supersedes = Some (cv_version latest), vl_superseded_by = None, vl_superseded_at = None,
         vl_superseded_by_user = False, vl_reinstated_by_user = False,
         vl_endorsement_source = vl_endorsement_source (cv_lineage latest), vl_revived_via = None\<rparr>,
       cv_body := ForgottenBody (''tomb_'' @ drop 6 (cv_claim_id latest)) (rn_now_iso env) (ac_id (ep_actor p))\<rparr>"

definition sole_evidence :: "string \<Rightarrow> claim \<Rightarrow> bool" where
  "sole_evidence target c = (filter (\<lambda>i. i \<noteq> target) (cl_supporting_evidence c) = [])"

fun retract_claims :: "retention_env \<Rightarrow> expire_params \<Rightarrow> string \<Rightarrow> string \<Rightarrow> claim list \<Rightarrow> claim_store \<Rightarrow> nat outcome \<times> claim_store" where
  "retract_claims env p oid target [] st = (Inr 0, st)"
| "retract_claims env p oid target (c # cs) st =
     (if \<not> sole_evidence target c then retract_claims env p oid target cs st
      else case st_log st of
        None \<Rightarrow> retract_claims env p oid target cs st
      | Some dir \<Rightarrow>
          (case readLatestVersion (sv_sha (av_store (rn_adm env))) dir (cl_id c) of
             Inl x \<Rightarrow> (Inl x, st)
           | Inr None \<Rightarrow> retract_claims env p oid target cs st
           | Inr (Some latest) \<Rightarrow>
               if cv_state latest \<noteq> CsActive then retract_claims env p oid target cs st
               else
                 (let v = expired_version env p oid latest in
                  and_then (retract_claims env p oid target cs
                      (syncFromJsonlVersion (av_store (rn_adm env)) v None False (st\<lparr>st_log := Some (appendClaimVersion v dir)\<rparr>)))
                    (\<lambda>n st1. (Inr (n + 1), st1)))))"

section \<open>The sweep\<close>

definition tombstone_target ::
  "retention_env \<Rightarrow> smartware_config \<Rightarrow> expire_params \<Rightarrow> string \<Rightarrow> observation \<Rightarrow> nat \<Rightarrow> string option \<Rightarrow> observation" where
  "tombstone_target env config p oid target sqn prevHash =
     assignIntegrity (rn_sha env) (buildTombstoneMutation env target oid (operationActorId (ac_id (ep_actor p))) (ep_actor p) sqn prevHash)
       (writer_id config) sqn prevHash"

definition record_tombstone :: "retention_env \<Rightarrow> observation \<Rightarrow> retention_world \<Rightarrow> retention_world" where
  "record_tombstone env t w =
     w\<lparr>rt_evidence := appendObservation (rn_now_iso env) t (rt_evidence w),
       rt_index := applyMutationEvent t (insertOrSkip t (rt_index w))\<rparr>"

fun expire_loop ::
  "retention_env \<Rightarrow> smartware_config \<Rightarrow> expire_params \<Rightarrow> string \<Rightarrow> observation list \<Rightarrow> nat \<Rightarrow> string option \<Rightarrow> nat \<Rightarrow> retention_world
     \<Rightarrow> nat outcome \<times> retention_world" where
  "expire_loop env config p oid [] sqn prevHash n w = (Inr n, w)"
| "expire_loop env config p oid (target # rest) sqn prevHash n w =
     (let impacted = impacted_claims (av_store (rn_adm env)) (TargetObservation, ob_id target) (rt_store w);
          t = tombstone_target env config p oid target (sqn + 1) prevHash;
          w1 = record_tombstone env t w
      in case retract_claims env p oid (ob_id target) impacted (rt_store w1) of
        (Inl x, st) \<Rightarrow> (Inl x, w1\<lparr>rt_store := st\<rparr>)
      | (Inr k, st) \<Rightarrow> expire_loop env config p oid rest (sqn + 1) (Some (ob_hash t)) (n + k) (w1\<lparr>rt_store := st\<rparr>))"

definition elapsed :: "retention_env \<Rightarrow> string \<Rightarrow> int \<Rightarrow> layer0_index \<Rightarrow> observation \<Rightarrow> bool" where
  "elapsed env scope asOf idx obs =
     (ob_scope obs = scope \<and> getEffectiveStatus (ob_id obs) idx = Some EAccepted \<and> isRetentionExpired (rn_ms env) obs asOf)"

definition as_of_instant :: "retention_env \<Rightarrow> expire_params \<Rightarrow> int option" where
  "as_of_instant env p = (case Observe.truthy (ep_as_of p) of None \<Rightarrow> Some (rn_now env) | Some s \<Rightarrow> rn_ms env s)"

definition sweep_operation_id :: "retention_env \<Rightarrow> expire_params \<Rightarrow> string" where
  "sweep_operation_id env p = (case ep_operation_id p of Some i \<Rightarrow> i | None \<Rightarrow> ''op_'' @ rn_ulid env)"

definition prior_sweep :: "expire_params \<Rightarrow> ops_dir \<Rightarrow> op_entry option outcome" where
  "prior_sweep p ops =
     (case Observe.truthy (ep_operation_id p) of
        None \<Rightarrow> Inr None
      | Some oid \<Rightarrow>
          (case readAllOpLogEntries ops of
             Inl x \<Rightarrow> Inl x
           | Inr es \<Rightarrow> Inr (List.find (\<lambda>e. oe_operation_id e = oid \<and> oe_op e = ''retention.expire'') es)))"

definition skip_held :: "retention_env \<Rightarrow> expire_params \<Rightarrow> int \<Rightarrow> retention_world \<Rightarrow> expire_result outcome \<times> retention_world" where
  "skip_held env p asOf w =
     (let oid = sweep_operation_id env p in
      case appendOpLogEntry (expire_entry env p oid asOf 0 0 True) (rt_ops w) of
        (Inl x, ops) \<Rightarrow> (Inl x, w\<lparr>rt_ops := ops\<rparr>)
      | (Inr _, ops) \<Rightarrow> (Inr \<lparr>er_scope = ep_scope p, er_observations_expired = Some 0, er_claims_retracted = Some 0, er_operation_id = oid,
            er_skipped = True\<rparr>, w\<lparr>rt_ops := ops\<rparr>))"

definition finish_sweep ::
  "retention_env \<Rightarrow> expire_params \<Rightarrow> int \<Rightarrow> nat \<Rightarrow> nat \<Rightarrow> retention_world \<Rightarrow> expire_result outcome \<times> retention_world" where
  "finish_sweep env p asOf expired retracted w =
     (let oid = sweep_operation_id env p in
      case appendOpLogEntry (expire_entry env p oid asOf expired retracted False) (rt_ops w) of
        (Inl x, ops) \<Rightarrow> (Inl x, w\<lparr>rt_ops := ops\<rparr>)
      | (Inr _, ops) \<Rightarrow> (Inr \<lparr>er_scope = ep_scope p, er_observations_expired = Some (int expired), er_claims_retracted = Some (int retracted),
            er_operation_id = oid, er_skipped = False\<rparr>, w\<lparr>rt_ops := ops\<rparr>))"

definition catch_store_up :: "retention_env \<Rightarrow> retention_world \<Rightarrow> unit outcome \<times> retention_world" where
  "catch_store_up env w =
     (case replayCatchUp (rn_adm env) (rn_cfg env) (rt_evidence w) (Some (rt_index w)) None None (rt_store w) of
        (r, st) \<Rightarrow> (r, w\<lparr>rt_store := st\<rparr>))"

definition sweep :: "retention_env \<Rightarrow> smartware_config \<Rightarrow> expire_params \<Rightarrow> int \<Rightarrow> retention_world \<Rightarrow> expire_result outcome \<times> retention_world" where
  "sweep env config p asOf w =
     (case readAll (rt_evidence w) of
        Inl x \<Rightarrow> (Inl x, w)
      | Inr es \<Rightarrow>
          (let expired = filter (elapsed env (ep_scope p) asOf (rt_index w)) es in
           and_then (expire_loop env config p (sweep_operation_id env p) expired (getLastSequence (rt_index w))
               (getLatestHashForWriter (writer_id config) (rt_index w)) 0 w)
             (\<lambda>retracted w1. and_then (if expired = [] then (Inr (), w1) else catch_store_up env w1)
               (\<lambda>_ w2. finish_sweep env p asOf (length expired) retracted w2))))"

definition handleExpireRetention ::
  "retention_env \<Rightarrow> smartware_config \<Rightarrow> smartware_config \<Rightarrow> expire_params \<Rightarrow> retention_world \<Rightarrow> expire_result outcome \<times> retention_world" where
  "handleExpireRetention env config disk p w =
     (case requireGrant (rn_now env) (ac_id (ep_actor p)) OpForget (ep_scope p) config of
        Inl x \<Rightarrow> (Inl x, w)
      | Inr _ \<Rightarrow>
          if (case Observe.truthy (ep_operation_id p) of None \<Rightarrow> False | Some oid \<Rightarrow> \<not> isValidOperationId oid)
          then (Inl (ProtocolError ''invalid_parameter'' NoDetails), w)
          else case as_of_instant env p of
            None \<Rightarrow> (Inl (ProtocolError ''invalid_parameter'' NoDetails), w)
          | Some asOf \<Rightarrow>
              (case prior_sweep p (rt_ops w) of
                 Inl x \<Rightarrow> (Inl x, w)
               | Inr (Some e) \<Rightarrow>
                   (Inr \<lparr>er_scope = ep_scope p, er_observations_expired = stored_count env e ''observations_expired'',
                      er_claims_retracted = stored_count env e ''claims_retracted'', er_operation_id = the (ep_operation_id p), er_skipped = False\<rparr>, w)
               | Inr None \<Rightarrow>
                   if isScopeHeld disk (ep_scope p) then skip_held env p asOf w
                   else sweep env config p asOf w))"

section \<open>Lemmas\<close>

lemma expire_entry_rejected:
  "entry_rejected (expire_entry env p oid asOf n k b) = (if \<not> isValidOperationId oid then Some (JsError ''operation_id does not match'')
     else if operationActorId (ac_id (ep_actor p)) = [] \<or> rn_now_iso env = [] then Some (JsError ''actor_id, timestamp, and op are required'') else None)"
  by (simp add: entry_rejected_def expire_entry_def)

lemma expire_entry_fields [simp]:
  "oe_operation_id (expire_entry env p oid asOf n k b) = oid" "oe_op (expire_entry env p oid asOf n k b) = ''retention.expire''"
  "stored_count E (expire_entry env p oid asOf n k b) ''observations_expired'' = Some (int n)"
  "stored_count E (expire_entry env p oid asOf n k b) ''claims_retracted'' = Some (int k)"
  by (simp_all add: expire_entry_def stored_count_def entry_detail_def)

text \<open>The tombstones a sweep writes, one per expired observation, with consecutive sequence numbers and chained hashes.\<close>

fun tombstones :: "retention_env \<Rightarrow> smartware_config \<Rightarrow> expire_params \<Rightarrow> string \<Rightarrow> observation list \<Rightarrow> nat \<Rightarrow> string option \<Rightarrow> observation list" where
  "tombstones env config p oid [] n prev = []"
| "tombstones env config p oid (o1 # os) n prev =
     (let t = tombstone_target env config p oid o1 (n + 1) prev in t # tombstones env config p oid os (n + 1) (Some (ob_hash t)))"

lemma target_fields [simp]:
  "ob_scope (tombstone_target env config p oid x n prev) = ob_scope x" "ob_type (tombstone_target env config p oid x n prev) = T_tombstone"
  "ob_parent_ids (tombstone_target env config p oid x n prev) = [ob_id x]" "ob_operation_id (tombstone_target env config p oid x n prev) = Some oid"
  "ob_sequence (tombstone_target env config p oid x n prev) = n" "po_retention (ob_policy (tombstone_target env config p oid x n prev)) = Forever"
  "in_previous_hash (ob_integrity (tombstone_target env config p oid x n prev)) = prev"
  "computeHash (rn_sha env) (tombstone_target env config p oid x n prev) = ob_hash (tombstone_target env config p oid x n prev)"
  by (simp_all add: tombstone_target_def assignIntegrity_hash) (simp_all add: assignIntegrity_def buildTombstoneMutation_def Let_def)

lemma target_body:
  "body_get (co_body (ob_content (tombstone_target env config p oid x n prev))) ''target_kind'' = Some (JStr ''observation'')"
  "body_get (co_body (ob_content (tombstone_target env config p oid x n prev))) ''scope'' = None"
  "ob_id x \<noteq> [] \<Longrightarrow> body_string (co_body (ob_content (tombstone_target env config p oid x n prev))) ''target_id'' = Some (ob_id x)"
  by (simp_all add: tombstone_target_def assignIntegrity_def buildTombstoneMutation_def Let_def body_get_def body_string_def)

lemma tombstones_about:
  "map ob_parent_ids (tombstones env config p oid os n prev) = map (\<lambda>x. [ob_id x]) os"
  "map ob_sequence (tombstones env config p oid os n prev) = [Suc n..<Suc n + length os]"
  "\<forall>t \<in> set (tombstones env config p oid os n prev). ob_type t = T_tombstone \<and> ob_operation_id t = Some oid \<and> po_retention (ob_policy t) = Forever"
  by (induction os arbitrary: n prev) (simp_all add: Let_def upt_rec)

lemma tombstones_scope: "map ob_scope (tombstones env config p oid os n prev) = map ob_scope os"
  by (induction os arbitrary: n prev) (simp_all add: Let_def)

lemma tombstones_chain: "verify_from (rn_sha env) i prev (tombstones env config p oid os n prev) = None"
  by (induction os arbitrary: i n prev) (simp_all add: Let_def)

text \<open>What the loop leaves, when no claim raises.\<close>

lemma expire_loop_writes:
  "expire_loop env config p oid os n prev k w = (Inr m, w') \<Longrightarrow>
     rt_evidence w' = fold (appendObservation (rn_now_iso env)) (tombstones env config p oid os n prev) (rt_evidence w)
     \<and> rt_index w' = fold (\<lambda>t idx. applyMutationEvent t (insertOrSkip t idx)) (tombstones env config p oid os n prev) (rt_index w)
     \<and> rt_ops w' = rt_ops w"
proof (induction os arbitrary: n prev k w)
  case (Cons x os)
  let ?t = "tombstone_target env config p oid x (n + 1) prev"
  let ?imp = "impacted_claims (av_store (rn_adm env)) (TargetObservation, ob_id x) (rt_store w)"
  obtain r st where ret: "retract_claims env p oid (ob_id x) ?imp (rt_store (record_tombstone env ?t w)) = (r, st)" by fastforce
  then obtain j where r: "r = Inr j" using Cons.prems by (cases r) (auto simp: Let_def)
  have "expire_loop env config p oid os (n + 1) (Some (ob_hash ?t)) (k + j) ((record_tombstone env ?t w)\<lparr>rt_store := st\<rparr>) = (Inr m, w')"
    using Cons.prems ret r by (simp add: Let_def)
  from Cons.IH [OF this] show ?case by (simp add: Let_def record_tombstone_def)
qed simp

lemma catch_store_up_simps [simp]:
  "rt_evidence (snd (catch_store_up env w)) = rt_evidence w" "rt_index (snd (catch_store_up env w)) = rt_index w" "rt_ops (snd (catch_store_up env w)) = rt_ops w"
  by (simp_all add: catch_store_up_def split: prod.split)

lemma catch_store_up_keeps:
  "catch_store_up env w = (c, w') \<Longrightarrow> rt_evidence w' = rt_evidence w \<and> rt_index w' = rt_index w \<and> rt_ops w' = rt_ops w"
  using catch_store_up_simps [of env w] by simp

lemma skip_held_simps:
  assumes "skip_held env p asOf w = (r, w')"
  shows "rt_evidence w' = rt_evidence w" "rt_index w' = rt_index w" "rt_store w' = rt_store w"
    "\<And>v. r = Inr v \<Longrightarrow> v = \<lparr>er_scope = ep_scope p, er_observations_expired = Some 0, er_claims_retracted = Some 0, er_operation_id = sweep_operation_id env p,
        er_skipped = True\<rparr> \<and> appendOpLogEntry (expire_entry env p (sweep_operation_id env p) asOf 0 0 True) (rt_ops w) = (Inr (), rt_ops w')"
  using assms by (auto simp: skip_held_def Let_def split: prod.splits sum.splits)

text \<open>A sweep that returned: what it expired, what it wrote and the entry it committed.\<close>

lemma sweep_run:
  assumes "sweep env config p asOf w = (Inr v, w')"
  obtains es k where "readAll (rt_evidence w) = Inr es"
    "v = \<lparr>er_scope = ep_scope p, er_observations_expired = Some (int (length (filter (elapsed env (ep_scope p) asOf (rt_index w)) es))),
       er_claims_retracted = Some (int k), er_operation_id = sweep_operation_id env p, er_skipped = False\<rparr>"
    "rt_evidence w' = fold (appendObservation (rn_now_iso env))
       (tombstones env config p (sweep_operation_id env p) (filter (elapsed env (ep_scope p) asOf (rt_index w)) es)
         (getLastSequence (rt_index w)) (getLatestHashForWriter (writer_id config) (rt_index w))) (rt_evidence w)"
    "rt_index w' = fold (\<lambda>t idx. applyMutationEvent t (insertOrSkip t idx))
       (tombstones env config p (sweep_operation_id env p) (filter (elapsed env (ep_scope p) asOf (rt_index w)) es)
         (getLastSequence (rt_index w)) (getLatestHashForWriter (writer_id config) (rt_index w))) (rt_index w)"
    "appendOpLogEntry (expire_entry env p (sweep_operation_id env p) asOf (length (filter (elapsed env (ep_scope p) asOf (rt_index w)) es)) k False) (rt_ops w)
       = (Inr (), rt_ops w')"
proof -
  obtain es where es: "readAll (rt_evidence w) = Inr es" using assms by (auto simp: sweep_def split: sum.splits)
  let ?os = "filter (elapsed env (ep_scope p) asOf (rt_index w)) es" and ?oid = "sweep_operation_id env p"
  obtain q w1 where loop: "expire_loop env config p ?oid ?os (getLastSequence (rt_index w)) (getLatestHashForWriter (writer_id config) (rt_index w)) 0 w = (q, w1)"
    by fastforce
  then obtain k where q: "q = Inr k" using assms es by (cases q) (auto simp: sweep_def and_then_def Let_def)
  let ?c = "if ?os = [] then (Inr (), w1) else catch_store_up env w1"
  obtain c w2 where c: "?c = (c, w2)" by fastforce
  then obtain u where u: "c = Inr u" using assms es loop q by (cases c) (auto simp: sweep_def and_then_def Let_def)
  have w2: "rt_evidence w2 = rt_evidence w1" "rt_index w2 = rt_index w1" "rt_ops w2 = rt_ops w1"
    using c by (auto split: if_splits dest: catch_store_up_keeps)
  have "finish_sweep env p asOf (length ?os) k w2 = (Inr v, w')"
    using assms es loop q c u by (simp add: sweep_def and_then_def Let_def)
  then have fin: "v = \<lparr>er_scope = ep_scope p, er_observations_expired = Some (int (length ?os)), er_claims_retracted = Some (int k), er_operation_id = ?oid,
      er_skipped = False\<rparr>" "appendOpLogEntry (expire_entry env p ?oid asOf (length ?os) k False) (rt_ops w2) = (Inr (), rt_ops w')"
    "rt_evidence w' = rt_evidence w2" "rt_index w' = rt_index w2"
    by (auto simp: finish_sweep_def Let_def split: prod.splits sum.splits)
  note writes = expire_loop_writes [OF loop [unfolded q]]
  show thesis by (rule that [OF es fin(1)]) (use writes fin w2 in simp_all)
qed

lemma handle_run:
  assumes "handleExpireRetention env config disk p w = (Inr v, w')"
  obtains asOf where "as_of_instant env p = Some asOf"
    "\<exists>e. prior_sweep p (rt_ops w) = Inr e \<and> (e = None \<longrightarrow> (if isScopeHeld disk (ep_scope p) then skip_held env p asOf w = (Inr v, w')
        else sweep env config p asOf w = (Inr v, w'))) \<and> (e \<noteq> None \<longrightarrow> w' = w)"
    "\<And>oid. Observe.truthy (ep_operation_id p) = Some oid \<Longrightarrow> isValidOperationId oid"
  using assms by (auto simp: handleExpireRetention_def split: sum.splits if_splits option.splits)

text \<open>A recorded tombstone closes its target and changes no other status.\<close>

definition closed_status :: "effective_status option \<Rightarrow> effective_status option" where
  "closed_status s = (if s = Some EAccepted \<or> s = Some EQuarantined then Some ETombstoned else s)"

lemma tombstone_status:
  "status_of (apply_target_mutation T_tombstone body i rows) j = (if j = i then closed_status (status_of rows j) else status_of rows j)"
proof (cases "lookup_by r_id i rows")
  case None
  then show ?thesis by (simp add: apply_target_mutation_def closed_status_def status_of_def)
next
  case (Some t)
  have upd: "status_of (upd_where (\<lambda>r. r_id r = i) (set_effective s) rows) j = (if j = i then Some s else status_of rows j)" for s
    unfolding status_of_upd using Some by (cases "lookup_by r_id j rows") (auto simp: status_of_def dest: lookup_by_SomeD)
  have "status_of rows i = Some (r_effective t)" using Some by (simp add: status_of_def)
  then show ?thesis
    using Some by (cases "r_effective t") (auto simp: apply_target_mutation_def transition_key_of_def closed_status_def TRANSITIONS_def TERMINAL_STATES_def upd)
qed

lemma status_after_tombstone:
  assumes "ob_id x \<noteq> []" and "j \<noteq> ob_id (tombstone_target env config p oid x n prev)" and "ob_id x \<noteq> ob_id (tombstone_target env config p oid x n prev)"
  shows "getEffectiveStatus j (applyMutationEvent (tombstone_target env config p oid x n prev) (insertOrSkip (tombstone_target env config p oid x n prev) idx))
    = (if j = ob_id x then closed_status (getEffectiveStatus j idx) else getEffectiveStatus j idx)"
proof -
  let ?t = "tombstone_target env config p oid x n prev"
  let ?i = "insertOrSkip ?t idx"
  have keep: "lookup_by r_id k (l0_rows ?i) = lookup_by r_id k (l0_rows idx)" if "k \<noteq> ob_id ?t" for k
    using that by (simp add: insertOrSkip_def obs_to_row_def split: option.split)
  have mut: "applyMutationEvent ?t ?i = ?i\<lparr>l0_rows := apply_target_mutation T_tombstone (co_body (ob_content ?t)) (ob_id x) (l0_rows ?i)\<rparr>"
    using target_body [where x = x and env = env and config = config and p = p and oid = oid and n = n and prev = prev] assms(1) by (simp add: applyMutationEvent_def Let_def)
  have "status_of (l0_rows ?i) k = status_of (l0_rows idx) k" if "k \<noteq> ob_id ?t" for k using keep [OF that] by (simp add: status_of_def)
  then show ?thesis unfolding mut getEffectiveStatus_status_of using assms(2,3) by (simp add: tombstone_status)
qed

lemma closed_twice [simp]: "closed_status (closed_status s) = closed_status s"
  by (simp add: closed_status_def)

text \<open>The ids an operation can give to its tombstones: hashes over its own id and instant.\<close>

definition tombstone_ids :: "retention_env \<Rightarrow> expire_params \<Rightarrow> string \<Rightarrow> string set" where
  "tombstone_ids env p oid = {''obs_'' @ rn_hash env t | t. tp_operation_id t = oid \<and> tp_actor_id t = operationActorId (ac_id (ep_actor p))
     \<and> tp_observed_at t = rn_now_iso env}"

lemma tombstone_target_id: "ob_id (tombstone_target env config p oid x n prev) \<in> tombstone_ids env p oid"
  by (auto simp: tombstone_target_def tombstone_ids_def assignIntegrity_def buildTombstoneMutation_def Let_def
      intro!: exI [of _ "\<lparr>tp_actor_id = operationActorId (ac_id (ep_actor p)), tp_target = ob_id x, tp_operation_id = oid, tp_sequence = n,
        tp_observed_at = rn_now_iso env\<rparr>"])

lemma status_after_tombstones:
  assumes "\<forall>x \<in> set os. ob_id x \<noteq> [] \<and> ob_id x \<notin> tombstone_ids env p oid" and "j \<notin> tombstone_ids env p oid"
  shows "getEffectiveStatus j (fold (\<lambda>t idx. applyMutationEvent t (insertOrSkip t idx)) (tombstones env config p oid os n prev) idx)
    = (if j \<in> ob_id ` set os then closed_status (getEffectiveStatus j idx) else getEffectiveStatus j idx)"
  using assms(1)
proof (induction os arbitrary: n prev idx)
  case (Cons x os)
  have new: "ob_id (tombstone_target env config p oid x (n + 1) prev) \<in> tombstone_ids env p oid" by (rule tombstone_target_id)
  then have ne: "j \<noteq> ob_id (tombstone_target env config p oid x (n + 1) prev)" "ob_id x \<noteq> ob_id (tombstone_target env config p oid x (n + 1) prev)" "ob_id x \<noteq> []"
    using assms(2) Cons.prems by auto
  show ?case using Cons status_after_tombstone [OF ne(3,1,2)] by (auto simp: Let_def)
qed simp

lemma read_all_appended:
  assumes "distinct (map fst dir)" and "readAll dir = Inr es"
  shows "\<exists>es'. readAll (fold (appendObservation now) ts dir) = Inr es' \<and> mset es' = mset es + mset ts"
  using assms
proof (induction ts arbitrary: dir es)
  case (Cons t ts)
  have "distinct (map fst (appendObservation now t dir))" using Cons.prems(1) by (simp add: appendObservation_def appendObservationAt_def)
  moreover obtain es1 where "readAll (appendObservation now t dir) = Inr es1" "mset es1 = add_mset t (mset es)"
    using read_all_append_one [of dir es "take 10 now" t] Cons.prems by (auto simp: readAll_def appendObservation_def appendObservationAt_def)
  ultimately show ?case using Cons.IH [of "appendObservation now t dir" es1] by auto
qed simp

lemma prior_sweep_find:
  assumes "distinct (map fst ops)" and "prior_sweep p ops = Inr None" and "Observe.truthy (ep_operation_id p) = Some oid"
    and "appendOpLogEntry e ops = (Inr (), ops')" and "oe_operation_id e = oid" and "oe_op e = ''retention.expire''" and "ep_operation_id p2 = ep_operation_id p"
  shows "prior_sweep p2 ops' = Inr (Some e)"
proof -
  let ?P = "\<lambda>e. oe_operation_id e = oid \<and> oe_op e = ''retention.expire''"
  obtain es where es: "readAllOpLogEntries ops = Inr es" "List.find ?P es = None"
    using assms(2,3) by (auto simp: prior_sweep_def split: sum.splits)
  have "ops' = append_day (dayOfTimestamp (oe_timestamp e)) [Line e] ops"
    using assms(4) by (auto simp: appendOpLogEntry_def appendOpLogEntry_eq split: option.splits)
  then obtain es' where es': "readAllOpLogEntries ops' = Inr es'" "mset es' = add_mset e (mset es)"
    using read_all_append_one [of ops es _ e] assms(1) es(1) by (auto simp: readAllOpLogEntries_def)
  have set': "set es' = insert e (set es)" using es'(2) by (metis set_mset_add_mset_insert set_mset_mset)
  have none: "\<forall>x \<in> set es. \<not> ?P x" using es(2) by (simp add: find_None_iff)
  obtain x where x: "List.find ?P es' = Some x"
    using set' assms(5,6) by (cases "List.find ?P es'") (auto simp: find_None_iff)
  then have "?P x" "x \<in> set es'" by (auto simp: find_Some_iff)
  then have "x = e" using set' none by auto
  then show ?thesis using x es'(1) assms(3,7) by (simp add: prior_sweep_def)
qed

lemma truthy_given: "Observe.truthy i = Some oid \<Longrightarrow> i = Some oid"
  by (auto simp: Observe.truthy_def split: option.splits if_splits)

section \<open>Properties\<close>

text \<open>C17: Expiry never fires under a legal hold. Whatever has elapsed in a held scope, the sweep leaves the evidence, its index and the
  claims as they are; a sweep that is not a replay says so in its result and commits one entry that records the skip.\<close>

theorem held_scope_never_expires:
  assumes "isScopeHeld disk (ep_scope p)" and "handleExpireRetention env config disk p w = (r, w')"
  shows "rt_evidence w' = rt_evidence w \<and> rt_index w' = rt_index w \<and> rt_store w' = rt_store w
    \<and> (\<forall>v. r = Inr v \<longrightarrow> prior_sweep p (rt_ops w) = Inr None \<longrightarrow>
        er_skipped v \<and> er_observations_expired v = Some 0 \<and> er_claims_retracted v = Some 0
        \<and> (\<exists>e. oe_operation_id e = er_operation_id v \<and> entry_detail e ''skipped'' = Some (JStr ''legal_hold'')
            \<and> rt_ops w' = append_day (dayOfTimestamp (oe_timestamp e)) [Line e] (rt_ops w)))"
proof -
  consider "w' = w" "\<forall>v. r = Inr v \<longrightarrow> prior_sweep p (rt_ops w) \<noteq> Inr None"
    | asOf where "prior_sweep p (rt_ops w) = Inr None" "skip_held env p asOf w = (r, w')"
    using assms by (auto simp: handleExpireRetention_def split: sum.splits if_splits option.splits)
  then show ?thesis
  proof cases
    case (2 asOf)
    let ?e = "expire_entry env p (sweep_operation_id env p) asOf 0 0 True"
    have "\<exists>e. oe_operation_id e = er_operation_id v \<and> entry_detail e ''skipped'' = Some (JStr ''legal_hold'')
            \<and> rt_ops w' = append_day (dayOfTimestamp (oe_timestamp e)) [Line e] (rt_ops w)" if "r = Inr v" for v
    proof -
      have "entry_detail ?e ''skipped'' = Some (JStr ''legal_hold'')" by (simp add: expire_entry_def entry_detail_def)
      then show ?thesis using skip_held_simps(4) [OF 2(2) that]
        by (intro exI [of _ ?e]) (auto simp: appendOpLogEntry_def appendOpLogEntry_eq split: option.splits)
    qed
    then show ?thesis using skip_held_simps [OF 2(2)] by auto
  qed simp
qed

text \<open>C16: What a sweep expires is exact. A sweep that ran reports as many observations as the scope holds accepted ones whose
  duration has elapsed; it appends for each of them, in the order of the log, one tombstone of that scope that names it, with the next
  sequence number and a valid hash chain from the writer's last event; and it commits one entry with these counts.\<close>

theorem expiry_sweep_exact:
  assumes "handleExpireRetention env config disk p w = (Inr v, w')" and "prior_sweep p (rt_ops w) = Inr None" and "\<not> isScopeHeld disk (ep_scope p)"
  shows "\<exists>es ts asOf expired. readAll (rt_evidence w) = Inr es \<and> as_of_instant env p = Some asOf
    \<and> expired = filter (\<lambda>x. ob_scope x = ep_scope p \<and> getEffectiveStatus (ob_id x) (rt_index w) = Some EAccepted \<and> isRetentionExpired (rn_ms env) x asOf) es
    \<and> er_observations_expired v = Some (int (length expired)) \<and> \<not> er_skipped v
    \<and> rt_evidence w' = fold (appendObservation (rn_now_iso env)) ts (rt_evidence w)
    \<and> map ob_parent_ids ts = map (\<lambda>x. [ob_id x]) expired \<and> map ob_scope ts = map (\<lambda>x. ep_scope p) expired
    \<and> map ob_sequence ts = [Suc (getLastSequence (rt_index w))..<Suc (getLastSequence (rt_index w)) + length expired]
    \<and> (\<forall>t \<in> set ts. ob_type t = T_tombstone \<and> ob_operation_id t = Some (er_operation_id v))
    \<and> verify_from (rn_sha env) 0 (getLatestHashForWriter (writer_id config) (rt_index w)) ts = None
    \<and> (\<exists>e. oe_operation_id e = er_operation_id v \<and> stored_count env e ''observations_expired'' = er_observations_expired v
        \<and> stored_count env e ''claims_retracted'' = er_claims_retracted v
        \<and> rt_ops w' = append_day (dayOfTimestamp (oe_timestamp e)) [Line e] (rt_ops w))"
proof -
  obtain asOf where asOf: "as_of_instant env p = Some asOf" "sweep env config p asOf w = (Inr v, w')"
    using handle_run [OF assms(1)] assms(2,3) by (metis Inr_inject)
  from sweep_run [OF asOf(2)] obtain es k where es: "readAll (rt_evidence w) = Inr es"
    and v: "v = \<lparr>er_scope = ep_scope p, er_observations_expired = Some (int (length (filter (elapsed env (ep_scope p) asOf (rt_index w)) es))),
       er_claims_retracted = Some (int k), er_operation_id = sweep_operation_id env p, er_skipped = False\<rparr>"
    and ev: "rt_evidence w' = fold (appendObservation (rn_now_iso env))
       (tombstones env config p (sweep_operation_id env p) (filter (elapsed env (ep_scope p) asOf (rt_index w)) es)
         (getLastSequence (rt_index w)) (getLatestHashForWriter (writer_id config) (rt_index w))) (rt_evidence w)"
    and app: "appendOpLogEntry (expire_entry env p (sweep_operation_id env p) asOf (length (filter (elapsed env (ep_scope p) asOf (rt_index w)) es)) k False) (rt_ops w)
       = (Inr (), rt_ops w')" by blast
  let ?expired = "filter (elapsed env (ep_scope p) asOf (rt_index w)) es"
  let ?ts = "tombstones env config p (sweep_operation_id env p) ?expired (getLastSequence (rt_index w)) (getLatestHashForWriter (writer_id config) (rt_index w))"
  have scope: "map ob_scope ?ts = map (\<lambda>x. ep_scope p) ?expired" by (simp add: tombstones_scope elapsed_def)
  have entry: "\<exists>e. oe_operation_id e = er_operation_id v \<and> stored_count env e ''observations_expired'' = er_observations_expired v
        \<and> stored_count env e ''claims_retracted'' = er_claims_retracted v \<and> rt_ops w' = append_day (dayOfTimestamp (oe_timestamp e)) [Line e] (rt_ops w)"
    using app v by (intro exI [of _ "expire_entry env p (sweep_operation_id env p) asOf (length ?expired) k False"])
      (auto simp: appendOpLogEntry_def appendOpLogEntry_eq split: option.splits)
  have el: "elapsed env (ep_scope p) asOf (rt_index w)
      = (\<lambda>x. ob_scope x = ep_scope p \<and> getEffectiveStatus (ob_id x) (rt_index w) = Some EAccepted \<and> isRetentionExpired (rn_ms env) x asOf)"
    by (simp add: elapsed_def fun_eq_iff)
  show ?thesis
    by (rule exI [of _ es], rule exI [of _ ?ts], rule exI [of _ asOf], rule exI [of _ ?expired])
       (use es asOf(1) v ev scope entry el tombstones_about [of env config p "sweep_operation_id env p" ?expired "getLastSequence (rt_index w)"] tombstones_chain in simp)
qed

text \<open>C37: A sweep is idempotent by effect. After a sweep under an unused operation id over a log that may hold the tombstones of earlier sweeps
  (but no observation yet under an id this operation gives to a tombstone, a hash over the operation's id, actor and instant), a second sweep of the
  scope as of the same instant, under an unused operation id and with the scope still not held, expires nothing, retracts nothing and changes nothing
  but the operations log: the tombstones of the first closed everything that had elapsed.\<close>

theorem sweep_idempotent:
  assumes "handleExpireRetention env config disk p w = (Inr v, w1)" and "prior_sweep p (rt_ops w) = Inr None" and "\<not> isScopeHeld disk (ep_scope p)"
    and "distinct (map fst (rt_evidence w))" and "readAll (rt_evidence w) = Inr es"
    and "\<forall>x \<in> set es. ob_id x \<noteq> [] \<and> ob_id x \<notin> tombstone_ids env p (sweep_operation_id env p)"
    and "handleExpireRetention env2 config2 disk2 p2 w1 = (Inr v2, w2)" and "prior_sweep p2 (rt_ops w1) = Inr None"
    and "\<not> isScopeHeld disk2 (ep_scope p)" and "ep_scope p2 = ep_scope p"
    and "as_of_instant env2 p2 = as_of_instant env p" and "rn_ms env2 = rn_ms env"
  shows "er_observations_expired v2 = Some 0 \<and> er_claims_retracted v2 = Some 0
    \<and> rt_evidence w2 = rt_evidence w1 \<and> rt_index w2 = rt_index w1 \<and> rt_store w2 = rt_store w1"
proof -
  obtain asOf where asOf: "as_of_instant env p = Some asOf" "sweep env config p asOf w = (Inr v, w1)"
    using handle_run [OF assms(1)] assms(2,3) by (metis Inr_inject)
  have second: "sweep env2 config2 p2 asOf w1 = (Inr v2, w2)"
    using handle_run [OF assms(7)] assms(8-11) asOf(1) by (metis Inr_inject option.inject)
  let ?expired = "filter (elapsed env (ep_scope p) asOf (rt_index w)) es"
  let ?ts = "tombstones env config p (sweep_operation_id env p) ?expired (getLastSequence (rt_index w)) (getLatestHashForWriter (writer_id config) (rt_index w))"
  have run: "rt_evidence w1 = fold (appendObservation (rn_now_iso env)) ?ts (rt_evidence w)"
    "rt_index w1 = fold (\<lambda>t idx. applyMutationEvent t (insertOrSkip t idx)) ?ts (rt_index w)"
    using sweep_run [OF asOf(2)] assms(5) by (metis Inr_inject)+
  obtain es1 where es1: "readAll (rt_evidence w1) = Inr es1" "mset es1 = mset es + mset ?ts"
    using read_all_appended [OF assms(4,5)] run(1) by metis
  have "\<not> elapsed env2 (ep_scope p2) asOf (rt_index w1) x" if "x \<in> set es1" for x
  proof (cases "x \<in> set es")
    case True
    have "getEffectiveStatus (ob_id x) (rt_index w1)
        = (if ob_id x \<in> ob_id ` set ?expired then closed_status (getEffectiveStatus (ob_id x) (rt_index w)) else getEffectiveStatus (ob_id x) (rt_index w))"
      unfolding run(2) by (rule status_after_tombstones) (use assms(6) True in auto)
    then show ?thesis using True assms(10,12) by (auto simp: elapsed_def closed_status_def split: if_splits)
  next
    case False
    then have "x \<in> set ?ts" using that es1(2) by (metis Un_iff set_mset_mset set_mset_union)
    then show ?thesis using tombstones_about(3) by (fastforce simp: elapsed_def isRetentionExpired_def)
  qed
  then have "filter (elapsed env2 (ep_scope p2) asOf (rt_index w1)) es1 = []" by (simp add: filter_empty_conv)
  then show ?thesis using second es1(1)
    by (auto simp: sweep_def and_then_def finish_sweep_def Let_def split: prod.splits sum.splits)
qed

text \<open>C38: An operation id is replayed whatever it is asked for. Once a sweep committed under an id, any call with that id returns the
  first sweep's counts under its own scope and does nothing: for another scope, for another actor, and also when the first sweep was
  skipped under a legal hold that has been lifted since, which the repeated result no longer says.\<close>

theorem sweep_id_replays_blindly:
  assumes "handleExpireRetention env config disk p w = (Inr v, w1)" and "prior_sweep p (rt_ops w) = Inr None" and "distinct (map fst (rt_ops w))"
    and "Observe.truthy (ep_operation_id p) = Some oid" and "ep_operation_id p2 = ep_operation_id p"
    and "requireGrant (rn_now env2) (ac_id (ep_actor p2)) OpForget (ep_scope p2) config2 = Inr ()" and "as_of_instant env2 p2 \<noteq> None"
  shows "handleExpireRetention env2 config2 disk2 p2 w1
    = (Inr \<lparr>er_scope = ep_scope p2, er_observations_expired = er_observations_expired v, er_claims_retracted = er_claims_retracted v,
         er_operation_id = oid, er_skipped = False\<rparr>, w1)
    \<and> (er_skipped v \<longleftrightarrow> isScopeHeld disk (ep_scope p))"
proof -
  have id: "ep_operation_id p = Some oid" by (rule truthy_given [OF assms(4)])
  have valid: "isValidOperationId oid" using handle_run [OF assms(1)] assms(4) by blast
  obtain asOf n k b where app: "appendOpLogEntry (expire_entry env p oid asOf n k b) (rt_ops w) = (Inr (), rt_ops w1)"
    "er_observations_expired v = Some (int n)" "er_claims_retracted v = Some (int k)" "er_skipped v = isScopeHeld disk (ep_scope p)"
  proof (rule handle_run [OF assms(1)])
    fix asOf
    assume run: "\<exists>e. prior_sweep p (rt_ops w) = Inr e \<and> (e = None \<longrightarrow> (if isScopeHeld disk (ep_scope p) then skip_held env p asOf w = (Inr v, w1)
        else sweep env config p asOf w = (Inr v, w1))) \<and> (e \<noteq> None \<longrightarrow> w1 = w)"
    show thesis
    proof (cases "isScopeHeld disk (ep_scope p)")
      case True
      then have "skip_held env p asOf w = (Inr v, w1)" using run assms(2) by simp
      from skip_held_simps(4) [OF this refl] show thesis using True id by (intro that [of asOf 0 0 True]) (auto simp: sweep_operation_id_def)
    next
      case False
      then have "sweep env config p asOf w = (Inr v, w1)" using run assms(2) by simp
      from sweep_run [OF this] show thesis using False id that by (metis (no_types, lifting) expire_result.select_convs option.simps(5) sweep_operation_id_def)
    qed
  qed
  have "prior_sweep p2 (rt_ops w1) = Inr (Some (expire_entry env p oid asOf n k b))"
    by (rule prior_sweep_find [OF assms(3,2,4) app(1) _ _ assms(5)]) simp_all
  then show ?thesis using assms(4-7) id valid app(2-4) by (auto simp: handleExpireRetention_def)
qed

section \<open>Witnesses\<close>

definition demo_aged :: observation where
  "demo_aged = (demo_obs ''obs_1'' 1 T_message (JStr ''hello''))
     \<lparr>ob_policy := \<lparr>po_retention = Duration, po_retention_duration = Some ''P30D'', po_sensitive = False, po_pii_detected = False\<rparr>\<rparr>"

definition demo_retention :: retention_env where
  "demo_retention =
     \<lparr>rn_now = 9000000000, rn_iso = (\<lambda>_. ''2026-09-01T00:00:00Z''), rn_ms = (\<lambda>_. Some 0), rn_hash = (\<lambda>t. tp_operation_id t @ tp_target t),
      rn_sha = (\<lambda>x. ob_id x), rn_ulid = replicate 26 (CHR ''1''), rn_number = (\<lambda>_. None), rn_adm = demo_admission, rn_cfg = None\<rparr>"

definition demo_retained :: retention_world where
  "demo_retained =
     \<lparr>rt_evidence = [(''2026-08-01'', [Line demo_aged])], rt_index = insertOrSkip demo_aged \<lparr>l0_rows = [], l0_last_sequence = None\<rparr>,
      rt_store = demo_pair, rt_ops = []\<rparr>"

definition demo_expire :: "string \<Rightarrow> string option \<Rightarrow> expire_params" where
  "demo_expire scope oid = \<lparr>ep_actor = \<lparr>ac_type = Person, ac_id = ''user:local'', ac_display_name = ''A''\<rparr>, ep_scope = scope, ep_operation_id = oid, ep_as_of = None\<rparr>"

definition demo_sweep_id :: string where
  "demo_sweep_id = ''op_00000000000000000000000001''"

definition demo_held :: smartware_config where
  "demo_held = Auth.demo_config\<lparr>cfg_holds := [(''client'', \<lparr>lh_scope = ''client'', lh_opened_at = ''t'', lh_opened_by = ''user:local'', lh_operation_id = None,
     lh_released_at = None, lh_released_by = None, lh_release_operation_id = None, lh_release_statement = None\<rparr>)]\<rparr>"

definition demo_swept :: "expire_result outcome \<times> retention_world" where
  "demo_swept = handleExpireRetention demo_retention Auth.demo_config Auth.demo_config (demo_expire ''client'' (Some demo_sweep_id)) demo_retained"

lemma demo_swept_ok:
  "fst demo_swept = Inr \<lparr>er_scope = ''client'', er_observations_expired = Some 1, er_claims_retracted = Some 2, er_operation_id = demo_sweep_id, er_skipped = False\<rparr>"
  by code_simp

lemma demo_swept_run:
  "handleExpireRetention demo_retention Auth.demo_config Auth.demo_config (demo_expire ''client'' (Some demo_sweep_id)) demo_retained
   = (Inr \<lparr>er_scope = ''client'', er_observations_expired = Some 1, er_claims_retracted = Some 2, er_operation_id = demo_sweep_id, er_skipped = False\<rparr>,
      snd demo_swept)"
  using demo_swept_ok by (simp add: demo_swept_def [symmetric] prod_eq_iff)

lemma demo_retained_facts:
  "prior_sweep (demo_expire ''client'' (Some demo_sweep_id)) (rt_ops demo_retained) = Inr None" "distinct (map fst (rt_ops demo_retained))"
  "distinct (map fst (rt_evidence demo_retained))" "ob_id demo_aged = ''obs_1''" "readAll (rt_evidence demo_retained) = Inr [demo_aged]"
proof -
  show "prior_sweep (demo_expire ''client'' (Some demo_sweep_id)) (rt_ops demo_retained) = Inr None"
    by (simp add: prior_sweep_def demo_retained_def readAllOpLogEntries_def read_all_def log_days_def split: option.split)
  show "readAll (rt_evidence demo_retained) = Inr [demo_aged]"
    by (simp add: demo_retained_def readAll_def read_all_def log_days_def read_day_def day_lines_def)
qed (simp_all add: demo_retained_def demo_aged_def demo_obs_def)

lemma demo_holds: "isScopeHeld demo_held ''client''" "\<not> isScopeHeld Auth.demo_config ''client''" by code_simp+

theorem held_scope_never_expires_witness:
  "rt_store (snd (handleExpireRetention demo_retention Auth.demo_config demo_held (demo_expire ''client'' (Some demo_sweep_id)) demo_retained)) = demo_pair"
proof -
  have "isScopeHeld demo_held (ep_scope (demo_expire ''client'' (Some demo_sweep_id)))" using demo_holds by (simp add: demo_expire_def)
  from held_scope_never_expires [OF this prod.collapse [symmetric]] show ?thesis by (simp add: demo_retained_def)
qed

theorem expiry_sweep_exact_witness:
  "\<exists>ts. rt_evidence (snd demo_swept) = fold (appendObservation (rn_now_iso demo_retention)) ts (rt_evidence demo_retained) \<and> map ob_scope ts = [''client'']
     \<and> length ts = 1"
proof -
  have "\<not> isScopeHeld Auth.demo_config (ep_scope (demo_expire ''client'' (Some demo_sweep_id)))" using demo_holds by (simp add: demo_expire_def)
  from expiry_sweep_exact [OF demo_swept_run demo_retained_facts(1) this] obtain ts expired :: "observation list" where
    "int (length expired) = 1" "rt_evidence (snd demo_swept) = fold (appendObservation (rn_now_iso demo_retention)) ts (rt_evidence demo_retained)"
    "map ob_scope ts = map (\<lambda>x. ''client'') expired" by (auto simp: demo_expire_def)
  then show ?thesis by (intro exI [of _ ts]) (auto simp: map_replicate_const map_eq_conv dest: map_eq_imp_length_eq)
qed

theorem sweep_idempotent_witness:
  "\<exists>v w2. handleExpireRetention demo_retention Auth.demo_config Auth.demo_config (demo_expire ''client'' None) (snd demo_swept) = (Inr v, w2)
     \<and> er_observations_expired v = Some 0 \<and> rt_store w2 = rt_store (snd demo_swept)"
proof -
  let ?again = "handleExpireRetention demo_retention Auth.demo_config Auth.demo_config (demo_expire ''client'' None) (snd demo_swept)"
  have "is_ok (fst ?again)" by code_simp
  then have again: "?again = (Inr (projr (fst ?again)), snd ?again)" by (cases "fst ?again") (simp_all add: prod_eq_iff)
  have scope: "ep_scope (demo_expire ''client'' i) = ''client''" for i by (simp add: demo_expire_def)
  have prior: "prior_sweep (demo_expire ''client'' None) (rt_ops (snd demo_swept)) = Inr None" by (simp add: prior_sweep_def demo_expire_def Observe.truthy_def)
  have "sweep_operation_id demo_retention (demo_expire ''client'' (Some demo_sweep_id)) = demo_sweep_id" by (simp add: sweep_operation_id_def demo_expire_def)
  then have ids: "\<forall>x \<in> set [demo_aged]. ob_id x \<noteq> [] \<and> ob_id x
      \<notin> tombstone_ids demo_retention (demo_expire ''client'' (Some demo_sweep_id)) (sweep_operation_id demo_retention (demo_expire ''client'' (Some demo_sweep_id)))"
    by (simp add: demo_retained_facts(4) tombstone_ids_def demo_retention_def demo_sweep_id_def)
  have asOf: "as_of_instant demo_retention (demo_expire ''client'' None) = as_of_instant demo_retention (demo_expire ''client'' (Some demo_sweep_id))"
    by (simp add: as_of_instant_def demo_expire_def)
  have held: "\<not> isScopeHeld Auth.demo_config (ep_scope (demo_expire ''client'' (Some demo_sweep_id)))" unfolding scope by (rule demo_holds(2))
  from sweep_idempotent [OF demo_swept_run demo_retained_facts(1) held demo_retained_facts(3,5) ids again prior held _ asOf refl]
  show ?thesis using again by (metis scope)
qed

theorem sweep_id_replays_blindly_witness:
  "handleExpireRetention demo_retention Auth.demo_config Auth.demo_config (demo_expire ''elsewhere'' (Some demo_sweep_id)) (snd demo_swept)
   = (Inr \<lparr>er_scope = ''elsewhere'', er_observations_expired = Some 1, er_claims_retracted = Some 2, er_operation_id = demo_sweep_id, er_skipped = False\<rparr>, snd demo_swept)"
proof -
  have id: "Observe.truthy (ep_operation_id (demo_expire ''client'' (Some demo_sweep_id))) = Some demo_sweep_id" by code_simp
  have same: "ep_operation_id (demo_expire ''elsewhere'' (Some demo_sweep_id)) = ep_operation_id (demo_expire ''client'' (Some demo_sweep_id))" by (simp add: demo_expire_def)
  have grant: "requireGrant (rn_now demo_retention) (ac_id (ep_actor (demo_expire ''elsewhere'' (Some demo_sweep_id)))) OpForget
      (ep_scope (demo_expire ''elsewhere'' (Some demo_sweep_id))) Auth.demo_config = Inr ()" by code_simp
  have asOf: "as_of_instant demo_retention (demo_expire ''elsewhere'' (Some demo_sweep_id)) \<noteq> None" by (simp add: as_of_instant_def demo_expire_def Observe.truthy_def)
  from sweep_id_replays_blindly [OF demo_swept_run demo_retained_facts(1,2) id same grant asOf, of Auth.demo_config] show ?thesis by (simp add: demo_expire_def)
qed

end
