(* ===== verification/Endorse.thy ===== *)
theory Endorse
  imports Revise
begin

text \<open>
  Page endorsement (\<^verbatim>\<open>protocol/endorse.ts\<close>) and the store of cascade previews (\<^verbatim>\<open>preview_store/store.ts\<close>): the dry run
  that snapshots the claims a page cites and those that other pages cite too, and the commit that, against an unchanged preview,
  writes a user version of every cited claim, stamps the page and appends the commit signal.

  The wiki is the list of its markdown files, by path. How a file is read as frontmatter, how the endorsed page is rendered, and
  which operation and page id a recovery reads from it are parameters (the YAML of \<^verbatim>\<open>layer2/\<close>), as are the hashes, the ULID and the
  timestamps. A call runs at one instant. The test hooks of the handler are not modelled.
\<close>

section \<open>Cascade previews\<close>

record preview_payload =
  pv_page_id :: string
  pv_sources :: "string list"
  pv_shared :: "string list"
  pv_actor_id :: "string option"
  pv_reason :: "string option"

record preview_row =
  pr_id :: string
  pr_payload :: preview_payload
  pr_created_at :: string
  pr_expires_at :: string
  pr_consumed_at :: "string option"

datatype preview_lookup = PlHit preview_payload string | PlNotFound | PlExpired string string | PlConsumed string

record preview_clock =
  pc_now :: int
  pc_iso :: "int \<Rightarrow> string"
  pc_ms :: "string \<Rightarrow> int option"
  pc_ttl_seconds :: int

definition DEFAULT_TTL_SECONDS :: int where
  "DEFAULT_TTL_SECONDS = 300"

definition put_preview :: "preview_clock \<Rightarrow> string \<Rightarrow> preview_payload \<Rightarrow> preview_row list \<Rightarrow> string outcome \<times> preview_row list" where
  "put_preview ck ulid payload rows =
     (let i = ''preview_'' @ ulid;
          r = \<lparr>pr_id = i, pr_payload = payload, pr_created_at = pc_iso ck (pc_now ck),
               pr_expires_at = pc_iso ck (pc_now ck + pc_ttl_seconds ck * 1000), pr_consumed_at = None\<rparr>
      in if \<exists>x \<in> set rows. pr_id x = i then (Inl (JsError ''UNIQUE constraint failed: cascade_previews.preview_id''), rows)
         else (Inr i, rows @ [r]))"

definition lookup_preview :: "preview_clock \<Rightarrow> string \<Rightarrow> preview_row list \<Rightarrow> preview_lookup" where
  "lookup_preview ck i rows =
     (case lookup_by pr_id i rows of
        None \<Rightarrow> PlNotFound
      | Some r \<Rightarrow>
          (case Observe.truthy (pr_consumed_at r) of
             Some t \<Rightarrow> PlConsumed t
           | None \<Rightarrow>
               if (case pc_ms ck (pr_expires_at r) of None \<Rightarrow> False | Some t \<Rightarrow> t \<le> pc_now ck)
               then PlExpired (pr_created_at r) (pr_expires_at r)
               else PlHit (pr_payload r) (pr_created_at r)))"

definition consume_preview :: "preview_clock \<Rightarrow> string \<Rightarrow> preview_row list \<Rightarrow> bool \<times> preview_row list" where
  "consume_preview ck i rows =
     (case lookup_preview ck i rows of
        PlHit _ _ \<Rightarrow> (True, upd_where (\<lambda>r. pr_id r = i) (\<lambda>r. r\<lparr>pr_consumed_at := Some (pc_iso ck (pc_now ck))\<rparr>) rows)
      | _ \<Rightarrow> (False, rows))"

definition gc_previews :: "preview_clock \<Rightarrow> preview_row list \<Rightarrow> nat \<times> preview_row list" where
  "gc_previews ck rows =
     (let consumeCutoff = pc_iso ck (pc_now ck - 24 * 60 * 60 * 1000); expireCutoff = pc_iso ck (pc_now ck);
          left = del_where (\<lambda>r. case pr_consumed_at r of Some t \<Rightarrow> t < consumeCutoff | None \<Rightarrow> pr_expires_at r < expireCutoff) rows
      in (length rows - length left, left))"

section \<open>Parameters, state and results\<close>

record endorse_params =
  np_actor :: actor
  np_page_id :: string
  np_page_path :: string
  np_dry_run :: bool
  np_preview_id :: "string option"
  np_reason :: string
  np_operation_id :: "string option"

record endorse_payload =
  ny_actor_id :: string
  ny_page_id :: string
  ny_reason :: string
  ny_preview_id :: "string option"

datatype endorse_result =
    EndorsePreview string "string list" "string list"
  | EndorseCommit string nat string string

record page_stamp =
  ps_page_id :: string
  ps_actor_id :: string
  ps_operation_id :: string
  ps_commit_ts :: string

record endorse_env =
  ne_base :: forget_env
  ne_clock :: preview_clock
  ne_hash :: "endorse_payload \<Rightarrow> string"
  ne_frontmatter :: "string \<Rightarrow> ((string \<times> json) list \<times> bool) option"
  ne_render :: "string \<Rightarrow> string list \<Rightarrow> page_stamp \<Rightarrow> string"
  ne_stamped :: "string \<Rightarrow> string option \<times> string option"

record endorse_world =
  nw_base :: forget_world
  nw_pages :: "(string \<times> string) list"
  nw_previews :: "preview_row list"

abbreviation ne_store :: "endorse_env \<Rightarrow> store_env" where
  "ne_store env \<equiv> av_store (fe_adm (ne_base env))"

abbreviation ne_sha :: "endorse_env \<Rightarrow> string \<Rightarrow> string" where
  "ne_sha env \<equiv> fe_sha (ne_base env)"

section \<open>What a page cites\<close>

definition strArray :: "json option \<Rightarrow> string list" where
  "strArray j = (case j of Some (JArr js) \<Rightarrow> concat (map (\<lambda>x. case x of JStr s \<Rightarrow> [s] | _ \<Rightarrow> []) js) | _ \<Rightarrow> [])"

definition pageCitedClaimIds :: "(string \<times> json) list \<times> bool \<Rightarrow> string list" where
  "pageCitedClaimIds page =
     (let (fm, legacy) = page; list = (\<lambda>k. strArray (map_of fm k)) in
      if \<not> legacy then js_set (list ''sources'')
      else if list ''sources_claim_ids'' \<noteq> [] then js_set (list ''sources_claim_ids'')
      else if list ''claim_ids'' \<noteq> [] then js_set (list ''claim_ids'')
      else js_set (filter (\<lambda>i. starts_with i ''claim_'') (list ''sources'')))"

definition cited_elsewhere :: "endorse_env \<Rightarrow> string \<Rightarrow> (string \<times> string) list \<Rightarrow> string set" where
  "cited_elsewhere env path pages =
     set (concat (map (\<lambda>(p, raw). if p = path then [] else case ne_frontmatter env raw of None \<Rightarrow> [] | Some fm \<Rightarrow> pageCitedClaimIds fm) pages))"

definition shared_claims :: "endorse_env \<Rightarrow> string \<Rightarrow> string list \<Rightarrow> (string \<times> string) list \<Rightarrow> string list" where
  "shared_claims env path sources pages = filter (\<lambda>c. c \<in> cited_elsewhere env path pages) sources"

definition wiki_files :: "endorse_env \<Rightarrow> (string \<times> string) list \<Rightarrow> page_file list" where
  "wiki_files env pages =
     map (\<lambda>(p, raw). \<lparr>pf_locator = p, pf_operation_id = fst (ne_stamped env raw), pf_page_id = snd (ne_stamped env raw), pf_raw = raw\<rparr>) pages"

section \<open>Replaying a committed call\<close>

definition claim_recorded :: "hashes \<Rightarrow> claim_version list \<Rightarrow> json \<Rightarrow> bool" where
  "claim_recorded hs artifacts j =
     (case List.find (\<lambda>v. body_get j ''claim_id'' = Some (JStr (cv_claim_id v)) \<and> body_get j ''version'' = Some (JNum (cv_version v))) artifacts of
        None \<Rightarrow> False
      | Some v \<Rightarrow> body_get j ''record_hash'' = Some (JStr (hs_version hs v)))"

definition consume_if :: "endorse_env \<Rightarrow> string option \<Rightarrow> endorse_world \<Rightarrow> endorse_world" where
  "consume_if env preview w =
     (case Observe.truthy preview of None \<Rightarrow> w | Some i \<Rightarrow> w\<lparr>nw_previews := snd (consume_preview (ne_clock env) i (nw_previews w))\<rparr>)"

definition endorse_committed ::
  "endorse_env \<Rightarrow> endorse_params \<Rightarrow> string \<Rightarrow> string \<Rightarrow> ops_dir \<Rightarrow> endorse_world \<Rightarrow> endorse_result option outcome \<times> endorse_world" where
  "endorse_committed env p oid payloadHash ops w =
     (case readAllOpLogEntries ops of
        Inl x \<Rightarrow> (Inl x, w)
      | Inr all \<Rightarrow>
          (let entries = filter (\<lambda>e. oe_operation_id e = oid) all in
           if entries = [] then (Inr None, w)
           else case List.find (\<lambda>e. oe_op e = ''endorse'' \<and> oe_actor_id e = ac_id (np_actor p)
                       \<and> entry_detail e ''payload_hash'' = Some (JStr payloadHash)) entries of
             None \<Rightarrow> (conflict, w)
           | Some e \<Rightarrow>
               (case (entry_detail e ''page_id'', entry_detail e ''page_hash'', entry_detail e ''claims'', map_of (nw_pages w) (np_page_path p)) of
                  (Some (JStr pageId), Some (JStr pageHash), Some (JArr claims), Some raw) \<Rightarrow>
                    if pageId \<noteq> np_page_id p \<or> hs_page (fe_hs (ne_base env)) raw \<noteq> pageHash then (conflict, w)
                    else
                      (case iterAllClaimVersions (ne_sha env) (claims_of (nw_base w)) of
                         Inl x \<Rightarrow> (Inl x, w)
                       | Inr vs \<Rightarrow>
                           (let artifacts = filter (\<lambda>v. cv_operation_id v = oid) vs in
                            if length artifacts \<noteq> length claims \<or> \<not> list_all (claim_recorded (fe_hs (ne_base env)) artifacts) claims
                            then (conflict, w)
                            else
                              (let base = nw_base w in
                               (Inr (Some (EndorseCommit pageId (length claims) oid (oe_timestamp e))),
                                consume_if env (np_preview_id p)
                                  (w\<lparr>nw_base := base\<lparr>fw_store := sync_versions (ne_store env) artifacts (fw_store base)\<rparr>\<rparr>)))))
                | _ \<Rightarrow> (conflict, w))))"

definition endorse_replay_stage ::
  "endorse_env \<Rightarrow> mutation_fence option \<Rightarrow> endorse_params \<Rightarrow> string \<Rightarrow> string \<Rightarrow> ops_dir \<Rightarrow> endorse_world
     \<Rightarrow> (endorse_result + (op_intent \<times> endorse_body) option) outcome \<times> endorse_world" where
  "endorse_replay_stage env fence p oid payloadHash ops w =
     and_then (endorse_committed env p oid payloadHash ops w)
       (\<lambda>done_before w. case done_before of
          Some r \<Rightarrow> (Inr (Inl r), w)
        | None \<Rightarrow>
            (let base = nw_base w in
             case readOperationIntent (ow_intents (fw_pod base)) oid of
               Inl x \<Rightarrow> (Inl x, w)
             | Inr None \<Rightarrow> (Inr (Inr None), w)
             | Inr (Some i) \<Rightarrow>
                 (case it_body i of
                    IEndorse b \<Rightarrow>
                      if it_actor_id i \<noteq> ac_id (np_actor p) \<or> it_payload_hash i \<noteq> payloadHash then (conflict, w)
                      else
                        (case runRecovery (fe_others (ne_base env)) (fe_now_iso (ne_base env)) (fe_hs (ne_base env))
                                \<lparr>rx_evidence = None, rx_claims = Some (claims_of base), rx_wiki = Some (wiki_files env (nw_pages w)),
                                 rx_fenced = (fence \<noteq> None)\<rparr> ops (ow_intents (fw_pod base)) (ow_fence (fw_pod base)) of
                           (rep, ops', intents', f') \<Rightarrow>
                             (let w1 = w\<lparr>nw_base := base\<lparr>fw_pod := (fw_pod base)\<lparr>ow_ops := Some ops', ow_intents := intents', ow_fence := f'\<rparr>\<rparr>\<rparr> in
                              case rep of
                                Inl x \<Rightarrow> (Inl x, w1)
                              | Inr report \<Rightarrow>
                                  and_then (endorse_committed env p oid payloadHash ops' w1)
                                    (\<lambda>recovered w2. case recovered of
                                       Some r \<Rightarrow> (Inr (Inl r), w2)
                                     | None \<Rightarrow> if oid \<in> set (rr_manual report) then (conflict, w2) else (Inr (Inr (Some (i, b))), w2))))
                  | _ \<Rightarrow> (conflict, w))))"

section \<open>The endorsed versions\<close>

definition endorsed_of :: "endorse_params \<Rightarrow> string \<Rightarrow> string \<Rightarrow> claim_version \<Rightarrow> claim_version" where
  "endorsed_of p oid now latest =
     latest\<lparr>cv_version := cv_version latest + 1, cv_author := AUser, cv_epistemic_owner := Some AUser, cv_version_at := now,
       cv_operation_id := oid, cv_actor_id := ac_id (np_actor p),
       cv_lineage := (cv_lineage latest)\<lparr>vl_supersedes := Some (cv_version latest), vl_endorsement_source := Some (np_page_id p)\<rparr>\<rparr>"

text \<open>The records of the endorsement, and those among them that are not in the log yet.\<close>

fun endorse_records ::
  "(string \<Rightarrow> string) \<Rightarrow> claims_dir \<Rightarrow> endorse_params \<Rightarrow> string \<Rightarrow> string \<Rightarrow> claim_version list \<Rightarrow> string list
     \<Rightarrow> (claim_version list \<times> claim_version list) outcome" where
  "endorse_records sha dir p oid now existing [] = Inr ([], [])"
| "endorse_records sha dir p oid now existing (c # cs) =
     (case List.find (\<lambda>v. cv_claim_id v = c) existing of
        Some v \<Rightarrow>
          if cv_state v \<noteq> CsActive then conflict
          else (case endorse_records sha dir p oid now existing cs of Inl x \<Rightarrow> Inl x | Inr (es, ms) \<Rightarrow> Inr (v # es, ms))
      | None \<Rightarrow>
          (case readLatestVersion sha dir c of
             Inl x \<Rightarrow> Inl x
           | Inr None \<Rightarrow> Inl (ProtocolError ''claim_not_found'' NoDetails)
           | Inr (Some latest) \<Rightarrow>
               if cv_state latest \<noteq> CsActive then Inl (ProtocolError ''claim_forgotten'' NoDetails)
               else (case endorse_records sha dir p oid now existing cs of
                       Inl x \<Rightarrow> Inl x
                     | Inr (es, ms) \<Rightarrow> let v = endorsed_of p oid now latest in Inr (v # es, v # ms))))"

definition check_preview ::
  "endorse_env \<Rightarrow> endorse_params \<Rightarrow> string list \<Rightarrow> string list \<Rightarrow> preview_row list \<Rightarrow> unit outcome" where
  "check_preview env p sources shared rows =
     (case Observe.truthy (np_preview_id p) of
        None \<Rightarrow> if shared \<noteq> [] then Inl (ProtocolError ''cascade_required_ack'' NoDetails) else Inr ()
      | Some i \<Rightarrow>
          (case lookup_preview (ne_clock env) i rows of
             PlNotFound \<Rightarrow> Inl (ProtocolError ''preview_not_found'' NoDetails)
           | PlExpired _ _ \<Rightarrow> Inl (ProtocolError ''preview_expired'' NoDetails)
           | PlConsumed _ \<Rightarrow> Inl (ProtocolError ''preview_not_found'' NoDetails)
           | PlHit payload _ \<Rightarrow>
               if pv_page_id payload \<noteq> np_page_id p \<or> pv_actor_id payload \<noteq> Some (ac_id (np_actor p)) \<or> sources \<noteq> pv_sources payload
                  \<or> shared \<noteq> pv_shared payload
               then Inl (ProtocolError ''cascade_drift'' NoDetails) else Inr ()))"

section \<open>Committing\<close>

definition endorse_intent ::
  "endorse_env \<Rightarrow> mutation_fence option \<Rightarrow> endorse_params \<Rightarrow> string \<Rightarrow> string \<Rightarrow> string \<Rightarrow> string \<Rightarrow> claim_version list \<Rightarrow> op_intent \<times> endorse_body" where
  "endorse_intent env fence p oid payloadHash now content records =
     (let b = \<lparr>eb_page_id = np_page_id p, eb_content_hash = hs_page (fe_hs (ne_base env)) content,
            eb_claims = map (artifact_of (fe_hs (ne_base env))) records, eb_result_page_id = np_page_id p, eb_claims_endorsed = length records,
            eb_result_operation_id = oid, eb_commit_ts = now, eb_details_page_id = np_page_id p\<rparr>
      in (\<lparr>it_operation_id = oid, it_actor_id = ac_id (np_actor p), it_payload_hash = payloadHash, it_fence = Option.bind fence mf_stamp,
           it_prepared_at = now, it_body = IEndorse b\<rparr>, b))"

definition endorse_commit_entry :: "op_intent \<Rightarrow> endorse_body \<Rightarrow> op_entry" where
  "endorse_commit_entry i b =
     \<lparr>oe_operation_id = it_operation_id i, oe_actor_id = it_actor_id i, oe_timestamp = it_prepared_at i, oe_op = ''endorse'',
      oe_details = Some [(''payload_hash'', JStr (it_payload_hash i)), (''page_id'', JStr (eb_page_id b)), (''page_hash'', JStr (eb_content_hash b)),
        (''claims'', JArr (map artifact_json (eb_claims b))), (''claims_endorsed'', JNum (int (eb_claims_endorsed b)))]\<rparr>"

definition write_page :: "string \<Rightarrow> string \<Rightarrow> (string \<times> string) list \<Rightarrow> (string \<times> string) list" where
  "write_page path content pages = map (\<lambda>(p, raw). if p = path then (p, content) else (p, raw)) pages"

definition write_endorsement :: "endorse_env \<Rightarrow> endorse_params \<Rightarrow> string \<Rightarrow> claim_version list \<Rightarrow> endorse_world \<Rightarrow> endorse_world" where
  "write_endorsement env p content missing w =
     (let base = (if missing = [] then nw_base w
                  else (let b1 = append_versions missing (nw_base w) in b1\<lparr>fw_store := sync_versions (ne_store env) missing (fw_store b1)\<rparr>))
      in w\<lparr>nw_base := base, nw_pages := write_page (np_page_path p) content (nw_pages w)\<rparr>)"

definition signal_endorsement ::
  "endorse_env \<Rightarrow> mutation_fence option \<Rightarrow> op_intent \<Rightarrow> endorse_body \<Rightarrow> ops_dir \<Rightarrow> endorse_world \<Rightarrow> unit outcome \<times> endorse_world" where
  "signal_endorsement env fence i b ops w =
     (let base = nw_base w; pod = fw_pod base in
      case appendCommittedOpLogEntries (fe_now_iso (ne_base env)) [endorse_commit_entry i b] fence \<lparr>cw_ops = ops, cw_fence = ow_fence pod\<rparr> of
        (Inl x, cw) \<Rightarrow> (Inl x, w\<lparr>nw_base := base\<lparr>fw_pod := pod\<lparr>ow_ops := Some (cw_ops cw), ow_fence := cw_fence cw\<rparr>\<rparr>\<rparr>)
      | (Inr _, cw) \<Rightarrow> (Inr (), w\<lparr>nw_base := base\<lparr>fw_pod := pod\<lparr>ow_ops := Some (cw_ops cw), ow_fence := cw_fence cw,
            ow_intents := snd (removeOperationIntent (it_operation_id i) (ow_intents pod))\<rparr>\<rparr>\<rparr>))"

definition commit_endorsement ::
  "endorse_env \<Rightarrow> mutation_fence option \<Rightarrow> endorse_params \<Rightarrow> string \<Rightarrow> string \<Rightarrow> (op_intent \<times> endorse_body) option \<Rightarrow> string \<Rightarrow> string
     \<Rightarrow> claim_version list \<Rightarrow> claim_version list \<Rightarrow> endorse_world \<Rightarrow> unit outcome \<times> endorse_world" where
  "commit_endorsement env fence p oid payloadHash existing now content records missing w =
     (case ow_ops (fw_pod (nw_base w)) of
        None \<Rightarrow> (Inr (), write_endorsement env p content missing w)
      | Some ops \<Rightarrow>
          (let (i, b) = endorse_intent env fence p oid payloadHash now content records; base = nw_base w in
           if existing \<noteq> None \<and> (eb_page_id (snd (the existing)), eb_content_hash (snd (the existing)), eb_claims (snd (the existing)))
                \<noteq> (eb_page_id b, eb_content_hash b, eb_claims b)
           then (conflict, w)
           else
             (case persistOperationIntent i True (ow_intents (fw_pod base)) of
                (Inl x, ints) \<Rightarrow> (Inl x, w\<lparr>nw_base := base\<lparr>fw_pod := (fw_pod base)\<lparr>ow_intents := ints\<rparr>\<rparr>\<rparr>)
              | (Inr _, ints) \<Rightarrow>
                  signal_endorsement env fence i b ops
                    (write_endorsement env p content missing (w\<lparr>nw_base := base\<lparr>fw_pod := (fw_pod base)\<lparr>ow_intents := ints\<rparr>\<rparr>\<rparr>)))))"

definition finish_endorsement ::
  "endorse_env \<Rightarrow> endorse_params \<Rightarrow> string \<Rightarrow> string \<Rightarrow> nat \<Rightarrow> endorse_world \<Rightarrow> endorse_result outcome \<times> endorse_world" where
  "finish_endorsement env p oid now n w =
     (case Observe.truthy (np_preview_id p) of
        None \<Rightarrow> (Inr (EndorseCommit (np_page_id p) n oid now), w)
      | Some i \<Rightarrow>
          (case consume_preview (ne_clock env) i (nw_previews w) of
             (ok, rows) \<Rightarrow>
               (if ok then Inr (EndorseCommit (np_page_id p) n oid now) else Inl (ProtocolError ''preview_not_found'' NoDetails), w\<lparr>nw_previews := rows\<rparr>)))"

definition endorse_change ::
  "endorse_env \<Rightarrow> mutation_fence option \<Rightarrow> endorse_params \<Rightarrow> string \<Rightarrow> string list \<Rightarrow> string list \<Rightarrow> string \<Rightarrow> string
     \<Rightarrow> (op_intent \<times> endorse_body) option \<Rightarrow> endorse_world \<Rightarrow> endorse_result outcome \<times> endorse_world" where
  "endorse_change env fence p raw sources shared oid payloadHash existing w =
     (case check_preview env p sources shared (nw_previews w) of
        Inl x \<Rightarrow> (Inl x, w)
      | Inr _ \<Rightarrow>
          (let now = (case existing of Some (i, _) \<Rightarrow> it_prepared_at i | None \<Rightarrow> fe_now_iso (ne_base env)); dir = claims_of (nw_base w) in
           case iterAllClaimVersions (ne_sha env) dir of
             Inl x \<Rightarrow> (Inl x, w)
           | Inr vs \<Rightarrow>
               (case endorse_records (ne_sha env) dir p oid now (filter (\<lambda>v. cv_operation_id v = oid) vs) sources of
                  Inl x \<Rightarrow> (Inl x, w)
                | Inr (records, missing) \<Rightarrow>
                    (let content = ne_render env raw sources \<lparr>ps_page_id = np_page_id p, ps_actor_id = ac_id (np_actor p), ps_operation_id = oid, ps_commit_ts = now\<rparr>
                     in and_then (commit_endorsement env fence p oid payloadHash existing now content records missing w)
                          (\<lambda>_ w1. finish_endorsement env p oid now (length records) w1)))))"

definition endorse_payload_of :: "endorse_params \<Rightarrow> endorse_payload" where
  "endorse_payload_of p = \<lparr>ny_actor_id = ac_id (np_actor p), ny_page_id = np_page_id p, ny_reason = np_reason p, ny_preview_id = np_preview_id p\<rparr>"

definition handleEndorse ::
  "endorse_env \<Rightarrow> smartware_config \<Rightarrow> mutation_fence option \<Rightarrow> endorse_params \<Rightarrow> endorse_world \<Rightarrow> endorse_result outcome \<times> endorse_world" where
  "handleEndorse env config fence p w =
     (if \<not> starts_with (ac_id (np_actor p)) ''user:'' then (Inl (ProtocolError ''user_required'' NoDetails), w)
      else case requireRegisteredActor (fe_now (ne_base env)) (ac_id (np_actor p)) config of
        Inl x \<Rightarrow> (Inl x, w)
      | Inr _ \<Rightarrow>
          (case map_of (nw_pages w) (np_page_path p) of
             None \<Rightarrow> (Inl (ProtocolError ''page_not_found'' NoDetails), w)
           | Some raw \<Rightarrow>
               (case ne_frontmatter env raw of
                  None \<Rightarrow> (Inl (ProtocolError ''invalid_page'' NoDetails), w)
                | Some fm \<Rightarrow>
                    (let sources = pageCitedClaimIds fm; shared = shared_claims env (np_page_path p) sources (nw_pages w) in
                     if np_dry_run p then
                       (case put_preview (ne_clock env) (fe_ulid (ne_base env))
                               \<lparr>pv_page_id = np_page_id p, pv_sources = sources, pv_shared = shared, pv_actor_id = Some (ac_id (np_actor p)),
                                pv_reason = Some (np_reason p)\<rparr> (nw_previews w) of
                          (Inl x, rows) \<Rightarrow> (Inl x, w\<lparr>nw_previews := rows\<rparr>)
                        | (Inr i, rows) \<Rightarrow> (Inr (EndorsePreview i sources shared), w\<lparr>nw_previews := rows\<rparr>))
                     else case Observe.truthy (np_operation_id p) of
                       None \<Rightarrow> (Inl (ProtocolError ''missing_operation_id'' NoDetails), w)
                     | Some oid \<Rightarrow>
                         if \<not> isValidOperationId oid then (Inl (ProtocolError ''invalid_parameter'' NoDetails), w)
                         else
                           (let payloadHash = ne_hash env (endorse_payload_of p) in
                            case ow_ops (fw_pod (nw_base w)) of
                              None \<Rightarrow> endorse_change env fence p raw sources shared oid payloadHash None w
                            | Some ops \<Rightarrow>
                                and_then (endorse_replay_stage env fence p oid payloadHash ops w)
                                  (\<lambda>r w1. case r of Inl res \<Rightarrow> (Inr res, w1)
                                     | Inr existing \<Rightarrow> endorse_change env fence p raw sources shared oid payloadHash existing w1))))))"

section \<open>Lemmas\<close>

lemma endorse_unused:
  assumes "operation_unused oid (fw_pod (nw_base w))" and "ow_ops (fw_pod (nw_base w)) = Some ops" and "readAllOpLogEntries ops = Inr es"
  shows "endorse_replay_stage env fence p oid h ops w = (Inr (Inr None), w)"
proof -
  have "filter (\<lambda>e. oe_operation_id e = oid) es = []" using assms by (auto simp: operation_unused_def filter_empty_conv)
  then have "endorse_committed env p oid h ops w = (Inr None, w)" using assms(3) by (simp add: endorse_committed_def Let_def)
  then show ?thesis using assms(1) by (simp add: endorse_replay_stage_def and_then_def operation_unused_def Let_def)
qed

lemma consume_hit:
  assumes "lookup_preview ck i rows = PlHit payload t" and "pc_iso ck (pc_now ck) \<noteq> []"
  shows "fst (consume_preview ck i rows)" and "lookup_preview ck2 i (snd (consume_preview ck i rows)) = PlConsumed (pc_iso ck (pc_now ck))"
proof -
  show "fst (consume_preview ck i rows)" using assms by (simp add: consume_preview_def)
  obtain r where r: "lookup_by pr_id i rows = Some r" using assms(1) by (cases "lookup_by pr_id i rows") (auto simp: lookup_preview_def)
  then have key: "pr_id r = i" by (auto dest: lookup_by_SomeD)
  have "lookup_by pr_id i (upd_where (\<lambda>r. pr_id r = i) (\<lambda>r. r\<lparr>pr_consumed_at := Some (pc_iso ck (pc_now ck))\<rparr>) rows)
      = Some (r\<lparr>pr_consumed_at := Some (pc_iso ck (pc_now ck))\<rparr>)"
    using r key by (induction rows) (auto simp: upd_where_def split: if_splits)
  then show "lookup_preview ck2 i (snd (consume_preview ck i rows)) = PlConsumed (pc_iso ck (pc_now ck))"
    using assms by (simp add: consume_preview_def lookup_preview_def Observe.truthy_def)
qed

lemma endorse_records_fresh:
  "endorse_records sha dir p oid now [] cs = Inr (es, ms) \<Longrightarrow>
     ms = es \<and> map cv_operation_id es = map (\<lambda>_. oid) cs
     \<and> list_all2 (\<lambda>c v. \<exists>latest. readLatestVersion sha dir c = Inr (Some latest) \<and> cv_state latest = CsActive \<and> v = endorsed_of p oid now latest) cs es"
  by (induction cs arbitrary: es ms) (fastforce simp: Let_def endorsed_of_def split: sum.splits option.splits if_splits prod.splits)+

lemma sync_log [simp]: "st_log (syncFromJsonlVersion E v None False st) = st_log st"
  by (rule sync_claims [of E v None st])

lemma write_endorsement_log:
  "st_log (fw_store (nw_base (write_endorsement env p content missing w)))
     = (if missing = [] then st_log (fw_store (nw_base w)) else Some (appendClaimVersions missing (claims_of (nw_base w))))"
  "nw_pages (write_endorsement env p content missing w) = write_page (np_page_path p) content (nw_pages w)"
  "nw_previews (write_endorsement env p content missing w) = nw_previews w"
  "fw_pod (nw_base (write_endorsement env p content missing w)) = fw_pod (nw_base w)"
proof -
  have sync: "st_log (sync_versions E vs st) = st_log st" for E vs st
    unfolding sync_versions_def by (induction vs arbitrary: st) simp_all
  show "st_log (fw_store (nw_base (write_endorsement env p content missing w)))
     = (if missing = [] then st_log (fw_store (nw_base w)) else Some (appendClaimVersions missing (claims_of (nw_base w))))"
    by (simp add: write_endorsement_def append_versions_def sync Let_def)
qed (simp_all add: write_endorsement_def append_versions_def Let_def)

lemma dry_run_keeps:
  "np_dry_run p \<Longrightarrow> nw_base (snd (handleEndorse env config fence p w)) = nw_base w \<and> nw_pages (snd (handleEndorse env config fence p w)) = nw_pages w"
  by (simp add: handleEndorse_def Let_def split: sum.split option.split prod.split)

text \<open>A commit under an unused operation id.\<close>

lemma endorse_run:
  assumes "handleEndorse env config fence p w = (Inr r, w')" and "\<not> np_dry_run p"
  obtains raw fm oid where "map_of (nw_pages w) (np_page_path p) = Some raw" "ne_frontmatter env raw = Some fm" "Observe.truthy (np_operation_id p) = Some oid"
    "\<And>ops es. ow_ops (fw_pod (nw_base w)) = Some ops \<Longrightarrow> readAllOpLogEntries ops = Inr es \<Longrightarrow> operation_unused oid (fw_pod (nw_base w)) \<Longrightarrow>
       endorse_change env fence p raw (pageCitedClaimIds fm) (shared_claims env (np_page_path p) (pageCitedClaimIds fm) (nw_pages w)) oid
         (ne_hash env (endorse_payload_of p)) None w = (Inr r, w')"
proof -
  obtain raw fm oid where *: "map_of (nw_pages w) (np_page_path p) = Some raw" "ne_frontmatter env raw = Some fm" "Observe.truthy (np_operation_id p) = Some oid"
    using assms by (auto simp: handleEndorse_def Let_def split: if_splits sum.splits option.splits)
  show thesis
    by (rule that [OF *]) (use assms * in \<open>auto simp: handleEndorse_def Let_def and_then_def endorse_unused split: if_splits sum.splits\<close>)
qed

lemma endorse_change_run:
  assumes "endorse_change env fence p raw sources shared oid h None w = (Inr r, w')" and "ow_ops (fw_pod (nw_base w)) = Some ops"
    and "iterAllClaimVersions (ne_sha env) (claims_of (nw_base w)) = Inr vs" and "\<forall>v \<in> set vs. cv_operation_id v \<noteq> oid"
  obtains es ops' e stamp where "check_preview env p sources shared (nw_previews w) = Inr ()"
    "list_all2 (\<lambda>c v. \<exists>latest. readLatestVersion (ne_sha env) (claims_of (nw_base w)) c = Inr (Some latest) \<and> cv_state latest = CsActive
        \<and> v = endorsed_of p oid (fe_now_iso (ne_base env)) latest) sources es"
    "st_log (fw_store (nw_base w')) = (if es = [] then st_log (fw_store (nw_base w)) else Some (appendClaimVersions es (claims_of (nw_base w))))"
    "nw_pages w' = write_page (np_page_path p) (ne_render env raw sources
       \<lparr>ps_page_id = np_page_id p, ps_actor_id = ac_id (np_actor p), ps_operation_id = oid, ps_commit_ts = fe_now_iso (ne_base env)\<rparr>) (nw_pages w)"
    "r = EndorseCommit (np_page_id p) (length sources) oid (fe_now_iso (ne_base env))"
    "ow_ops (fw_pod (nw_base w')) = Some ops'"
    "oe_operation_id e = oid" "oe_op e = ''endorse''" "entry_detail e ''claims'' = Some (JArr (map (\<lambda>v. artifact_json (artifact_of (fe_hs (ne_base env)) v)) es))"
    "entry_detail e ''page_id'' = Some (JStr (np_page_id p))"
    "entry_detail e ''page_hash'' = Some (JStr (hs_page (fe_hs (ne_base env)) (ne_render env raw sources
       \<lparr>ps_page_id = np_page_id p, ps_actor_id = ac_id (np_actor p), ps_operation_id = oid, ps_commit_ts = fe_now_iso (ne_base env)\<rparr>)))"
    "ops' = append_day (dayOfTimestamp (oe_timestamp e)) [Line (with_stamp stamp e)] ops"
    "nw_previews w' = nw_previews (consume_if env (np_preview_id p) w)"
proof -
  let ?now = "fe_now_iso (ne_base env)"
  have check: "check_preview env p sources shared (nw_previews w) = Inr ()"
    using assms(1) by (cases "check_preview env p sources shared (nw_previews w)") (auto simp: endorse_change_def)
  have none: "filter (\<lambda>v. cv_operation_id v = oid) vs = []" using assms(4) by (auto simp: filter_empty_conv)
  obtain es ms where rec0: "endorse_records (ne_sha env) (claims_of (nw_base w)) p oid ?now [] sources = Inr (es, ms)"
    using assms(1,3) check none by (auto simp: endorse_change_def Let_def split: sum.splits)
  note rec = endorse_records_fresh [OF rec0]
  let ?content = "ne_render env raw sources \<lparr>ps_page_id = np_page_id p, ps_actor_id = ac_id (np_actor p), ps_operation_id = oid, ps_commit_ts = ?now\<rparr>"
  obtain c w1 where com: "commit_endorsement env fence p oid h None ?now ?content es es w = (c, w1)" by fastforce
  then have c: "c = Inr ()" and fin: "finish_endorsement env p oid ?now (length es) w1 = (Inr r, w')"
    using assms(1,3) check none rec0 rec by (auto simp: endorse_change_def Let_def and_then_def split: sum.splits)
  obtain i b where ib: "endorse_intent env fence p oid h ?now ?content es = (i, b)" by fastforce
  then have i: "it_operation_id i = oid" "eb_claims b = map (artifact_of (fe_hs (ne_base env))) es"
      "eb_page_id b = np_page_id p" "eb_content_hash b = hs_page (fe_hs (ne_base env)) ?content" by (auto simp: endorse_intent_def Let_def)
  obtain ints where ints: "signal_endorsement env fence i b ops
      (write_endorsement env p ?content es (w\<lparr>nw_base := (nw_base w)\<lparr>fw_pod := (fw_pod (nw_base w))\<lparr>ow_intents := ints\<rparr>\<rparr>\<rparr>)) = (Inr (), w1)"
    using com c assms(2) ib by (auto simp: commit_endorsement_def Let_def split: sum.splits prod.splits)
  let ?w = "w\<lparr>nw_base := (nw_base w)\<lparr>fw_pod := (fw_pod (nw_base w))\<lparr>ow_intents := ints\<rparr>\<rparr>\<rparr>"
  obtain cw where sig: "appendCommittedOpLogEntries ?now [endorse_commit_entry i b] fence \<lparr>cw_ops = ops, cw_fence = ow_fence (fw_pod (nw_base w))\<rparr> = (Inr (), cw)"
      "ow_ops (fw_pod (nw_base w1)) = Some (cw_ops cw)" "fw_store (nw_base w1) = fw_store (nw_base (write_endorsement env p ?content es ?w))"
      "nw_pages w1 = nw_pages (write_endorsement env p ?content es ?w)" "nw_previews w1 = nw_previews w"
    using ints by (auto simp: signal_endorsement_def write_endorsement_log Let_def split: sum.splits prod.splits)
  have w': "nw_base w' = nw_base w1" "nw_pages w' = nw_pages w1" "r = EndorseCommit (np_page_id p) (length es) oid ?now"
    "nw_previews w' = nw_previews (consume_if env (np_preview_id p) w)"
    using fin sig(5) by (auto simp: finish_endorsement_def consume_if_def split: option.splits prod.splits if_splits)
  have len: "length es = length sources" using rec by (metis length_map)
  show thesis
    by (rule that [of es "cw_ops cw" "endorse_commit_entry i b" "Option.bind fence mf_stamp"])
       (use check rec sig w' len i appendCommitted_ok [OF sig(1)] in \<open>simp_all add: write_endorsement_log claims_of_def endorse_commit_entry_def entry_detail_def comp_def\<close>)
qed

section \<open>Properties\<close>

text \<open>C14: An endorsement writes exactly the user version of every cited claim. A commit under an unused operation id appends, for each
  claim the page cites and in that order, the version after its latest active one, with the user as author and owner, the page
  as its source of endorsement, written at the time of the call, and the body, the confidence, the relations, the tags and a standing
  demotion unchanged; it replaces the page by its rendering with the stamp of this call (page, actor, operation and time) and no other page,
  and commits one entry with the page, the hash of that rendering and the records of these versions.\<close>

theorem endorse_adopts_cited_claims:
  assumes "handleEndorse env config fence p w = (Inr r, w')" and "\<not> np_dry_run p"
    and "ow_ops (fw_pod (nw_base w)) = Some ops" and "readAllOpLogEntries ops = Inr entries" and "Observe.truthy (np_operation_id p) = Some oid"
    and "operation_unused oid (fw_pod (nw_base w))"
    and "iterAllClaimVersions (ne_sha env) (claims_of (nw_base w)) = Inr vs" and "\<forall>v \<in> set vs. cv_operation_id v \<noteq> oid"
  shows "\<exists>raw fm new content ops' e stamp. content = ne_render env raw (pageCitedClaimIds fm)
        \<lparr>ps_page_id = np_page_id p, ps_actor_id = ac_id (np_actor p), ps_operation_id = oid, ps_commit_ts = fe_now_iso (ne_base env)\<rparr>
    \<and> map_of (nw_pages w) (np_page_path p) = Some raw \<and> ne_frontmatter env raw = Some fm
    \<and> r = EndorseCommit (np_page_id p) (length (pageCitedClaimIds fm)) oid (fe_now_iso (ne_base env))
    \<and> list_all2 (\<lambda>c v. \<exists>latest. readLatestVersion (ne_sha env) (claims_of (nw_base w)) c = Inr (Some latest) \<and> cv_state latest = CsActive
        \<and> cv_claim_id v = cv_claim_id latest \<and> cv_version v = cv_version latest + 1 \<and> cv_author v = AUser \<and> cv_epistemic_owner v = Some AUser
        \<and> vl_endorsement_source (cv_lineage v) = Some (np_page_id p) \<and> vl_superseded_by (cv_lineage v) = vl_superseded_by (cv_lineage latest)
        \<and> cv_body v = cv_body latest \<and> cv_confidence v = cv_confidence latest \<and> cv_relations v = cv_relations latest \<and> cv_operation_id v = oid
        \<and> cv_tags v = cv_tags latest \<and> cv_version_at v = fe_now_iso (ne_base env) \<and> cv_actor_id v = ac_id (np_actor p))
      (pageCitedClaimIds fm) new
    \<and> st_log (fw_store (nw_base w')) = (if new = [] then st_log (fw_store (nw_base w)) else Some (appendClaimVersions new (claims_of (nw_base w))))
    \<and> nw_pages w' = map (\<lambda>(path, old). (path, if path = np_page_path p then content else old)) (nw_pages w)
    \<and> ow_ops (fw_pod (nw_base w')) = Some ops' \<and> ops' = append_day (dayOfTimestamp (oe_timestamp e)) [Line (with_stamp stamp e)] ops
    \<and> oe_operation_id e = oid \<and> oe_op e = ''endorse'' \<and> entry_detail e ''page_id'' = Some (JStr (np_page_id p))
    \<and> entry_detail e ''page_hash'' = Some (JStr (hs_page (fe_hs (ne_base env)) content))
    \<and> entry_detail e ''claims'' = Some (JArr (map (\<lambda>v. artifact_json (artifact_of (fe_hs (ne_base env)) v)) new))"
proof -
  obtain raw fm where page: "map_of (nw_pages w) (np_page_path p) = Some raw" "ne_frontmatter env raw = Some fm"
    and change: "endorse_change env fence p raw (pageCitedClaimIds fm) (shared_claims env (np_page_path p) (pageCitedClaimIds fm) (nw_pages w)) oid
         (ne_hash env (endorse_payload_of p)) None w = (Inr r, w')"
    using endorse_run [OF assms(1,2)] assms(3-6) by (metis option.inject)
  obtain es ops' e stamp where
    es: "list_all2 (\<lambda>c v. \<exists>latest. readLatestVersion (ne_sha env) (claims_of (nw_base w)) c = Inr (Some latest) \<and> cv_state latest = CsActive
        \<and> v = endorsed_of p oid (fe_now_iso (ne_base env)) latest) (pageCitedClaimIds fm) es"
    and log: "st_log (fw_store (nw_base w')) = (if es = [] then st_log (fw_store (nw_base w)) else Some (appendClaimVersions es (claims_of (nw_base w))))"
    and pages: "nw_pages w' = write_page (np_page_path p) (ne_render env raw (pageCitedClaimIds fm)
       \<lparr>ps_page_id = np_page_id p, ps_actor_id = ac_id (np_actor p), ps_operation_id = oid, ps_commit_ts = fe_now_iso (ne_base env)\<rparr>) (nw_pages w)"
    and res: "r = EndorseCommit (np_page_id p) (length (pageCitedClaimIds fm)) oid (fe_now_iso (ne_base env))" "ow_ops (fw_pod (nw_base w')) = Some ops'"
    and entry: "oe_operation_id e = oid" "oe_op e = ''endorse''" "entry_detail e ''claims'' = Some (JArr (map (\<lambda>v. artifact_json (artifact_of (fe_hs (ne_base env)) v)) es))"
      "entry_detail e ''page_id'' = Some (JStr (np_page_id p))"
      "entry_detail e ''page_hash'' = Some (JStr (hs_page (fe_hs (ne_base env)) (ne_render env raw (pageCitedClaimIds fm)
       \<lparr>ps_page_id = np_page_id p, ps_actor_id = ac_id (np_actor p), ps_operation_id = oid, ps_commit_ts = fe_now_iso (ne_base env)\<rparr>)))"
      "ops' = append_day (dayOfTimestamp (oe_timestamp e)) [Line (with_stamp stamp e)] ops"
    by (rule endorse_change_run [OF change assms(3,7,8)]) (rule that, assumption+)
  have es': "list_all2 (\<lambda>c v. \<exists>latest. readLatestVersion (ne_sha env) (claims_of (nw_base w)) c = Inr (Some latest) \<and> cv_state latest = CsActive
        \<and> cv_claim_id v = cv_claim_id latest \<and> cv_version v = cv_version latest + 1 \<and> cv_author v = AUser \<and> cv_epistemic_owner v = Some AUser
        \<and> vl_endorsement_source (cv_lineage v) = Some (np_page_id p) \<and> vl_superseded_by (cv_lineage v) = vl_superseded_by (cv_lineage latest)
        \<and> cv_body v = cv_body latest \<and> cv_confidence v = cv_confidence latest \<and> cv_relations v = cv_relations latest \<and> cv_operation_id v = oid
        \<and> cv_tags v = cv_tags latest \<and> cv_version_at v = fe_now_iso (ne_base env) \<and> cv_actor_id v = ac_id (np_actor p))
      (pageCitedClaimIds fm) es"
    by (rule list_all2_mono [OF es]) (auto simp: endorsed_of_def)
  have "nw_pages w' = map (\<lambda>(path, old). (path, if path = np_page_path p then (ne_render env raw (pageCitedClaimIds fm)
       \<lparr>ps_page_id = np_page_id p, ps_actor_id = ac_id (np_actor p), ps_operation_id = oid, ps_commit_ts = fe_now_iso (ne_base env)\<rparr>) else old)) (nw_pages w)"
    unfolding pages write_page_def by (rule map_cong) auto
  then show ?thesis using page es' log res entry by blast
qed

text \<open>C15: No cascade without the preview that showed it. When an endorsement commits under an unused operation id although another page
  cites one of its claims, the caller named a live preview of this page, taken by the same actor, whose snapshots are exactly what the
  page cites and shares now; and a preview that a commit named is consumed, so that no later endorsement can use it.\<close>

theorem cascade_needs_current_preview:
  assumes "handleEndorse env config fence p w = (Inr r, w')" and "\<not> np_dry_run p"
    and "ow_ops (fw_pod (nw_base w)) = Some ops" and "readAllOpLogEntries ops = Inr entries" and "Observe.truthy (np_operation_id p) = Some oid"
    and "operation_unused oid (fw_pod (nw_base w))"
    and "iterAllClaimVersions (ne_sha env) (claims_of (nw_base w)) = Inr vs" and "\<forall>v \<in> set vs. cv_operation_id v \<noteq> oid"
    and "pc_iso (ne_clock env) (pc_now (ne_clock env)) \<noteq> []"
  shows "\<exists>raw fm. map_of (nw_pages w) (np_page_path p) = Some raw \<and> ne_frontmatter env raw = Some fm
    \<and> (\<forall>c path other fm2. c \<in> set (pageCitedClaimIds fm) \<longrightarrow> (path, other) \<in> set (nw_pages w) \<longrightarrow> path \<noteq> np_page_path p
          \<longrightarrow> ne_frontmatter env other = Some fm2 \<longrightarrow> c \<in> set (pageCitedClaimIds fm2) \<longrightarrow> Observe.truthy (np_preview_id p) \<noteq> None)
    \<and> (\<forall>i. Observe.truthy (np_preview_id p) = Some i \<longrightarrow>
          (\<exists>payload t. lookup_preview (ne_clock env) i (nw_previews w) = PlHit payload t \<and> pv_page_id payload = np_page_id p
             \<and> pv_actor_id payload = Some (ac_id (np_actor p)) \<and> pv_sources payload = pageCitedClaimIds fm
             \<and> pv_shared payload = filter (\<lambda>c. c \<in> cited_elsewhere env (np_page_path p) (nw_pages w)) (pageCitedClaimIds fm))
          \<and> (\<forall>ck. \<exists>t. lookup_preview ck i (nw_previews w') = PlConsumed t))"
proof -
  obtain raw fm where page: "map_of (nw_pages w) (np_page_path p) = Some raw" "ne_frontmatter env raw = Some fm"
    and change: "endorse_change env fence p raw (pageCitedClaimIds fm) (shared_claims env (np_page_path p) (pageCitedClaimIds fm) (nw_pages w)) oid
         (ne_hash env (endorse_payload_of p)) None w = (Inr r, w')"
    using endorse_run [OF assms(1,2)] assms(3-6) by (metis option.inject)
  let ?shared = "shared_claims env (np_page_path p) (pageCitedClaimIds fm) (nw_pages w)"
  have check: "check_preview env p (pageCitedClaimIds fm) ?shared (nw_previews w) = Inr ()"
    by (rule endorse_change_run [OF change assms(3,7,8)])
  have prev: "nw_previews w' = nw_previews (consume_if env (np_preview_id p) w)" by (rule endorse_change_run [OF change assms(3,7,8)])
  have hit: "(\<exists>payload t. lookup_preview (ne_clock env) i (nw_previews w) = PlHit payload t \<and> pv_page_id payload = np_page_id p
             \<and> pv_actor_id payload = Some (ac_id (np_actor p)) \<and> pv_sources payload = pageCitedClaimIds fm \<and> pv_shared payload = ?shared)
          \<and> (\<forall>ck. \<exists>t. lookup_preview ck i (nw_previews w') = PlConsumed t)" if i: "Observe.truthy (np_preview_id p) = Some i" for i
  proof -
    obtain payload t where hit: "lookup_preview (ne_clock env) i (nw_previews w) = PlHit payload t" "pv_page_id payload = np_page_id p"
             "pv_actor_id payload = Some (ac_id (np_actor p))" "pv_sources payload = pageCitedClaimIds fm" "pv_shared payload = ?shared"
      using check i by (auto simp: check_preview_def split: preview_lookup.splits if_splits)
    moreover have "nw_previews w' = snd (consume_preview (ne_clock env) i (nw_previews w))" using prev i by (simp add: consume_if_def)
    ultimately show ?thesis using consume_hit(2) [OF hit(1) assms(9)] by auto
  qed
  have "Observe.truthy (np_preview_id p) \<noteq> None" if "c \<in> set (pageCitedClaimIds fm)" "(path, other) \<in> set (nw_pages w)" "path \<noteq> np_page_path p"
      "ne_frontmatter env other = Some fm2" "c \<in> set (pageCitedClaimIds fm2)" for c path other fm2
  proof -
    have "c \<in> set ((\<lambda>(q, raw). if q = np_page_path p then [] else case ne_frontmatter env raw of None \<Rightarrow> [] | Some fm \<Rightarrow> pageCitedClaimIds fm) (path, other))"
      using that by simp
    then have "c \<in> cited_elsewhere env (np_page_path p) (nw_pages w)"
      unfolding cited_elsewhere_def set_concat set_map using that(2) by blast
    then have "?shared \<noteq> []" using that(1) by (auto simp: shared_claims_def filter_empty_conv)
    then show ?thesis using check by (cases "Observe.truthy (np_preview_id p)") (simp_all add: check_preview_def)
  qed
  then show ?thesis using page hit unfolding shared_claims_def by blast
qed

text \<open>C39: A crashed endorsement outlives its preview. When an endorsement was prepared and its recovery leaves it pending (a crash after the
  claim versions and before the page), a retry after the expiry of the preview is refused as expired and writes nothing to the claims, the pages or the
  previews; and a retry with a new preview is refused as a conflict and writes nothing at all, because the preview id is part of the prepared
  payload (where the hash of the payload tells the two apart). After either retry the claim log reads as before, so what the crashed call had
  written to it is still there, and the operations log holds no entry of the operation.\<close>

theorem crashed_endorsement_outlives_preview:
  assumes "starts_with (ac_id (np_actor p)) ''user:''" and "requireRegisteredActor (fe_now (ne_base env)) (ac_id (np_actor p)) config = Inr ()"
    and "map_of (nw_pages w) (np_page_path p) = Some raw" and "ne_frontmatter env raw = Some fm" and "\<not> np_dry_run p"
    and "Observe.truthy (np_operation_id p) = Some oid" and "isValidOperationId oid" and "ow_ops (fw_pod (nw_base w)) = Some ops"
    and "readAllOpLogEntries ops = Inr es" and "\<forall>e \<in> set es. oe_operation_id e \<noteq> oid"
    and "readOperationIntent (ow_intents (fw_pod (nw_base w))) oid = Inr (Some i)" and "it_body i = IEndorse b"
    and "it_actor_id i = ac_id (np_actor p)" and "it_payload_hash i = ne_hash env (endorse_payload_of p)"
    and "runRecovery (fe_others (ne_base env)) (fe_now_iso (ne_base env)) (fe_hs (ne_base env))
          \<lparr>rx_evidence = None, rx_claims = Some (claims_of (nw_base w)), rx_wiki = Some (wiki_files env (nw_pages w)), rx_fenced = (fence \<noteq> None)\<rparr>
          ops (ow_intents (fw_pod (nw_base w))) (ow_fence (fw_pod (nw_base w))) = (Inr report, ops', ints', f')"
    and "oid \<notin> set (rr_manual report)" and "readAllOpLogEntries ops' = Inr es'" and "\<forall>e \<in> set es'. oe_operation_id e \<noteq> oid"
    and "Observe.truthy (np_preview_id p) = Some pid" and "lookup_preview (ne_clock env) pid (nw_previews w) = PlExpired created expires"
  shows "(\<exists>w1 ops1 es1. handleEndorse env config fence p w = (Inl (ProtocolError ''preview_expired'' NoDetails), w1)
        \<and> fw_store (nw_base w1) = fw_store (nw_base w) \<and> nw_pages w1 = nw_pages w \<and> nw_previews w1 = nw_previews w
        \<and> iterAllClaimVersions (ne_sha env) (claims_of (nw_base w1)) = iterAllClaimVersions (ne_sha env) (claims_of (nw_base w))
        \<and> ow_ops (fw_pod (nw_base w1)) = Some ops1 \<and> readAllOpLogEntries ops1 = Inr es1 \<and> (\<forall>e \<in> set es1. oe_operation_id e \<noteq> oid))
    \<and> (\<forall>pid2. ne_hash env (endorse_payload_of (p\<lparr>np_preview_id := pid2\<rparr>)) \<noteq> ne_hash env (endorse_payload_of p)
        \<longrightarrow> handleEndorse env config fence (p\<lparr>np_preview_id := pid2\<rparr>) w = (conflict, w))"
proof -
  have new: "endorse_committed env q oid h ops w = (Inr None, w)" for q h
    using assms(9,10) by (simp add: endorse_committed_def Let_def filter_empty_conv)
  let ?w1 = "w\<lparr>nw_base := (nw_base w)\<lparr>fw_pod := (fw_pod (nw_base w))\<lparr>ow_ops := Some ops', ow_intents := ints', ow_fence := f'\<rparr>\<rparr>\<rparr>"
  have still: "endorse_committed env q oid h ops' ?w1 = (Inr None, ?w1)" for q h
    using assms(17,18) by (simp add: endorse_committed_def Let_def filter_empty_conv)
  have stage: "endorse_replay_stage env fence p oid (ne_hash env (endorse_payload_of p)) ops w = (Inr (Inr (Some (i, b))), ?w1)"
    using new still assms(11-16) by (simp add: endorse_replay_stage_def and_then_def Let_def)
  have expired: "check_preview env p sources shared (nw_previews ?w1) = Inl (ProtocolError ''preview_expired'' NoDetails)" for sources shared
    using assms(19,20) by (simp add: check_preview_def)
  have "handleEndorse env config fence p w = (Inl (ProtocolError ''preview_expired'' NoDetails), ?w1)"
    using assms(1-8) stage expired by (simp add: handleEndorse_def Let_def and_then_def endorse_change_def)
  moreover have "handleEndorse env config fence (p\<lparr>np_preview_id := pid2\<rparr>) w = (conflict, w)"
    if "ne_hash env (endorse_payload_of (p\<lparr>np_preview_id := pid2\<rparr>)) \<noteq> ne_hash env (endorse_payload_of p)" for pid2
  proof -
    have "endorse_replay_stage env fence (p\<lparr>np_preview_id := pid2\<rparr>) oid (ne_hash env (endorse_payload_of (p\<lparr>np_preview_id := pid2\<rparr>))) ops w = (conflict, w)"
      using new assms(11-14) that by (simp add: endorse_replay_stage_def and_then_def Let_def)
    then show ?thesis using assms(1-8) by (simp add: handleEndorse_def Let_def and_then_def)
  qed
  ultimately show ?thesis using assms(17,18) by (auto simp: claims_of_def)
qed

section \<open>Witnesses\<close>

definition demo_endorse_id :: string where
  "demo_endorse_id = ''op_00000000000000000000000009''"

definition demo_clock :: "int \<Rightarrow> preview_clock" where
  "demo_clock now = \<lparr>pc_now = now, pc_iso = (\<lambda>n. if n = 300000 then ''t1'' else ''t0''), pc_ms = (\<lambda>s. Some (if s = ''t1'' then 300000 else 0)),
     pc_ttl_seconds = DEFAULT_TTL_SECONDS\<rparr>"

definition demo_endorse_env :: "int \<Rightarrow> endorse_env" where
  "demo_endorse_env now =
     \<lparr>ne_base = demo_forget_env\<lparr>fe_hs := demo_hs\<lparr>hs_page := (\<lambda>_. replicate 64 (CHR ''c''))\<rparr>\<rparr>, ne_clock = demo_clock now,
      ne_hash = (\<lambda>y. replicate 64 (if ny_preview_id y = Some ''preview_u'' then CHR ''a'' else CHR ''b'')),
      ne_frontmatter = (\<lambda>_. Some ([(''sources'', JArr [JStr ''claim_a''])], False)), ne_render = (\<lambda>_ _ _. ''endorsed''),
      ne_stamped = (\<lambda>raw. if raw = ''endorsed'' then (Some demo_endorse_id, Some ''page'') else (None, None))\<rparr>"

definition demo_endorse :: "bool \<Rightarrow> endorse_params" where
  "demo_endorse dry = \<lparr>np_actor = \<lparr>ac_type = Person, ac_id = ''user:local'', ac_display_name = ''A''\<rparr>, np_page_id = ''page'', np_page_path = ''p1.md'',
     np_dry_run = dry, np_preview_id = (if dry then None else Some ''preview_u''), np_reason = ''ok'',
     np_operation_id = (if dry then None else Some demo_endorse_id)\<rparr>"

definition demo_wiki :: endorse_world where
  "demo_wiki = \<lparr>nw_base = demo_forget_world, nw_pages = [(''p1.md'', ''one''), (''p2.md'', ''two'')], nw_previews = []\<rparr>"

definition demo_previewed :: endorse_world where
  "demo_previewed = snd (handleEndorse (demo_endorse_env 0) Observe.demo_config None (demo_endorse True) demo_wiki)"

definition demo_endorsed :: "endorse_result outcome \<times> endorse_world" where
  "demo_endorsed = handleEndorse (demo_endorse_env 0) Observe.demo_config None (demo_endorse False) demo_previewed"

lemma demo_endorsed_ok: "fst demo_endorsed = Inr (EndorseCommit ''page'' 1 demo_endorse_id ''2026-01-02T00:00:00Z'')"
  by code_simp

lemma demo_previewed_facts:
  "nw_base demo_previewed = demo_forget_world" "nw_pages demo_previewed = [(''p1.md'', ''one''), (''p2.md'', ''two'')]" "length (nw_previews demo_previewed) = 1"
proof -
  show "nw_base demo_previewed = demo_forget_world" "nw_pages demo_previewed = [(''p1.md'', ''one''), (''p2.md'', ''two'')]"
    using dry_run_keeps [of "demo_endorse True"] by (simp_all add: demo_previewed_def demo_endorse_def demo_wiki_def)
  show "length (nw_previews demo_previewed) = 1" by code_simp
qed

lemma demo_endorse_facts:
  "ow_ops (fw_pod demo_forget_world) = Some []" "readAllOpLogEntries [] = Inr []" "Observe.truthy (np_operation_id (demo_endorse False)) = Some demo_endorse_id"
  "operation_unused demo_endorse_id (fw_pod demo_forget_world)" "claims_of demo_forget_world = [(''2026-01'', [Line demo_remembered])]"
  "iterAllClaimVersions (ne_sha (demo_endorse_env n)) [(''2026-01'', [Line demo_remembered])] = Inr [demo_remembered]"
proof -
  show "ow_ops (fw_pod demo_forget_world) = Some []" "readAllOpLogEntries [] = Inr []"
    "Observe.truthy (np_operation_id (demo_endorse False)) = Some demo_endorse_id" by code_simp+
  show "operation_unused demo_endorse_id (fw_pod demo_forget_world)"
    using demo_forget_ready(3) by (simp add: operation_fresh_def demo_endorse_id_def)
  show "claims_of demo_forget_world = [(''2026-01'', [Line demo_remembered])]"
    using demo_forget_ready(1) by (simp add: log_ready_def claims_of_def Claim_Store.or_else_def)
  show "iterAllClaimVersions (ne_sha (demo_endorse_env n)) [(''2026-01'', [Line demo_remembered])] = Inr [demo_remembered]"
    using demo_forget_ready(1) by (simp add: log_ready_def demo_endorse_env_def)
qed

lemma demo_endorse_fresh:
  "handleEndorse (demo_endorse_env 0) Observe.demo_config None (demo_endorse False) demo_previewed
     = (Inr (EndorseCommit ''page'' 1 demo_endorse_id ''2026-01-02T00:00:00Z''), snd demo_endorsed)"
  "\<not> np_dry_run (demo_endorse False)" "ow_ops (fw_pod (nw_base demo_previewed)) = Some []" "operation_unused demo_endorse_id (fw_pod (nw_base demo_previewed))"
  "iterAllClaimVersions (ne_sha (demo_endorse_env 0)) (claims_of (nw_base demo_previewed)) = Inr [demo_remembered]"
  "\<forall>v \<in> set [demo_remembered]. cv_operation_id v \<noteq> demo_endorse_id"
  using demo_endorsed_ok demo_endorse_facts demo_forget_facts(7)
  by (simp_all add: demo_endorsed_def [symmetric] prod_eq_iff demo_previewed_facts(1) demo_endorse_id_def) (simp add: demo_endorse_def)

theorem endorse_adopts_cited_claims_witness:
  "\<exists>new v. st_log (fw_store (nw_base (snd demo_endorsed))) = Some (appendClaimVersions new [(''2026-01'', [Line demo_remembered])])
     \<and> new = [v] \<and> cv_author v = AUser \<and> vl_endorsement_source (cv_lineage v) = Some ''page''"
proof -
  have cited: "pageCitedClaimIds ([(''sources'', JArr [JStr ''claim_a''])], False) = [''claim_a'']" by code_simp
  have env: "ne_frontmatter (demo_endorse_env 0) raw = Some ([(''sources'', JArr [JStr ''claim_a''])], False)" for raw by (simp add: demo_endorse_env_def)
  have page: "np_page_id (demo_endorse False) = ''page''" by (simp add: demo_endorse_def)
  from endorse_adopts_cited_claims [OF demo_endorse_fresh(1-3) demo_endorse_facts(2,3) demo_endorse_fresh(4-6)]
  obtain new where "list_all2 (\<lambda>c v. cv_author v = AUser \<and> vl_endorsement_source (cv_lineage v) = Some ''page'') [''claim_a''] new"
    "st_log (fw_store (nw_base (snd demo_endorsed))) = (if new = [] then st_log (fw_store (nw_base demo_previewed)) else Some (appendClaimVersions new (claims_of (nw_base demo_previewed))))"
    unfolding env page option.inject by (auto simp: cited list_all2_Cons1)
  then show ?thesis by (auto simp: list_all2_Cons1 demo_previewed_facts(1) demo_endorse_facts(5))
qed

theorem cascade_needs_current_preview_witness:
  "\<exists>payload t u. lookup_preview (demo_clock 0) ''preview_u'' (nw_previews demo_previewed) = PlHit payload t \<and> pv_shared payload = [''claim_a'']
     \<and> lookup_preview (demo_clock 9) ''preview_u'' (nw_previews (snd demo_endorsed)) = PlConsumed u"
proof -
  let ?fm = "([(''sources'', JArr [JStr ''claim_a''])], False)"
  have iso: "pc_iso (ne_clock (demo_endorse_env 0)) (pc_now (ne_clock (demo_endorse_env 0))) \<noteq> []" by code_simp
  have pid: "Observe.truthy (np_preview_id (demo_endorse False)) = Some ''preview_u''" by code_simp
  have clock: "ne_clock (demo_endorse_env 0) = demo_clock 0" and env: "ne_frontmatter (demo_endorse_env 0) raw = Some ?fm"
    and path: "np_page_path (demo_endorse False) = ''p1.md''" for raw by (simp_all add: demo_endorse_env_def demo_endorse_def)
  have shared: "filter (\<lambda>c. c \<in> cited_elsewhere (demo_endorse_env 0) ''p1.md'' [(''p1.md'', ''one''), (''p2.md'', ''two'')]) (pageCitedClaimIds ?fm) = [''claim_a'']"
    by code_simp
  from cascade_needs_current_preview [OF demo_endorse_fresh(1-3) demo_endorse_facts(2,3) demo_endorse_fresh(4-6) iso]
  have "(\<exists>payload t. lookup_preview (demo_clock 0) ''preview_u'' (nw_previews demo_previewed) = PlHit payload t \<and> pv_shared payload = [''claim_a''])
      \<and> (\<forall>ck. \<exists>t. lookup_preview ck ''preview_u'' (nw_previews (snd demo_endorsed)) = PlConsumed t)"
    unfolding env option.inject pid clock path demo_previewed_facts(2) by (elim exE conjE) (use shared in auto)
  then show ?thesis by blast
qed

text \<open>The endorsement prepared and written up to the page, then retried after the preview.\<close>

definition demo_new_version :: claim_version where
  "demo_new_version = endorsed_of (demo_endorse False) demo_endorse_id ''2026-01-02T00:00:00Z'' demo_remembered"

definition demo_prepared_intent :: "op_intent \<times> endorse_body" where
  "demo_prepared_intent = endorse_intent (demo_endorse_env 0) None (demo_endorse False) demo_endorse_id (replicate 64 (CHR ''a'')) ''2026-01-02T00:00:00Z''
     ''endorsed'' [demo_new_version]"

definition demo_crashed :: endorse_world where
  "demo_crashed = demo_previewed\<lparr>nw_base := (append_versions [demo_new_version] demo_forget_world)
     \<lparr>fw_pod := demo_world\<lparr>ow_intents := snd (persistOperationIntent (fst demo_prepared_intent) True [])\<rparr>\<rparr>\<rparr>"

definition demo_crash_recovery :: "recovery_report outcome \<times> ops_dir \<times> intents_dir \<times> fence_store" where
  "demo_crash_recovery = runRecovery (fe_others (ne_base (demo_endorse_env 400000))) (fe_now_iso (ne_base (demo_endorse_env 400000))) (fe_hs (ne_base (demo_endorse_env 400000)))
     \<lparr>rx_evidence = None, rx_claims = Some (claims_of (nw_base demo_crashed)), rx_wiki = Some (wiki_files (demo_endorse_env 400000) (nw_pages demo_crashed)),
       rx_fenced = ((None :: mutation_fence option) \<noteq> None)\<rparr>
     [] (ow_intents (fw_pod (nw_base demo_crashed))) (ow_fence (fw_pod (nw_base demo_crashed)))"

lemma demo_crash_pending:
  "(case demo_crash_recovery of (Inr report, ops', ints', f') \<Rightarrow> demo_endorse_id \<notin> set (rr_manual report) \<and> ops' = [] | _ \<Rightarrow> False)"
  by code_simp

lemma demo_crashed_facts:
  "map_of (nw_pages demo_crashed) (np_page_path (demo_endorse False)) = Some ''one''" "ow_ops (fw_pod (nw_base demo_crashed)) = Some []"
  "readOperationIntent (ow_intents (fw_pod (nw_base demo_crashed))) demo_endorse_id = Inr (Some (fst demo_prepared_intent))"
  "lookup_preview (ne_clock (demo_endorse_env 400000)) ''preview_u'' (nw_previews demo_crashed) = PlExpired ''t0'' ''t1''"
  by code_simp+

theorem crashed_endorsement_outlives_preview_witness:
  "fst (handleEndorse (demo_endorse_env 400000) Observe.demo_config None (demo_endorse False) demo_crashed) = Inl (ProtocolError ''preview_expired'' NoDetails)
   \<and> fst (handleEndorse (demo_endorse_env 400000) Observe.demo_config None ((demo_endorse False)\<lparr>np_preview_id := Some ''preview_2''\<rparr>) demo_crashed) = conflict
   \<and> iterAllClaimVersions (ne_sha (demo_endorse_env 400000)) (claims_of (nw_base (snd (handleEndorse (demo_endorse_env 400000) Observe.demo_config None (demo_endorse False) demo_crashed))))
       = Inr [demo_remembered, demo_new_version]"
proof -
  obtain report ops' ints' f' where rec: "demo_crash_recovery = (Inr report, ops', ints', f')" "demo_endorse_id \<notin> set (rr_manual report)" "ops' = []"
    using demo_crash_pending by (auto split: prod.splits sum.splits)
  let ?E = "demo_endorse_env 400000" and ?p = "demo_endorse False"
  have actor: "starts_with (ac_id (np_actor ?p)) ''user:''" "requireRegisteredActor (fe_now (ne_base ?E)) (ac_id (np_actor ?p)) Observe.demo_config = Inr ()"
    and ids: "isValidOperationId demo_endorse_id" "Observe.truthy (np_preview_id ?p) = Some ''preview_u''"
    and intent: "it_actor_id (fst demo_prepared_intent) = ac_id (np_actor ?p)" "it_payload_hash (fst demo_prepared_intent) = ne_hash ?E (endorse_payload_of ?p)"
    and other: "ne_hash ?E (endorse_payload_of (?p\<lparr>np_preview_id := Some ''preview_2''\<rparr>)) \<noteq> ne_hash ?E (endorse_payload_of ?p)"
    by code_simp+
  have page: "ne_frontmatter ?E ''one'' = Some ([(''sources'', JArr [JStr ''claim_a''])], False)" and commit: "\<not> np_dry_run ?p"
    and body: "it_body (fst demo_prepared_intent) = IEndorse (snd demo_prepared_intent)"
    by (simp_all add: demo_endorse_env_def demo_endorse_def demo_prepared_intent_def endorse_intent_def Let_def)
  have none: "\<forall>e \<in> set ([] :: op_entry list). oe_operation_id e \<noteq> demo_endorse_id" by simp
  note all = crashed_endorsement_outlives_preview [OF actor demo_crashed_facts(1) page commit demo_endorse_facts(3) ids(1) demo_crashed_facts(2)
      demo_endorse_facts(2) none demo_crashed_facts(3) body intent rec(1) [unfolded demo_crash_recovery_def rec(3)] rec(2) demo_endorse_facts(2) none ids(2) demo_crashed_facts(4)]
  have "iterAllClaimVersions (ne_sha ?E) (claims_of (nw_base demo_crashed)) = Inr [demo_remembered, demo_new_version]" by code_simp
  with all [THEN conjunct1] all [THEN conjunct2, rule_format, OF other] show ?thesis by auto
qed

end
