(* ===== verification/Spec2Isabelle.thy ===== *)
theory Spec2Isabelle
  imports Fingerprints Checkpoint SW_Prelude Jsonl Fence Config Auth Scopes Ops_Log Layer0 Sessions Claim_Log Intents Recovery Relations Secrets Sources Observe Ingestion Holds Compile_Queue Consent Entities Claim_Store Admission Replay Quarantine Forget Revise Context Retention Endorse
begin

text \<open>
  \<^bold>\<open>Smartware, verified.\<close> Smartware is a memory substrate for agents: a library and an MCP server that keep what
  people and agents observed, the claims derived from it, and who may read or change them. This development models its
  core in HOL and proves what makes it correct. Names of files are relative to \<^verbatim>\<open>src/src/\<close>.

  \<^bold>\<open>The program.\<close> A pod is a directory. Layer 0 (\<^verbatim>\<open>layer0/\<close>) is the append-only evidence log: one JSONL file per day,
  each record linked to the one before it by a hash, with a derived SQLite index that carries the effective status of
  every observation. Layer 1 (\<^verbatim>\<open>layer1/\<close>) is the log of claim versions, one JSONL file per month, with a derived claim
  store and its relations. The operations log (\<^verbatim>\<open>ops_log/\<close>) is the commit record: an operation prepares an intent, writes
  its artifacts and appends its entry last, and recovery finishes or reports what a crash left. The fencing store
  (\<^verbatim>\<open>storage/fence.ts\<close>) keeps a writer that lost its lease from committing. The configuration (\<^verbatim>\<open>config.ts\<close>) holds the
  owner, the scopes, grants, sources, retention and legal holds. Protocol handlers (\<^verbatim>\<open>protocol/\<close>, \<^verbatim>\<open>ingestion/\<close>) check
  the caller and drive these stores; the compile queue (\<^verbatim>\<open>compile_queue/\<close>) turns evidence into claims in the background.

  \<^bold>\<open>The theories\<close>, in the order they build on each other:

  \<^item> \<open>SW_Prelude\<close>: outcomes (an error or a value), JSON values, JavaScript maps, sets and strings, SQLite rows with
    \<^verbatim>\<open>INSERT OR IGNORE\<close>, \<^verbatim>\<open>INSERT OR REPLACE\<close>, \<^verbatim>\<open>UPDATE\<close> and \<^verbatim>\<open>DELETE\<close>. Its locales are the interfaces the stores share:
    \<open>key_preserving\<close> (a statement that rewrites rows and keeps their key) and \<open>log_replay\<close> (an index that is replayed
    from a log); each store interprets them on its own statements.
  \<^item> \<open>Jsonl\<close>: a directory of JSONL files as days and lines, appending and reading in order, unparsable lines as errors.
  \<^item> \<open>Fence\<close> (\<^verbatim>\<open>storage/fence.ts\<close>): epochs, the commit guard, recovery authorizations, refusals. Lemmas: commits never
    regress to an older epoch, what the guard decides on every branch, that other processes' steps between the check and
    the write cannot let a stale writer through.
  \<^item> \<open>Config\<close>, \<open>Auth\<close>, \<open>Scopes\<close> (\<^verbatim>\<open>config.ts\<close>, \<^verbatim>\<open>auth/\<close>, \<^verbatim>\<open>scopes/\<close>): configuration data, grants and the middleware,
    trust and quarantine, alias files, the scope tree and cross-scope visibility. Lemmas: who a check admits, that
    revocation is effective, that the ancestor walk ends on a tree and runs forever on a cycle.
  \<^item> \<open>Ops_Log\<close> (\<^verbatim>\<open>ops_log/log.ts\<close>, \<^verbatim>\<open>commit.ts\<close>, \<^verbatim>\<open>ops_index.ts\<close>): the log, the fenced commit helper and the index, which
    is proved to mirror the log.
  \<^item> \<open>Layer0\<close>, \<open>Secrets\<close> (\<^verbatim>\<open>layer0/\<close>): observations, the log, the index with its mutation events, deduplication, the hash
    chain, attachment rules; the secret patterns as regular expressions with their languages.
  \<^item> \<open>Sessions\<close>, \<open>Checkpoint\<close> (\<^verbatim>\<open>session/\<close>, \<^verbatim>\<open>protocol/session.ts\<close>): trust, capabilities and the life of a session; the
    envelope of a checkpoint, which is proved to round-trip.
  \<^item> \<open>Claim_Log\<close>, \<open>Relations\<close> (\<^verbatim>\<open>layer1/jsonl.ts\<close>, \<^verbatim>\<open>effective_current.ts\<close> and others): claim versions, purging a scope,
    typed relations, which claims are effective, and when the cycle check admits an edge. That the revision handler never
    makes suppression cyclic is proved in \<open>Revise\<close>, over the claim log it reads the prior relations from.
  \<^item> \<open>Fingerprints\<close> (\<^verbatim>\<open>compile_queue/fingerprint.ts\<close>): the index of the latest claim versions by fingerprint, with its batch
    overlay; opening it answers what the claim log says.
  \<^item> \<open>Intents\<close>, \<open>Recovery\<close> (\<^verbatim>\<open>ops_log/intent.ts\<close>, \<^verbatim>\<open>recovery.ts\<close>): the seven kinds of intent, the scan of a pod after a
    crash, what is finalized, aborted, removed or left for review, also when the run ends in an error.
  \<^item> \<open>Sources\<close>, \<open>Observe\<close>, \<open>Ingestion\<close> (\<^verbatim>\<open>ingestion/\<close>, \<^verbatim>\<open>protocol/observe.ts\<close>): the source registry, the whole observe
    handler over all the stores above, batches with their ledger and the sync status.
  \<^item> \<open>Holds\<close>, \<open>Consent\<close>, \<open>Compile_Queue\<close> (\<^verbatim>\<open>protocol/hold_release.ts\<close>, \<^verbatim>\<open>grant.ts\<close>, \<^verbatim>\<open>revoke.ts\<close>, \<^verbatim>\<open>compile_queue/\<close>): the
    release of a legal hold with its crash points, audited consent and the hash chain under runs of the writing
    handlers, the job queue and its reconciliation at open.
  \<^item> \<open>Entities\<close>, \<open>Claim_Store\<close> (\<^verbatim>\<open>layer1/entities.ts\<close>, \<^verbatim>\<open>store.ts\<close>): the resolution of a name to an entity, claim rows
    with the versions every insert appends, the batch sync from the canonical log. Lemmas: the batch equals the serial
    sync, what a reopened store says of every claim.
  \<^item> \<open>Admission\<close> (\<^verbatim>\<open>layer1/conflicts.ts\<close>, \<^verbatim>\<open>corroboration.ts\<close>, \<^verbatim>\<open>confidence.ts\<close>): what happens to a new claim that
    agrees or disagrees with stored ones. Lemmas: a disagreement contests every rival and resolves none, a later window
    closes the earlier ones, one survivor of equal facts, the range of a score. The clock and the minted identifiers of a
    run are one argument, so lemmas that compare two runs speak of runs with the same clock and identifiers.
  \<^item> \<open>Replay\<close>, \<open>Quarantine\<close> (\<^verbatim>\<open>layer1/replay.ts\<close>, \<^verbatim>\<open>protocol/quarantine_review.ts\<close>): the evidence log replayed into the
    claim store, from scratch and by catch-up, and the owner's review of quarantined evidence. Lemmas: the catch-up equals
    the replay under one clock and one stream of identifiers, only accepted evidence is replayed, what a retraction removes.
    A malformed entry resolves its subject before it raises, and a malformed correction raises after the original's rewrite.
  \<^item> \<open>Forget\<close>, \<open>Revise\<close>, \<open>Endorse\<close>, \<open>Retention\<close> (\<^verbatim>\<open>protocol/\<close>, \<^verbatim>\<open>preview_store/\<close>): the operations that change stored
    claims, each with its guards, its intent, the versions it writes, its commit signal and the replay of a committed id.
    \<open>Forget\<close> holds the world these handlers share. Lemmas: who may forget what, that a revival undoes a forgetting, what a
    revision may change, what an expiry writes and that a held scope never expires, that a cascade needs the preview it shows.
  \<^item> \<open>Context\<close> (\<^verbatim>\<open>layer4/\<close>, \<^verbatim>\<open>layer3/temporal.ts\<close>): the assembly of a bounded context. Claims and observations are in one
    database, so whether a claim is current also depends on the status of its evidence. Lemmas: every item passes the policy, the
    budget holds, no lane starves.

  \<^bold>\<open>How the code is modelled.\<close> A struct is a record and an enumeration a datatype. A store is passed in and returned; a
  handler returns an outcome and the new world, which on an error is the world at the moment of the throw, so partial
  writes show. Error texts are dropped and codes kept. SQLite tables are lists of rows in rowid order. Readers that are
  generators are modelled day by day where the caller acts between days. \<^verbatim>\<open>undefined\<close> and \<^verbatim>\<open>null\<close> are told apart where the
  code does. Times are ISO strings or millisecond integers as in the code, and the clock is an argument; a call runs at
  one instant. Loops are structural recursion or carry a termination proof, except the ancestor walk, which may not end
  and is a partial function. No fuel is used anywhere. Scores and shares, doubles in the code, are exact rationals, with
  NaN and the infinities as a value of their own; rounding is not modelled. JSON read from a log and cast to a declared
  shape without a check is read at that shape, and an entry of another shape is treated as the code's catch clause does.
  Work a handler starts and does not wait for is taken to have run, and its errors are dropped. Test hooks are left out.

  \<^bold>\<open>Parameters.\<close> SHA-256 over a canonical serialisation, ULIDs, \<^verbatim>\<open>JSON.stringify\<close> of a structured body, \<^verbatim>\<open>Number\<close> of a
  string, the byte length of a line, locale collation, the parser and printer of timestamps, \<^verbatim>\<open>Math.pow\<close>, the order SQLite
  gives rows without \<^verbatim>\<open>ORDER BY\<close>, the order a sort gives when scores are not numbers, the hits of the full-text index, and
  the YAML of a page are arguments of the definitions. Where a theorem needs something of them it is a hypothesis: that no
  two records of the compared logs collide, that a line has a positive length, that collation and a query plan are
  permutations, that a minted id is unused, that a printed time parses back. Steps of other processes are an arbitrary
  function that may only advance the fencing store.

  \<^bold>\<open>What is shown.\<close> Each theory states its properties under the heading Properties, each with a concrete instance.
  Crash safety: recovery finalizes only exact artifacts, never twice, and completes what it can; the commit signal is
  written last; a retried operation is replayed. Integrity: the evidence chain verifies after any run of the writing
  handlers and is tamper-evident; indexes equal a replay of their logs; terminal statuses are absorbing and erasure
  survives a rebuild. Admission: nothing is written without a grant, an active source and a clean secret scan; ended
  sessions stay ended; holds are lifted only with a receipt and keep a scope from expiring. Batches never duplicate a source
  item and their cursors chain. Claims: an admission never resolves a disagreement by itself, an agent never forgets a user's
  claim, a revision changes metadata only, an endorsement adopts exactly the cited claims, and a context shows nothing its
  policy hides.

  \<^bold>\<open>Defects shown.\<close> The ancestor walk never ends on a cycle; an idempotency key bypasses the source deduplication; a retry
  is lost when the pod is reopened; the status a reopened store gives differs from the one it had; a retracted evidence
  leaves contested rivals contested; approving quarantined evidence materialises none of its claims; the retry of a redaction
  conflicts with itself; a re-pick commits without the fence; a correction for being wrong makes every valid-time query of
  the pod fail; a sweep id answers for another scope; a crashed endorsement can be replayed after its preview is gone.

  \<^bold>\<open>Not modelled, and why.\<close> Process input and output (\<^verbatim>\<open>mcp.ts\<close>, \<^verbatim>\<open>index.ts\<close>, \<^verbatim>\<open>cli.ts\<close>), the class of \<^verbatim>\<open>core.ts\<close> that
  delegates to the handlers, rendering, observability, health reports, scripts and the evaluation harness hold no state of
  the program's own. SQLite full-text and vector search rank by the scores of an engine outside the repository; their hits
  are a parameter of the context assembly. Claim extraction by patterns and language models, and \<^verbatim>\<open>protocol/reflect.ts\<close>
  which drives it, the dream phases, \<^verbatim>\<open>consolidate.ts\<close>, which merges by a text distance, and the
  wiki of \<^verbatim>\<open>layer2/\<close> rest on text that the model does not interpret. Of \<^verbatim>\<open>forget_scope.ts\<close> the opening of the hold, the purge
  of the claim log and the recovery of its intent are modelled and the handler is not; the export and restore of a scope, the
  backfill of tombstones and schema migrations are not. The read handlers change no state; what they may show is
  modelled in \<open>Auth\<close>, \<open>Scopes\<close> and \<open>Context\<close>. Code points above U+00FF and names of properties of \<^verbatim>\<open>Object.prototype\<close>
  as keys of plain objects are outside the model.
\<close>

end
